(* ===== verification/Go_Prelude.thy ===== *)
theory Go_Prelude
  imports Main "HOL-Library.AList" "HOL-Library.Sublist"
begin

text \<open>
  What the components share: Go's strings (byte strings), instants and durations, saturating
  subtraction of instants, maps with an iteration order, the two "find the oldest entry" scans
  that the caches of the program repeat, and the contract of a size-bounded cache.

  A Go string is a sequence of bytes and HOL's \<open>string\<close> is a list of 8-bit characters, so the
  two agree byte for byte. Case conversion is modelled on the ASCII letters; bytes above 7F are
  left alone (exact for ASCII text, which is what the program compares case-insensitively).
\<close>

named_theorems gomap_simps \<open>laws of maps, lookups after an update, sizes\<close>
named_theorems go_time \<open>instants, durations, saturation\<close>

section \<open>Strings\<close>

definition lower_char :: "char \<Rightarrow> char" where
  "lower_char c = (if 65 \<le> (of_char c :: nat) \<and> (of_char c :: nat) \<le> 90
     then char_of ((of_char c :: nat) + 32) else c)"

definition to_lower :: "string \<Rightarrow> string" where
  "to_lower s = map lower_char s"

definition equal_fold :: "string \<Rightarrow> string \<Rightarrow> bool" where
  "equal_fold a b = (to_lower a = to_lower b)"

definition contains :: "string \<Rightarrow> string \<Rightarrow> bool" where
  "contains s p = sublist p s"

definition has_prefix :: "string \<Rightarrow> string \<Rightarrow> bool" where
  "has_prefix s p = prefix p s"

definition has_suffix :: "string \<Rightarrow> string \<Rightarrow> bool" where
  "has_suffix s p = suffix p s"

definition trim_prefix :: "string \<Rightarrow> string \<Rightarrow> string" where
  "trim_prefix s p = (if has_prefix s p then drop (length p) s else s)"

text \<open>
  \<open>strings.TrimSpace\<close> strips the runes of \<open>unicode.IsSpace\<close>. Their UTF-8 encodings are a
  finite set and UTF-8 synchronises itself, so stripping those byte sequences from both ends is
  what the function does.
\<close>

definition bytes_of :: "nat list \<Rightarrow> string" where
  "bytes_of ns = map char_of ns"

definition space_encodings :: "string list" where
  "space_encodings =
     map bytes_of [[9], [10], [11], [12], [13], [32], [194, 133], [194, 160], [225, 154, 128],
       [226, 128, 168], [226, 128, 169], [226, 128, 175], [226, 129, 159], [227, 128, 128]]
     @ map (\<lambda>n. bytes_of [226, 128, 128 + n]) [0..<11]"

fun strip_one :: "string list \<Rightarrow> string \<Rightarrow> string option" where
  "strip_one [] s = None"
| "strip_one (e # es) s = (if e \<noteq> [] \<and> prefix e s then Some (drop (length e) s) else strip_one es s)"

lemma strip_one_shorter: "strip_one es s = Some s' \<Longrightarrow> length s' < length s"
proof (induction es)
  case (Cons e es)
  then show ?case by (cases s; cases e) (auto split: if_splits)
qed simp

function strip_all :: "string list \<Rightarrow> string \<Rightarrow> string" where
  "strip_all es s = (case strip_one es s of None \<Rightarrow> s | Some s' \<Rightarrow> strip_all es s')"
  by pat_completeness auto
termination
  by (relation "measure (\<lambda>(es, s). length s)") (auto dest: strip_one_shorter)

declare strip_all.simps [simp del]

definition trim_space :: "string \<Rightarrow> string" where
  "trim_space s = rev (strip_all (map rev space_encodings) (rev (strip_all space_encodings s)))"

fun trim_head :: "(char \<Rightarrow> bool) \<Rightarrow> string \<Rightarrow> string" where
  "trim_head p [] = []"
| "trim_head p (c # s) = (if p c then trim_head p s else c # s)"

fun index_byte :: "string \<Rightarrow> char \<Rightarrow> nat option" where
  "index_byte [] b = None"
| "index_byte (c # s) b = (if c = b then Some 0 else map_option Suc (index_byte s b))"

lemma strip_all_suffix: "suffix (strip_all es s) s"
proof (induction es s rule: strip_all.induct)
  case (1 es s)
  show ?case
  proof (cases "strip_one es s")
    case None
    then show ?thesis by (simp add: strip_all.simps [of es s])
  next
    case (Some s')
    have "\<exists>n. s' = drop n s"
      using Some by (induction es) (auto split: if_splits)
    then have "suffix s' s" by (auto simp: suffix_drop)
    with 1 [OF Some] have "suffix (strip_all es s') s" by (rule suffix_order.trans)
    with Some show ?thesis by (simp add: strip_all.simps [of es s])
  qed
qed

lemma strip_all_Nil [simp]: "strip_all es [] = []"
  using strip_all_suffix [of es "[]"] by simp

lemma trim_space_Nil [simp]: "trim_space [] = []"
  by (simp add: trim_space_def)

lemma trim_space_length: "length (trim_space s) \<le> length s"
proof -
  have "length (strip_all es t) \<le> length t" for es t
    using strip_all_suffix [of es t] by (rule suffix_length_le)
  then show ?thesis
    unfolding trim_space_def by (metis le_trans length_rev)
qed

lemma strip_one_strip_all: "strip_one es (strip_all es s) = None"
proof (induction "length s" arbitrary: s rule: less_induct)
  case less
  show ?case
  proof (cases "strip_one es s")
    case None
    then show ?thesis by (simp add: strip_all.simps [of es s])
  next
    case (Some t)
    then show ?thesis using less [of t] strip_one_shorter [OF Some] by (simp add: strip_all.simps [of es s])
  qed
qed

lemma strip_one_None_iff: "strip_one es s = None \<longleftrightarrow> (\<forall>e \<in> set es. e = [] \<or> \<not> prefix e s)"
  by (induction es) auto

lemma strip_all_None: "strip_one es s = None \<Longrightarrow> strip_all es s = s"
  by (simp add: strip_all.simps [of es s])

lemma trim_space_idem [simp]: "trim_space (trim_space s) = trim_space s"
proof -
  let ?u = "strip_all space_encodings s"
  let ?t = "strip_all (map rev space_encodings) (rev ?u)"
  have "suffix ?t (rev ?u)" by (rule strip_all_suffix)
  then have "prefix (rev ?t) ?u" by (simp add: suffix_to_prefix)
  then have "strip_one space_encodings (rev ?t) = None"
    using strip_one_strip_all [of space_encodings s] prefix_order.trans
    by (fastforce simp: strip_one_None_iff)
  then have "strip_all space_encodings (rev ?t) = rev ?t" by (rule strip_all_None)
  moreover have "strip_all (map rev space_encodings) ?t = ?t"
    by (rule strip_all_None) (rule strip_one_strip_all)
  ultimately show ?thesis by (simp add: trim_space_def)
qed

text \<open>Printable ASCII at both ends is never stripped.\<close>

definition printable :: "char \<Rightarrow> bool" where
  "printable c \<longleftrightarrow> 33 \<le> (of_char c :: nat) \<and> (of_char c :: nat) \<le> 126"

lemma space_encodings_not_printable:
  "list_all (\<lambda>e. e \<noteq> [] \<and> \<not> printable (hd e)) (space_encodings @ map rev space_encodings)"
  by code_simp

lemma strip_all_id:
  assumes "list_all (\<lambda>e. e \<noteq> [] \<and> \<not> printable (hd e)) es" and "printable c"
  shows "strip_all es (c # s) = c # s"
proof -
  have "strip_one es (c # s) = None"
    using assms by (induction es) (auto simp: neq_Nil_conv)
  then show ?thesis by (simp add: strip_all.simps [of es "c # s"])
qed

lemma trim_space_id:
  assumes "s \<noteq> [] \<Longrightarrow> printable (hd s)" and "s \<noteq> [] \<Longrightarrow> printable (last s)"
  shows "trim_space s = s"
proof (cases "s = []")
  case False
  have es: "list_all (\<lambda>e. e \<noteq> [] \<and> \<not> printable (hd e)) space_encodings"
    "list_all (\<lambda>e. e \<noteq> [] \<and> \<not> printable (hd e)) (map rev space_encodings)"
    using space_encodings_not_printable by simp_all
  have "strip_all space_encodings s = s"
    using strip_all_id [OF es(1), of "hd s" "tl s"] assms(1) False by simp
  moreover have "strip_all (map rev space_encodings) (rev s) = rev s"
    using strip_all_id [OF es(2), of "last s" "rev (butlast s)"] assms(2) False
    by (metis append_butlast_last_id rev_eq_Cons_iff rev_rev_ident rev.simps(2) rev_append append_Cons append_Nil)
  ultimately show ?thesis by (simp add: trim_space_def)
qed simp

lemma to_lower_append [simp]: "to_lower (a @ b) = to_lower a @ to_lower b"
  by (simp add: to_lower_def)

lemma to_lower_Nil [simp]: "to_lower [] = []"
  by (simp add: to_lower_def)

lemma to_lower_Cons [simp]: "to_lower (c # s) = lower_char c # to_lower s"
  by (simp add: to_lower_def)

lemma length_to_lower [simp]: "length (to_lower s) = length s"
  by (simp add: to_lower_def)

lemma lower_char_idem [simp]: "lower_char (lower_char c) = lower_char c"
  by (simp add: lower_char_def)

lemma to_lower_idem [simp]: "to_lower (to_lower s) = to_lower s"
  by (simp add: to_lower_def)

lemma equal_fold_refl [simp]: "equal_fold a a"
  by (simp add: equal_fold_def)

lemma equal_fold_sym: "equal_fold a b \<Longrightarrow> equal_fold b a"
  by (simp add: equal_fold_def)

lemma contains_append: "contains s p \<Longrightarrow> contains (a @ s @ b) p"
  by (auto simp: contains_def intro: sublist_appendI sublist_append_leftI sublist_append_rightI
      sublist_order.order.trans)

lemma contains_trans: "contains s p \<Longrightarrow> contains p q \<Longrightarrow> contains s q"
  by (auto simp: contains_def intro: sublist_order.order.trans)

section \<open>Decimal numbers\<close>

text \<open>\<open>strconv.FormatInt(n, 10)\<close> and \<open>%d\<close>.\<close>

fun nat_digits :: "nat \<Rightarrow> string" where
  "nat_digits n = (if n < 10 then [char_of (48 + n)]
     else nat_digits (n div 10) @ [char_of (48 + n mod 10)])"

declare nat_digits.simps [simp del]

definition itoa :: "int \<Rightarrow> string" where
  "itoa n = (if n < 0 then ''-'' @ nat_digits (nat (- n)) else nat_digits (nat n))"

definition digit_value :: "char \<Rightarrow> nat" where
  "digit_value c = (of_char c :: nat) - 48"

definition digits_value :: "string \<Rightarrow> nat" where
  "digits_value s = foldl (\<lambda>n c. 10 * n + digit_value c) 0 s"

lemma digits_value_nat_digits: "digits_value (nat_digits n) = n"
proof (induction n rule: nat_digits.induct)
  case (1 n)
  show ?case
  proof (cases "n < 10")
    case True
    then show ?thesis
      by (simp add: nat_digits.simps [of n] digits_value_def digit_value_def)
  next
    case False
    with 1 have "digits_value (nat_digits (n div 10)) = n div 10" by simp
    with False show ?thesis
      by (simp add: nat_digits.simps [of n] digits_value_def digit_value_def)
  qed
qed

lemma nat_digits_range: "c \<in> set (nat_digits n) \<Longrightarrow> 48 \<le> (of_char c :: nat) \<and> (of_char c :: nat) \<le> 57"
proof (induction n rule: nat_digits.induct)
  case (1 n)
  show ?case
  proof (cases "n < 10")
    case True
    with 1 show ?thesis by (auto simp: nat_digits.simps [of n])
  next
    case False
    have "(48 + n mod 10) mod 256 = 48 + n mod 10" by (rule mod_less) simp
    with False 1 show ?thesis by (auto simp: nat_digits.simps [of n])
  qed
qed

lemma nat_digits_nonempty [simp]: "nat_digits n \<noteq> []"
  by (simp add: nat_digits.simps [of n])

lemma nat_digits_inject [simp]: "nat_digits m = nat_digits n \<longleftrightarrow> m = n"
  by (metis digits_value_nat_digits)

lemma minus_not_digit: "CHR ''-'' \<notin> set (nat_digits n)"
  using nat_digits_range [of "CHR ''-''" n] by auto

lemma nat_digits_not_minus [simp]: "nat_digits n \<noteq> CHR ''-'' # s"
  using minus_not_digit [of n] by (metis list.set_intros(1))

lemma itoa_inject [simp]: "itoa m = itoa n \<longleftrightarrow> m = n"
  by (auto simp: itoa_def nat_digits_not_minus [symmetric])

lemma itoa_chars: "c \<in> set (itoa n) \<Longrightarrow> c = CHR ''-'' \<or> (48 \<le> (of_char c :: nat) \<and> (of_char c :: nat) \<le> 57)"
  by (auto simp: itoa_def dest: nat_digits_range split: if_splits)

lemma trim_space_itoa [simp]: "trim_space (itoa n) = itoa n"
proof (rule trim_space_id)
  have "printable c" if "c \<in> set (itoa n)" for c
    using itoa_chars [OF that] by (auto simp: printable_def)
  then show "itoa n \<noteq> [] \<Longrightarrow> printable (hd (itoa n))" "itoa n \<noteq> [] \<Longrightarrow> printable (last (itoa n))"
    by auto
qed

lemma colon_not_itoa: "CHR '':'' \<notin> set (itoa n)"
  using itoa_chars [of "CHR '':''" n] by auto

lemma split_at_first:
  assumes "x \<notin> set a" and "x \<notin> set b" and "a @ x # s = b @ x # t"
  shows "a = b \<and> s = t"
  using assms
proof (induction a arbitrary: b)
  case Nil
  then show ?case by (cases b) auto
next
  case (Cons y a)
  then show ?case by (cases b) auto
qed

section \<open>Instants and durations\<close>

text \<open>
  A \<open>time.Time\<close> is the number of nanoseconds since the zero \<open>time.Time\<close> (year 1), so
  \<open>time.Time{}\<close> is 0 and \<open>IsZero\<close> is equality with 0. A \<open>time.Duration\<close> is a 64-bit number
  of nanoseconds; \<open>Sub\<close> saturates at its bounds.
\<close>

type_synonym instant = int
type_synonym duration = int

definition zero_time :: instant where
  "zero_time = 0"

definition is_zero :: "instant \<Rightarrow> bool" where
  "is_zero t = (t = zero_time)"

definition max_duration :: duration where
  "max_duration = 2 ^ 63 - 1"

definition min_duration :: duration where
  "min_duration = - (2 ^ 63)"

definition t_sub :: "instant \<Rightarrow> instant \<Rightarrow> duration" where
  "t_sub a b = max min_duration (min max_duration (a - b))"

definition t_add :: "instant \<Rightarrow> duration \<Rightarrow> instant" where
  "t_add t d = t + d"

definition millisecond :: duration where "millisecond = 1000000"
definition second :: duration where "second = 1000000000"
definition minute :: duration where "minute = 60 * second"
definition hour :: duration where "hour = 60 * minute"

lemmas duration_units = millisecond_def second_def minute_def hour_def

lemma t_sub_in_range [go_time]:
  "min_duration \<le> a - b \<Longrightarrow> a - b \<le> max_duration \<Longrightarrow> t_sub a b = a - b"
  by (simp add: t_sub_def)

lemma t_sub_ge_iff [go_time]:
  "min_duration < d \<Longrightarrow> d \<le> max_duration \<Longrightarrow> d \<le> t_sub a b \<longleftrightarrow> b + d \<le> a"
  by (auto simp: t_sub_def)

lemma t_sub_gt_iff [go_time]:
  "min_duration \<le> d \<Longrightarrow> d < max_duration \<Longrightarrow> d < t_sub a b \<longleftrightarrow> b + d < a"
  by (auto simp: t_sub_def)

section \<open>Signed 64-bit arithmetic\<close>

definition wrap64 :: "int \<Rightarrow> int" where
  "wrap64 n = (n + 2 ^ 63) mod 2 ^ 64 - 2 ^ 63"

definition in64 :: "int \<Rightarrow> bool" where
  "in64 n = (- (2 ^ 63) \<le> n \<and> n < 2 ^ 63)"

lemma wrap64_id: "in64 n \<Longrightarrow> wrap64 n = n"
  by (simp add: wrap64_def in64_def)

lemma in64_wrap64 [simp]: "in64 (wrap64 n)"
  using pos_mod_bound [of "2 ^ 64" "n + 2 ^ 63"] pos_mod_sign [of "2 ^ 64" "n + 2 ^ 63"]
  by (simp add: wrap64_def in64_def)

section \<open>Maps\<close>

text \<open>
  A Go map is an association list with distinct keys. The list order stands for the order in
  which one \<open>range\<close> over the map visits the keys, which Go leaves open: theorems quantify over
  all such lists, so they hold for every order, and \<open>same_map\<close> relates two orders of one map.
\<close>

type_synonym ('k, 'v) gomap = "('k \<times> 'v) list"

abbreviation gm_wf :: "('k, 'v) gomap \<Rightarrow> bool" where
  "gm_wf m \<equiv> distinct (map fst m)"

abbreviation gm_get :: "('k, 'v) gomap \<Rightarrow> 'k \<Rightarrow> 'v option" where
  "gm_get m k \<equiv> map_of m k"

abbreviation gm_put :: "'k \<Rightarrow> 'v \<Rightarrow> ('k, 'v) gomap \<Rightarrow> ('k, 'v) gomap" where
  "gm_put k v m \<equiv> AList.update k v m"

abbreviation gm_del :: "'k \<Rightarrow> ('k, 'v) gomap \<Rightarrow> ('k, 'v) gomap" where
  "gm_del k m \<equiv> AList.delete k m"

definition same_map :: "('k, 'v) gomap \<Rightarrow> ('k, 'v) gomap \<Rightarrow> bool" where
  "same_map m m' \<longleftrightarrow> gm_wf m \<and> gm_wf m' \<and> set m = set m'"

lemma gm_get_put [gomap_simps]: "gm_get (gm_put k v m) k' = (if k' = k then Some v else gm_get m k')"
  by (simp add: update_conv')

lemma gm_get_del [gomap_simps]: "gm_get (gm_del k m) k' = (if k' = k then None else gm_get m k')"
  by (simp add: delete_conv')

lemma gm_wf_put [simp, intro]: "gm_wf m \<Longrightarrow> gm_wf (gm_put k v m)"
  by (rule distinct_update)

lemma gm_wf_del [simp, intro]: "gm_wf m \<Longrightarrow> gm_wf (gm_del k m)"
  by (rule distinct_delete)

lemma gm_wf_filter [simp, intro]: "gm_wf m \<Longrightarrow> gm_wf (filter P m)"
  by (rule distinct_map_filter)

lemma gm_get_filter [gomap_simps]:
  "gm_wf m \<Longrightarrow> gm_get (filter P m) k
     = (case gm_get m k of None \<Rightarrow> None | Some v \<Rightarrow> if P (k, v) then Some v else None)"
  by (induction m) (auto simp: map_of_eq_None_iff rev_image_eqI split: option.splits)

lemma gm_len_put [gomap_simps]:
  "length (gm_put k v m) = (if gm_get m k = None then Suc (length m) else length m)"
  by (induction m) auto

lemma gm_len_del [gomap_simps]:
  "gm_wf m \<Longrightarrow> length (gm_del k m) = (if gm_get m k = None then length m else length m - 1)"
proof (induction m)
  case (Cons p m)
  obtain a b where p: "p = (a, b)" by force
  show ?case
  proof (cases "a = k")
    case True
    with Cons.prems p have "k \<notin> fst ` set m" by auto
    then have "gm_del k m = m" by (simp add: delete_idem)
    with p True show ?thesis by simp
  next
    case False
    from Cons have IH: "length (gm_del k m) = (if gm_get m k = None then length m else length m - 1)"
      by simp
    show ?thesis
    proof (cases "gm_get m k")
      case None
      with IH p False show ?thesis by simp
    next
      case (Some v)
      then have "m \<noteq> []" by auto
      with IH p False Some show ?thesis by (cases m) simp_all
    qed
  qed
qed simp

lemma gm_get_in: "gm_wf m \<Longrightarrow> (k, v) \<in> set m \<Longrightarrow> gm_get m k = Some v"
  by simp

lemma same_map_get: "same_map m m' \<Longrightarrow> gm_get m k = gm_get m' k"
  using map_of_inject_set [of m m'] by (simp add: same_map_def)

lemma same_map_length: "same_map m m' \<Longrightarrow> length m = length m'"
  by (metis same_map_def distinct_card distinct_map)

section \<open>Finding the oldest entry\<close>

text \<open>
  Two versions occur. The first keeps a flag that the loop is at its first entry; the second uses
  the empty key as the "nothing found yet" mark.
\<close>

fun scan_flag :: "('v \<Rightarrow> instant) \<Rightarrow> ('k, 'v) gomap \<Rightarrow> ('k \<times> instant) option \<Rightarrow> ('k \<times> instant) option" where
  "scan_flag at [] acc = acc"
| "scan_flag at ((k, v) # m) acc =
     scan_flag at m (case acc of None \<Rightarrow> Some (k, at v)
       | Some (lk, lt) \<Rightarrow> if at v < lt then Some (k, at v) else acc)"

fun scan_mark :: "('v \<Rightarrow> instant) \<Rightarrow> (string, 'v) gomap \<Rightarrow> string \<times> instant \<Rightarrow> string \<times> instant" where
  "scan_mark at [] acc = acc"
| "scan_mark at ((k, v) # m) acc =
     scan_mark at m (if fst acc = '''' \<or> at v < snd acc then (k, at v) else acc)"

lemma scan_flag_Some:
  assumes "scan_flag at m acc = r" and "m \<noteq> [] \<or> acc \<noteq> None"
  shows "\<exists>k t. r = Some (k, t) \<and> (\<forall>(k', v) \<in> set m. t \<le> at v)
           \<and> (\<forall>(k', t') \<in> set_option acc. t \<le> t')
           \<and> (r = acc \<or> (\<exists>v. (k, v) \<in> set m \<and> t = at v))"
  using assms
proof (induction m arbitrary: acc)
  case Nil
  then show ?case by auto
next
  case (Cons p m)
  obtain k v where p: "p = (k, v)" by force
  let ?acc = "case acc of None \<Rightarrow> Some (k, at v)
    | Some (lk, lt) \<Rightarrow> if at v < lt then Some (k, at v) else acc"
  have le: "\<And>a b t. ?acc = Some (a, b) \<Longrightarrow> t \<le> b \<Longrightarrow> t \<le> at v \<and> (\<forall>(k', t') \<in> set_option acc. t \<le> t')"
    by (auto split: option.splits if_splits)
  obtain a b where ab: "?acc = Some (a, b)" by (cases "?acc") (auto split: option.splits if_splits)
  from Cons.prems p have "scan_flag at m ?acc = r" by simp
  from Cons.IH [OF this] ab obtain k' t where
    r: "r = Some (k', t)" "\<forall>(k', v) \<in> set m. t \<le> at v" "t \<le> b"
      "r = ?acc \<or> (\<exists>v. (k', v) \<in> set m \<and> t = at v)"
    by auto
  have "r = acc \<or> (\<exists>v'. (k', v') \<in> set (p # m) \<and> t = at v')"
    using r(1,4) p by (auto split: option.splits if_splits)
  with r le [OF ab r(3)] p show ?case by auto
qed

lemma scan_flag_oldest:
  assumes "scan_flag at m None = Some (k, t)" and "m \<noteq> []"
  shows "\<exists>v. (k, v) \<in> set m \<and> t = at v" and "(k', v') \<in> set m \<Longrightarrow> t \<le> at v'"
  using scan_flag_Some [OF assms(1)] assms(2) by auto

lemma scan_flag_None_iff: "scan_flag at m None = None \<longleftrightarrow> m = []"
  using scan_flag_Some [of at m None] by (cases m) auto

text \<open>With no empty key in the map, the mark is as good as the flag.\<close>

lemma scan_mark_flag_aux:
  assumes "'''' \<notin> fst ` set m" and "fst acc \<noteq> ''''"
  shows "Some (scan_mark at m acc) = scan_flag at m (Some acc) \<and> fst (scan_mark at m acc) \<noteq> ''''"
  using assms
proof (induction m arbitrary: acc)
  case (Cons p m)
  obtain k v where p: "p = (k, v)" by force
  obtain a b where acc: "acc = (a, b)" by force
  from Cons.prems p acc have "'''' \<notin> fst ` set m" and "k \<noteq> ''''" and "a \<noteq> ''''" by auto
  then show ?case
    using Cons.IH [of "if at v < b then (k, at v) else (a, b)"] p acc by (cases "at v < b") simp_all
qed simp

lemma scan_mark_flag:
  assumes "'''' \<notin> fst ` set m"
  shows "scan_mark at m ('''', z) = (case scan_flag at m None of None \<Rightarrow> ('''', z) | Some r \<Rightarrow> r)"
    and "m \<noteq> [] \<Longrightarrow> fst (scan_mark at m ('''', z)) \<noteq> ''''"
proof -
  show "scan_mark at m ('''', z) = (case scan_flag at m None of None \<Rightarrow> ('''', z) | Some r \<Rightarrow> r)"
  proof (cases m)
    case (Cons p m')
    then have "'''' \<notin> fst ` set m'" and "fst (fst p, at (snd p)) \<noteq> ''''"
      using assms by (auto simp: image_iff) 
    from scan_mark_flag_aux [OF this, of at] show ?thesis
      using Cons by (cases p) (auto split: option.splits)
  qed simp
  show "fst (scan_mark at m ('''', z)) \<noteq> ''''" if "m \<noteq> []"
  proof -
    from \<open>m \<noteq> []\<close> obtain p m' where m: "m = p # m'" by (meson neq_Nil_conv)
    then have "'''' \<notin> fst ` set m'" and "fst (fst p, at (snd p)) \<noteq> ''''"
      using assms by (auto simp: image_iff)
    from scan_mark_flag_aux [OF this, of at] show ?thesis
      using m by (cases p) auto
  qed
qed

text \<open>Dropping the entry the scan found, in both versions.\<close>

definition evict_mark :: "('v \<Rightarrow> instant) \<Rightarrow> (string, 'v) gomap \<Rightarrow> (string, 'v) gomap" where
  "evict_mark at m = (let k = fst (scan_mark at m ('''', zero_time)) in if k \<noteq> '''' then gm_del k m else m)"

definition evict_flag :: "('v \<Rightarrow> instant) \<Rightarrow> ('k, 'v) gomap \<Rightarrow> ('k, 'v) gomap" where
  "evict_flag at m = (case scan_flag at m None of None \<Rightarrow> m | Some (k, t) \<Rightarrow> gm_del k m)"

lemma gm_put_subset: "set (gm_put k v m) \<subseteq> insert (k, v) (set m)"
  by (induction m) auto

lemma gm_del_subset: "set (gm_del k m) \<subseteq> set m"
  by (induction m) auto

lemma evict_mark_eq_flag: "'''' \<notin> fst ` set m \<Longrightarrow> evict_mark at m = evict_flag at m"
  using scan_mark_flag [of m at zero_time] scan_flag_None_iff [of at m]
  by (cases "m = []") (auto simp: evict_mark_def evict_flag_def Let_def split: option.splits)

lemma evict_flag_length: "gm_wf m \<Longrightarrow> m \<noteq> [] \<Longrightarrow> length (evict_flag at m) = length m - 1"
  using scan_flag_oldest(1) [of at m] scan_flag_None_iff [of at m]
  by (fastforce simp: evict_flag_def gm_len_del split: option.splits)

lemma evict_flag_wf [intro]: "gm_wf m \<Longrightarrow> gm_wf (evict_flag at m)"
  by (auto simp: evict_flag_def split: option.splits)

lemma evict_mark_wf [intro]: "gm_wf m \<Longrightarrow> gm_wf (evict_mark at m)"
  by (auto simp: evict_mark_def Let_def)

lemma evict_subset: "set (evict_flag at m) \<subseteq> set m" "set (evict_mark at m) \<subseteq> set m"
  using gm_del_subset [of _ m] by (auto simp: evict_flag_def evict_mark_def Let_def split: option.splits)

lemma evict_get:
  "gm_get (evict_flag at m) k = Some v \<Longrightarrow> gm_get m k = Some v"
  "gm_get (evict_mark at m) k = Some v \<Longrightarrow> gm_get m k = Some v"
  by (auto simp: evict_flag_def evict_mark_def Let_def delete_conv' split: option.splits if_splits)

section \<open>The contract of a size-bounded cache\<close>

text \<open>
  Four components keep a map with a size cap and drop the oldest entry when it is full. What
  their callers rely on is the same: a stored value is read back, the cap is never exceeded,
  and storing never invents an entry.
\<close>

locale bounded_cache =
  fixes inv :: "'s \<Rightarrow> bool"
    and store :: "'k \<Rightarrow> 'v \<Rightarrow> 's \<Rightarrow> 's"
    and get :: "'s \<Rightarrow> 'k \<Rightarrow> 'v option"
    and size_of :: "'s \<Rightarrow> nat"
    and cap :: "'s \<Rightarrow> nat"
  assumes store_inv: "inv s \<Longrightarrow> inv (store k v s)"
    and store_cap: "cap (store k v s) = cap s"
    and get_store: "inv s \<Longrightarrow> get (store k v s) k = Some v"
    and get_other: "inv s \<Longrightarrow> k' \<noteq> k \<Longrightarrow> get (store k v s) k' = Some w \<Longrightarrow> get s k' = Some w"
    and size_store: "inv s \<Longrightarrow> 0 < cap s \<Longrightarrow> size_of s \<le> cap s \<Longrightarrow> size_of (store k v s) \<le> cap s"
begin

definition store_all :: "('k \<times> 'v) list \<Rightarrow> 's \<Rightarrow> 's" where
  "store_all kvs s = fold (\<lambda>(k, v). store k v) kvs s"

lemma store_all_Nil [simp]: "store_all [] s = s"
  by (simp add: store_all_def)

lemma store_all_Cons [simp]: "store_all ((k, v) # kvs) s = store_all kvs (store k v s)"
  by (simp add: store_all_def)

lemma store_all_inv: "inv s \<Longrightarrow> inv (store_all kvs s)"
  by (induction kvs arbitrary: s) (auto simp: store_inv)

lemma store_all_cap: "cap (store_all kvs s) = cap s"
  by (induction kvs arbitrary: s) (auto simp: store_cap)

lemma store_all_bounded:
  "inv s \<Longrightarrow> 0 < cap s \<Longrightarrow> size_of s \<le> cap s \<Longrightarrow> size_of (store_all kvs s) \<le> cap s"
proof (induction kvs arbitrary: s)
  case (Cons p kvs)
  obtain k v where p: "p = (k, v)" by force
  have "size_of (store_all kvs (store k v s)) \<le> cap (store k v s)"
    using Cons by (intro Cons.IH) (auto simp: store_inv store_cap size_store)
  with p show ?case by (simp add: store_cap)
qed simp

lemma store_all_provenance:
  "inv s \<Longrightarrow> get (store_all kvs s) k = Some v \<Longrightarrow> get s k = Some v \<or> (k, v) \<in> set kvs"
proof (induction kvs arbitrary: s)
  case (Cons p kvs)
  obtain a b where p: "p = (a, b)" by force
  from Cons.prems p have "get (store a b s) k = Some v \<or> (k, v) \<in> set kvs"
    by (intro Cons.IH) (auto simp: store_inv)
  then show ?case
    using Cons.prems(1) p get_store [of s a b] get_other [of s k a b v]
    by (cases "k = a") auto
qed simp

end

end
