(* ===== verification/Go_Utf8.thy ===== *)
theory Go_Utf8
  imports Go_Prelude
begin

text \<open>
  UTF-8 as the Go library decodes it. Strings are byte lists; \<open>decode_rune\<close> is
  \<open>utf8.DecodeRuneInString\<close>, which also defines what ranging over a string yields: a value and a
  width, with the pair (65533, 1) for a byte that starts no valid encoding.
\<close>

section \<open>Runes\<close>

definition cont :: "nat \<Rightarrow> bool" where
  "cont b \<longleftrightarrow> 128 \<le> b \<and> b \<le> 191"

text \<open>The first two bytes of a three-byte and of a four-byte rune (no overlong forms, no surrogates).\<close>

definition lead3 :: "nat \<Rightarrow> nat \<Rightarrow> bool" where
  "lead3 a b \<longleftrightarrow> a = 224 \<and> 160 \<le> b \<and> b \<le> 191 \<or> 225 \<le> a \<and> a \<le> 236 \<and> cont b \<or> a = 237 \<and> 128 \<le> b \<and> b \<le> 159
     \<or> 238 \<le> a \<and> a \<le> 239 \<and> cont b"

definition lead4 :: "nat \<Rightarrow> nat \<Rightarrow> bool" where
  "lead4 a b \<longleftrightarrow> a = 240 \<and> 144 \<le> b \<and> b \<le> 191 \<or> 241 \<le> a \<and> a \<le> 243 \<and> cont b \<or> a = 244 \<and> 128 \<le> b \<and> b \<le> 143"

text \<open>Value and width of the first rune of a non-empty byte list; (65533, 1) for an invalid one.\<close>

definition decode_bytes :: "nat list \<Rightarrow> nat \<times> nat" where
  "decode_bytes s = (case s of
     [] \<Rightarrow> (65533, 0)
   | a # t \<Rightarrow>
      if a < 128 then (a, 1)
      else (case t of
         [] \<Rightarrow> (65533, 1)
       | b # u \<Rightarrow>
          if 194 \<le> a \<and> a \<le> 223 \<and> cont b then ((a - 192) * 64 + (b - 128), 2)
          else (case u of
             [] \<Rightarrow> (65533, 1)
           | c # v \<Rightarrow>
              if lead3 a b \<and> cont c
              then ((a - 224) * 4096 + (b - 128) * 64 + (c - 128), 3)
              else (case v of
                 [] \<Rightarrow> (65533, 1)
               | d # _ \<Rightarrow>
                  if lead4 a b \<and> cont c \<and> cont d
                  then ((a - 240) * 262144 + (b - 128) * 4096 + (c - 128) * 64 + (d - 128), 4)
                  else (65533, 1)))))"

definition decode_rune :: "string \<Rightarrow> nat \<times> nat" where
  "decode_rune s = decode_bytes (map of_char s)"

lemma decode_bytes_width: "s \<noteq> [] \<Longrightarrow> 1 \<le> snd (decode_bytes s) \<and> snd (decode_bytes s) \<le> length s"
  by (auto simp: decode_bytes_def split: list.splits)

lemma decode_rune_width: "s \<noteq> [] \<Longrightarrow> 1 \<le> snd (decode_rune s) \<and> snd (decode_rune s) \<le> length s"
  using decode_bytes_width [of "map of_char s"] by (simp add: decode_rune_def)

lemma decode_rune_pair: "(r, w) = decode_rune (c # s) \<Longrightarrow> 1 \<le> w \<and> w \<le> Suc (length s)"
  using decode_rune_width [of "c # s"] by (metis length_Cons list.distinct(1) snd_conv)

lemma decode_rune_ascii: "(of_char c :: nat) < 128 \<Longrightarrow> decode_rune (c # s) = (of_char c, 1)"
  by (simp add: decode_rune_def decode_bytes_def)

text \<open>The five shapes a decoding can have.\<close>

lemma decode_bytes_cases:
  assumes "decode_bytes (a # s) = (r, w)"
  obtains (ascii) "a < 128" "r = a" "w = 1"
  | (invalid) "128 \<le> a" "r = 65533" "w = 1"
  | (two) b t where "s = b # t" "194 \<le> a" "a \<le> 223" "cont b" "r = (a - 192) * 64 + (b - 128)" "w = 2"
  | (three) b c t where "s = b # c # t" "lead3 a b" "cont c"
      "r = (a - 224) * 4096 + (b - 128) * 64 + (c - 128)" "w = 3"
  | (four) b c d t where "s = b # c # d # t" "lead4 a b" "cont c" "cont d"
      "r = (a - 240) * 262144 + (b - 128) * 4096 + (c - 128) * 64 + (d - 128)" "w = 4"
proof (cases "a < 128")
  case True
  from assms True have "r = a" "w = 1" by (auto simp: decode_bytes_def)
  then show thesis using True by (intro ascii)
next
  case False
  then have inv: thesis if "(65533, 1) = (r, w)" using that by (intro invalid) auto
  show thesis
  proof (cases s)
    case Nil
    then show thesis using assms False inv by (simp add: decode_bytes_def)
  next
    case s: (Cons b u)
    show thesis
    proof (cases "194 \<le> a \<and> a \<le> 223 \<and> cont b")
      case True
      from assms False True s have "r = (a - 192) * 64 + (b - 128)" "w = 2" by (auto simp: decode_bytes_def)
      then show thesis using True s by (intro two) auto
    next
      case n2: False
      show thesis
      proof (cases u)
        case Nil
        then show thesis using assms False inv n2 s by (simp add: decode_bytes_def)
      next
        case u: (Cons c v)
        show thesis
        proof (cases "lead3 a b \<and> cont c")
          case True
          from assms False n2 True s u have "r = (a - 224) * 4096 + (b - 128) * 64 + (c - 128)" "w = 3"
            by (auto simp: decode_bytes_def)
          then show thesis using True s u by (intro three) auto
        next
          case n3: False
          show thesis
          proof (cases v)
            case Nil
            then show thesis using assms False inv n2 n3 s u by (simp add: decode_bytes_def)
          next
            case v: (Cons d t)
            show thesis
            proof (cases "lead4 a b \<and> cont c \<and> cont d")
              case True
              from assms False n2 n3 True s u v
              have "r = (a - 240) * 262144 + (b - 128) * 4096 + (c - 128) * 64 + (d - 128)" "w = 4"
                by (auto simp: decode_bytes_def)
              then show thesis using True s u v by (intro four) auto
            next
              case n4: False
              then show thesis using assms False inv n2 n3 n4 s u v by (simp add: decode_bytes_def)
            qed
          qed
        qed
      qed
    qed
  qed
qed

lemma lead3_high: "lead3 a b \<Longrightarrow> 224 \<le> a \<and> a \<le> 239 \<and> 128 \<le> b \<and> b \<le> 191"
  by (auto simp: lead3_def cont_def)

lemma lead4_high: "lead4 a b \<Longrightarrow> 240 \<le> a \<and> 128 \<le> b \<and> b \<le> 191"
  by (auto simp: lead4_def cont_def)

lemma decode_bytes_not_ascii:
  assumes "128 \<le> a"
  shows "128 \<le> fst (decode_bytes (a # s))"
proof -
  obtain r w where d: "decode_bytes (a # s) = (r, w)" by fastforce
  have sh: "1 \<le> k \<Longrightarrow> m \<le> k * m" for k m :: nat by simp
  from d have "128 \<le> r"
  proof (cases rule: decode_bytes_cases)
    case (two b t)
    then show ?thesis using sh [of "(a - 192) - 1" 64] by linarith
  next
    case (three b c t)
    from three(2) have "1 \<le> a - 224 \<or> 32 \<le> b - 128" by (auto simp: lead3_def)
    then show ?thesis using three(4) by linarith
  next
    case (four b c d t)
    from four(2) have "1 \<le> a - 240 \<or> 16 \<le> b - 128" by (auto simp: lead4_def)
    then show ?thesis using four(5) by linarith
  qed (use assms in simp_all)
  then show ?thesis by (simp add: d)
qed

lemma decode_bytes_high:
  assumes "decode_bytes (a # s) = (r, w)" and "128 \<le> a" and "b \<in> set (take w (a # s))"
  shows "128 \<le> b"
  using assms(1)
proof (cases rule: decode_bytes_cases)
  case (three b' c t)
  then show ?thesis using assms(2,3) lead3_high [of a b'] by (auto simp: cont_def)
next
  case (four b' c d t)
  then show ?thesis using assms(2,3) lead4_high [of a b'] by (auto simp: cont_def)
qed (use assms(2,3) in \<open>auto simp: cont_def\<close>)

lemma decode_rune_high:
  assumes "decode_rune (c # s) = (r, w)" and "\<not> (of_char c :: nat) < 128" and "b \<in> set (take w (c # s))"
  shows "128 \<le> (of_char b :: nat)"
proof -
  have "of_char b \<in> set (take w (of_char c # map of_char s :: nat list))"
    using assms(3) by (metis image_eqI list.set_map list.simps(9) take_map)
  then show ?thesis using decode_bytes_high [of "of_char c" "map of_char s" r w] assms(1,2) by (simp add: decode_rune_def)
qed

text \<open>The line and paragraph separators have one encoding each.\<close>

lemma decode_bytes_separator:
  assumes "decode_bytes (a # s) = (r, w)" and "r = 0x2028 \<or> r = 0x2029"
  shows "take w (a # s) = [0xE2, 0x80, if r = 0x2028 then 0xA8 else 0xA9]"
  using assms(1)
proof (cases rule: decode_bytes_cases)
  case (two b t)
  then show ?thesis using assms(2) by (simp add: cont_def) linarith
next
  case (three b c t)
  define x y z where "x = a - 224" and "y = b - 128" and "z = c - 128"
  then have abc: "a = 224 + x" "b = 128 + y" "c = 128 + z" and yz: "y < 64" "z < 64"
    using lead3_high [OF three(2)] three(3) unfolding cont_def by linarith+
  have e: "x * 4096 + y * 64 + z = r" unfolding three(4) abc by simp
  then have "x = 2" using yz assms(2) by linarith
  moreover from this e have "y = 0" using yz assms(2) by linarith
  moreover from calculation e have "z = r - 0x2000" by linarith
  ultimately show ?thesis using assms(2) three(1,5) abc by auto
next
  case (four b c d t)
  from four(2) have "1 \<le> a - 240 \<or> 16 \<le> b - 128" by (auto simp: lead4_def)
  then show ?thesis using four(5) assms(2) by linarith
qed (use assms(2) in auto)

lemma decode_rune_not_ascii: "128 \<le> (of_char c :: nat) \<Longrightarrow> 128 \<le> fst (decode_rune (c # s))"
  by (simp add: decode_rune_def decode_bytes_not_ascii)

text \<open>Text of complete runes.\<close>

function whole_runes :: "string \<Rightarrow> bool" where
  "whole_runes s = (if s = [] then True else decode_rune s \<noteq> (65533, 1) \<and> whole_runes (drop (snd (decode_rune s)) s))"
  by pat_completeness auto
termination
proof (relation "measure length")
  fix s :: string
  assume "s \<noteq> []"
  then show "(drop (snd (decode_rune s)) s, s) \<in> measure length"
    using decode_rune_width [of s] by (cases s) auto
qed simp

declare whole_runes.simps [simp del]

lemma decode_bytes_append:
  assumes "decode_bytes s \<noteq> (65533, 1)" and "s \<noteq> []"
  shows "decode_bytes (s @ u) = decode_bytes s"
proof -
  consider a where "s = [a]" | a b where "s = [a, b]" | a b c where "s = [a, b, c]" | a b c d t where "s = a # b # c # d # t"
    using assms(2) by (metis neq_Nil_conv)
  then show ?thesis
  proof cases
    case 1
    then show ?thesis using assms(1) by (simp add: decode_bytes_def split: if_splits)
  next
    case 2
    then show ?thesis using assms(1) by (simp add: decode_bytes_def split: if_splits)
  next
    case 3
    then show ?thesis using assms(1) by (simp add: decode_bytes_def split: if_splits)
  next
    case 4
    then show ?thesis by (simp add: decode_bytes_def)
  qed
qed

lemma decode_rune_append:
  assumes "decode_rune s \<noteq> (65533, 1)" and "s \<noteq> []"
  shows "decode_rune (s @ u) = decode_rune s"
  using decode_bytes_append [of "map of_char s" "map of_char u"] assms by (simp add: decode_rune_def)

lemma whole_runes_ascii: "\<forall>c \<in> set s. (of_char c :: nat) < 128 \<Longrightarrow> whole_runes s"
proof (induction s)
  case (Cons c s)
  then show ?case using decode_rune_ascii [of c s] by (simp add: whole_runes.simps [of "c # s"])
qed (simp add: whole_runes.simps)

end
