(* ===== verification/Sse_Frame.thy ===== *)
theory Sse_Frame
  imports Go_Utf8
begin

text \<open>
  The JSON payloads of server-sent events that \<open>internal/handler/sse_frame.go\<close> writes by hand, with its
  escaping of strings, which copies runs of plain bytes and falls back to \<open>encoding/json\<close> for text
  that is not UTF-8. A reader of compact JSON is the reference for what a client understands.
\<close>

section \<open>Strings\<close>

definition jsonHexDigits :: string where "jsonHexDigits = ''0123456789abcdef''"

text \<open>The ASCII bytes that need no escape.\<close>

definition safe_byte :: "nat \<Rightarrow> bool" where
  "safe_byte b \<longleftrightarrow> 32 \<le> b \<and> b \<noteq> 92 \<and> b \<noteq> 34 \<and> b \<noteq> 60 \<and> b \<noteq> 62 \<and> b \<noteq> 38"

function canAppendJSONRawString :: "string \<Rightarrow> bool" where
  "canAppendJSONRawString [] = True"
| "canAppendJSONRawString (c # s) =
    (let b = of_char c :: nat in
     if b < 128 then safe_byte b \<and> canAppendJSONRawString s
     else let (r, w) = decode_rune (c # s) in
       if r = 65533 \<and> w = 1 then False
       else if r = 0x2028 \<or> r = 0x2029 then False
       else canAppendJSONRawString (drop w (c # s)))"
  by pat_completeness auto
termination
proof (relation "measure length")
  fix c s x xa xb y
  assume "xa = decode_rune (c # s)" "(xb, y) = xa"
  then show "(drop y (c # s), c # s) \<in> measure length"
    using decode_rune_pair [of xb y c s] by auto
qed auto

definition escape_byte :: "char \<Rightarrow> string" where
  "escape_byte c =
    (let b = of_char c :: nat in
     if b = 92 \<or> b = 34 then [CHR 0x5C, c]
     else if b = 8 then [CHR 0x5C, CHR ''b'']
     else if b = 12 then [CHR 0x5C, CHR ''f'']
     else if b = 10 then [CHR 0x5C, CHR ''n'']
     else if b = 13 then [CHR 0x5C, CHR ''r'']
     else if b = 9 then [CHR 0x5C, CHR ''t'']
     else [CHR 0x5C, CHR ''u'', CHR ''0'', CHR ''0'', jsonHexDigits ! (b div 16), jsonHexDigits ! (b mod 16)])"

text \<open>The loop of \<open>appendJSONBytes\<close>: \<open>run\<close> is \<open>value[start:i]\<close>; invalid UTF-8 stops it.\<close>

function append_loop :: "string \<Rightarrow> string \<Rightarrow> string \<Rightarrow> string option" where
  "append_loop dst run [] = Some (dst @ run)"
| "append_loop dst run (c # s) =
    (let b = of_char c :: nat in
     if b < 128 then
       (if safe_byte b then append_loop dst (run @ [c]) s
        else append_loop (dst @ run @ escape_byte c) [] s)
     else let (r, w) = decode_rune (c # s) in
       if r = 65533 \<and> w = 1 then None
       else if r = 0x2028 \<or> r = 0x2029
         then append_loop (dst @ run @ CHR 0x5C # ''u202'' @ (if r = 0x2028 then ''8'' else ''9'')) [] (drop w (c # s))
       else append_loop dst (run @ take w (c # s)) (drop w (c # s)))"
  by pat_completeness auto
termination
proof (relation "measure (\<lambda>(dst, run, s). length s)", goal_cases)
  case (4 dst run c s x xa xb y)
  then show ?case using decode_rune_pair [of xb y c s] by auto
next
  case (5 dst run c s x xa xb y)
  then show ?case using decode_rune_pair [of xb y c s] by auto
qed auto

text \<open>
  \<open>json.Marshal\<close> of a string (Go 1.24, HTML escapes on), written from the format of its output and apart
  from the tables of the code under \<open>src/\<close>: each code point has its escape or stays as it is, and an
  invalid byte becomes the escape of U+FFFD.
\<close>

definition hex_char :: "nat \<Rightarrow> char" where
  "hex_char n = char_of (if n < 10 then 48 + n else 87 + n)"

definition unicode_escape :: "nat \<Rightarrow> string" where
  "unicode_escape r = [CHR 0x5C, CHR ''u'', hex_char (r div 4096 mod 16), hex_char (r div 256 mod 16),
     hex_char (r div 16 mod 16), hex_char (r mod 16)]"

definition rune_escape :: "nat \<Rightarrow> string option" where
  "rune_escape r =
    (if r = 0x22 then Some [CHR 0x5C, CHR 0x22] else if r = 0x5C then Some [CHR 0x5C, CHR 0x5C]
     else if r = 0x08 then Some [CHR 0x5C, CHR ''b''] else if r = 0x0C then Some [CHR 0x5C, CHR ''f'']
     else if r = 0x0A then Some [CHR 0x5C, CHR ''n''] else if r = 0x0D then Some [CHR 0x5C, CHR ''r'']
     else if r = 0x09 then Some [CHR 0x5C, CHR ''t'']
     else if r < 0x20 \<or> r = 0x3C \<or> r = 0x3E \<or> r = 0x26 \<or> r = 0x2028 \<or> r = 0x2029 then Some (unicode_escape r)
     else None)"

function marshal_runes :: "string \<Rightarrow> string" where
  "marshal_runes s = (if s = [] then [] else case decode_rune s of (r, w) \<Rightarrow>
     (if r = 65533 \<and> w = 1 then unicode_escape 0xFFFD
      else case rune_escape r of Some e \<Rightarrow> e | None \<Rightarrow> take w s) @ marshal_runes (drop w s))"
  by pat_completeness auto
termination
proof (relation "measure length")
  fix s r w
  assume "s \<noteq> []" "(r, w) = decode_rune s"
  then show "(drop w s, s) \<in> measure length"
    using decode_rune_width [of s] by (cases s) (auto simp: prod_eq_iff)
qed simp

declare append_loop.simps [simp del] canAppendJSONRawString.simps [simp del] marshal_runes.simps [simp del]

definition json_Marshal :: "string \<Rightarrow> string" where
  "json_Marshal v = [CHR 0x22] @ marshal_runes v @ [CHR 0x22]"

definition appendJSONBytes :: "string \<Rightarrow> string \<Rightarrow> string" where
  "appendJSONBytes dst v =
    (if canAppendJSONRawString v then dst @ [CHR 0x22] @ v @ [CHR 0x22]
     else (case append_loop (dst @ [CHR 0x22]) [] v of
         Some d \<Rightarrow> d @ [CHR 0x22]
       | None \<Rightarrow> dst @ json_Marshal v))"

section \<open>The hand-written escaping is the one of the library\<close>

lemma hex_char_digit:
  assumes "d < 16"
  shows "hex_char d = jsonHexDigits ! d"
proof -
  from assms have "d \<in> set [0, 1, 2, 3, 4, 5, 6, 7, 8, 9, 10, 11, 12, 13, 14, 15]"
    unfolding list.set insert_iff empty_iff by presburger
  then have "(of_char (hex_char d) :: nat) = of_char (jsonHexDigits ! d)" by (auto simp: hex_char_def jsonHexDigits_def)
  then show ?thesis by (simp only: of_char_eq_iff)
qed

lemma unicode_escape_byte:
  "b < 128 \<Longrightarrow> unicode_escape b = [CHR 0x5C, CHR ''u'', CHR ''0'', CHR ''0'', jsonHexDigits ! (b div 16), jsonHexDigits ! (b mod 16)]"
  using hex_char_digit [of "b div 16"] hex_char_digit [of "b mod 16"] hex_char_digit [of 0]
  by (simp add: unicode_escape_def jsonHexDigits_def)

lemma rune_escape_byte:
  assumes "(of_char c :: nat) < 128"
  shows "rune_escape (of_char c) = (if safe_byte (of_char c) then None else Some (escape_byte c))"
proof -
  have "of_char c = (of_char CHR 0x5C :: nat) \<longleftrightarrow> c = CHR 0x5C" "of_char c = (of_char CHR 0x22 :: nat) \<longleftrightarrow> c = CHR 0x22"
    by (simp_all only: of_char_eq_iff)
  then show ?thesis
    using assms unicode_escape_byte [OF assms] by (auto simp: rune_escape_def escape_byte_def safe_byte_def Let_def)
qed

lemma escape_high:
  "unicode_escape 0x2028 = CHR 0x5C # ''u2028''" "unicode_escape 0x2029 = CHR 0x5C # ''u2029''"
  "unicode_escape 0xFFFD = CHR 0x5C # ''ufffd''"
  by (simp_all add: unicode_escape_def hex_char_digit jsonHexDigits_def)

lemma rune_escape_high:
  "\<not> r < 128 \<Longrightarrow> rune_escape r = (if r = 0x2028 then Some (CHR 0x5C # ''u2028'') else if r = 0x2029 then Some (CHR 0x5C # ''u2029'') else None)"
  using escape_high by (auto simp: rune_escape_def)

lemma ascii_step:
  assumes "(of_char c :: nat) < 128"
  shows "marshal_runes (c # s) = (if safe_byte (of_char c) then [c] else escape_byte c) @ marshal_runes s"
    and "whole_runes (c # s) = whole_runes s"
  using decode_rune_ascii [OF assms, of s] assms rune_escape_byte [OF assms]
  by (simp_all add: marshal_runes.simps [of "c # s"] whole_runes.simps [of "c # s"])

lemma rune_step:
  assumes "decode_rune (c # s) = (r, w)" and "\<not> (of_char c :: nat) < 128"
  shows "marshal_runes (c # s) = (if r = 65533 \<and> w = 1 then CHR 0x5C # ''ufffd''
      else if r = 0x2028 then CHR 0x5C # ''u2028'' else if r = 0x2029 then CHR 0x5C # ''u2029''
      else take w (c # s)) @ marshal_runes (drop w (c # s))"
    and "whole_runes (c # s) = ((r, w) \<noteq> (65533, 1) \<and> whole_runes (drop w (c # s)))"
proof -
  have "\<not> r < 128" using decode_rune_not_ascii [of c s] assms by simp
  then show "marshal_runes (c # s) = (if r = 65533 \<and> w = 1 then CHR 0x5C # ''ufffd''
      else if r = 0x2028 then CHR 0x5C # ''u2028'' else if r = 0x2029 then CHR 0x5C # ''u2029''
      else take w (c # s)) @ marshal_runes (drop w (c # s))"
    using assms(1) rune_escape_high by (simp add: marshal_runes.simps [of "c # s"] escape_high(3))
  show "whole_runes (c # s) = ((r, w) \<noteq> (65533, 1) \<and> whole_runes (drop w (c # s)))"
    using assms(1) by (simp add: whole_runes.simps [of "c # s"])
qed

lemma marshal_Nil [simp]: "marshal_runes [] = []"
  by (simp add: marshal_runes.simps [of "[]"])

lemma append_loop_marshal:
  "append_loop dst run s = (if whole_runes s then Some (dst @ run @ marshal_runes s) else None)"
proof (induction dst run s rule: append_loop.induct)
  case (1 dst run)
  then show ?case by (simp add: append_loop.simps(1) whole_runes.simps [of "[]"])
next
  case (2 dst run c s)
  show ?case
  proof (cases "(of_char c :: nat) < 128")
    case True
    then show ?thesis
    proof (cases "safe_byte (of_char c)")
      case safe: True
      then show ?thesis using "2.IH"(1) [OF refl True safe] ascii_step [OF True, of s] True
        by (simp add: append_loop.simps(2) [of dst run c s])
    next
      case unsafe: False
      then show ?thesis using "2.IH"(2) [OF refl True unsafe] ascii_step [OF True, of s] True
        by (simp add: append_loop.simps(2) [of dst run c s])
    qed
  next
    case False
    obtain r w where d: "decode_rune (c # s) = (r, w)" by (cases "decode_rune (c # s)")
    note rs = rune_step [OF d False]
    consider "r = 65533 \<and> w = 1" | "\<not> (r = 65533 \<and> w = 1)" "r = 0x2028 \<or> r = 0x2029" | "\<not> (r = 65533 \<and> w = 1)" "\<not> (r = 0x2028 \<or> r = 0x2029)"
      by blast
    then show ?thesis
    proof cases
      case 1
      then show ?thesis using False d rs by (simp add: append_loop.simps(2) [of dst run c s])
    next
      case 2
      from "2.IH"(3) [OF refl False refl d [symmetric] 2] show ?thesis
        using False d rs 2 by (auto simp: append_loop.simps(2) [of dst run c s])
    next
      case 3
      from "2.IH"(4) [OF refl False refl d [symmetric] 3] show ?thesis
        using False d rs 3 by (auto simp: append_loop.simps(2) [of dst run c s])
    qed
  qed
qed

lemma raw_marshal: "canAppendJSONRawString s \<Longrightarrow> marshal_runes s = s"
proof (induction s rule: canAppendJSONRawString.induct)
  case (2 c s)
  show ?case
  proof (cases "(of_char c :: nat) < 128")
    case True
    then show ?thesis using 2 ascii_step [OF True, of s] by (simp add: canAppendJSONRawString.simps(2) [of c s])
  next
    case False
    obtain r w where d: "decode_rune (c # s) = (r, w)" by (cases "decode_rune (c # s)")
    have r: "\<not> (r = 65533 \<and> w = 1)" "\<not> (r = 0x2028 \<or> r = 0x2029)" "canAppendJSONRawString (drop w (c # s))"
      using 2(3) False d by (auto simp: canAppendJSONRawString.simps(2) [of c s] Let_def split: if_splits)
    from 2(2) [OF refl False refl d [symmetric] r(1,2,3)] show ?thesis
      using rune_step(1) [OF d False] r(1,2) by (simp del: drop_Cons' take_Cons')
  qed
qed simp

lemma appendJSONBytes_eq: "appendJSONBytes dst v = dst @ json_Marshal v"
  using raw_marshal [of v] by (simp add: appendJSONBytes_def append_loop_marshal json_Marshal_def)

section \<open>A reader of JSON\<close>

definition hex_value :: "char \<Rightarrow> nat option" where
  "hex_value c = (let b = of_char c in
     if 48 \<le> b \<and> b \<le> 57 then Some (b - 48)
     else if 97 \<le> b \<and> b \<le> 102 then Some (b - 87) else if 65 \<le> b \<and> b \<le> 70 then Some (b - 55) else None)"

definition hex4 :: "char \<Rightarrow> char \<Rightarrow> char \<Rightarrow> char \<Rightarrow> nat option" where
  "hex4 a b c d = (case (hex_value a, hex_value b, hex_value c, hex_value d) of
     (Some x, Some y, Some z, Some w) \<Rightarrow> Some (((x * 16 + y) * 16 + z) * 16 + w)
   | _ \<Rightarrow> None)"

text \<open>The encoding of a code point below 65536 that is not a surrogate.\<close>

definition utf8_encode :: "nat \<Rightarrow> string option" where
  "utf8_encode n =
    (if n < 128 then Some (bytes_of [n])
     else if n < 2048 then Some (bytes_of [192 + n div 64, 128 + n mod 64])
     else if 0xD800 \<le> n \<and> n \<le> 0xDFFF then None
     else if n < 65536 then Some (bytes_of [224 + n div 4096, 128 + n div 64 mod 64, 128 + n mod 64])
     else None)"

definition simple_escape :: "char \<Rightarrow> char option" where
  "simple_escape e = (if e = CHR 0x22 \<or> e = CHR 0x5C \<or> e = CHR ''/'' then Some e
     else if e = CHR ''b'' then Some (CHR 0x08) else if e = CHR ''f'' then Some (CHR 0x0C)
     else if e = CHR ''n'' then Some (CHR 0x0A) else if e = CHR ''r'' then Some (CHR 0x0D)
     else if e = CHR ''t'' then Some (CHR 0x09) else None)"

text \<open>The rest of a string literal after its opening quote, and what follows it.\<close>

fun read_string :: "string \<Rightarrow> (string \<times> string) option" where
  "read_string [] = None"
| "read_string (c # s) =
    (if c = CHR 0x22 then Some ([], s)
     else if c = CHR 0x5C then
       (case s of
          [] \<Rightarrow> None
        | e # t \<Rightarrow>
           if e = CHR ''u'' then
             (case t of
                x # y # z # w # u \<Rightarrow> (case Option.bind (hex4 x y z w) utf8_encode of
                    None \<Rightarrow> None
                  | Some b \<Rightarrow> map_option (\<lambda>(v, rest). (b @ v, rest)) (read_string u))
              | _ \<Rightarrow> None)
           else (case simple_escape e of
               None \<Rightarrow> None
             | Some b \<Rightarrow> map_option (\<lambda>(v, rest). (b # v, rest)) (read_string t)))
     else if (of_char c :: nat) < 32 then None
     else map_option (\<lambda>(v, rest). (c # v, rest)) (read_string s))"

text \<open>What becomes of a string: its invalid bytes turn into U+FFFD.\<close>

function to_valid :: "string \<Rightarrow> string" where
  "to_valid s = (if s = [] then [] else case decode_rune s of (r, w) \<Rightarrow>
     (if r = 65533 \<and> w = 1 then bytes_of [0xEF, 0xBF, 0xBD] else take w s) @ to_valid (drop w s))"
  by pat_completeness auto
termination
proof (relation "measure length")
  fix s r w
  assume "s \<noteq> []" "(r, w) = decode_rune s"
  then show "(drop w s, s) \<in> measure length"
    using decode_rune_width [of s] by (cases s) (auto simp: prod_eq_iff)
qed simp

declare to_valid.simps [simp del]

lemma to_valid_whole: "whole_runes s \<Longrightarrow> to_valid s = s"
proof (induction s rule: to_valid.induct)
  case (1 s)
  show ?case
  proof (cases "s = []")
    case False
    obtain r w where d: "decode_rune s = (r, w)" by (cases "decode_rune s")
    have "(r, w) \<noteq> (65533, 1)" "whole_runes (drop w s)" using 1(2) False d by (simp_all add: whole_runes.simps [of s])
    then show ?thesis using 1(1) [OF False d [symmetric]] False d by (auto simp: to_valid.simps [of s])
  qed (simp add: to_valid.simps)
qed

text \<open>Bytes a string literal may hold as they are.\<close>

definition plain_byte :: "char \<Rightarrow> bool" where
  "plain_byte c \<longleftrightarrow> 32 \<le> (of_char c :: nat) \<and> c \<noteq> CHR 0x22 \<and> c \<noteq> CHR 0x5C"

lemma read_plain:
  "\<forall>c \<in> set xs. plain_byte c \<Longrightarrow> read_string (xs @ s) = map_option (\<lambda>(v, rest). (xs @ v, rest)) (read_string s)"
  by (induction xs) (auto simp: plain_byte_def option.map_comp comp_def case_prod_unfold option.map_id0 [unfolded id_def])

lemma plain_high: "128 \<le> (of_char c :: nat) \<Longrightarrow> plain_byte c"
  by (auto simp: plain_byte_def)

lemma plain_safe: "safe_byte (of_char c) \<Longrightarrow> plain_byte c"
  by (auto simp: plain_byte_def safe_byte_def)

lemma hex_digit_value: "d < 16 \<Longrightarrow> hex_value (jsonHexDigits ! d) = Some d"
proof -
  assume "d < 16"
  then have "d \<in> set [0, 1, 2, 3, 4, 5, 6, 7, 8, 9, 10, 11, 12, 13, 14, 15]"
    unfolding list.set insert_iff empty_iff by presburger
  then show ?thesis by (auto simp: hex_value_def jsonHexDigits_def)
qed

lemma hex_digits_read:
  "b < 128 \<Longrightarrow> hex4 (CHR ''0'') (CHR ''0'') (jsonHexDigits ! (b div 16)) (jsonHexDigits ! (b mod 16)) = Some b"
  using hex_digit_value [of "b div 16"] hex_digit_value [of "b mod 16"] by (simp add: hex4_def hex_value_def)

lemma read_escape:
  assumes "(of_char c :: nat) < 128"
  shows "read_string (escape_byte c @ s) = map_option (\<lambda>(v, rest). (c # v, rest)) (read_string s)"
proof -
  have h: "hex4 (CHR ''0'') (CHR ''0'') (jsonHexDigits ! (of_char c div 16)) (jsonHexDigits ! (of_char c mod 16)) = Some (of_char c)"
    using hex_digits_read assms by simp
  have u: "utf8_encode (of_char c) = Some [c]"
    using assms by (simp add: utf8_encode_def bytes_of_def)
  show ?thesis
  proof (cases "(of_char c :: nat) \<in> {92, 34, 8, 12, 10, 13, 9}")
    case False
    then show ?thesis using h u by (simp add: escape_byte_def Let_def)
  next
    case True
    then have "(of_char c :: nat) \<in> of_char ` {CHR 0x5C, CHR 0x22, CHR 0x08, CHR 0x0C, CHR 0x0A, CHR 0x0D, CHR 0x09}"
      by simp
    then have "c \<in> {CHR 0x5C, CHR 0x22, CHR 0x08, CHR 0x0C, CHR 0x0A, CHR 0x0D, CHR 0x09}"
      by (simp only: inj_image_mem_iff [OF inj_of_char])
    then show ?thesis by (auto simp: escape_byte_def simple_escape_def)
  qed
qed

lemma decode_rune_separator:
  assumes "decode_rune (c # s) = (r, w)" and "r = 0x2028 \<or> r = 0x2029"
  shows "take w (c # s) = bytes_of [0xE2, 0x80, if r = 0x2028 then 0xA8 else 0xA9]"
proof -
  have "take w (map of_char (c # s)) = [0xE2, 0x80, if r = 0x2028 then 0xA8 else 0xA9 :: nat]"
    using decode_bytes_separator [of "of_char c" "map of_char s" r w] assms by (simp add: decode_rune_def)
  then have "map char_of (map of_char (take w (c # s)) :: nat list) = bytes_of [0xE2, 0x80, if r = 0x2028 then 0xA8 else 0xA9]"
    by (simp only: bytes_of_def take_map)
  then show ?thesis by (simp add: comp_def)
qed

lemma read_unicode:
  "read_string (CHR 0x5C # ''u2028'' @ s) = map_option (\<lambda>(v, rest). (bytes_of [0xE2, 0x80, 0xA8] @ v, rest)) (read_string s)"
  "read_string (CHR 0x5C # ''u2029'' @ s) = map_option (\<lambda>(v, rest). (bytes_of [0xE2, 0x80, 0xA9] @ v, rest)) (read_string s)"
  "read_string (CHR 0x5C # ''ufffd'' @ s) = map_option (\<lambda>(v, rest). (bytes_of [0xEF, 0xBF, 0xBD] @ v, rest)) (read_string s)"
  by (simp_all add: hex4_def hex_value_def utf8_encode_def)

lemma read_marshal: "read_string (marshal_runes v @ CHR 0x22 # rest) = Some (to_valid v, rest)"
proof (induction v rule: marshal_runes.induct)
  case (1 v)
  show ?case
  proof (cases v)
    case Nil
    then show ?thesis by (simp add: to_valid.simps)
  next
    case (Cons c s)
    obtain r w where d: "decode_rune (c # s) = (r, w)" by (cases "decode_rune (c # s)")
    have ih: "read_string (marshal_runes (drop w (c # s)) @ CHR 0x22 # rest) = Some (to_valid (drop w (c # s)), rest)"
      using 1 Cons d by simp
    have tv: "to_valid (c # s) =
        (if r = 65533 \<and> w = 1 then bytes_of [0xEF, 0xBF, 0xBD] else take w (c # s)) @ to_valid (drop w (c # s))"
      using d by (simp add: to_valid.simps [of "c # s"])
    show ?thesis
    proof (cases "(of_char c :: nat) < 128")
      case True
      then have rw: "r = of_char c" "w = 1" using decode_rune_ascii [OF True, of s] d by simp_all
      show ?thesis
      proof (cases "safe_byte (of_char c)")
        case safe: True
        have "read_string ([c] @ marshal_runes s @ CHR 0x22 # rest) = Some (c # to_valid s, rest)"
          using read_plain [of "[c]" "marshal_runes s @ CHR 0x22 # rest"] plain_safe [OF safe] ih rw by simp
        then show ?thesis using ascii_step(1) [OF True, of s] safe tv rw True Cons by simp
      next
        case unsafe: False
        then show ?thesis
          using read_escape [OF True, of "marshal_runes s @ CHR 0x22 # rest"] ih ascii_step(1) [OF True, of s] tv rw True Cons
          by simp
      qed
    next
      case False
      note step = rune_step(1) [OF d False]
      consider (bad) "r = 65533 \<and> w = 1" | (ls) "\<not> (r = 65533 \<and> w = 1)" "r = 0x2028" | (ps) "\<not> (r = 65533 \<and> w = 1)" "r = 0x2029"
        | (rune) "\<not> (r = 65533 \<and> w = 1)" "r \<noteq> 0x2028" "r \<noteq> 0x2029" by blast
      then show ?thesis
      proof cases
        case bad
        then show ?thesis using read_unicode(3) ih tv Cons step by simp
      next
        case ls
        then show ?thesis using read_unicode(1) ih tv Cons step decode_rune_separator [OF d] by simp
      next
        case ps
        then show ?thesis using read_unicode(2) ih tv Cons step decode_rune_separator [OF d] by simp
      next
        case rune
        have "\<forall>b \<in> set (take w (c # s)). plain_byte b"
          using decode_rune_high [OF d False] plain_high by blast
        from read_plain [OF this, of "marshal_runes (drop w (c # s)) @ CHR 0x22 # rest"]
        moreover have "marshal_runes (c # s) = take w (c # s) @ marshal_runes (drop w (c # s))"
            "to_valid (c # s) = take w (c # s) @ to_valid (drop w (c # s))"
          using step tv rune by auto
        ultimately show ?thesis using ih Cons by (simp del: take_Cons' drop_Cons')
      qed
    qed
  qed
qed

section \<open>Compact JSON documents\<close>

datatype json = JStr string | JInt int | JNil | JObj fields
  and fields = NoField | Field string json fields

primrec emit :: "json \<Rightarrow> string" and emit_rest :: "fields \<Rightarrow> string" where
  "emit (JStr v) = json_Marshal v"
| "emit (JInt n) = itoa n"
| "emit JNil = ''[]''"
| "emit (JObj fs) = CHR ''{'' # (if fs = NoField then ''}'' else tl (emit_rest fs))"
| "emit_rest NoField = ''}''"
| "emit_rest (Field k v fs) = CHR '','' # json_Marshal k @ CHR '':'' # emit v @ emit_rest fs"

text \<open>The document a reader gets: its strings with U+FFFD for the invalid bytes.\<close>

primrec valid_json :: "json \<Rightarrow> json" and valid_fields :: "fields \<Rightarrow> fields" where
  "valid_json (JStr v) = JStr (to_valid v)"
| "valid_json (JInt n) = JInt n"
| "valid_json JNil = JNil"
| "valid_json (JObj fs) = JObj (valid_fields fs)"
| "valid_fields NoField = NoField"
| "valid_fields (Field k v fs) = Field (to_valid k) (valid_json v) (valid_fields fs)"

definition is_digit :: "char \<Rightarrow> bool" where
  "is_digit c \<longleftrightarrow> 48 \<le> (of_char c :: nat) \<and> (of_char c :: nat) \<le> 57"

definition read_int :: "string \<Rightarrow> (int \<times> string) option" where
  "read_int s =
    (let neg = (s \<noteq> [] \<and> hd s = CHR ''-''); t = (if neg then tl s else s); ds = takeWhile is_digit t in
     if ds = [] then None
     else Some (if neg then - int (digits_value ds) else int (digits_value ds), dropWhile is_digit t))"

text \<open>A recursive-descent reader; \<open>n\<close> bounds its depth.\<close>

fun read_json :: "nat \<Rightarrow> string \<Rightarrow> (json \<times> string) option"
  and read_field :: "nat \<Rightarrow> string \<Rightarrow> (fields \<times> string) option"
  and read_rest :: "nat \<Rightarrow> string \<Rightarrow> (fields \<times> string) option" where
  "read_json 0 s = None"
| "read_json (Suc n) s =
    (if s = [] then None
     else if hd s = CHR 0x22 then map_option (\<lambda>(v, r). (JStr v, r)) (read_string (tl s))
     else if prefix ''[]'' s then Some (JNil, drop 2 s)
     else if prefix ''{}'' s then Some (JObj NoField, drop 2 s)
     else if hd s = CHR ''{'' then map_option (\<lambda>(fs, r). (JObj fs, r)) (read_field n (tl s))
     else map_option (\<lambda>(i, r). (JInt i, r)) (read_int s))"
| "read_field 0 s = None"
| "read_field (Suc n) s =
    (if s = [] \<or> hd s \<noteq> CHR 0x22 then None
     else case read_string (tl s) of
       None \<Rightarrow> None
     | Some (k, u) \<Rightarrow>
         if u = [] \<or> hd u \<noteq> CHR '':'' then None
         else case read_json n (tl u) of
           None \<Rightarrow> None
         | Some (v, x) \<Rightarrow> map_option (\<lambda>(fs, r). (Field k v fs, r)) (read_rest n x))"
| "read_rest 0 s = None"
| "read_rest (Suc n) s =
    (if s = [] then None
     else if hd s = CHR ''}'' then Some (NoField, tl s)
     else if hd s = CHR '','' then read_field n (tl s)
     else None)"

definition parse_json :: "string \<Rightarrow> json option" where
  "parse_json s = (case read_json (2 * length s) s of Some (j, []) \<Rightarrow> Some j | _ \<Rightarrow> None)"

lemma read_int_itoa:
  assumes "rest = [] \<or> \<not> is_digit (hd rest)"
  shows "read_int (itoa i @ rest) = Some (i, rest)"
proof -
  have d: "\<forall>c \<in> set (nat_digits n). is_digit c" for n
    using nat_digits_range by (auto simp: is_digit_def)
  have t: "takeWhile is_digit (nat_digits n @ rest) = nat_digits n" "dropWhile is_digit (nat_digits n @ rest) = rest" for n
    using d [of n] assms by (auto simp: takeWhile_append2 dropWhile_append2 takeWhile_eq_Nil_iff dropWhile_eq_self_iff)
  have "hd (nat_digits n @ rest) \<noteq> CHR ''-''" for n
    using minus_not_digit [of n] nat_digits_nonempty [of n] by (metis hd_append2 hd_in_set)
  then show ?thesis
    by (auto simp: read_int_def itoa_def Let_def t digits_value_nat_digits)
qed

lemma emit_head:
  "emit j \<noteq> [] \<and> (hd (emit j) = CHR ''-'' \<or> is_digit (hd (emit j)) \<longleftrightarrow> (\<exists>i. j = JInt i))"
proof (cases j)
  case (JInt i)
  have "itoa i \<noteq> []" by (simp add: itoa_def)
  then show ?thesis using itoa_chars [of "hd (itoa i)" i] JInt by (auto simp: is_digit_def)
qed (auto simp: json_Marshal_def is_digit_def)

lemma emit_rest_head: "emit_rest fs \<noteq> [] \<and> \<not> is_digit (hd (emit_rest fs))"
  by (cases fs) (simp_all add: is_digit_def)

lemma read_string_marshal: "read_string (tl (json_Marshal v) @ rest) = Some (to_valid v, rest)"
  using read_marshal [of v rest] by (simp add: json_Marshal_def)

lemma marshal_shape: "json_Marshal v = CHR 0x22 # tl (json_Marshal v)" "1 \<le> length (tl (json_Marshal v))"
  by (simp_all add: json_Marshal_def)

lemma read_emit:
  "2 * length (emit j) \<le> n \<Longrightarrow> rest = [] \<or> \<not> is_digit (hd rest) \<Longrightarrow> read_json n (emit j @ rest) = Some (valid_json j, rest)"
  "2 * length (emit_rest fs) \<le> n \<Longrightarrow> read_rest n (emit_rest fs @ rest) = Some (valid_fields fs, rest)"
proof (induction j and fs arbitrary: n rest and n rest)
  case (JStr v)
  then obtain m where "n = Suc m" using marshal_shape(1) [of v] by (cases n) auto
  then show ?case
    using read_string_marshal [of v rest] marshal_shape(1) [of v]
    by (metis append_Cons emit.simps(1) hd_append2 list.sel(1,3) list.simps(3) option.simps(9) case_prod_conv
        read_json.simps(2) valid_json.simps(1))
next
  case (JInt i)
  have e: "itoa i \<noteq> []" by (simp add: itoa_def)
  then obtain m c t where n: "n = Suc m" and s: "itoa i = c # t" using JInt by (cases n; cases "itoa i") auto
  then have "c = CHR ''-'' \<or> (48 \<le> (of_char c :: nat) \<and> (of_char c :: nat) \<le> 57)" using itoa_chars [of c i] by simp
  then have "c \<noteq> CHR 0x22 \<and> c \<noteq> CHR ''['' \<and> c \<noteq> CHR ''{''" by auto
  then show ?case using read_int_itoa [OF JInt(2), of i] n s by auto
next
  case JNil
  then show ?case by (cases n) auto
next
  case (JObj fs)
  then obtain m where n: "n = Suc m" by (cases n) auto
  show ?case
  proof (cases fs)
    case NoField
    then show ?thesis using n by simp
  next
    case (Field k v gs)
    have "2 * length (emit_rest fs) \<le> n" using JObj(2) Field by simp
    from JObj(1) [OF this, of rest] n Field
    show ?thesis using marshal_shape [of k] by (cases "json_Marshal k") auto
  qed
next
  case NoField
  then show ?case by (cases n) auto
next
  case (Field k v fs)
  obtain b where n: "n = Suc (Suc b)" using Field(3) by (cases n rule: nat.exhaust; cases "n - 1") auto
  obtain ks where k: "json_Marshal k = CHR 0x22 # ks" and l: "1 \<le> length ks" using marshal_shape [of k] by metis
  have "2 * length (emit v) \<le> b" "2 * length (emit_rest fs) \<le> b" using Field(3) k l n by auto
  note ih = Field(1) [OF this(1), of "emit_rest fs @ rest"] Field(2) [OF this(2), of rest]
  have "read_string (ks @ CHR '':'' # emit v @ emit_rest fs @ rest) = Some (to_valid k, CHR '':'' # emit v @ emit_rest fs @ rest)"
    using read_string_marshal [of k "CHR '':'' # emit v @ emit_rest fs @ rest"] k by simp
  then show ?case using ih emit_rest_head [of fs] n k by simp
qed

lemma parse_emit: "parse_json (emit j) = Some (valid_json j)"
  using read_emit(1) [of j "2 * length (emit j)" "[]"] by (simp add: parse_json_def)

section \<open>The frames\<close>

text \<open>
  Each builder appends to the buffer it is given. \<open>json.Marshal\<close> of a string cannot fail, so the error
  results, which only pass its error on, are always nil and the builders are total.
\<close>

definition appendSSEContentBlockStartToolUse :: "string \<Rightarrow> int \<Rightarrow> string \<Rightarrow> string \<Rightarrow> string" where
  \<open>appendSSEContentBlockStartToolUse dst index tool name =
    (let dst = dst @ ''{"type":"content_block_start","index":'';
         dst = dst @ itoa index;
         dst = dst @ '',"content_block":{"type":"tool_use","id":'';
         dst = appendJSONBytes dst tool;
         dst = dst @ '',"name":'';
         dst = appendJSONBytes dst name
     in dst @ '',"input":{}}}'')\<close>

definition appendSSEMessageStart :: "string \<Rightarrow> string \<Rightarrow> string \<Rightarrow> int \<Rightarrow> int \<Rightarrow> string" where
  \<open>appendSSEMessageStart dst msgID model inputTokens outputTokens =
    (let dst = dst @ ''{"type":"message_start","message":{"id":'';
         dst = appendJSONBytes dst msgID;
         dst = dst @ '',"type":"message","role":"assistant","content":[],"model":'';
         dst = appendJSONBytes dst model;
         dst = dst @ '',"usage":{"input_tokens":'';
         dst = dst @ itoa inputTokens;
         dst = dst @ '',"output_tokens":'';
         dst = dst @ itoa outputTokens
     in dst @ ''}}}'')\<close>

definition appendSSEMessageStartNoUsage :: "string \<Rightarrow> string \<Rightarrow> string \<Rightarrow> string" where
  \<open>appendSSEMessageStartNoUsage dst msgID model =
    (let dst = dst @ ''{"type":"message_start","message":{"id":'';
         dst = appendJSONBytes dst msgID;
         dst = dst @ '',"type":"message","role":"assistant","content":[],"model":'';
         dst = appendJSONBytes dst model
     in dst @ ''}}'')\<close>

definition appendSSEContentBlockStartText :: "string \<Rightarrow> int \<Rightarrow> string" where
  \<open>appendSSEContentBlockStartText dst index =
    (let dst = dst @ ''{"type":"content_block_start","index":'';
         dst = dst @ itoa index
     in dst @ '',"content_block":{"type":"text","text":""}}'')\<close>

definition appendSSEContentBlockStartThinking :: "string \<Rightarrow> int \<Rightarrow> string \<Rightarrow> string" where
  \<open>appendSSEContentBlockStartThinking dst index signature =
    (let dst = dst @ ''{"type":"content_block_start","index":'';
         dst = dst @ itoa index;
         dst = dst @ '',"content_block":{"type":"thinking","thinking":"","signature":'';
         dst = appendJSONBytes dst signature
     in dst @ ''}}'')\<close>

definition appendSSEContentBlockDeltaInputJSON :: "string \<Rightarrow> int \<Rightarrow> string \<Rightarrow> string" where
  \<open>appendSSEContentBlockDeltaInputJSON dst index partialJSON =
    (let dst = dst @ ''{"type":"content_block_delta","index":'';
         dst = dst @ itoa index;
         dst = dst @ '',"delta":{"type":"input_json_delta","partial_json":'';
         dst = appendJSONBytes dst partialJSON
     in dst @ ''}}'')\<close>

definition appendSSEContentBlockDeltaText :: "string \<Rightarrow> int \<Rightarrow> string \<Rightarrow> string" where
  \<open>appendSSEContentBlockDeltaText dst index txt =
    (let dst = dst @ ''{"type":"content_block_delta","index":'';
         dst = dst @ itoa index;
         dst = dst @ '',"delta":{"type":"text_delta","text":'';
         dst = appendJSONBytes dst txt
     in dst @ ''}}'')\<close>

definition appendSSEContentBlockDeltaThinking :: "string \<Rightarrow> int \<Rightarrow> string \<Rightarrow> string" where
  \<open>appendSSEContentBlockDeltaThinking dst index thinking =
    (let dst = dst @ ''{"type":"content_block_delta","index":'';
         dst = dst @ itoa index;
         dst = dst @ '',"delta":{"type":"thinking_delta","thinking":'';
         dst = appendJSONBytes dst thinking
     in dst @ ''}}'')\<close>

definition appendSSEContentBlockStop :: "string \<Rightarrow> int \<Rightarrow> string" where
  \<open>appendSSEContentBlockStop dst index =
    (let dst = dst @ ''{"type":"content_block_stop","index":'';
         dst = dst @ itoa index
     in dst @ ''}'')\<close>

definition appendSSEMessageDelta :: "string \<Rightarrow> string \<Rightarrow> int \<Rightarrow> string" where
  \<open>appendSSEMessageDelta dst stopReason outputTokens =
    (let dst = dst @ ''{"type":"message_delta","delta":{"stop_reason":'';
         dst = appendJSONBytes dst stopReason;
         dst = dst @ ''},"usage":{"output_tokens":'';
         dst = dst @ itoa outputTokens
     in dst @ ''}}'')\<close>

definition sseMessageStopBytes :: string where
  \<open>sseMessageStopBytes = ''{"type":"message_stop"}''\<close>

text \<open>The entry points (\<open>marshalSSE...Bytes\<close> and their string twins) start from an empty buffer.\<close>

definition marshalSSEContentBlockStartToolUse :: "int \<Rightarrow> string \<Rightarrow> string \<Rightarrow> string" where
  "marshalSSEContentBlockStartToolUse = appendSSEContentBlockStartToolUse []"
definition marshalSSEMessageStart :: "string \<Rightarrow> string \<Rightarrow> int \<Rightarrow> int \<Rightarrow> string" where
  "marshalSSEMessageStart = appendSSEMessageStart []"
definition marshalSSEMessageStartNoUsage :: "string \<Rightarrow> string \<Rightarrow> string" where
  "marshalSSEMessageStartNoUsage = appendSSEMessageStartNoUsage []"
definition marshalSSEContentBlockStartText :: "int \<Rightarrow> string" where
  "marshalSSEContentBlockStartText = appendSSEContentBlockStartText []"
definition marshalSSEContentBlockStartThinking :: "int \<Rightarrow> string \<Rightarrow> string" where
  "marshalSSEContentBlockStartThinking = appendSSEContentBlockStartThinking []"
definition marshalSSEContentBlockDeltaInputJSON :: "int \<Rightarrow> string \<Rightarrow> string" where
  "marshalSSEContentBlockDeltaInputJSON = appendSSEContentBlockDeltaInputJSON []"
definition marshalSSEContentBlockDeltaText :: "int \<Rightarrow> string \<Rightarrow> string" where
  "marshalSSEContentBlockDeltaText = appendSSEContentBlockDeltaText []"
definition marshalSSEContentBlockDeltaThinking :: "int \<Rightarrow> string \<Rightarrow> string" where
  "marshalSSEContentBlockDeltaThinking = appendSSEContentBlockDeltaThinking []"
definition marshalSSEContentBlockStop :: "int \<Rightarrow> string" where
  "marshalSSEContentBlockStop = appendSSEContentBlockStop []"
definition marshalSSEMessageDelta :: "string \<Rightarrow> int \<Rightarrow> string" where
  "marshalSSEMessageDelta = appendSSEMessageDelta []"

section \<open>What the frames say\<close>

datatype sse_event =
    MessageStart string string int int
  | MessageStartNoUsage string string
  | StartText int
  | StartThinking int string
  | StartToolUse int string string
  | DeltaText int string
  | DeltaThinking int string
  | DeltaInputJSON int string
  | BlockStop int
  | MessageDelta string int
  | MessageStop

fun frame :: "sse_event \<Rightarrow> string" where
  "frame (MessageStart m md i out) = marshalSSEMessageStart m md i out"
| "frame (MessageStartNoUsage m md) = marshalSSEMessageStartNoUsage m md"
| "frame (StartText i) = marshalSSEContentBlockStartText i"
| "frame (StartThinking i sig) = marshalSSEContentBlockStartThinking i sig"
| "frame (StartToolUse i tool name) = marshalSSEContentBlockStartToolUse i tool name"
| "frame (DeltaText i t) = marshalSSEContentBlockDeltaText i t"
| "frame (DeltaThinking i t) = marshalSSEContentBlockDeltaThinking i t"
| "frame (DeltaInputJSON i t) = marshalSSEContentBlockDeltaInputJSON i t"
| "frame (BlockStop i) = marshalSSEContentBlockStop i"
| "frame (MessageDelta r out) = marshalSSEMessageDelta r out"
| "frame MessageStop = sseMessageStopBytes"

text \<open>The document of the Anthropic streaming format for each event.\<close>

fun obj :: "(string \<times> json) list \<Rightarrow> json" and fields_of :: "(string \<times> json) list \<Rightarrow> fields" where
  "obj kvs = JObj (fields_of kvs)"
| "fields_of [] = NoField"
| "fields_of ((k, v) # kvs) = Field k v (fields_of kvs)"

definition block_start :: "int \<Rightarrow> json \<Rightarrow> json" where
  "block_start i b = obj [(''type'', JStr ''content_block_start''), (''index'', JInt i), (''content_block'', b)]"

definition block_delta :: "int \<Rightarrow> string \<Rightarrow> string \<Rightarrow> string \<Rightarrow> json" where
  "block_delta i t k v = obj [(''type'', JStr ''content_block_delta''), (''index'', JInt i),
     (''delta'', obj [(''type'', JStr t), (k, JStr v)])]"

fun document :: "sse_event \<Rightarrow> json" where
  "document (MessageStart m md i out) = obj [(''type'', JStr ''message_start''), (''message'', obj
     [(''id'', JStr m), (''type'', JStr ''message''), (''role'', JStr ''assistant''), (''content'', JNil),
      (''model'', JStr md), (''usage'', obj [(''input_tokens'', JInt i), (''output_tokens'', JInt out)])])]"
| "document (MessageStartNoUsage m md) = obj [(''type'', JStr ''message_start''), (''message'', obj
     [(''id'', JStr m), (''type'', JStr ''message''), (''role'', JStr ''assistant''), (''content'', JNil), (''model'', JStr md)])]"
| "document (StartText i) = block_start i (obj [(''type'', JStr ''text''), (''text'', JStr '''')])"
| "document (StartThinking i sig) = block_start i (obj
     [(''type'', JStr ''thinking''), (''thinking'', JStr ''''), (''signature'', JStr sig)])"
| "document (StartToolUse i tool name) = block_start i (obj
     [(''type'', JStr ''tool_use''), (''id'', JStr tool), (''name'', JStr name), (''input'', obj [])])"
| "document (DeltaText i t) = block_delta i ''text_delta'' ''text'' t"
| "document (DeltaThinking i t) = block_delta i ''thinking_delta'' ''thinking'' t"
| "document (DeltaInputJSON i t) = block_delta i ''input_json_delta'' ''partial_json'' t"
| "document (BlockStop i) = obj [(''type'', JStr ''content_block_stop''), (''index'', JInt i)]"
| "document (MessageDelta r out) = obj [(''type'', JStr ''message_delta''),
     (''delta'', obj [(''stop_reason'', JStr r)]), (''usage'', obj [(''output_tokens'', JInt out)])]"
| "document MessageStop = obj [(''type'', JStr ''message_stop'')]"

definition literal :: "string \<Rightarrow> bool" where
  "literal s \<longleftrightarrow> list_all (\<lambda>c. (of_char c :: nat) < 128 \<and> safe_byte (of_char c)) s"

lemma json_Marshal_literal: "literal s \<Longrightarrow> json_Marshal s = CHR 0x22 # s @ [CHR 0x22]"
proof -
  assume "literal s"
  then have "marshal_runes s = s" by (induction s) (simp_all add: literal_def ascii_step)
  then show ?thesis by (simp add: json_Marshal_def)
qed

lemma to_valid_literal: "literal s \<Longrightarrow> to_valid s = s"
  by (rule to_valid_whole, rule whole_runes_ascii) (auto simp: literal_def list_all_iff)

lemmas frame_defs = marshalSSEContentBlockStartToolUse_def marshalSSEMessageStart_def marshalSSEMessageStartNoUsage_def
  marshalSSEContentBlockStartText_def marshalSSEContentBlockStartThinking_def marshalSSEContentBlockDeltaInputJSON_def
  marshalSSEContentBlockDeltaText_def marshalSSEContentBlockDeltaThinking_def marshalSSEContentBlockStop_def
  marshalSSEMessageDelta_def appendSSEContentBlockStartToolUse_def appendSSEMessageStart_def
  appendSSEMessageStartNoUsage_def appendSSEContentBlockStartText_def appendSSEContentBlockStartThinking_def
  appendSSEContentBlockDeltaInputJSON_def appendSSEContentBlockDeltaText_def appendSSEContentBlockDeltaThinking_def
  appendSSEContentBlockStop_def appendSSEMessageDelta_def sseMessageStopBytes_def

lemma field_keys [simp]:
  "literal ''type''" "literal ''index''" "literal ''content_block''" "literal ''delta''" "literal ''message''" "literal ''id''"
  "literal ''role''" "literal ''content''" "literal ''model''" "literal ''usage''" "literal ''input_tokens''"
  "literal ''output_tokens''" "literal ''text''" "literal ''thinking''" "literal ''signature''" "literal ''name''"
  "literal ''input''" "literal ''partial_json''" "literal ''stop_reason''"
  by (simp_all add: literal_def safe_byte_def)

lemma field_values [simp]:
  "literal ''message_start''" "literal ''assistant''" "literal ''content_block_start''" "literal ''content_block_delta''"
  "literal ''content_block_stop''" "literal ''message_delta''" "literal ''message_stop''" "literal ''tool_use''"
  "literal ''text_delta''" "literal ''thinking_delta''" "literal ''input_json_delta''" "literal ''''"
  by (simp_all add: literal_def safe_byte_def)

lemma frame_emit: "frame e = emit (document e)"
  by (cases e) (simp_all add: frame_defs appendJSONBytes_eq block_start_def block_delta_def json_Marshal_literal Let_def)

fun valid_event :: "sse_event \<Rightarrow> sse_event" where
  "valid_event (MessageStart m md i out) = MessageStart (to_valid m) (to_valid md) i out"
| "valid_event (MessageStartNoUsage m md) = MessageStartNoUsage (to_valid m) (to_valid md)"
| "valid_event (StartText i) = StartText i"
| "valid_event (StartThinking i sig) = StartThinking i (to_valid sig)"
| "valid_event (StartToolUse i tool name) = StartToolUse i (to_valid tool) (to_valid name)"
| "valid_event (DeltaText i t) = DeltaText i (to_valid t)"
| "valid_event (DeltaThinking i t) = DeltaThinking i (to_valid t)"
| "valid_event (DeltaInputJSON i t) = DeltaInputJSON i (to_valid t)"
| "valid_event (BlockStop i) = BlockStop i"
| "valid_event (MessageDelta r out) = MessageDelta (to_valid r) out"
| "valid_event MessageStop = MessageStop"

lemma valid_document: "valid_json (document e) = document (valid_event e)"
  by (cases e) (simp_all add: block_start_def block_delta_def to_valid_literal)

text \<open>Property C38. The hand-written escaping of a string (plain runs copied, the short escapes, HTML
characters and the line separators, the fall-back to the library for text that is not UTF-8) is the
quoting of \<open>encoding/json\<close>, byte for byte, whatever the string.\<close>

theorem escaping_is_library: "appendJSONBytes dst v = dst @ json_Marshal v"
  by (rule appendJSONBytes_eq)

text \<open>Property C37. Every event frame is one complete JSON document: a reader that expects nothing after it
gets exactly the document of the event, with U+FFFD in place of the bytes that are not UTF-8.\<close>

theorem frame_reads_back: "parse_json (frame e) = Some (document (valid_event e))"
  by (simp add: frame_emit parse_emit valid_document)

definition single_line :: "string \<Rightarrow> bool" where
  "single_line s \<longleftrightarrow> list_all (\<lambda>c. 32 \<le> (of_char c :: nat)) s"

lemma single_line_simps [simp]:
  "single_line []" "single_line (c # s) \<longleftrightarrow> 32 \<le> (of_char c :: nat) \<and> single_line s"
  "single_line (s @ t) \<longleftrightarrow> single_line s \<and> single_line t"
  by (simp_all add: single_line_def)

lemma single_line_high: "\<forall>c \<in> set s. 128 \<le> (of_char c :: nat) \<Longrightarrow> single_line s"
  by (fastforce simp: single_line_def list_all_iff)

lemma hex_digit_printable: "d < 16 \<Longrightarrow> 32 \<le> (of_char (jsonHexDigits ! d) :: nat)"
  using hex_digit_value [of d] by (auto simp: hex_value_def Let_def split: if_splits)

lemma single_line_escape: "(of_char c :: nat) < 128 \<Longrightarrow> single_line (escape_byte c)"
  by (auto simp: escape_byte_def Let_def hex_digit_printable)

lemma single_line_marshal: "single_line (marshal_runes v)"
proof (induction v rule: marshal_runes.induct)
  case (1 v)
  show ?case
  proof (cases v)
    case (Cons c s)
    obtain r w where d: "decode_rune (c # s) = (r, w)" by (cases "decode_rune (c # s)")
    have ih: "single_line (marshal_runes (drop w (c # s)))" using 1 Cons d by simp
    show ?thesis
    proof (cases "(of_char c :: nat) < 128")
      case True
      then have "w = 1" using decode_rune_ascii [OF True, of s] d by simp
      then show ?thesis using ih ascii_step(1) [OF True, of s] single_line_escape [OF True] Cons
        by (auto simp: safe_byte_def)
    next
      case False
      then show ?thesis using ih rune_step(1) [OF d False] single_line_high [of "take w (c # s)"] decode_rune_high [OF d False] Cons
        by auto
    qed
  qed simp
qed

lemma single_line_itoa: "single_line (itoa n)"
  using itoa_chars [of _ n] by (fastforce simp: single_line_def list_all_iff)

lemma single_line_emit: "single_line (emit j)" "single_line (emit_rest fs)"
proof (induction j and fs)
  case (JObj fs)
  then show ?case by (cases "emit_rest fs") auto
qed (simp_all add: json_Marshal_def single_line_marshal single_line_itoa)

text \<open>No frame holds a line feed, a carriage return or any other control byte, so it stays one
\<open>data:\<close> line of the event stream whatever the model, identifier or text in it.\<close>

theorem frame_single_line: "single_line (frame e)"
  by (simp add: frame_emit single_line_emit)

end
