(* ===== verification/Go_Float.thy ===== *)
theory Go_Float
  imports Complex_Main
begin

text \<open>
  Go's \<open>float64\<close> arithmetic where the program uses it (connection scores, token buckets, the
  percentile index): values are rationals, each operation is the exact result rounded to 53 bits,
  ties to even. Exponents are unbounded here; subnormal numbers and overflow to infinity are far
  outside the magnitudes the program computes with.
\<close>

section \<open>Rounding to 53 bits\<close>

fun nlog2 :: "nat \<Rightarrow> nat" where
  "nlog2 n = (if n < 2 then 0 else Suc (nlog2 (n div 2)))"

declare nlog2.simps [simp del]

definition ilog2 :: "rat \<Rightarrow> int" where
  "ilog2 x = (case quotient_of x of (p, q) \<Rightarrow>
     let e = int (nlog2 (nat p)) - int (nlog2 (nat q))
     in if 2 powi e \<le> x then e else e - 1)"

definition round_half_even :: "rat \<Rightarrow> int" where
  "round_half_even q = (let f = \<lfloor>q\<rfloor>; d = q - of_int f in
     if d < 1 / 2 then f else if 1 / 2 < d then f + 1 else if even f then f else f + 1)"

definition round_pos :: "rat \<Rightarrow> rat" where
  "round_pos x = (let e = ilog2 x - 52 in of_int (round_half_even (x / 2 powi e)) * 2 powi e)"

definition fl :: "rat \<Rightarrow> rat" where
  "fl x = (if x = 0 then 0 else if x < 0 then - round_pos (- x) else round_pos x)"

definition f_of_int :: "int \<Rightarrow> rat" where "f_of_int n = fl (of_int n)"
definition f_add :: "rat \<Rightarrow> rat \<Rightarrow> rat" where "f_add a b = fl (a + b)"
definition f_sub :: "rat \<Rightarrow> rat \<Rightarrow> rat" where "f_sub a b = fl (a - b)"
definition f_mul :: "rat \<Rightarrow> rat \<Rightarrow> rat" where "f_mul a b = fl (a * b)"
definition f_div :: "rat \<Rightarrow> rat \<Rightarrow> rat" where "f_div a b = fl (a / b)"

text \<open>The conversion \<open>int(x)\<close> truncates towards zero.\<close>

definition f_to_int :: "rat \<Rightarrow> int" where
  "f_to_int x = (if x < 0 then \<lceil>x\<rceil> else \<lfloor>x\<rfloor>)"

section \<open>The binary exponent\<close>

lemma nlog2_bounds: "0 < n \<Longrightarrow> 2 ^ nlog2 n \<le> n \<and> n < 2 ^ Suc (nlog2 n)"
proof (induction n rule: nlog2.induct)
  case (1 n)
  show ?case
  proof (cases "n < 2")
    case True
    with 1 show ?thesis by (simp add: nlog2.simps [of n])
  next
    case False
    with 1 have "2 ^ nlog2 (n div 2) \<le> n div 2 \<and> n div 2 < 2 ^ Suc (nlog2 (n div 2))" by simp
    then have "2 * 2 ^ nlog2 (n div 2) \<le> n \<and> n < 2 * 2 ^ Suc (nlog2 (n div 2))" by linarith
    with False show ?thesis by (simp add: nlog2.simps [of n])
  qed
qed

lemma ilog2_bounds:
  assumes "0 < x"
  shows "2 powi ilog2 x \<le> x" and "x < 2 powi (ilog2 x + 1)"
proof -
  obtain p q where pq: "quotient_of x = (p, q)" by force
  have q: "0 < q" by (rule quotient_of_denom_pos [OF pq])
  have x: "x = of_int p / of_int q" by (rule quotient_of_div [OF pq])
  with assms q have p: "0 < p" by (simp add: zero_less_divide_iff)
  define a b where "a = nlog2 (nat p)" and "b = nlog2 (nat q)"
  have "2 ^ a \<le> nat p \<and> nat p < 2 ^ Suc a" using p nlog2_bounds [of "nat p"] by (simp add: a_def)
  then have pa: "(2::int) ^ a \<le> p \<and> p < 2 ^ Suc a" using p
    by (metis (no_types, lifting) nat_less_iff le_nat_iff less_imp_le of_nat_numeral of_nat_power
        of_nat_less_iff of_nat_le_iff int_nat_eq)
  have "2 ^ b \<le> nat q \<and> nat q < 2 ^ Suc b" using q nlog2_bounds [of "nat q"] by (simp add: b_def)
  then have qb: "(2::int) ^ b \<le> q \<and> q < 2 ^ Suc b" using q
    by (metis (no_types, lifting) nat_less_iff le_nat_iff less_imp_le of_nat_numeral of_nat_power
        of_nat_less_iff of_nat_le_iff int_nat_eq)
  have P: "(2::rat) ^ a \<le> of_int p" "of_int p < (2::rat) ^ Suc a"
    using pa by (metis of_int_le_iff of_int_less_iff of_int_numeral of_int_power)+
  have Q: "(2::rat) ^ b \<le> of_int q" "of_int q < (2::rat) ^ Suc b"
    using qb by (metis of_int_le_iff of_int_less_iff of_int_numeral of_int_power)+
  define e where "e = int a - int b"
  have e0: "(2::rat) powi e = 2 ^ a / 2 ^ b" 
    unfolding e_def by (simp add: power_int_diff)
  have e1: "(2::rat) powi (e + 1) = 2 * (2 ^ a / 2 ^ b)" 
    by (simp add: power_int_add e0)
  have em: "(2::rat) powi (e - 1) = 2 ^ a / 2 ^ Suc b" 
    by (simp add: power_int_diff e0)
  have up: "x < 2 powi (e + 1)"
  proof -
    have "x \<le> of_int p / 2 ^ b" unfolding x using P Q p q by (intro divide_left_mono) auto
    also have "\<dots> < 2 ^ Suc a / 2 ^ b" using P(2) by (intro divide_strict_right_mono) auto
    finally show ?thesis by (simp add: e1)
  qed
  have low: "2 powi (e - 1) \<le> x"
  proof -
    have "2 ^ a / 2 ^ Suc b \<le> (2::rat) ^ a / of_int q"
      using Q q by (intro divide_left_mono) auto
    also have "\<dots> \<le> x" unfolding x using P q by (intro divide_right_mono) auto
    finally show ?thesis by (simp add: em)
  qed
  have il: "ilog2 x = (if 2 powi e \<le> x then e else e - 1)"
    by (simp add: ilog2_def pq Let_def e_def a_def b_def)
  show "2 powi ilog2 x \<le> x" using il low by simp
  show "x < 2 powi (ilog2 x + 1)" using il up by simp
qed

lemma powi_le_iff: "(2::rat) powi a \<le> 2 powi b \<longleftrightarrow> a \<le> b"
  using power_int_increasing [of a b "2::rat"] power_int_strict_increasing [of b a "2::rat"]
  by (cases "a \<le> b") (auto simp: not_le)

lemma powi_less_iff: "(2::rat) powi a < 2 powi b \<longleftrightarrow> a < b"
  by (simp add: powi_le_iff [of b a, symmetric] not_le [symmetric])

lemma ilog2_unique: "0 < x \<Longrightarrow> 2 powi e \<le> x \<Longrightarrow> x < 2 powi (e + 1) \<Longrightarrow> ilog2 x = e"
proof -
  assume x: "0 < x" "2 powi e \<le> x" "x < 2 powi (e + 1)"
  have "(2::rat) powi e < 2 powi (ilog2 x + 1)" and "(2::rat) powi ilog2 x < 2 powi (e + 1)"
    using x ilog2_bounds [of x] by (auto intro: le_less_trans)
  then show "ilog2 x = e" by (simp add: powi_less_iff)
qed

lemma ilog2_mono:
  assumes "0 < x" and "x \<le> y"
  shows "ilog2 x \<le> ilog2 y"
proof -
  have "(2::rat) powi ilog2 x < 2 powi (ilog2 y + 1)"
    using ilog2_bounds(1) [of x] ilog2_bounds(2) [of y] assms by simp
  then show ?thesis by (simp add: powi_less_iff)
qed

section \<open>Rounding is monotone and exact on small integers\<close>

lemma round_half_even_bounds: "\<lfloor>q\<rfloor> \<le> round_half_even q \<and> round_half_even q \<le> \<lfloor>q\<rfloor> + 1"
  by (simp add: round_half_even_def Let_def)

lemma round_half_even_mono: "q \<le> r \<Longrightarrow> round_half_even q \<le> round_half_even r"
proof (cases "\<lfloor>q\<rfloor> = \<lfloor>r\<rfloor>")
  case True
  assume "q \<le> r"
  with True show ?thesis by (auto simp: round_half_even_def Let_def)
next
  case False
  assume "q \<le> r"
  then have "\<lfloor>q\<rfloor> \<le> \<lfloor>r\<rfloor>" by (rule floor_mono)
  with False have "\<lfloor>q\<rfloor> + 1 \<le> \<lfloor>r\<rfloor>" by simp
  then show ?thesis using round_half_even_bounds [of q] round_half_even_bounds [of r] by linarith
qed

lemma round_half_even_int [simp]: "round_half_even (of_int n) = n"
  by (simp add: round_half_even_def)

lemma mantissa_bounds:
  assumes "0 < x"
  shows "2 ^ 52 \<le> round_half_even (x / 2 powi (ilog2 x - 52))"
    and "round_half_even (x / 2 powi (ilog2 x - 52)) \<le> 2 ^ 53"
proof -
  let ?q = "x / 2 powi (ilog2 x - 52)"
  have "(2::rat) powi ilog2 x = 2 ^ 52 * 2 powi (ilog2 x - 52)"
    by (simp add: power_int_diff)
  with ilog2_bounds(1) [OF assms] have "2 ^ 52 \<le> ?q" by (simp add: pos_le_divide_eq)
  then have "round_half_even (of_int (2 ^ 52)) \<le> round_half_even ?q"
    by (intro round_half_even_mono) simp
  then show "2 ^ 52 \<le> round_half_even ?q" by (simp only: round_half_even_int)
  have "(2::rat) powi (ilog2 x + 1) = 2 ^ 53 * 2 powi (ilog2 x - 52)"
    by (simp add: power_int_diff power_int_add)
  with ilog2_bounds(2) [OF assms] have "?q \<le> 2 ^ 53" by (simp add: pos_divide_le_eq)
  then have "round_half_even ?q \<le> round_half_even (of_int (2 ^ 53))"
    by (intro round_half_even_mono) simp
  then show "round_half_even ?q \<le> 2 ^ 53" by (simp only: round_half_even_int)
qed

lemma round_pos_bounds:
  assumes "0 < x"
  shows "2 powi ilog2 x \<le> round_pos x" and "round_pos x \<le> 2 powi (ilog2 x + 1)"
proof -
  have a: "(2::rat) powi ilog2 x = of_int (2 ^ 52) * 2 powi (ilog2 x - 52)"
    and b: "(2::rat) powi (ilog2 x + 1) = of_int (2 ^ 53) * 2 powi (ilog2 x - 52)"
    by (simp_all add: power_int_diff power_int_add)
  show "2 powi ilog2 x \<le> round_pos x"
    unfolding a round_pos_def Let_def using mantissa_bounds(1) [OF assms]
    by (intro mult_right_mono) (simp_all only: of_int_le_iff, simp)
  show "round_pos x \<le> 2 powi (ilog2 x + 1)"
    unfolding b round_pos_def Let_def using mantissa_bounds(2) [OF assms]
    by (intro mult_right_mono) (simp_all only: of_int_le_iff, simp)
qed

lemma round_pos_pos: "0 < x \<Longrightarrow> 0 < round_pos x"
  using round_pos_bounds(1) [of x] zero_less_power_int [of "2::rat" "ilog2 x"] by linarith

lemma round_pos_mono:
  assumes "0 < x" and "x \<le> y"
  shows "round_pos x \<le> round_pos y"
proof (cases "ilog2 x = ilog2 y")
  case True
  have "x / 2 powi (ilog2 y - 52) \<le> y / 2 powi (ilog2 y - 52)"
    using assms by (intro divide_right_mono) auto
  then show ?thesis
    using True by (simp add: round_pos_def Let_def mult_right_mono round_half_even_mono)
next
  case False
  with ilog2_mono [OF assms] have "ilog2 x + 1 \<le> ilog2 y" by simp
  then have "(2::rat) powi (ilog2 x + 1) \<le> 2 powi ilog2 y" by (simp add: powi_le_iff)
  then show ?thesis
    using round_pos_bounds(2) [of x] round_pos_bounds(1) [of y] assms by linarith
qed

lemma fl_0 [simp]: "fl 0 = 0"
  by (simp add: fl_def)

lemma fl_minus: "fl (- x) = - fl x"
  by (simp add: fl_def)

lemma fl_pos: "0 < x \<Longrightarrow> 0 < fl x"
  by (simp add: fl_def round_pos_pos)

lemma fl_nonneg: "0 \<le> x \<Longrightarrow> 0 \<le> fl x"
  using fl_pos [of x] by (cases "x = 0") auto

lemma fl_neg: "x < 0 \<Longrightarrow> fl x < 0"
  using fl_pos [of "- x"] by (simp add: fl_minus)

lemma fl_zero_iff [simp]: "fl x = 0 \<longleftrightarrow> x = 0"
  using fl_pos [of x] fl_neg [of x] by (cases "x = 0"; cases "x < 0") auto

lemma fl_mono: "x \<le> y \<Longrightarrow> fl x \<le> fl y"
proof -
  assume xy: "x \<le> y"
  consider "0 < x" | "y < 0" | "x \<le> 0" "0 \<le> y" by linarith
  then show ?thesis
  proof cases
    case 1
    with xy show ?thesis by (simp add: fl_def round_pos_mono)
  next
    case 2
    with xy round_pos_mono [of "- y" "- x"] show ?thesis by (simp add: fl_def)
  next
    case 3
    then have "0 \<le> fl (- x)" and "0 \<le> fl y" by (simp_all add: fl_nonneg)
    then show ?thesis by (simp add: fl_minus)
  qed
qed

lemma round_pos_int:
  assumes "0 < n" and "n < 2 ^ 53"
  shows "round_pos (of_int n) = of_int n"
proof -
  let ?x = "of_int n :: rat"
  have x: "0 < ?x" "?x < 2 ^ 53" using assms by (simp_all flip: of_int_less_iff)
  have "(2::rat) powi ilog2 ?x < 2 ^ 53"
    using ilog2_bounds(1) [OF x(1)] x(2) by (rule le_less_trans)
  also have "(2::rat) ^ 53 = 2 powi 53" by simp
  finally have e: "ilog2 ?x - 52 \<le> 0" unfolding powi_less_iff by simp
  define k where "k = nat (52 - ilog2 ?x)"
  have k: "ilog2 ?x - 52 = - int k" using e by (simp add: k_def)
  have "?x / 2 powi (ilog2 ?x - 52) = of_int (n * 2 ^ k)"
    unfolding k by (simp add: power_int_minus field_simps)
  then have "round_half_even (?x / 2 powi (ilog2 ?x - 52)) = n * 2 ^ k"
    by (simp only: round_half_even_int)
  then show ?thesis
    unfolding round_pos_def Let_def k by (simp add: power_int_minus)
qed

lemma fl_int: "\<bar>n\<bar> < 2 ^ 53 \<Longrightarrow> fl (of_int n) = of_int n"
proof -
  assume n: "\<bar>n\<bar> < 2 ^ 53"
  consider "n = 0" | "0 < n" | "n < 0" by linarith
  then show ?thesis
  proof cases
    case 3
    then have "round_pos (of_int (- n)) = of_int (- n)" using n by (intro round_pos_int) auto
    with 3 show ?thesis by (simp add: fl_def)
  qed (use n in \<open>auto simp: fl_def round_pos_int\<close>)
qed

lemma fl_nat: "n < 2 ^ 53 \<Longrightarrow> fl (of_nat n) = of_nat n"
  using fl_int [of "int n"] by simp

section \<open>Relative error\<close>

lemma round_half_even_near: "q - 1 / 2 \<le> of_int (round_half_even q)" "of_int (round_half_even q) \<le> q + 1 / 2"
proof -
  have f: "of_int \<lfloor>q\<rfloor> \<le> q" "q < of_int \<lfloor>q\<rfloor> + 1" by linarith+
  show "q - 1 / 2 \<le> of_int (round_half_even q)" "of_int (round_half_even q) \<le> q + 1 / 2"
    unfolding round_half_even_def Let_def using f by (simp_all split: if_split) linarith+
qed

definition unit_roundoff :: rat where
  "unit_roundoff = 1 / 2 ^ 53"

lemma round_pos_error:
  assumes "0 < x"
  shows "x * (1 - unit_roundoff) \<le> round_pos x" and "round_pos x \<le> x * (1 + unit_roundoff)"
proof -
  let ?u = "2 powi (ilog2 x - 52) :: rat"
  have u: "0 < ?u" by simp
  have "?u * 2 ^ 52 = 2 powi ilog2 x" by (simp add: power_int_diff)
  then have "?u * 2 ^ 52 \<le> x" using ilog2_bounds(1) [OF assms] by simp
  then have small: "?u / 2 \<le> x * unit_roundoff" by (simp add: unit_roundoff_def field_simps)
  note near = round_half_even_near [of "x / ?u"]
  have "(x / ?u - 1 / 2) * ?u \<le> of_int (round_half_even (x / ?u)) * ?u"
    using near(1) u by (intro mult_right_mono) auto
  moreover have "(x / ?u - 1 / 2) * ?u = x - ?u / 2" using u by (simp add: left_diff_distrib)
  ultimately have "x - ?u / 2 \<le> round_pos x" by (simp add: round_pos_def Let_def)
  with small show "x * (1 - unit_roundoff) \<le> round_pos x" by (simp add: right_diff_distrib)
  have "of_int (round_half_even (x / ?u)) * ?u \<le> (x / ?u + 1 / 2) * ?u"
    using near(2) u by (intro mult_right_mono) auto
  moreover have "(x / ?u + 1 / 2) * ?u = x + ?u / 2" using u by (simp add: distrib_right)
  ultimately have "round_pos x \<le> x + ?u / 2" by (simp add: round_pos_def Let_def)
  with small show "round_pos x \<le> x * (1 + unit_roundoff)" by (simp add: distrib_left)
qed

lemma fl_error:
  assumes "0 \<le> x"
  shows "x * (1 - unit_roundoff) \<le> fl x" and "fl x \<le> x * (1 + unit_roundoff)"
  using round_pos_error [of x] assms by (cases "x = 0"; simp add: fl_def)+

end
