(* ===== verification/Token_Estimator.thy ===== *)
theory Token_Estimator
  imports Go_Utf8 Go_Float
begin

text \<open>
  The token estimator of \<open>internal/tiktoken/tokenizer.go\<close>: a running count over text that arrives in
  pieces, as strings or as bytes.
\<close>

section \<open>The estimator\<close>

record estimator =
  es_tokens :: rat
  es_inWord :: bool
  es_hasText :: bool

definition new_estimator :: estimator where
  "new_estimator = \<lparr>es_tokens = 0, es_inWord = False, es_hasText = False\<rparr>"

definition isASCIIWordRune :: "nat \<Rightarrow> bool" where
  "isASCIIWordRune r \<longleftrightarrow> 97 \<le> r \<and> r \<le> 122 \<or> 65 \<le> r \<and> r \<le> 90 \<or> 48 \<le> r \<and> r \<le> 57"

definition isASCIIWordByte :: "nat \<Rightarrow> bool" where
  "isASCIIWordByte b \<longleftrightarrow> 97 \<le> b \<and> b \<le> 122 \<or> 65 \<le> b \<and> b \<le> 90 \<or> 48 \<le> b \<and> b \<le> 57"

definition end_word :: "estimator \<Rightarrow> estimator" where
  "end_word e = (if es_inWord e then e\<lparr>es_tokens := f_add (es_tokens e) 1, es_inWord := False\<rparr> else e)"

text \<open>The body of the loop of \<open>Add\<close> for the rune \<open>r\<close>.\<close>

definition add_rune :: "nat \<Rightarrow> estimator \<Rightarrow> estimator" where
  "add_rune r e =
    (if r < 128 then
       (if isASCIIWordRune r then e\<lparr>es_inWord := True\<rparr>
        else let e = end_word e in
          if r \<noteq> 32 \<and> r \<noteq> 9 \<and> r \<noteq> 10 \<and> r \<noteq> 13 then e\<lparr>es_tokens := f_add (es_tokens e) 1\<rparr> else e)
     else let e = end_word e in e\<lparr>es_tokens := f_add (es_tokens e) (3 / 2)\<rparr>)"

function add_runes :: "string \<Rightarrow> estimator \<Rightarrow> estimator" where
  "add_runes text e = (if text = [] then e
     else case decode_rune text of (r, w) \<Rightarrow> add_runes (drop w text) (add_rune r e))"
  by pat_completeness auto
termination
proof (relation "measure (\<lambda>(text, e). length text)")
  fix t :: string and e r w
  assume "t \<noteq> []" "(r, w) = decode_rune t"
  then show "((drop w t, add_rune r e), (t, e)) \<in> measure (\<lambda>(text, e). length text)"
    using decode_rune_width [of t] by (cases t) (auto simp: prod_eq_iff)
qed simp

declare add_runes.simps [simp del]

definition Add :: "string \<Rightarrow> estimator \<Rightarrow> estimator" where
  "Add text e = (if text = '''' then e else add_runes text (e\<lparr>es_hasText := True\<rparr>))"

text \<open>The loop of \<open>AddBytes\<close>: ASCII bytes are taken directly, anything else is decoded for its width.\<close>

function add_bytes :: "string \<Rightarrow> estimator \<Rightarrow> estimator" where
  "add_bytes [] e = e"
| "add_bytes (c # text) e =
    (let b = of_char c in
     if b < 128 then
       add_bytes text
         (if isASCIIWordByte b then e\<lparr>es_inWord := True\<rparr>
          else let e = end_word e in
            if b \<noteq> 32 \<and> b \<noteq> 9 \<and> b \<noteq> 10 \<and> b \<noteq> 13 then e\<lparr>es_tokens := f_add (es_tokens e) 1\<rparr> else e)
     else let e = end_word e; w = snd (decode_rune (c # text)) in
       add_bytes (drop w (c # text)) (e\<lparr>es_tokens := f_add (es_tokens e) (3 / 2)\<rparr>))"
  by pat_completeness auto
termination
proof (relation "measure (\<lambda>(text, e). length text)")
  fix c :: char and t :: string and e and x :: nat and xa xb
  assume "xb = snd (decode_rune (c # t))"
  then show "((drop xb (c # t), xa\<lparr>es_tokens := f_add (es_tokens xa) (3 / 2)\<rparr>), (c # t, e))
      \<in> measure (\<lambda>(text, e). length text)"
    using decode_rune_width [of "c # t"] by auto
qed auto

declare add_bytes.simps [simp del]

definition AddBytes :: "string \<Rightarrow> estimator \<Rightarrow> estimator" where
  "AddBytes text e = (if length text = 0 then e else add_bytes text (e\<lparr>es_hasText := True\<rparr>))"

text \<open>\<open>math.Round\<close>: halves away from zero.\<close>

definition f_round :: "rat \<Rightarrow> int" where
  "f_round x = (if 0 \<le> x then \<lfloor>x + 1 / 2\<rfloor> else \<lceil>x - 1 / 2\<rceil>)"

definition Count :: "estimator \<Rightarrow> int" where
  "Count e = f_round (if es_inWord e then f_add (es_tokens e) 1 else es_tokens e)"

definition HasText :: "estimator \<Rightarrow> bool" where
  "HasText e = es_hasText e"

definition Reset :: "estimator \<Rightarrow> estimator" where
  "Reset e = e\<lparr>es_tokens := 0, es_inWord := False, es_hasText := False\<rparr>"

definition EstimateTextTokens :: "string \<Rightarrow> int" where
  "EstimateTextTokens text = (if text = '''' then 0 else Count (Add text new_estimator))"

section \<open>Streaming\<close>

lemma isASCIIWord_same: "isASCIIWordByte b = isASCIIWordRune b"
  by (simp add: isASCIIWordByte_def isASCIIWordRune_def)

text \<open>The byte loop is the rune loop.\<close>

lemma add_bytes_runes: "add_bytes s e = add_runes s e"
proof (induction s e rule: add_bytes.induct)
  case (1 e)
  then show ?case by (simp add: add_bytes.simps add_runes.simps)
next
  case (2 c s e)
  show ?case
  proof (cases "(of_char c :: nat) < 128")
    case True
    then show ?thesis
      using 2(1) [OF refl True] decode_rune_ascii [OF True, of s]
      by (simp add: add_bytes.simps(2) [of c s] add_runes.simps [of "c # s"] add_rune_def isASCIIWord_same Let_def)
  next
    case False
    obtain r w where d: "decode_rune (c # s) = (r, w)" by (cases "decode_rune (c # s)")
    have "128 \<le> r" using decode_rune_not_ascii [of c s] False d by simp
    then have "add_rune r e = (end_word e)\<lparr>es_tokens := f_add (es_tokens (end_word e)) (3 / 2)\<rparr>"
      by (simp add: add_rune_def Let_def)
    then show ?thesis using 2(2) [OF refl False refl refl] False d
      by (simp add: add_bytes.simps(2) [of c s] add_runes.simps [of "c # s"] Let_def)
  qed
qed

lemma add_runes_append: "whole_runes s \<Longrightarrow> add_runes (s @ u) e = add_runes u (add_runes s e)"
proof (induction s e rule: add_runes.induct)
  case (1 s e)
  show ?case
  proof (cases "s = []")
    case True
    then show ?thesis by (simp add: add_runes.simps [of "[]"])
  next
    case False
    obtain r w where d: "decode_rune s = (r, w)" by (cases "decode_rune s")
    have w: "w \<le> length s" using decode_rune_width [OF False] d by simp
    have "decode_rune s \<noteq> (65533, 1)" and rest: "whole_runes (drop w s)"
      using "1.prems" False d by (simp_all add: whole_runes.simps [of s])
    then have "decode_rune (s @ u) = (r, w)" using decode_rune_append [OF _ False] d by simp
    then have "add_runes (s @ u) e = add_runes (drop w s @ u) (add_rune r e)"
      using False w by (simp add: add_runes.simps [of "s @ u"])
    also have "\<dots> = add_runes u (add_runes (drop w s) (add_rune r e))"
      using "1.IH" [OF False d [symmetric] rest] by simp
    also have "\<dots> = add_runes u (add_runes s e)" using False d by (simp add: add_runes.simps [of s])
    finally show ?thesis .
  qed
qed

lemma add_rune_hasText: "add_rune r (e\<lparr>es_hasText := b\<rparr>) = (add_rune r e)\<lparr>es_hasText := b\<rparr>"
  by (simp add: add_rune_def end_word_def Let_def)

lemma add_runes_hasText: "add_runes s (e\<lparr>es_hasText := b\<rparr>) = (add_runes s e)\<lparr>es_hasText := b\<rparr>"
proof (induction s e rule: add_runes.induct)
  case (1 s e)
  obtain r w where d: "decode_rune s = (r, w)" by (cases "decode_rune s")
  show ?case
  proof (cases "s = []")
    case False
    then show ?thesis using "1.IH" [OF False d [symmetric]] d by (simp add: add_runes.simps [of s] add_rune_hasText)
  qed (simp add: add_runes.simps [of "[]"])
qed

lemma Add_pieces:
  assumes "list_all whole_runes ps"
  shows "fold Add ps e = add_runes (concat ps) (e\<lparr>es_hasText := es_hasText e \<or> concat ps \<noteq> []\<rparr>)"
  using assms
proof (induction ps arbitrary: e)
  case Nil
  then show ?case by (simp add: add_runes.simps [of "[]"])
next
  case (Cons p ps)
  have keep: "es_hasText (add_runes p (x :: estimator)) = es_hasText x" for x
  proof -
    have "add_runes p x = (add_runes p x)\<lparr>es_hasText := es_hasText x\<rparr>"
      using add_runes_hasText [of p "es_hasText x" x] by simp
    then show ?thesis by (metis estimator.select_convs(3) estimator.surjective estimator.update_convs(3))
  qed
  show ?case
  proof (cases "p = []")
    case True
    then show ?thesis using Cons by (simp add: Add_def)
  next
    case False
    then show ?thesis using Cons
      by (simp add: Add_def add_runes_append add_runes_hasText keep)
  qed
qed

section \<open>Bounds\<close>

lemma fl_half: "\<bar>n\<bar> < 2 ^ 52 \<Longrightarrow> fl (of_int n / 2) = of_int n / 2"
proof -
  assume n: "\<bar>n\<bar> < 2 ^ 52"
  have pos: "fl (of_int m / 2) = of_int m / 2" if m: "0 < m" "m < 2 ^ 52" for m :: int
  proof -
    let ?x = "of_int m / 2 :: rat"
    have x: "0 < ?x" using m by simp
    have e: "ilog2 ?x \<le> 51"
    proof (rule ccontr)
      assume "\<not> ilog2 ?x \<le> 51"
      then have "(2::rat) powi 52 \<le> 2 powi ilog2 ?x" by (simp only: powi_le_iff)
      also have "\<dots> \<le> ?x" by (rule ilog2_bounds(1) [OF x])
      also have "?x < 2 ^ 52" using m by (simp add: of_int_less_iff [of m "2 ^ 53", where 'a = rat, simplified])
      finally show False by simp
    qed
    have low: "- 1 \<le> ilog2 ?x"
    proof (rule ccontr)
      assume "\<not> - 1 \<le> ilog2 ?x"
      then have "(2::rat) powi (ilog2 ?x + 1) \<le> 2 powi (- 1)" by (simp only: powi_le_iff)
      moreover have "(2::rat) powi (- 1) \<le> ?x" using m by (simp add: power_int_minus)
      ultimately show False using ilog2_bounds(2) [OF x] by linarith
    qed
    define k where "k = nat (51 - ilog2 ?x)"
    have k: "ilog2 ?x - 52 = - int k - 1" using e by (simp add: k_def)
    have "?x / 2 powi (ilog2 ?x - 52) = of_int (m * 2 ^ k)"
      unfolding k by (simp add: power_int_minus power_int_diff field_simps)
    then have "round_pos ?x = of_int (m * 2 ^ k) * 2 powi (ilog2 ?x - 52)"
      by (simp add: round_pos_def Let_def round_half_even_int del: of_int_mult)
    also have "\<dots> = ?x" unfolding k by (simp add: power_int_minus power_int_diff field_simps)
    finally show ?thesis using x by (simp add: fl_def)
  qed
  show ?thesis
  proof (cases n "0 :: int" rule: linorder_cases)
    case less
    then show ?thesis using pos [of "- n"] n fl_minus [of "of_int n / 2"] by simp
  qed (use pos n in simp_all)
qed

text \<open>
  A count of half tokens \<open>h\<close> and the bytes \<open>l\<close> read so far: the sum of the tokens, with one for an
  open word, is at most one and a half per byte, and exact.
\<close>

definition est_ok :: "int \<Rightarrow> estimator \<Rightarrow> bool" where
  "est_ok l e \<longleftrightarrow> (\<exists>h. es_tokens e = of_int h / 2 \<and> 0 \<le> h \<and> h + (if es_inWord e then 2 else 0) \<le> 3 * l)"

lemma est_okI:
  assumes "es_tokens e = of_int h / 2" and "0 \<le> h" and "h + (if es_inWord e then 2 else 0) \<le> 3 * l"
  shows "est_ok l e"
  unfolding est_ok_def using assms by (intro exI [of _ h]) (simp only: simp_thms)

lemma f_add_half:
  assumes "0 \<le> h" and "h + k < 2 ^ 52" and "0 \<le> k"
  shows "f_add (of_int h / 2) (of_int k / 2) = of_int (h + k) / 2"
  using fl_half [of "h + k"] assms by (simp add: f_add_def add_divide_distrib)

lemma es_simps: "es_tokens (e\<lparr>es_tokens := t, es_inWord := b\<rparr>) = t" "\<not> es_inWord (e\<lparr>es_inWord := False\<rparr>)"
  by simp_all

lemma add_rune_ok:
  assumes "est_ok l e" and "1 \<le> w" and "l + w < 2 ^ 50"
  shows "est_ok (l + w) (add_rune r e)"
proof -
  obtain h where h: "es_tokens e = of_int h / 2" "0 \<le> h" "h + (if es_inWord e then 2 else 0) \<le> 3 * l"
    using assms(1) by (auto simp: est_ok_def)
  have l: "h + 3 + 2 < 2 ^ 52" "0 \<le> l" using h assms(2,3) by (auto split: if_splits)
  have add: "f_add (of_int j / 2) 1 = of_int (j + 2) / 2" "f_add (of_int j / 2) (3 / 2) = of_int (j + 3) / 2"
    if "0 \<le> j" "j \<le> h + 2" for j
    using f_add_half [of j 2] f_add_half [of j 3] that l by simp_all
  define j where "j = (if es_inWord e then h + 2 else h)"
  have e: "es_tokens (end_word e) = of_int j / 2" "\<not> es_inWord (end_word e)" "0 \<le> j" "j \<le> h + 2" "j \<le> 3 * l"
  proof -
    have "f_add (es_tokens e) 1 = of_int (h + 2) / 2" unfolding h(1) using add(1) [of h] h(2) by simp
    then show "es_tokens (end_word e) = of_int j / 2" using h(1) by (cases "es_inWord e") (simp_all only: end_word_def j_def if_True if_False estimator.simps
          estimator.update_convs estimator.select_convs es_simps)
    show "\<not> es_inWord (end_word e)" by (simp add: end_word_def)
    show "0 \<le> j" "j \<le> h + 2" "j \<le> 3 * l" using h(2,3) by (auto simp: j_def split: if_splits)
  qed
  show ?thesis
  proof (cases "r < 128 \<and> isASCIIWordRune r")
    case True
    then show ?thesis using h assms(2)
      by (auto simp: est_ok_def add_rune_def intro!: exI [of _ h] split: if_splits)
  next
    case False
    let ?e = "end_word e"
    have le: "j + 3 \<le> 3 * (l + w)" using e(5) assms(2) by simp
    have t: "f_add (es_tokens ?e) 1 = of_int (j + 2) / 2" "f_add (es_tokens ?e) (3 / 2) = of_int (j + 3) / 2"
      using add [OF e(3,4)] unfolding e(1) by simp_all
    have "est_ok (l + w) (?e\<lparr>es_tokens := of_int (j + i) / 2\<rparr>)" if "0 \<le> i" "i \<le> 3" for i
      using e(2,3) le that by (intro est_okI [of _ "j + i"]) simp_all
    from this [of 2] this [of 3] have "est_ok (l + w) (?e\<lparr>es_tokens := f_add (es_tokens ?e) 1\<rparr>)"
      "est_ok (l + w) (?e\<lparr>es_tokens := f_add (es_tokens ?e) (3 / 2)\<rparr>)" unfolding t by simp_all
    moreover have "est_ok (l + w) ?e" using est_okI [OF e(1,3), of "l + w"] e(2) le by simp
    ultimately show ?thesis using False by (simp add: add_rune_def Let_def)
  qed
qed

lemma add_runes_ok: "est_ok l e \<Longrightarrow> l + int (length s) < 2 ^ 50 \<Longrightarrow> est_ok (l + int (length s)) (add_runes s e)"
proof (induction s e arbitrary: l rule: add_runes.induct)
  case (1 s e)
  show ?case
  proof (cases "s = []")
    case True
    then show ?thesis using 1 by (simp add: add_runes.simps [of "[]"])
  next
    case False
    obtain r w where d: "decode_rune s = (r, w)" by (cases "decode_rune s")
    have w: "1 \<le> w" "w \<le> length s" using decode_rune_width [OF False] d by simp_all
    have "est_ok (l + int w) (add_rune r e)" using 1(2,3) w by (intro add_rune_ok) simp_all
    then have "est_ok (l + int w + int (length (drop w s))) (add_runes (drop w s) (add_rune r e))"
      using w 1(3) by (intro "1.IH" [OF False d [symmetric]]) simp_all
    then show ?thesis using False d w by (simp add: add_runes.simps [of s])
  qed
qed

section \<open>Properties\<close>

lemma EstimateTextTokens_runes: "EstimateTextTokens s = Count (add_runes s (new_estimator\<lparr>es_hasText := s \<noteq> []\<rparr>))"
proof (cases "s = []")
  case True
  have "\<lfloor>1 / 2 :: rat\<rfloor> = 0" by (simp add: floor_eq_iff)
  then show ?thesis using True
    by (simp add: EstimateTextTokens_def Add_def new_estimator_def add_runes.simps [of "[]"] Count_def f_round_def)
qed (simp add: EstimateTextTokens_def Add_def new_estimator_def)

text \<open>
  Property C21. The streaming estimator agrees with the one-shot estimate: text that arrives in pieces of
  whole runes, as strings or as bytes, is counted exactly like the whole text at once, words that
  span pieces included; and a reset estimator counts like a new one.
\<close>

theorem estimator_streams:
  assumes "list_all whole_runes ps"
  shows "Count (fold Add ps (Reset e)) = EstimateTextTokens (concat ps)
    \<and> Count (fold AddBytes ps (Reset e)) = EstimateTextTokens (concat ps)
    \<and> HasText (fold Add ps (Reset e)) = (concat ps \<noteq> '''')"
proof -
  have reset: "Reset e = new_estimator" by (simp add: Reset_def new_estimator_def)
  have "AddBytes = Add" by (intro ext) (simp add: AddBytes_def Add_def add_bytes_runes)
  moreover have "fold Add ps new_estimator = add_runes (concat ps) (new_estimator\<lparr>es_hasText := concat ps \<noteq> []\<rparr>)"
    using Add_pieces [OF assms, of new_estimator] by (simp add: new_estimator_def)
  moreover have "es_hasText (add_runes s (new_estimator\<lparr>es_hasText := b\<rparr>)) = b" for s b
    by (simp add: add_runes_hasText)
  ultimately show ?thesis by (simp add: reset EstimateTextTokens_runes HasText_def)
qed

theorem estimator_streams_witness:
  "Count (fold AddBytes [''hel'', ''lo wor'', ''ld!''] (Reset new_estimator)) = EstimateTextTokens ''hello world!''"
  using estimator_streams [of "[''hel'', ''lo wor'', ''ld!'']" new_estimator] by (simp add: whole_runes_ascii)

text \<open>
  An estimate is never negative and at most one and a half tokens per byte, rounded: no
  text, invalid UTF-8 included, is counted beyond it, and the floating-point sum is exact.
\<close>

theorem estimate_bounded:
  assumes "int (length s) < 2 ^ 50"
  shows "0 \<le> EstimateTextTokens s \<and> 2 * EstimateTextTokens s \<le> 3 * int (length s) + 1"
proof -
  let ?e = "add_runes s (new_estimator\<lparr>es_hasText := s \<noteq> []\<rparr>)"
  have "est_ok 0 (new_estimator\<lparr>es_hasText := s \<noteq> []\<rparr>)" by (auto simp: est_ok_def new_estimator_def intro: exI [of _ 0])
  then have "est_ok (int (length s)) ?e" using add_runes_ok [of 0 _ s] assms by simp
  then obtain h where h: "es_tokens ?e = of_int h / 2" "0 \<le> h" "h + (if es_inWord ?e then 2 else 0) \<le> 3 * int (length s)"
    by (auto simp: est_ok_def)
  define j where "j = h + (if es_inWord ?e then 2 else 0)"
  have j: "(if es_inWord ?e then f_add (es_tokens ?e) 1 else es_tokens ?e) = of_int j / 2" "0 \<le> j" "j \<le> 3 * int (length s)"
  proof -
    have "f_add (es_tokens ?e) 1 = of_int (h + 2) / 2" if "es_inWord ?e"
      unfolding h(1) using f_add_half [of h 2] h(2,3) assms that by simp
    then show "(if es_inWord ?e then f_add (es_tokens ?e) 1 else es_tokens ?e) = of_int j / 2"
      using h(1) by (cases "es_inWord ?e") (simp_all only: j_def if_True if_False add_0_right)
    show "0 \<le> j" "j \<le> 3 * int (length s)" using h(2,3) by (auto simp: j_def split: if_splits)
  qed
  have "EstimateTextTokens s = \<lfloor>(of_int j / 2 :: rat) + 1 / 2\<rfloor>"
    using j(2) unfolding EstimateTextTokens_runes Count_def j(1) by (simp add: f_round_def)
  also have "\<dots> = (j + 1) div 2"
    by (metis add_divide_distrib floor_divide_of_int_eq of_int_1 of_int_add of_int_numeral)
  finally show ?thesis using j(2,3) by presburger
qed

theorem estimate_bounded_witness: "2 * EstimateTextTokens ''hello world!'' \<le> 37"
  using estimate_bounded [of "''hello world!''"] by simp

end
