(* ===== verification/Redis_Server.thy ===== *)
theory Redis_Server
  imports Go_Prelude
begin

text \<open>
  The Redis server as the store of \<open>internal/store/redis_store.go\<close> uses it. The server is not part of
  the program: it is a record of operations on a state of any type, and \<open>redis_ok\<close> says what the
  store relies on, the documented effect of each command on its key and its lack of effect on every
  other key. Every key of the store holds one type of value. A concrete server at the end shows
  that such servers exist and lets the witnesses run. The i-th round trip of a call can fail
  (\<open>down i\<close>) and then has no effect.
\<close>

record 'r redis =
  r_get :: "'r \<Rightarrow> string \<Rightarrow> string option"
  r_smembers :: "'r \<Rightarrow> string \<Rightarrow> string list"
  r_hget :: "'r \<Rightarrow> string \<Rightarrow> string \<Rightarrow> string option"
  r_set :: "string \<Rightarrow> string \<Rightarrow> 'r \<Rightarrow> 'r"
  r_del :: "string \<Rightarrow> 'r \<Rightarrow> 'r"
  r_incr :: "string \<Rightarrow> 'r \<Rightarrow> int option \<times> 'r"
  r_sadd :: "string \<Rightarrow> string \<Rightarrow> 'r \<Rightarrow> 'r"
  r_srem :: "string \<Rightarrow> string \<Rightarrow> 'r \<Rightarrow> 'r"
  r_hset :: "string \<Rightarrow> string \<Rightarrow> string \<Rightarrow> 'r \<Rightarrow> 'r"
  r_hsetnx :: "string \<Rightarrow> string \<Rightarrow> string \<Rightarrow> 'r \<Rightarrow> 'r"
  r_hdel :: "string \<Rightarrow> string \<Rightarrow> 'r \<Rightarrow> 'r"

definition members :: "'r redis \<Rightarrow> 'r \<Rightarrow> string \<Rightarrow> string set" where
  "members R r k = set (r_smembers R r k)"

text \<open>A command on the key \<open>k\<close> changes nothing at any other key.\<close>

definition only_at :: "'r redis \<Rightarrow> string \<Rightarrow> 'r \<Rightarrow> 'r \<Rightarrow> bool" where
  "only_at R k r r' \<longleftrightarrow> (\<forall>k'. k' \<noteq> k \<longrightarrow> r_get R r' k' = r_get R r k'
     \<and> members R r' k' = members R r k' \<and> r_hget R r' k' = r_hget R r k')"

text \<open>The key \<open>k\<close> holds the counter value \<open>n\<close>; a missing key counts as 0. A counter at its largest
value refuses to go on.\<close>

definition counter_at :: "'r redis \<Rightarrow> 'r \<Rightarrow> string \<Rightarrow> int \<Rightarrow> bool" where
  "counter_at R r k n \<longleftrightarrow> in64 n \<and> (r_get R r k = None \<and> n = 0 \<or> r_get R r k = Some (itoa n))"

definition redis_ok :: "'r redis \<Rightarrow> bool" where
  "redis_ok R \<longleftrightarrow> (\<forall>r k m v. distinct (r_smembers R r k)
     \<and> only_at R k r (r_set R k v r) \<and> r_get R (r_set R k v r) k = Some v
     \<and> only_at R k r (r_del R k r) \<and> r_get R (r_del R k r) k = None
     \<and> only_at R k r (r_sadd R k m r) \<and> members R (r_sadd R k m r) k = insert m (members R r k)
     \<and> only_at R k r (r_srem R k m r) \<and> members R (r_srem R k m r) k = members R r k - {m}
     \<and> only_at R k r (r_hset R k m v r) \<and> r_hget R (r_hset R k m v r) k = (r_hget R r k)(m \<mapsto> v)
     \<and> only_at R k r (r_hsetnx R k m v r)
       \<and> r_hget R (r_hsetnx R k m v r) k = (if r_hget R r k m = None then (r_hget R r k)(m \<mapsto> v) else r_hget R r k)
     \<and> only_at R k r (r_hdel R k m r) \<and> r_hget R (r_hdel R k m r) k = (r_hget R r k)(m := None)
     \<and> only_at R k r (snd (r_incr R k r))
       \<and> (\<forall>n. counter_at R r k n \<longrightarrow> (if in64 (n + 1)
            then fst (r_incr R k r) = Some (n + 1) \<and> r_get R (snd (r_incr R k r)) k = Some (itoa (n + 1))
            else r_incr R k r = (None, r))))"

section \<open>The laws one by one\<close>

lemma only_atD:
  assumes "only_at R k r r'" and "k' \<noteq> k"
  shows "r_get R r' k' = r_get R r k'" and "members R r' k' = members R r k'" and "r_hget R r' k' = r_hget R r k'"
  using assms by (auto simp: only_at_def)

lemma redis_only_at:
  assumes "redis_ok R"
  shows "only_at R k r (r_set R k v r)" and "only_at R k r (r_del R k r)" and "only_at R k r (r_sadd R k m r)"
    and "only_at R k r (r_srem R k m r)" and "only_at R k r (r_hset R k m v r)" and "only_at R k r (r_hsetnx R k m v r)"
    and "only_at R k r (r_hdel R k m r)" and "only_at R k r (snd (r_incr R k r))"
  using assms by (simp_all add: redis_ok_def)

lemma redis_smembers_distinct: "redis_ok R \<Longrightarrow> distinct (r_smembers R r k)"
  by (simp add: redis_ok_def)

lemma redis_get:
  assumes "redis_ok R"
  shows "r_get R (r_set R k v r) k' = (if k' = k then Some v else r_get R r k')"
    and "r_get R (r_del R k r) k' = (if k' = k then None else r_get R r k')"
    and "k' \<noteq> k \<Longrightarrow> r_get R (r_sadd R k m r) k' = r_get R r k'"
    and "k' \<noteq> k \<Longrightarrow> r_get R (r_srem R k m r) k' = r_get R r k'"
    and "k' \<noteq> k \<Longrightarrow> r_get R (r_hset R k m v r) k' = r_get R r k'"
    and "k' \<noteq> k \<Longrightarrow> r_get R (r_hsetnx R k m v r) k' = r_get R r k'"
    and "k' \<noteq> k \<Longrightarrow> r_get R (r_hdel R k m r) k' = r_get R r k'"
    and "k' \<noteq> k \<Longrightarrow> r_get R (snd (r_incr R k r)) k' = r_get R r k'"
  using assms only_atD(1) [OF redis_only_at(1) [OF assms]] only_atD(1) [OF redis_only_at(2) [OF assms]]
    only_atD(1) [OF redis_only_at(3) [OF assms]] only_atD(1) [OF redis_only_at(4) [OF assms]]
    only_atD(1) [OF redis_only_at(5) [OF assms]] only_atD(1) [OF redis_only_at(6) [OF assms]]
    only_atD(1) [OF redis_only_at(7) [OF assms]] only_atD(1) [OF redis_only_at(8) [OF assms]]
  by (simp_all add: redis_ok_def)

lemma redis_members:
  assumes "redis_ok R"
  shows "members R (r_sadd R k m r) k' = (if k' = k then insert m (members R r k) else members R r k')"
    and "members R (r_srem R k m r) k' = (if k' = k then members R r k - {m} else members R r k')"
    and "k' \<noteq> k \<Longrightarrow> members R (r_set R k v r) k' = members R r k'"
    and "k' \<noteq> k \<Longrightarrow> members R (r_del R k r) k' = members R r k'"
    and "k' \<noteq> k \<Longrightarrow> members R (r_hset R k m v r) k' = members R r k'"
    and "k' \<noteq> k \<Longrightarrow> members R (r_hsetnx R k m v r) k' = members R r k'"
    and "k' \<noteq> k \<Longrightarrow> members R (r_hdel R k m r) k' = members R r k'"
    and "k' \<noteq> k \<Longrightarrow> members R (snd (r_incr R k r)) k' = members R r k'"
  using assms only_atD(2) [OF redis_only_at(1) [OF assms]] only_atD(2) [OF redis_only_at(2) [OF assms]]
    only_atD(2) [OF redis_only_at(3) [OF assms]] only_atD(2) [OF redis_only_at(4) [OF assms]]
    only_atD(2) [OF redis_only_at(5) [OF assms]] only_atD(2) [OF redis_only_at(6) [OF assms]]
    only_atD(2) [OF redis_only_at(7) [OF assms]] only_atD(2) [OF redis_only_at(8) [OF assms]]
  by (simp_all add: redis_ok_def)

lemma redis_hget:
  assumes "redis_ok R"
  shows "r_hget R (r_hset R k m v r) k' = (if k' = k then (r_hget R r k)(m \<mapsto> v) else r_hget R r k')"
    and "r_hget R (r_hsetnx R k m v r) k' = (if k' = k \<and> r_hget R r k m = None then (r_hget R r k)(m \<mapsto> v) else r_hget R r k')"
    and "r_hget R (r_hdel R k m r) k' = (if k' = k then (r_hget R r k)(m := None) else r_hget R r k')"
    and "k' \<noteq> k \<Longrightarrow> r_hget R (r_set R k v r) k' = r_hget R r k'"
    and "k' \<noteq> k \<Longrightarrow> r_hget R (r_del R k r) k' = r_hget R r k'"
    and "k' \<noteq> k \<Longrightarrow> r_hget R (r_sadd R k m r) k' = r_hget R r k'"
    and "k' \<noteq> k \<Longrightarrow> r_hget R (r_srem R k m r) k' = r_hget R r k'"
    and "k' \<noteq> k \<Longrightarrow> r_hget R (snd (r_incr R k r)) k' = r_hget R r k'"
proof -
  have "r_hget R (r_hsetnx R k m v r) k = (if r_hget R r k m = None then (r_hget R r k)(m \<mapsto> v) else r_hget R r k)"
    using assms by (simp add: redis_ok_def)
  then show "r_hget R (r_hsetnx R k m v r) k' = (if k' = k \<and> r_hget R r k m = None then (r_hget R r k)(m \<mapsto> v) else r_hget R r k')"
    using only_atD(3) [OF redis_only_at(6) [OF assms], of k' k m v r] by (cases "k' = k") auto
qed (use assms only_atD(3) [OF redis_only_at(1) [OF assms]] only_atD(3) [OF redis_only_at(2) [OF assms]]
    only_atD(3) [OF redis_only_at(3) [OF assms]] only_atD(3) [OF redis_only_at(4) [OF assms]]
    only_atD(3) [OF redis_only_at(5) [OF assms]] only_atD(3) [OF redis_only_at(6) [OF assms]]
    only_atD(3) [OF redis_only_at(7) [OF assms]] only_atD(3) [OF redis_only_at(8) [OF assms]]
 in \<open>simp_all add: redis_ok_def\<close>)

lemma redis_incr:
  assumes "redis_ok R" and "counter_at R r k n"
  shows "in64 (n + 1) \<Longrightarrow> fst (r_incr R k r) = Some (n + 1)"
    and "in64 (n + 1) \<Longrightarrow> r_get R (snd (r_incr R k r)) k = Some (itoa (n + 1))"
    and "\<not> in64 (n + 1) \<Longrightarrow> r_incr R k r = (None, r)"
proof -
  have "\<forall>n. counter_at R r k n \<longrightarrow> (if in64 (n + 1)
      then fst (r_incr R k r) = Some (n + 1) \<and> r_get R (snd (r_incr R k r)) k = Some (itoa (n + 1))
      else r_incr R k r = (None, r))"
    using assms(1) unfolding redis_ok_def by blast
  then have "if in64 (n + 1)
      then fst (r_incr R k r) = Some (n + 1) \<and> r_get R (snd (r_incr R k r)) k = Some (itoa (n + 1))
      else r_incr R k r = (None, r)"
    using assms(2) by blast
  then show "in64 (n + 1) \<Longrightarrow> fst (r_incr R k r) = Some (n + 1)"
    and "in64 (n + 1) \<Longrightarrow> r_get R (snd (r_incr R k r)) k = Some (itoa (n + 1))"
    and "\<not> in64 (n + 1) \<Longrightarrow> r_incr R k r = (None, r)"
    by simp_all
qed

lemma counter_put: "redis_ok R \<Longrightarrow> in64 n \<Longrightarrow> r_get R r k = Some (itoa n) \<Longrightarrow> counter_at R r k n"
  by (simp add: counter_at_def)

section \<open>Numbers in keys\<close>

text \<open>\<open>strconv.ParseInt(s, 10, 64)\<close>.\<close>

definition parse_int64 :: "string \<Rightarrow> int option" where
  "parse_int64 s =
    (let (neg, ds) = (case s of [] \<Rightarrow> (False, []) | c # t \<Rightarrow>
            if c = CHR ''-'' then (True, t) else if c = CHR ''+'' then (False, t) else (False, s))
     in if ds = [] \<or> \<not> list_all (\<lambda>c. 48 \<le> (of_char c :: nat) \<and> (of_char c :: nat) \<le> 57) ds then None
        else let v = (if neg then - int (digits_value ds) else int (digits_value ds))
          in if in64 v then Some v else None)"

lemma parse_itoa: "in64 n \<Longrightarrow> parse_int64 (itoa n) = Some n"
proof -
  assume n: "in64 n"
  have digits: "list_all (\<lambda>c. 48 \<le> (of_char c :: nat) \<and> (of_char c :: nat) \<le> 57) (nat_digits m)" for m
    using nat_digits_range by (simp add: list_all_iff)
  show ?thesis
  proof (cases "n < 0")
    case True
    then show ?thesis using n digits by (simp add: parse_int64_def itoa_def digits_value_nat_digits)
  next
    case False
    obtain c t where ct: "nat_digits (nat n) = c # t" by (cases "nat_digits (nat n)") auto
    then have "c \<noteq> CHR ''-''" "c \<noteq> CHR ''+''"
      using nat_digits_range [of c "nat n"] by auto
    then show ?thesis using n False digits [of "nat n"] digits_value_nat_digits [of "nat n"] ct
      by (simp add: parse_int64_def itoa_def)
  qed
qed

section \<open>A concrete server\<close>

datatype rvalue = RStr string | RSet "string list" | RHash "(string, string) gomap"

type_synonym server = "(string, rvalue) gomap"

definition sv_set :: "server \<Rightarrow> string \<Rightarrow> string list" where
  "sv_set r k = (case gm_get r k of Some (RSet l) \<Rightarrow> remdups l | _ \<Rightarrow> [])"

definition sv_hash :: "server \<Rightarrow> string \<Rightarrow> (string, string) gomap" where
  "sv_hash r k = (case gm_get r k of Some (RHash h) \<Rightarrow> h | _ \<Rightarrow> [])"

definition sv_str :: "server \<Rightarrow> string \<Rightarrow> string option" where
  "sv_str r k = (case gm_get r k of Some (RStr s) \<Rightarrow> Some s | _ \<Rightarrow> None)"

definition map_redis :: "server redis" where
  "map_redis = \<lparr>r_get = sv_str, r_smembers = sv_set, r_hget = (\<lambda>r k. gm_get (sv_hash r k)),
     r_set = (\<lambda>k v. gm_put k (RStr v)), r_del = gm_del,
     r_incr = (\<lambda>k r. let n = (case sv_str r k of None \<Rightarrow> 0
          | Some s \<Rightarrow> if hd (s @ ''0'') = CHR ''-'' then - int (digits_value (tl s)) else int (digits_value s))
        in if in64 (n + 1) then (Some (n + 1), gm_put k (RStr (itoa (n + 1))) r) else (None, r)),
     r_sadd = (\<lambda>k m r. gm_put k (RSet (List.insert m (sv_set r k))) r),
     r_srem = (\<lambda>k m r. gm_put k (RSet (remove1 m (sv_set r k))) r),
     r_hset = (\<lambda>k f v r. gm_put k (RHash (gm_put f v (sv_hash r k))) r),
     r_hsetnx = (\<lambda>k f v r. if gm_get (sv_hash r k) f = None then gm_put k (RHash (gm_put f v (sv_hash r k))) r else r),
     r_hdel = (\<lambda>k f r. gm_put k (RHash (gm_del f (sv_hash r k))) r)\<rparr>"

lemma map_redis_simps [simp]:
  "r_get map_redis = sv_str" "r_smembers map_redis = sv_set" "r_hget map_redis r k = gm_get (sv_hash r k)"
  "r_set map_redis k v r = gm_put k (RStr v) r" "r_del map_redis = gm_del"
  "r_sadd map_redis k m r = gm_put k (RSet (List.insert m (sv_set r k))) r"
  "r_srem map_redis k m r = gm_put k (RSet (remove1 m (sv_set r k))) r"
  "r_hset map_redis k f v r = gm_put k (RHash (gm_put f v (sv_hash r k))) r"
  "r_hsetnx map_redis k f v r = (if gm_get (sv_hash r k) f = None then gm_put k (RHash (gm_put f v (sv_hash r k))) r else r)"
  "r_hdel map_redis k f r = gm_put k (RHash (gm_del f (sv_hash r k))) r"
  by (simp_all add: map_redis_def)

lemma sv_observe:
  "sv_str (gm_put k (RStr v) r) k = Some v" "sv_set (gm_put k (RSet l) r) k = remdups l"
  "sv_hash (gm_put k (RHash h) r) k = h" "sv_str (gm_del k r) k = None"
  "k' \<noteq> k \<Longrightarrow> sv_str (gm_put k x r) k' = sv_str r k'" "k' \<noteq> k \<Longrightarrow> sv_set (gm_put k x r) k' = sv_set r k'"
  "k' \<noteq> k \<Longrightarrow> sv_hash (gm_put k x r) k' = sv_hash r k'" "k' \<noteq> k \<Longrightarrow> sv_str (gm_del k r) k' = sv_str r k'"
  "k' \<noteq> k \<Longrightarrow> sv_set (gm_del k r) k' = sv_set r k'" "k' \<noteq> k \<Longrightarrow> sv_hash (gm_del k r) k' = sv_hash r k'"
  by (simp_all add: sv_str_def sv_set_def sv_hash_def gomap_simps)

lemma map_redis_incr:
  assumes "counter_at map_redis r k n"
  shows "r_incr map_redis k r = (if in64 (n + 1) then (Some (n + 1), gm_put k (RStr (itoa (n + 1))) r) else (None, r))"
proof -
  have "hd (itoa n @ ''0'') = CHR ''-'' \<longleftrightarrow> n < 0"
  proof (cases "n < 0")
    case False
    then show ?thesis using nat_digits_nonempty [of "nat n"] nat_digits_not_minus [of "nat n"]
      by (cases "nat_digits (nat n)") (auto simp: itoa_def)
  qed (simp add: itoa_def)
  then have "(if hd (itoa n @ ''0'') = CHR ''-'' then - int (digits_value (tl (itoa n))) else int (digits_value (itoa n))) = n"
    by (simp add: itoa_def digits_value_nat_digits)
  then show ?thesis using assms by (auto simp: map_redis_def Let_def counter_at_def)
qed

lemma map_redis_ok: "redis_ok map_redis"
proof -
  have set: "set (remdups (remove1 m l)) = set l - {m}" if "distinct l" for m and l :: "string list"
    using that by simp
  have d: "distinct (sv_set r k)" for r k by (simp add: sv_set_def split: option.split rvalue.split)
  have incr: "sv_str (snd (r_incr map_redis k r)) k' = sv_str r k'" "sv_set (snd (r_incr map_redis k r)) k' = sv_set r k'"
    "sv_hash (snd (r_incr map_redis k r)) k' = sv_hash r k'" if "k' \<noteq> k" for k k' r
    using that by (simp_all add: map_redis_def Let_def sv_observe)
  show ?thesis unfolding redis_ok_def
  proof (intro allI conjI impI)
    fix r k n
    assume "counter_at map_redis r k n"
    then show "if in64 (n + 1)
        then fst (r_incr map_redis k r) = Some (n + 1) \<and> r_get map_redis (snd (r_incr map_redis k r)) k = Some (itoa (n + 1))
        else r_incr map_redis k r = (None, r)"
      by (simp add: map_redis_incr sv_observe)
  qed (simp_all add: only_at_def members_def sv_observe d set incr gomap_simps fun_eq_iff)
qed

section \<open>Pipelines\<close>

text \<open>
  A pipeline sends its commands in one round trip; the server executes them in order but not as a
  transaction. The fault \<open>Some k\<close> is a connection that breaks after the server has executed
  \<open>k\<close> of the commands, and the client then gets an error.
\<close>

datatype command = SET string string | DEL string | SADD string string | SREM string string
  | HSET string string string | HSETNX string string string | HDEL string string

fun exec :: "'r redis \<Rightarrow> command \<Rightarrow> 'r \<Rightarrow> 'r" where
  "exec R (SET k v) = r_set R k v"
| "exec R (DEL k) = r_del R k"
| "exec R (SADD k m) = r_sadd R k m"
| "exec R (SREM k m) = r_srem R k m"
| "exec R (HSET k f v) = r_hset R k f v"
| "exec R (HSETNX k f v) = r_hsetnx R k f v"
| "exec R (HDEL k f) = r_hdel R k f"

fun key_of :: "command \<Rightarrow> string" where
  "key_of (SET k v) = k"
| "key_of (DEL k) = k"
| "key_of (SADD k m) = k"
| "key_of (SREM k m) = k"
| "key_of (HSET k f v) = k"
| "key_of (HSETNX k f v) = k"
| "key_of (HDEL k f) = k"

type_synonym faults = "nat \<Rightarrow> nat option"

definition no_faults :: faults where
  "no_faults = (\<lambda>i. None)"

datatype store_error = NotConfigured | Unreachable | Unencodable | Undecodable | NoRows | ModelIDRequired | ModelNotFound

definition pipeline :: "'r redis \<Rightarrow> nat option \<Rightarrow> command list \<Rightarrow> 'r \<Rightarrow> store_error option \<times> 'r" where
  "pipeline R fault cs r = (case fault of
     None \<Rightarrow> (None, fold (exec R) cs r)
   | Some k \<Rightarrow> (Some Unreachable, fold (exec R) (take k cs) r))"

definition incr :: "'r redis \<Rightarrow> nat option \<Rightarrow> string \<Rightarrow> 'r \<Rightarrow> int option \<times> 'r" where
  "incr R fault k r = (case fault of
     None \<Rightarrow> r_incr R k r
   | Some n \<Rightarrow> (None, if n = 0 then r else snd (r_incr R k r)))"

text \<open>A property that each command of a pipeline keeps holds after the pipeline, broken off or not.\<close>

lemma pipeline_keeps:
  assumes "P r" and "\<And>c r. c \<in> set cs \<Longrightarrow> P r \<Longrightarrow> P (exec R c r)"
  shows "P (snd (pipeline R fault cs r))"
proof -
  have "P (fold (exec R) ds r)" if "set ds \<subseteq> set cs" for ds
    using assms(1) that
    by (induction ds arbitrary: r) (auto intro: assms(2))
  then show ?thesis
    by (cases fault) (auto simp: pipeline_def dest: set_take_subset [THEN subsetD])
qed

lemma exec_only_at: "redis_ok R \<Longrightarrow> only_at R (key_of c) r (exec R c r)"
  by (cases c) (simp_all add: redis_only_at)

lemma only_at_refl: "only_at R k r r"
  by (simp add: only_at_def)

section \<open>Encoded records\<close>

lemma set_map_filter_Some: "set (List.map_filter g xs) = {a. \<exists>x \<in> set xs. g x = Some a}"
  by (force simp: map_filter_def)

text \<open>
  The JSON codec of a record type: encoding can fail, and so can decoding. The store relies on a
  record that is written being read back as it was; \<open>json\<close> does so for the records whose strings
  are valid UTF-8 (\<open>fit\<close>). An encoded record is never the empty string.
\<close>

record 'a codec =
  marshal :: "'a \<Rightarrow> string option"
  unmarshal :: "string \<Rightarrow> 'a option"

definition codec_ok :: "('a \<Rightarrow> bool) \<Rightarrow> 'a codec \<Rightarrow> bool" where
  "codec_ok fit J \<longleftrightarrow> (\<forall>a d. fit a \<and> marshal J a = Some d \<longrightarrow> unmarshal J d = Some a \<and> d \<noteq> '''')"

lemma codec_okD: "codec_ok fit J \<Longrightarrow> fit a \<Longrightarrow> marshal J a = Some d \<Longrightarrow> unmarshal J d = Some a \<and> d \<noteq> ''''"
  by (simp add: codec_ok_def)

definition plain_string :: "string \<Rightarrow> bool" where
  "plain_string s \<longleftrightarrow> (\<forall>c \<in> set s. (of_char c :: nat) < 128)"

text \<open>A codec given by a table.\<close>

definition table_codec :: "(string \<times> 'a) list \<Rightarrow> 'a codec" where
  "table_codec T = \<lparr>marshal = (\<lambda>a. map_option fst (find (\<lambda>(s, b). b = a) T)), unmarshal = map_of T\<rparr>"

lemma table_codec_ok:
  assumes "distinct (map fst T)" and "'''' \<notin> fst ` set T"
  shows "codec_ok fit (table_codec T)"
proof -
  have member: "(d, a) \<in> set T" if "find (\<lambda>(s, b). b = a) T = Some (d, b)" for a b d
    using that by (auto simp: find_Some_iff) (metis nth_mem)
  show ?thesis
    using assms by (force simp: codec_ok_def table_codec_def dest!: member simp del: map_of_eq_Some_iff intro: map_of_is_SomeI)
qed

text \<open>What the members of the store share: the connection and the key prefix.\<close>

record 'r redis_store =
  configured :: bool
  client :: "'r redis"
  prefix :: string

definition normalizePrefix :: "string \<Rightarrow> string" where
  "normalizePrefix p = (let q = trim_space p; q = (if q = '''' then ''dabbo:'' else q)
     in if has_suffix q '':'' then q else q @ '':'')"

end
