(* ===== verification/Go_Any.thy ===== *)
theory Go_Any
  imports Go_Float Redis_Server
begin

text \<open>
  Values of type \<open>any\<close> (decoded JSON, whose numbers are \<open>float64\<close>, or built by the program), the checked reads of their fields, and
  what the code uses of \<open>strings\<close> and \<open>path/filepath\<close> to read tool inputs: \<open>Fields\<close>, \<open>Split\<close>,
  \<open>Clean\<close>, \<open>Rel\<close> and \<open>Join\<close> of Unix paths.
\<close>

section \<open>Decoded values\<close>

text \<open>\<open>AInt\<close> and \<open>AIntMap\<close> are an \<open>int\<close> and a \<open>map[string]int\<close>, which no decoder makes.\<close>

datatype any = ANull | ABool bool | ANum rat | AStr string | AList "any list" | AMap "(string \<times> any) list"
  | AInt int | AIntMap "(string \<times> int) list"

type_synonym any_map = "(string, any) gomap"

definition num_field :: "any_map \<Rightarrow> string \<Rightarrow> rat option" where
  "num_field m k = (case gm_get m k of Some (ANum x) \<Rightarrow> Some x | _ \<Rightarrow> None)"

definition str_field :: "any_map \<Rightarrow> string \<Rightarrow> string option" where
  "str_field m k = (case gm_get m k of Some (AStr s) \<Rightarrow> Some s | _ \<Rightarrow> None)"

definition map_field :: "any_map \<Rightarrow> string \<Rightarrow> any_map option" where
  "map_field m k = (case gm_get m k of Some (AMap n) \<Rightarrow> Some n | _ \<Rightarrow> None)"

text \<open>A number of either type as an \<open>int\<close>.\<close>

definition int_field :: "any_map \<Rightarrow> string \<Rightarrow> int option" where
  "int_field m k = (case gm_get m k of Some (ANum x) \<Rightarrow> Some (f_to_int x) | Some (AInt n) \<Rightarrow> Some n | _ \<Rightarrow> None)"

definition or_else :: "'a \<Rightarrow> 'a option \<Rightarrow> 'a" where
  "or_else d v = (case v of None \<Rightarrow> d | Some x \<Rightarrow> x)"

lemma or_else_simps [simp]: "or_else d None = d" "or_else d (Some x) = x"
  by (simp_all add: or_else_def)

section \<open>Splitting\<close>

fun split_char :: "char \<Rightarrow> string \<Rightarrow> string list" where
  "split_char d [] = [[]]"
| "split_char d (c # s) = (if c = d then [] # split_char d s
     else (case split_char d s of [] \<Rightarrow> [[c]] | w # ws \<Rightarrow> (c # w) # ws))"

fun join_with :: "string \<Rightarrow> string list \<Rightarrow> string" where
  "join_with d [] = []"
| "join_with d [w] = w"
| "join_with d (w # v # ws) = w @ d @ join_with d (v # ws)"

fun first_word :: "string \<Rightarrow> string" where
  "first_word [] = []"
| "first_word (c # s) = (if strip_one space_encodings (c # s) \<noteq> None then [] else c # first_word s)"

lemma first_word_nonempty: "strip_one space_encodings s = None \<Longrightarrow> s \<noteq> [] \<Longrightarrow> first_word s \<noteq> []"
  by (cases s) auto

text \<open>\<open>strings.Fields\<close>.\<close>

function words_of :: "string \<Rightarrow> string list" where
  "words_of s = (let t = strip_all space_encodings s in
     if t = [] then [] else first_word t # words_of (drop (length (first_word t)) t))"
  by pat_completeness auto
termination
proof (relation "measure length")
  fix s t
  assume t: "t = strip_all space_encodings s" "t \<noteq> []"
  have "length t \<le> length s" unfolding t(1) by (rule suffix_length_le) (rule strip_all_suffix)
  moreover have "first_word t \<noteq> []" using t strip_one_strip_all first_word_nonempty by blast
  ultimately show "(drop (length (first_word t)) t, s) \<in> measure length" using t(2) by (simp add: length_greater_0_conv [symmetric] del: length_greater_0_conv)
qed simp

declare words_of.simps [simp del]

text \<open>\<open>strings.Trim\<close> with one character.\<close>

definition trim_char :: "char \<Rightarrow> string \<Rightarrow> string" where
  "trim_char c s = rev (dropWhile ((=) c) (rev (dropWhile ((=) c) s)))"

section \<open>Paths\<close>

text \<open>A path is rooted or not; its segments after \<open>Clean\<close>, in which \<open>..\<close> comes first and only when not rooted.\<close>

fun clean_segments :: "bool \<Rightarrow> string list \<Rightarrow> string list \<Rightarrow> string list" where
  "clean_segments rooted stack [] = rev stack"
| "clean_segments rooted stack (p # ps) =
    (if p = '''' \<or> p = ''.'' then clean_segments rooted stack ps
     else if p = ''..'' then
       (case stack of
          q # qs \<Rightarrow> if q = ''..'' then clean_segments rooted (p # stack) ps else clean_segments rooted qs ps
        | [] \<Rightarrow> if rooted then clean_segments rooted [] ps else clean_segments rooted [p] ps)
     else clean_segments rooted (p # stack) ps)"

definition is_abs :: "string \<Rightarrow> bool" where
  "is_abs p \<longleftrightarrow> has_prefix p ''/''"

definition segments :: "string \<Rightarrow> string list" where
  "segments p = clean_segments (is_abs p) [] (split_char CHR ''/'' p)"

definition path_of :: "bool \<Rightarrow> string list \<Rightarrow> string" where
  "path_of rooted segs = (if rooted then ''/'' @ join_with ''/'' segs else if segs = [] then ''.'' else join_with ''/'' segs)"

definition path_clean :: "string \<Rightarrow> string" where
  "path_clean p = path_of (is_abs p) (segments p)"

text \<open>\<open>Join\<close> leaves out empty elements.\<close>

definition path_join :: "string list \<Rightarrow> string" where
  "path_join ps = (let ps = filter (\<lambda>p. p \<noteq> '''') ps in if ps = [] then '''' else path_clean (join_with ''/'' ps))"

fun common_rest :: "string list \<Rightarrow> string list \<Rightarrow> string list \<times> string list" where
  "common_rest (a # as) (b # bs) = (if a = b then common_rest as bs else (a # as, b # bs))"
| "common_rest as bs = (as, bs)"

text \<open>\<open>Rel\<close>; \<open>None\<close> is its error.\<close>

definition path_rel :: "string \<Rightarrow> string \<Rightarrow> string option" where
  "path_rel base target =
    (if is_abs base \<noteq> is_abs target then None
     else (case common_rest (segments base) (segments target) of (b, t) \<Rightarrow>
       if b \<noteq> [] \<and> hd b = ''..'' then None
       else Some (path_of False (replicate (length b) ''..'' @ t))))"

definition path_base :: "string \<Rightarrow> string" where
  "path_base p = (if p = '''' then ''.'' else let q = rev (dropWhile ((=) CHR ''/'') (rev p)) in
     if q = '''' then ''/'' else last (split_char CHR ''/'' q))"

section \<open>Laws\<close>

lemma split_char_not_Nil [simp]: "split_char d s \<noteq> []"
  by (induction s) (auto split: list.split)

lemma join_Cons: "ws \<noteq> [] \<Longrightarrow> join_with d (w # ws) = w @ d @ join_with d ws"
  by (cases ws) auto

lemma join_extend: "join_with d ((c # w) # ws) = c # join_with d (w # ws)"
  by (cases ws) auto

lemma join_split: "join_with [d] (split_char d s) = s"
proof (induction s)
  case (Cons c s)
  then show ?case by (cases "split_char d s") (auto simp: join_Cons join_extend)
qed simp

lemma split_char_no_sep: "w \<in> set (split_char d s) \<Longrightarrow> d \<notin> set w"
  by (induction s arbitrary: w) (auto split: if_splits list.splits)

lemma split_char_join: "ws \<noteq> [] \<Longrightarrow> \<forall>w \<in> set ws. d \<notin> set w \<Longrightarrow> split_char d (join_with [d] ws) = ws"
proof (induction "[d]" ws rule: join_with.induct)
  case (2 w)
  then have "d \<notin> set w" by simp
  then show ?case by (induction w) auto
next
  case (3 w v ws)
  then have "d \<notin> set w" by simp
  then show ?case using 3 by (induction w) auto
qed simp

end
