(* ===== verification/Tool_Inputs.thy ===== *)
theory Tool_Inputs
  imports Go_Any "HOL-Library.Word"
begin

text \<open>
  The checks of tool calls in \<open>internal/handler/stream_handler.go\<close>: which inputs are complete, which
  calls change something, the key under which such a call is recognised when it comes again, and
  which paths belong to the sandbox of the upstream; and the names of \<open>internal/toolname\<close>.
\<close>

unbundle bit_operations_syntax

section \<open>Tool names\<close>

definition normalizedToolNameFallbacks :: "(string, string) gomap" where
  "normalizedToolNameFallbacks =
     map (\<lambda>k. (k, ''Edit'')) [''str_replace_editor'', ''edit'', ''apply_file_diffs'']
   @ map (\<lambda>k. (k, ''Read'')) [''view'', ''readfile'', ''read_file'', ''read_files'', ''read'']
   @ map (\<lambda>k. (k, ''Glob'')) [''listdir'', ''list_dir'', ''list_directory'', ''ls'', ''globtool'', ''glob'', ''find_files'',
       ''file_glob'', ''file_glob_v2'']
   @ map (\<lambda>k. (k, ''Grep'')) [''ripgreptool'', ''ripgrep'', ''search_code'', ''search_codebase'', ''grep'']
   @ map (\<lambda>k. (k, ''Bash'')) [''exec'', ''execute'', ''execute_command'', ''execute-command'', ''run_command'', ''runcommand'',
       ''launch-process'', ''run_shell_command'', ''shell'', ''bash'']
   @ map (\<lambda>k. (k, ''Write'')) [''writefile'', ''write_file'', ''create_file'', ''createfile'', ''save-file'', ''write'']
   @ map (\<lambda>k. (k, ''TodoWrite'')) [''update_todo_list'', ''todo'', ''todo_write'', ''todowrite'']
   @ map (\<lambda>k. (k, ''web_fetch'')) [''web_fetch'', ''webfetch'', ''fetch'', ''builtin_web_fetch'', ''mcp__fetch__fetch'',
       ''mcp__tavily__web_extract'']
   @ map (\<lambda>k. (k, ''web_search'')) [''web_search'', ''websearch'', ''builtin_web_search'', ''mcp__tavily__web_search'',
       ''mcp__brave__web_search'']
   @ [(''ask_followup_question'', ''AskUserQuestion''), (''ask'', ''AskUserQuestion''),
      (''enter_plan_mode'', ''EnterPlanMode''), (''exit_plan_mode'', ''ExitPlanMode'')]
   @ map (\<lambda>k. (k, ''Task'')) [''new_task'', ''agent'', ''subagent'', ''subagents'', ''spawn_agent'', ''spawn_subagent'',
       ''session_spawn'', ''sessions_spawn'']
   @ [(''task_output'', ''TaskOutput''), (''task_stop'', ''TaskStop''), (''use_skill'', ''Skill''), (''skill'', ''Skill'')]"

definition normalizeToolNameKey :: "string \<Rightarrow> string" where
  "normalizeToolNameKey name = to_lower (trim_space name)"

definition NormalizeToolNameFallback :: "string \<Rightarrow> string" where
  "NormalizeToolNameFallback name = (case gm_get normalizedToolNameFallbacks (normalizeToolNameKey name) of
     Some mapped \<Rightarrow> mapped | None \<Rightarrow> name)"

definition normalizeUpstreamToolName :: "string \<Rightarrow> string" where
  "normalizeUpstreamToolName name = (let mapped = NormalizeToolNameFallback name in if trim_space mapped = '''' then name else mapped)"

definition isStructuredToolName :: "string \<Rightarrow> bool" where
  "isStructuredToolName nameKey \<longleftrightarrow> nameKey \<in> {''edit'', ''write'', ''bash'', ''read'', ''glob'', ''grep''}"

definition isSideEffectToolName :: "string \<Rightarrow> bool" where
  "isSideEffectToolName nameKey \<longleftrightarrow> nameKey \<in> {''bash'', ''write'', ''edit''}"

section \<open>Decoded inputs\<close>

text \<open>A \<open>RawMessage\<close> is the text of the value, empty when the field is absent.\<close>

record tool_fields =
  tf_Command :: string
  tf_Cmd :: string
  tf_FilePath :: string
  tf_Path :: string
  tf_Content :: string
  tf_Old :: string
  tf_New :: string
  tf_IsReadOnly :: "bool option"
  tf_IsRisky :: "bool option"

text \<open>What the code uses of the JSON library: decoding into the record, into a string, into any
  value, encoding, and decoding of the list of tools that a task allows.\<close>

record json_lib =
  jl_fields :: "string \<Rightarrow> tool_fields option"
  jl_string :: "string \<Rightarrow> string option"
  jl_any :: "string \<Rightarrow> any option"
  jl_marshal :: "any \<Rightarrow> string option"
  jl_allowed :: "string \<Rightarrow> string list option"

definition decodeToolInputFields :: "json_lib \<Rightarrow> string \<Rightarrow> tool_fields option" where
  "decodeToolInputFields L input = (let raw = trim_space input in jl_fields L (if raw = '''' then ''{}'' else raw))"

definition resolveToolPath :: "string \<Rightarrow> string \<Rightarrow> string" where
  "resolveToolPath filePath path = (if trim_space filePath \<noteq> '''' then trim_space filePath else trim_space path)"

definition field_path :: "tool_fields \<Rightarrow> string" where
  "field_path f = resolveToolPath (tf_FilePath f) (tf_Path f)"

definition field_command :: "tool_fields \<Rightarrow> string" where
  "field_command f = (if trim_space (tf_Command f) \<noteq> '''' then trim_space (tf_Command f) else trim_space (tf_Cmd f))"

definition hasRequiredToolInputFields :: "string \<Rightarrow> tool_fields \<Rightarrow> bool" where
  "hasRequiredToolInputFields nameKey f =
    (if nameKey = ''edit'' then field_path f \<noteq> '''' \<and> tf_Old f \<noteq> '''' \<and> tf_New f \<noteq> ''''
     else if nameKey = ''write'' then field_path f \<noteq> '''' \<and> tf_Content f \<noteq> ''''
     else if nameKey = ''bash'' then trim_space (tf_Command f) \<noteq> '''' \<or> trim_space (tf_Cmd f) \<noteq> ''''
     else if nameKey = ''read'' then field_path f \<noteq> ''''
     else True)"

definition hasRequiredToolInput :: "json_lib \<Rightarrow> string \<Rightarrow> string \<Rightarrow> bool" where
  "hasRequiredToolInput L name input =
    (let nameKey = normalizeToolNameKey name in
     if nameKey = '''' then False
     else if \<not> isStructuredToolName nameKey then True
     else (case decodeToolInputFields L input of None \<Rightarrow> False | Some f \<Rightarrow> hasRequiredToolInputFields nameKey f))"

definition canonicalToolRawValue :: "json_lib \<Rightarrow> string \<Rightarrow> string" where
  "canonicalToolRawValue L raw =
    (let trimmed = trim_space raw in
     if trimmed = '''' then ''''
     else (case jl_string L raw of Some s \<Rightarrow> s
       | None \<Rightarrow> (case jl_any L raw of None \<Rightarrow> trimmed
          | Some v \<Rightarrow> (case jl_marshal L v of None \<Rightarrow> trimmed | Some n \<Rightarrow> n))))"

section \<open>Read-only commands\<close>

definition readOnlyCommands :: "string list" where
  "readOnlyCommands = [''find'', ''sort'', ''ls'', ''pwd'', ''cat'', ''head'', ''tail'', ''grep'', ''rg'', ''wc'', ''stat'', ''file'',
     ''tree'', ''du'', ''basename'', ''dirname'', ''realpath'', ''readlink'', ''which'', ''type'', ''fd'']"

text \<open>One segment of a pipeline.\<close>

definition read_only_segment :: "string \<Rightarrow> bool" where
  "read_only_segment segment = (case words_of (trim_space segment) of
     [] \<Rightarrow> False
   | cmd # args \<Rightarrow>
       if cmd \<in> set readOnlyCommands then True
       else if cmd = ''sed'' then (case args of a # _ \<Rightarrow> a = ''-n'' | [] \<Rightarrow> False)
       else False)"

definition isReadOnlyBashCommand :: "string \<Rightarrow> bool option \<Rightarrow> bool option \<Rightarrow> bool" where
  "isReadOnlyBashCommand command isReadOnly isRisky =
    (if isRisky = Some True then False
     else case isReadOnly of Some b \<Rightarrow> b
     | None \<Rightarrow>
        let lower = to_lower (trim_space command) in
        if lower = '''' then False
        else if contains lower '' -exec '' \<or> contains lower '' -delete'' then False
        else if contains lower ''&&'' \<or> contains lower ''||'' \<or> contains lower '';'' then False
        else if contains lower ''>'' \<or> contains lower ''<'' then False
        else list_all read_only_segment (split_char CHR ''|'' lower))"

section \<open>Keys of calls\<close>

definition sameOrWithinPath :: "string \<Rightarrow> string \<Rightarrow> bool" where
  "sameOrWithinPath pathValue base =
    (let pathValue = path_clean pathValue; base = path_clean base in
     if pathValue = base then True
     else (case path_rel base pathValue of None \<Rightarrow> False | Some rel \<Rightarrow> rel \<noteq> ''..'' \<and> \<not> has_prefix rel ''../''))"

definition canonicalToolPathForDedup :: "string \<Rightarrow> string \<Rightarrow> string" where
  "canonicalToolPathForDedup pathValue workdir =
    (let pathValue = trim_space pathValue in
     if pathValue = '''' then ''''
     else let cleanPath = path_clean pathValue; workdir = trim_space workdir in
       if workdir = '''' then cleanPath
       else if is_abs cleanPath then
         (let cleanWorkdir = path_clean workdir in
          if sameOrWithinPath cleanPath cleanWorkdir
          then (case path_rel cleanWorkdir cleanPath of Some rel \<Rightarrow> path_clean rel | None \<Rightarrow> cleanPath)
          else cleanPath)
       else path_clean cleanPath)"

definition nul :: string where "nul = [char_of (0::nat)]"

definition sideEffectToolDedupKeyFromFields :: "json_lib \<Rightarrow> string \<Rightarrow> tool_fields \<Rightarrow> string \<Rightarrow> string" where
  "sideEffectToolDedupKeyFromFields L nameKey f workdir =
    (if \<not> isSideEffectToolName nameKey then ''''
     else if nameKey = ''bash'' then
       (let command = field_command f in
        if command = '''' then ''''
        else if isReadOnlyBashCommand command (tf_IsReadOnly f) (tf_IsRisky f) then ''''
        else ''bash:'' @ command)
     else
       (let path = canonicalToolPathForDedup (field_path f) workdir in
        if path = '''' then ''''
        else if nameKey = ''write'' then
          (if tf_Content f = '''' then '''' else ''write:'' @ path @ nul @ canonicalToolRawValue L (tf_Content f))
        else
          (if tf_Old f = '''' \<or> tf_New f = '''' then ''''
           else ''edit:'' @ path @ nul @ canonicalToolRawValue L (tf_Old f) @ nul @ canonicalToolRawValue L (tf_New f))))"

definition sideEffectToolDedupKey :: "json_lib \<Rightarrow> string \<Rightarrow> string \<Rightarrow> string \<Rightarrow> string" where
  "sideEffectToolDedupKey L name input workdir =
    (let nameKey = normalizeToolNameKey name in
     if \<not> isSideEffectToolName nameKey then ''''
     else (case decodeToolInputFields L input of None \<Rightarrow> ''''
       | Some f \<Rightarrow> sideEffectToolDedupKeyFromFields L nameKey f workdir))"

text \<open>The key of a call that is complete; \<open>None\<close> for one that is not.\<close>

definition evaluateToolCallInput :: "json_lib \<Rightarrow> string \<Rightarrow> string \<Rightarrow> string \<Rightarrow> string option" where
  "evaluateToolCallInput L name input workdir =
    (let nameKey = normalizeToolNameKey name in
     if nameKey = '''' then None
     else if \<not> isStructuredToolName nameKey then Some ''''
     else (case decodeToolInputFields L input of None \<Rightarrow> None
       | Some f \<Rightarrow> if \<not> hasRequiredToolInputFields nameKey f then None
           else Some (sideEffectToolDedupKeyFromFields L nameKey f workdir)))"

definition looksLikeGitBashCommand :: "string \<Rightarrow> bool" where
  "looksLikeGitBashCommand command =
    (let lower = to_lower (trim_space command) in
     if lower = '''' then False
     else if has_prefix lower ''git '' \<or> has_prefix lower ''git.exe '' then True
     else list_ex (contains lower) ([''&& git '', ''&& git.exe '', ''; git '', ''; git.exe '', ''|| git '', ''|| git.exe '']
       @ map (\<lambda>m. CHR 0x0A # m) [''git '', ''git.exe '', '' git '', '' git.exe '']))"

definition shouldPreseedSideEffectDedup :: "json_lib \<Rightarrow> string \<Rightarrow> string \<Rightarrow> bool" where
  "shouldPreseedSideEffectDedup L nameKey input =
    (if normalizeToolNameKey nameKey \<noteq> ''bash'' then True
     else (case decodeToolInputFields L input of None \<Rightarrow> True | Some f \<Rightarrow> \<not> looksLikeGitBashCommand (field_command f)))"

section \<open>Masked keys\<close>

definition fnv64Offset :: "64 word" where "fnv64Offset = 14695981039346656037"
definition fnv64Prime :: "64 word" where "fnv64Prime = 1099511628211"

definition fnv1a64String :: "string \<Rightarrow> 64 word" where
  "fnv1a64String s = fold (\<lambda>c h. (h XOR word_of_nat (of_char c)) * fnv64Prime) s fnv64Offset"

fun hex_digits :: "nat \<Rightarrow> string" where
  "hex_digits n = (if n < 16 then [''0123456789abcdef'' ! n] else hex_digits (n div 16) @ [''0123456789abcdef'' ! (n mod 16)])"

declare hex_digits.simps [simp del]

definition maskDedupKey :: "string \<Rightarrow> string" where
  "maskDedupKey key =
    (let tool = (case index_byte key (CHR '':'') of Some i \<Rightarrow> if 0 < i then take i key else key | None \<Rightarrow> key)
     in tool @ ''#'' @ hex_digits (unat (fnv1a64String key)))"

section \<open>The upstream's sandbox\<close>

definition sandbox_parts :: "string \<Rightarrow> string list option" where
  "sandbox_parts pathValue =
    (let pathValue = trim_space (map (\<lambda>c. if c = CHR 0x5C then CHR ''/'' else c) pathValue) in
     if pathValue = '''' \<or> \<not> has_prefix (to_lower pathValue) ''/tmp/cc-agent/'' then None
     else let parts = split_char CHR ''/'' (trim_char CHR ''/'' pathValue) in
       if length parts < 3 then None
       else if \<not> equal_fold (parts ! 0) ''tmp'' \<or> \<not> equal_fold (parts ! 1) ''cc-agent'' then None
       else Some (drop 3 parts))"

definition isNonProjectSandboxPath :: "string \<Rightarrow> bool" where
  "isNonProjectSandboxPath pathValue = (case sandbox_parts pathValue of
     None \<Rightarrow> False
   | Some [] \<Rightarrow> True
   | Some (p # _) \<Rightarrow> \<not> equal_fold (trim_space p) ''project'')"

definition hasNonProjectSandboxToolPath :: "json_lib \<Rightarrow> string \<Rightarrow> string \<Rightarrow> bool" where
  "hasNonProjectSandboxToolPath L name input =
    (if normalizeToolNameKey name \<in> {''read'', ''edit'', ''write'', ''glob'', ''grep''}
     then (case decodeToolInputFields L input of None \<Rightarrow> False | Some f \<Rightarrow> isNonProjectSandboxPath (field_path f))
     else False)"

definition rebaseSandboxPathToWorkdir :: "string \<Rightarrow> string \<Rightarrow> string option" where
  "rebaseSandboxPathToWorkdir pathValue workdir =
    (let workdir = trim_space workdir in
     if workdir = '''' then None
     else (case sandbox_parts pathValue of
         Some (p # tail) \<Rightarrow>
           if \<not> equal_fold (trim_space p) ''project'' then None
           else if tail = [] then Some (path_clean workdir)
           else Some (path_clean (path_join (workdir # tail)))
       | _ \<Rightarrow> None))"

end
