(* ===== verification/Stream_State.thy ===== *)
theory Stream_State
  imports Sse_Frame Token_Estimator Tool_Inputs
begin

text \<open>
  The state of \<open>internal/handler/stream_handler.go\<close>, its writes, blocks, tool calls and the end of a
  response. The fields of \<open>streamHandler\<close> are grouped as its comments group them: the connection, the
  content blocks, the token counts, the tool calls and the text buffers. The upstream messages are
  in \<open>Stream_Messages\<close>.

  Every write is an entry of a log that says whether it got through; a frame that failed may have been
  sent in part. The fields that are only logged or never read are left out.
\<close>

section \<open>What is written\<close>

text \<open>A frame that the handler builds, an event of the upstream that is passed on, the keep-alive comment and \<open>[DONE]\<close>.\<close>

datatype sent = Built sse_event | Passed string string | KeepAlive | Done

fun event_name :: "sse_event \<Rightarrow> string" where
  "event_name (MessageStart m md i out) = ''message_start''"
| "event_name (MessageStartNoUsage m md) = ''message_start''"
| "event_name (MessageDelta r out) = ''message_delta''"
| "event_name MessageStop = ''message_stop''"
| "event_name (BlockStop i) = ''content_block_stop''"
| "event_name (StartText i) = ''content_block_start''"
| "event_name (StartThinking i sig) = ''content_block_start''"
| "event_name (StartToolUse i tool name) = ''content_block_start''"
| "event_name (DeltaText i t) = ''content_block_delta''"
| "event_name (DeltaThinking i t) = ''content_block_delta''"
| "event_name (DeltaInputJSON i t) = ''content_block_delta''"

fun sent_event :: "sent \<Rightarrow> string" where
  "sent_event (Built e) = event_name e"
| "sent_event (Passed ev p) = ev"
| "sent_event KeepAlive = ''keep-alive''"
| "sent_event Done = ''message_stop''"

definition line_break :: string where "line_break = [CHR 0x0A, CHR 0x0A]"
definition sseDoneLine :: string where "sseDoneLine = ''data: [DONE]'' @ line_break"
definition sseKeepAlive :: string where "sseKeepAlive = '': keep-alive'' @ line_break"

fun sent_data :: "sent \<Rightarrow> string" where
  "sent_data (Built e) = frame e"
| "sent_data (Passed ev p) = p"
| "sent_data KeepAlive = sseKeepAlive"
| "sent_data Done = sseDoneLine"

text \<open>\<open>writeSSEFrame\<close> and \<open>writeOpenAIFrame\<close>.\<close>

definition writeSSEFrame :: "string \<Rightarrow> string \<Rightarrow> string" where
  "writeSSEFrame event data = ''event: '' @ event @ [CHR 0x0A] @ ''data: '' @ data @ line_break"

definition writeOpenAIFrame :: "string \<Rightarrow> string" where
  "writeOpenAIFrame payload = ''data: '' @ payload @ line_break"

definition in_quotes :: "string \<Rightarrow> string" where
  "in_quotes s = [CHR 0x22] @ s @ [CHR 0x22]"

definition shouldFlushSSEImmediately :: "string \<Rightarrow> string \<Rightarrow> bool" where
  "shouldFlushSSEImmediately event data =
    (if event \<in> {''message_start'', ''message_delta'', ''message_stop'', ''content_block_start'', ''content_block_stop''} then True
     else if event = ''content_block_delta'' then contains data (in_quotes ''type'' @ '':'' @ in_quotes ''text_delta'')
     else if event = ''fs_operation'' then False
     else \<not> has_prefix event ''coding_agent.'')"

section \<open>State\<close>

record tool_call =
  tc_id :: string
  tc_name :: string
  tc_input :: string

datatype content_block = CText "string option" | CThinking string | CToolUse string string any

datatype block_kind = Thinking | Text

record wire =
  w_log :: "(sent \<times> bool) list"
  w_deferredFrames :: int
  w_deferredBytes :: int
  w_flushed :: nat
  w_hasReturn :: bool
  w_finalStopReason :: string

text \<open>No block is active, or one of the two kinds.\<close>

record blocks =
  b_index :: int
  b_active :: "block_kind option"
  b_textSSE :: int
  b_textBlock :: int
  b_thinkSSE :: int
  b_thinkBlock :: int
  b_content :: "content_block list"
  b_texts :: "(int, string) gomap"
  b_thinks :: "(int, string) gomap"
  b_sigs :: "(int, string) gomap"
  b_pendingSig :: string

record usage =
  u_output :: int
  u_thinking :: int
  u_input :: int
  u_upstream :: bool
  u_est :: estimator

record tools =
  t_pending :: "tool_call list"
  t_names :: "(string, string) gomap"
  t_buffers :: "(string, string) gomap"
  t_direct :: "(int, tool_call) gomap"
  t_skipped :: "int list"
  t_handled :: "string list"
  t_emitted :: "string list"
  t_count :: int
  t_suppressed :: int
  t_dedup :: "string list"
  t_seed :: "string list"
  t_dedupCount :: int
  t_dedupKeys :: "(string, int) gomap"

record texts =
  x_response :: string
  x_chunks :: string
  x_hasText :: bool
  x_last :: string
  x_lastSource :: string
  x_lastAt :: instant
  x_intro :: "string list"
  x_scan :: instant
  x_convs :: "string list"

record stream =
  sh_wire :: wire
  sh_blocks :: blocks
  sh_usage :: usage
  sh_tools :: tools
  sh_text :: texts

text \<open>
  What does not change while the handler runs. \<open>v_ok n\<close> says whether the n-th write gets through,
  \<open>v_chunk\<close> is the conversion of an event to an OpenAI chunk (nothing for an event that has none),
  \<open>v_normalize\<close> the rewriting of the name and input of a tool call for the client.
\<close>

record stream_env =
  v_isStream :: bool
  v_suppressThinking :: bool
  v_openai :: bool
  v_chunk :: "string \<Rightarrow> string \<Rightarrow> string option"
  v_ok :: "nat \<Rightarrow> bool"
  v_json :: json_lib
  v_marshal :: "any_map option \<Rightarrow> string option"
  v_workdir :: string
  v_normalize :: "string \<Rightarrow> string \<Rightarrow> string \<times> string"
  v_clientTools :: "any list"
  v_allowedTools :: "string list"
  v_disallowTools :: bool
  v_msgID :: string

definition newStreamHandler :: stream where
  "newStreamHandler = \<lparr>
     sh_wire = \<lparr>w_log = [], w_deferredFrames = 0, w_deferredBytes = 0, w_flushed = 0, w_hasReturn = False, w_finalStopReason = ''''\<rparr>,
     sh_blocks = \<lparr>b_index = -1, b_active = None, b_textSSE = -1, b_textBlock = -1, b_thinkSSE = -1, b_thinkBlock = -1,
       b_content = [], b_texts = [], b_thinks = [], b_sigs = [], b_pendingSig = ''''\<rparr>,
     sh_usage = \<lparr>u_output = 0, u_thinking = 0, u_input = 0, u_upstream = False, u_est = new_estimator\<rparr>,
     sh_tools = \<lparr>t_pending = [], t_names = [], t_buffers = [], t_direct = [], t_skipped = [], t_handled = [], t_emitted = [],
       t_count = 0, t_suppressed = 0, t_dedup = [], t_seed = [], t_dedupCount = 0, t_dedupKeys = []\<rparr>,
     sh_text = \<lparr>x_response = '''', x_chunks = '''', x_hasText = False, x_last = '''', x_lastSource = '''', x_lastAt = zero_time,
       x_intro = [], x_scan = zero_time, x_convs = []\<rparr>\<rparr>"

section \<open>Writing\<close>

definition sseDeferredFlushFrameThreshold :: int where "sseDeferredFlushFrameThreshold = 4"
definition sseDeferredFlushByteThreshold :: int where "sseDeferredFlushByteThreshold = 2048"

definition flush_now :: "wire \<Rightarrow> wire" where
  "flush_now w = w\<lparr>w_deferredFrames := 0, w_deferredBytes := 0, w_flushed := length (w_log w)\<rparr>"

text \<open>The 16 bytes are those of \<open>event: \<close>, the data prefix and the line break.\<close>

definition flushSSEWithLen :: "string \<Rightarrow> nat \<Rightarrow> bool \<Rightarrow> wire \<Rightarrow> wire" where
  "flushSSEWithLen event dataLen immediate w =
    (if immediate then flush_now w
     else let w = w\<lparr>w_deferredFrames := w_deferredFrames w + 1,
                w_deferredBytes := w_deferredBytes w + int (length event + dataLen + 16)\<rparr>
       in if sseDeferredFlushFrameThreshold \<le> w_deferredFrames w \<or> sseDeferredFlushByteThreshold \<le> w_deferredBytes w
          then flush_now w else w)"

definition markWriteError :: "wire \<Rightarrow> wire" where
  "markWriteError w = (if w_hasReturn w then w else w\<lparr>w_hasReturn := True, w_finalStopReason := ''write_error''\<rparr>)"

definition put :: "stream_env \<Rightarrow> sent \<Rightarrow> bool \<Rightarrow> wire \<Rightarrow> wire" where
  "put V x immediate w =
    (let ok = v_ok V (length (w_log w)); w = w\<lparr>w_log := w_log w @ [(x, ok)]\<rparr>
     in if ok then flushSSEWithLen (sent_event x) (length (sent_data x)) immediate w else markWriteError w)"

text \<open>In the OpenAI format an event without a chunk is not written.\<close>

definition send :: "stream_env \<Rightarrow> sent \<Rightarrow> bool \<Rightarrow> wire \<Rightarrow> wire" where
  "send V x immediate w =
    (if v_openai V \<and> v_chunk V (sent_event x) (sent_data x) = None then w else put V x immediate w)"

definition write_sse :: "stream_env \<Rightarrow> sent \<Rightarrow> bool \<Rightarrow> wire \<Rightarrow> wire" where
  "write_sse V x immediate w = (if \<not> v_isStream V \<or> w_hasReturn w then w else send V x immediate w)"

text \<open>A final write goes out although the response has returned, and is flushed at once.\<close>

definition write_final :: "stream_env \<Rightarrow> sent \<Rightarrow> wire \<Rightarrow> wire" where
  "write_final V x w =
    (if \<not> v_isStream V then w
     else let w' = send V x True w
       in if v_openai V \<and> x = Built MessageStop
             \<and> (v_chunk V (sent_event x) (sent_data x) = None \<or> v_ok V (length (w_log w)))
          then put V Done True w' else w')"

text \<open>The hint of the typed builders: deltas of thinking and of tool input may wait.\<close>

fun flush_hint :: "sse_event \<Rightarrow> bool" where
  "flush_hint (DeltaThinking i t) = False"
| "flush_hint (DeltaInputJSON i t) = False"
| "flush_hint e = True"

definition out :: "stream_env \<Rightarrow> bool \<Rightarrow> sse_event \<Rightarrow> stream \<Rightarrow> stream" where
  "out V final e = sh_wire_update (if final then write_final V (Built e) else write_sse V (Built e) (flush_hint e))"

definition writeSSEBytes :: "stream_env \<Rightarrow> sent \<Rightarrow> stream \<Rightarrow> stream" where
  "writeSSEBytes V x = sh_wire_update (write_sse V x (shouldFlushSSEImmediately (sent_event x) (sent_data x)))"

definition writeKeepAlive :: "stream_env \<Rightarrow> stream \<Rightarrow> stream" where
  "writeKeepAlive V = sh_wire_update (\<lambda>w. if \<not> v_isStream V \<or> w_hasReturn w then w else put V KeepAlive True w)"

definition writeSSEMessageStart :: "stream_env \<Rightarrow> string \<Rightarrow> int \<Rightarrow> int \<Rightarrow> stream \<Rightarrow> stream" where
  "writeSSEMessageStart V model inputTokens outputTokens = out V False (MessageStart (v_msgID V) model inputTokens outputTokens)"

section \<open>Token counts\<close>

definition addThinkingTokens :: "string \<Rightarrow> usage \<Rightarrow> usage" where
  "addThinkingTokens t u = (if t = '''' \<or> u_upstream u then u
     else u\<lparr>u_thinking := u_thinking u + EstimateTextTokens t, u_output := u_output u + EstimateTextTokens t\<rparr>)"

definition addOutputTokens :: "string \<Rightarrow> usage \<Rightarrow> usage" where
  "addOutputTokens t u = (if t = '''' \<or> u_upstream u then u else u\<lparr>u_est := Add t (u_est u)\<rparr>)"

definition finalizeOutputTokens :: "usage \<Rightarrow> usage" where
  "finalizeOutputTokens u = (if u_upstream u then u else u\<lparr>u_output := Count (u_est u)\<rparr>)"

definition setUsageTokens :: "int \<Rightarrow> int \<Rightarrow> usage \<Rightarrow> usage" where
  "setUsageTokens i n u = (let u = u\<lparr>u_upstream := True\<rparr>;
     u = (if 0 \<le> i then u\<lparr>u_input := i\<rparr> else u) in if 0 \<le> n then u\<lparr>u_output := n\<rparr> else u)"

section \<open>Blocks\<close>

text \<open>The index of the active block, which is no longer active then.\<close>

definition popActiveBlock :: "blocks \<Rightarrow> int option \<times> blocks" where
  "popActiveBlock b = (case b_active b of
     None \<Rightarrow> (None, b)
   | Some Thinking \<Rightarrow> (Some (b_thinkSSE b), b\<lparr>b_active := None, b_thinkSSE := -1, b_thinkBlock := -1\<rparr>)
   | Some Text \<Rightarrow> (Some (b_textSSE b), b\<lparr>b_active := None, b_textSSE := -1, b_textBlock := -1\<rparr>))"

definition closeActiveBlock :: "stream_env \<Rightarrow> stream \<Rightarrow> stream" where
  "closeActiveBlock V s = (case popActiveBlock (sh_blocks s) of
     (None, b) \<Rightarrow> s\<lparr>sh_blocks := b\<rparr>
   | (Some i, b) \<Rightarrow> writeSSEBytes V (Built (BlockStop i)) (s\<lparr>sh_blocks := b\<rparr>))"

definition new_thinking :: "blocks \<Rightarrow> blocks" where
  "new_thinking b = (let n = int (length (b_content b)); sig = b_pendingSig b in
     b\<lparr>b_index := b_index b + 1, b_active := Some Thinking, b_pendingSig := '''', b_content := b_content b @ [CThinking sig],
       b_thinkBlock := n, b_thinkSSE := b_index b + 1, b_thinks := gm_put n '''' (b_thinks b), b_sigs := gm_put n sig (b_sigs b)\<rparr>)"

definition new_text :: "blocks \<Rightarrow> blocks" where
  "new_text b = (let n = int (length (b_content b)) in
     b\<lparr>b_index := b_index b + 1, b_active := Some Text, b_content := b_content b @ [CText None],
       b_textBlock := n, b_textSSE := b_index b + 1, b_texts := gm_put n '''' (b_texts b)\<rparr>)"

definition ensureBlock :: "stream_env \<Rightarrow> block_kind \<Rightarrow> stream \<Rightarrow> int \<times> stream" where
  "ensureBlock V kind s =
    (if kind = Thinking \<and> v_suppressThinking V then (-1, s)
     else let s = (if b_active (sh_blocks s) \<noteq> None \<and> b_active (sh_blocks s) \<noteq> Some kind then closeActiveBlock V s else s) in
       if b_active (sh_blocks s) = Some kind
       then (case kind of Thinking \<Rightarrow> b_thinkSSE (sh_blocks s) | Text \<Rightarrow> b_textSSE (sh_blocks s), s)
       else let i = b_index (sh_blocks s) + 1 in
         (i, case kind of
            Thinking \<Rightarrow> out V False (StartThinking i (b_pendingSig (sh_blocks s))) (sh_blocks_update new_thinking s)
          | Text \<Rightarrow> out V False (StartText i) (sh_blocks_update new_text s)))"

text \<open>A string builder of a map, created when it is missing.\<close>

definition append_to :: "'k \<Rightarrow> string \<Rightarrow> ('k, string) gomap \<Rightarrow> ('k, string) gomap" where
  "append_to k t m = gm_put k (or_else '''' (gm_get m k) @ t) m"

definition valid_block :: "int \<Rightarrow> blocks \<Rightarrow> bool" where
  "valid_block n b \<longleftrightarrow> 0 \<le> n \<and> n < int (length (b_content b))"

definition record_text :: "string \<Rightarrow> blocks \<Rightarrow> blocks" where
  "record_text t b = (if valid_block (b_textBlock b) b then b\<lparr>b_texts := append_to (b_textBlock b) t (b_texts b)\<rparr> else b)"

definition record_thinking :: "string \<Rightarrow> blocks \<Rightarrow> blocks" where
  "record_thinking t b = (if valid_block (b_thinkBlock b) b then b\<lparr>b_thinks := append_to (b_thinkBlock b) t (b_thinks b)\<rparr> else b)"

text \<open>The index to write a delta to: that of the open block, or of a new one.\<close>

definition text_index :: "stream_env \<Rightarrow> stream \<Rightarrow> int \<times> stream" where
  "text_index V s = (if b_textSSE (sh_blocks s) < 0 then ensureBlock V Text s else (b_textSSE (sh_blocks s), s))"

definition thinking_index :: "stream_env \<Rightarrow> stream \<Rightarrow> int \<times> stream" where
  "thinking_index V s = (if b_thinkSSE (sh_blocks s) < 0 then ensureBlock V Thinking s else (b_thinkSSE (sh_blocks s), s))"

definition markTextOutput :: "stream \<Rightarrow> stream" where
  "markTextOutput = sh_text_update (x_hasText_update (\<lambda>b. True))"

definition emitTextDelta :: "stream_env \<Rightarrow> string \<Rightarrow> stream \<Rightarrow> stream" where
  "emitTextDelta V t s =
    (if t = '''' then s
     else case text_index V (markTextOutput s) of (i, s) \<Rightarrow>
       out V False (DeltaText i t) (sh_blocks_update (record_text t) (sh_usage_update (addOutputTokens t) s)))"

definition emitThinkingDelta :: "stream_env \<Rightarrow> string \<Rightarrow> stream \<Rightarrow> stream" where
  "emitThinkingDelta V t s =
    (if t = '''' \<or> v_suppressThinking V then s
     else case thinking_index V s of (i, s) \<Rightarrow>
       out V False (DeltaThinking i t) (sh_blocks_update (record_thinking t) (sh_usage_update (addOutputTokens t) s)))"

definition InjectErrorText :: "stream_env \<Rightarrow> string \<Rightarrow> stream \<Rightarrow> stream" where
  "InjectErrorText V msg s = (case ensureBlock V Text (markTextOutput s) of (i, s) \<Rightarrow>
     if v_isStream V then writeSSEBytes V (Built (DeltaText i msg)) s
     else sh_blocks_update (\<lambda>b. if gm_get (b_texts b) (b_textBlock b) = None then b
            else b\<lparr>b_texts := append_to (b_textBlock b) msg (b_texts b)\<rparr>) s)"

section \<open>Tool calls\<close>

definition has_tool_calls :: "stream \<Rightarrow> bool" where
  "has_tool_calls s \<longleftrightarrow> 0 < t_count (sh_tools s) \<or> t_pending (sh_tools s) \<noteq> [] \<or> t_emitted (sh_tools s) \<noteq> []"

definition tool_input_json :: "string \<Rightarrow> string" where
  "tool_input_json input = (if trim_space input = '''' then ''{}'' else trim_space input)"

text \<open>Start, input and stop of a tool block; the OpenAI format has lower-case names.\<close>

definition out_tool_block :: "stream_env \<Rightarrow> bool \<Rightarrow> int \<Rightarrow> string \<Rightarrow> string \<Rightarrow> string \<Rightarrow> stream \<Rightarrow> stream" where
  "out_tool_block V final i tid name input s =
     out V final (BlockStop i) (out V final (DeltaInputJSON i input)
       (out V final (StartToolUse i tid (if v_openai V then to_lower name else name)) s))"

definition next_index :: "stream \<Rightarrow> int \<times> stream" where
  "next_index s = (b_index (sh_blocks s) + 1, sh_blocks_update (b_index_update (\<lambda>n. n + 1)) s)"

definition emitToolCallNonStream :: "stream_env \<Rightarrow> tool_call \<Rightarrow> stream \<Rightarrow> stream" where
  "emitToolCallNonStream V c s =
     sh_blocks_update (b_content_update (\<lambda>bs. bs @ [CToolUse (tc_id c) (tc_name c)
        (or_else (AMap []) (jl_any (v_json V) (tool_input_json (tc_input c))))]))
       (sh_usage_update (\<lambda>u. addOutputTokens (tc_input c) (addOutputTokens (tc_name c) u)) s)"

text \<open>A negative index asks for the next one.\<close>

definition emitToolCallStream :: "stream_env \<Rightarrow> tool_call \<Rightarrow> int \<Rightarrow> bool \<Rightarrow> stream \<Rightarrow> stream" where
  "emitToolCallStream V c idx final s =
    (if tc_id c = '''' then s
     else let s = sh_usage_update (\<lambda>u. addOutputTokens (tc_input c) (addOutputTokens (tc_name c) u)) s;
              (i, s) = (if idx < 0 then next_index s else (idx, s))
       in out_tool_block V final i (tc_id c) (tc_name c) (tool_input_json (tc_input c)) s)"

definition emitToolUseFromInput :: "stream_env \<Rightarrow> string \<Rightarrow> string \<Rightarrow> string \<Rightarrow> stream \<Rightarrow> stream" where
  "emitToolUseFromInput V toolID toolName inputStr s =
    (if toolID = '''' \<or> toolName = '''' \<or> toolID \<in> set (t_emitted (sh_tools s)) then s
     else let s = sh_tools_update (t_emitted_update ((#) toolID)) s;
              s = sh_usage_update (addOutputTokens toolName) s;
              s = sh_tools_update (t_count_update (\<lambda>n. n + 1)) s;
              (i, s) = next_index s
       in out_tool_block V False i toolID toolName (tool_input_json inputStr) s)"

definition flushPendingToolCalls :: "stream_env \<Rightarrow> stream \<Rightarrow> stream" where
  "flushPendingToolCalls V s =
     fold (\<lambda>c. if v_isStream V then emitToolCallStream V c (-1) True else emitToolCallNonStream V c)
       (t_pending (sh_tools s)) (sh_tools_update (t_pending_update (\<lambda>p. [])) s)"

definition handleToolCallAfterChecks :: "tool_call \<Rightarrow> stream \<Rightarrow> stream" where
  "handleToolCallAfterChecks c = sh_tools_update (\<lambda>t. t\<lparr>t_pending := t_pending t @ [c], t_count := t_count t + 1\<rparr>)"

section \<open>Which tool calls pass\<close>

definition setAllowedToolNames :: "string list \<Rightarrow> string list" where
  "setAllowedToolNames names = filter (\<lambda>k. k \<noteq> '''') (map normalizeToolNameKey names)"

definition taskDelegationAllowed :: "stream_env \<Rightarrow> string \<Rightarrow> bool" where
  "taskDelegationAllowed V input = (case jl_allowed (v_json V) (trim_space input) of
     None \<Rightarrow> False
   | Some names \<Rightarrow> names \<noteq> []
       \<and> list_all (\<lambda>n. normalizeToolNameKey n \<noteq> '''' \<and> normalizeToolNameKey n \<in> set (v_allowedTools V)) names)"

definition allowed_tool :: "stream_env \<Rightarrow> bool \<Rightarrow> tool_call \<Rightarrow> bool" where
  "allowed_tool V enforce c =
    (if enforce \<and> v_allowedTools V \<noteq> [] then
       (let name = normalizeToolNameKey (tc_name c) in
        name \<in> set (v_allowedTools V) \<or> name = ''taskoutput'' \<or> name = ''taskstop''
        \<or> name = ''task'' \<and> taskDelegationAllowed V (tc_input c))
     else True)"

definition suppress :: "int \<Rightarrow> stream \<Rightarrow> stream" where
  "suppress n = sh_tools_update (t_suppressed_update (\<lambda>k. k + n))"

text \<open>The key of a call is taken here; the same key is refused from then on.\<close>

definition take_key :: "string \<Rightarrow> stream \<Rightarrow> bool \<times> stream" where
  "take_key key s =
    (if key = '''' then (True, s)
     else if key \<in> set (t_dedup (sh_tools s))
     then (False, sh_tools_update (\<lambda>t. t\<lparr>t_dedupCount := t_dedupCount t + 1, t_suppressed := t_suppressed t + 1,
            t_dedupKeys := gm_put (maskDedupKey key) (or_else 0 (gm_get (t_dedupKeys t) (maskDedupKey key)) + 1) (t_dedupKeys t)\<rparr>) s)
     else (True, sh_tools_update (\<lambda>t. t\<lparr>t_dedup := key # t_dedup t, t_seed := key # t_seed t\<rparr>) s))"

definition shouldAcceptToolCallWithFilter :: "stream_env \<Rightarrow> bool \<Rightarrow> tool_call \<Rightarrow> stream \<Rightarrow> bool \<times> stream" where
  "shouldAcceptToolCallWithFilter V enforce c s =
    (let s = suppress ((if v_disallowTools V then 1 else 0) + (if allowed_tool V enforce c then 0 else 1)) s in
     if v_disallowTools V \<or> \<not> allowed_tool V enforce c then (False, s)
     else if hasNonProjectSandboxToolPath (v_json V) (tc_name c) (tc_input c) then (False, suppress 1 s)
     else (case evaluateToolCallInput (v_json V) (tc_name c) (tc_input c) (v_workdir V) of
         None \<Rightarrow> (False, suppress 1 s)
       | Some key \<Rightarrow> take_key key s))"

text \<open>The name of a web tool as the client declared it.\<close>

definition rewriteWebToolCallToClient :: "stream_env \<Rightarrow> string \<Rightarrow> string" where
  "rewriteWebToolCallToClient V name =
    (let canonical = normalizeToolNameKey (NormalizeToolNameFallback name) in
     if canonical \<noteq> ''web_fetch'' \<and> canonical \<noteq> ''web_search'' then name
     else (case find (\<lambda>n. n \<noteq> '''' \<and> (equal_fold n canonical \<or> normalizeToolNameKey (NormalizeToolNameFallback n) = canonical))
         (List.map_filter (\<lambda>v. case v of AMap m \<Rightarrow> Some (trim_space (or_else '''' (str_field m ''name''))) | _ \<Rightarrow> None) (v_clientTools V)) of
       Some n \<Rightarrow> n | None \<Rightarrow> canonical))"

definition normalize_call :: "stream_env \<Rightarrow> string \<Rightarrow> string \<Rightarrow> string \<times> string" where
  "normalize_call V name input = (case v_normalize V name input of (name, input) \<Rightarrow> (rewriteWebToolCallToClient V name, input))"

section \<open>The end of a response\<close>

text \<open>A whole text block at once, in a final write.\<close>

definition emitTextBlock :: "stream_env \<Rightarrow> string \<Rightarrow> stream \<Rightarrow> stream" where
  "emitTextBlock V t s =
    (if \<not> v_isStream V \<or> t = '''' then s
     else case next_index (markTextOutput s) of (i, s) \<Rightarrow>
       out V True (BlockStop i) (out V True (DeltaText i t) (out V True (StartText i) s)))"

definition emitWriteChunkFallbackIfNeeded :: "stream_env \<Rightarrow> stream \<Rightarrow> stream" where
  "emitWriteChunkFallbackIfNeeded V s =
    (if x_hasText (sh_text s) \<or> x_chunks (sh_text s) = '''' then s
     else let t = x_chunks (sh_text s); s = markTextOutput s in
       if v_isStream V then emitTextBlock V t s
       else sh_blocks_update (b_content_update (\<lambda>bs. bs @ [CText (Some t)])) s)"

definition close_final :: "stream_env \<Rightarrow> stream \<Rightarrow> stream" where
  "close_final V s = (case popActiveBlock (sh_blocks s) of
     (None, b) \<Rightarrow> s\<lparr>sh_blocks := b\<rparr>
   | (Some i, b) \<Rightarrow> out V True (BlockStop i) (s\<lparr>sh_blocks := b\<rparr>))"

definition finish_body :: "stream_env \<Rightarrow> string \<Rightarrow> stream \<Rightarrow> stream" where
  "finish_body V stopReason s =
    (let s = (if stopReason \<noteq> ''tool_use'' then emitWriteChunkFallbackIfNeeded V s else s)
     in sh_usage_update finalizeOutputTokens (flushPendingToolCalls V s))"

definition finish_stream :: "stream_env \<Rightarrow> string \<Rightarrow> stream \<Rightarrow> stream" where
  "finish_stream V stopReason s =
    (let s = finish_body V stopReason (close_final V s)
     in out V True MessageStop (out V True (MessageDelta stopReason (u_output (sh_usage s))) s))"

definition finishResponse :: "stream_env \<Rightarrow> string \<Rightarrow> stream \<Rightarrow> stream" where
  "finishResponse V stopReason s =
    (let stopReason = (if stopReason = ''tool_use'' \<and> \<not> has_tool_calls s then ''end_turn'' else stopReason) in
     if w_hasReturn (sh_wire s) then s
     else let s = sh_wire_update (\<lambda>w. w\<lparr>w_hasReturn := True, w_finalStopReason := stopReason\<rparr>) s
       in if v_isStream V then finish_stream V stopReason s else finish_body V stopReason s)"

definition forceFinishIfMissing :: "stream_env \<Rightarrow> stream \<Rightarrow> stream" where
  "forceFinishIfMissing V s =
    (if w_hasReturn (sh_wire s) then s else finishResponse V (if has_tool_calls s then ''tool_use'' else ''end_turn'') s)"

definition hasAnyOutput :: "stream \<Rightarrow> bool" where
  "hasAnyOutput s \<longleftrightarrow> x_hasText (sh_text s) \<or> has_tool_calls s \<or> b_content (sh_blocks s) \<noteq> []
     \<or> x_response (sh_text s) \<noteq> '''' \<or> x_chunks (sh_text s) \<noteq> '''' \<or> HasText (u_est (sh_usage s))"

definition resetRoundState :: "stream_env \<Rightarrow> stream \<Rightarrow> stream" where
  "resetRoundState V s =
    (let s = closeActiveBlock V s in
     \<lparr>sh_wire = (sh_wire s)\<lparr>w_hasReturn := False, w_finalStopReason := '''', w_deferredFrames := 0, w_deferredBytes := 0\<rparr>,
      sh_blocks = (sh_blocks s)\<lparr>b_thinkBlock := -1, b_thinkSSE := -1, b_textBlock := -1, b_textSSE := -1, b_active := None,
        b_content := [], b_texts := [], b_thinks := []\<rparr>,
      sh_usage = (sh_usage s)\<lparr>u_output := 0, u_thinking := 0, u_est := Reset (u_est (sh_usage s)), u_upstream := False\<rparr>,
      sh_tools = (sh_tools s)\<lparr>t_pending := [], t_names := [], t_buffers := [], t_direct := [], t_handled := [], t_emitted := [],
        t_dedup := t_seed (sh_tools s), t_dedupCount := 0, t_dedupKeys := [], t_count := 0\<rparr>,
      sh_text = (sh_text s)\<lparr>x_response := '''', x_chunks := '''', x_hasText := False, x_last := '''', x_lastSource := '''',
        x_lastAt := zero_time\<rparr>\<rparr>)"

end
