(* ===== verification/Stream_Messages.thy ===== *)
theory Stream_Messages
  imports Stream_State
begin

text \<open>
  \<open>handleMessage\<close> and \<open>handleDirectFinalSSEEvent\<close> of \<open>internal/handler/stream_handler.go\<close>: what one message
  of the upstream does to the stream handler, one definition per group of message types; and the
  recognition of greetings and of tool markers in text.
\<close>

section \<open>Messages\<close>

text \<open>\<open>Event\<close> is nil or a decoded object, \<open>RawJSON\<close> its text when the client kept it.\<close>

record sse_message =
  ms_Type :: string
  ms_Event :: "any_map option"
  ms_RawJSON :: string

definition event_of :: "sse_message \<Rightarrow> any_map" where
  "event_of m = or_else [] (ms_Event m)"

definition marshalEventPayload :: "stream_env \<Rightarrow> sse_message \<Rightarrow> string option" where
  "marshalEventPayload V m = (if ms_RawJSON m \<noteq> '''' then Some (ms_RawJSON m) else v_marshal V (ms_Event m))"

definition writeUpstreamEventSSE :: "stream_env \<Rightarrow> sse_message \<Rightarrow> stream \<Rightarrow> stream" where
  "writeUpstreamEventSSE V m s = (case marshalEventPayload V m of
     None \<Rightarrow> s
   | Some payload \<Rightarrow> writeSSEBytes V (Passed (ms_Type m) payload) s)"

text \<open>\<open>model\<close> messages are told apart by the type of their event.\<close>

definition event_key :: "sse_message \<Rightarrow> string" where
  "event_key m = (if ms_Type m = ''model''
     then (case str_field (event_of m) ''type'' of Some t \<Rightarrow> ''model.'' @ t | None \<Rightarrow> ms_Type m) else ms_Type m)"

definition extractThinkingSignature :: "any_map \<Rightarrow> string" where
  "extractThinkingSignature ev = (case str_field ev ''signature'' of
     Some sig \<Rightarrow> trim_space sig
   | None \<Rightarrow> (case Option.bind (map_field ev ''data'') (\<lambda>d. str_field d ''signature'') of
        Some sig \<Rightarrow> trim_space sig | None \<Rightarrow> ''''))"

definition nonblank :: "string option \<Rightarrow> string option" where
  "nonblank v = (case v of Some t \<Rightarrow> if trim_space t \<noteq> '''' then Some (trim_space t) else None | None \<Rightarrow> None)"

definition extractEventMessage :: "any_map option \<Rightarrow> string \<Rightarrow> string" where
  "extractEventMessage ev fallback = (case ev of
     None \<Rightarrow> fallback
   | Some ev \<Rightarrow> (case nonblank (Option.bind (map_field ev ''data'') (\<lambda>d. str_field d ''message'')) of
        Some msg \<Rightarrow> msg
      | None \<Rightarrow> or_else fallback (nonblank (str_field ev ''message''))))"

section \<open>Greetings and markers\<close>

function remove_all :: "string \<Rightarrow> string \<Rightarrow> string" where
  "remove_all p s = (case s of
     [] \<Rightarrow> []
   | c # t \<Rightarrow> if p \<noteq> [] \<and> has_prefix s p then remove_all p (drop (length p) s) else c # remove_all p t)"
  by pat_completeness auto
termination by (relation "measure (\<lambda>(p, s). length s)") auto

declare remove_all.simps [simp del]

text \<open>UTF-8 of the waving hand and of the Chinese words.\<close>

definition wave :: string where "wave = bytes_of [0xF0, 0x9F, 0x91, 0x8B]"
definition ni_hao :: string where "ni_hao = bytes_of [0xE4, 0xBD, 0xA0, 0xE5, 0xA5, 0xBD]"
definition nin_hao :: string where "nin_hao = bytes_of [0xE6, 0x82, 0xA8, 0xE5, 0xA5, 0xBD]"
definition wo_neng_bang_ni :: string where
  "wo_neng_bang_ni = bytes_of [0xE6, 0x88, 0x91, 0xE8, 0x83, 0xBD, 0xE5, 0xB8, 0xAE, 0xE4, 0xBD, 0xA0]"
definition wo_shi :: string where "wo_shi = bytes_of [0xE6, 0x88, 0x91, 0xE6, 0x98, 0xAF]"

definition intro_greetings :: "string list" where
  "intro_greetings =
     [''hi! what'' @ [CHR 0x27] @ ''s up? how can i help today?'', ''hello! what'' @ [CHR 0x27] @ ''s up? how can i help today?'',
      ''hi! how can i help today?'', ''hello! how can i help today?'', ''hi! how can i help you today?'',
      ''hello! how can i help you today?'', ''hi! how can i help you today!'', ''hello! how can i help you today!'']"

definition normalizeIntroKey :: "string \<Rightarrow> string" where
  "normalizeIntroKey delta =
    (let t = trim_space delta; lower = to_lower t; compact = join_with '' '' (words_of (remove_all wave lower)) in
     if t = '''' then ''''
     else if lower \<in> set (drop 4 intro_greetings) then ''intro:en:greet''
     else if compact \<in> set intro_greetings then ''intro:en:greet''
     else if (has_prefix compact ''hi!'' \<or> has_prefix compact ''hello!'' \<or> has_prefix compact ''hey!'')
       \<and> (contains compact ''how can i help today'' \<or> contains compact ''how can i help you today'') then ''intro:en:greet''
     else if has_prefix t ni_hao \<or> has_prefix t nin_hao \<or> contains t wo_neng_bang_ni then ''intro:zh:greet''
     else if contains lower ''warp'' \<and> (has_prefix t wo_shi \<or> contains t ''agent mode'') then ''intro:zh:warp''
     else if contains lower ''claude'' \<and> (has_prefix t wo_shi \<or> contains lower ''claude 4'') then ''intro:zh:claude''
     else '''')"

definition collapseDuplicatedIntroDelta :: "string \<Rightarrow> string" where
  "collapseDuplicatedIntroDelta delta =
    (let t = trim_space delta; half = length t div 2; first = trim_space (take half t); second = trim_space (drop half t) in
     if t = '''' \<or> length t mod 2 \<noteq> 0 then delta
     else if first = '''' \<or> second = '''' \<or> first \<noteq> second then delta
     else if normalizeIntroKey first = '''' then delta else first)"

definition shouldSkipIntroDelta :: "string \<Rightarrow> texts \<Rightarrow> bool \<times> texts" where
  "shouldSkipIntroDelta delta x = (let key = normalizeIntroKey delta in
     if key = '''' then (False, x)
     else if key \<in> set (x_intro x) then (True, x) else (False, x\<lparr>x_intro := key # x_intro x\<rparr>))"

definition shouldSkipCrossChannelDuplicateDelta :: "string \<Rightarrow> string \<Rightarrow> instant \<Rightarrow> texts \<Rightarrow> bool \<times> texts" where
  "shouldSkipCrossChannelDuplicateDelta source delta now x =
    (if trim_space delta = '''' \<or> source = '''' then (False, x)
     else (x_last x = delta \<and> x_lastSource x \<noteq> '''' \<and> x_lastSource x \<noteq> source \<and> t_sub now (x_lastAt x) \<le> 2 * second,
       x\<lparr>x_last := delta, x_lastSource := source, x_lastAt := now\<rparr>))"

text \<open>
  The leftmost match of \<open>Used tool: (\w+)\s+with input: (\{.*\})\<close>: the whole match, the name and the input,
  which reaches to the last closing brace of its line.
\<close>

definition word_char :: "char \<Rightarrow> bool" where
  "word_char c \<longleftrightarrow> isASCIIWordByte (of_char c) \<or> c = CHR ''_''"

definition blank_char :: "char \<Rightarrow> bool" where
  "blank_char c \<longleftrightarrow> c \<in> {CHR 0x09, CHR 0x0A, CHR 0x0C, CHR 0x0D, CHR '' ''}"

definition marker_here :: "string \<Rightarrow> (string \<times> string \<times> string) option" where
  "marker_here s =
    (if \<not> has_prefix s ''Used tool: '' then None
     else let r = drop 11 s; name = takeWhile word_char r; r = drop (length name) r;
              gap = takeWhile blank_char r; r = drop (length gap) r
       in if name = '''' \<or> gap = '''' \<or> \<not> has_prefix r ''with input: {'' then None
          else let line = takeWhile (\<lambda>c. c \<noteq> CHR 0x0A) (drop 12 r); input = rev (dropWhile (\<lambda>c. c \<noteq> CHR ''}'') (rev line))
            in if input = '''' then None else Some (''Used tool: '' @ name @ gap @ ''with input: '' @ input, name, input))"

fun find_marker :: "string \<Rightarrow> (string \<times> string \<times> string) option" where
  "find_marker [] = None"
| "find_marker (c # s) = (case marker_here (c # s) of Some m \<Rightarrow> Some m | None \<Rightarrow> find_marker s)"

section \<open>Usage\<close>

definition first_int :: "any_map \<Rightarrow> string \<Rightarrow> string \<Rightarrow> int option" where
  "first_int m k k' = (case int_field m k of Some n \<Rightarrow> Some n | None \<Rightarrow> int_field m k')"

definition read_usage :: "any_map \<Rightarrow> stream \<Rightarrow> stream" where
  "read_usage m s =
    (let i = first_int m ''inputTokens'' ''input_tokens''; n = first_int m ''outputTokens'' ''output_tokens''
     in if i = None \<and> n = None then s else sh_usage_update (setUsageTokens (or_else (-1) i) (or_else (-1) n)) s)"

section \<open>Thinking and text\<close>

definition on_reasoning_start :: "stream_env \<Rightarrow> sse_message \<Rightarrow> stream \<Rightarrow> stream" where
  "on_reasoning_start V m s =
    (let sig = extractThinkingSignature (event_of m); s = sh_blocks_update (b_pendingSig_update (\<lambda>p. sig)) s
     in if sig \<noteq> '''' then snd (ensureBlock V Thinking s) else s)"

text \<open>A signature that comes after its block was started without one.\<close>

definition late_signature :: "string \<Rightarrow> blocks \<Rightarrow> blocks" where
  "late_signature sig b = (let n = b_thinkBlock b in
     if valid_block n b \<and> gm_get (b_sigs b) n = Some ''''
     then b\<lparr>b_sigs := gm_put n sig (b_sigs b), b_content := (b_content b)[nat n := CThinking sig]\<rparr> else b)"

definition on_reasoning_delta :: "stream_env \<Rightarrow> sse_message \<Rightarrow> stream \<Rightarrow> stream" where
  "on_reasoning_delta V m s =
    (let pending = b_pendingSig (sh_blocks s);
         sig = (if pending = '''' then extractThinkingSignature (event_of m) else pending);
         s = (if pending = '''' \<and> sig \<noteq> '''' then sh_blocks_update (b_pendingSig_update (\<lambda>p. sig)) s else s);
         delta = (if ms_Type m = ''model'' then or_else '''' (str_field (event_of m) ''delta'')
            else or_else '''' (Option.bind (map_field (event_of m) ''data'') (\<lambda>d. str_field d ''text'')))
     in if delta = '''' then
          (if sig \<noteq> '''' then sh_blocks_update (late_signature sig) (snd (ensureBlock V Thinking s)) else s)
        else let s = (if sig \<noteq> '''' then sh_blocks_update (late_signature sig) s else s) in
          (case thinking_index V s of (i, s) \<Rightarrow>
             out V False (DeltaThinking i delta) (sh_blocks_update (record_thinking delta)
               (if v_isStream V then sh_usage_update (addThinkingTokens delta) s else s))))"

text \<open>The text that is left of a delta after its duplicates were dropped.\<close>

definition emit_delta :: "stream_env \<Rightarrow> string \<Rightarrow> instant \<Rightarrow> string \<Rightarrow> stream \<Rightarrow> stream" where
  "emit_delta V source now delta s =
    (case shouldSkipIntroDelta delta (sh_text s) of (skip, x) \<Rightarrow>
       if skip then s\<lparr>sh_text := x\<rparr>
       else (case shouldSkipCrossChannelDuplicateDelta source delta now x of (skip, x) \<Rightarrow>
          let s = s\<lparr>sh_text := x\<rparr> in
          if skip then s
          else (case text_index V (markTextOutput s) of (i, s) \<Rightarrow>
            let s = sh_usage_update (addOutputTokens delta) s;
                s = (if v_isStream V then s else sh_text_update (x_response_update (\<lambda>r. r @ delta)) s)
            in out V False (DeltaText i delta) (sh_blocks_update (record_text delta) s))))"

section \<open>Tool calls\<close>

definition forget_input :: "string \<Rightarrow> tools \<Rightarrow> tools" where
  "forget_input i t = t\<lparr>t_buffers := gm_del i (t_buffers t), t_names := gm_del i (t_names t)\<rparr>"

definition on_tool_input_start :: "stream_env \<Rightarrow> sse_message \<Rightarrow> stream \<Rightarrow> stream" where
  "on_tool_input_start V m s =
    (let s = closeActiveBlock V s; i = or_else '''' (str_field (event_of m) ''id'');
         name = trim_space (or_else '''' (str_field (event_of m) ''toolName''))
     in if i = '''' \<or> name = '''' then s
        else sh_tools_update (\<lambda>t. t\<lparr>t_names := gm_put i name (t_names t), t_buffers := gm_put i '''' (t_buffers t)\<rparr>) s)"

definition on_tool_input_delta :: "sse_message \<Rightarrow> stream \<Rightarrow> stream" where
  "on_tool_input_delta m s =
    (let i = or_else '''' (str_field (event_of m) ''id''); delta = or_else '''' (str_field (event_of m) ''delta'')
     in if i = '''' then s
        else sh_tools_update (\<lambda>t. if gm_get (t_buffers t) i = None then t else t\<lparr>t_buffers := append_to i delta (t_buffers t)\<rparr>) s)"

text \<open>A complete call: once per identifier, if it may pass; at once in a stream, at the end otherwise.\<close>

definition accept_call :: "stream_env \<Rightarrow> bool \<Rightarrow> tool_call \<Rightarrow> stream \<Rightarrow> stream" where
  "accept_call V counted c s =
    (if tc_id c \<in> set (t_handled (sh_tools s)) then s
     else (case shouldAcceptToolCallWithFilter V True c s of
         (False, s) \<Rightarrow> s
       | (True, s) \<Rightarrow>
           let s = sh_tools_update (\<lambda>t. (forget_input (tc_id c) t)\<lparr>t_handled := tc_id c # t_handled t\<rparr>) s
           in if v_isStream V
              then emitToolUseFromInput V (tc_id c) (tc_name c) (tc_input c)
                (if counted then sh_usage_update (addOutputTokens (tc_input c)) s else s)
              else handleToolCallAfterChecks c s))"

definition on_tool_input_end :: "stream_env \<Rightarrow> sse_message \<Rightarrow> stream \<Rightarrow> stream" where
  "on_tool_input_end V m s =
    (let i = or_else '''' (str_field (event_of m) ''id''); name = or_else '''' (gm_get (t_names (sh_tools s)) i);
         input = trim_space (or_else '''' (gm_get (t_buffers (sh_tools s)) i));
         s' = sh_tools_update (forget_input i) s
     in if i = '''' then s
        else if name = '''' then s'
        else (case normalize_call V name input of (name, input) \<Rightarrow>
           accept_call V True \<lparr>tc_id = i, tc_name = name, tc_input = input\<rparr> s'))"

definition on_tool_call :: "stream_env \<Rightarrow> string \<Rightarrow> string \<Rightarrow> string \<Rightarrow> stream \<Rightarrow> stream" where
  "on_tool_call V i name input s = (case normalize_call V name input of (name, input) \<Rightarrow>
     if i = '''' then s else accept_call V False \<lparr>tc_id = i, tc_name = name, tc_input = input\<rparr> s)"

text \<open>A text delta; a marker in it is a tool call, and the text around it is kept.\<close>

definition on_text_delta :: "stream_env \<Rightarrow> instant \<Rightarrow> sse_message \<Rightarrow> stream \<Rightarrow> stream" where
  "on_text_delta V now m s =
    (let delta = or_else '''' (str_field (event_of m) ''delta'') in
     if delta = '''' then s
     else let delta = collapseDuplicatedIntroDelta delta in
       (case find_marker delta of
          None \<Rightarrow> emit_delta V (event_key m) now delta s
        | Some (whole, name, input) \<Rightarrow>
            let s = on_tool_call V (''call_'' @ itoa now) name input s; rest = remove_all whole delta in
            if trim_space delta = trim_space whole \<or> trim_space rest = '''' then s
            else emit_delta V (event_key m) now rest s))"

section \<open>Work of the upstream agent\<close>

definition on_agent_start :: "stream_env \<Rightarrow> sse_message \<Rightarrow> stream \<Rightarrow> stream" where
  "on_agent_start V m s =
     writeUpstreamEventSSE V m (if 0 \<le> b_thinkSSE (sh_blocks s) \<or> b_pendingSig (sh_blocks s) \<noteq> ''''
       then snd (ensureBlock V Thinking s) else s)"

definition credits_message :: string where
  "credits_message = ''You have run out of credits. Please upgrade your plan to continue.''"

definition on_credits_exhausted :: "stream_env \<Rightarrow> sse_message \<Rightarrow> stream \<Rightarrow> stream" where
  "on_credits_exhausted V m s =
     finishResponse V ''end_turn'' (InjectErrorText V (extractEventMessage (ms_Event m) credits_message) (closeActiveBlock V s))"

definition write_note :: "sse_message \<Rightarrow> string" where
  "write_note m = [CHR 0x0A] @ ''['' @ (if contains (ms_Type m) ''Edit'' then ''Editing'' else ''Writing'') @ '' ''
     @ or_else '''' (Option.bind (map_field (event_of m) ''data'') (\<lambda>d. str_field d ''file_path'')) @ ''...]'' @ [CHR 0x0A]"

definition on_write_started :: "stream_env \<Rightarrow> sse_message \<Rightarrow> stream \<Rightarrow> stream" where
  "on_write_started V m s =
    (if \<not> v_isStream V \<or> v_suppressThinking V then s
     else writeUpstreamEventSSE V m (emitThinkingDelta V (write_note m) (snd (ensureBlock V Thinking s))))"

definition on_write_chunk :: "stream_env \<Rightarrow> sse_message \<Rightarrow> stream \<Rightarrow> stream" where
  "on_write_chunk V m s =
    (if \<not> v_isStream V then s
     else let t = or_else '''' (Option.bind (map_field (event_of m) ''data'') (\<lambda>d. str_field d ''text''));
              s = (if t = '''' then s
                else let s = sh_text_update (x_chunks_update (\<lambda>c. c @ t)) s
                  in if v_suppressThinking V then emitTextDelta V t s else emitThinkingDelta V t s)
       in if v_suppressThinking V then s else writeUpstreamEventSSE V m s)"

definition done_note :: string where "done_note = [CHR 0x0A] @ ''[Done]'' @ [CHR 0x0A]"

definition on_write_completed :: "stream_env \<Rightarrow> sse_message \<Rightarrow> stream \<Rightarrow> stream" where
  "on_write_completed V m s =
    (if \<not> v_isStream V \<or> v_suppressThinking V then s
     else writeUpstreamEventSSE V m (emitThinkingDelta V done_note s))"

definition on_fs_operation :: "stream_env \<Rightarrow> instant \<Rightarrow> sse_message \<Rightarrow> stream \<Rightarrow> stream" where
  "on_fs_operation V now m s =
    (if t_sub now (x_scan (sh_text s)) < second then s
     else let s = sh_text_update (x_scan_update (\<lambda>t. now)) s
       in if v_isStream V then writeUpstreamEventSSE V m s else writeKeepAlive V s)"

section \<open>The end of the answer\<close>

text \<open>The reason that the upstream gives, then the calls that were really handled decide.\<close>

definition finish_reason :: "any_map \<Rightarrow> stream \<Rightarrow> string" where
  "finish_reason ev s =
    (let r = (case str_field ev ''finishReason'' of
           Some r \<Rightarrow> if r = ''tool-calls'' \<or> r = ''tool_use'' then ''tool_use'' else ''end_turn''
         | None \<Rightarrow> ''end_turn'');
         r = (if t_emitted (sh_tools s) \<noteq> [] then ''tool_use'' else r)
     in if r = ''tool_use'' \<and> \<not> has_tool_calls s then ''end_turn'' else r)"

definition on_finish :: "stream_env \<Rightarrow> sse_message \<Rightarrow> stream \<Rightarrow> stream" where
  "on_finish V m s =
    (let s = (case map_field (event_of m) ''usage'' of Some u \<Rightarrow> read_usage u s | None \<Rightarrow> s)
     in finishResponse V (finish_reason (event_of m) s) (closeActiveBlock V s))"

section \<open>Events in the final format\<close>

text \<open>Some upstreams send the events of the Anthropic stream themselves.\<close>

definition directSSEEventType :: "any_map option \<Rightarrow> string" where
  "directSSEEventType ev = trim_space (or_else '''' (str_field (or_else [] ev) ''type''))"

definition directSSEIndex :: "any_map option \<Rightarrow> int" where
  "directSSEIndex ev = or_else (-1) (int_field (or_else [] ev) ''index'')"

definition direct_message_delta :: "stream_env \<Rightarrow> sse_message \<Rightarrow> stream \<Rightarrow> stream" where
  "direct_message_delta V m s =
    (let s = (case nonblank (Option.bind (map_field (event_of m) ''delta'') (\<lambda>d. str_field d ''stop_reason'')) of
           Some r \<Rightarrow> sh_wire_update (w_finalStopReason_update (\<lambda>x. r)) s | None \<Rightarrow> s);
         s = (case Option.bind (map_field (event_of m) ''usage'') (\<lambda>u. int_field u ''output_tokens'') of
           Some n \<Rightarrow> sh_usage_update (setUsageTokens (-1) n) s | None \<Rightarrow> s)
     in writeUpstreamEventSSE V m s)"

definition direct_message_stop :: "stream_env \<Rightarrow> sse_message \<Rightarrow> stream \<Rightarrow> stream" where
  "direct_message_stop V m s =
    (let s = writeUpstreamEventSSE V m s;
         stopReason = (if trim_space (w_finalStopReason (sh_wire s)) \<noteq> '''' then w_finalStopReason (sh_wire s) else ''end_turn'')
     in if \<not> v_isStream V then finishResponse V stopReason s
        else sh_usage_update finalizeOutputTokens (sh_wire_update (\<lambda>w.
          if \<not> w_hasReturn w then w\<lparr>w_hasReturn := True, w_finalStopReason := stopReason\<rparr>
          else if trim_space (w_finalStopReason w) = '''' then w\<lparr>w_finalStopReason := stopReason\<rparr> else w) s))"

definition direct_activate :: "string \<Rightarrow> int \<Rightarrow> blocks \<Rightarrow> blocks" where
  "direct_activate kind i b =
    (let b = b\<lparr>b_index := max i (b_index b)\<rparr>
     in if kind = ''thinking'' then b\<lparr>b_thinkSSE := i, b_active := Some Thinking\<rparr>
        else if kind = ''text'' then b\<lparr>b_textSSE := i, b_active := Some Text\<rparr> else b)"

definition direct_tool_start :: "int \<Rightarrow> any_map \<Rightarrow> stream \<Rightarrow> stream" where
  "direct_tool_start i block s =
    (let toolID = trim_space (or_else '''' (str_field block ''id'')); name = trim_space (or_else '''' (str_field block ''name''))
     in if toolID = '''' \<or> name = '''' then s
        else sh_tools_update (t_direct_update (\<lambda>d.
            gm_put i \<lparr>tc_id = toolID, tc_name = name, tc_input = (case gm_get d i of Some c \<Rightarrow> tc_input c | None \<Rightarrow> '''')\<rparr> d))
          (sh_blocks_update (b_index_update (max i)) s))"

definition direct_block_start :: "stream_env \<Rightarrow> int \<Rightarrow> sse_message \<Rightarrow> stream \<Rightarrow> stream" where
  "direct_block_start V i m s =
    (let block = or_else [] (map_field (event_of m) ''content_block''); kind = trim_space (or_else '''' (str_field block ''type''))
     in if kind = ''thinking'' \<and> v_suppressThinking V then sh_tools_update (t_skipped_update ((#) i)) s
        else if kind = ''tool_use'' then direct_tool_start i block s
        else let s = (if \<not> v_isStream V \<and> (kind = ''thinking'' \<or> kind = ''text'')
               then (case ensureBlock V (if kind = ''thinking'' then Thinking else Text) s of (n, s) \<Rightarrow>
                 if 0 \<le> n then sh_blocks_update (direct_activate kind i) s else s)
               else sh_blocks_update (direct_activate kind i) s)
          in writeUpstreamEventSSE V m s)"

definition direct_block_delta :: "stream_env \<Rightarrow> int \<Rightarrow> sse_message \<Rightarrow> stream \<Rightarrow> stream" where
  "direct_block_delta V i m s =
    (let delta = or_else [] (map_field (event_of m) ''delta''); kind = trim_space (or_else '''' (str_field delta ''type'')) in
     if i \<in> set (t_skipped (sh_tools s)) then s
     else (case gm_get (t_direct (sh_tools s)) i of
         Some c \<Rightarrow>
           if kind \<noteq> ''input_json_delta'' then s
           else sh_tools_update (t_direct_update (gm_put i (c\<lparr>tc_input := tc_input c @ or_else '''' (str_field delta ''partial_json'')\<rparr>))) s
       | None \<Rightarrow>
           let s = (if kind = ''text_delta'' then
                 (let t = or_else '''' (str_field delta ''text'') in
                  if t = '''' then s
                  else let s = sh_usage_update (addOutputTokens t) (markTextOutput s)
                    in if v_isStream V then s
                       else sh_text_update (x_response_update (\<lambda>r. r @ t)) (sh_blocks_update (record_text t) s))
               else if kind = ''thinking_delta'' then
                 (let t = or_else '''' (str_field delta ''thinking'') in
                  if t = '''' then s
                  else if v_isStream V then sh_usage_update (addThinkingTokens t) s else sh_blocks_update (record_thinking t) s)
               else s)
           in writeUpstreamEventSSE V m s))"

definition direct_tool_stop :: "stream_env \<Rightarrow> int \<Rightarrow> tool_call \<Rightarrow> stream \<Rightarrow> stream" where
  "direct_tool_stop V i c s =
    (let s = sh_tools_update (t_direct_update (gm_del i)) s in
     (case v_normalize V (tc_name c) (trim_space (tc_input c)) of (name, input) \<Rightarrow>
       let c = \<lparr>tc_id = trim_space (tc_id c), tc_name = name, tc_input = input\<rparr> in
       if tc_id c = '''' \<or> name = '''' \<or> tc_id c \<in> set (t_handled (sh_tools s)) then s
       else (case shouldAcceptToolCallWithFilter V False c s of
           (False, s) \<Rightarrow> s
         | (True, s) \<Rightarrow>
             let s = sh_tools_update (t_handled_update ((#) (tc_id c))) s in
             if \<not> v_isStream V then handleToolCallAfterChecks c s
             else if tc_id c \<in> set (t_emitted (sh_tools s)) then s
             else emitToolCallStream V c i False
               (sh_tools_update (\<lambda>t. t\<lparr>t_emitted := tc_id c # t_emitted t, t_count := t_count t + 1\<rparr>) s))))"

definition direct_deactivate :: "int \<Rightarrow> blocks \<Rightarrow> blocks" where
  "direct_deactivate i b =
    (let b = (if b_textSSE b = i then b\<lparr>b_textSSE := -1, b_active := (if b_active b = Some Text then None else b_active b)\<rparr> else b)
     in if b_thinkSSE b = i then b\<lparr>b_thinkSSE := -1, b_active := (if b_active b = Some Thinking then None else b_active b)\<rparr> else b)"

definition direct_block_stop :: "stream_env \<Rightarrow> int \<Rightarrow> sse_message \<Rightarrow> stream \<Rightarrow> stream" where
  "direct_block_stop V i m s =
    (if i \<in> set (t_skipped (sh_tools s)) then sh_tools_update (t_skipped_update (filter (\<lambda>n. n \<noteq> i))) s
     else (case gm_get (t_direct (sh_tools s)) i of
         Some c \<Rightarrow> direct_tool_stop V i c s
       | None \<Rightarrow> writeUpstreamEventSSE V m (sh_blocks_update (direct_deactivate i) s)))"

text \<open>\<open>None\<close> for a message that is not an event of the final format.\<close>

definition handleDirectFinalSSEEvent :: "stream_env \<Rightarrow> sse_message \<Rightarrow> stream \<Rightarrow> stream option" where
  "handleDirectFinalSSEEvent V m s =
    (let i = directSSEIndex (ms_Event m) in
     if directSSEEventType (ms_Event m) \<noteq> ms_Type m then None
     else if ms_Type m = ''message_start'' then Some (writeUpstreamEventSSE V m s)
     else if ms_Type m = ''message_delta'' then Some (direct_message_delta V m s)
     else if ms_Type m = ''message_stop'' then Some (direct_message_stop V m s)
     else if i < 0 then None
     else if ms_Type m = ''content_block_start'' then Some (direct_block_start V i m s)
     else if ms_Type m = ''content_block_delta'' then Some (direct_block_delta V i m s)
     else if ms_Type m = ''content_block_stop'' then Some (direct_block_stop V i m s)
     else None)"

section \<open>One message\<close>

definition thinking_event :: "string \<Rightarrow> bool" where
  "thinking_event key \<longleftrightarrow> has_prefix key ''model.reasoning-'' \<or> has_prefix key ''coding_agent.reasoning''
     \<or> key = ''coding_agent.start'' \<or> key = ''coding_agent.initializing''"

definition on_event :: "stream_env \<Rightarrow> instant \<Rightarrow> sse_message \<Rightarrow> stream \<Rightarrow> stream" where
  "on_event V now m s =
    (let key = event_key m; ev = event_of m in
     if key = ''model.conversation_id'' then
       (let i = or_else '''' (str_field ev ''id'') in if i = '''' then s else sh_text_update (x_convs_update (\<lambda>c. c @ [i])) s)
     else if key = ''model.reasoning-start'' then on_reasoning_start V m s
     else if key = ''model.reasoning-delta'' \<or> key = ''coding_agent.reasoning.chunk'' then on_reasoning_delta V m s
     else if key = ''model.reasoning-end'' \<or> key = ''model.text-end'' then closeActiveBlock V s
     else if key = ''model.text-start'' then snd (ensureBlock V Text s)
     else if key = ''model.text-delta'' \<or> key = ''coding_agent.output_text.delta'' then on_text_delta V now m s
     else if key = ''coding_agent.start'' \<or> key = ''coding_agent.initializing'' \<or> key = ''init'' then on_agent_start V m s
     else if key = ''coding_agent.credits_exhausted'' then on_credits_exhausted V m s
     else if key = ''coding_agent.Write.started'' \<or> key = ''coding_agent.Edit.edit.started'' then on_write_started V m s
     else if key = ''coding_agent.Write.content.chunk'' \<or> key = ''coding_agent.Edit.edit.chunk'' then on_write_chunk V m s
     else if key \<in> {''coding_agent.Write.content.completed'', ''coding_agent.Edit.edit.completed'', ''coding_agent.edit_file.completed''}
       then on_write_completed V m s
     else if key = ''fs_operation'' then on_fs_operation V now m s
     else if key = ''model.tool-input-start'' then on_tool_input_start V m s
     else if key = ''model.tool-input-delta'' then on_tool_input_delta m s
     else if key = ''model.tool-input-end'' then on_tool_input_end V m s
     else if key = ''model.tool-call'' then
       on_tool_call V (or_else '''' (str_field ev ''toolCallId'')) (or_else '''' (str_field ev ''toolName''))
         (or_else '''' (str_field ev ''input'')) s
     else if key = ''model.tokens-used'' then read_usage ev s
     else if key = ''model.finish'' then on_finish V m s
     else s)"

definition handleMessage :: "stream_env \<Rightarrow> instant \<Rightarrow> sse_message \<Rightarrow> stream \<Rightarrow> stream" where
  "handleMessage V now m s =
    (if w_hasReturn (sh_wire s) then s
     else if v_suppressThinking V \<and> thinking_event (event_key m) then s
     else (case handleDirectFinalSSEEvent V m s of Some s' \<Rightarrow> s' | None \<Rightarrow> on_event V now m s))"

end
