(* ===== verification/Stream_Wellformed.thy ===== *)
theory Stream_Wellformed
  imports Stream_Messages
begin

text \<open>
  The Anthropic streaming protocol as a client reads it, the run of all attempts of one request
  (\<open>internal/handler/handler.go\<close>), and the theorem that what a client receives is a well-formed message.
\<close>

section \<open>The client\<close>

text \<open>
  A reader of the stream: at most one text or thinking block is open, and at most one tool block, which
  is complete before anything else comes; blocks are numbered from zero without gaps.
\<close>

record reader =
  rd_started :: bool
  rd_next :: int
  rd_block :: "(int \<times> block_kind) option"
  rd_tool :: "int option"
  rd_reason :: "string option"
  rd_stopped :: bool

definition fresh_reader :: reader where
  "fresh_reader = \<lparr>rd_started = False, rd_next = 0, rd_block = None, rd_tool = None, rd_reason = None, rd_stopped = False\<rparr>"

definition between_blocks :: "reader \<Rightarrow> bool" where
  "between_blocks r \<longleftrightarrow> rd_started r \<and> rd_reason r = None \<and> rd_tool r = None"

definition expect :: "bool \<Rightarrow> reader \<Rightarrow> reader option" where
  "expect ok r = (if ok then Some r else None)"

fun read_event :: "sse_event \<Rightarrow> reader \<Rightarrow> reader option" where
  "read_event (MessageStart m md i n) r = expect (\<not> rd_started r) (r\<lparr>rd_started := True\<rparr>)"
| "read_event (MessageStartNoUsage m md) r = expect (\<not> rd_started r) (r\<lparr>rd_started := True\<rparr>)"
| "read_event (StartText i) r =
     expect (between_blocks r \<and> rd_block r = None \<and> i = rd_next r) (r\<lparr>rd_next := i + 1, rd_block := Some (i, Text)\<rparr>)"
| "read_event (StartThinking i sig) r =
     expect (between_blocks r \<and> rd_block r = None \<and> i = rd_next r) (r\<lparr>rd_next := i + 1, rd_block := Some (i, Thinking)\<rparr>)"
| "read_event (StartToolUse i tid name) r =
     expect (between_blocks r \<and> i = rd_next r) (r\<lparr>rd_next := i + 1, rd_tool := Some i\<rparr>)"
| "read_event (DeltaText i t) r = expect (between_blocks r \<and> rd_block r = Some (i, Text)) r"
| "read_event (DeltaThinking i t) r = expect (between_blocks r \<and> rd_block r = Some (i, Thinking)) r"
| "read_event (DeltaInputJSON i t) r = expect (rd_tool r = Some i) r"
| "read_event (BlockStop i) r =
     (if rd_tool r = Some i then Some (r\<lparr>rd_tool := None\<rparr>)
      else expect (between_blocks r \<and> (\<exists>k. rd_block r = Some (i, k))) (r\<lparr>rd_block := None\<rparr>))"
| "read_event (MessageDelta reason n) r = expect (between_blocks r \<and> rd_block r = None) (r\<lparr>rd_reason := Some reason\<rparr>)"
| "read_event MessageStop r = expect (rd_reason r \<noteq> None \<and> \<not> rd_stopped r) (r\<lparr>rd_stopped := True\<rparr>)"

fun read_sent :: "sent \<Rightarrow> reader \<Rightarrow> reader option" where
  "read_sent (Built e) r = read_event e r"
| "read_sent (Passed ev p) r = expect (between_blocks r) r"
| "read_sent KeepAlive r = expect (between_blocks r) r"
| "read_sent Done r = expect (rd_stopped r) r"

fun reads :: "sent list \<Rightarrow> reader \<Rightarrow> reader option" where
  "reads [] r = Some r"
| "reads (x # xs) r = Option.bind (read_sent x r) (reads xs)"

text \<open>What gets through before the connection breaks.\<close>

definition delivered :: "(sent \<times> bool) list \<Rightarrow> sent list" where
  "delivered sents = map fst (takeWhile snd sents)"

definition intact :: "(sent \<times> bool) list \<Rightarrow> bool" where
  "intact sents \<longleftrightarrow> list_all snd sents"

text \<open>A prefix of a well-formed message; a whole one when nothing was lost.\<close>

definition well_formed :: "(sent \<times> bool) list \<Rightarrow> bool" where
  "well_formed sents \<longleftrightarrow> reads (delivered sents) fresh_reader \<noteq> None
     \<and> (intact sents \<longrightarrow> (\<exists>r. reads (delivered sents) fresh_reader = Some r \<and> rd_stopped r))"

section \<open>Attempts\<close>

text \<open>A message of the upstream, or a tick of the keep-alive timer, at an instant.\<close>

datatype stream_event = Message instant sse_message | Tick

fun on_stream_event :: "stream_env \<Rightarrow> stream_event \<Rightarrow> stream \<Rightarrow> stream" where
  "on_stream_event V (Message now m) s = handleMessage V now m s"
| "on_stream_event V Tick s = writeKeepAlive V s"

text \<open>
  The events of an attempt, the error it ends with, and what the retry loop then decides if there was no
  output: another attempt, or the end with a text for the client or without one.
\<close>

datatype verdict = Retry | GiveUp "string option"

record attempt =
  at_events :: "stream_event list"
  at_error :: "string option"
  at_verdict :: verdict

definition upstream_error_text :: "string \<Rightarrow> string" where
  "upstream_error_text err = ''Request failed: '' @ trim_space err"

definition end_with :: "stream_env \<Rightarrow> string option \<Rightarrow> stream \<Rightarrow> stream" where
  "end_with V msg s = finishResponse V ''end_turn'' (case msg of None \<Rightarrow> s | Some t \<Rightarrow> InjectErrorText V t s)"

fun attempts :: "stream_env \<Rightarrow> attempt list \<Rightarrow> stream \<Rightarrow> stream" where
  "attempts V [] s = s"
| "attempts V (a # as) s =
    (let s = fold (on_stream_event V) (at_events a) (resetRoundState V s) in
     (case at_error a of
        None \<Rightarrow> forceFinishIfMissing V s
      | Some err \<Rightarrow>
          if hasAnyOutput s then end_with V (Some (upstream_error_text err)) s
          else (case at_verdict a of Retry \<Rightarrow> attempts V as s | GiveUp msg \<Rightarrow> end_with V msg s)))"

definition respond :: "stream_env \<Rightarrow> string \<Rightarrow> int \<Rightarrow> attempt list \<Rightarrow> stream" where
  "respond V model inputTokens as =
    (let s = attempts V as (writeSSEMessageStart V model inputTokens 0
           (sh_usage_update (setUsageTokens inputTokens (-1)) newStreamHandler))
     in if w_hasReturn (sh_wire s) then s else finishResponse V ''end_turn'' s)"

section \<open>Following the log\<close>

lemma reads_append: "reads (xs @ ys) r = Option.bind (reads xs r) (reads ys)"
proof (induction xs arbitrary: r)
  case (Cons x xs)
  then show ?case by (cases "read_sent x r") auto
qed simp

lemma takeWhile_intact: "intact sents \<Longrightarrow> takeWhile snd sents = sents"
  by (simp only: intact_def list_all_iff takeWhile_eq_all_conv)

lemma delivered_intact: "intact sents \<Longrightarrow> delivered sents = map fst sents"
  by (simp add: delivered_def takeWhile_intact)

lemma delivered_broken: "\<not> intact sents \<Longrightarrow> delivered (sents @ rest) = delivered sents"
  by (auto simp: delivered_def intact_def list_all_iff takeWhile_append1)

text \<open>The reader is at \<open>r\<close> unless a write failed, and until then what it got was fine.\<close>

definition tracks :: "(sent \<times> bool) list \<Rightarrow> reader \<Rightarrow> bool" where
  "tracks sents r \<longleftrightarrow> reads (delivered sents) fresh_reader \<noteq> None
     \<and> (intact sents \<longrightarrow> reads (delivered sents) fresh_reader = Some r)"

lemma tracks_snoc:
  assumes "tracks sents r" and "intact sents \<Longrightarrow> read_sent x r = Some r'"
  shows "tracks (sents @ [(x, ok)]) r'"
proof (cases "intact sents")
  case True
  then have "\<forall>e \<in> set sents. snd e" by (simp add: intact_def list_all_iff)
  with True have d: "delivered (sents @ [(x, ok)]) = delivered sents @ (if ok then [x] else [])"
    by (simp add: delivered_def takeWhile_append takeWhile_intact)
  show ?thesis
  proof (cases ok)
    case True
    then show ?thesis using assms \<open>intact sents\<close> d by (simp add: tracks_def reads_append)
  next
    case False
    then show ?thesis using assms(1) d by (simp add: tracks_def) (simp add: intact_def)
  qed
next
  case False
  then show ?thesis using assms(1) by (simp add: tracks_def delivered_broken) (simp add: intact_def)
qed

definition live :: "wire \<Rightarrow> bool" where
  "live w \<longleftrightarrow> (w_hasReturn w \<longrightarrow> \<not> intact (w_log w))"

definition reader_at :: "wire \<Rightarrow> reader \<Rightarrow> bool" where
  "reader_at w r \<longleftrightarrow> tracks (w_log w) r \<and> live w"

definition plain_stream :: "stream_env \<Rightarrow> bool" where
  "plain_stream V \<longleftrightarrow> v_isStream V \<and> \<not> v_openai V"

lemma flush_keeps [simp]:
  "w_log (flushSSEWithLen ev n imm w) = w_log w" "w_hasReturn (flushSSEWithLen ev n imm w) = w_hasReturn w"
  "w_finalStopReason (flushSSEWithLen ev n imm w) = w_finalStopReason w"
  by (simp_all add: flushSSEWithLen_def flush_now_def Let_def)

lemma put_log: "w_log (put V x imm w) = w_log w @ [(x, v_ok V (length (w_log w)))]"
  by (simp add: put_def markWriteError_def Let_def)

lemma put_returned: "w_hasReturn (put V x imm w) \<longleftrightarrow> w_hasReturn w \<or> \<not> v_ok V (length (w_log w))"
  by (simp add: put_def markWriteError_def Let_def)

lemma at_put:
  assumes "reader_at w r" and "read_sent x r = Some r'"
  shows "reader_at (put V x imm w) r'"
  using assms by (auto simp: reader_at_def live_def put_log put_returned intact_def intro: tracks_snoc)

lemma at_any: "reader_at w r \<Longrightarrow> w_hasReturn w \<Longrightarrow> reader_at w r'"
  by (simp add: reader_at_def live_def tracks_def)

lemma at_write:
  assumes "plain_stream V" and "reader_at w r" and "read_sent x r = Some r'"
  shows "reader_at (write_sse V x imm w) r'"
proof (cases "w_hasReturn w")
  case True
  then show ?thesis using at_any [OF assms(2)] assms(1) by (simp add: write_sse_def plain_stream_def)
next
  case False
  then show ?thesis using assms by (simp add: write_sse_def send_def plain_stream_def at_put)
qed

lemma tracks_final:
  assumes "plain_stream V" and "tracks (w_log w) r" and "read_sent x r = Some r'"
  shows "tracks (w_log (write_final V x w)) r'"
  using assms by (simp add: write_final_def send_def plain_stream_def put_log Let_def tracks_snoc)

section \<open>The invariant\<close>

text \<open>The reader as the handler sees it.\<close>

definition view :: "blocks \<Rightarrow> reader" where
  "view b = \<lparr>rd_started = True, rd_next = b_index b + 1,
     rd_block = (case b_active b of None \<Rightarrow> None | Some Text \<Rightarrow> Some (b_textSSE b, Text) | Some Thinking \<Rightarrow> Some (b_thinkSSE b, Thinking)),
     rd_tool = None, rd_reason = None, rd_stopped = False\<rparr>"

definition blocks_ok :: "blocks \<Rightarrow> bool" where
  "blocks_ok b \<longleftrightarrow> -1 \<le> b_index b \<and> (0 \<le> b_textSSE b \<longleftrightarrow> b_active b = Some Text) \<and> (0 \<le> b_thinkSSE b \<longleftrightarrow> b_active b = Some Thinking)"

definition running :: "stream \<Rightarrow> bool" where
  "running s \<longleftrightarrow> reader_at (sh_wire s) (view (sh_blocks s)) \<and> blocks_ok (sh_blocks s)"

definition finished :: "stream \<Rightarrow> bool" where
  "finished s \<longleftrightarrow> w_hasReturn (sh_wire s) \<and> well_formed (w_log (sh_wire s))"

lemma view_fields [simp]:
  "rd_tool (view b) = None" "rd_next (view b) = b_index b + 1" "rd_reason (view b) = None" "rd_started (view b)"
  "\<not> rd_stopped (view b)" "b_active b = None \<Longrightarrow> rd_block (view b) = None"
  by (simp_all add: view_def)

lemma running_cong:
  "sh_wire s' = sh_wire s \<Longrightarrow> view (sh_blocks s') = view (sh_blocks s) \<Longrightarrow> blocks_ok (sh_blocks s') = blocks_ok (sh_blocks s)
    \<Longrightarrow> running s' = running s"
  by (simp add: running_def)

lemma between_view [simp]: "between_blocks (view b)"
  by (simp add: between_blocks_def view_def)

lemma running_out:
  assumes "plain_stream V" and "reader_at (sh_wire s) r" and "read_event e r = Some (view (sh_blocks s))" and "blocks_ok (sh_blocks s)"
  shows "running (out V False e s)"
  using assms at_write [OF assms(1,2), of "Built e"] by (simp add: running_def out_def)

lemma at_out:
  assumes "plain_stream V" and "reader_at (sh_wire s) r" and "read_event e r = Some r'"
  shows "reader_at (sh_wire (out V False e s)) r'"
  using assms at_write [OF assms(1,2), of "Built e"] by (simp add: out_def)

lemma out_keeps [simp]:
  "sh_blocks (out V final e s) = sh_blocks s" "sh_usage (out V final e s) = sh_usage s"
  "sh_tools (out V final e s) = sh_tools s" "sh_text (out V final e s) = sh_text s"
  by (simp_all add: out_def)

lemma running_writeSSEBytes:
  assumes "plain_stream V" and "reader_at (sh_wire s) r" and "read_sent x r = Some (view (sh_blocks s))" and "blocks_ok (sh_blocks s)"
  shows "running (writeSSEBytes V x s)"
  using assms at_write [OF assms(1-3)] by (simp add: running_def writeSSEBytes_def)

lemma running_passed: "plain_stream V \<Longrightarrow> running s \<Longrightarrow> running (writeSSEBytes V (Passed ev p) s)"
  by (rule running_writeSSEBytes) (auto simp: running_def expect_def)

lemma running_upstream: "plain_stream V \<Longrightarrow> running s \<Longrightarrow> running (writeUpstreamEventSSE V m s)"
  by (simp add: writeUpstreamEventSSE_def running_passed split: option.split)

lemma running_keepalive: "plain_stream V \<Longrightarrow> running s \<Longrightarrow> running (writeKeepAlive V s)"
  using at_put [of "sh_wire s" "view (sh_blocks s)" KeepAlive "view (sh_blocks s)" V True]
  by (simp add: writeKeepAlive_def running_def expect_def)

lemma pop_facts:
  assumes "blocks_ok b" and "popActiveBlock b = (i, b')"
  shows "blocks_ok b'" and "b_active b' = None"
    and "case i of None \<Rightarrow> view b' = view b | Some n \<Rightarrow> read_event (BlockStop n) (view b) = Some (view b')"
  using assms by (auto simp: popActiveBlock_def blocks_ok_def view_def expect_def between_blocks_def split: option.splits block_kind.splits)

lemma running_close:
  assumes "plain_stream V" and "running s"
  shows "running (closeActiveBlock V s)" and "b_active (sh_blocks (closeActiveBlock V s)) = None"
proof -
  obtain i b where p: "popActiveBlock (sh_blocks s) = (i, b)" by force
  have ok: "blocks_ok (sh_blocks s)" "reader_at (sh_wire s) (view (sh_blocks s))" using assms(2) by (simp_all add: running_def)
  note f = pop_facts [OF ok(1) p]
  show "b_active (sh_blocks (closeActiveBlock V s)) = None"
    using f(2) p by (simp add: closeActiveBlock_def writeSSEBytes_def split: option.split)
  show "running (closeActiveBlock V s)"
  proof (cases i)
    case None
    then show ?thesis using f ok p by (simp add: closeActiveBlock_def running_def)
  next
    case (Some n)
    then show ?thesis using f p ok running_writeSSEBytes [OF assms(1), of "s\<lparr>sh_blocks := b\<rparr>" "view (sh_blocks s)" "Built (BlockStop n)"]
      by (simp add: closeActiveBlock_def)
  qed
qed

definition open_block :: "stream \<Rightarrow> int \<Rightarrow> block_kind \<Rightarrow> bool" where
  "open_block s i k \<longleftrightarrow> rd_block (view (sh_blocks s)) = Some (i, k)"

lemma new_block_facts:
  assumes "blocks_ok b" and "b_active b = None"
  shows "blocks_ok (new_text b)" and "blocks_ok (new_thinking b)"
    and "read_event (StartText (b_index b + 1)) (view b) = Some (view (new_text b))"
    and "read_event (StartThinking (b_index b + 1) sig) (view b) = Some (view (new_thinking b))"
    and "rd_block (view (new_text b)) = Some (b_index b + 1, Text)" and "rd_block (view (new_thinking b)) = Some (b_index b + 1, Thinking)"
  using assms by (auto simp: blocks_ok_def new_text_def new_thinking_def view_def expect_def between_blocks_def Let_def)

lemma running_ensure:
  assumes V: "plain_stream V" and s: "running s" and k: "kind = Thinking \<Longrightarrow> \<not> v_suppressThinking V"
    and e: "ensureBlock V kind s = (i, s')"
  shows "running s'" and "open_block s' i kind"
proof -
  define s1 where "s1 = (if b_active (sh_blocks s) \<noteq> None \<and> b_active (sh_blocks s) \<noteq> Some kind then closeActiveBlock V s else s)"
  have s1: "running s1" "b_active (sh_blocks s1) = None \<or> b_active (sh_blocks s1) = Some kind"
    using running_close [OF V s] s by (auto simp: s1_def)
  have ok: "blocks_ok (sh_blocks s1)" "reader_at (sh_wire s1) (view (sh_blocks s1))" using s1(1) by (simp_all add: running_def)
  let ?n = "b_index (sh_blocks s1) + 1"
  have e': "(if b_active (sh_blocks s1) = Some kind
      then (case kind of Thinking \<Rightarrow> b_thinkSSE (sh_blocks s1) | Text \<Rightarrow> b_textSSE (sh_blocks s1), s1)
      else (?n, case kind of
          Thinking \<Rightarrow> out V False (StartThinking ?n (b_pendingSig (sh_blocks s1))) (sh_blocks_update new_thinking s1)
        | Text \<Rightarrow> out V False (StartText ?n) (sh_blocks_update new_text s1))) = (i, s')"
    using e k unfolding ensureBlock_def Let_def s1_def [symmetric] by (simp split: if_split_asm)
  have "running s' \<and> open_block s' i kind"
  proof (cases "b_active (sh_blocks s1) = Some kind")
    case True
    then have "s' = s1" "i = (case kind of Thinking \<Rightarrow> b_thinkSSE (sh_blocks s1) | Text \<Rightarrow> b_textSSE (sh_blocks s1))"
      using e' by simp_all
    with True s1(1) show ?thesis by (auto simp: open_block_def view_def split: block_kind.split)
  next
    case False
    with s1(2) have none: "b_active (sh_blocks s1) = None" by blast
    note f = new_block_facts [OF ok(1) none]
    show ?thesis
    proof (cases kind)
      case Text
      then have r: "i = b_index (sh_blocks s1) + 1" "s' = out V False (StartText i) (sh_blocks_update new_text s1)"
        using e' False by auto
      have "running s'" unfolding r(2) by (rule running_out [OF V, of _ "view (sh_blocks s1)"]) (use f ok(2) r(1) in auto)
      then show ?thesis using f r Text by (simp add: open_block_def)
    next
      case Thinking
      then have r: "i = b_index (sh_blocks s1) + 1"
        "s' = out V False (StartThinking i (b_pendingSig (sh_blocks s1))) (sh_blocks_update new_thinking s1)"
        using e' False by auto
      have "running s'" unfolding r(2) by (rule running_out [OF V, of _ "view (sh_blocks s1)"]) (use f ok(2) r(1) in auto)
      then show ?thesis using f r Thinking by (simp add: open_block_def)
    qed
  qed
  then show "running s'" and "open_block s' i kind" by simp_all
qed

lemma running_ensure_any: "plain_stream V \<Longrightarrow> running s \<Longrightarrow> running (snd (ensureBlock V kind s))"
proof (cases "kind = Thinking \<and> v_suppressThinking V")
  case False
  assume "plain_stream V" "running s"
  then show ?thesis using running_ensure(1) [of V s kind "fst (ensureBlock V kind s)"] False by simp
qed (simp add: ensureBlock_def)

lemma running_text_index:
  assumes "plain_stream V" and "running s" and "text_index V s = (i, s')"
  shows "running s'" and "open_block s' i Text"
proof -
  have "running s' \<and> open_block s' i Text"
  proof (cases "b_textSSE (sh_blocks s) < 0")
    case True
    then show ?thesis using running_ensure [OF assms(1,2), of Text] assms(3) by (simp add: text_index_def)
  next
    case False
    then have "b_active (sh_blocks s) = Some Text" using assms(2) by (simp add: running_def blocks_ok_def)
    then show ?thesis using False assms(2,3) by (auto simp: text_index_def open_block_def view_def)
  qed
  then show "running s'" and "open_block s' i Text" by simp_all
qed

lemma running_thinking_index:
  assumes "plain_stream V" and "running s" and "\<not> v_suppressThinking V" and "thinking_index V s = (i, s')"
  shows "running s'" and "open_block s' i Thinking"
proof -
  have "running s' \<and> open_block s' i Thinking"
  proof (cases "b_thinkSSE (sh_blocks s) < 0")
    case True
    then show ?thesis using running_ensure [OF assms(1,2), of Thinking] assms(3,4) by (simp add: thinking_index_def)
  next
    case False
    then have "b_active (sh_blocks s) = Some Thinking" using assms(2) by (simp add: running_def blocks_ok_def)
    then show ?thesis using False assms(2,4) by (auto simp: thinking_index_def open_block_def view_def)
  qed
  then show "running s'" and "open_block s' i Thinking" by simp_all
qed

text \<open>What touches neither the connection nor the reader's view.\<close>

lemma record_view [simp]:
  "view (record_text t b) = view b" "view (record_thinking t b) = view b" "view (late_signature sig b) = view b"
  "view (b_pendingSig_update f b) = view b" "view (b_content_update g b) = view b" "view (b_texts_update h b) = view b"
  by (simp_all add: record_text_def record_thinking_def late_signature_def view_def Let_def cong: option.case_cong block_kind.case_cong)

lemma record_ok [simp]:
  "blocks_ok (record_text t b) = blocks_ok b" "blocks_ok (record_thinking t b) = blocks_ok b" "blocks_ok (late_signature sig b) = blocks_ok b"
  "blocks_ok (b_pendingSig_update f b) = blocks_ok b" "blocks_ok (b_content_update g b) = blocks_ok b" "blocks_ok (b_texts_update h b) = blocks_ok b"
  by (simp_all add: record_text_def record_thinking_def late_signature_def blocks_ok_def Let_def)

lemma running_aside [simp]:
  "running (sh_usage_update u s) = running s" "running (sh_tools_update t s) = running s" "running (sh_text_update x s) = running s"
  "running (s\<lparr>sh_text := y\<rparr>) = running s" "running (markTextOutput s) = running s" "running (suppress n s) = running s"
  "running (handleToolCallAfterChecks c s) = running s" "running (read_usage m s) = running s"
  by (simp_all add: running_def markTextOutput_def suppress_def handleToolCallAfterChecks_def read_usage_def Let_def)

lemma running_delta:
  assumes "plain_stream V" and "running s" and "open_block s i k"
    and "e = (case k of Text \<Rightarrow> DeltaText i t | Thinking \<Rightarrow> DeltaThinking i t)"
    and "sh_wire s' = sh_wire s" and "view (sh_blocks s') = view (sh_blocks s)" and "blocks_ok (sh_blocks s') = blocks_ok (sh_blocks s)"
  shows "running (out V False e s')"
  by (rule running_out [OF assms(1), of _ "view (sh_blocks s)"])
    (use assms(2-7) in \<open>auto simp: running_def open_block_def expect_def split: block_kind.splits\<close>)

lemma running_emitText:
  assumes "plain_stream V" and "running s"
  shows "running (emitTextDelta V t s)"
proof (cases "t = ''''")
  case False
  obtain i s1 where i: "text_index V (markTextOutput s) = (i, s1)" by force
  have "running s1" "open_block s1 i Text" using running_text_index [OF assms(1) _ i] assms(2) by simp_all
  from running_delta [OF assms(1) this, of "DeltaText i t" t] show ?thesis using False i by (simp add: emitTextDelta_def)
qed (simp add: emitTextDelta_def assms(2))

lemma running_emitThinking:
  assumes "plain_stream V" and "running s"
  shows "running (emitThinkingDelta V t s)"
proof (cases "t = '''' \<or> v_suppressThinking V")
  case False
  obtain i s1 where i: "thinking_index V s = (i, s1)" by force
  have "running s1" "open_block s1 i Thinking" using running_thinking_index [OF assms _ i] False by simp_all
  from running_delta [OF assms(1) this, of "DeltaThinking i t" t] show ?thesis using False i by (simp add: emitThinkingDelta_def)
qed (simp add: emitThinkingDelta_def assms(2))

lemma running_inject:
  assumes "plain_stream V" and "running s"
  shows "running (InjectErrorText V msg s)"
proof -
  obtain i s1 where e: "ensureBlock V Text (markTextOutput s) = (i, s1)" by force
  have s1: "running s1" "open_block s1 i Text" using running_ensure [OF assms(1) _ _ e] assms(2) by simp_all
  have "running (writeSSEBytes V (Built (DeltaText i msg)) s1)"
    by (rule running_writeSSEBytes [OF assms(1), of _ "view (sh_blocks s1)"])
      (use s1 in \<open>auto simp: running_def open_block_def expect_def\<close>)
  then show ?thesis using e assms(1) by (simp add: InjectErrorText_def plain_stream_def)
qed

section \<open>Tool calls and the end\<close>

lemma tool_block_reads:
  assumes "rd_tool r = None" and "between_blocks r" and "rd_next r = i"
  shows "\<exists>r1. read_event (StartToolUse i tid name) r = Some r1 \<and> read_event (DeltaInputJSON i t) r1 = Some r1
    \<and> read_event (BlockStop i) r1 = Some (r\<lparr>rd_next := i + 1\<rparr>)"
  using assms by (auto simp: expect_def between_blocks_def)

lemma view_next: "view (b_index_update (\<lambda>n. n + 1) b) = (view b)\<lparr>rd_next := rd_next (view b) + 1\<rparr>"
  by (simp add: view_def cong: option.case_cong block_kind.case_cong)

lemma blocks_ok_next: "blocks_ok b \<Longrightarrow> blocks_ok (b_index_update (\<lambda>n. n + 1) b)"
  by (simp add: blocks_ok_def)

lemma running_tool_block:
  assumes "plain_stream V" and "running s" and "next_index s = (i, s1)"
  shows "running (out_tool_block V False i tid name input s1)"
proof -
  let ?n = "if v_openai V then to_lower name else name"
  let ?r = "view (sh_blocks s)"
  have i: "i = rd_next ?r" "sh_wire s1 = sh_wire s" "sh_blocks s1 = b_index_update (\<lambda>n. n + 1) (sh_blocks s)"
    using assms(3) by (auto simp: next_index_def)
  obtain r1 where r1: "read_event (StartToolUse i tid ?n) ?r = Some r1" "read_event (DeltaInputJSON i input) r1 = Some r1"
    "read_event (BlockStop i) r1 = Some (?r\<lparr>rd_next := i + 1\<rparr>)"
    using tool_block_reads [OF view_fields(1) between_view i(1) [symmetric], of tid ?n input] by blast
  have "reader_at (sh_wire s1) ?r" using assms(2) i(2) by (simp add: running_def)
  from at_out [OF assms(1) at_out [OF assms(1) this r1(1)] r1(2)]
  show ?thesis unfolding out_tool_block_def
    by (rule running_out [OF assms(1)]) (use r1(3) i assms(2) in \<open>simp_all add: view_next blocks_ok_next running_def\<close>)
qed

lemma running_toolUse:
  assumes "plain_stream V" and "running s"
  shows "running (emitToolUseFromInput V toolID name input s)"
  using assms(2) by (auto simp: emitToolUseFromInput_def Let_def split: prod.split intro: running_tool_block [OF assms(1), rotated])

lemma running_accept:
  assumes "plain_stream V" and "running s"
  shows "running (accept_call V counted c s)"
proof -
  obtain ok s1 where a: "shouldAcceptToolCallWithFilter V True c s = (ok, s1)" by force
  have "running (snd (shouldAcceptToolCallWithFilter V True c s))"
    using assms(2) by (simp add: shouldAcceptToolCallWithFilter_def take_key_def Let_def split: option.split)
  then have "running s1" by (simp add: a)
  then show ?thesis
    using running_toolUse [OF assms(1)] assms(2) by (auto simp: accept_call_def a Let_def split: bool.split)
qed

text \<open>While the final writes go out, only the log is followed.\<close>

definition ending :: "stream \<Rightarrow> bool" where
  "ending s \<longleftrightarrow> tracks (w_log (sh_wire s)) (view (sh_blocks s)) \<and> b_active (sh_blocks s) = None"

lemma tracks_out:
  assumes "plain_stream V" and "tracks (w_log (sh_wire s)) r" and "read_event e r = Some r'"
  shows "tracks (w_log (sh_wire (out V True e s))) r'"
  using tracks_final [OF assms(1,2), of "Built e"] assms(3) by (simp add: out_def)

lemma ending_close:
  assumes "plain_stream V" and "running s" and "\<And>w. w_log (f w) = w_log w"
  shows "ending (close_final V (sh_wire_update f s))"
proof -
  obtain i b where p: "popActiveBlock (sh_blocks s) = (i, b)" by force
  have ok: "blocks_ok (sh_blocks s)" "tracks (w_log (sh_wire s)) (view (sh_blocks s))"
    using assms(2) by (simp_all add: running_def reader_at_def)
  note g = pop_facts [OF ok(1) p]
  show ?thesis
  proof (cases i)
    case None
    then show ?thesis using g ok assms(3) p by (simp add: close_final_def ending_def)
  next
    case (Some n)
    then show ?thesis using g assms(3) p ok tracks_out [OF assms(1), of "sh_wire_update f s\<lparr>sh_blocks := b\<rparr>" "view (sh_blocks s)" "BlockStop n"]
      by (simp add: close_final_def ending_def)
  qed
qed

lemma ending_aside [simp]:
  "ending (sh_usage_update u s) = ending s" "ending (sh_tools_update t s) = ending s" "ending (markTextOutput s) = ending s"
  by (simp_all add: ending_def markTextOutput_def)

text \<open>A whole block in final writes.\<close>

lemma ending_block:
  assumes "plain_stream V" and "ending s" and "next_index s = (i, s1)"
    and "read_event e1 (view (sh_blocks s)) = Some r1" and "read_event e2 r1 = Some r1"
    and "read_event (BlockStop i) r1 = Some ((view (sh_blocks s))\<lparr>rd_next := i + 1\<rparr>)"
  shows "ending (out V True (BlockStop i) (out V True e2 (out V True e1 s1)))"
proof -
  let ?r = "view (sh_blocks s)"
  have i: "i = rd_next ?r" "sh_wire s1 = sh_wire s" "sh_blocks s1 = b_index_update (\<lambda>n. n + 1) (sh_blocks s)"
    using assms(3) by (auto simp: next_index_def)
  have "tracks (w_log (sh_wire s1)) ?r" using assms(2) i(2) by (simp add: ending_def)
  from tracks_out [OF assms(1) tracks_out [OF assms(1) tracks_out [OF assms(1) this assms(4)] assms(5)] assms(6)]
  show ?thesis using i assms(2) by (simp add: ending_def view_next)
qed

lemma ending_tool:
  assumes "plain_stream V" and "ending s"
  shows "ending (emitToolCallStream V c (-1) True s)"
proof (cases "tc_id c = ''''")
  case False
  let ?s = "sh_usage_update (\<lambda>u. addOutputTokens (tc_input c) (addOutputTokens (tc_name c) u)) s"
  let ?name = "if v_openai V then to_lower (tc_name c) else tc_name c"
  obtain i s1 where n: "next_index ?s = (i, s1)" by force
  then have i: "rd_next (view (sh_blocks ?s)) = i" by (auto simp: next_index_def)
  obtain r1 where "read_event (StartToolUse i (tc_id c) ?name) (view (sh_blocks ?s)) = Some r1"
    "read_event (DeltaInputJSON i (tool_input_json (tc_input c))) r1 = Some r1"
    "read_event (BlockStop i) r1 = Some ((view (sh_blocks ?s))\<lparr>rd_next := i + 1\<rparr>)"
    using tool_block_reads [OF view_fields(1) between_view i] by blast
  from ending_block [OF assms(1) _ n this] assms(2)
  show ?thesis using False n by (simp add: emitToolCallStream_def out_tool_block_def Let_def)
qed (simp add: emitToolCallStream_def assms(2))

lemma ending_text:
  assumes "plain_stream V" and "ending s"
  shows "ending (emitTextBlock V t s)"
proof (cases "t = ''''")
  case False
  let ?s = "markTextOutput s"
  let ?r = "view (sh_blocks ?s)"
  obtain i s1 where n: "next_index ?s = (i, s1)" by force
  then have i: "i = rd_next ?r" by (auto simp: next_index_def)
  have none: "rd_block ?r = None" using assms(2) by (simp add: ending_def markTextOutput_def view_def)
  let ?r1 = "?r\<lparr>rd_next := i + 1, rd_block := Some (i, Text)\<rparr>"
  have "read_event (StartText i) ?r = Some ?r1" "read_event (DeltaText i t) ?r1 = Some ?r1"
    "read_event (BlockStop i) ?r1 = Some (?r\<lparr>rd_next := i + 1\<rparr>)"
    using none i by (simp_all add: expect_def between_blocks_def)
  from ending_block [OF assms(1) _ n this] assms
  show ?thesis using False n by (simp add: emitTextBlock_def plain_stream_def)
qed (simp add: emitTextBlock_def assms(2))

lemma ending_body:
  assumes "plain_stream V" and "ending s"
  shows "ending (finish_body V reason s)"
proof -
  have f: "ending (emitWriteChunkFallbackIfNeeded V s)"
    using ending_text [OF assms(1)] assms by (simp add: emitWriteChunkFallbackIfNeeded_def plain_stream_def Let_def)
  have "ending (flushPendingToolCalls V s')" if "ending s'" for s'
  proof -
    have "ending (fold (\<lambda>c. emitToolCallStream V c (-1) True) cs t)" if "ending t" for cs t
      using that by (induction cs arbitrary: t) (auto intro: ending_tool [OF assms(1)])
    then show ?thesis using that assms(1) by (simp add: flushPendingToolCalls_def plain_stream_def)
  qed
  then show ?thesis using f assms(2) by (simp add: finish_body_def Let_def)
qed

lemma keeps_return [simp]: "w_hasReturn (sh_wire s) \<Longrightarrow> w_hasReturn (sh_wire (out V True e s))"
  by (simp add: out_def write_final_def send_def put_returned Let_def)

lemma return_body: "w_hasReturn (sh_wire s) \<Longrightarrow> w_hasReturn (sh_wire (finish_body V reason s))"
proof -
  have tool: "w_hasReturn (sh_wire s) \<Longrightarrow> w_hasReturn (sh_wire (emitToolCallStream V c i True s))" for c i s
    by (auto simp: emitToolCallStream_def out_tool_block_def next_index_def Let_def)
  have "w_hasReturn (sh_wire t) \<Longrightarrow> w_hasReturn (sh_wire (fold (\<lambda>c. if v_isStream V then emitToolCallStream V c (-1) True
      else emitToolCallNonStream V c) cs t))" for cs t
  proof (induction cs arbitrary: t)
    case (Cons c cs)
    have "w_hasReturn (sh_wire (if v_isStream V then emitToolCallStream V c (-1) True t else emitToolCallNonStream V c t))"
      using tool [OF Cons.prems] Cons.prems by (simp add: emitToolCallNonStream_def)
    from Cons.IH [OF this] show ?case by (simp only: fold.simps comp_apply if_distribR)
  qed simp
  then show "w_hasReturn (sh_wire s) \<Longrightarrow> w_hasReturn (sh_wire (finish_body V reason s))"
    by (auto simp: finish_body_def flushPendingToolCalls_def emitWriteChunkFallbackIfNeeded_def emitTextBlock_def next_index_def
        markTextOutput_def Let_def)
qed

lemma finish_finished:
  assumes "plain_stream V" and "running s" and "\<not> w_hasReturn (sh_wire s)"
  shows "finished (finishResponse V reason s)"
proof -
  let ?reason = "if reason = ''tool_use'' \<and> \<not> has_tool_calls s then ''end_turn'' else reason"
  let ?f = "\<lambda>w. w\<lparr>w_hasReturn := True, w_finalStopReason := ?reason\<rparr>"
  let ?s = "finish_body V ?reason (close_final V (sh_wire_update ?f s))"
  have e: "ending ?s" by (rule ending_body [OF assms(1) ending_close [OF assms(1,2)]]) simp
  have ret: "w_hasReturn (sh_wire ?s)"
    by (rule return_body) (simp add: close_final_def popActiveBlock_def split: option.split block_kind.split)
  define r where "r = view (sh_blocks ?s)"
  let ?delta = "MessageDelta ?reason (u_output (sh_usage ?s))"
  have t: "tracks (w_log (sh_wire ?s)) r" and none: "rd_block r = None" "rd_stopped r = False"
    using e by (simp_all add: ending_def r_def)
  have "read_event ?delta r = Some (r\<lparr>rd_reason := Some ?reason\<rparr>)"
    using none by (simp add: expect_def r_def)
  from tracks_out [OF assms(1) t this]
  have t1: "tracks (w_log (sh_wire (out V True ?delta ?s))) (r\<lparr>rd_reason := Some ?reason\<rparr>)" .
  have "read_event MessageStop (r\<lparr>rd_reason := Some ?reason\<rparr>) = Some (r\<lparr>rd_reason := Some ?reason, rd_stopped := True\<rparr>)"
    using none by (simp add: expect_def)
  from tracks_out [OF assms(1) t1 this]
  have "tracks (w_log (sh_wire (finish_stream V ?reason (sh_wire_update ?f s)))) (r\<lparr>rd_reason := Some ?reason, rd_stopped := True\<rparr>)"
    by (simp add: finish_stream_def Let_def)
  moreover have "w_hasReturn (sh_wire (finish_stream V ?reason (sh_wire_update ?f s)))"
    using ret by (simp add: finish_stream_def Let_def)
  moreover have "finishResponse V reason s = finish_stream V ?reason (sh_wire_update ?f s)"
    using assms(1,3) by (simp add: finishResponse_def plain_stream_def Let_def)
  ultimately show ?thesis by (auto simp: finished_def well_formed_def tracks_def)
qed

text \<open>Broken connections: the response returned because a write failed.\<close>

lemma finish_any:
  assumes "plain_stream V" and "running s"
  shows "finished (finishResponse V reason s)"
proof (cases "w_hasReturn (sh_wire s)")
  case True
  then have "\<not> intact (w_log (sh_wire s))" using assms(2) by (simp add: running_def reader_at_def live_def)
  then show ?thesis using True assms(2)
    by (simp add: finishResponse_def finished_def well_formed_def running_def reader_at_def tracks_def Let_def)
qed (rule finish_finished [OF assms])

section \<open>Every message\<close>

lemma running_blocks:
  "(\<And>b. view (g b) = view b) \<Longrightarrow> (\<And>b. blocks_ok (g b) = blocks_ok b) \<Longrightarrow> running (sh_blocks_update g s) = running s"
  by (simp add: running_def)

lemma running_blocks_simps [simp]:
  "running (sh_blocks_update (b_pendingSig_update f) s) = running s" "running (sh_blocks_update (late_signature sig) s) = running s"
  by (simp_all add: running_blocks)

lemma running_reasoning_start: "plain_stream V \<Longrightarrow> running s \<Longrightarrow> running (on_reasoning_start V m s)"
  by (simp add: on_reasoning_start_def Let_def running_ensure_any)

lemma running_reasoning_delta:
  assumes V: "plain_stream V" and s: "running s" and k: "\<not> v_suppressThinking V"
  shows "running (on_reasoning_delta V m s)"
proof -
  let ?sig = "if b_pendingSig (sh_blocks s) = '''' then extractThinkingSignature (event_of m) else b_pendingSig (sh_blocks s)"
  define s1 where "s1 = (if b_pendingSig (sh_blocks s) = '''' \<and> ?sig \<noteq> '''' then sh_blocks_update (b_pendingSig_update (\<lambda>p. ?sig)) s else s)"
  define s2 where "s2 = (if ?sig \<noteq> '''' then sh_blocks_update (late_signature ?sig) s1 else s1)"
  define delta where "delta = (if ms_Type m = ''model'' then or_else '''' (str_field (event_of m) ''delta'')
    else or_else '''' (Option.bind (map_field (event_of m) ''data'') (\<lambda>d. str_field d ''text'')))"
  have s12: "running s1" "running s2" using s by (simp_all add: s1_def s2_def)
  obtain i s3 where i: "thinking_index V s2 = (i, s3)" by force
  have "running s3" "open_block s3 i Thinking" using running_thinking_index [OF V s12(2) k i] by simp_all
  from running_delta [OF V this, of "DeltaThinking i delta" delta]
  have "running (out V False (DeltaThinking i delta) (sh_blocks_update (record_thinking delta) (sh_usage_update (addThinkingTokens delta) s3)))"
    by simp
  moreover have "running (snd (ensureBlock V Thinking s1))" by (rule running_ensure_any [OF V s12(1)])
  ultimately show ?thesis
    using V s12 i unfolding on_reasoning_delta_def Let_def s1_def [symmetric] s2_def [symmetric] delta_def [symmetric]
    by (simp add: plain_stream_def)
qed

lemma running_emit_delta:
  assumes "plain_stream V" and "running s"
  shows "running (emit_delta V source now delta s)"
proof -
  obtain skip x where x: "shouldSkipIntroDelta delta (sh_text s) = (skip, x)" by force
  obtain skip' x' where x': "shouldSkipCrossChannelDuplicateDelta source delta now x = (skip', x')" by force
  obtain i s1 where i: "text_index V (markTextOutput (s\<lparr>sh_text := x'\<rparr>)) = (i, s1)" by force
  have "running s1" "open_block s1 i Text" using running_text_index [OF assms(1) _ i] assms(2) by simp_all
  from running_delta [OF assms(1) this, of "DeltaText i delta" delta]
  show ?thesis using assms x x' i by (simp add: emit_delta_def plain_stream_def Let_def)
qed

lemma running_tool_call: "plain_stream V \<Longrightarrow> running s \<Longrightarrow> running (on_tool_call V i name input s)"
  by (simp add: on_tool_call_def running_accept split: prod.split)

lemma running_text_delta: "plain_stream V \<Longrightarrow> running s \<Longrightarrow> running (on_text_delta V now m s)"
  by (simp add: on_text_delta_def Let_def running_emit_delta running_tool_call split: option.split prod.split)

lemma running_agent:
  assumes "plain_stream V" and "running s"
  shows "running (on_agent_start V m s)" and "running (on_write_started V m s)" and "running (on_write_chunk V m s)"
    and "running (on_write_completed V m s)" and "running (on_fs_operation V now m s)"
  using assms
  by (simp_all add: on_agent_start_def on_write_started_def on_write_chunk_def on_write_completed_def on_fs_operation_def Let_def
      running_upstream running_ensure_any running_emitThinking running_emitText running_keepalive)

lemma running_tool_inputs:
  assumes "plain_stream V" and "running s"
  shows "running (on_tool_input_start V m s)" and "running (on_tool_input_delta m s)" and "running (on_tool_input_end V m s)"
  using assms running_close(1) [OF assms]
  by (simp_all add: on_tool_input_start_def on_tool_input_delta_def on_tool_input_end_def Let_def running_accept split: prod.split)

definition final_format :: "sse_message \<Rightarrow> bool" where
  "final_format m \<longleftrightarrow> ms_Type m \<in> {''message_start'', ''message_delta'', ''message_stop'', ''content_block_start'', ''content_block_delta'', ''content_block_stop''}"

definition finishing :: "sse_message \<Rightarrow> bool" where
  "finishing m \<longleftrightarrow> event_key m = ''model.finish'' \<or> event_key m = ''coding_agent.credits_exhausted''"

lemma not_direct: "\<not> final_format m \<Longrightarrow> handleDirectFinalSSEEvent V m s = None"
  by (simp add: final_format_def handleDirectFinalSSEEvent_def Let_def)

lemma finishing_event:
  assumes "plain_stream V" and "running s" and "finishing m"
  shows "finished (on_event V now m s)"
proof -
  have u: "running (case map_field (event_of m) ''usage'' of Some u \<Rightarrow> read_usage u s | None \<Rightarrow> s)"
    using assms(2) by (simp split: option.split)
  have "finished (on_finish V m s)"
    unfolding on_finish_def Let_def by (rule finish_any [OF assms(1) running_close(1) [OF assms(1) u]])
  moreover have "finished (on_credits_exhausted V m s)"
    unfolding on_credits_exhausted_def by (rule finish_any [OF assms(1) running_inject [OF assms(1) running_close(1) [OF assms(1,2)]]])
  ultimately show ?thesis using assms(3) by (auto simp: finishing_def on_event_def Let_def)
qed

lemma other_event:
  assumes "plain_stream V" and "running s" and "\<not> finishing m" and "v_suppressThinking V \<Longrightarrow> \<not> thinking_event (event_key m)"
  shows "running (on_event V now m s)"
proof -
  have "\<not> v_suppressThinking V" if "event_key m = ''model.reasoning-delta'' \<or> event_key m = ''coding_agent.reasoning.chunk''"
    using that assms(4) by (auto simp: thinking_event_def has_prefix_def)
  then show ?thesis
    using assms(2,3) running_close(1) [OF assms(1,2)] running_ensure_any [OF assms(1,2)] running_agent [OF assms(1,2)]
      running_tool_inputs [OF assms(1,2)] running_reasoning_start [OF assms(1,2)] running_reasoning_delta [OF assms(1,2)]
      running_text_delta [OF assms(1,2)] running_tool_call [OF assms(1,2)]
    by (simp add: on_event_def finishing_def Let_def)
qed

lemma returned_message: "w_hasReturn (sh_wire s) \<Longrightarrow> on_stream_event V e s = s"
  by (cases e) (auto simp: handleMessage_def writeKeepAlive_def)

text \<open>No event of the final format, and no message that ends the answer.\<close>

fun plain_event :: "stream_event \<Rightarrow> bool" where
  "plain_event (Message now m) = (\<not> final_format m)"
| "plain_event Tick = True"

fun unfinished_event :: "stream_event \<Rightarrow> bool" where
  "unfinished_event (Message now m) = (\<not> finishing m)"
| "unfinished_event Tick = True"

lemma message_step:
  assumes "plain_stream V" and "running s" and "plain_event e"
  shows "running (on_stream_event V e s) \<or> finished (on_stream_event V e s)"
    and "unfinished_event e \<Longrightarrow> running (on_stream_event V e s)"
  using assms finishing_event [OF assms(1,2)] other_event [OF assms(1,2)] running_keepalive [OF assms(1,2)]
  by (cases e; auto simp: handleMessage_def not_direct)+

section \<open>Whole responses\<close>

lemma events_step:
  assumes "plain_stream V" and "running s" and "list_all plain_event es"
  shows "running (fold (on_stream_event V) es s) \<or> finished (fold (on_stream_event V) es s)"
    and "list_all unfinished_event es \<Longrightarrow> running (fold (on_stream_event V) es s)"
proof -
  have settled: "finished t \<Longrightarrow> fold (on_stream_event V) es t = t" for es t
    by (induction es) (simp_all add: finished_def returned_message)
  show "running (fold (on_stream_event V) es s) \<or> finished (fold (on_stream_event V) es s)"
    using assms(2,3)
  proof (induction es arbitrary: s)
    case (Cons e es)
    then have "running (on_stream_event V e s) \<or> finished (on_stream_event V e s)" using message_step(1) [OF assms(1)] by simp
    then show ?case using Cons settled [of "on_stream_event V e s" es] by auto
  qed simp
  show "list_all unfinished_event es \<Longrightarrow> running (fold (on_stream_event V) es s)"
    using assms(2,3)
  proof (induction es arbitrary: s)
    case (Cons e es)
    then show ?case using message_step(2) [OF assms(1)] by simp
  qed simp
qed

lemma running_reset:
  assumes "plain_stream V" and "running s"
  shows "running (resetRoundState V s)"
proof -
  note c = running_close [OF assms]
  then have t: "tracks (w_log (sh_wire (closeActiveBlock V s))) (view (sh_blocks (closeActiveBlock V s)))"
    and b: "blocks_ok (sh_blocks (closeActiveBlock V s))"
    by (simp_all add: running_def reader_at_def)
  define s1 where "s1 = closeActiveBlock V s"
  have "view (sh_blocks (resetRoundState V s)) = view (sh_blocks s1)" "blocks_ok (sh_blocks (resetRoundState V s))"
    "w_log (sh_wire (resetRoundState V s)) = w_log (sh_wire s1)" "\<not> w_hasReturn (sh_wire (resetRoundState V s))"
    using c(2) b unfolding resetRoundState_def Let_def s1_def [symmetric] by (simp_all add: view_def blocks_ok_def)
  then show ?thesis using t by (simp add: running_def reader_at_def live_def s1_def)
qed

lemma returned_out: "w_hasReturn (sh_wire s) \<Longrightarrow> out V False e s = s" "w_hasReturn (sh_wire s) \<Longrightarrow> writeSSEBytes V x s = s"
  by (simp_all add: out_def writeSSEBytes_def write_sse_def)

lemma returned_inject: "w_hasReturn (sh_wire s) \<Longrightarrow> sh_wire (InjectErrorText V msg s) = sh_wire s"
proof -
  have c: "w_hasReturn (sh_wire s) \<Longrightarrow> sh_wire (closeActiveBlock V s) = sh_wire s" for s
    by (auto simp: closeActiveBlock_def returned_out split: prod.split option.split)
  have "w_hasReturn (sh_wire s) \<Longrightarrow> sh_wire (snd (ensureBlock V Text s)) = sh_wire s" for s
    using c [of s] by (simp add: ensureBlock_def returned_out Let_def)
  then have e: "sh_wire (snd (ensureBlock V Text (markTextOutput s))) = sh_wire s" if "w_hasReturn (sh_wire s)"
    using that by (simp add: markTextOutput_def)
  assume r: "w_hasReturn (sh_wire s)"
  obtain i s1 where s1: "ensureBlock V Text (markTextOutput s) = (i, s1)" by force
  with e [OF r] have "sh_wire s1 = sh_wire s" by simp
  with r show "sh_wire (InjectErrorText V msg s) = sh_wire s" by (simp add: InjectErrorText_def s1 returned_out)
qed

lemma end_with_finished:
  assumes "plain_stream V" and "running s \<or> finished s"
  shows "finished (end_with V msg s)"
proof (cases "finished s")
  case True
  then have "finished (case msg of None \<Rightarrow> s | Some t \<Rightarrow> InjectErrorText V t s)"
    by (simp add: finished_def returned_inject split: option.split)
  then show ?thesis by (simp add: end_with_def finishResponse_def finished_def Let_def)
next
  case False
  then have "running (case msg of None \<Rightarrow> s | Some t \<Rightarrow> InjectErrorText V t s)"
    using assms running_inject by (simp split: option.split)
  then show ?thesis unfolding end_with_def by (rule finish_any [OF assms(1)])
qed

lemma force_finished:
  assumes "plain_stream V" and "running s \<or> finished s"
  shows "finished (forceFinishIfMissing V s)"
proof (cases "finished s")
  case False
  then have "running s" using assms(2) by blast
  from finish_any [OF assms(1) this] show ?thesis
    using \<open>running s\<close> finish_any [OF assms(1) \<open>running s\<close>, of "''end_turn''"]
    by (auto simp: forceFinishIfMissing_def finishResponse_def Let_def)
qed (simp add: forceFinishIfMissing_def finished_def)

definition attempt_ok :: "attempt \<Rightarrow> bool" where
  "attempt_ok a \<longleftrightarrow> list_all plain_event (at_events a)
     \<and> (at_error a \<noteq> None \<and> at_verdict a = Retry \<longrightarrow> list_all unfinished_event (at_events a))"

lemma attempts_step:
  assumes "plain_stream V" and "running s" and "list_all attempt_ok as"
  shows "running (attempts V as s) \<or> finished (attempts V as s)"
  using assms(2,3)
proof (induction as arbitrary: s)
  case (Cons a as)
  let ?s = "fold (on_stream_event V) (at_events a) (resetRoundState V s)"
  have r: "running (resetRoundState V s)" by (rule running_reset [OF assms(1) Cons.prems(1)])
  have p: "list_all plain_event (at_events a)" using Cons.prems(2) by (simp add: attempt_ok_def)
  note e = events_step [OF assms(1) r p]
  show ?case
  proof (cases "\<exists>err. at_error a = Some err \<and> \<not> hasAnyOutput ?s \<and> at_verdict a = Retry")
    case True
    then have "running ?s" using Cons.prems(2) e(2) by (auto simp: attempt_ok_def)
    then have "running (attempts V as ?s) \<or> finished (attempts V as ?s)" using Cons by simp
    then show ?thesis using True by (auto simp: Let_def)
  next
    case False
    then show ?thesis using end_with_finished [OF assms(1) e(1)] force_finished [OF assms(1) e(1)]
      by (auto simp: Let_def split: option.split verdict.split)
  qed
qed simp

lemma running_start: "plain_stream V \<Longrightarrow> running (writeSSEMessageStart V model n k (sh_usage_update u newStreamHandler))"
proof -
  assume V: "plain_stream V"
  have "reader_at (sh_wire newStreamHandler) fresh_reader"
    by (simp add: newStreamHandler_def reader_at_def tracks_def live_def delivered_def)
  moreover have "read_event (MessageStart m md i k) fresh_reader = Some (view (sh_blocks newStreamHandler))" for m md i k
    by (simp add: newStreamHandler_def view_def fresh_reader_def expect_def)
  ultimately show ?thesis unfolding writeSSEMessageStart_def
    by (intro running_out [OF V, of _ fresh_reader]) (simp_all add: newStreamHandler_def blocks_ok_def)
qed

text \<open>
  Property C2. In a stream in the Anthropic format (\<open>plain_stream\<close>), whose upstream sends any events but those of
  the final format and in which no attempt is retried after it finished its answer (\<open>attempt_ok\<close>; the next
  section shows what such a retry does), what the client receives is a prefix of a well-formed message,
  wherever the connection breaks: it starts once, numbers its blocks from zero without gaps, never has two
  text or thinking blocks open, writes every delta to the open block of its kind, closes every block before
  the stop reason, and stops once with nothing after it. If no write fails it is a whole message.
\<close>

theorem response_well_formed:
  assumes "plain_stream V" and "list_all attempt_ok as"
  shows "well_formed (w_log (sh_wire (respond V model n as)))"
proof -
  let ?s = "attempts V as (writeSSEMessageStart V model n 0 (sh_usage_update (setUsageTokens n (-1)) newStreamHandler))"
  have "running ?s \<or> finished ?s" by (rule attempts_step [OF assms(1) running_start [OF assms(1)] assms(2)])
  then have "finished (if w_hasReturn (sh_wire ?s) then ?s else finishResponse V ''end_turn'' ?s)"
  proof
    assume "running ?s"
    from finish_any [OF assms(1) this, of "''end_turn''"] show ?thesis by (auto simp: finishResponse_def Let_def)
  qed (simp add: finished_def)
  then show ?thesis by (simp add: respond_def finished_def Let_def)
qed

section \<open>Instances\<close>

definition sample_json :: json_lib where
  "sample_json = \<lparr>jl_fields = (\<lambda>s. None), jl_string = (\<lambda>s. None), jl_any = (\<lambda>s. None), jl_marshal = (\<lambda>v. None), jl_allowed = (\<lambda>s. None)\<rparr>"

definition sample_stream :: "(nat \<Rightarrow> bool) \<Rightarrow> stream_env" where
  "sample_stream ok = \<lparr>v_isStream = True, v_suppressThinking = False, v_openai = False, v_chunk = (\<lambda>ev d. None), v_ok = ok,
     v_json = sample_json, v_marshal = (\<lambda>ev. None), v_workdir = '''', v_normalize = Pair, v_clientTools = [], v_allowedTools = [],
     v_disallowTools = False, v_msgID = ''msg''\<rparr>"

definition message :: "string \<Rightarrow> any_map \<Rightarrow> stream_event" where
  "message t ev = Message 0 \<lparr>ms_Type = t, ms_Event = Some ev, ms_RawJSON = ''''\<rparr>"

definition text_attempt :: attempt where
  "text_attempt = \<lparr>at_events = [message ''model.text-delta'' [(''delta'', AStr ''a'')],
       message ''model.tool-call'' [(''toolCallId'', AStr ''t1''), (''toolName'', AStr ''Task''), (''input'', AStr '''')],
       Tick, message ''model.finish'' [(''finishReason'', AStr ''stop'')]],
     at_error = None, at_verdict = Retry\<rparr>"

definition empty_attempt :: attempt where
  "empty_attempt = \<lparr>at_events = [message ''model.finish'' []], at_error = Some ''EOF'', at_verdict = Retry\<rparr>"

theorem response_well_formed_witness:
  "well_formed (w_log (sh_wire (respond (sample_stream (\<lambda>n. n < 5)) ''m'' 3 [text_attempt])))
   \<and> list_all attempt_ok [text_attempt] \<and> at_events text_attempt \<noteq> []"
proof -
  have p: "plain_stream (sample_stream ok)" for ok by (simp add: plain_stream_def sample_stream_def)
  have a: "list_all attempt_ok [text_attempt]" by (simp add: attempt_ok_def text_attempt_def message_def final_format_def)
  from response_well_formed [OF p a] a show ?thesis by (simp add: text_attempt_def)
qed

section \<open>A finished attempt that is retried\<close>

text \<open>Nothing came from the upstream.\<close>

definition silent :: "stream \<Rightarrow> bool" where
  "silent s \<longleftrightarrow> b_active (sh_blocks s) = None \<and> b_content (sh_blocks s) = [] \<and> \<not> has_tool_calls s \<and> \<not> x_hasText (sh_text s)
     \<and> x_response (sh_text s) = '''' \<and> x_chunks (sh_text s) = '''' \<and> \<not> HasText (u_est (sh_usage s))"

lemma silent_output: "silent s \<Longrightarrow> \<not> hasAnyOutput s"
  by (simp add: silent_def hasAnyOutput_def)

lemma silent_reset: "silent (resetRoundState V s)"
proof -
  have "b_active (sh_blocks (closeActiveBlock V s)) = None"
    by (auto simp: closeActiveBlock_def popActiveBlock_def writeSSEBytes_def split: option.split block_kind.split)
  then show ?thesis by (simp add: silent_def resetRoundState_def has_tool_calls_def Reset_def HasText_def Let_def)
qed

lemma silent_close: "silent s \<Longrightarrow> closeActiveBlock V s = s"
  by (simp add: silent_def closeActiveBlock_def popActiveBlock_def)

lemma silent_usage: "silent (case u of None \<Rightarrow> s | Some m \<Rightarrow> read_usage m s) = silent s"
  by (auto simp: read_usage_def silent_def has_tool_calls_def setUsageTokens_def Let_def split: option.split)

lemma returned_final: "w_hasReturn w \<Longrightarrow> w_hasReturn (write_final V x w)"
  by (simp add: write_final_def send_def put_returned Let_def split: option.split)

lemma finish_silent:
  assumes "silent s" and "\<not> w_hasReturn (sh_wire s)" and "plain_stream V" and ok: "\<And>n. v_ok V n"
  shows "\<exists>r n. w_log (sh_wire (finishResponse V reason s)) = w_log (sh_wire s) @ [(Built (MessageDelta r n), True), (Built MessageStop, True)]"
    and "silent (finishResponse V reason s)" and "w_hasReturn (sh_wire (finishResponse V reason s))"
proof -
  let ?reason = "if reason = ''tool_use'' \<and> \<not> has_tool_calls s then ''end_turn'' else reason"
  let ?s = "sh_wire_update (\<lambda>w. w\<lparr>w_hasReturn := True, w_finalStopReason := ?reason\<rparr>) s"
  let ?t = "sh_tools_update (t_pending_update (\<lambda>p. [])) ?s"
  have p: "t_pending (sh_tools s) = []" using assms(1) by (simp add: silent_def has_tool_calls_def)
  have "finish_stream V ?reason ?s = out V True MessageStop (out V True (MessageDelta ?reason (u_output (finalizeOutputTokens (sh_usage s))))
      (sh_usage_update finalizeOutputTokens ?s)) \<or> 
    finish_stream V ?reason ?s = out V True MessageStop (out V True (MessageDelta ?reason (u_output (finalizeOutputTokens (sh_usage s))))
      (sh_usage_update finalizeOutputTokens ?t))"
    using assms(1) p by (simp add: finish_stream_def finish_body_def close_final_def popActiveBlock_def emitWriteChunkFallbackIfNeeded_def
        flushPendingToolCalls_def silent_def has_tool_calls_def Let_def)
  then obtain s' where s': "s' = ?s \<or> s' = ?t" and f: "finishResponse V reason s =
      out V True MessageStop (out V True (MessageDelta ?reason (u_output (finalizeOutputTokens (sh_usage s)))) (sh_usage_update finalizeOutputTokens s'))"
    using assms(2,3) by (auto simp: finishResponse_def plain_stream_def Let_def)
  from s' have w: "sh_wire s' = sh_wire ?s" by auto
  show "\<exists>r n. w_log (sh_wire (finishResponse V reason s)) = w_log (sh_wire s) @ [(Built (MessageDelta r n), True), (Built MessageStop, True)]"
    using assms(3) w unfolding f by (simp add: out_def write_final_def send_def plain_stream_def put_log ok Let_def)
  show "silent (finishResponse V reason s)"
    using assms(1) s' unfolding f by (auto simp: silent_def has_tool_calls_def finalizeOutputTokens_def)
  show "w_hasReturn (sh_wire (finishResponse V reason s))"
    using returned_final s' unfolding f by (auto simp: out_def)
qed

text \<open>The stop reason and the end of the message, twice.\<close>

lemma stopped_twice:
  "\<not> well_formed [(Built (MessageStart md mo i n), True), (Built (MessageDelta r k), True), (Built MessageStop, True),
     (Built (MessageDelta r' k'), True), (Built MessageStop, True)]"
  by (simp add: well_formed_def delivered_def expect_def fresh_reader_def between_blocks_def)

lemma on_finish_silent:
  assumes "silent s" and "\<not> w_hasReturn (sh_wire s)" and "plain_stream V" and "\<And>n. v_ok V n"
  shows "\<exists>r n. w_log (sh_wire (on_finish V m s)) = w_log (sh_wire s) @ [(Built (MessageDelta r n), True), (Built MessageStop, True)]"
    and "silent (on_finish V m s)"
proof -
  define u where "u = (case map_field (event_of m) ''usage'' of Some u \<Rightarrow> read_usage u s | None \<Rightarrow> s)"
  have u: "silent u" "sh_wire u = sh_wire s"
    using assms(1) silent_usage [of s "map_field (event_of m) ''usage''"] unfolding u_def
    by (auto simp: read_usage_def Let_def split: option.split)
  then have f: "on_finish V m s = finishResponse V (finish_reason (event_of m) u) u"
    by (simp add: on_finish_def silent_close u_def Let_def split: option.split)
  have "\<not> w_hasReturn (sh_wire u)" using u(2) assms(2) by simp
  note g = finish_silent [OF u(1) this assms(3,4), of "finish_reason (event_of m) u", folded f]
  show "\<exists>r n. w_log (sh_wire (on_finish V m s)) = w_log (sh_wire s) @ [(Built (MessageDelta r n), True), (Built MessageStop, True)]"
    using g(1) u(2) by simp
  show "silent (on_finish V m s)" by (rule g(2))
qed

text \<open>
  Property C6. A retry after a finished answer ends the message twice: when, in a stream in the Anthropic format
  without failing writes, an upstream reports the end of an answer without any output, its call then fails
  with an error that is retried, and the second attempt brings nothing, the client gets exactly the start of
  the message, a stop reason, the end of the message, and then a stop reason and the end of the message once
  more. That is no well-formed message.
\<close>

theorem finished_attempt_retried:
  assumes "plain_stream V" and ok: "\<And>n. v_ok V n" and "event_key m = ''model.finish''" and "\<not> final_format m"
    and "at_events a = [Message now m]" and "at_error a = Some err" and "at_verdict a = Retry"
    and "at_events b = []" and "at_error b = None"
  shows "\<exists>md mo i k r1 n1 r2 n2. w_log (sh_wire (respond V model n [a, b]))
      = [(Built (MessageStart md mo i k), True), (Built (MessageDelta r1 n1), True), (Built MessageStop, True),
         (Built (MessageDelta r2 n2), True), (Built MessageStop, True)]
    \<and> \<not> well_formed (w_log (sh_wire (respond V model n [a, b])))"
proof -
  define s0 where "s0 = writeSSEMessageStart V model n 0 (sh_usage_update (setUsageTokens n (-1)) newStreamHandler)"
  define s1 where "s1 = resetRoundState V s0"
  define s2 where "s2 = handleMessage V now m s1"
  define s3 where "s3 = resetRoundState V s2"
  have ret: "\<not> w_hasReturn (sh_wire (resetRoundState V s))" for s by (simp add: resetRoundState_def Let_def)
  have keep: "silent s \<Longrightarrow> w_log (sh_wire (resetRoundState V s)) = w_log (sh_wire s)" for s
    by (simp add: resetRoundState_def silent_close Let_def)
  have "silent s0" "\<exists>md mo i k. w_log (sh_wire s0) = [(Built (MessageStart md mo i k), True)]"
    using assms(1) by (simp_all add: s0_def writeSSEMessageStart_def newStreamHandler_def silent_def has_tool_calls_def setUsageTokens_def
        out_def write_sse_def send_def plain_stream_def put_log ok HasText_def new_estimator_def Let_def)
  with keep [OF this(1)] have l1: "\<exists>md mo i k. w_log (sh_wire s1) = [(Built (MessageStart md mo i k), True)]" by (simp add: s1_def)
  have s1: "silent s1" "\<not> w_hasReturn (sh_wire s1)" by (simp_all add: s1_def silent_reset ret)
  have "\<not> thinking_event (event_key m)" using assms(3) by (simp add: thinking_event_def has_prefix_def)
  then have "s2 = on_finish V m s1" using s1(2) assms(3,4)
    by (simp add: s2_def handleMessage_def not_direct on_event_def Let_def)
  with on_finish_silent [OF s1 assms(1) ok, of m] have l2: "\<exists>r k. w_log (sh_wire s2) = w_log (sh_wire s1) @ [(Built (MessageDelta r k), True), (Built MessageStop, True)]"
    and "silent s2" by simp_all
  have l3: "w_log (sh_wire s3) = w_log (sh_wire s2)" using keep [OF \<open>silent s2\<close>] by (simp add: s3_def)
  have s3: "silent s3" "\<not> w_hasReturn (sh_wire s3)" by (simp_all add: s3_def silent_reset ret)
  note g = finish_silent [OF s3 assms(1) ok, of "''end_turn''"]
  have e: "forceFinishIfMissing V s3 = finishResponse V ''end_turn'' s3" using s3 by (simp add: forceFinishIfMissing_def silent_def)
  then have "respond V model n [a, b] = finishResponse V ''end_turn'' s3"
    using assms(5-9) silent_output [OF \<open>silent s2\<close>] g(3)
    by (simp add: respond_def s0_def [symmetric] s1_def [symmetric] s2_def [symmetric] s3_def [symmetric] Let_def)
  then have "\<exists>md mo i k r1 n1 r2 n2. w_log (sh_wire (respond V model n [a, b]))
      = [(Built (MessageStart md mo i k), True), (Built (MessageDelta r1 n1), True), (Built MessageStop, True),
         (Built (MessageDelta r2 n2), True), (Built MessageStop, True)]"
    using l1 l2 l3 g(1) by auto
  then show ?thesis using stopped_twice by fastforce
qed

definition finish_message :: sse_message where
  "finish_message = \<lparr>ms_Type = ''model.finish'', ms_Event = Some [], ms_RawJSON = ''''\<rparr>"

theorem finished_attempt_retried_witness:
  "\<exists>md mo i k r1 n1 r2 n2. w_log (sh_wire (respond (sample_stream (\<lambda>n. True)) ''m'' 3
     [\<lparr>at_events = [Message 0 finish_message], at_error = Some ''EOF'', at_verdict = Retry\<rparr>,
      \<lparr>at_events = [], at_error = None, at_verdict = Retry\<rparr>]))
      = [(Built (MessageStart md mo i k), True), (Built (MessageDelta r1 n1), True), (Built MessageStop, True),
         (Built (MessageDelta r2 n2), True), (Built MessageStop, True)]
    \<and> \<not> well_formed (w_log (sh_wire (respond (sample_stream (\<lambda>n. True)) ''m'' 3
     [\<lparr>at_events = [Message 0 finish_message], at_error = Some ''EOF'', at_verdict = Retry\<rparr>,
      \<lparr>at_events = [], at_error = None, at_verdict = Retry\<rparr>])))"
  by (rule finished_attempt_retried [where m = finish_message and now = 0 and err = "''EOF''"])
     (simp_all add: plain_stream_def sample_stream_def finish_message_def event_key_def final_format_def)

end
