(* ===== verification/Stream_Tools.thy ===== *)
theory Stream_Tools
  imports Stream_Wellformed
begin

text \<open>
  The tool calls of a response: each identifier is started once, the stop reason \<open>tool_use\<close> is never sent
  without a call, and a call with side effects passes once in all attempts of a request.
\<close>

section \<open>What is written of tool calls\<close>

fun started_call :: "sent \<Rightarrow> string option" where
  "started_call (Built (StartToolUse i tid name)) = Some tid"
| "started_call x = None"

text \<open>
  The stop reason an entry gives. An event \<open>message_delta\<close> of the upstream is passed on as it is and may give any
  reason, so it counts as \<open>tool_use\<close>.
\<close>

fun stop_reason :: "sent \<Rightarrow> string option" where
  "stop_reason (Built (MessageDelta reason n)) = Some reason"
| "stop_reason (Passed ev p) = (if ev = ''message_delta'' then Some ''tool_use'' else None)"
| "stop_reason x = None"

definition started_calls :: "(sent \<times> bool) list \<Rightarrow> string list" where
  "started_calls sents = List.map_filter (started_call \<circ> fst) sents"

definition stop_reasons :: "(sent \<times> bool) list \<Rightarrow> string list" where
  "stop_reasons sents = List.map_filter (stop_reason \<circ> fst) sents"

lemma started_calls_append [simp]: "started_calls (xs @ ys) = started_calls xs @ started_calls ys"
  by (simp add: started_calls_def map_filter_def)

lemma stop_reasons_append [simp]: "stop_reasons (xs @ ys) = stop_reasons xs @ stop_reasons ys"
  by (simp add: stop_reasons_def map_filter_def)

lemma started_calls_Cons [simp]: "started_calls (x # xs) = (case started_call (fst x) of None \<Rightarrow> [] | Some t \<Rightarrow> [t]) @ started_calls xs"
  by (simp add: started_calls_def map_filter_def split: option.split)

lemma stop_reasons_Cons [simp]: "stop_reasons (x # xs) = (case stop_reason (fst x) of None \<Rightarrow> [] | Some t \<Rightarrow> [t]) @ stop_reasons xs"
  by (simp add: stop_reasons_def map_filter_def split: option.split)

lemma no_writes [simp]: "started_calls [] = []" "stop_reasons [] = []"
  by (simp_all add: started_calls_def stop_reasons_def map_filter_def)

section \<open>Steps that do not concern tool calls\<close>

text \<open>The flag says whether stop reasons are looked at too.\<close>

definition quiet_sent :: "bool \<Rightarrow> sent \<Rightarrow> bool" where
  "quiet_sent rs x \<longleftrightarrow> started_call x = None \<and> (rs \<longrightarrow> stop_reason x = None)"

definition quiet_wire :: "bool \<Rightarrow> wire \<Rightarrow> wire \<Rightarrow> bool" where
  "quiet_wire rs w w' \<longleftrightarrow> started_calls (w_log w') = started_calls (w_log w) \<and> (rs \<longrightarrow> stop_reasons (w_log w') = stop_reasons (w_log w))
     \<and> (w_hasReturn w \<longrightarrow> w_hasReturn w')"

definition calls :: "tools \<Rightarrow> string list \<times> int" where
  "calls t = (t_emitted t, t_count t)"

text \<open>The keys that a new attempt remembers.\<close>

definition kept_keys :: "tools \<Rightarrow> string set" where
  "kept_keys t = set (t_dedup t) \<inter> set (t_seed t)"

definition calm :: "tools \<Rightarrow> tools \<Rightarrow> bool" where
  "calm t t' \<longleftrightarrow> calls t' = calls t \<and> (t_pending t = [] \<longrightarrow> t_pending t' = []) \<and> kept_keys t \<subseteq> kept_keys t'"

definition quiet :: "bool \<Rightarrow> stream \<Rightarrow> stream \<Rightarrow> bool" where
  "quiet rs s s' \<longleftrightarrow> quiet_wire rs (sh_wire s) (sh_wire s') \<and> calm (sh_tools s) (sh_tools s')"

lemma calm_refl [simp]: "calm t t" by (simp add: calm_def)

lemma calm_trans: "calm t t1 \<Longrightarrow> calm t1 t2 \<Longrightarrow> calm t t2"
  by (auto simp: calm_def)

lemma quiet_refl [intro]: "quiet rs s s"
  by (simp add: quiet_def quiet_wire_def)

lemma quiet_trans [trans]: "quiet rs s s1 \<Longrightarrow> quiet rs s1 s2 \<Longrightarrow> quiet rs s s2"
  by (auto simp: quiet_def quiet_wire_def intro: calm_trans)

lemma quiet_wire_put: "quiet_sent rs x \<Longrightarrow> quiet_wire rs w (put V x imm w)"
  by (simp add: quiet_wire_def quiet_sent_def put_log put_returned)

lemma quiet_wire_refl: "quiet_wire rs w w" by (simp add: quiet_wire_def)

lemma quiet_wire_trans: "quiet_wire rs w w1 \<Longrightarrow> quiet_wire rs w1 w2 \<Longrightarrow> quiet_wire rs w w2"
  by (simp add: quiet_wire_def)

lemma quiet_write_sse: "quiet_sent rs x \<Longrightarrow> quiet_wire rs w (write_sse V x imm w)"
  by (simp add: write_sse_def send_def quiet_wire_put quiet_wire_refl)

lemma quiet_write_final:
  assumes "quiet_sent rs x"
  shows "quiet_wire rs w (write_final V x w)"
proof -
  have s: "quiet_wire rs w (send V x True w)" using assms by (simp add: send_def quiet_wire_put quiet_wire_refl)
  have "quiet_wire rs w (put V Done True (send V x True w))"
    by (rule quiet_wire_trans [OF s quiet_wire_put]) (simp add: quiet_sent_def)
  with s show ?thesis by (auto simp: write_final_def quiet_wire_refl Let_def)
qed

lemma quiet_out: "quiet_sent rs (Built e) \<Longrightarrow> quiet rs s (out V final e s)"
  by (simp add: quiet_def out_def quiet_write_sse quiet_write_final)

lemma quiet_bytes: "quiet_sent rs x \<Longrightarrow> quiet rs s (writeSSEBytes V x s)"
  by (simp add: quiet_def writeSSEBytes_def quiet_write_sse)

lemma quiet_update:
  "quiet rs s (sh_blocks_update f s)" "quiet rs s (sh_usage_update g s)" "quiet rs s (sh_text_update h s)"
  "quiet rs s (s\<lparr>sh_blocks := b\<rparr>)" "quiet rs s (s\<lparr>sh_text := x\<rparr>)"
  "(\<And>t. calm t (k t)) \<Longrightarrow> quiet rs s (sh_tools_update k s)"
  by (simp_all add: quiet_def quiet_wire_refl)

lemma calm_updates [simp]:
  "calm t (forget_input i t)" "calm t (t_names_update f t)" "calm t (t_buffers_update g t)" "calm t (t\<lparr>t_names := n, t_buffers := b\<rparr>)"
  "calm t (t_direct_update h t)" "calm t (t_skipped_update k t)" "calm t (t_handled_update k' t)"
  "calm t ((forget_input i t)\<lparr>t_handled := l\<rparr>)" "calm t (t_suppressed_update j t)"
  "calm t (t\<lparr>t_dedup := key # t_dedup t, t_seed := key # t_seed t\<rparr>)"
  "calm t (t\<lparr>t_dedupCount := c, t_suppressed := c', t_dedupKeys := d\<rparr>)"
  by (auto simp: calm_def calls_def kept_keys_def forget_input_def)

text \<open>A quiet step after others.\<close>

lemma quiet_after:
  "quiet rs s t \<Longrightarrow> quiet rs s (sh_blocks_update f t)" "quiet rs s t \<Longrightarrow> quiet rs s (sh_usage_update g t)" "quiet rs s t \<Longrightarrow> quiet rs s (sh_text_update h t)"
  "quiet rs s t \<Longrightarrow> quiet_sent rs (Built e) \<Longrightarrow> quiet rs s (out V final e t)"
  "quiet rs s t \<Longrightarrow> quiet_sent rs x \<Longrightarrow> quiet rs s (writeSSEBytes V x t)"
  by (auto intro: quiet_trans quiet_update quiet_out quiet_bytes)

lemma quiet_closeActiveBlock: "quiet rs s (closeActiveBlock V s)"
  by (auto simp: closeActiveBlock_def quiet_sent_def intro!: quiet_after quiet_update split: prod.split option.split)

lemma quiet_ensureBlock: "quiet rs s (snd (ensureBlock V kind s))"
proof -
  let ?s = "if b_active (sh_blocks s) \<noteq> None \<and> b_active (sh_blocks s) \<noteq> Some kind then closeActiveBlock V s else s"
  have "quiet rs s ?s" using quiet_closeActiveBlock quiet_refl by simp
  then show ?thesis
    by (auto simp: ensureBlock_def quiet_sent_def Let_def intro!: quiet_after split: block_kind.split)
qed

lemma quiet_index: "quiet rs s (snd (text_index V s))" "quiet rs s (snd (thinking_index V s))"
  by (simp_all add: text_index_def thinking_index_def quiet_ensureBlock quiet_refl)

lemma quiet_mark: "quiet rs s (markTextOutput s)"
  by (simp add: markTextOutput_def quiet_update)

lemma quiet_emitText: "quiet rs s (emitTextDelta V t s)"
  using quiet_trans [OF quiet_mark quiet_index(1)] 
  by (auto simp: emitTextDelta_def quiet_sent_def intro!: quiet_after split: prod.split) (metis snd_conv)

lemma quiet_emitThinking: "quiet rs s (emitThinkingDelta V t s)"
  using quiet_index(2)
  by (auto simp: emitThinkingDelta_def quiet_sent_def intro!: quiet_after split: prod.split) (metis snd_conv)

lemma quiet_inject: "quiet rs s (InjectErrorText V msg s)"
  using quiet_trans [OF quiet_mark quiet_ensureBlock]
  by (auto simp: InjectErrorText_def quiet_sent_def intro!: quiet_after split: prod.split) (metis snd_conv)+

lemma quiet_upstream: "(rs \<Longrightarrow> ms_Type m \<noteq> ''message_delta'') \<Longrightarrow> quiet rs s (writeUpstreamEventSSE V m s)"
  by (auto simp: writeUpstreamEventSSE_def quiet_sent_def intro: quiet_bytes split: option.split)

lemma quiet_keepalive: "quiet rs s (writeKeepAlive V s)"
  by (simp add: writeKeepAlive_def quiet_def quiet_wire_put quiet_wire_refl quiet_sent_def)

lemma quiet_snd: "quiet rs s (snd p) \<Longrightarrow> p = (i, t) \<Longrightarrow> quiet rs s t"
  by simp

lemmas quiet_pair = quiet_snd [OF quiet_ensureBlock] quiet_snd [OF quiet_index(1)] quiet_snd [OF quiet_index(2)]

lemma quiet_read_usage: "quiet rs s (read_usage u s)"
  by (simp add: read_usage_def quiet_update quiet_refl Let_def)

lemma quiet_reasoning:
  "quiet rs s (on_reasoning_start V m s)" "quiet rs s (on_reasoning_delta V m s)"
proof -
  have step: "quiet rs s t \<Longrightarrow> quiet rs s (snd (ensureBlock V k t))" "quiet rs s t \<Longrightarrow> thinking_index V t = (i, u) \<Longrightarrow> quiet rs s u" for t k i u
    using quiet_trans [OF _ quiet_ensureBlock] quiet_trans [OF _ quiet_pair(3)] by blast+
  show "quiet rs s (on_reasoning_start V m s)"
    by (simp add: on_reasoning_start_def Let_def step quiet_update)
  show "quiet rs s (on_reasoning_delta V m s)"
    by (auto simp: on_reasoning_delta_def quiet_sent_def Let_def intro!: quiet_after step(1) quiet_refl
        split: prod.split elim!: step(2) [rotated])
qed

lemma quiet_emit_delta: "quiet rs s (emit_delta V source now delta s)"
proof -
  have step: "text_index V (markTextOutput (s\<lparr>sh_text := x\<rparr>)) = (i, u) \<Longrightarrow> quiet rs s u" for x i u
    by (rule quiet_trans [OF quiet_update(5) quiet_trans [OF quiet_mark quiet_pair(2)]])
  show ?thesis
    by (auto simp: emit_delta_def quiet_sent_def Let_def intro!: quiet_after quiet_update(5) elim!: step split: prod.split)
qed

lemma quiet_agent:
  assumes m: "rs \<Longrightarrow> ms_Type m \<noteq> ''message_delta''"
  shows "quiet rs s (on_agent_start V m s)" "quiet rs s (on_write_started V m s)" "quiet rs s (on_write_chunk V m s)"
  "quiet rs s (on_write_completed V m s)" "quiet rs s (on_fs_operation V now m s)"
proof -
  have up: "quiet rs s t \<Longrightarrow> quiet rs s (writeUpstreamEventSSE V m t)" for t using quiet_trans [OF _ quiet_upstream] m by blast
  have th: "quiet rs s t \<Longrightarrow> quiet rs s (emitThinkingDelta V d t)" for t d by (rule quiet_trans [OF _ quiet_emitThinking])
  have tx: "quiet rs s t \<Longrightarrow> quiet rs s (emitTextDelta V d t)" for t d by (rule quiet_trans [OF _ quiet_emitText])
  show "quiet rs s (on_agent_start V m s)" by (simp add: on_agent_start_def up quiet_ensureBlock quiet_refl)
  show "quiet rs s (on_write_started V m s)" by (simp add: on_write_started_def up th quiet_ensureBlock quiet_refl)
  show "quiet rs s (on_write_chunk V m s)" by (simp add: on_write_chunk_def up th tx quiet_update quiet_refl Let_def)
  show "quiet rs s (on_write_completed V m s)" by (simp add: on_write_completed_def up th quiet_refl)
  show "quiet rs s (on_fs_operation V now m s)"
    by (auto simp: on_fs_operation_def quiet_refl Let_def intro!: up quiet_trans [OF quiet_update(3) quiet_keepalive] quiet_update)
qed

lemma quiet_tool_inputs: "quiet rs s (on_tool_input_start V m s)" "quiet rs s (on_tool_input_delta m s)"
proof -
  have step: "quiet rs s t \<Longrightarrow> (\<And>u. calm u (k u)) \<Longrightarrow> quiet rs s (sh_tools_update k t)" for k t
    by (rule quiet_trans [OF _ quiet_update(6)])
  show "quiet rs s (on_tool_input_start V m s)" "quiet rs s (on_tool_input_delta m s)"
    by (auto simp: on_tool_input_start_def on_tool_input_delta_def Let_def intro!: quiet_closeActiveBlock quiet_refl step)
qed

lemma quiet_take_key: "take_key key s = (b, t) \<Longrightarrow> quiet rs s t"
  by (auto simp: take_key_def intro!: quiet_update(6) split: if_splits)

lemma quiet_accept: "shouldAcceptToolCallWithFilter V enforce c s = (b, t) \<Longrightarrow> quiet rs s t"
proof -
  have sup: "quiet rs s (suppress n s)" for n s by (simp add: suppress_def quiet_update)
  have step: "quiet rs s (suppress n (suppress k s))" "take_key key (suppress k s) = (b, t) \<Longrightarrow> quiet rs s t" for n k key
    using quiet_trans [OF sup sup] quiet_trans [OF sup quiet_take_key] by blast+
  assume "shouldAcceptToolCallWithFilter V enforce c s = (b, t)"
  then show ?thesis
    by (auto simp: shouldAcceptToolCallWithFilter_def Let_def sup step split: if_splits option.splits)
qed

lemma quiet_close_final: "quiet rs s (close_final V s)"
  by (auto simp: close_final_def quiet_sent_def intro!: quiet_after quiet_update split: prod.split option.split)

lemma quiet_fallback: "quiet rs s (emitWriteChunkFallbackIfNeeded V s)"
proof -
  have "quiet rs s (emitTextBlock V t s)" for t s
    using quiet_mark [of _ s]
    by (auto simp: emitTextBlock_def next_index_def quiet_sent_def intro!: quiet_after quiet_refl)
  from quiet_trans [OF quiet_mark this] show ?thesis
    by (auto simp: emitWriteChunkFallbackIfNeeded_def quiet_refl quiet_mark Let_def intro!: quiet_after)
qed

text \<open>Text, thinking and set-up events.\<close>

lemma quiet_direct:
  assumes m: "rs \<Longrightarrow> ms_Type m \<noteq> ''message_delta''"
  shows "quiet rs s (direct_message_delta V m s)" "quiet rs s (direct_block_start V i m s)" "quiet rs s (direct_block_delta V i m s)"
proof -
  have up: "quiet rs s t \<Longrightarrow> quiet rs s (writeUpstreamEventSSE V m t)" for t using quiet_trans [OF _ quiet_upstream] m by blast
  have stop: "quiet rs s (sh_wire_update (w_finalStopReason_update f) s)" for f by (simp add: quiet_def quiet_wire_def)
  have mark: "quiet rs s t \<Longrightarrow> quiet rs s (markTextOutput t)" for t by (rule quiet_trans [OF _ quiet_mark])
  show "quiet rs s (direct_message_delta V m s)"
    by (auto simp: direct_message_delta_def Let_def intro!: up quiet_after stop quiet_refl split: option.split)
  have tool: "quiet rs s (direct_tool_start i b s)" for b
    by (auto simp: direct_tool_start_def Let_def intro!: quiet_trans [OF quiet_update(1) quiet_update(6)] quiet_refl)
  show "quiet rs s (direct_block_start V i m s)"
    by (auto simp: direct_block_start_def Let_def intro!: up tool quiet_update(6) quiet_after quiet_refl
        elim!: quiet_pair(1) split: prod.split)
  show "quiet rs s (direct_block_delta V i m s)"
    by (auto simp: direct_block_delta_def Let_def intro!: up mark quiet_update(6) quiet_after quiet_refl split: option.split)
qed

section \<open>The calls of a response\<close>

text \<open>
  The identifiers that were started are distinct and remembered. With the flag also the stop reasons: none says
  \<open>tool_use\<close> unless a call was started.
\<close>

definition calls_ok :: "stream_env \<Rightarrow> bool \<Rightarrow> stream \<Rightarrow> bool" where
  "calls_ok V rs s \<longleftrightarrow> (v_isStream V \<longrightarrow> t_pending (sh_tools s) = []) \<and> distinct (started_calls (w_log (sh_wire s)))
     \<and> set (started_calls (w_log (sh_wire s))) \<subseteq> set (t_emitted (sh_tools s))
     \<and> (rs \<longrightarrow> (0 < t_count (sh_tools s) \<longrightarrow> t_emitted (sh_tools s) \<noteq> [])
          \<and> (\<not> w_hasReturn (sh_wire s) \<longrightarrow> t_emitted (sh_tools s) \<noteq> [] \<longrightarrow> started_calls (w_log (sh_wire s)) \<noteq> [])
          \<and> (''tool_use'' \<in> set (stop_reasons (w_log (sh_wire s))) \<longrightarrow> started_calls (w_log (sh_wire s)) \<noteq> []))"

lemma quiet_ok: "quiet rs s t \<Longrightarrow> calls_ok V rs s \<Longrightarrow> calls_ok V rs t"
  by (auto simp: quiet_def calm_def quiet_wire_def calls_def calls_ok_def)

lemma log_out:
  "w_log (sh_wire (out V False e s)) = w_log (sh_wire s) \<or> (\<exists>ok. w_log (sh_wire (out V False e s)) = w_log (sh_wire s) @ [(Built e, ok)])"
  "plain_stream V \<Longrightarrow> \<not> w_hasReturn (sh_wire s) \<Longrightarrow> \<exists>ok. w_log (sh_wire (out V False e s)) = w_log (sh_wire s) @ [(Built e, ok)]"
  by (simp_all add: out_def write_sse_def send_def plain_stream_def put_log)

text \<open>The block of a call whose identifier was just recorded.\<close>

lemma tool_block_ok:
  assumes V: "rs \<Longrightarrow> plain_stream V" and "calls_ok V rs s" and "tid \<notin> set (t_emitted (sh_tools s))"
    and t: "quiet_wire rs (sh_wire s) (sh_wire t)" "w_hasReturn (sh_wire t) = w_hasReturn (sh_wire s)"
    "calls (sh_tools t) = (tid # t_emitted (sh_tools s), t_count (sh_tools s) + 1)" "t_pending (sh_tools t) = t_pending (sh_tools s)"
  shows "calls_ok V rs (out_tool_block V False i tid name input t)"
proof -
  let ?n = "if v_openai V then to_lower name else name"
  let ?u = "out V False (StartToolUse i tid ?n) t"
  have "quiet rs ?u (out_tool_block V False i tid name input t)"
    unfolding out_tool_block_def by (intro quiet_after quiet_refl) (simp_all add: quiet_sent_def)
  moreover have "calls_ok V rs ?u"
  proof -
    have u: "sh_tools ?u = sh_tools t" by (simp add: out_def)
    consider "w_log (sh_wire ?u) = w_log (sh_wire t)" "rs \<longrightarrow> w_hasReturn (sh_wire ?u)"
      | ok where "w_log (sh_wire ?u) = w_log (sh_wire t) @ [(Built (StartToolUse i tid ?n), ok)]"
      using log_out(1) [of V "StartToolUse i tid ?n" t] log_out(2) [OF V, of t "StartToolUse i tid ?n"] returned_out(1) [of t V] by metis
    then show ?thesis
      using assms(2,3) t by cases (auto simp: calls_ok_def quiet_wire_def calls_def u)
  qed
  ultimately show ?thesis by (rule quiet_ok)
qed

lemma ok_emitToolUse:
  assumes "rs \<Longrightarrow> plain_stream V" and "calls_ok V rs s"
  shows "calls_ok V rs (emitToolUseFromInput V tid name input s)"
  using assms(2) tool_block_ok [OF assms]
  by (auto simp: emitToolUseFromInput_def next_index_def calls_def quiet_wire_refl Let_def)

lemma ok_whole: "\<not> v_isStream V \<Longrightarrow> \<not> rs \<Longrightarrow> calls_ok V rs s \<Longrightarrow> calls_ok V rs (handleToolCallAfterChecks c s)"
  by (simp add: calls_ok_def handleToolCallAfterChecks_def)

lemma ok_accept_call:
  assumes "rs \<Longrightarrow> plain_stream V" and "calls_ok V rs s"
  shows "calls_ok V rs (accept_call V counted c s)"
proof (cases "tc_id c \<in> set (t_handled (sh_tools s))")
  case False
  obtain b t where t: "shouldAcceptToolCallWithFilter V True c s = (b, t)" by force
  then have q: "quiet rs s t" by (rule quiet_accept)
  let ?t = "sh_tools_update (\<lambda>t. (forget_input (tc_id c) t)\<lparr>t_handled := tc_id c # t_handled t\<rparr>) t"
  have "quiet rs s ?t" by (rule quiet_trans [OF q quiet_update(6)]) simp
  then have u: "calls_ok V rs ?t" "calls_ok V rs (sh_usage_update (addOutputTokens (tc_input c)) ?t)"
    using quiet_ok quiet_after(2) assms(2) by blast+
  have "\<not> v_isStream V \<Longrightarrow> \<not> rs" using assms(1) by (auto simp: plain_stream_def)
  with u show ?thesis using False t quiet_ok [OF q assms(2)] ok_emitToolUse [OF assms(1)] ok_whole
    by (cases b) (auto simp: accept_call_def Let_def)
qed (use assms in \<open>simp add: accept_call_def\<close>)

lemma ok_tool_events:
  assumes "rs \<Longrightarrow> plain_stream V" and "calls_ok V rs s"
  shows "calls_ok V rs (on_tool_input_end V m s)" "calls_ok V rs (on_tool_call V i name input s)"
proof -
  have "calls_ok V rs (sh_tools_update (forget_input i) s)" for i
    by (rule quiet_ok [OF quiet_update(6) assms(2)]) simp
  then show "calls_ok V rs (on_tool_input_end V m s)" "calls_ok V rs (on_tool_call V i name input s)"
    using assms(2) ok_accept_call [OF assms(1)] by (auto simp: on_tool_input_end_def on_tool_call_def Let_def split: prod.split)
qed

lemma ok_text_delta:
  assumes "rs \<Longrightarrow> plain_stream V" and "calls_ok V rs s"
  shows "calls_ok V rs (on_text_delta V now m s)"
  using assms(2) quiet_ok [OF quiet_emit_delta] ok_tool_events(2) [OF assms]
  by (auto simp: on_text_delta_def Let_def split: option.split)

lemma ok_direct_stop:
  assumes V: "rs \<Longrightarrow> plain_stream V" and s: "calls_ok V rs s" and m: "rs \<Longrightarrow> ms_Type m \<noteq> ''message_delta''"
  shows "calls_ok V rs (direct_block_stop V i m s)"
proof -
  have tool: "calls_ok V rs (direct_tool_stop V i c s)" for c
  proof -
    obtain name input where n: "v_normalize V (tc_name c) (trim_space (tc_input c)) = (name, input)" by force
    let ?c = "\<lparr>tc_id = trim_space (tc_id c), tc_name = name, tc_input = input\<rparr>"
    let ?s = "sh_tools_update (t_direct_update (gm_del i)) s"
    obtain b t where t: "shouldAcceptToolCallWithFilter V False ?c ?s = (b, t)" by force
    have s1: "calls_ok V rs ?s" by (rule quiet_ok [OF quiet_update(6) s]) simp
    have t1: "calls_ok V rs t" by (rule quiet_ok [OF quiet_accept [OF t] s1])
    let ?t = "sh_tools_update (t_handled_update ((#) (tc_id ?c))) t"
    have t2: "calls_ok V rs ?t" by (rule quiet_ok [OF quiet_update(6) t1]) simp
    have w: "calls_ok V rs (handleToolCallAfterChecks ?c ?t)" if "\<not> v_isStream V"
      by (rule ok_whole [OF that _ t2]) (use V that in \<open>auto simp: plain_stream_def\<close>)
    show ?thesis using s1 t1 t2 w n t tool_block_ok [OF V t2]
      by (cases b) (auto simp: direct_tool_stop_def emitToolCallStream_def next_index_def calls_def quiet_wire_refl Let_def)
  qed
  have q: "quiet rs s (sh_tools_update (t_skipped_update f) s)" "quiet rs s (writeUpstreamEventSSE V m (sh_blocks_update g s))" for f g
    using quiet_trans [OF quiet_update(1) quiet_upstream] m by (simp add: quiet_update, blast)
  show ?thesis using tool q [THEN quiet_ok, OF s] by (simp add: direct_block_stop_def split: option.split)
qed

section \<open>The end of a response\<close>

lemma quiet_flush:
  assumes "v_isStream V \<Longrightarrow> t_pending (sh_tools u) = []"
  shows "quiet rs u (flushPendingToolCalls V u)"
proof (cases "v_isStream V")
  case True
  then show ?thesis using assms by (simp add: flushPendingToolCalls_def quiet_def quiet_wire_refl calm_def kept_keys_def calls_def)
next
  case False
  have e: "quiet rs u (emitToolCallNonStream V c u)" for c u
    unfolding emitToolCallNonStream_def by (intro quiet_after quiet_refl)
  have "quiet rs u (fold (emitToolCallNonStream V) cs u)" for cs u
  proof (induction cs arbitrary: u)
    case (Cons c cs)
    from quiet_trans [OF e Cons.IH] show ?case by simp
  qed (simp add: quiet_refl)
  moreover have "quiet rs u (sh_tools_update (t_pending_update (\<lambda>p. [])) u)" by (rule quiet_update(6)) (simp add: calm_def kept_keys_def calls_def)
  ultimately show ?thesis using False quiet_trans by (simp add: flushPendingToolCalls_def)
qed

lemma quiet_body:
  assumes "v_isStream V \<Longrightarrow> t_pending (sh_tools u) = []"
  shows "quiet rs u (finish_body V r u)"
proof -
  have f: "quiet rs u v \<Longrightarrow> quiet rs u (sh_usage_update finalizeOutputTokens (flushPendingToolCalls V v))" for v
  proof -
    assume v: "quiet rs u v"
    then have "v_isStream V \<Longrightarrow> t_pending (sh_tools v) = []" using assms by (simp add: quiet_def calm_def)
    from quiet_trans [OF v quiet_flush [OF this]] show ?thesis by (rule quiet_after(2))
  qed
  show ?thesis by (simp add: finish_body_def f quiet_fallback quiet_refl Let_def)
qed

text \<open>What happens between the closed block and the stop reason.\<close>

lemma finish_shape:
  fixes V reason s
  defines "reason' \<equiv> if reason = ''tool_use'' \<and> \<not> has_tool_calls s then ''end_turn'' else reason"
  assumes "v_isStream V" and "\<not> w_hasReturn (sh_wire s)" and "t_pending (sh_tools s) = []"
  shows "\<exists>t. quiet rs s t \<and> w_hasReturn (sh_wire t)
    \<and> finishResponse V reason s = out V True MessageStop (out V True (MessageDelta reason' (u_output (sh_usage t))) t)"
proof (intro exI conjI)
  let ?s = "sh_wire_update (\<lambda>w. w\<lparr>w_hasReturn := True, w_finalStopReason := reason'\<rparr>) s"
  let ?t = "finish_body V reason' (close_final V ?s)"
  have q0: "quiet rs s ?s" for rs by (simp add: quiet_def quiet_wire_def)
  have "t_pending (sh_tools (close_final V ?s)) = []"
    using quiet_close_final [of False ?s V] assms(4) by (simp add: quiet_def calm_def)
  from quiet_trans [OF quiet_close_final quiet_body [OF this]] have q1: "quiet rs ?s ?t" for rs .
  show "quiet rs s ?t" by (rule quiet_trans [OF q0 q1])
  show "w_hasReturn (sh_wire ?t)" using q1 [of False] by (simp add: quiet_def quiet_wire_def)
  show "finishResponse V reason s = out V True MessageStop (out V True (MessageDelta reason' (u_output (sh_usage ?t))) ?t)"
    using assms(2,3) by (simp add: reason'_def finishResponse_def finish_stream_def Let_def)
qed

lemma finish_returns:
  assumes "plain_stream V" and "t_pending (sh_tools s) = []"
  shows "w_hasReturn (sh_wire (finishResponse V reason s))"
proof (cases "w_hasReturn (sh_wire s)")
  case False
  have "v_isStream V" using assms(1) by (simp add: plain_stream_def)
  from finish_shape [OF this False assms(2), of False reason] show ?thesis by (auto simp: out_def returned_final)
qed (simp add: finishResponse_def Let_def)

text \<open>No call is started at the end.\<close>

lemma quiet_finish:
  assumes "v_isStream V \<Longrightarrow> t_pending (sh_tools s) = []"
  shows "quiet False s (finishResponse V reason s)"
proof (cases "w_hasReturn (sh_wire s)")
  case r: False
  let ?s = "\<lambda>reason. sh_wire_update (\<lambda>w. w\<lparr>w_hasReturn := True, w_finalStopReason := reason\<rparr>) s"
  show ?thesis
  proof (cases "v_isStream V")
    case True
    from finish_shape [OF this r assms [OF this], of False reason] obtain t m where t: "quiet False s t"
      and f: "finishResponse V reason s = out V True MessageStop (out V True m t)" and "quiet_sent False (Built m)" by (auto simp: quiet_sent_def)
    then show ?thesis unfolding f by (intro quiet_after) (simp_all add: quiet_sent_def)
  next
    case False
    have "quiet False s (?s reason)" for reason by (simp add: quiet_def quiet_wire_def)
    then have "quiet False s (finish_body V reason (?s reason))" for reason using False by (intro quiet_trans [OF _ quiet_body]) auto
    then show ?thesis using r False by (simp add: finishResponse_def Let_def)
  qed
qed (simp add: finishResponse_def quiet_refl Let_def)

lemma ok_finish:
  assumes V: "rs \<Longrightarrow> plain_stream V" and s: "calls_ok V rs s"
  shows "calls_ok V rs (finishResponse V reason s)"
proof (cases "rs \<and> \<not> w_hasReturn (sh_wire s)")
  case True
  let ?reason = "if reason = ''tool_use'' \<and> \<not> has_tool_calls s then ''end_turn'' else reason"
  have plain: "plain_stream V" "v_isStream V" and p: "t_pending (sh_tools s) = []" using V True s by (auto simp: plain_stream_def calls_ok_def)
  have tool: "?reason = ''tool_use'' \<Longrightarrow> started_calls (w_log (sh_wire s)) \<noteq> []"
    using True s p by (auto simp: has_tool_calls_def calls_ok_def split: if_splits)
  obtain t where q: "quiet rs s t" "w_hasReturn (sh_wire t)"
    and f: "finishResponse V reason s = out V True MessageStop (out V True (MessageDelta ?reason (u_output (sh_usage t))) t)"
    using finish_shape [OF plain(2) _ p, of rs reason] True by auto
  define u where "u = out V True (MessageDelta ?reason (u_output (sh_usage t))) t"
  have "\<exists>ok. w_log (sh_wire u) = w_log (sh_wire t) @ [(Built (MessageDelta ?reason (u_output (sh_usage t))), ok)]"
    using plain by (simp add: u_def out_def write_final_def send_def plain_stream_def put_log Let_def)
  moreover have "w_hasReturn (sh_wire u)" "sh_tools u = sh_tools t"
    using q(2) returned_final by (simp_all add: u_def out_def)
  moreover have "started_calls (w_log (sh_wire t)) = started_calls (w_log (sh_wire s))" using q by (simp add: quiet_def quiet_wire_def)
  ultimately have "calls_ok V rs u" using quiet_ok [OF q(1) s] tool by (auto simp: calls_ok_def)
  then have "calls_ok V rs (out V True MessageStop u)" by (rule quiet_ok [rotated]) (simp add: quiet_out quiet_sent_def)
  then show ?thesis by (simp add: f u_def)
next
  case False
  show ?thesis
  proof (cases rs)
    case True
    with False s show ?thesis by (simp add: finishResponse_def Let_def)
  next
    case r: False
    have "v_isStream V \<Longrightarrow> t_pending (sh_tools s) = []" using s by (simp add: calls_ok_def)
    from quiet_ok [OF quiet_finish [OF this], of V] show ?thesis using s r by simp
  qed
qed

lemma ok_ends:
  assumes V: "rs \<Longrightarrow> plain_stream V" and s: "calls_ok V rs s" and m: "rs \<Longrightarrow> ms_Type m \<noteq> ''message_delta''"
  shows "calls_ok V rs (on_finish V m s)" "calls_ok V rs (on_credits_exhausted V m s)" "calls_ok V rs (direct_message_stop V m s)"
proof -
  have c: "quiet rs s t \<Longrightarrow> calls_ok V rs (finishResponse V r (closeActiveBlock V t))" for t r
    by (rule ok_finish [OF V], assumption, rule quiet_ok [OF quiet_closeActiveBlock], rule quiet_ok [OF _ s])
  show "calls_ok V rs (on_finish V m s)"
    by (auto simp: on_finish_def Let_def intro!: c quiet_refl quiet_read_usage split: option.split)
  show "calls_ok V rs (on_credits_exhausted V m s)" unfolding on_credits_exhausted_def
    by (rule ok_finish [OF V quiet_ok [OF quiet_trans [OF quiet_closeActiveBlock quiet_inject] s]])
  have up: "quiet rs s (writeUpstreamEventSSE V m s)" using quiet_upstream m by blast
  have "calls_ok V rs (finishResponse V r (writeUpstreamEventSSE V m s))" for r by (rule ok_finish [OF V quiet_ok [OF up s]])
  moreover have "quiet rs s (sh_usage_update g (sh_wire_update f (writeUpstreamEventSSE V m s)))"
    if "\<And>w. quiet_wire rs w (f w)" for f g
    using up that by (auto simp: quiet_def intro: quiet_wire_trans)
  then have "calls_ok V rs (sh_usage_update g (sh_wire_update f (writeUpstreamEventSSE V m s)))" if "\<And>w. quiet_wire rs w (f w)" for f g
    using that quiet_ok s by blast
  ultimately show "calls_ok V rs (direct_message_stop V m s)"
    by (simp add: direct_message_stop_def quiet_wire_def Let_def)
qed

lemma ok_direct:
  assumes V: "rs \<Longrightarrow> plain_stream V" and s: "calls_ok V rs s" and m: "rs \<Longrightarrow> ms_Type m \<noteq> ''message_delta''" and "handleDirectFinalSSEEvent V m s = Some t"
  shows "calls_ok V rs t"
proof -
  have q: "quiet rs s (writeUpstreamEventSSE V m s)" "quiet rs s (direct_message_delta V m s)" "quiet rs s (direct_block_start V i m s)"
    "quiet rs s (direct_block_delta V i m s)" for i
    by (rule quiet_upstream quiet_direct, rule m, assumption)+
  show ?thesis
    using assms(4) q [THEN quiet_ok, OF s] ok_ends(3) [OF V s m] ok_direct_stop [OF V s m]
    by (auto simp: handleDirectFinalSSEEvent_def Let_def split: if_splits)
qed

lemma ok_event:
  assumes V: "rs \<Longrightarrow> plain_stream V" and s: "calls_ok V rs s" and m: "rs \<Longrightarrow> ms_Type m \<noteq> ''message_delta''"
  shows "calls_ok V rs (on_event V now m s)"
proof -
  have a: "quiet rs s (on_agent_start V m s)" "quiet rs s (on_write_started V m s)" "quiet rs s (on_write_chunk V m s)"
    "quiet rs s (on_write_completed V m s)" "quiet rs s (on_fs_operation V now m s)"
    by (rule quiet_agent, rule m, assumption)+
  note q = quiet_reasoning quiet_closeActiveBlock quiet_ensureBlock quiet_tool_inputs quiet_read_usage quiet_update(1-5) a
  note r = q [THEN quiet_ok, OF s]
  show ?thesis
    using s r ok_ends(1,2) [OF V s m] ok_tool_events [OF V s] ok_text_delta [OF V s]
    by (simp add: on_event_def Let_def)
qed

text \<open>Messages of the upstream other than a \<open>message_delta\<close>.\<close>

fun no_delta_event :: "stream_event \<Rightarrow> bool" where
  "no_delta_event (Message now m) = (ms_Type m \<noteq> ''message_delta'')"
| "no_delta_event Tick = True"

lemma ok_step:
  assumes V: "rs \<Longrightarrow> plain_stream V" and s: "calls_ok V rs s" and e: "rs \<Longrightarrow> no_delta_event e"
  shows "calls_ok V rs (on_stream_event V e s)"
proof (cases e)
  case (Message now m)
  then have m: "rs \<Longrightarrow> ms_Type m \<noteq> ''message_delta''" using e by simp
  show ?thesis using Message s ok_event [OF V s m] ok_direct [OF V s m] by (simp add: handleMessage_def split: option.split)
next
  case Tick
  then show ?thesis using quiet_ok [OF quiet_keepalive s] by simp
qed

lemma ok_events:
  assumes V: "rs \<Longrightarrow> plain_stream V"
  shows "calls_ok V rs s \<Longrightarrow> (rs \<Longrightarrow> list_all no_delta_event es) \<Longrightarrow> calls_ok V rs (fold (on_stream_event V) es s)"
proof (induction es arbitrary: s)
  case (Cons e es)
  have "calls_ok V rs (on_stream_event V e s)" by (rule ok_step [OF V Cons.prems(1)]) (use Cons.prems(2) in auto)
  then show ?case using Cons by auto
qed simp

text \<open>A new attempt forgets the identifiers, so none may have been sent.\<close>

lemma ok_reset:
  assumes "calls_ok V rs s" and "t_emitted (sh_tools s) = []"
  shows "calls_ok V rs (resetRoundState V s)" "t_emitted (sh_tools (resetRoundState V s)) = []"
  using assms quiet_closeActiveBlock [of rs s V]
  by (auto simp: resetRoundState_def calls_ok_def quiet_def quiet_wire_def calm_def calls_def Let_def)

lemma ok_end_with:
  assumes V: "rs \<Longrightarrow> plain_stream V" and s: "calls_ok V rs s"
  shows "calls_ok V rs (end_with V msg s)" "calls_ok V rs (forceFinishIfMissing V s)"
  using s quiet_ok [OF quiet_inject s] ok_finish [OF V]
  by (auto simp: end_with_def forceFinishIfMissing_def split: option.split)

definition no_delta_attempt :: "attempt \<Rightarrow> bool" where
  "no_delta_attempt a \<longleftrightarrow> list_all no_delta_event (at_events a)"

lemma ok_attempts:
  assumes V: "rs \<Longrightarrow> plain_stream V"
  shows "calls_ok V rs s \<Longrightarrow> t_emitted (sh_tools s) = [] \<Longrightarrow> (rs \<Longrightarrow> list_all no_delta_attempt as) \<Longrightarrow> calls_ok V rs (attempts V as s)"
proof (induction as arbitrary: s)
  case (Cons a as)
  let ?s = "fold (on_stream_event V) (at_events a) (resetRoundState V s)"
  have s: "calls_ok V rs ?s" by (rule ok_events [OF V ok_reset(1) [OF Cons.prems(1,2)]]) (use Cons.prems(3) in \<open>auto simp: no_delta_attempt_def\<close>)
  have "\<not> hasAnyOutput ?s \<Longrightarrow> t_emitted (sh_tools ?s) = []" by (simp add: hasAnyOutput_def has_tool_calls_def)
  then show ?case using s Cons.IH [OF s] Cons.prems(3) ok_end_with [OF V s] by (auto simp: Let_def split: option.split verdict.split)
qed simp

lemma ok_respond:
  assumes V: "rs \<Longrightarrow> plain_stream V" and "rs \<Longrightarrow> list_all no_delta_attempt as"
  shows "calls_ok V rs (respond V model n as)"
proof -
  let ?s = "writeSSEMessageStart V model n 0 (sh_usage_update (setUsageTokens n (-1)) newStreamHandler)"
  have "quiet rs newStreamHandler ?s" unfolding writeSSEMessageStart_def
    by (intro quiet_after quiet_refl) (simp add: quiet_sent_def)
  moreover have "calls_ok V rs newStreamHandler" by (simp add: calls_ok_def newStreamHandler_def)
  ultimately have "calls_ok V rs ?s" by (rule quiet_ok)
  moreover have "t_emitted (sh_tools ?s) = []" by (simp add: writeSSEMessageStart_def newStreamHandler_def)
  ultimately have "calls_ok V rs (attempts V as ?s)" using ok_attempts [OF V] assms(2) by blast
  then show ?thesis using ok_finish [OF V] by (simp add: respond_def Let_def)
qed

text \<open>
  Property C3. In one streamed response the gateway starts no identifier of a tool call twice, whatever the
  upstream sends, in however many attempts, in the Anthropic format or in the OpenAI format (where the log has
  the event of every chunk), and whichever writes fail. The tool blocks of the upstream are never passed on:
  they are collected and started like the other calls. Without a stream nothing is written to this log.
\<close>

theorem tool_calls_once: "distinct (started_calls (w_log (sh_wire (respond V model n as))))"
  using ok_respond [of False V as model n] by (simp add: calls_ok_def)

text \<open>
  Property C5. In a stream in the Anthropic format (\<open>plain_stream\<close>) whose upstream sends no event of the type
  \<open>message_delta\<close>, the stop reason \<open>tool_use\<close> is sent only if a tool call was started: a reason of the upstream
  without a call that passed the checks is turned into \<open>end_turn\<close>. Every entry of the log is looked at; an event
  \<open>message_delta\<close> that is passed on counts as \<open>tool_use\<close>.
\<close>

theorem tool_use_has_call:
  assumes "plain_stream V" and "list_all no_delta_attempt as"
    and "''tool_use'' \<in> set (stop_reasons (w_log (sh_wire (respond V model n as))))"
  shows "started_calls (w_log (sh_wire (respond V model n as))) \<noteq> []"
  using ok_respond [of True V as model n] assms by (simp add: calls_ok_def)

definition task_call :: sse_message where
  "task_call = \<lparr>ms_Type = ''model.tool-call'',
     ms_Event = Some [(''toolCallId'', AStr ''t1''), (''toolName'', AStr ''Task''), (''input'', AStr '''')], ms_RawJSON = ''''\<rparr>"

text \<open>Names of printable ASCII, evaluated.\<close>

lemmas name_simps = normalizeToolNameKey_def trim_space_id printable_def to_lower_def lower_char_def char_of_def bit_Suc_0_iff

lemma task_call_passes:
  assumes "v_normalize V = Pair" and "v_clientTools V = []" and "v_allowedTools V = []" and "\<not> v_disallowTools V"
  shows "normalize_call V ''Task'' '''' = (''Task'', '''')"
    and "shouldAcceptToolCallWithFilter V True \<lparr>tc_id = i, tc_name = ''Task'', tc_input = ''''\<rparr> s = (True, suppress 0 s)"
proof -
  have k: "normalizeToolNameKey ''Task'' = ''task''" by (simp add: name_simps)
  have "gm_get normalizedToolNameFallbacks ''task'' = None" by (simp add: normalizedToolNameFallbacks_def)
  with k have n: "normalizeToolNameKey ''Task'' = ''task''" "normalizeToolNameKey (NormalizeToolNameFallback ''Task'') = ''task''"
    by (simp_all add: NormalizeToolNameFallback_def)
  show "normalize_call V ''Task'' '''' = (''Task'', '''')"
    using assms(1) n by (simp add: normalize_call_def rewriteWebToolCallToClient_def)
  show "shouldAcceptToolCallWithFilter V True \<lparr>tc_id = i, tc_name = ''Task'', tc_input = ''''\<rparr> s = (True, suppress 0 s)"
    using assms n by (simp add: shouldAcceptToolCallWithFilter_def allowed_tool_def hasNonProjectSandboxToolPath_def
        evaluateToolCallInput_def isStructuredToolName_def take_key_def)
qed

definition task_attempt :: attempt where
  "task_attempt = \<lparr>at_events = [Message 0 task_call], at_error = None, at_verdict = Retry\<rparr>"

lemma task_call_event:
  assumes "plain_stream V" and "v_normalize V = Pair" and "v_clientTools V = []" and "v_allowedTools V = []" and "\<not> v_disallowTools V"
    and "\<not> w_hasReturn (sh_wire s)" and "t_handled (sh_tools s) = []" and "t_emitted (sh_tools s) = []" and "t_pending (sh_tools s) = []"
  shows "\<exists>t i. handleMessage V 0 task_call s = out_tool_block V False i ''t1'' ''Task'' ''{}'' t
     \<and> sh_wire t = sh_wire s \<and> t_emitted (sh_tools t) = [''t1''] \<and> t_pending (sh_tools t) = []"
proof -
  have k: "event_key task_call = ''model.tool-call''" "\<not> thinking_event ''model.tool-call''" "handleDirectFinalSSEEvent V task_call s = None"
    by (simp_all add: event_key_def task_call_def thinking_event_def has_prefix_def handleDirectFinalSSEEvent_def
        directSSEEventType_def str_field_def event_of_def) (simp add: trim_space_def)?
  have f: "str_field (event_of task_call) ''toolCallId'' = Some ''t1''" "str_field (event_of task_call) ''toolName'' = Some ''Task''"
    "str_field (event_of task_call) ''input'' = Some ''''"
    by (simp_all add: task_call_def event_of_def str_field_def)
  have j: "tool_input_json '''' = ''{}''" by (simp add: tool_input_json_def trim_space_def)
  show ?thesis
    using assms k f j task_call_passes [OF assms(2-5)]
    by (simp add: handleMessage_def on_event_def on_tool_call_def accept_call_def emitToolUseFromInput_def next_index_def forget_input_def
        suppress_def plain_stream_def Let_def) (intro exI conjI, rule refl, simp_all)
qed

lemma finish_sends_reason:
  assumes "plain_stream V" and "\<not> w_hasReturn (sh_wire s)" and "t_pending (sh_tools s) = []"
  shows "(if reason = ''tool_use'' \<and> \<not> has_tool_calls s then ''end_turn'' else reason)
    \<in> set (stop_reasons (w_log (sh_wire (finishResponse V reason s))))"
  using finish_shape [OF _ assms(2,3), of V False reason] assms(1)
  by (auto simp: out_def write_final_def send_def plain_stream_def put_log Let_def)

lemma tool_block_returned:
  assumes "\<And>n. v_ok V n"
  shows "w_hasReturn (sh_wire (out_tool_block V False i tid name input t)) = w_hasReturn (sh_wire t)"
proof -
  have "w_hasReturn (sh_wire (out V False e s)) = w_hasReturn (sh_wire s)" for e s
    by (simp add: out_def write_sse_def send_def put_returned assms)
  then show ?thesis by (simp add: out_tool_block_def)
qed

lemma tool_attempt_reason:
  assumes V: "plain_stream V" "v_normalize V = Pair" "v_clientTools V = []" "v_allowedTools V = []" "\<not> v_disallowTools V"
    and ok: "\<And>n. v_ok V n"
  shows "''tool_use'' \<in> set (stop_reasons (w_log (sh_wire (respond V model n [task_attempt]))))"
proof -
  define s where "s = resetRoundState V (writeSSEMessageStart V model n 0 (sh_usage_update (setUsageTokens n (-1)) newStreamHandler))"
  have s: "\<not> w_hasReturn (sh_wire s)" "t_handled (sh_tools s) = []" "t_emitted (sh_tools s) = []" "t_pending (sh_tools s) = []"
    by (simp_all add: s_def resetRoundState_def Let_def)
  obtain t i where e: "handleMessage V 0 task_call s = out_tool_block V False i ''t1'' ''Task'' ''{}'' t"
    and t: "sh_wire t = sh_wire s" "t_emitted (sh_tools t) = [''t1'']" "t_pending (sh_tools t) = []"
    using task_call_event [OF V s] by blast
  let ?t = "out_tool_block V False i ''t1'' ''Task'' ''{}'' t"
  have r: "\<not> w_hasReturn (sh_wire ?t)" "has_tool_calls ?t" "t_pending (sh_tools ?t) = []"
    using s(1) t by (simp_all add: tool_block_returned [OF ok]) (simp_all add: out_tool_block_def has_tool_calls_def)
  have "attempts V [task_attempt] (writeSSEMessageStart V model n 0 (sh_usage_update (setUsageTokens n (-1)) newStreamHandler))
      = finishResponse V ''tool_use'' ?t"
    using e r by (simp add: task_attempt_def s_def [symmetric] forceFinishIfMissing_def Let_def)
  moreover have "''tool_use'' \<in> set (stop_reasons (w_log (sh_wire (finishResponse V ''tool_use'' ?t))))"
    using finish_sends_reason [OF V(1) r(1,3), of "''tool_use''"] r(2) by simp
  ultimately show ?thesis using finish_returns [OF V(1) r(3)] by (simp add: respond_def Let_def)
qed

theorem tool_use_has_call_witness:
  "started_calls (w_log (sh_wire (respond (sample_stream (\<lambda>n. True)) ''m'' 3 [task_attempt]))) \<noteq> []"
  by (rule tool_use_has_call [OF _ _ tool_attempt_reason])
    (simp_all add: plain_stream_def sample_stream_def no_delta_attempt_def task_attempt_def task_call_def)

section \<open>Calls with side effects\<close>

definition keeps :: "stream \<Rightarrow> stream \<Rightarrow> bool" where
  "keeps s t \<longleftrightarrow> kept_keys (sh_tools s) \<subseteq> kept_keys (sh_tools t)"

lemma keeps_refl [intro]: "keeps s s" by (simp add: keeps_def)

lemma keeps_trans: "keeps s t \<Longrightarrow> keeps t u \<Longrightarrow> keeps s u" by (auto simp: keeps_def)

lemma quiet_keeps: "quiet False s t \<Longrightarrow> keeps s t" by (simp add: quiet_def calm_def keeps_def)

lemma quiet_passed: "quiet False s (writeUpstreamEventSSE V m s)" "quiet False s (direct_message_delta V m s)"
  "quiet False s (direct_block_start V i m s)" "quiet False s (direct_block_delta V i m s)"
  "quiet False s (on_agent_start V m s)" "quiet False s (on_write_started V m s)" "quiet False s (on_write_chunk V m s)"
  "quiet False s (on_write_completed V m s)" "quiet False s (on_fs_operation V now m s)"
  using quiet_upstream [of False] quiet_direct [of False] quiet_agent [of False] by simp_all

lemma keeps_updates:
  "keeps s (out V final e s)" "keeps s (sh_usage_update g s)" "keeps s (sh_blocks_update h s)" "keeps s (sh_wire_update w s)"
  "(\<And>t. kept_keys (k t) = kept_keys t) \<Longrightarrow> keeps s (sh_tools_update k s)"
  by (simp_all add: keeps_def)

lemma kept_cong [simp]:
  "kept_keys (t_emitted_update f t) = kept_keys t" "kept_keys (t_count_update g t) = kept_keys t" "kept_keys (t_pending_update h t) = kept_keys t"
  "kept_keys (t_handled_update f t) = kept_keys t" "kept_keys (t_direct_update j t) = kept_keys t" "kept_keys (forget_input i t) = kept_keys t"
  by (simp_all add: kept_keys_def forget_input_def)

lemma keeps_emit:
  "keeps s (out_tool_block V final i tid name input s)" "keeps s (emitToolUseFromInput V tid name input s)"
  "keeps s (emitToolCallStream V c n final s)" "keeps s (emitToolCallNonStream V c s)" "keeps s (handleToolCallAfterChecks c s)"
  by (auto simp: out_tool_block_def emitToolUseFromInput_def emitToolCallStream_def emitToolCallNonStream_def
      handleToolCallAfterChecks_def next_index_def keeps_def Let_def)

lemma keeps_accept_call: "keeps s (accept_call V counted c s)"
proof (cases "shouldAcceptToolCallWithFilter V True c s")
  case (Pair b t)
  let ?k = "\<lambda>t. (forget_input (tc_id c) t)\<lparr>t_handled := tc_id c # t_handled t\<rparr>"
  have t: "keeps s t" by (rule quiet_keeps [OF quiet_accept [OF Pair]])
  have u: "keeps s (sh_tools_update ?k t)" by (rule keeps_trans [OF t keeps_updates(5)]) simp
  show ?thesis using Pair t u keeps_trans [OF u keeps_emit(2)] keeps_trans [OF u keeps_emit(5)]
      keeps_trans [OF keeps_trans [OF u keeps_updates(2)] keeps_emit(2)]
    by (cases b) (auto simp: accept_call_def Let_def)
qed

lemma keeps_tool_events: "keeps s (on_tool_input_end V m s)" "keeps s (on_tool_call V i name input s)"
  using keeps_trans [OF keeps_updates(5) keeps_accept_call] keeps_accept_call
  by (auto simp: on_tool_input_end_def on_tool_call_def keeps_updates Let_def split: prod.split)

lemma keeps_text_delta: "keeps s (on_text_delta V now m s)"
  using quiet_keeps [OF quiet_emit_delta] keeps_tool_events(2) keeps_trans [OF keeps_tool_events(2) quiet_keeps [OF quiet_emit_delta]]
  by (auto simp: on_text_delta_def Let_def split: option.split)

lemma keeps_direct_stop: "keeps s (direct_block_stop V i m s)"
proof -
  have tool: "keeps s (direct_tool_stop V i c s)" for c
  proof -
    obtain name input where n: "v_normalize V (tc_name c) (trim_space (tc_input c)) = (name, input)" by force
    let ?c = "\<lparr>tc_id = trim_space (tc_id c), tc_name = name, tc_input = input\<rparr>"
    let ?s = "sh_tools_update (t_direct_update (gm_del i)) s"
    obtain b t where t: "shouldAcceptToolCallWithFilter V False ?c ?s = (b, t)" by force
    have s: "keeps s ?s" by (rule keeps_updates) simp
    have st: "keeps s t" by (rule keeps_trans [OF s quiet_keeps [OF quiet_accept [OF t]]])
    let ?t = "sh_tools_update (t_handled_update ((#) (tc_id ?c))) t"
    have u: "keeps s ?t" by (rule keeps_trans [OF st keeps_updates(5)]) simp
    have v: "keeps s (sh_tools_update (\<lambda>t. t\<lparr>t_emitted := l t, t_count := k t\<rparr>) ?t)" for l k
      using u by (simp add: keeps_def kept_keys_def)
    show ?thesis using s st u n t keeps_trans [OF u keeps_emit(5)] keeps_trans [OF v keeps_emit(3)]
      by (cases b) (simp_all add: direct_tool_stop_def Let_def)
  qed
  have "keeps s (sh_tools_update (t_skipped_update f) s)" "keeps s (writeUpstreamEventSSE V m (sh_blocks_update g s))" for f g
    by (simp add: keeps_def kept_keys_def) (rule quiet_keeps [OF quiet_trans [OF quiet_update(1) quiet_passed(1)]])
  then show ?thesis using tool by (simp add: direct_block_stop_def split: option.split)
qed

lemma keeps_fold: "(\<And>c u. keeps u (f c u)) \<Longrightarrow> keeps u (fold f cs u)"
proof (induction cs arbitrary: u)
  case (Cons c cs)
  then have "keeps (f c u) (fold f cs (f c u))" by blast
  with Cons.prems [of u c] show ?case by (simp add: keeps_trans)
qed (simp add: keeps_refl)

lemma keeps_finish: "keeps s (finishResponse V reason s)"
proof -
  have flush: "keeps u (flushPendingToolCalls V u)" for u
    unfolding flushPendingToolCalls_def by (rule keeps_trans [OF keeps_updates(5) keeps_fold]) (simp_all add: keeps_emit)
  have body: "keeps u (finish_body V r u)" for r u
    using keeps_trans [OF keeps_trans [OF quiet_keeps [OF quiet_fallback] flush] keeps_updates(2)] keeps_trans [OF flush keeps_updates(2)]
    by (simp add: finish_body_def Let_def)
  have "keeps u (finish_stream V r u)" for r u
    unfolding finish_stream_def Let_def
    by (rule keeps_trans [OF keeps_trans [OF keeps_trans [OF quiet_keeps [OF quiet_close_final] body] keeps_updates(1)] keeps_updates(1)])
  from keeps_trans [OF keeps_updates(4) this] show ?thesis using keeps_trans [OF keeps_updates(4) body]
    by (simp add: finishResponse_def keeps_refl Let_def)
qed

lemma keeps_ends: "keeps s (on_finish V m s)" "keeps s (on_credits_exhausted V m s)" "keeps s (direct_message_stop V m s)"
proof -
  have c: "quiet False s t \<Longrightarrow> keeps s (finishResponse V r (closeActiveBlock V t))" for t r
    by (rule keeps_trans [OF quiet_keeps [OF quiet_trans [OF _ quiet_closeActiveBlock]] keeps_finish])
  show "keeps s (on_finish V m s)"
    by (auto simp: on_finish_def Let_def intro!: c quiet_refl quiet_read_usage split: option.split)
  show "keeps s (on_credits_exhausted V m s)" unfolding on_credits_exhausted_def
    by (rule keeps_trans [OF quiet_keeps [OF quiet_trans [OF quiet_closeActiveBlock quiet_inject]] keeps_finish])
  show "keeps s (direct_message_stop V m s)"
    using quiet_keeps [OF quiet_passed(1)] keeps_trans [OF quiet_keeps [OF quiet_passed(1)] keeps_finish]
    by (simp add: direct_message_stop_def keeps_def Let_def)
qed

lemma keeps_step: "keeps s (on_stream_event V e s)"
proof (cases e)
  case (Message now m)
  note q = quiet_reasoning quiet_closeActiveBlock quiet_ensureBlock quiet_tool_inputs quiet_read_usage quiet_update(1-5) quiet_passed
  note r = q [THEN quiet_keeps] keeps_ends keeps_tool_events keeps_text_delta keeps_direct_stop keeps_refl
  have "keeps s (on_event V now m s)" using r by (simp add: on_event_def Let_def)
  moreover have "keeps s t" if "handleDirectFinalSSEEvent V m s = Some t" for t
    using that r by (auto simp: handleDirectFinalSSEEvent_def Let_def split: if_splits)
  ultimately show ?thesis using Message by (auto simp: handleMessage_def split: option.split)
next
  case Tick
  then show ?thesis using quiet_keeps [OF quiet_keepalive] by simp
qed

text \<open>What happens to the handler after a state: messages, ticks, new attempts, and the ends of attempts.\<close>

inductive goes_on :: "stream_env \<Rightarrow> stream \<Rightarrow> stream \<Rightarrow> bool" for V s where
  here: "goes_on V s s"
| event: "goes_on V s t \<Longrightarrow> goes_on V s (on_stream_event V e t)"
| again: "goes_on V s t \<Longrightarrow> goes_on V s (resetRoundState V t)"
| ended: "goes_on V s t \<Longrightarrow> goes_on V s (end_with V msg t)"
| forced: "goes_on V s t \<Longrightarrow> goes_on V s (forceFinishIfMissing V t)"

lemma keeps_goes_on: "goes_on V s t \<Longrightarrow> keeps s t"
proof (induction rule: goes_on.induct)
  case (event t e)
  then show ?case using keeps_trans keeps_step by blast
next
  case (again t)
  have "keeps t (resetRoundState V t)"
    using quiet_keeps [OF quiet_closeActiveBlock, of t V] by (auto simp: resetRoundState_def keeps_def kept_keys_def Let_def)
  with again.IH show ?case by (rule keeps_trans)
next
  case (ended t msg)
  have "keeps t (end_with V msg t)"
    using keeps_finish keeps_trans [OF quiet_keeps [OF quiet_inject] keeps_finish] by (simp add: end_with_def split: option.split)
  with ended.IH show ?case by (rule keeps_trans)
next
  case (forced t)
  have "keeps t (forceFinishIfMissing V t)" by (simp add: forceFinishIfMissing_def keeps_finish keeps_refl)
  with forced.IH show ?case by (rule keeps_trans)
qed (rule keeps_refl)

text \<open>
  Property C4. A call with side effects passes once in a request: after one was accepted, a later call
  with the same key, under whatever name and identifier, is refused, through all messages and all further
  attempts.
\<close>

theorem side_effect_once:
  assumes "shouldAcceptToolCallWithFilter V enforce c s = (True, s1)"
    and "evaluateToolCallInput (v_json V) (tc_name c) (tc_input c) (v_workdir V) = Some key" and "key \<noteq> ''''"
    and "goes_on V s1 t"
    and "evaluateToolCallInput (v_json V) (tc_name c') (tc_input c') (v_workdir V) = Some key"
  shows "\<not> fst (shouldAcceptToolCallWithFilter V enforce' c' t)"
proof -
  have "key \<in> kept_keys (sh_tools s1)"
    using assms(1-3) by (auto simp: shouldAcceptToolCallWithFilter_def take_key_def kept_keys_def Let_def split: if_splits)
  then have "key \<in> kept_keys (sh_tools t)" using keeps_goes_on [OF assms(4)] by (auto simp: keeps_def)
  then show ?thesis using assms(3,5)
    by (auto simp: shouldAcceptToolCallWithFilter_def take_key_def kept_keys_def suppress_def Let_def)
qed

definition bash_json :: json_lib where
  "bash_json = sample_json\<lparr>jl_fields := (\<lambda>s. Some \<lparr>tf_Command = s, tf_Cmd = '''', tf_FilePath = '''', tf_Path = '''', tf_Content = '''',
     tf_Old = '''', tf_New = '''', tf_IsReadOnly = Some False, tf_IsRisky = None\<rparr>)\<rparr>"

definition bash_call :: "string \<Rightarrow> tool_call" where
  "bash_call i = \<lparr>tc_id = i, tc_name = ''Bash'', tc_input = ''make''\<rparr>"

lemma bash_call_key: "evaluateToolCallInput bash_json ''Bash'' ''make'' wd = Some ''bash:make''"
proof -
  have "normalizeToolNameKey ''Bash'' = ''bash''" "trim_space ''make'' = ''make''" by (simp_all add: name_simps)
  then show ?thesis
    by (simp add: evaluateToolCallInput_def isStructuredToolName_def decodeToolInputFields_def bash_json_def
        hasRequiredToolInputFields_def sideEffectToolDedupKeyFromFields_def isSideEffectToolName_def field_command_def
        isReadOnlyBashCommand_def)
qed

definition bash_stream :: stream_env where
  "bash_stream = (sample_stream (\<lambda>n. True))\<lparr>v_json := bash_json\<rparr>"

definition after_bash :: stream where
  "after_bash = snd (shouldAcceptToolCallWithFilter bash_stream True (bash_call ''a'') newStreamHandler)"

lemma bash_stream_fields [simp]:
  "v_json bash_stream = bash_json" "v_disallowTools bash_stream = False" "v_allowedTools bash_stream = []" "v_workdir bash_stream = ''''"
  by (simp_all add: bash_stream_def sample_stream_def)

theorem side_effect_once_witness:
  "fst (shouldAcceptToolCallWithFilter bash_stream True (bash_call ''a'') newStreamHandler)
    \<and> \<not> fst (shouldAcceptToolCallWithFilter bash_stream False (bash_call ''b'') (resetRoundState bash_stream after_bash))"
proof -
  have n: "normalizeToolNameKey ''Bash'' = ''bash''" by (simp add: name_simps)
  have "fst (shouldAcceptToolCallWithFilter bash_stream True (bash_call ''a'') newStreamHandler)"
    by (simp add: shouldAcceptToolCallWithFilter_def allowed_tool_def hasNonProjectSandboxToolPath_def n bash_call_def
        bash_call_key take_key_def suppress_def newStreamHandler_def Let_def)
  moreover from this have "shouldAcceptToolCallWithFilter bash_stream True (bash_call ''a'') newStreamHandler = (True, after_bash)"
    by (simp add: after_bash_def prod_eq_iff)
  then have "\<not> fst (shouldAcceptToolCallWithFilter bash_stream False (bash_call ''b'') (resetRoundState bash_stream after_bash))"
    by (rule side_effect_once [where key = "''bash:make''"])
      (simp_all add: bash_call_def bash_call_key goes_on.again goes_on.here)
  ultimately show ?thesis by simp
qed

end
