(* ===== verification/Openai_Chunks.thy ===== *)
theory Openai_Chunks
  imports Stream_State
begin

text \<open>
  \<open>internal/adapter/openai_sse.go\<close>: the conversion of Anthropic stream events to chunks of the OpenAI
  format. The fast path cuts the quoted strings out of the event by markers; the slow path decodes the
  event and encodes a chunk. The JSON library of the slow path is a parameter.
\<close>

section \<open>Stop reasons\<close>

definition normalizeOpenAIStopReasonQuoted :: "string \<Rightarrow> string" where
  "normalizeOpenAIStopReasonQuoted q =
    (if q = '''' \<or> q = in_quotes '''' \<or> q = in_quotes ''stop'' \<or> q = in_quotes ''end_turn'' then in_quotes ''stop''
     else if q = in_quotes ''tool_use'' then in_quotes ''tool_calls''
     else if q = in_quotes ''max_tokens'' then in_quotes ''length''
     else if q = in_quotes ''refusal'' then in_quotes ''content_filter''
     else q)"

definition normalizeOpenAIStopReason :: "string \<Rightarrow> string" where
  "normalizeOpenAIStopReason r =
    (let r = trim_space r in
     if r = '''' \<or> r = ''stop'' \<or> r = ''end_turn'' then ''stop''
     else if r = ''tool_use'' then ''tool_calls''
     else if r = ''max_tokens'' then ''length''
     else if r = ''refusal'' then ''content_filter''
     else r)"

section \<open>Markers\<close>

text \<open>What follows the first occurrence of a marker.\<close>

fun after :: "string \<Rightarrow> string \<Rightarrow> string option" where
  "after m [] = (if m = [] then Some [] else None)"
| "after m (c # s) = (if has_prefix (c # s) m then Some (drop (length m) (c # s)) else after m s)"

text \<open>Up to the quote that is not escaped; the flag says that the last byte was a backslash.\<close>

fun quoted_rest :: "bool \<Rightarrow> string \<Rightarrow> string option" where
  "quoted_rest escaped [] = None"
| "quoted_rest escaped (c # s) =
    (if escaped then map_option ((#) c) (quoted_rest False s)
     else if c = CHR 0x22 then Some [c]
     else map_option ((#) c) (quoted_rest (c = CHR 0x5C) s))"

definition extractJSONStringValueAfter :: "string \<Rightarrow> string \<Rightarrow> string option" where
  "extractJSONStringValueAfter data marker = (case after marker data of
     None \<Rightarrow> None
   | Some rest \<Rightarrow> (case dropWhile (\<lambda>c. c \<in> {CHR '' '', CHR 0x09, CHR 0x0A, CHR 0x0D}) rest of
        [] \<Rightarrow> None
      | c # s \<Rightarrow> if c \<noteq> CHR 0x22 then None else map_option ((#) c) (quoted_rest False s)))"

section \<open>Chunks\<close>

text \<open>The structures that are encoded and the parts of an event that are decoded.\<close>

record openAIToolCall =
  otc_index :: int
  otc_id :: string
  otc_type :: string
  otc_name :: "string option"
  otc_arguments :: string

record openAIDelta =
  od_role :: "string option"
  od_content :: "string option"
  od_reasoning :: "string option"
  od_toolCalls :: "openAIToolCall list"

record openAIChunk =
  oc_id :: string
  oc_created :: int
  oc_model :: string
  oc_delta :: openAIDelta
  oc_finish :: "string option"

record block_payload =
  bp_type :: string
  bp_text :: string
  bp_id :: string
  bp_name :: string

record delta_payload =
  dp_type :: string
  dp_text :: "string option"
  dp_partial :: "string option"
  dp_thinking :: "string option"

text \<open>
  What the code uses of the JSON library: the encoding of a string and of a chunk, and the decoding of the
  payloads: nothing for an error, then nothing for a payload without the part that is looked for.
\<close>

record chunk_lib =
  cl_string :: "string \<Rightarrow> string option"
  cl_chunk :: "openAIChunk \<Rightarrow> string option"
  cl_message :: "string \<Rightarrow> string option option"
  cl_block :: "string \<Rightarrow> block_payload option option"
  cl_delta :: "string \<Rightarrow> delta_payload option option"
  cl_stop :: "string \<Rightarrow> string option option"

definition newOpenAIChunk :: "string \<Rightarrow> int \<Rightarrow> openAIChunk" where
  "newOpenAIChunk msgID created = \<lparr>oc_id = msgID, oc_created = created, oc_model = '''',
     oc_delta = \<lparr>od_role = None, od_content = None, od_reasoning = None, od_toolCalls = []\<rparr>, oc_finish = None\<rparr>"

definition delta_empty :: "openAIDelta \<Rightarrow> bool" where
  "delta_empty d \<longleftrightarrow> od_role d = None \<and> od_content d = None \<and> od_reasoning d = None \<and> od_toolCalls d = []"

definition plain_char :: "char \<Rightarrow> bool" where
  "plain_char c \<longleftrightarrow> 32 \<le> (of_char c :: nat) \<and> (of_char c :: nat) < 128 \<and> c \<noteq> CHR 0x5C \<and> c \<noteq> CHR 0x22"

definition appendOpenAIJSONString :: "chunk_lib \<Rightarrow> string \<Rightarrow> string \<Rightarrow> string option" where
  "appendOpenAIJSONString L dst v =
    (if list_all plain_char v then Some (dst @ in_quotes v) else map_option ((@) dst) (cl_string L v))"

definition openAIChunkIDPrefix :: string where \<open>openAIChunkIDPrefix = ''{"id":''\<close>
definition openAIChunkObjectCreated :: string where \<open>openAIChunkObjectCreated = '',"object":"chat.completion.chunk","created":''\<close>
definition openAIChunkModelPrefix :: string where \<open>openAIChunkModelPrefix = '',"model":''\<close>
definition openAIChunkChoicesPrefix :: string where \<open>openAIChunkChoicesPrefix = '',"choices":[{"index":0,''\<close>
definition openAIMessageStartSuffix :: string where \<open>openAIMessageStartSuffix = ''"delta":{"role":"assistant"}}]}''\<close>
definition openAITextDeltaPrefix :: string where \<open>openAITextDeltaPrefix = ''"delta":{"content":''\<close>
definition openAIContentDeltaSuffix :: string where \<open>openAIContentDeltaSuffix = ''}}]}''\<close>
definition openAIThinkingDeltaPrefix :: string where \<open>openAIThinkingDeltaPrefix = ''"delta":{"reasoning_content":''\<close>
definition openAIToolArgsPrefixHead :: string where \<open>openAIToolArgsPrefixHead = ''"delta":{"tool_calls":[{"index":''\<close>
definition openAIToolArgsPrefixTail :: string where \<open>openAIToolArgsPrefixTail = '',"function":{"arguments":''\<close>
definition openAIToolArgsDeltaSuffix :: string where \<open>openAIToolArgsDeltaSuffix = ''}}]}}]}''\<close>
definition openAIToolStartPrefixHead :: string where \<open>openAIToolStartPrefixHead = ''"delta":{"tool_calls":[{"index":''\<close>
definition openAIToolStartPrefixMid :: string where \<open>openAIToolStartPrefixMid = '',"id":''\<close>
definition openAIToolStartNamePrefix :: string where \<open>openAIToolStartNamePrefix = '',"type":"function","function":{"name":''\<close>
definition openAIToolStartDeltaSuffix :: string where \<open>openAIToolStartDeltaSuffix = '',"arguments":""}}]}}]}''\<close>
definition openAIMessageDeltaPrefix :: string where \<open>openAIMessageDeltaPrefix = ''"delta":{},"finish_reason":''\<close>
definition openAIMessageDeltaSuffix :: string where \<open>openAIMessageDeltaSuffix = ''}]}''\<close>

text \<open>The capacity of the buffer is not modelled. An empty model stands for none.\<close>

definition appendOpenAIChunkPrefix :: "chunk_lib \<Rightarrow> string \<Rightarrow> string \<Rightarrow> int \<Rightarrow> string \<Rightarrow> string option" where
  "appendOpenAIChunkPrefix L dst msgID created quotedModel =
     map_option (\<lambda>dst. dst @ openAIChunkObjectCreated @ itoa created @ openAIChunkModelPrefix
         @ (if quotedModel \<noteq> '''' then quotedModel else in_quotes '''') @ openAIChunkChoicesPrefix)
       (appendOpenAIJSONString L (dst @ openAIChunkIDPrefix) msgID)"

definition chunk_with :: "string \<Rightarrow> chunk_lib \<Rightarrow> string \<Rightarrow> string \<Rightarrow> int \<Rightarrow> string \<Rightarrow> string option" where
  "chunk_with body L dst msgID created quotedModel = map_option (\<lambda>dst. dst @ body) (appendOpenAIChunkPrefix L dst msgID created quotedModel)"

definition appendOpenAIChunkMessageStart :: "chunk_lib \<Rightarrow> string \<Rightarrow> string \<Rightarrow> int \<Rightarrow> string \<Rightarrow> string option" where
  "appendOpenAIChunkMessageStart = chunk_with openAIMessageStartSuffix"

definition appendOpenAIChunkTextWithModel :: "string \<Rightarrow> chunk_lib \<Rightarrow> string \<Rightarrow> string \<Rightarrow> int \<Rightarrow> string \<Rightarrow> string option" where
  "appendOpenAIChunkTextWithModel quotedText = chunk_with (openAITextDeltaPrefix @ quotedText @ openAIContentDeltaSuffix)"

definition appendOpenAIChunkThinkingWithModel :: "string \<Rightarrow> chunk_lib \<Rightarrow> string \<Rightarrow> string \<Rightarrow> int \<Rightarrow> string \<Rightarrow> string option" where
  "appendOpenAIChunkThinkingWithModel quotedThinking =
     chunk_with (openAIThinkingDeltaPrefix @ quotedThinking @ openAIContentDeltaSuffix)"

definition appendOpenAIChunkToolArgsWithModel :: "string \<Rightarrow> int \<Rightarrow> chunk_lib \<Rightarrow> string \<Rightarrow> string \<Rightarrow> int \<Rightarrow> string \<Rightarrow> string option" where
  "appendOpenAIChunkToolArgsWithModel quotedArgs toolIndex =
     chunk_with (openAIToolArgsPrefixHead @ itoa (max 0 toolIndex) @ openAIToolArgsPrefixTail @ quotedArgs @ openAIToolArgsDeltaSuffix)"

definition appendOpenAIChunkToolStartWithModel ::
  "string \<Rightarrow> string \<Rightarrow> int \<Rightarrow> chunk_lib \<Rightarrow> string \<Rightarrow> string \<Rightarrow> int \<Rightarrow> string \<Rightarrow> string option" where
  "appendOpenAIChunkToolStartWithModel quotedID quotedName toolIndex =
     chunk_with (openAIToolStartPrefixHead @ itoa (max 0 toolIndex) @ openAIToolStartPrefixMid @ quotedID
       @ openAIToolStartNamePrefix @ quotedName @ openAIToolStartDeltaSuffix)"

definition appendOpenAIChunkMessageDeltaWithModel :: "string \<Rightarrow> chunk_lib \<Rightarrow> string \<Rightarrow> string \<Rightarrow> int \<Rightarrow> string \<Rightarrow> string option" where
  "appendOpenAIChunkMessageDeltaWithModel quotedStopReason =
     chunk_with (openAIMessageDeltaPrefix @ quotedStopReason @ openAIMessageDeltaSuffix)"

section \<open>The fast path\<close>

definition appendOpenAIChunkFastWithHint ::
  "chunk_lib \<Rightarrow> string \<Rightarrow> string \<Rightarrow> int \<Rightarrow> string \<Rightarrow> string \<Rightarrow> string \<Rightarrow> int \<Rightarrow> string option" where
  \<open>appendOpenAIChunkFastWithHint L dst msgID created event data quotedModel toolIndex =
    (if event = ''message_start'' then
       (case extractJSONStringValueAfter data ''"model":'' of
          None \<Rightarrow> None
        | Some upstream \<Rightarrow> appendOpenAIChunkMessageStart L dst msgID created upstream)
     else if event = ''content_block_start'' then
       (let started = (if contains data ''"type":"tool_use"''
              then (case (extractJSONStringValueAfter data ''"id":'', extractJSONStringValueAfter data ''"name":'') of
                  (Some quotedID, Some quotedName) \<Rightarrow> Some (quotedID, quotedName) | _ \<Rightarrow> None) else None) in
        case started of
          Some (quotedID, quotedName) \<Rightarrow> appendOpenAIChunkToolStartWithModel quotedID quotedName toolIndex L dst msgID created quotedModel
        | None \<Rightarrow>
            if contains data ''"type":"text"'' then
              (case extractJSONStringValueAfter data ''"text":'' of
                 Some quotedText \<Rightarrow>
                   if 2 < length quotedText then appendOpenAIChunkTextWithModel quotedText L dst msgID created quotedModel else None
               | None \<Rightarrow> None)
            else None)
     else if event = ''content_block_delta'' then
       (if contains data ''"type":"text_delta"'' then
          (case extractJSONStringValueAfter data ''"text":'' of
             Some q \<Rightarrow> appendOpenAIChunkTextWithModel q L dst msgID created quotedModel | None \<Rightarrow> None)
        else if contains data ''"type":"input_json_delta"'' then
          (case extractJSONStringValueAfter data ''"partial_json":'' of
             Some q \<Rightarrow> appendOpenAIChunkToolArgsWithModel q toolIndex L dst msgID created quotedModel | None \<Rightarrow> None)
        else if contains data ''"type":"thinking_delta"'' then
          (case extractJSONStringValueAfter data ''"thinking":'' of
             Some q \<Rightarrow> appendOpenAIChunkThinkingWithModel q L dst msgID created quotedModel | None \<Rightarrow> None)
        else None)
     else if event = ''message_delta'' then
       (case extractJSONStringValueAfter data ''"stop_reason":'' of
          Some q \<Rightarrow> appendOpenAIChunkMessageDeltaWithModel (normalizeOpenAIStopReasonQuoted q) L dst msgID created quotedModel
        | None \<Rightarrow> None)
     else None)\<close>

section \<open>The slow path\<close>

definition unquoteIfQuoted :: "string \<Rightarrow> string" where
  "unquoteIfQuoted q = (if 2 \<le> length q \<and> hd q = CHR 0x22 \<and> last q = CHR 0x22 then butlast (tl q) else q)"

text \<open>The delta and the finish reason of an event, and the model of a start; \<open>None\<close> where the code gives up.\<close>

definition slow_parts :: "chunk_lib \<Rightarrow> string \<Rightarrow> string \<Rightarrow> int \<Rightarrow> (openAIDelta \<times> string option \<times> string) option" where
  "slow_parts L event data toolIndex =
    (let d = oc_delta (newOpenAIChunk '''' 0); toolIndex = max 0 toolIndex in
     if event = ''message_start'' then
       (case cl_message L data of Some (Some model) \<Rightarrow> Some (d\<lparr>od_role := Some ''assistant''\<rparr>, None, model) | _ \<Rightarrow> None)
     else if event = ''content_block_start'' then
       (case cl_block L data of
          Some (Some b) \<Rightarrow>
            if bp_type b = ''text'' then Some (if bp_text b \<noteq> '''' then d\<lparr>od_content := Some (bp_text b)\<rparr> else d, None, '''')
            else if bp_type b = ''tool_use'' then
              Some (d\<lparr>od_toolCalls := [\<lparr>otc_index = toolIndex, otc_id = bp_id b, otc_type = ''function'', otc_name = Some (bp_name b),
                otc_arguments = ''''\<rparr>]\<rparr>, None, '''')
            else None
        | _ \<Rightarrow> None)
     else if event = ''content_block_delta'' then
       (case cl_delta L data of
          Some (Some p) \<Rightarrow>
            if dp_type p = ''text_delta'' then map_option (\<lambda>t. (d\<lparr>od_content := Some t\<rparr>, None, '''')) (dp_text p)
            else if dp_type p = ''input_json_delta'' then map_option (\<lambda>a. (d\<lparr>od_toolCalls :=
                [\<lparr>otc_index = toolIndex, otc_id = '''', otc_type = '''', otc_name = None, otc_arguments = a\<rparr>]\<rparr>, None, '''')) (dp_partial p)
            else if dp_type p = ''thinking_delta'' then map_option (\<lambda>t. (d\<lparr>od_reasoning := Some t\<rparr>, None, '''')) (dp_thinking p)
            else None
        | _ \<Rightarrow> None)
     else if event = ''message_delta'' then
       (case cl_stop L data of Some (Some r) \<Rightarrow> Some (d, Some (normalizeOpenAIStopReason r), '''') | _ \<Rightarrow> None)
     else None)"

definition buildOpenAIChunkSlowWithHint ::
  "chunk_lib \<Rightarrow> string \<Rightarrow> int \<Rightarrow> string \<Rightarrow> string \<Rightarrow> string \<Rightarrow> int \<Rightarrow> string option" where
  "buildOpenAIChunkSlowWithHint L msgID created event data quotedModel toolIndex =
    (case slow_parts L event data toolIndex of
       None \<Rightarrow> None
     | Some (d, finish, model) \<Rightarrow>
         if delta_empty d \<and> finish = None then None
         else let model = (if event \<noteq> ''message_start'' \<and> 2 \<le> length quotedModel \<and> unquoteIfQuoted quotedModel \<noteq> ''''
                then unquoteIfQuoted quotedModel else model)
           in cl_chunk L ((newOpenAIChunk msgID created)\<lparr>oc_model := model, oc_delta := d, oc_finish := finish\<rparr>))"

definition AppendOpenAIChunkWithHint ::
  "chunk_lib \<Rightarrow> string \<Rightarrow> string \<Rightarrow> int \<Rightarrow> string \<Rightarrow> string \<Rightarrow> string \<Rightarrow> int \<Rightarrow> string option" where
  "AppendOpenAIChunkWithHint L dst msgID created event data quotedModel toolIndex =
    (case appendOpenAIChunkFastWithHint L dst msgID created event data quotedModel toolIndex of
       Some raw \<Rightarrow> Some raw
     | None \<Rightarrow> map_option ((@) dst) (buildOpenAIChunkSlowWithHint L msgID created event data quotedModel toolIndex))"

text \<open>\<open>setModelHint\<close> and the conversion as \<open>writeOpenAISSEBytes\<close> uses it, with the rewriter that a client may install.\<close>

definition setModelHint :: "string \<Rightarrow> string" where
  "setModelHint model = (if model = '''' then '''' else in_quotes model)"

definition writeOpenAISSEBytes :: "chunk_lib \<Rightarrow> (string \<Rightarrow> string) option \<Rightarrow> string \<Rightarrow> int \<Rightarrow> string \<Rightarrow> int \<Rightarrow> string \<Rightarrow> string \<Rightarrow> string option" where
  "writeOpenAISSEBytes L rewriter msgID created quotedModel toolIndex event data =
     map_option (\<lambda>raw. case rewriter of None \<Rightarrow> raw | Some f \<Rightarrow> if f raw \<noteq> '''' then f raw else raw)
       (AppendOpenAIChunkWithHint L [] msgID created event data quotedModel toolIndex)"

section \<open>Quoted strings\<close>

text \<open>The inside of a JSON string: plain bytes and escapes.\<close>

definition unquoted :: "string \<Rightarrow> bool" where
  "unquoted s \<longleftrightarrow> CHR 0x22 \<notin> set s \<and> CHR 0x5C \<notin> set s"

inductive escaped :: "string \<Rightarrow> bool" where
  escaped_Nil: "escaped []"
| escaped_plain: "unquoted [c] \<Longrightarrow> escaped s \<Longrightarrow> escaped (c # s)"
| escaped_pair: "escaped s \<Longrightarrow> escaped (CHR 0x5C # c # s)"

lemma escaped_run: "unquoted xs \<Longrightarrow> escaped s \<Longrightarrow> escaped (xs @ s)"
  by (induction xs) (auto simp: unquoted_def intro: escaped_plain [unfolded unquoted_def])

lemma unquoted_high: "\<forall>c \<in> set xs. 128 \<le> (of_char c :: nat) \<Longrightarrow> unquoted xs"
  by (auto simp: unquoted_def)

lemma unquoted_safe: "safe_byte (of_char c) \<Longrightarrow> unquoted [c]"
  by (auto simp: unquoted_def safe_byte_def)

lemma hex_unquoted: "d < 16 \<Longrightarrow> unquoted [jsonHexDigits ! d]"
proof -
  assume "d < 16"
  then have "d \<in> set [0, 1, 2, 3, 4, 5, 6, 7, 8, 9, 10, 11, 12, 13, 14, 15]"
    unfolding list.set insert_iff empty_iff by presburger
  then show ?thesis by (auto simp: unquoted_def jsonHexDigits_def)
qed

lemma escaped_escape:
  assumes "(of_char c :: nat) < 128" and "escaped s"
  shows "escaped (escape_byte c @ s)"
proof -
  have "unquoted [jsonHexDigits ! (of_char c div 16)]" "unquoted [jsonHexDigits ! (of_char c mod 16)]"
    using assms(1) by (auto intro!: hex_unquoted)
  moreover have "unquoted [CHR ''0'']" by (simp add: unquoted_def)
  ultimately show ?thesis using assms(2)
    by (auto simp: escape_byte_def Let_def intro!: escaped.intros)
qed

lemma escaped_marshal: "escaped (marshal_runes v)"
proof (induction v rule: marshal_runes.induct)
  case (1 v)
  show ?case
  proof (cases v)
    case (Cons c s)
    obtain r w where d: "decode_rune (c # s) = (r, w)" by (cases "decode_rune (c # s)")
    have ih: "escaped (marshal_runes (drop w (c # s)))" using 1 Cons d by simp
    show ?thesis
    proof (cases "(of_char c :: nat) < 128")
      case True
      then have "drop w (c # s) = s" using decode_rune_ascii [OF True, of s] d by simp
      then show ?thesis using ascii_step(1) [OF True, of s] ih Cons escaped_escape [OF True] escaped_run [OF unquoted_safe]
        by simp
    next
      case False
      have u: "unquoted ''fffd''" "unquoted ''2028''" "unquoted ''2029''" by (simp_all add: unquoted_def)
      then have e: "escaped (CHR 0x5C # CHR ''u'' # x @ marshal_runes (drop w (c # s)))"
        if "x = ''fffd'' \<or> x = ''2028'' \<or> x = ''2029''" for x
        using that ih by (auto intro!: escaped_pair escaped_run)
      have "escaped (take w (c # s) @ marshal_runes (drop w (c # s)))" if "\<not> (r = 65533 \<and> w = 1)"
        using decode_rune_high [of c s r w] d False that ih by (intro escaped_run unquoted_high) auto
      then show ?thesis unfolding Cons rune_step(1) [OF d False] using e [of "''fffd''"] e [of "''2028''"] e [of "''2029''"]
        by (cases "r = 65533 \<and> w = 1") (simp, auto simp del: take_Cons' drop_Cons')
    qed
  qed (simp add: escaped_Nil)
qed

lemma quoted_rest_escaped: "escaped s \<Longrightarrow> quoted_rest False (s @ CHR 0x22 # rest) = Some (s @ [CHR 0x22])"
  by (induction rule: escaped.induct) (auto simp: unquoted_def)

lemma quoted_rest_marshal: "quoted_rest False (marshal_runes v @ CHR 0x22 # rest) = Some (marshal_runes v @ [CHR 0x22])"
  by (rule quoted_rest_escaped [OF escaped_marshal])

section \<open>Where a marker can occur\<close>

lemma prefix_simps [simp]:
  "has_prefix s []" "\<not> has_prefix [] (c # m)" "has_prefix (c # s) (d # m) \<longleftrightarrow> c = d \<and> has_prefix s m"
  by (auto simp: has_prefix_def)

lemma contains_after: "contains s m \<longleftrightarrow> after m s \<noteq> None"
proof (induction s)
  case (Cons c s)
  then show ?case by (auto simp: contains_def has_prefix_def sublist_Cons_right)
qed (auto simp: contains_def)

text \<open>Every marker is a quoted word and a colon, which may go on.\<close>

definition marker :: "string \<Rightarrow> string \<Rightarrow> string" where
  "marker word ends = CHR 0x22 # word @ CHR 0x22 # CHR '':'' # ends"

lemma not_inside:
  assumes "escaped s" and "w \<noteq> []" and "unquoted w" and "rest \<noteq> []" and "hd rest \<noteq> CHR '':''"
  shows "\<not> has_prefix (s @ CHR 0x22 # rest) (w @ CHR 0x22 # CHR '':'' # ends)"
  using assms
proof (induction arbitrary: w rule: escaped.induct)
  case escaped_Nil
  then show ?case by (cases w) (auto simp: unquoted_def)
next
  case (escaped_plain c s)
  then show ?case
  proof (cases w)
    case (Cons d v)
    show ?thesis
    proof (cases "v = []")
      case True
      have "\<not> has_prefix (s @ CHR 0x22 # rest) (CHR 0x22 # CHR '':'' # ends)"
        using escaped_plain(2,6,7) by (cases rule: escaped.cases) (auto simp: unquoted_def neq_Nil_conv)
      then show ?thesis using Cons True by simp
    next
      case False
      then have "\<not> has_prefix (s @ CHR 0x22 # rest) (v @ CHR 0x22 # CHR '':'' # ends)"
        using escaped_plain Cons by (intro escaped_plain.IH) (auto simp: unquoted_def)
      then show ?thesis using Cons by simp
    qed
  qed simp
next
  case (escaped_pair s c)
  then show ?case by (cases w) (auto simp: unquoted_def)
qed

lemma after_quoted:
  assumes "escaped s" and "word \<noteq> []" and "unquoted word" and "rest \<noteq> []" and "hd rest \<noteq> CHR '':''"
  shows "after (marker word ends) (s @ CHR 0x22 # rest) = after (marker word ends) (CHR 0x22 # rest)"
  using assms
proof (induction rule: escaped.induct)
  case (escaped_plain c s)
  then show ?case by (auto simp: marker_def unquoted_def)
next
  case (escaped_pair s c)
  have "\<not> has_prefix (s @ CHR 0x22 # rest) (word @ CHR 0x22 # CHR '':'' # ends)"
    by (rule not_inside) (use escaped_pair in auto)
  then show ?case using escaped_pair by (simp add: marker_def)
qed simp

lemma after_string:
  assumes "word \<noteq> []" and "unquoted word" and "rest \<noteq> []" and "hd rest \<noteq> CHR '':''" and "hd rest \<noteq> hd word"
  shows "after (marker word ends) (json_Marshal v @ rest) = after (marker word ends) rest"
proof -
  have "\<not> has_prefix (marshal_runes v @ CHR 0x22 # rest) (word @ CHR 0x22 # CHR '':'' # ends)"
    using not_inside [OF escaped_marshal assms(1-4)] .
  moreover have "\<not> has_prefix rest (word @ CHR 0x22 # CHR '':'' # ends)"
    using assms(1,3,5) by (cases rest; cases word) auto
  ultimately show ?thesis using after_quoted [OF escaped_marshal [of v] assms(1-4), of ends]
    by (simp add: json_Marshal_def marker_def)
qed

lemma after_digits: "after (CHR 0x22 # m) (itoa i @ s) = after (CHR 0x22 # m) s"
proof -
  have "CHR 0x22 \<notin> set xs \<Longrightarrow> after (CHR 0x22 # m) (xs @ s) = after (CHR 0x22 # m) s" for xs
    by (induction xs) auto
  then show ?thesis using itoa_chars [of "CHR 0x22" i] by auto
qed

lemma extract_string: "after m data = Some (json_Marshal v @ rest) \<Longrightarrow> extractJSONStringValueAfter data m = Some (json_Marshal v)"
  using quoted_rest_marshal [of v rest] by (simp add: extractJSONStringValueAfter_def json_Marshal_def)

section \<open>The conversion of the gateway's own events\<close>

text \<open>The parts of a chunk, by event.\<close>

fun chunk_model :: "string \<Rightarrow> sse_event \<Rightarrow> string" where
  "chunk_model hint (MessageStart m md i n) = json_Marshal md"
| "chunk_model hint (MessageStartNoUsage m md) = json_Marshal md"
| "chunk_model hint e = hint"

fun chunk_body :: "int \<Rightarrow> sse_event \<Rightarrow> string option" where
  "chunk_body idx (MessageStart m md i n) = Some openAIMessageStartSuffix"
| "chunk_body idx (MessageStartNoUsage m md) = Some openAIMessageStartSuffix"
| "chunk_body idx (StartToolUse i tid name) = Some (openAIToolStartPrefixHead @ itoa (max 0 idx) @ openAIToolStartPrefixMid
     @ json_Marshal tid @ openAIToolStartNamePrefix @ json_Marshal name @ openAIToolStartDeltaSuffix)"
| "chunk_body idx (DeltaText i t) = Some (openAITextDeltaPrefix @ json_Marshal t @ openAIContentDeltaSuffix)"
| "chunk_body idx (DeltaThinking i t) = Some (openAIThinkingDeltaPrefix @ json_Marshal t @ openAIContentDeltaSuffix)"
| "chunk_body idx (DeltaInputJSON i t) = Some (openAIToolArgsPrefixHead @ itoa (max 0 idx) @ openAIToolArgsPrefixTail
     @ json_Marshal t @ openAIToolArgsDeltaSuffix)"
| "chunk_body idx (MessageDelta r n) = Some (openAIMessageDeltaPrefix @ normalizeOpenAIStopReasonQuoted (json_Marshal r) @ openAIMessageDeltaSuffix)"
| "chunk_body idx e = None"

lemma marker_words:
  \<open>''"model":'' = marker ''model'' []\<close> \<open>''"id":'' = marker ''id'' []\<close> \<open>''"name":'' = marker ''name'' []\<close>
  \<open>''"text":'' = marker ''text'' []\<close> \<open>''"partial_json":'' = marker ''partial_json'' []\<close>
  \<open>''"thinking":'' = marker ''thinking'' []\<close> \<open>''"stop_reason":'' = marker ''stop_reason'' []\<close>
  \<open>''"type":"text_delta"'' = marker ''type'' (in_quotes ''text_delta'')\<close>
  \<open>''"type":"input_json_delta"'' = marker ''type'' (in_quotes ''input_json_delta'')\<close>
  \<open>''"type":"thinking_delta"'' = marker ''type'' (in_quotes ''thinking_delta'')\<close>
  \<open>''"type":"tool_use"'' = marker ''type'' (in_quotes ''tool_use'')\<close>
  \<open>''"type":"text"'' = marker ''type'' (in_quotes ''text'')\<close>
  by (simp_all add: marker_def in_quotes_def)

text \<open>Over a literal, byte by byte; over a number; over a quoted string.\<close>

lemma after_marker_string:
  assumes "word \<noteq> []" and "unquoted word" and "c \<noteq> CHR '':''" and "c \<noteq> hd word"
  shows "after (CHR 0x22 # word @ CHR 0x22 # CHR '':'' # ends) (json_Marshal v @ c # rest)
    = after (CHR 0x22 # word @ CHR 0x22 # CHR '':'' # ends) (c # rest)"
  using after_string [OF assms(1,2), of "c # rest" ends v] assms(3,4) by (simp add: marker_def)

lemma frame_text:
  \<open>after ''"type":"text_delta"'' (frame (DeltaText i t)) \<noteq> None\<close>
  \<open>after ''"text":'' (frame (DeltaText i t)) = Some (json_Marshal t @ ''}}'')\<close>
  by (simp_all add: frame_defs appendJSONBytes_eq after_digits)

lemma unquoted_words [simp]: "unquoted ''name''" "unquoted ''type''" "unquoted ''model''"
  by (simp_all add: unquoted_def)

lemmas over_string =
  after_marker_string [of "''name''" "CHR '',''" "[]", simplified]
  after_marker_string [of "''model''" "CHR '',''" "[]", simplified]
  after_marker_string [of "''type''" "CHR ''}''" "in_quotes ''text_delta''", simplified in_quotes_def, simplified]
  after_marker_string [of "''type''" "CHR ''}''" "in_quotes ''input_json_delta''", simplified in_quotes_def, simplified]
  after_marker_string [of "''type''" "CHR ''}''" "in_quotes ''tool_use''", simplified in_quotes_def, simplified]
  after_marker_string [of "''type''" "CHR ''}''" "in_quotes ''text''", simplified in_quotes_def, simplified]

lemma frame_thinking:
  \<open>after ''"type":"text_delta"'' (frame (DeltaThinking i t)) = None\<close>
  \<open>after ''"type":"input_json_delta"'' (frame (DeltaThinking i t)) = None\<close>
  \<open>after ''"type":"thinking_delta"'' (frame (DeltaThinking i t)) \<noteq> None\<close>
  \<open>after ''"thinking":'' (frame (DeltaThinking i t)) = Some (json_Marshal t @ ''}}'')\<close>
  by (simp_all add: frame_defs appendJSONBytes_eq after_digits over_string)

lemma frame_input:
  \<open>after ''"type":"text_delta"'' (frame (DeltaInputJSON i t)) = None\<close>
  \<open>after ''"type":"input_json_delta"'' (frame (DeltaInputJSON i t)) \<noteq> None\<close>
  \<open>after ''"partial_json":'' (frame (DeltaInputJSON i t)) = Some (json_Marshal t @ ''}}'')\<close>
  by (simp_all add: frame_defs appendJSONBytes_eq after_digits over_string)

lemma frame_tool:
  \<open>after ''"type":"tool_use"'' (frame (StartToolUse i tid name)) \<noteq> None\<close>
  \<open>\<exists>rest. after ''"id":'' (frame (StartToolUse i tid name)) = Some (json_Marshal tid @ rest)\<close>
  \<open>\<exists>rest. after ''"name":'' (frame (StartToolUse i tid name)) = Some (json_Marshal name @ rest)\<close>
  by (simp_all add: frame_defs appendJSONBytes_eq after_digits over_string)

lemma frame_start_text:
  \<open>after ''"type":"tool_use"'' (frame (StartText i)) = None\<close>
  \<open>after ''"text":'' (frame (StartText i)) = Some ''""}}''\<close>
  by (simp_all add: frame_defs after_digits)

lemma frame_start_thinking:
  \<open>after ''"type":"tool_use"'' (frame (StartThinking i sig)) = None\<close>
  \<open>after ''"type":"text"'' (frame (StartThinking i sig)) = None\<close>
  by (simp_all add: frame_defs appendJSONBytes_eq after_digits over_string)

lemma frame_start:
  \<open>\<exists>rest. after ''"model":'' (frame (MessageStart m md i n)) = Some (json_Marshal md @ rest)\<close>
  \<open>\<exists>rest. after ''"model":'' (frame (MessageStartNoUsage m md)) = Some (json_Marshal md @ rest)\<close>
  by (simp_all add: frame_defs appendJSONBytes_eq after_digits over_string)

lemma frame_delta:
  \<open>\<exists>rest. after ''"stop_reason":'' (frame (MessageDelta r n)) = Some (json_Marshal r @ rest)\<close>
  by (simp add: frame_defs appendJSONBytes_eq)

lemma extract_frame:
  "\<exists>rest. after m data = Some (json_Marshal v @ rest) \<Longrightarrow> extractJSONStringValueAfter data m = Some (json_Marshal v)"
  using extract_string by blast

lemma fast_path:
  "appendOpenAIChunkFastWithHint L dst msgID created (event_name e) (frame e) hint idx
    = (case chunk_body idx e of None \<Rightarrow> None | Some body \<Rightarrow> chunk_with body L dst msgID created (chunk_model hint e))"
proof (cases e)
  case (MessageStart m md i n)
  then show ?thesis using extract_frame [OF frame_start(1)]
    by (simp add: appendOpenAIChunkFastWithHint_def appendOpenAIChunkMessageStart_def)
next
  case (MessageStartNoUsage m md)
  then show ?thesis using extract_frame [OF frame_start(2)]
    by (simp add: appendOpenAIChunkFastWithHint_def appendOpenAIChunkMessageStart_def)
next
  case (StartText i)
  have \<open>extractJSONStringValueAfter (frame (StartText i)) ''"text":'' = Some ''""''\<close>
    using frame_start_text(2) [of i] by (simp add: extractJSONStringValueAfter_def)
  then show ?thesis using StartText frame_start_text(1) by (simp add: appendOpenAIChunkFastWithHint_def contains_after Let_def)
next
  case (StartThinking i sig)
  then show ?thesis using frame_start_thinking by (simp add: appendOpenAIChunkFastWithHint_def contains_after Let_def)
next
  case (StartToolUse i tid name)
  then show ?thesis using frame_tool(1) extract_frame [OF frame_tool(2)] extract_frame [OF frame_tool(3)]
    by (simp add: appendOpenAIChunkFastWithHint_def appendOpenAIChunkToolStartWithModel_def contains_after Let_def)
next
  case (DeltaText i t)
  then show ?thesis using frame_text(1) extract_string [OF frame_text(2)]
    by (simp add: appendOpenAIChunkFastWithHint_def appendOpenAIChunkTextWithModel_def contains_after)
next
  case (DeltaThinking i t)
  then show ?thesis using frame_thinking(1-3) extract_string [OF frame_thinking(4)]
    by (simp add: appendOpenAIChunkFastWithHint_def appendOpenAIChunkThinkingWithModel_def contains_after)
next
  case (DeltaInputJSON i t)
  then show ?thesis using frame_input(1,2) extract_string [OF frame_input(3)]
    by (simp add: appendOpenAIChunkFastWithHint_def appendOpenAIChunkToolArgsWithModel_def contains_after)
next
  case (MessageDelta r n)
  then show ?thesis using extract_frame [OF frame_delta]
    by (simp add: appendOpenAIChunkFastWithHint_def appendOpenAIChunkMessageDeltaWithModel_def)
qed (simp_all add: appendOpenAIChunkFastWithHint_def)

text \<open>
  Property C7. The fast path, which only looks for markers, is exact on every event that the gateway
  builds: no text, identifier, name, signature or model in it, whatever quotes and markers it holds
  itself, is taken for something else or cut short, and the events without a chunk get none.
\<close>

theorem fast_path_exact:
  "appendOpenAIChunkFastWithHint L dst msgID created (event_name e) (frame e) hint idx
    = (case chunk_body idx e of None \<Rightarrow> None | Some body \<Rightarrow> chunk_with body L dst msgID created (chunk_model hint e))"
  by (rule fast_path)

section \<open>What is documented of the JSON library\<close>

text \<open>The encoding of the structures by their tags: fields in order, the empty ones left out.\<close>

definition key_value :: "string \<Rightarrow> string \<Rightarrow> string" where
  "key_value k v = in_quotes k @ '':'' @ v"

definition optional :: "bool \<Rightarrow> string \<Rightarrow> string list" where
  "optional b s = (if b then [s] else [])"

definition tool_call_text :: "openAIToolCall \<Rightarrow> string" where
  "tool_call_text c = ''{'' @ join_with '','' (key_value ''index'' (itoa (otc_index c))
     # optional (otc_id c \<noteq> '''') (key_value ''id'' (json_Marshal (otc_id c)))
     @ optional (otc_type c \<noteq> '''') (key_value ''type'' (json_Marshal (otc_type c)))
     @ [key_value ''function'' (''{'' @ join_with '','' (
         (case otc_name c of None \<Rightarrow> [] | Some n \<Rightarrow> [key_value ''name'' (json_Marshal n)])
         @ [key_value ''arguments'' (json_Marshal (otc_arguments c))]) @ ''}'')]) @ ''}''"

definition delta_text :: "openAIDelta \<Rightarrow> string" where
  "delta_text d = ''{'' @ join_with '','' (
     (case od_role d of None \<Rightarrow> [] | Some v \<Rightarrow> [key_value ''role'' (json_Marshal v)])
     @ (case od_content d of None \<Rightarrow> [] | Some v \<Rightarrow> [key_value ''content'' (json_Marshal v)])
     @ (case od_reasoning d of None \<Rightarrow> [] | Some v \<Rightarrow> [key_value ''reasoning_content'' (json_Marshal v)])
     @ optional (od_toolCalls d \<noteq> []) (key_value ''tool_calls'' (''['' @ join_with '','' (map tool_call_text (od_toolCalls d)) @ '']''))) @ ''}''"

definition chunk_text :: "openAIChunk \<Rightarrow> string" where
  "chunk_text c = ''{'' @ join_with '','' [key_value ''id'' (json_Marshal (oc_id c)), key_value ''object'' (json_Marshal ''chat.completion.chunk''),
     key_value ''created'' (itoa (oc_created c)), key_value ''model'' (json_Marshal (oc_model c)),
     key_value ''choices'' (''[{'' @ join_with '','' ([key_value ''index'' ''0'', key_value ''delta'' (delta_text (oc_delta c))]
       @ (case oc_finish c of None \<Rightarrow> [] | Some r \<Rightarrow> [key_value ''finish_reason'' (json_Marshal r)])) @ ''}]'')] @ ''}''"

text \<open>The part of a chunk after its model.\<close>

definition body_text :: "openAIDelta \<Rightarrow> string option \<Rightarrow> string" where
  "body_text d finish = key_value ''delta'' (delta_text d)
     @ (case finish of None \<Rightarrow> [] | Some r \<Rightarrow> '','' @ key_value ''finish_reason'' (json_Marshal r)) @ ''}]}''"

lemmas chunk_pieces = openAIChunkIDPrefix_def openAIChunkObjectCreated_def openAIChunkModelPrefix_def openAIChunkChoicesPrefix_def
  openAIMessageStartSuffix_def openAITextDeltaPrefix_def openAIContentDeltaSuffix_def openAIThinkingDeltaPrefix_def
  openAIToolArgsPrefixHead_def openAIToolArgsPrefixTail_def openAIToolArgsDeltaSuffix_def openAIToolStartPrefixHead_def
  openAIToolStartPrefixMid_def openAIToolStartNamePrefix_def openAIToolStartDeltaSuffix_def openAIMessageDeltaPrefix_def
  openAIMessageDeltaSuffix_def

lemmas object_pieces = body_text_def chunk_text_def delta_text_def tool_call_text_def key_value_def optional_def in_quotes_def

lemma json_Marshal_words:
  "json_Marshal ''chat.completion.chunk'' = in_quotes ''chat.completion.chunk''" "json_Marshal ''assistant'' = in_quotes ''assistant''"
  "json_Marshal ''function'' = in_quotes ''function''" "json_Marshal [] = in_quotes []"
  by (simp_all add: json_Marshal_literal literal_def safe_byte_def in_quotes_def)

lemmas json_Marshal_Nil = json_Marshal_words(4)

lemma chunk_text_shape:
  "chunk_text c = openAIChunkIDPrefix @ json_Marshal (oc_id c) @ openAIChunkObjectCreated @ itoa (oc_created c) @ openAIChunkModelPrefix
     @ json_Marshal (oc_model c) @ openAIChunkChoicesPrefix @ body_text (oc_delta c) (oc_finish c)"
  by (cases "oc_finish c") (simp_all add: object_pieces chunk_pieces json_Marshal_words)

lemma body_simps:
  "body_text \<lparr>od_role = Some ''assistant'', od_content = None, od_reasoning = None, od_toolCalls = []\<rparr> None = openAIMessageStartSuffix"
  "body_text \<lparr>od_role = None, od_content = Some t, od_reasoning = None, od_toolCalls = []\<rparr> None
     = openAITextDeltaPrefix @ json_Marshal t @ openAIContentDeltaSuffix"
  "body_text \<lparr>od_role = None, od_content = None, od_reasoning = Some t, od_toolCalls = []\<rparr> None
     = openAIThinkingDeltaPrefix @ json_Marshal t @ openAIContentDeltaSuffix"
  "body_text \<lparr>od_role = None, od_content = None, od_reasoning = None,
      od_toolCalls = [\<lparr>otc_index = n, otc_id = '''', otc_type = '''', otc_name = None, otc_arguments = t\<rparr>]\<rparr> None
     = openAIToolArgsPrefixHead @ itoa n @ openAIToolArgsPrefixTail @ json_Marshal t @ openAIToolArgsDeltaSuffix"
  "tid \<noteq> '''' \<Longrightarrow> body_text \<lparr>od_role = None, od_content = None, od_reasoning = None,
      od_toolCalls = [\<lparr>otc_index = n, otc_id = tid, otc_type = ''function'', otc_name = Some name, otc_arguments = ''''\<rparr>]\<rparr> None
     = openAIToolStartPrefixHead @ itoa n @ openAIToolStartPrefixMid @ json_Marshal tid @ openAIToolStartNamePrefix @ json_Marshal name
       @ openAIToolStartDeltaSuffix"
  "body_text \<lparr>od_role = None, od_content = None, od_reasoning = None, od_toolCalls = []\<rparr> (Some r)
     = openAIMessageDeltaPrefix @ json_Marshal r @ openAIMessageDeltaSuffix"
  by (simp_all add: object_pieces chunk_pieces json_Marshal_words)

text \<open>The two ways to map a stop reason.\<close>

lemma marshal_in_quotes:
  assumes "to_valid r = r" and "literal w"
  shows "json_Marshal r = in_quotes w \<longleftrightarrow> r = w"
proof
  assume "json_Marshal r = in_quotes w"
  then have "json_Marshal r = json_Marshal w" by (simp add: json_Marshal_literal [OF assms(2)] in_quotes_def)
  then have "Some (to_valid r, []) = Some (to_valid w, [])"
    using read_string_marshal [of r "[]"] read_string_marshal [of w "[]"] by simp
  then show "r = w" using assms to_valid_literal by simp
qed (simp add: json_Marshal_literal [OF assms(2)] in_quotes_def)

lemma stop_quoted:
  assumes "to_valid r = r" and "trim_space r = r"
  shows "normalizeOpenAIStopReasonQuoted (json_Marshal r) = json_Marshal (normalizeOpenAIStopReason r)"
proof -
  have "literal w" if "w \<in> {'''', ''stop'', ''end_turn'', ''tool_use'', ''max_tokens'', ''refusal'', ''tool_calls'', ''length'', ''content_filter''}" for w
    using that by (auto simp: literal_def safe_byte_def)
  then have l: "literal ''''" "literal ''stop''" "literal ''end_turn''" "literal ''tool_use''" "literal ''max_tokens''" "literal ''refusal''"
    "literal ''tool_calls''" "literal ''length''" "literal ''content_filter''" by blast+
  have w: "json_Marshal w = in_quotes w" if "literal w" for w using json_Marshal_literal [OF that] by (simp add: in_quotes_def)
  have "json_Marshal r \<noteq> ''''" by (simp add: json_Marshal_def)
  then show ?thesis
    using l [THEN marshal_in_quotes [OF assms(1)]] l [THEN w] assms(2)
    by (simp add: normalizeOpenAIStopReasonQuoted_def normalizeOpenAIStopReason_def)
qed

text \<open>Strings and chunks are encoded, and the gateway's own events decoded, as their types say.\<close>

locale chunk_codec =
  fixes L :: chunk_lib
  assumes marshal_string: "cl_string L v = Some (json_Marshal v)"
    and marshal_chunk: "cl_chunk L c = Some (chunk_text c)"
    and read_start: "cl_message L (frame (MessageStart m md i n)) = Some (Some (to_valid md))"
    and read_start_no_usage: "cl_message L (frame (MessageStartNoUsage m md)) = Some (Some (to_valid md))"
    and read_text: "cl_block L (frame (StartText i)) = Some (Some \<lparr>bp_type = ''text'', bp_text = '''', bp_id = '''', bp_name = ''''\<rparr>)"
    and read_thinking:
      "cl_block L (frame (StartThinking i sig)) = Some (Some \<lparr>bp_type = ''thinking'', bp_text = '''', bp_id = '''', bp_name = ''''\<rparr>)"
    and read_tool: "cl_block L (frame (StartToolUse i tid name)) =
      Some (Some \<lparr>bp_type = ''tool_use'', bp_text = '''', bp_id = to_valid tid, bp_name = to_valid name\<rparr>)"
    and read_delta_text: "cl_delta L (frame (DeltaText i t)) =
      Some (Some \<lparr>dp_type = ''text_delta'', dp_text = Some (to_valid t), dp_partial = None, dp_thinking = None\<rparr>)"
    and read_delta_input: "cl_delta L (frame (DeltaInputJSON i t)) =
      Some (Some \<lparr>dp_type = ''input_json_delta'', dp_text = None, dp_partial = Some (to_valid t), dp_thinking = None\<rparr>)"
    and read_delta_thinking: "cl_delta L (frame (DeltaThinking i t)) =
      Some (Some \<lparr>dp_type = ''thinking_delta'', dp_text = None, dp_partial = None, dp_thinking = Some (to_valid t)\<rparr>)"
    and read_stop: "cl_stop L (frame (MessageDelta r n)) = Some (Some (to_valid r))"
begin

lemma no_slow_chunk:
  "chunk_body idx e = None \<Longrightarrow> buildOpenAIChunkSlowWithHint L msgID created (event_name e) (frame e) hint idx = None"
  by (cases e) (simp_all add: buildOpenAIChunkSlowWithHint_def slow_parts_def read_text read_thinking newOpenAIChunk_def
      delta_empty_def Let_def del: frame.simps)

lemma string_encoded: "appendOpenAIJSONString L dst v = Some (dst @ (if list_all plain_char v then in_quotes v else json_Marshal v))"
  by (simp add: appendOpenAIJSONString_def marshal_string)

lemma conversion:
  "AppendOpenAIChunkWithHint L dst msgID created (event_name e) (frame e) hint idx
    = (case chunk_body idx e of None \<Rightarrow> None | Some body \<Rightarrow> chunk_with body L dst msgID created (chunk_model hint e))"
proof -
  have f: "appendOpenAIChunkFastWithHint L dst msgID created (event_name e) (frame e) hint idx
    = (case chunk_body idx e of None \<Rightarrow> None | Some body \<Rightarrow> chunk_with body L dst msgID created (chunk_model hint e))"
    by (rule fast_path)
  show ?thesis
    using f no_slow_chunk [of idx e msgID created hint]
    by (cases "chunk_body idx e") (auto simp: AppendOpenAIChunkWithHint_def chunk_with_def appendOpenAIChunkPrefix_def string_encoded)
qed

text \<open>The slow path encodes the same chunk, for text in UTF-8 and a model without special characters.\<close>

lemma slow_chunk:
  assumes "literal model" and "valid_event e = e" and "chunk_body idx e = Some body"
    and "\<And>i name. e \<noteq> StartToolUse i '''' name" and "\<And>r n. e = MessageDelta r n \<Longrightarrow> trim_space r = r"
  shows "buildOpenAIChunkSlowWithHint L msgID created (event_name e) (frame e) (setModelHint model) idx
      = Some (openAIChunkIDPrefix @ json_Marshal msgID @ openAIChunkObjectCreated @ itoa created @ openAIChunkModelPrefix
        @ (if chunk_model (setModelHint model) e \<noteq> '''' then chunk_model (setModelHint model) e else in_quotes '''')
        @ openAIChunkChoicesPrefix @ body)"
proof -
  have q: "json_Marshal v \<noteq> ''''" for v by (simp add: json_Marshal_def)
  have hint: "(if 2 \<le> length (setModelHint model) \<and> unquoteIfQuoted (setModelHint model) \<noteq> '''' then unquoteIfQuoted (setModelHint model) else '''') = model"
    by (simp add: setModelHint_def in_quotes_def unquoteIfQuoted_def)
  have "json_Marshal model = (if setModelHint model \<noteq> '''' then setModelHint model else in_quotes '''')"
    using json_Marshal_literal [OF assms(1)] json_Marshal_Nil by (simp add: setModelHint_def in_quotes_def)
  moreover have "tid \<noteq> ''''" if "e = StartToolUse i tid name" for i tid name using assms(4) that by blast
  ultimately show ?thesis
    using assms(2,3,5) hint q
    by (cases e) (simp_all add: buildOpenAIChunkSlowWithHint_def slow_parts_def marshal_chunk read_start read_start_no_usage read_tool
        read_delta_text read_delta_input read_delta_thinking read_stop newOpenAIChunk_def delta_empty_def chunk_text_shape
        body_simps stop_quoted Let_def del: frame.simps)
qed

end

section \<open>A codec\<close>

text \<open>The reader of compact JSON, and structures filled from the fields it finds.\<close>

primrec find_field :: "string \<Rightarrow> fields \<Rightarrow> json option" where
  "find_field k NoField = None"
| "find_field k (Field k' v fs) = (if k' = k then Some v else find_field k fs)"

definition text_field :: "string \<Rightarrow> fields \<Rightarrow> string option" where
  "text_field k fs = (case find_field k fs of Some (JStr s) \<Rightarrow> Some s | _ \<Rightarrow> None)"

definition read_part :: "string \<Rightarrow> (fields \<Rightarrow> 'a) \<Rightarrow> string \<Rightarrow> 'a option option" where
  "read_part k f s = (case parse_json s of
     Some (JObj fs) \<Rightarrow> Some (case find_field k fs of Some (JObj p) \<Rightarrow> Some (f p) | _ \<Rightarrow> None)
   | _ \<Rightarrow> None)"

definition reader_codec :: chunk_lib where
  "reader_codec = \<lparr>cl_string = (\<lambda>v. Some (json_Marshal v)), cl_chunk = (\<lambda>c. Some (chunk_text c)),
     cl_message = read_part ''message'' (\<lambda>p. or_else '''' (text_field ''model'' p)),
     cl_block = read_part ''content_block'' (\<lambda>p. \<lparr>bp_type = or_else '''' (text_field ''type'' p), bp_text = or_else '''' (text_field ''text'' p),
       bp_id = or_else '''' (text_field ''id'' p), bp_name = or_else '''' (text_field ''name'' p)\<rparr>),
     cl_delta = read_part ''delta'' (\<lambda>p. \<lparr>dp_type = or_else '''' (text_field ''type'' p), dp_text = text_field ''text'' p,
       dp_partial = text_field ''partial_json'' p, dp_thinking = text_field ''thinking'' p\<rparr>),
     cl_stop = (\<lambda>s. Option.bind (read_part ''delta'' (text_field ''stop_reason'') s) (\<lambda>x. Some (Option.bind x (\<lambda>y. y))))\<rparr>"

lemma parse_frame: "parse_json (frame e) = Some (document (valid_event e))"
  by (simp add: frame_emit parse_emit valid_document)

interpretation codec: chunk_codec reader_codec
  by unfold_locales
    (simp_all add: reader_codec_def read_part_def parse_frame text_field_def block_start_def block_delta_def or_else_def del: frame.simps)

section \<open>The conversion as a whole\<close>

text \<open>
  The conversion of every event that the gateway builds: message starts, tool starts, deltas
  and the stop reason become the chunk that says the same, other events are not written at all.
\<close>

theorem events_to_chunks:
  assumes "chunk_codec L" and "v_openai V" and "v_chunk V = writeOpenAISSEBytes L None msgID created hint idx"
  shows "v_chunk V (event_name e) (frame e) = map_option (\<lambda>body. openAIChunkIDPrefix
        @ (if list_all plain_char msgID then in_quotes msgID else json_Marshal msgID) @ openAIChunkObjectCreated @ itoa created
        @ openAIChunkModelPrefix @ (if chunk_model hint e \<noteq> '''' then chunk_model hint e else in_quotes '''')
        @ openAIChunkChoicesPrefix @ body) (chunk_body idx e)
    \<and> send V (Built e) imm w = (if chunk_body idx e = None then w else put V (Built e) imm w)"
proof -
  note c = chunk_codec.conversion [OF assms(1)] chunk_codec.string_encoded [OF assms(1)]
  have "v_chunk V (event_name e) (frame e) = map_option (\<lambda>body. openAIChunkIDPrefix
      @ (if list_all plain_char msgID then in_quotes msgID else json_Marshal msgID) @ openAIChunkObjectCreated @ itoa created
      @ openAIChunkModelPrefix @ (if chunk_model hint e \<noteq> '''' then chunk_model hint e else in_quotes '''')
      @ openAIChunkChoicesPrefix @ body) (chunk_body idx e)"
    by (cases "chunk_body idx e")
      (simp_all add: assms(3) writeOpenAISSEBytes_def c chunk_with_def appendOpenAIChunkPrefix_def del: frame.simps)
  then show ?thesis using assms(2) by (auto simp: send_def simp del: frame.simps)
qed

definition openai_stream :: stream_env where
  "openai_stream = \<lparr>v_isStream = True, v_suppressThinking = False, v_openai = True,
     v_chunk = writeOpenAISSEBytes reader_codec None ''msg'' 7 (setModelHint ''m'') 0, v_ok = (\<lambda>n. True),
     v_json = \<lparr>jl_fields = (\<lambda>s. None), jl_string = (\<lambda>s. None), jl_any = (\<lambda>s. None), jl_marshal = (\<lambda>v. None), jl_allowed = (\<lambda>s. None)\<rparr>,
     v_marshal = (\<lambda>ev. None), v_workdir = '''', v_normalize = Pair, v_clientTools = [], v_allowedTools = [],
     v_disallowTools = False, v_msgID = ''msg''\<rparr>"

theorem events_to_chunks_witness:
  "v_chunk openai_stream ''content_block_delta'' (frame (DeltaText 3 (in_quotes ''text'' @ '':''))) \<noteq> None
   \<and> send openai_stream (Built (BlockStop 3)) True (sh_wire newStreamHandler) = sh_wire newStreamHandler"
proof -
  have V: "v_openai openai_stream" "v_chunk openai_stream = writeOpenAISSEBytes reader_codec None ''msg'' 7 (setModelHint ''m'') 0"
    by (simp_all add: openai_stream_def)
  note e = events_to_chunks [OF codec.chunk_codec_axioms V]
  from e [of "DeltaText 3 (in_quotes ''text'' @ '':'')"] e [of "BlockStop 3" True "sh_wire newStreamHandler"] show ?thesis by (simp del: frame.simps)
qed

text \<open>
  Property C8. Fast and slow path agree on every event that the gateway builds from text in UTF-8, when the
  identifier and the model need no escapes, the identifier of a tool is there and the stop reason has
  no blanks around it.
\<close>

theorem paths_agree:
  assumes "chunk_codec L" and "literal msgID" and "literal model" and "valid_event e = e"
    and "\<forall>i name. e \<noteq> StartToolUse i '''' name" and "\<forall>r n. e = MessageDelta r n \<longrightarrow> trim_space r = r"
  shows "buildOpenAIChunkSlowWithHint L msgID created (event_name e) (frame e) (setModelHint model) idx
    = appendOpenAIChunkFastWithHint L [] msgID created (event_name e) (frame e) (setModelHint model) idx"
proof (cases "chunk_body idx e")
  case None
  then show ?thesis using chunk_codec.no_slow_chunk [OF assms(1) None] by (simp add: fast_path del: frame.simps)
next
  case (Some body)
  have "(if list_all plain_char msgID then in_quotes msgID else json_Marshal msgID) = json_Marshal msgID"
    by (simp add: json_Marshal_literal [OF assms(2)] in_quotes_def)
  then have "appendOpenAIJSONString L dst msgID = Some (dst @ json_Marshal msgID)" for dst
    by (simp add: chunk_codec.string_encoded [OF assms(1)])
  moreover have "\<And>i name. e \<noteq> StartToolUse i '''' name" "\<And>r n. e = MessageDelta r n \<Longrightarrow> trim_space r = r" using assms(5,6) by blast+
  note slow = chunk_codec.slow_chunk [OF assms(1,3,4) Some this]
  ultimately show ?thesis using Some slow
    by (simp add: fast_path chunk_with_def appendOpenAIChunkPrefix_def del: frame.simps)
qed

theorem paths_agree_witness:
  "buildOpenAIChunkSlowWithHint reader_codec ''msg'' 7 ''content_block_delta'' (frame (DeltaText 0 ''hi'')) (setModelHint ''m'') 0
    = appendOpenAIChunkFastWithHint reader_codec [] ''msg'' 7 ''content_block_delta'' (frame (DeltaText 0 ''hi'')) (setModelHint ''m'') 0"
proof -
  have "literal ''msg''" "literal ''m''" "literal ''hi''" by (simp_all add: literal_def safe_byte_def)
  then show ?thesis
    using paths_agree [OF codec.chunk_codec_axioms, of "''msg''" "''m''" "DeltaText 0 ''hi''" 7 0] by (simp add: to_valid_literal del: frame.simps)
qed

section \<open>The entry points without hints, and the size that is reserved\<close>

definition appendOpenAIChunkFast :: "chunk_lib \<Rightarrow> string \<Rightarrow> string \<Rightarrow> int \<Rightarrow> string \<Rightarrow> string \<Rightarrow> string option" where
  "appendOpenAIChunkFast L dst msgID created event data = appendOpenAIChunkFastWithHint L dst msgID created event data '''' 0"

definition buildOpenAIChunkSlow :: "chunk_lib \<Rightarrow> string \<Rightarrow> int \<Rightarrow> string \<Rightarrow> string \<Rightarrow> string option" where
  "buildOpenAIChunkSlow L msgID created event data = buildOpenAIChunkSlowWithHint L msgID created event data '''' 0"

definition AppendOpenAIChunk :: "chunk_lib \<Rightarrow> string \<Rightarrow> string \<Rightarrow> int \<Rightarrow> string \<Rightarrow> string \<Rightarrow> string option" where
  "AppendOpenAIChunk L dst msgID created event data = (case appendOpenAIChunkFast L dst msgID created event data of
     Some raw \<Rightarrow> Some raw
   | None \<Rightarrow> map_option ((@) dst) (buildOpenAIChunkSlow L msgID created event data))"

definition BuildOpenAIChunk :: "chunk_lib \<Rightarrow> string \<Rightarrow> int \<Rightarrow> string \<Rightarrow> string \<Rightarrow> string option" where
  "BuildOpenAIChunk L = AppendOpenAIChunk L ''''"

definition BuildOpenAIChunkWithHint :: "chunk_lib \<Rightarrow> string \<Rightarrow> int \<Rightarrow> string \<Rightarrow> string \<Rightarrow> string \<Rightarrow> int \<Rightarrow> string option" where
  "BuildOpenAIChunkWithHint L = AppendOpenAIChunkWithHint L ''''"

text \<open>The loop that counts digits, and the special case of the least 64-bit number, whose negation overflows.\<close>

fun digit_loop :: "nat \<Rightarrow> nat" where
  "digit_loop v = (if v = 0 then 0 else Suc (digit_loop (v div 10)))"

declare digit_loop.simps [simp del]

definition decimalLenInt64 :: "int \<Rightarrow> nat" where
  "decimalLenInt64 v =
    (if v = 0 then 1
     else if v < 0 then (if v = - (2 ^ 63) then 20 else 1 + digit_loop (nat (- v)))
     else digit_loop (nat v))"

definition estimatedOpenAIChunkPrefixLen :: "string \<Rightarrow> int \<Rightarrow> string \<Rightarrow> nat" where
  "estimatedOpenAIChunkPrefixLen msgID created quotedModel =
     length openAIChunkIDPrefix + length msgID + 2 + length openAIChunkObjectCreated + decimalLenInt64 created
     + length openAIChunkModelPrefix + (if length quotedModel = 0 then 2 else length quotedModel) + length openAIChunkChoicesPrefix"

lemma digit_loop_pos: "0 < n \<Longrightarrow> digit_loop n = length (nat_digits n)"
proof (induction n rule: digit_loop.induct)
  case (1 v)
  then show ?case by (cases "v < 10") (simp_all add: digit_loop.simps [of v] nat_digits.simps [of v] digit_loop.simps [of 0])
qed

lemma decimal_len: "decimalLenInt64 v = length (itoa v)"
proof -
  have "length (itoa (- (2 ^ 63))) = 20" by (simp add: itoa_def nat_digits.simps)
  moreover have "length (itoa 0) = 1" by (simp add: itoa_def nat_digits.simps)
  ultimately show ?thesis by (auto simp: decimalLenInt64_def itoa_def digit_loop_pos)
qed

text \<open>The size that is reserved for the prefix of a chunk is the size that it takes.\<close>

lemma prefix_capacity:
  assumes "appendOpenAIChunkPrefix L dst msgID created quotedModel = Some s" and "list_all plain_char msgID"
  shows "length s = length dst + estimatedOpenAIChunkPrefixLen msgID created quotedModel"
  using assms by (auto simp: appendOpenAIChunkPrefix_def appendOpenAIJSONString_def estimatedOpenAIChunkPrefixLen_def decimal_len in_quotes_def)

end
