(* ===== verification/Codebuff_Stream.thy ===== *)
theory Codebuff_Stream
  imports Stream_Messages Token_Estimator
begin

text \<open>
  The answers of the codebuff upstream, \<open>internal/codebuff/payload.go\<close> and \<open>provider.go\<close>: the decoding of the
  chunks of a stream into messages for the stream handler, the three ways in which a chat is read, and
  the accumulator of a whole completion. The JSON decoder and the order in which Go visits a map are parameters.
\<close>

section \<open>Chunks\<close>

text \<open>The tool calls that were started and not ended, and the identifiers of the calls by their index.\<close>

record parser =
  sp_open :: "string list"
  sp_ids :: "(int, string) gomap"

definition new_parser :: parser where
  "new_parser = \<lparr>sp_open = [], sp_ids = []\<rparr>"

definition message :: "string \<Rightarrow> any_map \<Rightarrow> sse_message" where
  "message t ev = \<lparr>ms_Type = t, ms_Event = Some ev, ms_RawJSON = ''''\<rparr>"

definition mapFinishReason :: "string \<Rightarrow> string" where
  "mapFinishReason reason = (let r = to_lower (trim_space reason) in
     if r = ''stop'' then ''end_turn''
     else if r = ''length'' then ''max_tokens''
     else if r = ''tool_calls'' then ''tool_use''
     else if r = ''content_filter'' then ''content_filter''
     else if r = ''insufficient_quota'' \<or> r = ''quota_exceeded'' then ''quota''
     else ''end_turn'')"

definition text_messages :: "string \<Rightarrow> sse_message list" where
  "text_messages content = (if content = '''' then []
     else [message ''model.text-start'' [], message ''model.text-delta'' [(''delta'', AStr content)], message ''model.text-end'' []])"

definition thinking_messages :: "string \<Rightarrow> sse_message list" where
  "thinking_messages reasoning = (if reasoning = '''' then [] else [message ''model.thinking'' [(''delta'', AStr reasoning)]])"

definition tool_start :: "string \<Rightarrow> string \<Rightarrow> sse_message" where
  "tool_start i name = message ''model.tool-input-start'' [(''id'', AStr i), (''toolName'', AStr name)]"

definition tool_piece :: "string \<Rightarrow> string \<Rightarrow> sse_message" where
  "tool_piece i args = message ''model.tool-input-delta'' [(''id'', AStr i), (''delta'', AStr args)]"

definition tool_end :: "string \<Rightarrow> sse_message" where
  "tool_end i = message ''model.tool-input-end'' [(''id'', AStr i)]"

text \<open>One entry of \<open>tool_calls\<close>: the messages so far, the identifiers that this chunk mentions and the parser.\<close>

definition tool_delta :: "any \<Rightarrow> sse_message list \<times> string list \<times> parser \<Rightarrow> sse_message list \<times> string list \<times> parser" where
  "tool_delta tc st = (case tc of
     AMap toolCall \<Rightarrow> (case st of (msgs, mentioned, sp) \<Rightarrow>
       let i = or_else '''' (str_field toolCall ''id'');
           idx = f_to_int (or_else 0 (num_field toolCall ''index''));
           fn = or_else [] (map_field toolCall ''function'');
           name = or_else '''' (str_field fn ''name'');
           args = or_else '''' (str_field fn ''arguments'');
           sp = (if i \<noteq> '''' then sp\<lparr>sp_ids := gm_put idx i (sp_ids sp)\<rparr> else sp);
           i = (if i \<noteq> '''' then i else or_else '''' (gm_get (sp_ids sp) idx));
           mentioned = (if i \<noteq> '''' then i # mentioned else mentioned);
           fresh = (i \<noteq> '''' \<and> i \<notin> set (sp_open sp));
           msgs = (if fresh then msgs @ [tool_start i name] else msgs);
           sp = (if fresh then sp\<lparr>sp_open := i # sp_open sp\<rparr> else sp);
           msgs = (if args \<noteq> '''' then msgs @ [tool_piece i args] else msgs)
       in (msgs, mentioned, sp))
   | _ \<Rightarrow> st)"

text \<open>The calls that are not among \<open>keep\<close> are ended, in the order in which the map is visited.\<close>

definition end_tools :: "(string list \<Rightarrow> string list) \<Rightarrow> string list \<Rightarrow> parser \<Rightarrow> sse_message list \<times> parser" where
  "end_tools ord keep sp =
     (map tool_end (filter (\<lambda>i. i \<notin> set keep) (ord (sp_open sp))), sp\<lparr>sp_open := filter (\<lambda>i. i \<in> set keep) (sp_open sp)\<rparr>)"

definition tool_messages :: "(string list \<Rightarrow> string list) \<Rightarrow> any_map \<Rightarrow> parser \<Rightarrow> sse_message list \<times> parser" where
  "tool_messages ord delta sp = (case gm_get delta ''tool_calls'' of
     Some (AList toolCalls) \<Rightarrow>
       if toolCalls = [] then ([], sp)
       else (case fold tool_delta toolCalls ([], [], sp) of (msgs, mentioned, sp) \<Rightarrow>
         case end_tools ord mentioned sp of (ends, sp) \<Rightarrow> (msgs @ ends, sp))
   | _ \<Rightarrow> ([], sp))"

text \<open>The usage is a \<open>map[string]int\<close> with every number under two names.\<close>

definition usage_of :: "any_map \<Rightarrow> (string \<times> int) list" where
  "usage_of chunk = (let u = or_else [] (map_field chunk ''usage'') in
     (case num_field u ''prompt_tokens'' of Some pt \<Rightarrow> [(''inputTokens'', f_to_int pt), (''input_tokens'', f_to_int pt)] | None \<Rightarrow> [])
   @ (case num_field u ''completion_tokens'' of Some ct \<Rightarrow> [(''outputTokens'', f_to_int ct), (''output_tokens'', f_to_int ct)] | None \<Rightarrow> []))"

definition finish_messages :: "(string list \<Rightarrow> string list) \<Rightarrow> any_map \<Rightarrow> any_map \<Rightarrow> parser \<Rightarrow> sse_message list \<times> parser" where
  "finish_messages ord chunk choice sp =
    (let reason = or_else '''' (str_field choice ''finish_reason'') in
     if reason = '''' then ([], sp)
     else (case end_tools ord [] sp of (ends, sp) \<Rightarrow>
       (ends @ [message ''model.finish'' [(''finishReason'', AStr (mapFinishReason reason)), (''usage'', AIntMap (usage_of chunk))]], sp)))"

definition decodeChunk :: "(string list \<Rightarrow> string list) \<Rightarrow> any_map \<Rightarrow> parser \<Rightarrow> sse_message list \<times> parser" where
  "decodeChunk ord chunk sp = (case gm_get chunk ''choices'' of
     Some (AList (AMap choice # _)) \<Rightarrow>
       (let delta = or_else [] (map_field choice ''delta'') in
        case tool_messages ord delta sp of (tools, sp) \<Rightarrow>
        case finish_messages ord chunk choice sp of (ends, sp) \<Rightarrow>
          (text_messages (or_else '''' (str_field delta ''content''))
           @ thinking_messages (or_else '''' (str_field delta ''reasoning_content'')) @ tools @ ends, sp))
   | _ \<Rightarrow> ([], sp))"

section \<open>Lines\<close>

datatype read = Messages "sse_message list" | EndOfStream | ReadFailed string

text \<open>
  \<open>Next\<close> over the complete lines that are left; after them the reader reports the end or an error, and what
  it read of an incomplete line is dropped. \<open>json\<close> decodes an object or gives an error.
\<close>

fun parser_Next :: "(string \<Rightarrow> string + any_map) \<Rightarrow> (string list \<Rightarrow> string list) \<Rightarrow> string option \<Rightarrow> string list \<Rightarrow> parser
    \<Rightarrow> read \<times> string list \<times> parser" where
  "parser_Next json ord ending [] sp = (case ending of None \<Rightarrow> EndOfStream | Some e \<Rightarrow> ReadFailed e, [], sp)"
| "parser_Next json ord ending (line # rest) sp =
    (let line = trim_space line in
     if line = '''' \<or> \<not> has_prefix line ''data: '' then parser_Next json ord ending rest sp
     else let data = drop 6 line in
       if data = ''[DONE]'' then (EndOfStream, rest, sp)
       else (case json data of
           Inl e \<Rightarrow> (ReadFailed (''failed to parse SSE chunk: '' @ e), rest, sp)
         | Inr chunk \<Rightarrow> (case decodeChunk ord chunk sp of
              (msgs, sp) \<Rightarrow> if msgs \<noteq> [] then (Messages msgs, rest, sp) else parser_Next json ord ending rest sp)))"

section \<open>A streamed chat\<close>

text \<open>
  What a chat does besides its answer: the messages it hands on, the records of telemetry (rejected by a 429,
  failed, tokens), the message identifiers with which the run is finalised and the errors that are looked at
  for a block.
\<close>

record chat_log =
  lg_messages :: "sse_message list"
  lg_telemetry :: "(bool \<times> bool \<times> int) list"
  lg_finalized :: "string list"
  lg_blocks :: "string list"

definition no_log :: chat_log where
  "no_log = \<lparr>lg_messages = [], lg_telemetry = [], lg_finalized = [], lg_blocks = []\<rparr>"

definition rejected :: "string \<Rightarrow> chat_log" where
  "rejected e = no_log\<lparr>lg_telemetry := [(True, False, 0)], lg_blocks := [e]\<rparr>"

definition counted :: "sse_message \<Rightarrow> estimator \<Rightarrow> estimator" where
  "counted m est = (if ms_Type m = ''model.text-delta'' \<or> ms_Type m = ''model.thinking''
     then (case str_field (event_of m) ''delta'' of Some d \<Rightarrow> Add d est | None \<Rightarrow> est) else est)"

definition exact_total :: "sse_message \<Rightarrow> int option" where
  "exact_total m = (case Option.bind (map_field (event_of m) ''usage'') (\<lambda>u. gm_get u ''totalTokens'') of
     Some (AInt n) \<Rightarrow> if 0 < n then Some n else None
   | _ \<Rightarrow> None)"

text \<open>The messages of one chunk, up to the one that finishes the chat; then the tokens to record.\<close>

fun forward :: "sse_message list \<Rightarrow> estimator \<Rightarrow> sse_message list \<times> estimator \<times> int option" where
  "forward [] est = ([], est, None)"
| "forward (m # ms) est =
    (let est = counted m est in
     if ms_Type m = ''model.finish'' then ([m], est, Some (case exact_total m of Some n \<Rightarrow> n | None \<Rightarrow> Count est))
     else (case forward ms est of (sent, est, fin) \<Rightarrow> (m # sent, est, fin)))"

lemma parser_Next_shorter: "parser_Next json ord ending lines sp = (Messages msgs, rest, sp') \<Longrightarrow> length rest < length lines"
  by (induction lines arbitrary: sp)
    (auto simp: Let_def less_Suc_eq split: if_splits sum.splits prod.splits option.splits)

function stream_loop :: "(string \<Rightarrow> string + any_map) \<Rightarrow> (string list \<Rightarrow> string list) \<Rightarrow> string option \<Rightarrow> string list \<Rightarrow> parser
    \<Rightarrow> estimator \<Rightarrow> chat_log \<Rightarrow> chat_log \<times> string option" where
  "stream_loop json ord ending lines sp est acc =
    (case parser_Next json ord ending lines sp of
       (EndOfStream, _) \<Rightarrow> (acc\<lparr>lg_telemetry := lg_telemetry acc @ [(False, False, Count est)], lg_finalized := lg_finalized acc @ ['''']\<rparr>, None)
     | (ReadFailed e, _) \<Rightarrow> (acc\<lparr>lg_telemetry := lg_telemetry acc @ [(False, True, Count est)], lg_finalized := lg_finalized acc @ ['''']\<rparr>,
         Some (''codebuff stream error: '' @ e))
     | (Messages msgs, rest, sp) \<Rightarrow> (case forward msgs est of
          (sent, est, fin) \<Rightarrow>
            let acc = acc\<lparr>lg_messages := lg_messages acc @ sent\<rparr> in
            (case fin of
               Some tokens \<Rightarrow>
                 (acc\<lparr>lg_telemetry := lg_telemetry acc @ [(False, False, tokens)], lg_finalized := lg_finalized acc @ ['''']\<rparr>, None)
             | None \<Rightarrow> stream_loop json ord ending rest sp est acc)))"
  by pat_completeness auto
termination
  by (relation "measure (\<lambda>(json, ord, ending, lines, sp, est, acc). length lines)")
    (auto dest: parser_Next_shorter [OF sym])

declare stream_loop.simps [simp del]

text \<open>\<open>body\<close> is what the request gives: an error, or the lines of the answer and how it ended.\<close>

definition streamChat :: "(string \<Rightarrow> string + any_map) \<Rightarrow> (string list \<Rightarrow> string list) \<Rightarrow> string + (string list \<times> string option)
    \<Rightarrow> chat_log \<times> string option" where
  "streamChat json ord body = (case body of
     Inl e \<Rightarrow> (rejected e, Some e)
   | Inr (lines, ending) \<Rightarrow> stream_loop json ord ending lines new_parser new_estimator no_log)"

section \<open>A raw stream\<close>

text \<open>
  The lines of the answer as the scanner gives them. The two decoders read the text, the reasoning and the total
  of a chunk, and its identifier.
\<close>

datatype raw_write = RawData string | RawEvent string

record raw_counts =
  rc_estimator :: estimator
  rc_usage :: int
  rc_id :: string

record raw_lib =
  rl_tokens :: "string \<Rightarrow> ((string \<times> string) option \<times> int option) option"
  rl_chunk_id :: "string \<Rightarrow> string option"

definition accumulateTokensFromChunk :: "raw_lib \<Rightarrow> string \<Rightarrow> raw_counts \<Rightarrow> raw_counts" where
  "accumulateTokensFromChunk R data n = (case rl_tokens R data of
     None \<Rightarrow> n
   | Some (choice, usage) \<Rightarrow>
       let n = (case choice of Some (content, reasoning) \<Rightarrow>
              n\<lparr>rc_estimator := Add reasoning (Add content (rc_estimator n))\<rparr> | None \<Rightarrow> n)
       in (case usage of Some u \<Rightarrow> if 0 < u then n\<lparr>rc_usage := u\<rparr> else n | None \<Rightarrow> n))"

definition note_chunk_id :: "raw_lib \<Rightarrow> string \<Rightarrow> raw_counts \<Rightarrow> raw_counts" where
  "note_chunk_id R data n =
    (if rc_id n = '''' then (case rl_chunk_id R data of Some i \<Rightarrow> n\<lparr>rc_id := i\<rparr> | None \<Rightarrow> n) else n)"

definition tool_calls_finish :: string where \<open>tool_calls_finish = ''"finish_reason":"tool_calls"''\<close>
definition stop_finish :: string where \<open>stop_finish = ''"finish_reason":"stop"''\<close>

text \<open>The flag says that a finish for tool calls was passed on.\<close>

fun raw_loop :: "raw_lib \<Rightarrow> string option \<Rightarrow> string list \<Rightarrow> bool \<Rightarrow> raw_counts \<Rightarrow> raw_write list \<times> raw_counts \<times> string option" where
  "raw_loop R ending [] saw n = ([], n, ending)"
| "raw_loop R ending (line # rest) saw n =
    (if has_prefix line ''data: '' then
       (let data = drop 6 line in
        if data = ''[DONE]'' then ([RawData data], n, None)
        else if saw \<and> contains data stop_finish then raw_loop R ending rest saw n
        else (case raw_loop R ending rest (saw \<or> contains data tool_calls_finish)
               (note_chunk_id R data (accumulateTokensFromChunk R data n)) of
            (ws, n, e) \<Rightarrow> (RawData data # ws, n, e)))
     else if has_prefix line ''event: '' then
       (case raw_loop R ending rest saw n of (ws, n, e) \<Rightarrow> (RawEvent (drop 7 line) # ws, n, e))
     else raw_loop R ending rest saw n)"

definition raw_tokens :: "raw_counts \<Rightarrow> int" where
  "raw_tokens n = (if 0 < rc_usage n then rc_usage n else Count (rc_estimator n))"

definition streamChatRaw :: "raw_lib \<Rightarrow> string + (string list \<times> string option) \<Rightarrow> raw_write list \<times> chat_log \<times> string option" where
  "streamChatRaw R body = (case body of
     Inl e \<Rightarrow> ([], rejected e, Some e)
   | Inr (lines, ending) \<Rightarrow>
       (case raw_loop R ending lines False \<lparr>rc_estimator = new_estimator, rc_usage = 0, rc_id = ''''\<rparr> of
          (ws, n, e) \<Rightarrow> (ws, no_log\<lparr>lg_telemetry := [(False, e \<noteq> None, raw_tokens n)], lg_finalized := [rc_id n]\<rparr>,
            map_option ((@) ''codebuff stream error: '') e)))"

section \<open>A whole completion\<close>

text \<open>What is decoded of the answer: nothing of a choice when there is none.\<close>

record completion =
  cn_id :: string
  cn_choice :: "(string \<times> string \<times> string) option"
  cn_prompt :: int
  cn_completion :: int
  cn_total :: int

definition completion_messages :: "completion \<Rightarrow> sse_message list" where
  "completion_messages c = (case or_else ('''', '''', '''') (cn_choice c) of
     (content, reasoning, reason) \<Rightarrow> text_messages content @ thinking_messages reasoning
       @ [message ''model.finish'' [(''finishReason'', AStr reason),
            (''usage'', AIntMap [(''inputTokens'', cn_prompt c), (''outputTokens'', cn_completion c), (''totalTokens'', cn_total c)])]])"

definition completeChat :: "(string \<Rightarrow> string + completion) \<Rightarrow> string + string \<Rightarrow> chat_log \<times> string option" where
  "completeChat json body = (case body of
     Inl e \<Rightarrow> (rejected e, Some e)
   | Inr text \<Rightarrow> (case json text of
        Inl e \<Rightarrow> (no_log\<lparr>lg_telemetry := [(False, True, 0)]\<rparr>, Some (''codebuff completion decode error: '' @ e))
      | Inr c \<Rightarrow> (no_log\<lparr>lg_messages := completion_messages c, lg_telemetry := [(False, False, cn_total c)], lg_finalized := [cn_id c]\<rparr>, None)))"

section \<open>Tool calls are bracketed\<close>

text \<open>
  A reader of the messages: a call is started when it is not open, ended when it is, gets pieces while it is
  open, and no call is open at the finish. A piece without identifier belongs to no call.
\<close>

definition msg_id :: "sse_message \<Rightarrow> string" where
  "msg_id m = or_else '''' (str_field (event_of m) ''id'')"

definition tool_step :: "sse_message \<Rightarrow> string set option \<Rightarrow> string set option" where
  "tool_step m st = (case st of None \<Rightarrow> None | Some opened \<Rightarrow>
     if ms_Type m = ''model.tool-input-start'' then (if msg_id m = '''' \<or> msg_id m \<in> opened then None else Some (insert (msg_id m) opened))
     else if ms_Type m = ''model.tool-input-delta'' then (if msg_id m = '''' \<or> msg_id m \<in> opened then Some opened else None)
     else if ms_Type m = ''model.tool-input-end'' then (if msg_id m \<in> opened then Some (opened - {msg_id m}) else None)
     else if ms_Type m = ''model.finish'' then (if opened = {} then Some {} else None)
     else Some opened)"

definition tool_reader :: "sse_message list \<Rightarrow> string set option \<Rightarrow> string set option" where
  "tool_reader ms = fold tool_step ms"

text \<open>The order in which the parser visits its open calls.\<close>

definition visits_all :: "(string list \<Rightarrow> string list) \<Rightarrow> bool" where
  "visits_all ord \<longleftrightarrow> (\<forall>xs. set (ord xs) = set xs \<and> (distinct xs \<longrightarrow> distinct (ord xs)))"

definition parser_ok :: "parser \<Rightarrow> bool" where
  "parser_ok sp \<longleftrightarrow> distinct (sp_open sp) \<and> '''' \<notin> set (sp_open sp)"

lemma tool_reader_simps [simp]:
  "tool_reader [] st = st" "tool_reader (m # ms) st = tool_reader ms (tool_step m st)"
  "tool_reader (ms @ ms') st = tool_reader ms' (tool_reader ms st)" "tool_reader ms None = None"
proof -
  show "tool_reader ms None = None" by (induction ms) (simp_all add: tool_reader_def tool_step_def)
qed (simp_all add: tool_reader_def)

lemma message_simps [simp]:
  "ms_Type (message t ev) = t" "event_of (message t ev) = ev" "ms_Event (message t ev) = Some ev" "ms_RawJSON (message t ev) = ''''"
  by (simp_all add: message_def event_of_def)

lemma msg_id_simps [simp]: "msg_id (tool_start i name) = i" "msg_id (tool_piece i args) = i" "msg_id (tool_end i) = i"
  by (simp_all add: msg_id_def tool_start_def tool_piece_def tool_end_def str_field_def)

lemma tool_types [simp]: "ms_Type (tool_start i name) = ''model.tool-input-start''" "ms_Type (tool_piece i args) = ''model.tool-input-delta''"
  "ms_Type (tool_end i) = ''model.tool-input-end''"
  by (simp_all add: tool_start_def tool_piece_def tool_end_def)

lemma reads_texts [simp]: "tool_reader (text_messages t) st = st" "tool_reader (thinking_messages r) st = st"
  by (cases st; simp add: text_messages_def thinking_messages_def tool_step_def)+

definition bracketed :: "sse_message list \<Rightarrow> parser \<Rightarrow> parser \<Rightarrow> bool" where
  "bracketed ms sp sp' \<longleftrightarrow> parser_ok sp' \<and> tool_reader ms (Some (set (sp_open sp))) = Some (set (sp_open sp'))"

lemma tool_delta_bracketed:
  assumes "bracketed ms sp0 sp" and "set mentioned \<subseteq> set (sp_open sp)" and "tool_delta tc (ms, mentioned, sp) = (ms', mentioned', sp')"
  shows "bracketed ms' sp0 sp' \<and> set mentioned' \<subseteq> set (sp_open sp')"
  using assms
  by (auto simp: tool_delta_def bracketed_def parser_ok_def Let_def tool_step_def split: any.splits if_splits)

lemma tool_deltas_bracketed:
  assumes "bracketed ms sp0 sp" and "set mentioned \<subseteq> set (sp_open sp)" and "fold tool_delta tcs (ms, mentioned, sp) = (ms', mentioned', sp')"
  shows "bracketed ms' sp0 sp' \<and> set mentioned' \<subseteq> set (sp_open sp')"
  using assms
proof (induction tcs arbitrary: ms mentioned sp)
  case (Cons tc tcs)
  obtain ms1 m1 sp1 where t: "tool_delta tc (ms, mentioned, sp) = (ms1, m1, sp1)" by (cases "tool_delta tc (ms, mentioned, sp)") auto
  have "fold tool_delta tcs (ms1, m1, sp1) = (ms', mentioned', sp')" using Cons.prems(3) t by simp
  with Cons.IH tool_delta_bracketed [OF Cons.prems(1,2) t] show ?case by meson
qed simp

lemma reads_ends: "distinct xs \<Longrightarrow> set xs \<subseteq> opened \<Longrightarrow> tool_reader (map tool_end xs) (Some opened) = Some (opened - set xs)"
proof (induction xs arbitrary: opened)
  case (Cons x xs)
  then have "tool_reader (map tool_end xs) (Some (opened - {x})) = Some (opened - {x} - set xs)" by (intro Cons.IH) auto
  also have "opened - {x} - set xs = opened - set (x # xs)" by auto
  finally show ?case using Cons.prems by (simp add: tool_step_def)
qed simp

lemma end_tools_bracketed:
  assumes "visits_all ord" and "parser_ok sp" and "end_tools ord keep sp = (ms, sp')"
  shows "bracketed ms sp sp' \<and> (keep = [] \<longrightarrow> sp_open sp' = [])"
proof -
  let ?xs = "filter (\<lambda>i. i \<notin> set keep) (ord (sp_open sp))"
  have "distinct ?xs" "set ?xs = {i \<in> set (sp_open sp). i \<notin> set keep}" using assms(1,2) by (auto simp: visits_all_def parser_ok_def)
  then have "tool_reader (map tool_end ?xs) (Some (set (sp_open sp))) = Some (set (sp_open sp) - set ?xs)" by (intro reads_ends) auto
  moreover have "set (sp_open sp) - set ?xs = {i \<in> set (sp_open sp). i \<in> set keep}" using \<open>set ?xs = _\<close> by auto
  moreover have "ms = map tool_end ?xs" "sp_open sp' = filter (\<lambda>i. i \<in> set keep) (sp_open sp)" using assms(3) by (auto simp: end_tools_def)
  ultimately show ?thesis using assms(2) by (simp add: bracketed_def parser_ok_def)
qed

lemma bracketed_trans: "bracketed ms sp sp' \<Longrightarrow> bracketed ms' sp' sp'' \<Longrightarrow> bracketed (ms @ ms') sp sp''"
  by (simp add: bracketed_def)

lemma bracketed_refl: "parser_ok sp \<Longrightarrow> bracketed [] sp sp"
  by (simp add: bracketed_def)

lemma tool_messages_shape:
  obtains "tool_messages ord delta sp = ([], sp)"
  | tcs ms mentioned sp1 ends sp2 where "fold tool_delta tcs ([], [], sp) = (ms, mentioned, sp1)" "end_tools ord mentioned sp1 = (ends, sp2)"
      "tool_messages ord delta sp = (ms @ ends, sp2)"
proof (cases "\<exists>tcs. gm_get delta ''tool_calls'' = Some (AList tcs) \<and> tcs \<noteq> []")
  case True
  then obtain tcs where tcs: "gm_get delta ''tool_calls'' = Some (AList tcs)" "tcs \<noteq> []" by blast
  obtain ms mentioned sp1 where f: "fold tool_delta tcs ([], [], sp) = (ms, mentioned, sp1)" by (cases "fold tool_delta tcs ([], [], sp)") auto
  obtain ends sp2 where e: "end_tools ord mentioned sp1 = (ends, sp2)" by (cases "end_tools ord mentioned sp1") auto
  show ?thesis using that(2) [OF f e] tcs f e by (simp add: tool_messages_def)
next
  case False
  then have "tool_messages ord delta sp = ([], sp)" by (auto simp: tool_messages_def split: option.splits any.splits)
  then show ?thesis by (rule that(1))
qed

lemma decode_shape:
  obtains "decodeChunk ord chunk sp = ([], sp)"
  | choice delta tools sp1 ends sp2 where "tool_messages ord delta sp = (tools, sp1)" "finish_messages ord chunk choice sp1 = (ends, sp2)"
      "decodeChunk ord chunk sp = (text_messages (or_else '''' (str_field delta ''content''))
         @ thinking_messages (or_else '''' (str_field delta ''reasoning_content'')) @ tools @ ends, sp2)"
proof (cases "\<exists>choice cs. gm_get chunk ''choices'' = Some (AList (AMap choice # cs))")
  case True
  then obtain choice cs where c: "gm_get chunk ''choices'' = Some (AList (AMap choice # cs))" by blast
  let ?delta = "or_else [] (map_field choice ''delta'')"
  obtain tools sp1 where t: "tool_messages ord ?delta sp = (tools, sp1)" by (cases "tool_messages ord ?delta sp") auto
  obtain ends sp2 where f: "finish_messages ord chunk choice sp1 = (ends, sp2)" by (cases "finish_messages ord chunk choice sp1") auto
  show ?thesis using that(2) [OF t f] c t f by (simp add: decodeChunk_def Let_def)
next
  case False
  then have "decodeChunk ord chunk sp = ([], sp)" by (auto simp: decodeChunk_def split: option.splits any.splits list.splits)
  then show ?thesis by (rule that(1))
qed

lemma tool_messages_bracketed:
  assumes "visits_all ord" and "parser_ok sp" and "tool_messages ord delta sp = (ms, sp')"
  shows "bracketed ms sp sp'"
proof (cases rule: tool_messages_shape [of ord delta sp])
  case 1
  then show ?thesis using assms bracketed_refl by simp
next
  case (2 tcs ms1 mentioned sp1 ends sp2)
  have b: "bracketed ms1 sp sp1" using tool_deltas_bracketed [OF bracketed_refl [OF assms(2)] _ 2(1)] by simp
  then have "bracketed (ms1 @ ends) sp sp2"
    using bracketed_trans [OF b] end_tools_bracketed [OF assms(1) _ 2(2)] by (simp add: bracketed_def)
  then show ?thesis using 2(3) assms(3) by simp
qed

lemma decode_bracketed:
  assumes "visits_all ord" and "parser_ok sp" and "decodeChunk ord chunk sp = (ms, sp')"
  shows "bracketed ms sp sp'"
proof (cases rule: decode_shape [of ord chunk sp])
  case 1
  then show ?thesis using assms bracketed_refl by simp
next
  case (2 choice delta tools sp1 ends sp2)
  have b: "bracketed tools sp sp1" by (rule tool_messages_bracketed [OF assms(1,2) 2(1)])
  then have ok: "parser_ok sp1" by (simp add: bracketed_def)
  have "bracketed ends sp1 sp2"
  proof (cases "or_else '''' (str_field choice ''finish_reason'') = ''''")
    case True
    then show ?thesis using 2(2) ok bracketed_refl by (simp add: finish_messages_def)
  next
    case False
    obtain es sp3 where e: "end_tools ord [] sp1 = (es, sp3)" by (cases "end_tools ord [] sp1") auto
    show ?thesis using False 2(2) e end_tools_bracketed [OF assms(1) ok e]
      by (auto simp: finish_messages_def bracketed_def tool_step_def Let_def)
  qed
  with bracketed_trans [OF b] have "bracketed (tools @ ends) sp sp2" by blast
  then show ?thesis using assms(3) 2(3) by (auto simp: bracketed_def)
qed

text \<open>The line was skipped, maybe after a chunk without messages, or gave the messages.\<close>

lemma next_cases:
  assumes "parser_Next json ord ending (line # lines) sp = (Messages msgs, rest, sp')"
  obtains sp1 where "parser_Next json ord ending lines sp1 = (Messages msgs, rest, sp')" "sp1 = sp \<or> (\<exists>chunk. decodeChunk ord chunk sp = ([], sp1))"
  | chunk where "decodeChunk ord chunk sp = (msgs, sp')"
proof (cases "trim_space line = '''' \<or> \<not> has_prefix (trim_space line) ''data: ''")
  case True
  then show ?thesis using that(1) [of sp] assms by (simp add: Let_def)
next
  case False
  obtain chunk where c: "json (drop 6 (trim_space line)) = Inr chunk"
    using assms False by (cases "json (drop 6 (trim_space line))") (auto simp: Let_def split: if_splits)
  obtain ms sp1 where d: "decodeChunk ord chunk sp = (ms, sp1)" by (cases "decodeChunk ord chunk sp") auto
  show ?thesis
  proof (cases "ms = []")
    case True
    then show ?thesis using that(1) [of sp1] assms False c d by (auto simp: Let_def split: if_splits)
  next
    case ms: False
    then show ?thesis using that(2) [of chunk] assms False c d by (auto simp: Let_def split: if_splits)
  qed
qed

lemma next_bracketed:
  "visits_all ord \<Longrightarrow> parser_ok sp \<Longrightarrow> parser_Next json ord ending lines sp = (Messages msgs, rest, sp') \<Longrightarrow> bracketed msgs sp sp'"
proof (induction lines arbitrary: sp)
  case (Cons line lines)
  show ?case
  proof (cases rule: next_cases [OF Cons.prems(3)])
    case (1 sp1)
    have "bracketed [] sp sp1" using 1(2) decode_bracketed [OF Cons.prems(1,2)] bracketed_refl [OF Cons.prems(2)] by blast
    moreover from this have "bracketed msgs sp1 sp'" using Cons.IH [OF Cons.prems(1) _ 1(1)] by (simp add: bracketed_def)
    ultimately show ?thesis using bracketed_trans by fastforce
  next
    case (2 chunk)
    then show ?thesis using decode_bracketed Cons.prems(1,2) by blast
  qed
qed (simp split: option.splits)

lemma forward_prefix:
  "forward msgs est = (sent, est', fin) \<Longrightarrow> (\<exists>ms. msgs = sent @ ms \<and> (fin = None \<longrightarrow> ms = []))
    \<and> (if fin = None then \<forall>m \<in> set sent. ms_Type m \<noteq> ''model.finish'' else sent \<noteq> [] \<and> ms_Type (last sent) = ''model.finish'')"
proof (induction msgs arbitrary: est sent est' fin)
  case (Cons m ms)
  show ?case
  proof (cases "ms_Type m = ''model.finish''")
    case False
    obtain s e f where r: "forward ms (counted m est) = (s, e, f)" by (cases "forward ms (counted m est)") auto
    then have "sent = m # s" "fin = f" using Cons.prems False by (auto simp: Let_def)
    with Cons.IH [OF r] False show ?thesis by (cases f) auto
  qed (use Cons.prems in \<open>auto simp: Let_def\<close>)
qed simp

definition finished :: "sse_message list \<Rightarrow> bool" where
  "finished ms \<longleftrightarrow> (\<exists>m \<in> set ms. ms_Type m = ''model.finish'')"

lemma reader_finish: "tool_reader (ms @ [m]) st = Some opened \<Longrightarrow> ms_Type m = ''model.finish'' \<Longrightarrow> opened = {}"
  by (auto simp: tool_step_def split: option.splits if_splits)

lemma stream_loop_bracketed:
  assumes "visits_all ord" and "parser_ok sp" and "tool_reader (lg_messages acc) (Some {}) = Some (set (sp_open sp))" and "\<not> finished (lg_messages acc)"
    and "stream_loop json ord ending lines sp est acc = (acc', err)"
  shows "\<exists>opened. tool_reader (lg_messages acc') (Some {}) = Some opened \<and> (finished (lg_messages acc') \<longrightarrow> opened = {})"
  using assms
proof (induction "length lines" arbitrary: lines sp est acc rule: less_induct)
  case less
  obtain r rest sp1 where n: "parser_Next json ord ending lines sp = (r, rest, sp1)" by (cases "parser_Next json ord ending lines sp") auto
  show ?case
  proof (cases r)
    case (Messages msgs)
    have b: "bracketed msgs sp sp1" using next_bracketed less.prems(1,2) n Messages by blast
    obtain sent est1 fin where f: "forward msgs est = (sent, est1, fin)" by (cases "forward msgs est") auto
    obtain ms where ms: "msgs = sent @ ms" "fin = None \<longrightarrow> ms = []" using forward_prefix [OF f] by blast
    have r: "tool_reader msgs (Some (set (sp_open sp))) = Some (set (sp_open sp1))" using b by (simp add: bracketed_def)
    show ?thesis
    proof (cases fin)
      case None
      have acc: "stream_loop json ord ending rest sp1 est1 (acc\<lparr>lg_messages := lg_messages acc @ sent\<rparr>) = (acc', err)"
        using less.prems(5) n Messages f None by (simp add: stream_loop.simps [of json ord ending lines] Let_def)
      have "length rest < length lines" using parser_Next_shorter n Messages by blast
      moreover have "parser_ok sp1" using b by (simp add: bracketed_def)
      moreover have "\<not> finished sent" using forward_prefix [OF f] None by (auto simp: finished_def)
      ultimately show ?thesis using less.hyps [OF _ less.prems(1) _ _ _ acc] less.prems(3,4) ms None r by (auto simp: finished_def)
    next
      case (Some tokens)
      have l: "lg_messages acc' = lg_messages acc @ sent"
        using less.prems(5) n Messages f Some by (auto simp: stream_loop.simps [of json ord ending lines] Let_def)
      have "tool_reader sent (Some (set (sp_open sp))) \<noteq> None" using r ms by (cases "tool_reader sent (Some (set (sp_open sp)))") auto
      then obtain opened where o: "tool_reader sent (Some (set (sp_open sp))) = Some opened" by blast
      have "sent = butlast sent @ [last sent]" "ms_Type (last sent) = ''model.finish''" using forward_prefix [OF f] Some by auto
      with o reader_finish have "opened = {}" by metis
      then show ?thesis using l o less.prems(3) by simp
    qed
  qed (use less.prems n in \<open>auto simp: stream_loop.simps [of json ord ending lines]\<close>)
qed

text \<open>
  Property C9. However the upstream names, repeats and mixes its tool calls, the stream handler receives every
  call as a start, pieces and at most one end, in this order and bracketed for each identifier, and at the
  finish no call is open.
\<close>

theorem tool_calls_bracketed:
  assumes "visits_all ord" and "streamChat json ord body = (acc, err)"
  shows "\<exists>opened. tool_reader (lg_messages acc) (Some {}) = Some opened \<and> (finished (lg_messages acc) \<longrightarrow> opened = {})"
proof (cases body)
  case (Inl e)
  then show ?thesis using assms(2) by (auto simp: streamChat_def rejected_def no_log_def finished_def)
next
  case (Inr b)
  obtain lines ending where "b = (lines, ending)" by (cases b)
  then have "stream_loop json ord ending lines new_parser new_estimator no_log = (acc, err)" using assms(2) Inr by (simp add: streamChat_def)
  from stream_loop_bracketed [OF assms(1) _ _ _ this] show ?thesis by (simp add: new_parser_def parser_ok_def no_log_def finished_def)
qed

section \<open>The tokens that are recorded\<close>

lemma no_exact_total: "(ms, sp') = decodeChunk ord chunk sp \<Longrightarrow> m \<in> set ms \<Longrightarrow> exact_total m = None"
proof -
  have t: "exact_total (message t ev) = None" if "map_field ev ''usage'' = None" for t ev
    using that by (simp add: exact_total_def)
  have d: "\<forall>m \<in> set (fst (tool_delta tc st)). exact_total m = None" if "\<forall>m \<in> set (fst st). exact_total m = None" for tc st
    using that by (cases st) (auto simp: tool_delta_def Let_def tool_start_def tool_piece_def t map_field_def split: any.splits)
  have f: "\<forall>m \<in> set (fst (fold tool_delta tcs st)). exact_total m = None" if "\<forall>m \<in> set (fst st). exact_total m = None" for tcs st
    using that
  proof (induction tcs arbitrary: st)
    case (Cons tc tcs)
    show ?case using Cons.IH [OF d [OF Cons.prems]] by simp
  qed simp
  have e: "\<forall>m \<in> set (fst (end_tools ord keep sp)). exact_total m = None" for keep sp
    by (auto simp: end_tools_def tool_end_def t map_field_def)
  have tools: "\<forall>m \<in> set (fst (tool_messages ord delta sp)). exact_total m = None" for delta
  proof (cases rule: tool_messages_shape [of ord delta sp])
    case (2 tcs ms mentioned sp1 ends sp2)
    then show ?thesis using f [of "([], [], sp)" tcs] e [of mentioned sp1] by auto
  qed simp
  have fin: "\<forall>m \<in> set (fst (finish_messages ord chunk choice sp)). exact_total m = None" for choice sp
    using e [of "[]" sp] by (auto simp: finish_messages_def Let_def t map_field_def split: prod.splits)
  show "(ms, sp') = decodeChunk ord chunk sp \<Longrightarrow> m \<in> set ms \<Longrightarrow> exact_total m = None"
  proof (cases rule: decode_shape [of ord chunk sp])
    case (2 choice delta ts sp1 ends sp2)
    have "\<forall>m \<in> set ts. exact_total m = None" using tools [of delta] 2(1) by simp
    moreover have "\<forall>m \<in> set ends. exact_total m = None" using fin [of choice sp1] 2(2) by simp
    moreover assume "(ms, sp') = decodeChunk ord chunk sp" "m \<in> set ms"
    ultimately show ?thesis using 2(3) by (auto simp: text_messages_def thinking_messages_def t map_field_def split: if_splits)
  qed simp
qed

lemma next_no_exact: "parser_Next json ord ending lines sp = (Messages msgs, rest, sp') \<Longrightarrow> m \<in> set msgs \<Longrightarrow> exact_total m = None"
proof (induction lines arbitrary: sp)
  case (Cons line lines)
  show ?case
  proof (cases rule: next_cases [OF Cons.prems(1)])
    case (1 sp1)
    then show ?thesis using Cons.IH Cons.prems(2) by blast
  next
    case (2 chunk)
    then show ?thesis using no_exact_total [OF sym] Cons.prems(2) by blast
  qed
qed (simp split: option.splits)

lemma forward_counts:
  "forward msgs est = (sent, est', fin) \<Longrightarrow> \<forall>m \<in> set msgs. exact_total m = None
    \<Longrightarrow> est' = fold counted sent est \<and> (fin = None \<or> fin = Some (Count est'))"
proof (induction msgs arbitrary: est sent est' fin)
  case (Cons m ms)
  show ?case
  proof (cases "ms_Type m = ''model.finish''")
    case False
    obtain s e f where r: "forward ms (counted m est) = (s, e, f)" by (cases "forward ms (counted m est)") auto
    then have "sent = m # s" "est' = e" "fin = f" using Cons.prems False by (auto simp: Let_def)
    with Cons.IH [OF r] Cons.prems(2) show ?thesis by auto
  qed (use Cons.prems in \<open>auto simp: Let_def\<close>)
qed simp

lemma stream_loop_counts:
  assumes "stream_loop json ord ending lines sp est acc = (acc', err)" and "est = fold counted (lg_messages acc) new_estimator"
    and "lg_telemetry acc = []" and "lg_finalized acc = []" and "lg_blocks acc = []"
  shows "lg_telemetry acc' = [(False, err \<noteq> None, Count (fold counted (lg_messages acc') new_estimator))]
    \<and> lg_finalized acc' = [''''] \<and> lg_blocks acc' = []"
  using assms
proof (induction "length lines" arbitrary: lines sp est acc rule: less_induct)
  case less
  obtain r rest sp1 where n: "parser_Next json ord ending lines sp = (r, rest, sp1)" by (cases "parser_Next json ord ending lines sp") auto
  show ?case
  proof (cases r)
    case (Messages msgs)
    obtain sent est1 fin where f: "forward msgs est = (sent, est1, fin)" by (cases "forward msgs est") auto
    have "\<forall>m \<in> set msgs. exact_total m = None" using next_no_exact n Messages by blast
    note c = forward_counts [OF f this]
    show ?thesis
    proof (cases fin)
      case None
      have "length rest < length lines" using parser_Next_shorter n Messages by blast
      moreover have "stream_loop json ord ending rest sp1 est1 (acc\<lparr>lg_messages := lg_messages acc @ sent\<rparr>) = (acc', err)"
        using less.prems(1) n Messages f None by (simp add: stream_loop.simps [of json ord ending lines] Let_def)
      moreover have "est1 = fold counted (lg_messages (acc\<lparr>lg_messages := lg_messages acc @ sent\<rparr>)) new_estimator" using c less.prems(2) by simp
      ultimately show ?thesis by (rule less.hyps) (simp_all add: less.prems)
    next
      case (Some tokens)
      then show ?thesis using less.prems n Messages f c by (auto simp: stream_loop.simps [of json ord ending lines] Let_def)
    qed
  qed (use less.prems n in \<open>auto simp: stream_loop.simps [of json ord ending lines]\<close>)
qed

text \<open>
  A streamed chat that was opened is recorded once, as failed exactly when it returns an error, with
  the estimate over the messages it handed on, and its run is finalised once, with no message identifier: the
  usage that the upstream reports is never used.
\<close>

theorem stream_recorded_once:
  "case streamChat json ord (Inr (lines, ending)) of (acc, err) \<Rightarrow>
     lg_telemetry acc = [(False, err \<noteq> None, Count (fold counted (lg_messages acc) new_estimator))]
     \<and> lg_finalized acc = [''''] \<and> lg_blocks acc = []"
  using stream_loop_counts [of json ord ending lines new_parser new_estimator no_log]
  by (simp add: streamChat_def no_log_def split: prod.split)

section \<open>The arguments of tool calls\<close>

text \<open>
  What a consumer makes of the messages: the calls that are under way with their names and arguments, and
  those that are complete. A piece for a call that is not under way is lost.
\<close>

record assembled =
  as_open :: "(string, string \<times> string) gomap"
  as_calls :: "(string \<times> string \<times> string) list"

definition assemble_step :: "sse_message \<Rightarrow> assembled \<Rightarrow> assembled" where
  "assemble_step m a =
    (if ms_Type m = ''model.tool-input-start'' then
       a\<lparr>as_open := gm_put (msg_id m) (or_else '''' (str_field (event_of m) ''toolName''), '''') (as_open a)\<rparr>
     else if ms_Type m = ''model.tool-input-delta'' then (case gm_get (as_open a) (msg_id m) of
         Some (name, args) \<Rightarrow> a\<lparr>as_open := gm_put (msg_id m) (name, args @ or_else '''' (str_field (event_of m) ''delta'')) (as_open a)\<rparr>
       | None \<Rightarrow> a)
     else if ms_Type m = ''model.tool-input-end'' then (case gm_get (as_open a) (msg_id m) of
         Some (name, args) \<Rightarrow> a\<lparr>as_open := gm_del (msg_id m) (as_open a), as_calls := as_calls a @ [(msg_id m, name, args)]\<rparr>
       | None \<Rightarrow> a)
     else a)"

definition assemble :: "sse_message list \<Rightarrow> assembled \<Rightarrow> assembled" where
  "assemble ms = fold assemble_step ms"

definition no_calls :: assembled where
  "no_calls = \<lparr>as_open = [], as_calls = []\<rparr>"

text \<open>The chunks with which the upstream sends a call: the first one with identifier and name, then pieces.\<close>

definition chunk_of :: "any_map \<Rightarrow> any_map" where
  "chunk_of delta = [(''choices'', AList [AMap [(''index'', ANum 0), (''delta'', AMap delta)]])]"

definition call_entry :: "int \<Rightarrow> any_map \<Rightarrow> any_map \<Rightarrow> any_map" where
  "call_entry idx ident fn = ident @ [(''index'', ANum (of_int idx)), (''function'', AMap fn)]"

definition first_chunk :: "int \<Rightarrow> string \<Rightarrow> string \<Rightarrow> string \<Rightarrow> any_map" where
  "first_chunk idx i name args = chunk_of [(''tool_calls'', AList [AMap
     (call_entry idx [(''id'', AStr i), (''type'', AStr ''function'')] [(''name'', AStr name), (''arguments'', AStr args)])])]"

definition piece_chunk :: "int \<Rightarrow> string \<Rightarrow> any_map" where
  "piece_chunk idx args = chunk_of [(''tool_calls'', AList [AMap (call_entry idx [] [(''arguments'', AStr args)])])]"

definition finish_chunk :: "string \<Rightarrow> any_map" where
  "finish_chunk reason = [(''choices'', AList [AMap [(''index'', ANum 0), (''delta'', AMap []), (''finish_reason'', AStr reason)]])]"

text \<open>The messages of a list of chunks.\<close>

fun decode_chunks :: "(string list \<Rightarrow> string list) \<Rightarrow> any_map list \<Rightarrow> parser \<Rightarrow> sse_message list \<times> parser" where
  "decode_chunks ord [] sp = ([], sp)"
| "decode_chunks ord (c # cs) sp = (case decodeChunk ord c sp of (ms, sp) \<Rightarrow>
     case decode_chunks ord cs sp of (ms', sp) \<Rightarrow> (ms @ ms', sp))"

type_synonym tool_call_text = "int \<times> string \<times> string \<times> string \<times> string list"

fun call_chunks :: "tool_call_text \<Rightarrow> any_map list" where
  "call_chunks (idx, i, name, args, pieces) = first_chunk idx i name args # map (piece_chunk idx) pieces"

fun call_text :: "tool_call_text \<Rightarrow> string \<times> string \<times> string" where
  "call_text (idx, i, name, args, pieces) = (i, name, args @ concat pieces)"

lemma assemble_simps [simp]: "assemble [] a = a" "assemble (m # ms) a = assemble ms (assemble_step m a)"
  "assemble (ms @ ms') a = assemble ms' (assemble ms a)"
  by (simp_all add: assemble_def)

lemma f_to_int_of_int [simp]: "f_to_int (of_int n) = n"
  by (simp add: f_to_int_def)

definition pieces :: "string \<Rightarrow> string \<Rightarrow> sse_message list" where
  "pieces i args = (if args = '''' then [] else [tool_piece i args])"

lemma tool_delta_first:
  "i \<noteq> '''' \<Longrightarrow> tool_delta (AMap (call_entry idx [(''id'', AStr i), (''type'', AStr ''function'')] [(''name'', AStr name), (''arguments'', AStr args)])) (ms, seen, sp)
    = (ms @ (if i \<in> set (sp_open sp) then [] else [tool_start i name]) @ pieces i args, i # seen,
       sp\<lparr>sp_ids := gm_put idx i (sp_ids sp), sp_open := (if i \<in> set (sp_open sp) then sp_open sp else i # sp_open sp)\<rparr>)"
  by (simp add: tool_delta_def call_entry_def str_field_def num_field_def map_field_def pieces_def Let_def)

lemma tool_delta_piece:
  "gm_get (sp_ids sp) idx = Some i \<Longrightarrow> i \<noteq> '''' \<Longrightarrow> tool_delta (AMap (call_entry idx [] [(''arguments'', AStr args)])) (ms, seen, sp)
    = (ms @ (if i \<in> set (sp_open sp) then [] else [tool_start i '''']) @ pieces i args, i # seen,
       sp\<lparr>sp_open := (if i \<in> set (sp_open sp) then sp_open sp else i # sp_open sp)\<rparr>)"
  by (simp add: tool_delta_def call_entry_def str_field_def num_field_def map_field_def pieces_def Let_def)

lemma decode_call_chunk:
  "decodeChunk ord (chunk_of [(''tool_calls'', AList [tc])]) sp = (case tool_delta tc ([], [], sp) of (ms, seen, sp1) \<Rightarrow>
     (ms @ map tool_end (filter (\<lambda>i. i \<notin> set seen) (ord (sp_open sp1))), sp1\<lparr>sp_open := filter (\<lambda>i. i \<in> set seen) (sp_open sp1)\<rparr>))"
  by (simp add: decodeChunk_def chunk_of_def tool_messages_def finish_messages_def end_tools_def map_field_def str_field_def
      text_messages_def thinking_messages_def split: prod.splits)

text \<open>
  A chunk for one call ends every other one, and a later piece of a call that was ended starts it anew, with
  an empty name.
\<close>

lemma decode_first:
  assumes "i \<noteq> ''''" and "i \<notin> set (sp_open sp)"
  shows "decodeChunk ord (first_chunk idx i name args) sp
    = (tool_start i name # pieces i args @ map tool_end (filter (\<lambda>j. j \<noteq> i) (ord (i # sp_open sp))),
       \<lparr>sp_open = [i], sp_ids = gm_put idx i (sp_ids sp)\<rparr>)"
proof -
  have "filter (\<lambda>j. j = i) (sp_open sp) = []" using assms(2) by (auto simp: filter_empty_conv)
  then show ?thesis using assms by (simp add: first_chunk_def decode_call_chunk tool_delta_first)
qed

lemma filter_one: "distinct xs \<Longrightarrow> filter (\<lambda>j. j = i) xs = (if i \<in> set xs then [i] else [])"
  by (induction xs) (auto simp: filter_empty_conv)

lemma decode_piece:
  assumes "gm_get (sp_ids sp) idx = Some i" and "i \<noteq> ''''" and "distinct (sp_open sp)"
  shows "decodeChunk ord (piece_chunk idx args) sp
    = ((if i \<in> set (sp_open sp) then [] else [tool_start i '''']) @ pieces i args
        @ map tool_end (filter (\<lambda>j. j \<noteq> i) (ord (if i \<in> set (sp_open sp) then sp_open sp else i # sp_open sp))),
       sp\<lparr>sp_open := [i]\<rparr>)"
  using assms filter_one [OF assms(3), of i] by (simp add: piece_chunk_def decode_call_chunk tool_delta_piece)

lemma singleton_list: "distinct xs \<Longrightarrow> set xs = {x} \<Longrightarrow> xs = [x]"
  by (cases xs; cases "tl xs") auto

lemma ord_rest:
  assumes "visits_all ord" and "distinct (i # xs)" and "length xs \<le> 1"
  shows "filter (\<lambda>j. j \<noteq> i) (ord (i # xs)) = xs"
proof -
  have d: "distinct (filter (\<lambda>j. j \<noteq> i) (ord (i # xs)))" and s: "set (filter (\<lambda>j. j \<noteq> i) (ord (i # xs))) = set xs"
    using assms(1,2) by (auto simp: visits_all_def)
  show ?thesis
  proof (cases xs)
    case (Cons x ys)
    then have "xs = [x]" using assms(3) by simp
    then show ?thesis using singleton_list [OF d] s by simp
  qed (use s in simp)
qed

lemma ord_none: "visits_all ord \<Longrightarrow> ord [] = []"
  by (metis visits_all_def set_empty)

lemma ord_one: "visits_all ord \<Longrightarrow> ord [i] = [i]"
  by (rule singleton_list) (simp_all add: visits_all_def)

lemma tool_fields [simp]: "str_field (event_of (tool_start i name)) ''toolName'' = Some name" "str_field (event_of (tool_piece i s)) ''delta'' = Some s"
  by (simp_all add: tool_start_def tool_piece_def str_field_def)

lemma assemble_messages [simp]:
  "assemble_step (tool_start i name) a = a\<lparr>as_open := gm_put i (name, '''') (as_open a)\<rparr>"
  "assemble_step (tool_piece i s) a = (case gm_get (as_open a) i of Some (name, args) \<Rightarrow> a\<lparr>as_open := gm_put i (name, args @ s) (as_open a)\<rparr> | None \<Rightarrow> a)"
  "assemble_step (tool_end i) a = (case gm_get (as_open a) i of
     Some (name, args) \<Rightarrow> a\<lparr>as_open := gm_del i (as_open a), as_calls := as_calls a @ [(i, name, args)]\<rparr> | None \<Rightarrow> a)"
  "assemble_step (message ''model.finish'' ev) a = a"
  by (simp_all add: assemble_step_def split: option.split)

lemma assemble_pieces: "gm_get (as_open a) i = Some (name, args) \<Longrightarrow> gm_wf (as_open a)
  \<Longrightarrow> assemble (pieces i s) a = a\<lparr>as_open := gm_put i (name, args @ s) (as_open a)\<rparr>"
  by (auto simp: pieces_def update_triv)

text \<open>A call that is decoded when at most one other is open: it ends the other one and stays open.\<close>

lemma decode_pieces:
  assumes "visits_all ord" and "gm_get (sp_ids sp) idx = Some i" and "i \<noteq> ''''" and "sp_open sp = [i]"
    and "decode_chunks ord (map (piece_chunk idx) ps) sp = (ms, sp')"
  shows "sp' = sp \<and> assemble ms \<lparr>as_open = [(i, name, args)], as_calls = d\<rparr> = \<lparr>as_open = [(i, name, args @ concat ps)], as_calls = d\<rparr>"
  using assms(5)
proof (induction ps arbitrary: args ms)
  case (Cons p ps)
  have c: "decodeChunk ord (piece_chunk idx p) sp = (pieces i p, sp)"
    using decode_piece [OF assms(2,3), of ord p] assms(1,4) by (simp add: ord_one)
  obtain ms1 where r: "decode_chunks ord (map (piece_chunk idx) ps) sp = (ms1, sp')" "ms = pieces i p @ ms1"
    using Cons.prems c by (auto split: prod.splits)
  show ?case using Cons.IH [OF r(1)] r(2) by (simp add: assemble_pieces)
qed simp

lemma decode_call:
  assumes "visits_all ord" and "length prev \<le> 1" and "sp_open sp = map fst prev" and "i \<noteq> ''''" and "i \<notin> fst ` set prev"
    and "decode_chunks ord (call_chunks (idx, i, name, args, ps)) sp = (ms, sp')"
  shows "sp_open sp' = [i] \<and> assemble ms \<lparr>as_open = prev, as_calls = d\<rparr> = \<lparr>as_open = [(i, name, args @ concat ps)], as_calls = d @ prev\<rparr>"
proof -
  let ?sp = "\<lparr>sp_open = [i], sp_ids = gm_put idx i (sp_ids sp)\<rparr>"
  have "i \<notin> set (sp_open sp)" using assms(3,5) by simp
  moreover have "filter (\<lambda>j. j \<noteq> i) (ord (i # sp_open sp)) = map fst prev"
    using ord_rest [OF assms(1)] assms(2,3,5) by (cases prev) auto
  ultimately have c: "decodeChunk ord (first_chunk idx i name args) sp = (tool_start i name # pieces i args @ map (tool_end \<circ> fst) prev, ?sp)"
    using decode_first [OF assms(4)] by simp
  obtain ms1 where r: "decode_chunks ord (map (piece_chunk idx) ps) ?sp = (ms1, sp')"
      "ms = tool_start i name # pieces i args @ map (tool_end \<circ> fst) prev @ ms1"
    using assms(6) c by (auto split: prod.splits)
  have "assemble (tool_start i name # pieces i args @ map (tool_end \<circ> fst) prev) \<lparr>as_open = prev, as_calls = d\<rparr>
    = \<lparr>as_open = [(i, name, args)], as_calls = d @ prev\<rparr>"
    using assms(2,5) by (cases prev) (auto simp: assemble_pieces gomap_simps)
  moreover have "sp' = ?sp \<and> assemble ms1 \<lparr>as_open = [(i, name, args)], as_calls = d @ prev\<rparr> = \<lparr>as_open = [(i, name, args @ concat ps)], as_calls = d @ prev\<rparr>"
    by (rule decode_pieces [OF assms(1) _ assms(4) _ r(1)]) (simp_all add: gomap_simps)
  ultimately show ?thesis using r(2) by simp
qed

lemma decode_chunks_append:
  "decode_chunks ord (cs @ cs') sp = (case decode_chunks ord cs sp of (ms, sp) \<Rightarrow>
     case decode_chunks ord cs' sp of (ms', sp) \<Rightarrow> (ms @ ms', sp))"
  by (induction cs arbitrary: sp) (simp_all split: prod.split)

lemma decode_calls:
  assumes "visits_all ord" and "length prev \<le> 1" and "sp_open sp = map fst prev"
    and "'''' \<notin> fst ` call_text ` set calls" and "distinct (map fst prev @ map (fst \<circ> call_text) calls)"
    and "decode_chunks ord (concat (map call_chunks calls)) sp = (ms, sp')"
  shows "\<exists>lst. length lst \<le> 1 \<and> sp_open sp' = map fst lst
    \<and> (\<exists>d'. assemble ms \<lparr>as_open = prev, as_calls = d\<rparr> = \<lparr>as_open = lst, as_calls = d'\<rparr> \<and> d' @ lst = d @ prev @ map call_text calls)"
  using assms(2-6)
proof (induction calls arbitrary: prev sp d ms)
  case (Cons c calls)
  obtain idx i name args ps where c: "c = (idx, i, name, args, ps)" by (cases c)
  obtain ms1 sp1 where d1: "decode_chunks ord (call_chunks c) sp = (ms1, sp1)" by (cases "decode_chunks ord (call_chunks c) sp")
  obtain ms2 where d2: "decode_chunks ord (concat (map call_chunks calls)) sp1 = (ms2, sp')" "ms = ms1 @ ms2"
    using Cons.prems(5) d1 by (auto simp: decode_chunks_append split: prod.splits)
  have s: "sp_open sp1 = [i] \<and> assemble ms1 \<lparr>as_open = prev, as_calls = d\<rparr> = \<lparr>as_open = [(i, name, args @ concat ps)], as_calls = d @ prev\<rparr>"
    using Cons.prems(3,4) c by (intro decode_call [OF assms(1) Cons.prems(1,2) _ _ d1 [unfolded c]]) auto
  have "\<exists>lst. length lst \<le> 1 \<and> sp_open sp' = map fst lst
    \<and> (\<exists>d'. assemble ms2 \<lparr>as_open = [(i, name, args @ concat ps)], as_calls = d @ prev\<rparr> = \<lparr>as_open = lst, as_calls = d'\<rparr>
      \<and> d' @ lst = (d @ prev) @ [(i, name, args @ concat ps)] @ map call_text calls)"
    using Cons.prems(3,4) s c by (intro Cons.IH [OF _ _ _ _ d2(1)]) auto
  then show ?case using s d2(2) c by auto
qed (auto intro: exI [of _ prev])

lemma decode_finish:
  "reason \<noteq> '''' \<Longrightarrow> decodeChunk ord (finish_chunk reason) sp = (map tool_end (ord (sp_open sp))
     @ [message ''model.finish'' [(''finishReason'', AStr (mapFinishReason reason)), (''usage'', AIntMap [])]], sp\<lparr>sp_open := []\<rparr>)"
  by (simp add: decodeChunk_def finish_chunk_def tool_messages_def finish_messages_def end_tools_def map_field_def str_field_def usage_of_def
      num_field_def text_messages_def thinking_messages_def)

text \<open>
  Property C10. Calls that the upstream sends one after the other, each in a first chunk and any number of
  pieces, are handed on complete, in order, each under its name with the concatenation of its pieces.
\<close>

theorem sequential_calls_complete:
  assumes "visits_all ord" and "'''' \<notin> fst ` call_text ` set calls" and "distinct (map (fst \<circ> call_text) calls)" and "reason \<noteq> ''''"
    and "decode_chunks ord (concat (map call_chunks calls) @ [finish_chunk reason]) new_parser = (ms, sp)"
  shows "assemble ms no_calls = \<lparr>as_open = [], as_calls = map call_text calls\<rparr>"
proof -
  obtain ms1 sp1 where d1: "decode_chunks ord (concat (map call_chunks calls)) new_parser = (ms1, sp1)"
    by (cases "decode_chunks ord (concat (map call_chunks calls)) new_parser")
  obtain lst d' where l: "length lst \<le> 1" "sp_open sp1 = map fst lst" "assemble ms1 no_calls = \<lparr>as_open = lst, as_calls = d'\<rparr>" "d' @ lst = map call_text calls"
    using decode_calls [OF assms(1) _ _ assms(2) _ d1, of "[]" "[]"] assms(3) by (auto simp: new_parser_def no_calls_def)
  have "ms = ms1 @ fst (decodeChunk ord (finish_chunk reason) sp1)"
    using assms(5) d1 decode_finish [OF assms(4)] by (auto simp: decode_chunks_append split: prod.splits)
  moreover have "ord (map fst lst) = map fst lst" using l(1) ord_one [OF assms(1)] ord_none [OF assms(1)]
    by (cases lst) auto
  ultimately show ?thesis using l decode_finish [OF assms(4)] by (cases lst) auto
qed

text \<open>
  Two calls whose pieces come interleaved: each call is ended by the first piece of the other one,
  so that it is handed on with a part of its arguments, and the rest comes as a call without a name.
\<close>

theorem interleaved_calls_cut:
  assumes "visits_all ord" and "a \<noteq> ''''" and "b \<noteq> ''''" and "a \<noteq> b" and "reason \<noteq> ''''" and "i \<noteq> j"
    and "decode_chunks ord [first_chunk i a name x, first_chunk j b name' y, piece_chunk i x', piece_chunk j y', finish_chunk reason] new_parser = (ms, sp)"
  shows "assemble ms no_calls = \<lparr>as_open = [], as_calls = [(a, name, x), (b, name', y), (a, '''', x'), (b, '''', y')]\<rparr>"
proof -
  have o: "filter (\<lambda>k. k \<noteq> a) (ord [a, b]) = [b]" "filter (\<lambda>k. k \<noteq> b) (ord [b, a]) = [a]" "ord [a] = [a]" "ord [b] = [b]" "ord [] = []"
    using ord_rest [OF assms(1), of a "[b]"] ord_rest [OF assms(1), of b "[a]"] assms(4) ord_one [OF assms(1)] ord_none [OF assms(1)] by auto
  show ?thesis using assms(2-7) o
    by (auto simp: new_parser_def no_calls_def decode_first decode_piece decode_finish assemble_pieces gomap_simps)
qed

section \<open>Tool calls in the stream handler\<close>

lemmas handler_simps = handleMessage_def event_key_def thinking_event_def handleDirectFinalSSEEvent_def directSSEEventType_def on_event_def Let_def has_prefix_def

lemma tool_piece_step:
  assumes "\<not> w_hasReturn (sh_wire s)" and "i \<noteq> ''''" and "gm_get (t_buffers (sh_tools s)) i = Some b"
  shows "handleMessage V now (tool_piece i p) s = sh_tools_update (\<lambda>t. t\<lparr>t_buffers := gm_put i (b @ p) (t_buffers t)\<rparr>) s"
  using assms
  by (simp add: handler_simps on_tool_input_delta_def tool_piece_def str_field_def append_to_def)

lemma tool_pieces_step:
  assumes "\<not> w_hasReturn (sh_wire s)" and "i \<noteq> ''''" and "gm_get (t_buffers (sh_tools s)) i = Some b" and "gm_wf (t_buffers (sh_tools s))"
  shows "fold (handleMessage V now) (map (tool_piece i) ps) s = sh_tools_update (\<lambda>t. t\<lparr>t_buffers := gm_put i (b @ concat ps) (t_buffers t)\<rparr>) s"
  using assms
proof (induction ps arbitrary: s b)
  case (Cons p ps)
  then show ?case using Cons.IH [of "sh_tools_update (\<lambda>t. t\<lparr>t_buffers := gm_put i (b @ p) (t_buffers t)\<rparr>) s" "b @ p"]
    by (simp add: tool_piece_step gomap_simps)
qed (simp add: update_triv)

text \<open>
  A call whose start, pieces and end arrive while the connection holds is checked and accepted with
  its trimmed name and the trimmed concatenation of its pieces; nothing else is left of it.
\<close>

theorem call_pieces_joined:
  assumes "\<not> w_hasReturn (sh_wire s)" and "\<not> w_hasReturn (sh_wire (closeActiveBlock V s))" and "i \<noteq> ''''" and "trim_space name \<noteq> ''''"
    and "gm_wf (t_buffers (sh_tools s))"
  shows "fold (handleMessage V now) (tool_start i name # map (tool_piece i) ps @ [tool_end i]) s
    = (case normalize_call V (trim_space name) (trim_space (concat ps)) of (n, input) \<Rightarrow>
        accept_call V True \<lparr>tc_id = i, tc_name = n, tc_input = input\<rparr> (sh_tools_update (forget_input i) (closeActiveBlock V s)))"
proof -
  let ?s1 = "sh_tools_update (\<lambda>t. t\<lparr>t_names := gm_put i (trim_space name) (t_names t), t_buffers := gm_put i '''' (t_buffers t)\<rparr>) (closeActiveBlock V s)"
  let ?s2 = "sh_tools_update (\<lambda>t. t\<lparr>t_buffers := gm_put i (concat ps) (t_buffers t)\<rparr>) ?s1"
  have tools: "sh_tools (closeActiveBlock V s) = sh_tools s" by (simp add: closeActiveBlock_def writeSSEBytes_def split: prod.split option.split)
  have start: "handleMessage V now (tool_start i name) s = ?s1"
    using assms(1,3,4) by (simp add: handler_simps on_tool_input_start_def tool_start_def str_field_def)
  have "fold (handleMessage V now) (map (tool_piece i) ps) ?s1 = ?s2"
    using tool_pieces_step [of ?s1 i "''''" V now ps] assms(2,3,5) by (simp add: gomap_simps tools)
  moreover have "handleMessage V now (tool_end i) ?s2 = on_tool_input_end V (tool_end i) ?s2"
    using assms(2) by (simp add: handler_simps tool_end_def str_field_def)
  moreover have "sh_tools_update (forget_input i) ?s2 = sh_tools_update (forget_input i) (closeActiveBlock V s)"
    by (simp add: forget_input_def comp_def delete_update_same)
  ultimately show ?thesis using start assms(3,4)
    by (simp add: on_tool_input_end_def tool_end_def str_field_def gomap_simps Let_def)
qed

section \<open>What a raw stream passes on\<close>

definition is_data :: "string \<Rightarrow> bool" where
  "is_data line \<longleftrightarrow> has_prefix line ''data: ''"

definition calls_end :: "string \<Rightarrow> bool" where
  "calls_end line \<longleftrightarrow> is_data line \<and> contains (drop 6 line) tool_calls_finish"

definition stop_again :: "string \<Rightarrow> bool" where
  "stop_again line \<longleftrightarrow> is_data line \<and> contains (drop 6 line) stop_finish"

definition raw_write_of :: "string \<Rightarrow> raw_write" where
  "raw_write_of line = (if is_data line then RawData (drop 6 line) else RawEvent (drop 7 line))"

text \<open>The lines that are passed on, by their position.\<close>

definition passed_lines :: "bool \<Rightarrow> string list \<Rightarrow> nat set" where
  "passed_lines saw lines = {k. (is_data (lines ! k) \<or> has_prefix (lines ! k) ''event: '')
     \<and> \<not> (stop_again (lines ! k) \<and> (saw \<or> (\<exists>j < k. calls_end (lines ! j))))}"

lemma passed_Cons: "{k. Suc k \<in> passed_lines saw (line # lines)} = passed_lines (saw \<or> calls_end line) lines"
  by (auto simp: passed_lines_def less_Suc_eq_0_disj)

lemma passed_nths: "nths (line # lines) (passed_lines saw (line # lines)) =
    (if (is_data line \<or> has_prefix line ''event: '') \<and> \<not> (stop_again line \<and> saw) then [line] else [])
      @ nths lines (passed_lines (saw \<or> calls_end line) lines)"
proof -
  have "0 \<in> passed_lines saw (line # lines) \<longleftrightarrow> (is_data line \<or> has_prefix line ''event: '') \<and> \<not> (stop_again line \<and> saw)"
    by (simp add: passed_lines_def)
  then show ?thesis by (simp add: nths_Cons passed_Cons)
qed

lemma done_line: "has_prefix line ''data: '' \<and> drop 6 line = ''[DONE]'' \<longleftrightarrow> line = ''data: [DONE]''"
  by (auto simp: has_prefix_def elim!: prefixE)

lemma raw_loop_passes:
  "case raw_loop R ending lines saw n of (ws, n', err) \<Rightarrow>
     ws = map raw_write_of (nths (takeWhile ((\<noteq>) ''data: [DONE]'') lines) (passed_lines saw (takeWhile ((\<noteq>) ''data: [DONE]'') lines)))
        @ (if ''data: [DONE]'' \<in> set lines then [RawData ''[DONE]''] else [])
     \<and> err = (if ''data: [DONE]'' \<in> set lines then None else ending)"
proof (induction lines arbitrary: saw n)
  case (Cons line lines)
  consider (final) "line = ''data: [DONE]''" | (data) "line \<noteq> ''data: [DONE]''" "is_data line" | (event) "\<not> is_data line" "has_prefix line ''event: ''"
    | (other) "\<not> is_data line" "\<not> has_prefix line ''event: ''" by blast
  then show ?case
  proof cases
    case final
    then show ?thesis by (simp add: has_prefix_def)
  next
    case data
    then have nd: "drop 6 line \<noteq> ''[DONE]''" "line \<noteq> ''data: [DONE]''" using done_line [of line] by (auto simp: is_data_def)
    let ?n = "note_chunk_id R (drop 6 line) (accumulateTokensFromChunk R (drop 6 line) n)"
    show ?thesis using data nd Cons.IH [of "saw \<or> calls_end line" ?n] Cons.IH [of saw n]
      by (auto simp: is_data_def [symmetric] passed_nths calls_end_def stop_again_def
          raw_write_of_def Let_def split: prod.splits)
  next
    case event
    then have "line \<noteq> ''data: [DONE]''" by (auto simp: is_data_def has_prefix_def)
    with event Cons.IH [of saw n] show ?thesis
      by (auto simp: is_data_def [symmetric] passed_nths calls_end_def stop_again_def
          raw_write_of_def split: prod.splits)
  next
    case other
    then have "line \<noteq> ''data: [DONE]''" by (auto simp: is_data_def has_prefix_def)
    with other Cons.IH [of saw n] show ?thesis
      by (auto simp: is_data_def [symmetric] passed_nths calls_end_def stop_again_def split: prod.splits)
  qed
qed simp

text \<open>
  A raw stream passes on every data and event line before the closing marker, in order and
  unchanged, but the chunks that say stop after one that finished with tool calls; an error of the reader
  reaches the caller unless the marker came, and the request is recorded once.
\<close>

theorem raw_stream_passes:
  "case streamChatRaw R (Inr (lines, ending)) of (ws, acc, err) \<Rightarrow>
     (let body = takeWhile ((\<noteq>) ''data: [DONE]'') lines; complete = ''data: [DONE]'' \<in> set lines in
      ws = map raw_write_of (nths body (passed_lines False body)) @ (if complete then [RawData ''[DONE]''] else [])
      \<and> err = (if complete then None else map_option ((@) ''codebuff stream error: '') ending)
      \<and> (\<exists>tokens. lg_telemetry acc = [(False, err \<noteq> None, tokens)]) \<and> length (lg_finalized acc) = 1)"
  using raw_loop_passes [where R = R and ending = ending and lines = lines and saw = False and n = "\<lparr>rc_estimator = new_estimator, rc_usage = 0, rc_id = ''''\<rparr>"]
  by (auto simp: streamChatRaw_def Let_def no_log_def split: prod.splits)

section \<open>Instances\<close>

definition some_json :: "string \<Rightarrow> string + any_map" where
  "some_json s = (if s = ''a'' then Inr (first_chunk 0 ''c'' ''n'' ''{'') else if s = ''f'' then Inr (finish_chunk ''stop'') else Inl ''bad'')"

definition some_env :: stream_env where
  "some_env = \<lparr>v_isStream = True, v_suppressThinking = False, v_openai = False, v_chunk = (\<lambda>e d. None), v_ok = (\<lambda>n. True),
     v_json = \<lparr>jl_fields = (\<lambda>s. None), jl_string = (\<lambda>s. None), jl_any = (\<lambda>s. None), jl_marshal = (\<lambda>v. None), jl_allowed = (\<lambda>s. None)\<rparr>,
     v_marshal = (\<lambda>ev. None), v_workdir = '''', v_normalize = Pair, v_clientTools = [], v_allowedTools = [],
     v_disallowTools = False, v_msgID = ''m''\<rparr>"

lemma visits_same: "visits_all (\<lambda>xs. xs)"
  by (simp add: visits_all_def)

lemma tool_calls_bracketed_witness:
  "\<exists>opened. tool_reader (lg_messages (fst (streamChat some_json (\<lambda>xs. xs) (Inr ([''data: a'', ''data: f''], None))))) (Some {}) = Some opened"
  using tool_calls_bracketed [OF visits_same surjective_pairing, of some_json "Inr ([''data: a'', ''data: f''], None)"] by blast

lemma sequential_calls_complete_witness:
  "assemble (fst (decode_chunks (\<lambda>xs. xs) (concat (map call_chunks [(0, ''a'', ''Read'', ''{'', [''}'']), (1, ''b'', ''Write'', '''', [''{'', ''}''])])
     @ [finish_chunk ''tool_calls'']) new_parser)) no_calls = \<lparr>as_open = [], as_calls = [(''a'', ''Read'', ''{}''), (''b'', ''Write'', ''{}'')]\<rparr>"
proof -
  let ?calls = "[(0, ''a'', ''Read'', ''{'', [''}'']), (1, ''b'', ''Write'', '''', [''{'', ''}''])] :: tool_call_text list"
  show ?thesis using sequential_calls_complete [OF visits_same _ _ _ surjective_pairing, of ?calls "''tool_calls''"] by simp
qed

lemma interleaved_calls_cut_witness:
  "assemble (fst (decode_chunks (\<lambda>xs. xs) [first_chunk 0 ''a'' ''Read'' ''{'', first_chunk 1 ''b'' ''Write'' ''{'', piece_chunk 0 ''}'', piece_chunk 1 ''}'',
     finish_chunk ''tool_calls''] new_parser)) no_calls
   = \<lparr>as_open = [], as_calls = [(''a'', ''Read'', ''{''), (''b'', ''Write'', ''{''), (''a'', '''', ''}''), (''b'', '''', ''}'')]\<rparr>"
  by (rule interleaved_calls_cut [OF visits_same _ _ _ _ _ surjective_pairing]) simp_all

lemma call_pieces_joined_witness:
  "fold (handleMessage some_env 0) [tool_start ''a'' ''Read'', tool_piece ''a'' ''{'', tool_piece ''a'' ''}'', tool_end ''a''] newStreamHandler
   = (case normalize_call some_env ''Read'' ''{}'' of (n, input) \<Rightarrow>
       accept_call some_env True \<lparr>tc_id = ''a'', tc_name = n, tc_input = input\<rparr> (sh_tools_update (forget_input ''a'') (closeActiveBlock some_env newStreamHandler)))"
proof -
  have t: "trim_space ''Read'' = ''Read''" "trim_space ''{}'' = ''{}''" by code_simp+
  have r: "\<not> w_hasReturn (sh_wire newStreamHandler)" "\<not> w_hasReturn (sh_wire (closeActiveBlock some_env newStreamHandler))"
    "gm_wf (t_buffers (sh_tools newStreamHandler))"
    by (simp_all add: newStreamHandler_def closeActiveBlock_def popActiveBlock_def)
  show ?thesis using call_pieces_joined [OF r(1,2) _ _ r(3), of "''a''" "''Read''" 0 "[''{'', ''}'']"] t by simp
qed

end
