(* ===== verification/Expiring_Redis.thy ===== *)
theory Expiring_Redis
  imports Redis_Server
begin

text \<open>
  The Redis commands with an expiry that \<open>internal/codebuff\<close> uses: \<open>SET\<close> and \<open>SETNX\<close> with a time to
  live, \<open>GET\<close>, \<open>EXISTS\<close>, \<open>DEL\<close> and \<open>SCAN\<close> of the keys with a prefix. The server is a record of
  operations at an instant; its documented behaviour is a locale, and a concrete server satisfies it.
  The clock of the server is that of the program.
\<close>

section \<open>The server\<close>

record 'r expiring =
  x_get :: "instant \<Rightarrow> string \<Rightarrow> 'r \<Rightarrow> string option"
  x_set :: "instant \<Rightarrow> string \<Rightarrow> string \<Rightarrow> duration \<Rightarrow> 'r \<Rightarrow> 'r"
  x_setnx :: "instant \<Rightarrow> string \<Rightarrow> string \<Rightarrow> duration \<Rightarrow> 'r \<Rightarrow> bool \<times> 'r"
  x_del :: "string \<Rightarrow> 'r \<Rightarrow> 'r"
  x_scan :: "instant \<Rightarrow> string \<Rightarrow> 'r \<Rightarrow> string list"

text \<open>
  The time to live that the client library sends, in whole milliseconds and at least one; a duration that
  is not positive sends none.
\<close>

definition ttl_sent :: "duration \<Rightarrow> duration" where
  "ttl_sent ttl = (if ttl < millisecond then millisecond else ttl - ttl mod millisecond)"

definition alive_for :: "duration \<Rightarrow> instant \<Rightarrow> instant \<Rightarrow> bool" where
  "alive_for ttl now t \<longleftrightarrow> ttl \<le> 0 \<or> t < now + ttl_sent ttl"

lemma ttl_sent_bounds: "millisecond \<le> ttl \<Longrightarrow> ttl - millisecond < ttl_sent ttl \<and> ttl_sent ttl \<le> ttl"
proof -
  assume a: "millisecond \<le> ttl"
  have "0 \<le> ttl mod millisecond" "ttl mod millisecond < millisecond" by (simp_all add: millisecond_def)
  with a show ?thesis by (simp add: ttl_sent_def)
qed

locale expiring_redis =
  fixes X :: "'r expiring"
  assumes get_set: "now \<le> t \<Longrightarrow> x_get X t k' (x_set X now k v ttl r)
      = (if k' = k then (if alive_for ttl now t then Some v else None) else x_get X t k' r)"
    and setnx: "x_setnx X now k v ttl r = (if x_get X now k r = None then (True, x_set X now k v ttl r) else (False, r))"
    and get_del: "x_get X t k' (x_del X k r) = (if k' = k then None else x_get X t k' r)"
    and expires: "x_get X t' k r = Some v \<Longrightarrow> t \<le> t' \<Longrightarrow> x_get X t k r = Some v"
    and set_scan: "set (x_scan X t p r) = {k. has_prefix k p \<and> x_get X t k r \<noteq> None}"
begin

lemma gone: "x_get X t k r = None \<Longrightarrow> t \<le> t' \<Longrightarrow> x_get X t' k r = None"
  using expires by (metis option.exhaust)

lemma get_dels: "x_get X t k (fold (x_del X) ks r) = (if k \<in> set ks then None else x_get X t k r)"
  by (induction ks arbitrary: r) (auto simp: get_del)

lemma setnx_taken: "x_setnx X now k v ttl r = (True, r') \<Longrightarrow> x_get X now k r = None \<and> r' = x_set X now k v ttl r"
  by (simp add: setnx split: if_splits)

lemma scan_get: "k \<in> set (x_scan X t p r) \<Longrightarrow> \<exists>v. x_get X t k r = Some v"
  by (auto simp: set_scan)

end

section \<open>A concrete server\<close>

type_synonym ttl_map = "(string, string \<times> instant option) gomap"

definition tm_get :: "instant \<Rightarrow> string \<Rightarrow> ttl_map \<Rightarrow> string option" where
  "tm_get t k m = (case gm_get m k of
     Some (v, None) \<Rightarrow> Some v
   | Some (v, Some d) \<Rightarrow> if t < d then Some v else None
   | None \<Rightarrow> None)"

definition tm_set :: "instant \<Rightarrow> string \<Rightarrow> string \<Rightarrow> duration \<Rightarrow> ttl_map \<Rightarrow> ttl_map" where
  "tm_set now k v ttl m = gm_put k (v, if ttl \<le> 0 then None else Some (now + ttl_sent ttl)) m"

definition ttl_server :: "ttl_map expiring" where
  "ttl_server = \<lparr>x_get = tm_get, x_set = tm_set,
     x_setnx = (\<lambda>now k v ttl m. if tm_get now k m = None then (True, tm_set now k v ttl m) else (False, m)),
     x_del = gm_del, x_scan = (\<lambda>t p m. filter (\<lambda>k. has_prefix k p \<and> tm_get t k m \<noteq> None) (map fst m))\<rparr>"

lemma tm_get_key: "tm_get t k m \<noteq> None \<Longrightarrow> k \<in> fst ` set m"
  using map_of_eq_None_iff [of m k] by (auto simp: tm_get_def split: option.splits)

interpretation ttl: expiring_redis ttl_server
proof
  fix now t k k' v ttl and m :: ttl_map
  show "x_get ttl_server t k' (x_set ttl_server now k v ttl m)
      = (if k' = k then if alive_for ttl now t then Some v else None else x_get ttl_server t k' m)"
    by (simp add: ttl_server_def tm_get_def tm_set_def alive_for_def gomap_simps)
next
  fix t k k' and m :: ttl_map
  show "x_get ttl_server t k' (x_del ttl_server k m) = (if k' = k then None else x_get ttl_server t k' m)"
    by (simp add: ttl_server_def tm_get_def gomap_simps)
next
  fix t p and m :: ttl_map
  show "set (x_scan ttl_server t p m) = {k. has_prefix k p \<and> x_get ttl_server t k m \<noteq> None}"
    using tm_get_key [of t _ m] by (fastforce simp: ttl_server_def)
qed (auto simp: ttl_server_def tm_get_def split: option.splits if_splits)

end
