(* ===== verification/Codebuff_Models.thy ===== *)
theory Codebuff_Models
  imports Go_Prelude
begin

text \<open>
  The registry of models of \<open>internal/codebuff/models.go\<close>: which upstream, session and agent identifiers
  stand for a model that a caller names, and the agent definitions sent for validation.
\<close>

section \<open>Models\<close>

record model_config =
  mc_ID :: string
  mc_AgentID :: string
  mc_OwnedBy :: string
  mc_UpstreamModelID :: string
  mc_SessionModelID :: string
  mc_ParentAgentID :: string

definition UpstreamID :: "model_config \<Rightarrow> string" where
  "UpstreamID m = (if mc_UpstreamModelID m \<noteq> '''' then mc_UpstreamModelID m else mc_ID m)"

definition model_SessionID :: "model_config \<Rightarrow> string" where
  "model_SessionID m = (if mc_SessionModelID m \<noteq> '''' then mc_SessionModelID m else UpstreamID m)"

definition base_model :: "string \<Rightarrow> string \<Rightarrow> model_config" where
  "base_model i agent = \<lparr>mc_ID = i, mc_AgentID = agent, mc_OwnedBy = ''freebuff'', mc_UpstreamModelID = '''', mc_SessionModelID = '''',
     mc_ParentAgentID = ''''\<rparr>"

definition FREEBUFF_MODELS :: "model_config list" where
  "FREEBUFF_MODELS =
    [base_model ''deepseek/deepseek-v4-flash'' ''base2-free-deepseek-flash'',
     base_model ''deepseek/deepseek-v4-pro'' ''base2-free-deepseek'',
     base_model ''moonshotai/kimi-k2.6'' ''base2-free-kimi'',
     base_model ''minimax/minimax-m2.7'' ''base2-free'',
     base_model ''minimax/minimax-m3'' ''base2-free-minimax-m3'',
     base_model ''mimo/mimo-v2.5'' ''base2-free-mimo'',
     base_model ''mimo/mimo-v2.5-pro'' ''base2-free-mimo-pro'',
     base_model ''z-ai/glm-5.2'' ''base2-free-glm-5-2'']"

definition DEFAULT_MODEL :: model_config where "DEFAULT_MODEL = FREEBUFF_MODELS ! 0"

definition gemini_model :: "string \<Rightarrow> string \<Rightarrow> string \<Rightarrow> string \<Rightarrow> model_config" where
  "gemini_model i agent sess parent = \<lparr>mc_ID = i, mc_AgentID = agent, mc_OwnedBy = ''google'', mc_UpstreamModelID = '''',
     mc_SessionModelID = sess, mc_ParentAgentID = parent\<rparr>"

definition GEMINI_FREE_MODELS :: "model_config list" where
  "GEMINI_FREE_MODELS =
    [gemini_model ''google/gemini-2.5-flash-lite'' ''file-picker'' (mc_ID DEFAULT_MODEL) (mc_AgentID DEFAULT_MODEL),
     gemini_model ''google/gemini-3.1-flash-lite-preview'' ''file-picker-max'' (mc_ID DEFAULT_MODEL) (mc_AgentID DEFAULT_MODEL),
     gemini_model ''google/gemini-3.1-pro-preview'' ''thinker-with-files-gemini'' ''moonshotai/kimi-k2.6'' ''base2-free-kimi'']"

definition ALL_MODELS :: "model_config list" where
  "ALL_MODELS = FREEBUFF_MODELS @ GEMINI_FREE_MODELS"

definition modelByID :: "(string, model_config) gomap" where
  "modelByID = fold (\<lambda>m. gm_put (mc_ID m) m) ALL_MODELS []"

text \<open>\<open>Inl\<close> is the \<open>UnsupportedModelError\<close> of the requested name.\<close>

definition ResolveModel :: "string \<Rightarrow> string + model_config" where
  "ResolveModel requested =
    (if requested = '''' then Inr DEFAULT_MODEL
     else (case gm_get modelByID requested of None \<Rightarrow> Inl requested | Some m \<Rightarrow> Inr m))"

definition allModelIDs :: "string list" where
  "allModelIDs = map mc_ID ALL_MODELS"

section \<open>Agents\<close>

record agent_definition =
  ag_id :: string
  ag_model :: string
  ag_displayName :: string
  ag_toolNames :: "string list"
  ag_spawnableAgents :: "string list"

definition ContextPrunerAgentID :: string where "ContextPrunerAgentID = ''context-pruner''"

text \<open>The fields of a definition that vary; the other ones are constants of the code.\<close>

definition agentDefinition :: "string \<Rightarrow> string \<Rightarrow> string \<Rightarrow> string list \<Rightarrow> agent_definition" where
  "agentDefinition agentID modelID displayName spawnable = \<lparr>ag_id = agentID, ag_model = modelID, ag_displayName = displayName,
     ag_toolNames = (if spawnable \<noteq> [] then [''spawn_agents''] else []), ag_spawnableAgents = spawnable\<rparr>"

definition get_list :: "(string, string list) gomap \<Rightarrow> string \<Rightarrow> string list" where
  "get_list m k = (case gm_get m k of None \<Rightarrow> [] | Some v \<Rightarrow> v)"

definition push :: "string \<Rightarrow> string \<Rightarrow> (string, string list) gomap \<Rightarrow> (string, string list) gomap" where
  "push k v m = gm_put k (get_list m k @ [v]) m"

definition agent_maps :: "model_config list \<Rightarrow> (string, model_config) gomap \<times> (string, string list) gomap
    \<Rightarrow> (string, model_config) gomap \<times> (string, string list) gomap" where
  "agent_maps = fold (\<lambda>m (byAgent, spawnable).
     (gm_put (mc_AgentID m) m byAgent,
      let spawnable = push (mc_AgentID m) ContextPrunerAgentID spawnable
      in if mc_ParentAgentID m \<noteq> '''' then push (mc_ParentAgentID m) (mc_AgentID m) spawnable else spawnable))"

text \<open>The definitions; those of the models come in the order of a Go map, which is any.\<close>

definition AgentValidationPayload :: "agent_definition list" where
  "AgentValidationPayload = (case agent_maps ALL_MODELS ([], []) of (byAgent, spawnable) \<Rightarrow>
     map (\<lambda>(k, m). agentDefinition (mc_AgentID m) (UpstreamID m) (''Freebuff '' @ UpstreamID m) (get_list spawnable (mc_AgentID m))) byAgent
     @ [agentDefinition ContextPrunerAgentID (mc_ID DEFAULT_MODEL) ''Context Pruner'' []])"

section \<open>The registry is closed\<close>

definition agent_ids :: "string list" where
  "agent_ids = map ag_id AgentValidationPayload"

lemma registry_check:
  "list_all (\<lambda>m. ResolveModel (mc_ID m) = Inr m
     \<and> (case ResolveModel (model_SessionID m) of Inr s \<Rightarrow> model_SessionID s = mc_ID s \<and> mc_ParentAgentID s = '''' | Inl e \<Rightarrow> False)) ALL_MODELS"
  by code_simp

lemma agents_check:
  "distinct agent_ids \<and> distinct allModelIDs
   \<and> list_all (\<lambda>a. list_all (\<lambda>s. s \<in> set agent_ids) (ag_spawnableAgents a)) AgentValidationPayload
   \<and> list_all (\<lambda>m. mc_AgentID m \<in> set agent_ids) ALL_MODELS"
  by code_simp

text \<open>
  The registry is closed: every registered model is resolved by its own name, and the model
  under which its session is opened is itself registered, opens its own sessions and needs no parent
  run; an unknown name is refused; the agents have distinct identifiers, every model has one, and
  an agent may spawn only defined agents.
\<close>

theorem registry_closed:
  "(case ResolveModel name of
      Inr m \<Rightarrow> m \<in> set ALL_MODELS
        \<and> (\<exists>s. ResolveModel (model_SessionID m) = Inr s \<and> model_SessionID s = mc_ID s \<and> mc_ParentAgentID s = '''')
    | Inl e \<Rightarrow> e = name \<and> name \<notin> set allModelIDs)
   \<and> distinct agent_ids
   \<and> list_all (\<lambda>a. list_all (\<lambda>s. s \<in> set agent_ids) (ag_spawnableAgents a)) AgentValidationPayload"
proof (cases "ResolveModel name")
  case (Inl e)
  then have "gm_get modelByID name = None" "e = name" by (auto simp: ResolveModel_def split: if_splits option.splits)
  moreover have "gm_get modelByID (mc_ID m) \<noteq> None" if "m \<in> set ALL_MODELS" for m
  proof -
    have "ResolveModel (mc_ID m) = Inr m" using that registry_check by (auto simp: list_all_iff)
    moreover have "list_all (\<lambda>m. mc_ID m \<noteq> '''') ALL_MODELS" by code_simp
    ultimately show ?thesis using that by (auto simp: ResolveModel_def list_all_iff split: option.splits)
  qed
  ultimately show ?thesis using Inl agents_check by (fastforce simp: allModelIDs_def)
next
  case (Inr m)
  have keys: "list_all (\<lambda>(k, m). m \<in> set ALL_MODELS) modelByID" "DEFAULT_MODEL \<in> set ALL_MODELS" by code_simp+
  have "m \<in> set ALL_MODELS"
    using Inr keys by (auto simp: ResolveModel_def list_all_iff split: if_splits option.splits dest: map_of_SomeD)
  moreover from this have "\<exists>s. ResolveModel (model_SessionID m) = Inr s \<and> model_SessionID s = mc_ID s \<and> mc_ParentAgentID s = ''''"
    using registry_check by (cases "ResolveModel (model_SessionID m)") (auto simp: list_all_iff)
  ultimately show ?thesis using Inr agents_check by simp
qed

end
