(* ===== verification/Accounts.thy ===== *)
theory Accounts
  imports Go_Prelude Go_Float
begin

text \<open>
  The account record of \<open>internal/store/store.go\<close> with its change detection, the merge that
  \<open>UpdateAccount\<close> of \<open>internal/store/redis_store.go\<close> performs between a stored account and an
  update, and the masking of secrets for logs (\<open>internal/auth/auth.go\<close>). Floats are rationals.
\<close>

record account =
  ID :: int
  Name :: string
  AccountType :: string
  NSFWEnabled :: bool
  SessionID :: string
  ClientCookie :: string
  RefreshToken :: string
  DeviceID :: string
  RequestID :: string
  SessionCookie :: string
  ClientUat :: string
  ProjectID :: string
  UserID :: string
  AgentMode :: string
  Email :: string
  Weight :: int
  Enabled :: bool
  Token :: string
  Subscription :: string
  UsageCurrent :: rat
  UsageTotal :: rat
  UsageLimit :: rat
  WarpMonthlyLimit :: rat
  WarpMonthlyRemaining :: rat
  WarpBonusRemaining :: rat
  StatusCode :: string
  LastAttempt :: instant
  QuotaResetAt :: instant
  RequestCount :: int
  LastUsedAt :: instant
  CreatedAt :: instant
  UpdatedAt :: instant

text \<open>The zero value of the struct.\<close>

definition zero_account :: account where
  "zero_account = \<lparr>ID = 0, Name = '''', AccountType = '''', NSFWEnabled = False, SessionID = '''',
     ClientCookie = '''', RefreshToken = '''', DeviceID = '''', RequestID = '''', SessionCookie = '''',
     ClientUat = '''', ProjectID = '''', UserID = '''', AgentMode = '''', Email = '''', Weight = 0,
     Enabled = False, Token = '''', Subscription = '''', UsageCurrent = 0, UsageTotal = 0,
     UsageLimit = 0, WarpMonthlyLimit = 0, WarpMonthlyRemaining = 0, WarpBonusRemaining = 0,
     StatusCode = '''', LastAttempt = zero_time, QuotaResetAt = zero_time, RequestCount = 0,
     LastUsedAt = zero_time, CreatedAt = zero_time, UpdatedAt = zero_time\<rparr>"

text \<open>\<open>SyncState\<close>; a nil receiver or snapshot is \<open>None\<close>.\<close>

definition SyncState :: "account option \<Rightarrow> account option \<Rightarrow> bool" where
  "SyncState a snapshot = (case (a, snapshot) of
     (Some a, Some s) \<Rightarrow> SessionID a \<noteq> SessionID s \<or> ClientUat a \<noteq> ClientUat s
       \<or> ProjectID a \<noteq> ProjectID s \<or> UserID a \<noteq> UserID s \<or> Email a \<noteq> Email s
       \<or> ClientCookie a \<noteq> ClientCookie s
   | _ \<Rightarrow> False)"

text \<open>
  The record \<open>UpdateAccount\<close> writes back: the caller's fields over the stored ones, except that
  an empty \<open>AccountType\<close> or \<open>SessionCookie\<close> keeps the stored value, and the ID, the request
  count, the last use and the creation time are never taken from the caller.
\<close>

definition merge_update :: "account \<Rightarrow> account \<Rightarrow> instant \<Rightarrow> account" where
  "merge_update existing acc now = existing\<lparr>
     Name := Name acc,
     AccountType := (if AccountType acc = '''' then AccountType existing else AccountType acc),
     NSFWEnabled := NSFWEnabled acc, SessionID := SessionID acc, ClientCookie := ClientCookie acc,
     RefreshToken := RefreshToken acc, DeviceID := DeviceID acc, RequestID := RequestID acc,
     SessionCookie := (if SessionCookie acc = '''' then SessionCookie existing else SessionCookie acc),
     ClientUat := ClientUat acc, ProjectID := ProjectID acc, UserID := UserID acc,
     AgentMode := AgentMode acc, Email := Email acc, Weight := Weight acc, Enabled := Enabled acc,
     Token := Token acc, Subscription := Subscription acc, UsageCurrent := UsageCurrent acc,
     UsageTotal := UsageTotal acc, UsageLimit := UsageLimit acc,
     WarpMonthlyLimit := WarpMonthlyLimit acc, WarpMonthlyRemaining := WarpMonthlyRemaining acc,
     WarpBonusRemaining := WarpBonusRemaining acc, StatusCode := StatusCode acc,
     LastAttempt := LastAttempt acc, QuotaResetAt := QuotaResetAt acc, UpdatedAt := now\<rparr>"

definition MaskSensitive :: "string \<Rightarrow> string" where
  "MaskSensitive value = (if value = '''' then ''''
     else if length value \<le> 8 then ''***''
     else take 4 value @ ''...'' @ drop (length value - 4) value)"

section \<open>The status fields\<close>

text \<open>Clearing the status, and the accounts that agree except for their status.\<close>

definition clear_status :: "account \<Rightarrow> account" where
  "clear_status a = a\<lparr>StatusCode := '''', LastAttempt := zero_time, QuotaResetAt := zero_time\<rparr>"

definition same_identity :: "account \<Rightarrow> account \<Rightarrow> bool" where
  "same_identity a b \<longleftrightarrow> clear_status a = clear_status b"

lemma same_identity_refl [simp]: "same_identity a a"
  by (simp add: same_identity_def)

lemma same_identity_sym: "same_identity a b \<Longrightarrow> same_identity b a"
  by (simp add: same_identity_def)

lemma same_identity_trans: "same_identity a b \<Longrightarrow> same_identity b c \<Longrightarrow> same_identity a c"
  by (simp add: same_identity_def)

lemma clear_status_idem [simp]: "clear_status (clear_status a) = clear_status a"
  by (simp add: clear_status_def)

lemma same_identity_clear [simp]: "same_identity (clear_status a) b \<longleftrightarrow> same_identity a b"
  by (simp add: same_identity_def)

lemma same_identity_fields:
  assumes "same_identity a b"
  shows "ID a = ID b" "AccountType a = AccountType b" "AgentMode a = AgentMode b" "Weight a = Weight b"
    "Subscription a = Subscription b"
proof -
  have eq: "clear_status a = clear_status b" using assms by (simp add: same_identity_def)
  show "ID a = ID b" using arg_cong [OF eq, of ID] by (simp add: clear_status_def)
  show "AccountType a = AccountType b" using arg_cong [OF eq, of AccountType] by (simp add: clear_status_def)
  show "AgentMode a = AgentMode b" using arg_cong [OF eq, of AgentMode] by (simp add: clear_status_def)
  show "Weight a = Weight b" using arg_cong [OF eq, of Weight] by (simp add: clear_status_def)
  show "Subscription a = Subscription b" using arg_cong [OF eq, of Subscription] by (simp add: clear_status_def)
qed

lemma clear_status_fields [simp]:
  "StatusCode (clear_status a) = ''''" "LastAttempt (clear_status a) = zero_time"
  "QuotaResetAt (clear_status a) = zero_time" "ID (clear_status a) = ID a"
  "AccountType (clear_status a) = AccountType a" "AgentMode (clear_status a) = AgentMode a"
  by (simp_all add: clear_status_def)

end
