(* ===== verification/Quota_Store.thy ===== *)
theory Quota_Store
  imports Expiring_Redis Codebuff_Models Accounts Go_Any
begin

text \<open>
  The quota of models per account, \<open>internal/codebuff/quotastore.go\<close>: blocks after a 429, which live in
  Redis until the quota is reset, the session quotas with the pool display built from them, the
  cleaning of both, and the reading of quota values from upstream answers. A call of the server gets
  through or not (\<open>up\<close>), and the JSON codecs are parameters.
\<close>

section \<open>Records\<close>

record model_block =
  mb_Model :: string
  mb_Limit :: int
  mb_RecentCount :: rat
  mb_ResetAt :: instant
  mb_BlockedAt :: instant
  mb_RetryAfterMs :: int

record model_rate_limit =
  rl_Limit :: int
  rl_HasRemaining :: bool
  rl_Remaining :: "int option"
  rl_RecentCount :: rat
  rl_ResetAt :: instant
  rl_Window :: string

definition UsedOrZero :: "model_rate_limit \<Rightarrow> int" where
  "UsedOrZero m = f_to_int (f_add (rl_RecentCount m) (1 / 2))"

definition IsExhausted :: "model_rate_limit \<Rightarrow> bool" where
  "IsExhausted m \<longleftrightarrow> 0 < rl_Limit m \<and> f_of_int (rl_Limit m) \<le> rl_RecentCount m"

record streak_info =
  sk_StreakDays :: int
  sk_SyncedAt :: instant

record session_quota_info =
  sq_RateLimitsByModel :: "(string, model_rate_limit) gomap"
  sq_SyncedAt :: instant

record account_quota_status =
  aq_AccountID :: int
  aq_Name :: string
  aq_Streak :: "streak_info option"
  aq_Session :: "session_quota_info option"
  aq_Blocks :: "model_block list"

record model_pool_status =
  mp_Blocked :: bool
  mp_Limit :: int
  mp_RecentCount :: rat
  mp_HasRemaining :: bool
  mp_Remaining :: "int option"
  mp_Window :: string
  mp_ResetAt :: instant
  mp_BlockedAt :: "instant option"
  mp_SyncedAt :: instant

record account_pool_status =
  ap_AccountID :: int
  ap_Name :: string
  ap_Models :: "(string, model_pool_status) gomap"

section \<open>The store\<close>

record 'r quota_store =
  qs_redis :: "'r expiring"
  qs_prefix :: string
  qs_block_json :: "model_block codec"
  qs_streak_json :: "streak_info codec"
  qs_session_json :: "session_quota_info codec"

text \<open>The fields of \<open>NewQuotaStore\<close>; the codecs are those of the library.\<close>

definition quota_prefix :: "string \<Rightarrow> string" where
  "quota_prefix pfx = (if pfx = '''' then ''codebuff'' else pfx)"

definition blockKey :: "'r quota_store \<Rightarrow> int \<Rightarrow> string \<Rightarrow> string" where
  "blockKey qs accountID model = qs_prefix qs @ '':quota:block:'' @ itoa accountID @ '':'' @ model"

definition streakKey :: "'r quota_store \<Rightarrow> int \<Rightarrow> string" where
  "streakKey qs accountID = qs_prefix qs @ '':quota:streak:'' @ itoa accountID"

definition quota_sessionKey :: "'r quota_store \<Rightarrow> int \<Rightarrow> string" where
  "quota_sessionKey qs accountID = qs_prefix qs @ '':quota:session:'' @ itoa accountID"

text \<open>\<open>None\<close> is an error of the server.\<close>

definition IsBlocked :: "'r quota_store option \<Rightarrow> bool \<Rightarrow> instant \<Rightarrow> 'r \<Rightarrow> int \<Rightarrow> string \<Rightarrow> bool option" where
  "IsBlocked qs up t r accountID model = (case qs of
     None \<Rightarrow> Some False
   | Some qs \<Rightarrow> if up then Some (x_get (qs_redis qs) t (blockKey qs accountID model) r \<noteq> None) else None)"

definition blockTTL :: "instant \<Rightarrow> instant \<Rightarrow> duration" where
  "blockTTL now resetAt =
    (if is_zero resetAt then 24 * hour
     else let d = t_sub resetAt now in if d \<le> 0 then minute else wrap64 (d + minute))"

text \<open>A write: whether it succeeded, and the server after it.\<close>

definition put_json :: "'r expiring \<Rightarrow> bool \<Rightarrow> instant \<Rightarrow> string \<Rightarrow> string option \<Rightarrow> duration \<Rightarrow> 'r \<Rightarrow> bool \<times> 'r" where
  "put_json X up now key raw ttl r = (case raw of
     None \<Rightarrow> (False, r)
   | Some d \<Rightarrow> if up then (True, x_set X now key d ttl r) else (False, r))"

definition RecordBlock :: "'r quota_store option \<Rightarrow> bool \<Rightarrow> instant \<Rightarrow> int \<Rightarrow> model_block option \<Rightarrow> 'r \<Rightarrow> bool \<times> 'r" where
  "RecordBlock qs up now accountID block r = (case (qs, block) of
     (Some qs, Some b) \<Rightarrow> put_json (qs_redis qs) up now (blockKey qs accountID (mb_Model b))
        (marshal (qs_block_json qs) b) (blockTTL now (mb_ResetAt b)) r
   | _ \<Rightarrow> (True, r))"

definition RecordStreak :: "'r quota_store option \<Rightarrow> bool \<Rightarrow> instant \<Rightarrow> int \<Rightarrow> streak_info option \<Rightarrow> 'r \<Rightarrow> bool \<times> 'r" where
  "RecordStreak qs up now accountID streak r = (case (qs, streak) of
     (Some qs, Some s) \<Rightarrow> put_json (qs_redis qs) up now (streakKey qs accountID) (marshal (qs_streak_json qs) s) (7 * 24 * hour) r
   | _ \<Rightarrow> (True, r))"

text \<open>The time until the next 07:05 UTC, at least a minute. A day starts at a multiple of 24 hours.\<close>

definition nextResetTTL :: "instant \<Rightarrow> duration" where
  "nextResetTTL now =
    (let next = now - now mod (24 * hour) + (7 * hour + 5 * minute);
         next = (if \<not> now < next then t_add next (24 * hour) else next);
         d = t_sub next now
     in if d < minute then minute else d)"

definition RecordSessionQuotas ::
    "'r quota_store option \<Rightarrow> bool \<Rightarrow> instant \<Rightarrow> int \<Rightarrow> (string, model_rate_limit) gomap \<Rightarrow> 'r \<Rightarrow> bool \<times> 'r" where
  "RecordSessionQuotas qs up now accountID limits r = (case qs of
     None \<Rightarrow> (True, r)
   | Some qs \<Rightarrow>
      if limits = [] then (True, r)
      else put_json (qs_redis qs) up now (quota_sessionKey qs accountID)
        (marshal (qs_session_json qs) \<lparr>sq_RateLimitsByModel = limits, sq_SyncedAt = now\<rparr>) (nextResetTTL now) r)"

section \<open>Reading\<close>

text \<open>A \<open>GET\<close> of a key and the decoding of its value; an error of either gives nothing.\<close>

definition get_json :: "'r expiring \<Rightarrow> 'a codec \<Rightarrow> (string \<Rightarrow> bool) \<Rightarrow> instant \<Rightarrow> string \<Rightarrow> 'r \<Rightarrow> 'a option" where
  "get_json X J up t key r = (if up key then Option.bind (x_get X t key r) (unmarshal J) else None)"

text \<open>
  The keys that an iteration over \<open>SCAN\<close> yields, and whether it came to its end: all of them, or those
  before the round trip that failed.
\<close>

definition scan_keys :: "'r expiring \<Rightarrow> nat option \<Rightarrow> instant \<Rightarrow> string \<Rightarrow> 'r \<Rightarrow> string list \<times> bool" where
  "scan_keys X broken t p r = (case broken of
     None \<Rightarrow> (x_scan X t p r, True)
   | Some n \<Rightarrow> (take n (x_scan X t p r), False))"

definition GetAccountStatus ::
    "'r quota_store option \<Rightarrow> (string \<Rightarrow> bool) \<Rightarrow> nat option \<Rightarrow> instant \<Rightarrow> int \<Rightarrow> string \<Rightarrow> 'r \<Rightarrow> account_quota_status option" where
  "GetAccountStatus qs up broken t accountID name r = (case qs of
     None \<Rightarrow> Some \<lparr>aq_AccountID = accountID, aq_Name = name, aq_Streak = None, aq_Session = None, aq_Blocks = []\<rparr>
   | Some qs \<Rightarrow> (case scan_keys (qs_redis qs) broken t (blockKey qs accountID '''') r of
        (keys, ended) \<Rightarrow>
          if \<not> ended then None
          else Some \<lparr>aq_AccountID = accountID, aq_Name = name,
            aq_Streak = get_json (qs_redis qs) (qs_streak_json qs) up t (streakKey qs accountID) r,
            aq_Session = get_json (qs_redis qs) (qs_session_json qs) up t (quota_sessionKey qs accountID) r,
            aq_Blocks = List.map_filter (\<lambda>k. get_json (qs_redis qs) (qs_block_json qs) up t k r) keys\<rparr>))"

section \<open>The pool\<close>

definition empty_cell :: model_pool_status where
  "empty_cell = \<lparr>mp_Blocked = False, mp_Limit = 0, mp_RecentCount = 0, mp_HasRemaining = False, mp_Remaining = None,
     mp_Window = '''', mp_ResetAt = zero_time, mp_BlockedAt = None, mp_SyncedAt = zero_time\<rparr>"

definition session_cell :: "instant \<Rightarrow> session_quota_info \<Rightarrow> string \<Rightarrow> model_pool_status \<Rightarrow> model_pool_status" where
  "session_cell now info model cell = (case gm_get (sq_RateLimitsByModel info) model of
     None \<Rightarrow> cell
   | Some rl \<Rightarrow>
      let cell = cell\<lparr>mp_Limit := rl_Limit rl, mp_RecentCount := rl_RecentCount rl\<rparr>;
          cell = (if rl_HasRemaining rl then cell\<lparr>mp_Remaining := rl_Remaining rl, mp_HasRemaining := True\<rparr> else cell);
          cell = cell\<lparr>mp_Window := rl_Window rl, mp_ResetAt := rl_ResetAt rl, mp_SyncedAt := sq_SyncedAt info\<rparr>
      in if mp_HasRemaining cell \<and> mp_Remaining cell = Some 0 \<and> \<not> is_zero (mp_ResetAt cell) \<and> mp_ResetAt cell < now
         then cell\<lparr>mp_Remaining := Some (mp_Limit cell)\<rparr> else cell)"

definition block_cell :: "model_block \<Rightarrow> model_pool_status \<Rightarrow> model_pool_status" where
  "block_cell b cell =
    (let cell = cell\<lparr>mp_Blocked := True, mp_RecentCount := mb_RecentCount b\<rparr>;
         cell = (if 0 < mb_Limit b then cell\<lparr>mp_Limit := mb_Limit b\<rparr> else cell);
         cell = (if is_zero (mp_ResetAt cell) then cell\<lparr>mp_ResetAt := mb_ResetAt b\<rparr> else cell)
     in cell\<lparr>mp_BlockedAt := Some (mb_BlockedAt b)\<rparr>)"

definition pool_cell :: "instant \<Rightarrow> session_quota_info option \<Rightarrow> (string, model_block) gomap \<Rightarrow> string \<Rightarrow> model_pool_status" where
  "pool_cell now info blocks model =
    (let cell = (case info of None \<Rightarrow> empty_cell | Some i \<Rightarrow> session_cell now i model empty_cell)
     in (case gm_get blocks model of None \<Rightarrow> cell | Some b \<Rightarrow> block_cell b cell))"

definition account_blocks ::
    "'r quota_store \<Rightarrow> (string \<Rightarrow> bool) \<Rightarrow> nat option \<Rightarrow> instant \<Rightarrow> int \<Rightarrow> 'r \<Rightarrow> (string, model_block) gomap" where
  "account_blocks qs up broken t accountID r =
    fold (\<lambda>b. gm_put (mb_Model b) b)
      (List.map_filter (\<lambda>k. get_json (qs_redis qs) (qs_block_json qs) up t k r)
        (fst (scan_keys (qs_redis qs) broken t (blockKey qs accountID '''') r))) []"

definition account_pool ::
    "'r quota_store \<Rightarrow> (string \<Rightarrow> bool) \<Rightarrow> nat option \<Rightarrow> instant \<Rightarrow> account \<Rightarrow> 'r \<Rightarrow> account_pool_status" where
  "account_pool qs up broken t acc r =
    (let info = get_json (qs_redis qs) (qs_session_json qs) up t (quota_sessionKey qs (ID acc)) r;
         blocks = account_blocks qs up broken t (ID acc) r
     in \<lparr>ap_AccountID = ID acc, ap_Name = Name acc,
         ap_Models = map (\<lambda>model. (model, pool_cell t info blocks model)) allModelIDs\<rparr>)"

definition GetPoolStatus ::
    "'r quota_store option \<Rightarrow> (string \<Rightarrow> bool) \<Rightarrow> nat option \<Rightarrow> instant \<Rightarrow> account option list \<Rightarrow> 'r
     \<Rightarrow> account_pool_status list \<times> string list" where
  "GetPoolStatus qs up broken t accounts r = (case qs of
     None \<Rightarrow> ([], allModelIDs)
   | Some qs \<Rightarrow>
      (List.map_filter (\<lambda>acc. case acc of
           Some a \<Rightarrow> if equal_fold (AccountType a) ''codebuff'' then Some (account_pool qs up broken t a r) else None
         | None \<Rightarrow> None) accounts, allModelIDs))"

section \<open>Cleaning\<close>

text \<open>
  Deletion in batches of 100: how many keys were deleted before the first failing batch, whether all were,
  and the server after it. \<open>up i\<close> says whether the batch from the i-th key on gets through.
\<close>

function delete_batches :: "'r expiring \<Rightarrow> (nat \<Rightarrow> bool) \<Rightarrow> nat \<Rightarrow> string list \<Rightarrow> 'r \<Rightarrow> nat \<times> bool \<times> 'r" where
  "delete_batches X up i keys r =
    (if keys = [] then (i, True, r)
     else if up i then delete_batches X up (i + length (take 100 keys)) (drop 100 keys) (fold (x_del X) (take 100 keys) r)
     else (i, False, r))"
  by pat_completeness auto
termination
  by (relation "measure (\<lambda>(X, up, i, keys, r). length keys)") auto

declare delete_batches.simps [simp del]

definition session_key_prefix :: "'r quota_store \<Rightarrow> string" where
  "session_key_prefix qs = qs_prefix qs @ '':quota:session:''"

text \<open>A key to drop: its value is not a session quota, or is from before the cutoff.\<close>

definition orphan :: "'r quota_store \<Rightarrow> (string \<Rightarrow> bool) \<Rightarrow> instant \<Rightarrow> instant \<Rightarrow> 'r \<Rightarrow> string \<Rightarrow> bool" where
  "orphan qs up t cutoff r key = (if \<not> up key then False else (case x_get (qs_redis qs) t key r of
     None \<Rightarrow> False
   | Some raw \<Rightarrow> (case unmarshal (qs_session_json qs) raw of None \<Rightarrow> True | Some info \<Rightarrow> sq_SyncedAt info < cutoff)))"

text \<open>The number reported, whether it succeeded, and the server after it.\<close>

definition ClearOrphanSessionQuotas ::
    "'r quota_store option \<Rightarrow> (string \<Rightarrow> bool) \<Rightarrow> nat option \<Rightarrow> (nat \<Rightarrow> bool) \<Rightarrow> instant \<Rightarrow> duration \<Rightarrow> 'r \<Rightarrow> nat \<times> bool \<times> 'r" where
  "ClearOrphanSessionQuotas qs up broken del_up now maxAge r = (case qs of
     None \<Rightarrow> (0, True, r)
   | Some qs \<Rightarrow> (case scan_keys (qs_redis qs) broken now (session_key_prefix qs) r of
        (keys, ended) \<Rightarrow>
          if \<not> ended then (0, False, r)
          else delete_batches (qs_redis qs) del_up 0 (filter (orphan qs up now (t_add now (- maxAge)) r) keys) r))"

definition ClearQuotaResetData ::
    "'r quota_store option \<Rightarrow> nat option \<Rightarrow> (nat \<Rightarrow> bool) \<Rightarrow> instant \<Rightarrow> 'r \<Rightarrow> bool \<times> 'r" where
  "ClearQuotaResetData qs broken del_up now r = (case qs of
     None \<Rightarrow> (True, r)
   | Some qs \<Rightarrow> (case scan_keys (qs_redis qs) broken now (qs_prefix qs @ '':quota:'') r of
        (keys, ended) \<Rightarrow>
          if \<not> ended then (False, r)
          else snd (delete_batches (qs_redis qs) del_up 0 (filter (\<lambda>k. \<not> has_prefix k (qs_prefix qs @ '':quota:streak:'')) keys) r)))"

section \<open>Values from the upstream\<close>

text \<open>A time string in one of the RFC 3339 layouts, read by the library (\<open>rfc\<close>), or seconds since 1970.\<close>

definition unix_epoch :: instant where "unix_epoch = 719162 * 24 * hour"

fun parseTime :: "(string \<Rightarrow> instant option) \<Rightarrow> any \<Rightarrow> instant option" where
  "parseTime rfc (AStr s) = rfc s"
| "parseTime rfc (ANum x) = Some (unix_epoch + f_to_int x * second)"
| "parseTime rfc v = None"

definition time_field :: "(string \<Rightarrow> instant option) \<Rightarrow> (string \<times> any) list \<Rightarrow> string \<Rightarrow> instant" where
  "time_field rfc m k = (case Option.bind (gm_get m k) (parseTime rfc) of Some t \<Rightarrow> t | None \<Rightarrow> zero_time)"

datatype body_error = NoJSON | BadJSON | ModelMissing

text \<open>\<open>decode\<close> is the JSON decoder, which reads the first value of a text and ignores what follows it.\<close>

definition Parse429Body ::
    "(string \<Rightarrow> (string \<times> any) list option) \<Rightarrow> (string \<Rightarrow> instant option) \<Rightarrow> instant \<Rightarrow> string option
     \<Rightarrow> body_error + model_block option" where
  "Parse429Body decode rfc now err = (case err of
     None \<Rightarrow> Inr None
   | Some msg \<Rightarrow> (case index_byte msg (CHR ''{'') of
        None \<Rightarrow> Inl NoJSON
      | Some start \<Rightarrow> (case decode (drop start msg) of
           None \<Rightarrow> Inl BadJSON
         | Some payload \<Rightarrow>
             let block = \<lparr>mb_Model = or_else '''' (str_field payload ''model''),
                   mb_Limit = or_else 0 (map_option f_to_int (num_field payload ''limit'')),
                   mb_RecentCount = or_else 0 (num_field payload ''recentCount''),
                   mb_ResetAt = time_field rfc payload ''resetAt'', mb_BlockedAt = now,
                   mb_RetryAfterMs = or_else 0 (map_option f_to_int (num_field payload ''retryAfterMs''))\<rparr>
             in if mb_Model block = '''' then Inl ModelMissing else Inr (Some block))))"

definition parse_limit :: "(string \<Rightarrow> instant option) \<Rightarrow> (string \<times> any) list \<Rightarrow> model_rate_limit" where
  "parse_limit rfc mraw =
    (let remaining = map_option f_to_int (num_field mraw ''remaining'')
     in \<lparr>rl_Limit = or_else 0 (map_option f_to_int (num_field mraw ''limit'')), rl_HasRemaining = (remaining \<noteq> None),
         rl_Remaining = remaining, rl_RecentCount = or_else 0 (num_field mraw ''recentCount''),
         rl_ResetAt = time_field rfc mraw ''resetAt'', rl_Window = or_else '''' (str_field mraw ''window'')\<rparr>)"

definition no_signal :: "model_rate_limit \<Rightarrow> bool" where
  "no_signal mr \<longleftrightarrow> rl_Limit mr = 0 \<and> rl_RecentCount mr = 0 \<and> \<not> rl_HasRemaining mr \<and> is_zero (rl_ResetAt mr)"

text \<open>The result is nil without data or without the field.\<close>

definition ParseSessionRateLimits ::
    "(string \<Rightarrow> instant option) \<Rightarrow> (string \<times> any) list option \<Rightarrow> (string, model_rate_limit) gomap option" where
  "ParseSessionRateLimits rfc data = (case data of
     None \<Rightarrow> None
   | Some m \<Rightarrow> (case gm_get m ''rateLimitsByModel'' of
        Some (AMap raw) \<Rightarrow>
          Some (fold (\<lambda>(model, v) result. (case v of
              AMap mraw \<Rightarrow> let mr = parse_limit rfc mraw in if no_signal mr then result else gm_put model mr result
            | _ \<Rightarrow> result)) raw [])
      | _ \<Rightarrow> None))"

definition ParseStreak :: "instant \<Rightarrow> (string \<times> any) list option \<Rightarrow> streak_info option" where
  "ParseStreak now data = map_option (\<lambda>m. \<lparr>sk_StreakDays = or_else 0 (map_option f_to_int (num_field m ''streakDays'')),
     sk_SyncedAt = now\<rparr>) data"

section \<open>Keys\<close>

lemma colon_split: "itoa i @ CHR '':'' # m = itoa i' @ CHR '':'' # m' \<longleftrightarrow> i = i' \<and> m = m'"
  using split_at_first [OF colon_not_itoa colon_not_itoa, of i m i' m'] by auto

lemma blockKey_inject: "blockKey qs i m = blockKey qs i' m' \<longleftrightarrow> i = i' \<and> m = m'"
  by (simp add: blockKey_def colon_split)

lemma quota_keys_differ:
  "has_prefix (blockKey qs i m) (qs_prefix qs @ '':quota:'')" "\<not> has_prefix (blockKey qs i m) (qs_prefix qs @ '':quota:streak:'')"
  "has_prefix (streakKey qs i) (qs_prefix qs @ '':quota:streak:'')" "has_prefix (quota_sessionKey qs i) (session_key_prefix qs)"
  "has_prefix (quota_sessionKey qs i) (qs_prefix qs @ '':quota:'')" "\<not> has_prefix (quota_sessionKey qs i) (qs_prefix qs @ '':quota:streak:'')"
  "\<not> has_prefix (blockKey qs i m) (session_key_prefix qs)" "\<not> has_prefix (streakKey qs i) (session_key_prefix qs)"
  by (simp_all add: has_prefix_def blockKey_def streakKey_def quota_sessionKey_def session_key_prefix_def)

section \<open>Blocks\<close>

lemma put_json_get:
  assumes "expiring_redis X" and "put_json X up now key raw ttl r = (True, r')" and "now \<le> t"
  shows "\<exists>d. raw = Some d \<and> x_get X t k r' = (if k = key then (if alive_for ttl now t then Some d else None) else x_get X t k r)"
  using assms(2) expiring_redis.get_set [OF assms(1,3)] by (auto simp: put_json_def split: option.splits if_splits)

lemma blockTTL_alive:
  assumes "in64 (R - now)" and "in64 (R - now + minute)"
  shows "if is_zero R then alive_for (blockTTL now R) now t = (t < now + 24 * hour)
    else if R \<le> now then alive_for (blockTTL now R) now t = (t < now + minute)
    else (t \<le> R \<longrightarrow> alive_for (blockTTL now R) now t) \<and> (R + minute \<le> t \<longrightarrow> \<not> alive_for (blockTTL now R) now t)"
proof -
  have d: "t_sub R now = R - now" using assms(1) by (simp add: t_sub_def in64_def min_duration_def max_duration_def)
  have whole: "ttl_sent (24 * hour) = 24 * hour" "ttl_sent minute = minute" "0 < minute" "0 < 24 * hour"
    by (simp_all add: ttl_sent_def hour_def minute_def second_def millisecond_def)
  have "R - now + minute - millisecond < ttl_sent (R - now + minute) \<and> ttl_sent (R - now + minute) \<le> R - now + minute" if "now < R"
    using that by (intro ttl_sent_bounds) (simp add: minute_def second_def millisecond_def)
  moreover have "millisecond < minute" by (simp add: minute_def second_def millisecond_def)
  ultimately show ?thesis
    using whole by (auto simp: blockTTL_def d Let_def alive_for_def wrap64_id [OF assms(2)])
qed

lemma recorded_block:
  assumes "expiring_redis (qs_redis qs)" and "RecordBlock (Some qs) up now i (Some b) r = (True, r')" and "now \<le> t"
  shows "IsBlocked (Some qs) True t r' i' m = (if i' = i \<and> m = mb_Model b
      then Some (alive_for (blockTTL now (mb_ResetAt b)) now t) else IsBlocked (Some qs) True t r i' m)"
proof -
  have put: "put_json (qs_redis qs) up now (blockKey qs i (mb_Model b)) (marshal (qs_block_json qs) b) (blockTTL now (mb_ResetAt b)) r = (True, r')"
    using assms(2) by (simp add: RecordBlock_def)
  show ?thesis
    using put_json_get [OF assms(1) put assms(3), of "blockKey qs i' m"]
    by (cases "i' = i \<and> m = mb_Model b"; cases "alive_for (blockTTL now (mb_ResetAt b)) now t") (auto simp: IsBlocked_def blockKey_inject)
qed

text \<open>
  A recorded block holds for its account and model and for nothing else: until the reset when
  there is one ahead and not beyond a minute after it, for a minute when the reset is already over, and
  for a day when none is known.
\<close>

theorem block_lifetime:
  assumes "expiring_redis (qs_redis qs)" and "RecordBlock (Some qs) up now i (Some b) r = (True, r')" and "now \<le> t"
    and "in64 (mb_ResetAt b - now)" and "in64 (mb_ResetAt b - now + minute)"
  shows "\<exists>blocked. (\<forall>i' m. IsBlocked (Some qs) True t r' i' m
        = (if i' = i \<and> m = mb_Model b then Some blocked else IsBlocked (Some qs) True t r i' m))
    \<and> (if is_zero (mb_ResetAt b) then blocked = (t < now + 24 * hour)
       else if mb_ResetAt b \<le> now then blocked = (t < now + minute)
       else (t \<le> mb_ResetAt b \<longrightarrow> blocked) \<and> (mb_ResetAt b + minute \<le> t \<longrightarrow> \<not> blocked))"
  using recorded_block [OF assms(1-3)] blockTTL_alive [OF assms(4,5), of t] by blast

text \<open>
  The time to live of session quotas ends at the next 07:05 UTC: it lies between a minute and
  a day, and only the minute itself may reach beyond that instant.
\<close>

theorem reset_ttl_bounds:
  "minute \<le> nextResetTTL now \<and> nextResetTTL now \<le> 24 * hour
   \<and> (nextResetTTL now = minute \<or> (now + nextResetTTL now) mod (24 * hour) = 7 * hour + 5 * minute)"
proof -
  define day where "day = 24 * hour"
  have day: "0 < day" "7 * hour + 5 * minute < day" "0 < minute" "minute \<le> day" "0 \<le> 7 * hour + 5 * minute" "day < 2 ^ 62"
    by (simp_all add: day_def hour_def minute_def second_def)
  let ?m = "now - now mod day" and ?o = "7 * hour + 5 * minute"
  have r: "0 \<le> now mod day" "now mod day < day" using day(1) by simp_all
  define nxt where "nxt = (if \<not> now < ?m + ?o then ?m + ?o + day else ?m + ?o)"
  have n: "now < nxt" "nxt - now \<le> day"
    unfolding nxt_def using r day(1,2,5) by (cases "now < ?m + ?o"; simp only: if_True if_False not_True_eq_False not_False_eq_True; linarith)+
  have sub: "t_sub nxt now = nxt - now" using n day(6) by (simp add: t_sub_def min_duration_def max_duration_def)
  have "?m mod day = 0" by (simp add: minus_mod_eq_mult_div)
  then have "(?m + ?o) mod day = ?o" using day by (metis add_0 mod_add_left_eq mod_pos_pos_trivial)
  then have "nxt mod day = ?o" by (auto simp: nxt_def)
  moreover have "nextResetTTL now = (if nxt - now < minute then minute else nxt - now)"
    unfolding nextResetTTL_def Let_def t_add_def day_def [symmetric] nxt_def [symmetric] sub by (rule refl)
  ultimately show ?thesis using n day by (auto simp: day_def)
qed

section \<open>Cleaning is exact\<close>

lemma delete_batches_prefix:
  "delete_batches X up i keys r = (n, ok, r') \<Longrightarrow>
    \<exists>j \<le> length keys. n = i + j \<and> r' = fold (x_del X) (take j keys) r \<and> (ok \<longrightarrow> j = length keys)"
proof (induction X up i keys r rule: delete_batches.induct)
  case (1 X up i keys r)
  consider "keys = []" | "keys \<noteq> []" "\<not> up i" | "keys \<noteq> []" "up i" by blast
  then show ?case
  proof cases
    case 3
    let ?m = "length (take 100 keys)"
    from 1(2) 3 have "delete_batches X up (i + ?m) (drop 100 keys) (fold (x_del X) (take 100 keys) r) = (n, ok, r')"
      by (simp add: delete_batches.simps [of X up i keys r])
    from 1(1) [OF 3 this] obtain j where j: "j \<le> length (drop 100 keys)" "n = i + ?m + j"
      "r' = fold (x_del X) (take j (drop 100 keys)) (fold (x_del X) (take 100 keys) r)" "ok \<longrightarrow> j = length (drop 100 keys)" by blast
    have t: "take (?m + j) keys = take 100 keys @ take j (drop 100 keys)"
      using j(1) by (cases "length keys \<le> 100") (simp_all add: take_add)
    have l: "?m + length (drop 100 keys) = length keys"
      using append_take_drop_id [of 100 keys] by (metis length_append)
    show ?thesis
    proof (intro exI [of _ "?m + j"] conjI)
      show "?m + j \<le> length keys" using j(1) l by linarith
      show "n = i + (?m + j)" using j(2) by simp
      show "r' = fold (x_del X) (take (?m + j) keys) r" by (simp only: t j(3) fold_append comp_apply)
      show "ok \<longrightarrow> ?m + j = length keys" using j(4) l by simp
    qed
  qed (use 1(2) in \<open>auto simp: delete_batches.simps [of X up i keys r] delete_batches.simps [of X up i "[]" r] intro: exI [of _ 0]\<close>)
qed

text \<open>
  The periodic cleaning is exact and honest: it deletes keys of session quotas only, and only
  those whose value does not decode or was synchronised before the cutoff; when it succeeds all of
  those are gone and their number is reported; when a deletion fails, the number reported is that of the
  keys that were deleted; nothing else in the server changes.
\<close>

theorem orphan_cleaning:
  assumes "expiring_redis (qs_redis qs)" and "distinct (x_scan (qs_redis qs) now (session_key_prefix qs) r)"
    and "ClearOrphanSessionQuotas (Some qs) up None del_up now maxAge r = (n, ok, r')"
  shows "\<exists>gone. n = card gone
    \<and> gone \<subseteq> {k. has_prefix k (session_key_prefix qs) \<and> orphan qs up now (now - maxAge) r k}
    \<and> (ok \<longrightarrow> gone = {k. has_prefix k (session_key_prefix qs) \<and> orphan qs up now (now - maxAge) r k})
    \<and> (\<forall>t k. x_get (qs_redis qs) t k r' = (if k \<in> gone then None else x_get (qs_redis qs) t k r))"
proof -
  let ?X = "qs_redis qs" and ?P = "orphan qs up now (now - maxAge) r"
  let ?keys = "filter ?P (x_scan ?X now (session_key_prefix qs) r)"
  have "delete_batches ?X del_up 0 ?keys r = (n, ok, r')"
    using assms(3) by (simp add: ClearOrphanSessionQuotas_def scan_keys_def t_add_def)
  from delete_batches_prefix [OF this] obtain j where j: "j \<le> length ?keys" "n = j" "r' = fold (x_del ?X) (take j ?keys) r"
    "ok \<longrightarrow> j = length ?keys" by auto
  have keys: "set ?keys = {k. has_prefix k (session_key_prefix qs) \<and> ?P k}"
    using expiring_redis.set_scan [OF assms(1)] by (auto simp: orphan_def split: option.splits if_splits)
  have "card (set (take j ?keys)) = j" using assms(2) j(1) by (simp add: distinct_card)
  moreover have "set (take j ?keys) \<subseteq> set ?keys" by (rule set_take_subset)
  ultimately show ?thesis
    using j keys by (intro exI [of _ "set (take j ?keys)"]) (auto simp: expiring_redis.get_dels [OF assms(1)])
qed

text \<open>
  After the daily reset no account is blocked for any model and no session quota is left,
  while every streak and every key outside the quota store is as before.
\<close>

theorem daily_reset:
  assumes "expiring_redis (qs_redis qs)" and "ClearQuotaResetData (Some qs) None del_up now r = (True, r')" and "now \<le> t"
  shows "IsBlocked (Some qs) True t r' i m = Some False \<and> x_get (qs_redis qs) t (quota_sessionKey qs i) r' = None
    \<and> x_get (qs_redis qs) t (streakKey qs i) r' = x_get (qs_redis qs) t (streakKey qs i) r
    \<and> (has_prefix k (qs_prefix qs @ '':quota:'') \<or> x_get (qs_redis qs) t k r' = x_get (qs_redis qs) t k r)"
proof -
  let ?X = "qs_redis qs" and ?P = "\<lambda>k. \<not> has_prefix k (qs_prefix qs @ '':quota:streak:'')"
  let ?keys = "filter ?P (x_scan ?X now (qs_prefix qs @ '':quota:'') r)"
  obtain n where "delete_batches ?X del_up 0 ?keys r = (n, True, r')"
    using assms(2) by (cases "delete_batches ?X del_up 0 ?keys r") (auto simp: ClearQuotaResetData_def scan_keys_def)
  from delete_batches_prefix [OF this] have r': "r' = fold (x_del ?X) ?keys r" by auto
  have get: "x_get ?X t k r' = (if has_prefix k (qs_prefix qs @ '':quota:'') \<and> ?P k then None else x_get ?X t k r)" for k
    using expiring_redis.set_scan [OF assms(1), of now "qs_prefix qs @ '':quota:''" r]
      expiring_redis.gone [OF assms(1) _ assms(3), of k r]
    by (auto simp: r' expiring_redis.get_dels [OF assms(1)])
  show ?thesis using quota_keys_differ [of qs] by (simp add: get IsBlocked_def)
qed

section \<open>The pool display\<close>

text \<open>
  The codec of session quotas as the library behaves: \<open>HasRemaining\<close> is tagged to be left out, so it is
  false in everything that is decoded.
\<close>

definition forgets_remaining :: "session_quota_info codec \<Rightarrow> bool" where
  "forgets_remaining J \<longleftrightarrow> (\<forall>d info m rl. unmarshal J d = Some info \<longrightarrow> gm_get (sq_RateLimitsByModel info) m = Some rl \<longrightarrow> \<not> rl_HasRemaining rl)"

text \<open>
  The remaining quota never reaches the pool display: whatever the upstream reported and the
  store recorded, no cell of any account has a remaining count.
\<close>

theorem pool_never_shows_remaining:
  assumes "forgets_remaining (qs_session_json qs)" and "ap \<in> set (fst (GetPoolStatus (Some qs) up broken t accounts r))"
    and "(model, cell) \<in> set (ap_Models ap)"
  shows "\<not> mp_HasRemaining cell \<and> mp_Remaining cell = None"
proof -
  obtain a where "ap = account_pool qs up broken t a r"
    using assms(2) by (auto simp: GetPoolStatus_def List.map_filter_def split: option.splits if_splits)
  then obtain info blocks where c: "cell = pool_cell t info blocks model"
    and i: "info = get_json (qs_redis qs) (qs_session_json qs) up t (quota_sessionKey qs (ID a)) r"
    using assms(3) by (auto simp: account_pool_def Let_def)
  have b: "mp_HasRemaining (block_cell b cell) = mp_HasRemaining cell" "mp_Remaining (block_cell b cell) = mp_Remaining cell" for b cell
    by (simp_all add: block_cell_def Let_def)
  have "\<not> mp_HasRemaining (session_cell t inf model empty_cell) \<and> mp_Remaining (session_cell t inf model empty_cell) = None"
    if "info = Some inf" for inf
  proof -
    have "\<exists>d. unmarshal (qs_session_json qs) d = Some inf"
      using i that by (cases "x_get (qs_redis qs) t (quota_sessionKey qs (ID a)) r") (auto simp: get_json_def split: if_splits)
    then have "gm_get (sq_RateLimitsByModel inf) model = Some rl \<Longrightarrow> \<not> rl_HasRemaining rl" for rl
      using assms(1) unfolding forgets_remaining_def by blast
    then show ?thesis by (auto simp: session_cell_def empty_cell_def Let_def split: option.splits)
  qed
  then show ?thesis by (auto simp: c pool_cell_def b empty_cell_def Let_def split: option.splits)
qed

section \<open>Reading upstream values\<close>

lemma fold_limits:
  "distinct (map fst raw) \<Longrightarrow> gm_get (fold (\<lambda>(model, v) result. (case v of
        AMap mraw \<Rightarrow> let mr = parse_limit rfc mraw in if no_signal mr then result else gm_put model mr result
      | _ \<Rightarrow> result)) raw out) m
    = (case gm_get raw m of
         Some (AMap mraw) \<Rightarrow> if no_signal (parse_limit rfc mraw) then gm_get out m else Some (parse_limit rfc mraw)
       | _ \<Rightarrow> gm_get out m)"
proof (induction raw arbitrary: out)
  case (Cons kv raw)
  obtain k v where kv: "kv = (k, v)" by (cases kv)
  have "gm_get raw k = None" using Cons.prems kv by (simp add: map_of_eq_None_iff)
  then show ?case using Cons kv by (cases v) (auto simp: gomap_simps Let_def split: option.split any.split)
qed simp

text \<open>
  Nothing about a model's quota is made up: the entry of a model is exactly what its object
  says; a missing \<open>remaining\<close> is missing and not zero; and a model without any signal has no entry.
\<close>

theorem session_limits_faithful:
  assumes "gm_get m ''rateLimitsByModel'' = Some (AMap raw)" and "distinct (map fst raw)"
  shows "\<exists>limits. ParseSessionRateLimits rfc (Some m) = Some limits
    \<and> gm_get limits model = (case gm_get raw model of
        Some (AMap mraw) \<Rightarrow> if no_signal (parse_limit rfc mraw) then None else Some (parse_limit rfc mraw)
      | _ \<Rightarrow> None)
    \<and> (case gm_get limits model of
        Some rl \<Rightarrow> (rl_HasRemaining rl \<longleftrightarrow> (\<exists>mraw x. gm_get raw model = Some (AMap mraw) \<and> num_field mraw ''remaining'' = Some x))
          \<and> (rl_HasRemaining rl \<longleftrightarrow> rl_Remaining rl \<noteq> None)
      | None \<Rightarrow> True)"
proof -
  obtain limits where l: "ParseSessionRateLimits rfc (Some m) = Some limits"
    "gm_get limits model = (case gm_get raw model of
        Some (AMap mraw) \<Rightarrow> if no_signal (parse_limit rfc mraw) then None else Some (parse_limit rfc mraw) | _ \<Rightarrow> None)"
    using assms(1) fold_limits [OF assms(2), of rfc "[]" model, unfolded map_of.simps(1)] that
    by (simp add: ParseSessionRateLimits_def)
  have "rl_HasRemaining (parse_limit rfc mraw) = (num_field mraw ''remaining'' \<noteq> None)"
    "rl_HasRemaining (parse_limit rfc mraw) = (rl_Remaining (parse_limit rfc mraw) \<noteq> None)" for mraw
    by (simp_all add: parse_limit_def Let_def)
  then show ?thesis using l by (auto split: option.splits any.splits if_splits)
qed

section \<open>Instances\<close>

definition sample_block :: model_block where
  "sample_block = \<lparr>mb_Model = ''minimax/minimax-m3'', mb_Limit = 5, mb_RecentCount = 5, mb_ResetAt = 2 * hour, mb_BlockedAt = hour,
     mb_RetryAfterMs = 0\<rparr>"

definition sample_limit :: model_rate_limit where
  "sample_limit = \<lparr>rl_Limit = 5, rl_HasRemaining = False, rl_Remaining = Some 2, rl_RecentCount = 3, rl_ResetAt = zero_time, rl_Window = ''''\<rparr>"

definition sample_info :: session_quota_info where
  "sample_info = \<lparr>sq_RateLimitsByModel = [(''minimax/minimax-m3'', sample_limit)], sq_SyncedAt = hour\<rparr>"

definition sample_quota :: "ttl_map quota_store" where
  "sample_quota = \<lparr>qs_redis = ttl_server, qs_prefix = ''codebuff'', qs_block_json = table_codec [(''b'', sample_block)],
     qs_streak_json = table_codec [], qs_session_json = table_codec [(''s'', sample_info)]\<rparr>"

lemma sample_quota_simps [simp]: "qs_redis sample_quota = ttl_server" "qs_prefix sample_quota = ''codebuff''"
  "marshal (qs_block_json sample_quota) sample_block = Some ''b''" "unmarshal (qs_session_json sample_quota) ''s'' = Some sample_info"
  by (simp_all add: sample_quota_def table_codec_def)

lemma sample_record: "RecordBlock (Some sample_quota) True hour 7 (Some sample_block) [] = (True, tm_set hour
    (blockKey sample_quota 7 (mb_Model sample_block)) ''b'' (blockTTL hour (mb_ResetAt sample_block)) [])"
  by (simp add: RecordBlock_def put_json_def ttl_server_def)

theorem block_lifetime_witness:
  "\<exists>r'. RecordBlock (Some sample_quota) True hour 7 (Some sample_block) [] = (True, r')
     \<and> IsBlocked (Some sample_quota) True (2 * hour) r' 7 ''minimax/minimax-m3'' = Some True
     \<and> IsBlocked (Some sample_quota) True (2 * hour) r' 8 ''minimax/minimax-m3'' = Some False"
proof -
  have "IsBlocked (Some sample_quota) True (2 * hour) [] 8 ''minimax/minimax-m3'' = Some False"
    by (simp add: IsBlocked_def ttl_server_def tm_get_def)
  then show ?thesis
    using block_lifetime [OF _ sample_record, of "2 * hour"] sample_record ttl.expiring_redis_axioms
    by (auto simp: sample_block_def in64_def hour_def minute_def second_def is_zero_def zero_time_def)
qed

definition two_sessions :: ttl_map where
  "two_sessions = [(quota_sessionKey sample_quota 7, (''s'', None)), (quota_sessionKey sample_quota 8, (''garbage'', None)),
     (streakKey sample_quota 7, (''streak'', None))]"

lemma two_sessions_keys: "quota_sessionKey sample_quota 7 \<noteq> quota_sessionKey sample_quota 8"
  by (simp add: quota_sessionKey_def)

lemma two_sessions_scan: "x_scan ttl_server t (session_key_prefix sample_quota) two_sessions
    = [quota_sessionKey sample_quota 7, quota_sessionKey sample_quota 8]"
  using quota_keys_differ [of sample_quota] two_sessions_keys by (simp add: ttl_server_def two_sessions_def tm_get_def)

theorem orphan_cleaning_witness:
  "\<exists>n ok r'. ClearOrphanSessionQuotas (Some sample_quota) (\<lambda>k. True) None (\<lambda>i. True) (2 * hour) (2 * hour) two_sessions = (n, ok, r')
     \<and> n \<le> 2 \<and> x_get ttl_server hour (streakKey sample_quota 7) r' = Some ''streak''"
proof -
  obtain n ok r' where r: "ClearOrphanSessionQuotas (Some sample_quota) (\<lambda>k. True) None (\<lambda>i. True) (2 * hour) (2 * hour) two_sessions = (n, ok, r')"
    by (cases "ClearOrphanSessionQuotas (Some sample_quota) (\<lambda>k. True) None (\<lambda>i. True) (2 * hour) (2 * hour) two_sessions")
  from orphan_cleaning [OF _ _ r] ttl.expiring_redis_axioms two_sessions_scan two_sessions_keys obtain gone where g:
    "n = card gone" "gone \<subseteq> {k. has_prefix k (session_key_prefix sample_quota) \<and> orphan sample_quota (\<lambda>k. True) (2 * hour) 0 two_sessions k}"
    "\<forall>t k. x_get ttl_server t k r' = (if k \<in> gone then None else x_get ttl_server t k two_sessions)" by auto
  have "gone \<subseteq> {quota_sessionKey sample_quota 7, quota_sessionKey sample_quota 8}"
    using g(2) ttl.set_scan [of "2 * hour" "session_key_prefix sample_quota" two_sessions]
    by (auto simp: two_sessions_scan orphan_def split: option.splits)
  then have "n \<le> 2" unfolding g(1) by (metis card_mono card_2_iff finite.emptyI finite.insertI two_sessions_keys)
  moreover have "streakKey sample_quota 7 \<notin> gone" using g(2) quota_keys_differ(8) [of sample_quota 7] by auto
  moreover have "x_get ttl_server hour (streakKey sample_quota 7) two_sessions = Some ''streak''"
    by (simp add: ttl_server_def two_sessions_def tm_get_def streakKey_def quota_sessionKey_def)
  ultimately show ?thesis using r g(3) by auto
qed

theorem daily_reset_witness:
  "\<exists>r'. ClearQuotaResetData (Some sample_quota) None (\<lambda>i. True) 0 two_sessions = (True, r')
     \<and> x_get ttl_server 0 (quota_sessionKey sample_quota 7) r' = None"
proof -
  have p: "has_prefix (streakKey sample_quota 7) ''codebuff:quota:''" by (simp add: has_prefix_def streakKey_def)
  have "\<exists>r'. ClearQuotaResetData (Some sample_quota) None (\<lambda>i. True) 0 two_sessions = (True, r')"
    by (simp add: ClearQuotaResetData_def scan_keys_def ttl_server_def two_sessions_def tm_get_def
        has_prefix_def quota_sessionKey_def streakKey_def delete_batches.simps [of _ _ 0] delete_batches.simps [of _ _ _ "[]"])
  then obtain r' where r: "ClearQuotaResetData (Some sample_quota) None (\<lambda>i. True) 0 two_sessions = (True, r')" by blast
  from daily_reset [OF _ r] ttl.expiring_redis_axioms show ?thesis using r by auto
qed

theorem pool_never_shows_remaining_witness:
  "\<exists>ap cell. ap \<in> set (fst (GetPoolStatus (Some sample_quota) (\<lambda>k. True) None 0
       [Some (zero_account\<lparr>ID := 7, AccountType := ''codebuff''\<rparr>)] two_sessions))
     \<and> (''minimax/minimax-m3'', cell) \<in> set (ap_Models ap) \<and> mp_Remaining cell = None"
proof -
  have f: "forgets_remaining (qs_session_json sample_quota)"
    by (auto simp: forgets_remaining_def sample_quota_def table_codec_def sample_info_def sample_limit_def split: if_splits)
  let ?ap = "account_pool sample_quota (\<lambda>k. True) None 0 (zero_account\<lparr>ID := 7, AccountType := ''codebuff''\<rparr>) two_sessions"
  have ap: "?ap \<in> set (fst (GetPoolStatus (Some sample_quota) (\<lambda>k. True) None 0
       [Some (zero_account\<lparr>ID := 7, AccountType := ''codebuff''\<rparr>)] two_sessions))"
    by (simp add: GetPoolStatus_def List.map_filter_def zero_account_def)
  have "''minimax/minimax-m3'' \<in> set allModelIDs" by code_simp
  then obtain cell where c: "(''minimax/minimax-m3'', cell) \<in> set (ap_Models ?ap)" by (auto simp: account_pool_def Let_def)
  from pool_never_shows_remaining [OF f ap c] show ?thesis using ap c by blast
qed

theorem session_limits_faithful_witness:
  "\<exists>limits. ParseSessionRateLimits (\<lambda>s. None)
      (Some [(''rateLimitsByModel'', AMap [(''m'', AMap [(''limit'', ANum 5), (''recentCount'', ANum (9 / 2))]), (''n'', AMap [])])]) = Some limits
    \<and> gm_get limits ''n'' = None
    \<and> gm_get limits ''m'' = Some \<lparr>rl_Limit = 5, rl_HasRemaining = False, rl_Remaining = None, rl_RecentCount = 9 / 2, rl_ResetAt = zero_time, rl_Window = ''''\<rparr>"
proof -
  let ?raw = "[(''m'', AMap [(''limit'', ANum 5), (''recentCount'', ANum (9 / 2))]), (''n'', AMap [])]"
  have g: "gm_get [(''rateLimitsByModel'', AMap ?raw)] ''rateLimitsByModel'' = Some (AMap ?raw)" "distinct (map fst ?raw)" by simp_all
  note f = session_limits_faithful [OF g, of "\<lambda>s. None"]
  have l: "parse_limit (\<lambda>s. None) [(''limit'', ANum 5), (''recentCount'', ANum (9 / 2))]
      = \<lparr>rl_Limit = 5, rl_HasRemaining = False, rl_Remaining = None, rl_RecentCount = 9 / 2, rl_ResetAt = zero_time, rl_Window = ''''\<rparr>"
    "no_signal (parse_limit (\<lambda>s. None) [])"
    by (simp_all add: parse_limit_def num_field_def str_field_def time_field_def or_else_def f_to_int_def no_signal_def is_zero_def Let_def)
  show ?thesis using f [of "''m''"] f [of "''n''"] l by (auto simp: no_signal_def)
qed

end
