(* ===== verification/Upstream_Sessions.thy ===== *)
theory Upstream_Sessions
  imports Expiring_Redis
begin

text \<open>
  The cache of upstream sessions of \<open>internal/codebuff/session.go\<close>: sessions live in Redis for the time
  the upstream reports, and a lock per token and model keeps two processes from creating one at the
  same time. \<open>EnsureSession\<close> runs in many processes at once, so it is a step relation: every Redis or
  upstream call and every wait of its code is a step, and time passes in between.
\<close>

section \<open>Sessions\<close>

record upstream_session =
  us_InstanceID :: string
  us_Model :: string
  us_ExpiresAt :: string
  us_RemainingMs :: int

definition IsFresh :: "int \<Rightarrow> upstream_session option \<Rightarrow> bool" where
  "IsFresh thresholdMs sess = (case sess of None \<Rightarrow> False
     | Some s \<Rightarrow> us_RemainingMs s = 0 \<or> us_RemainingMs s > thresholdMs)"

record session_cache_config =
  sc_LockTTL :: duration
  sc_PollTimeout :: duration
  sc_PollDelay :: duration
  sc_FreshThresholdMs :: int

definition session_withDefaults :: "session_cache_config \<Rightarrow> session_cache_config" where
  "session_withDefaults c = c\<lparr>
     sc_LockTTL := (if sc_LockTTL c \<le> 0 then 60 * second else sc_LockTTL c),
     sc_PollTimeout := (if sc_PollTimeout c \<le> 0 then 5 * second else sc_PollTimeout c),
     sc_PollDelay := (if sc_PollDelay c \<le> 0 then 250 * millisecond else sc_PollDelay c),
     sc_FreshThresholdMs := (if sc_FreshThresholdMs c \<le> 0 then 30000 else sc_FreshThresholdMs c)\<rparr>"

text \<open>The cache: its server, the JSON codec of sessions, the hash of tokens and the configuration.\<close>

record 'r session_cache =
  sn_redis :: "'r expiring"
  sn_json :: "upstream_session codec"
  sn_sha256hex :: "string \<Rightarrow> string"
  sn_prefix :: string
  sn_config :: session_cache_config

definition NewSessionCacheWith ::
    "'r expiring \<Rightarrow> upstream_session codec \<Rightarrow> (string \<Rightarrow> string) \<Rightarrow> string \<Rightarrow> session_cache_config \<Rightarrow> 'r session_cache" where
  "NewSessionCacheWith X J sha pfx cfg = \<lparr>sn_redis = X, sn_json = J, sn_sha256hex = sha,
     sn_prefix = (if pfx = '''' then ''codebuff'' else pfx), sn_config = session_withDefaults cfg\<rparr>"

definition NewSessionCache :: "'r expiring \<Rightarrow> upstream_session codec \<Rightarrow> (string \<Rightarrow> string) \<Rightarrow> string \<Rightarrow> 'r session_cache" where
  "NewSessionCache X J sha pfx = NewSessionCacheWith X J sha pfx
     \<lparr>sc_LockTTL = 0, sc_PollTimeout = 0, sc_PollDelay = 0, sc_FreshThresholdMs = 0\<rparr>"

definition cache_session_key :: "'r session_cache \<Rightarrow> string \<times> string \<Rightarrow> string" where
  "cache_session_key C rq = sn_prefix C @ '':session:'' @ take 16 (sn_sha256hex C (fst rq)) @ '':'' @ snd rq"

definition cache_lock_key :: "'r session_cache \<Rightarrow> string \<times> string \<Rightarrow> string" where
  "cache_lock_key C rq = sn_prefix C @ '':session_lock:'' @ take 16 (sn_sha256hex C (fst rq)) @ '':'' @ snd rq"

definition loadSession :: "'r session_cache \<Rightarrow> instant \<Rightarrow> string \<Rightarrow> 'r \<Rightarrow> upstream_session option" where
  "loadSession C t key r = Option.bind (x_get (sn_redis C) t key r) (unmarshal (sn_json C))"

definition session_ttl :: "upstream_session \<Rightarrow> duration" where
  "session_ttl s = (if 0 < us_RemainingMs s then wrap64 (us_RemainingMs s * millisecond) else 24 * hour)"

definition saveSession :: "'r session_cache \<Rightarrow> instant \<Rightarrow> string \<Rightarrow> upstream_session option \<Rightarrow> 'r \<Rightarrow> 'r" where
  "saveSession C now key sess r = (case sess of
     None \<Rightarrow> x_del (sn_redis C) key r
   | Some s \<Rightarrow> (case marshal (sn_json C) s of None \<Rightarrow> r
       | Some raw \<Rightarrow> x_set (sn_redis C) now key raw (session_ttl s) r))"

definition EvictSession :: "'r session_cache \<Rightarrow> string \<times> string \<Rightarrow> 'r \<Rightarrow> 'r" where
  "EvictSession C rq r = x_del (sn_redis C) (cache_session_key C rq) r"

section \<open>EnsureSession\<close>

text \<open>The cached session that is returned at once: fresh and of the requested model.\<close>

definition usable_session :: "'r session_cache \<Rightarrow> instant \<Rightarrow> string \<times> string \<Rightarrow> 'r \<Rightarrow> upstream_session option" where
  "usable_session C t rq r = (case loadSession C t (cache_session_key C rq) r of
     Some s \<Rightarrow> if IsFresh (sc_FreshThresholdMs (sn_config C)) (Some s) \<and> us_Model s = snd rq then Some s else None
   | None \<Rightarrow> None)"

definition wrong_model :: "'r session_cache \<Rightarrow> instant \<Rightarrow> string \<times> string \<Rightarrow> 'r \<Rightarrow> bool" where
  "wrong_model C t rq r = (case loadSession C t (cache_session_key C rq) r of
     Some s \<Rightarrow> IsFresh (sc_FreshThresholdMs (sn_config C)) (Some s) \<and> us_Model s \<noteq> snd rq
   | None \<Rightarrow> False)"

datatype ensured = Reused upstream_session | Created upstream_session | CreateFailed | RedisLockError | LockTimeout | ContextCanceled

text \<open>
  Where a call stands: before its lookup, at the lock, polling until a deadline, asleep before the next
  look, creating (since it took the lock; \<open>True\<close> for the first attempt), at its deferred release.
\<close>

datatype phase = Looking | Locking | Polling instant | Asleep instant instant | Creating instant bool
  | Releasing instant ensured | Ended ensured

record 'r ensure_state =
  en_redis :: 'r
  en_now :: instant
  en_phase :: "nat \<Rightarrow> phase"

definition go_to :: "nat \<Rightarrow> phase \<Rightarrow> 'r ensure_state \<Rightarrow> 'r ensure_state" where
  "go_to i p s = s\<lparr>en_phase := (en_phase s)(i := p)\<rparr>"

definition go_with :: "nat \<Rightarrow> phase \<Rightarrow> 'r \<Rightarrow> 'r ensure_state \<Rightarrow> 'r ensure_state" where
  "go_with i p r s = s\<lparr>en_phase := (en_phase s)(i := p), en_redis := r\<rparr>"

text \<open>The i-th call asks for the token and model \<open>rq i\<close>. \<open>slack\<close> says which time steps are allowed.\<close>

inductive ensure_step :: "'r session_cache \<Rightarrow> (nat \<Rightarrow> string \<times> string) \<Rightarrow> ('r ensure_state \<Rightarrow> instant \<Rightarrow> bool)
    \<Rightarrow> 'r ensure_state \<Rightarrow> 'r ensure_state \<Rightarrow> bool"
  for C rq slack where
  tick: "en_now s \<le> t \<Longrightarrow> slack s t \<Longrightarrow> ensure_step C rq slack s (s\<lparr>en_now := t\<rparr>)"
| look_hit: "en_phase s i = Looking \<Longrightarrow> usable_session C (en_now s) (rq i) (en_redis s) = Some c \<Longrightarrow>
    ensure_step C rq slack s (go_to i (Ended (Reused c)) s)"
| look_evict: "en_phase s i = Looking \<Longrightarrow> wrong_model C (en_now s) (rq i) (en_redis s) \<Longrightarrow>
    ensure_step C rq slack s (go_with i Locking (x_del (sn_redis C) (cache_session_key C (rq i)) (en_redis s)) s)"
| look_miss: "en_phase s i = Looking \<Longrightarrow> usable_session C (en_now s) (rq i) (en_redis s) = None \<Longrightarrow>
    ensure_step C rq slack s (go_to i Locking s)"
| look_failed: "en_phase s i = Looking \<Longrightarrow> ensure_step C rq slack s (go_to i Locking s)"
| lock_taken: "en_phase s i = Locking \<Longrightarrow>
    x_setnx (sn_redis C) (en_now s) (cache_lock_key C (rq i)) ''1'' (sc_LockTTL (sn_config C)) (en_redis s) = (True, r) \<Longrightarrow>
    ensure_step C rq slack s (go_with i (Creating (en_now s) True) r s)"
| lock_busy: "en_phase s i = Locking \<Longrightarrow>
    x_setnx (sn_redis C) (en_now s) (cache_lock_key C (rq i)) ''1'' (sc_LockTTL (sn_config C)) (en_redis s) = (False, r) \<Longrightarrow>
    ensure_step C rq slack s (go_with i (Polling (en_now s + sc_PollTimeout (sn_config C))) r s)"
| lock_failed: "en_phase s i = Locking \<Longrightarrow> ensure_step C rq slack s (go_to i (Ended RedisLockError) s)"
| poll_sleep: "en_phase s i = Polling d \<Longrightarrow> en_now s < d \<Longrightarrow> ensure_step C rq slack s (go_to i (Asleep d (en_now s)) s)"
| poll_timeout: "en_phase s i = Polling d \<Longrightarrow> d \<le> en_now s \<Longrightarrow> ensure_step C rq slack s (go_to i (Ended LockTimeout) s)"
| wake_canceled: "en_phase s i = Asleep d t \<Longrightarrow> ensure_step C rq slack s (go_to i (Ended ContextCanceled) s)"
| wake_hit: "en_phase s i = Asleep d t \<Longrightarrow> t + sc_PollDelay (sn_config C) \<le> en_now s \<Longrightarrow>
    usable_session C (en_now s) (rq i) (en_redis s) = Some c \<Longrightarrow> ensure_step C rq slack s (go_to i (Ended (Reused c)) s)"
| wake_miss: "en_phase s i = Asleep d t \<Longrightarrow> t + sc_PollDelay (sn_config C) \<le> en_now s \<Longrightarrow>
    usable_session C (en_now s) (rq i) (en_redis s) = None \<Longrightarrow> ensure_step C rq slack s (go_to i (Polling d) s)"
| wake_failed: "en_phase s i = Asleep d t \<Longrightarrow> t + sc_PollDelay (sn_config C) \<le> en_now s \<Longrightarrow>
    ensure_step C rq slack s (go_to i (Polling d) s)"
| create_ok: "en_phase s i = Creating t first \<Longrightarrow>
    ensure_step C rq slack s (go_with i (Releasing t (Created c))
      (saveSession C (en_now s) (cache_session_key C (rq i)) (Some c) (en_redis s)) s)"
| create_unsaved: "en_phase s i = Creating t first \<Longrightarrow> ensure_step C rq slack s (go_to i (Releasing t (Created c)) s)"
| create_locked: "en_phase s i = Creating t True \<Longrightarrow>
    ensure_step C rq slack s (go_with i (Creating t False) (x_del (sn_redis C) (cache_session_key C (rq i)) (en_redis s)) s)"
| create_locked_kept: "en_phase s i = Creating t True \<Longrightarrow> ensure_step C rq slack s (go_to i (Creating t False) s)"
| create_failed: "en_phase s i = Creating t first \<Longrightarrow> ensure_step C rq slack s (go_to i (Releasing t CreateFailed) s)"
| release: "en_phase s i = Releasing t out \<Longrightarrow>
    ensure_step C rq slack s (go_with i (Ended out) (x_del (sn_redis C) (cache_lock_key C (rq i)) (en_redis s)) s)"
| release_failed: "en_phase s i = Releasing t out \<Longrightarrow> ensure_step C rq slack s (go_to i (Ended out) s)"

inductive ensure_reachable :: "'r session_cache \<Rightarrow> (nat \<Rightarrow> string \<times> string) \<Rightarrow> ('r ensure_state \<Rightarrow> instant \<Rightarrow> bool)
    \<Rightarrow> 'r \<Rightarrow> 'r ensure_state \<Rightarrow> bool"
  for C rq slack r0 where
  start: "ensure_reachable C rq slack r0 \<lparr>en_redis = r0, en_now = t, en_phase = (\<lambda>i. Looking)\<rparr>"
| step: "ensure_reachable C rq slack r0 s \<Longrightarrow> ensure_step C rq slack s s' \<Longrightarrow> ensure_reachable C rq slack r0 s'"

text \<open>The instant at which a call took the lock that it still believes to hold.\<close>

fun lock_since :: "phase \<Rightarrow> instant option" where
  "lock_since (Creating t first) = Some t"
| "lock_since (Releasing t out) = Some t"
| "lock_since p = None"

text \<open>Time steps that never outlast the lock of a call that holds it.\<close>

definition timely :: "'r session_cache \<Rightarrow> 'r ensure_state \<Rightarrow> instant \<Rightarrow> bool" where
  "timely C s t \<longleftrightarrow> (\<forall>i t0. lock_since (en_phase s i) = Some t0 \<longrightarrow> t < t0 + ttl_sent (sc_LockTTL (sn_config C)))"

section \<open>Exclusion\<close>

lemma session_lock_keys: "cache_session_key C rq \<noteq> cache_lock_key C rq'"
  by (simp add: cache_session_key_def cache_lock_key_def)

definition locked_inv :: "'r session_cache \<Rightarrow> (nat \<Rightarrow> string \<times> string) \<Rightarrow> 'r ensure_state \<Rightarrow> bool" where
  "locked_inv C rq s \<longleftrightarrow>
     (\<forall>i t0. lock_since (en_phase s i) = Some t0 \<longrightarrow> t0 \<le> en_now s
        \<and> en_now s < t0 + ttl_sent (sc_LockTTL (sn_config C))
        \<and> (\<forall>t. en_now s \<le> t \<and> t < t0 + ttl_sent (sc_LockTTL (sn_config C))
             \<longrightarrow> x_get (sn_redis C) t (cache_lock_key C (rq i)) (en_redis s) \<noteq> None))
     \<and> (\<forall>i j. lock_since (en_phase s i) \<noteq> None \<and> lock_since (en_phase s j) \<noteq> None
          \<and> cache_lock_key C (rq i) = cache_lock_key C (rq j) \<longrightarrow> i = j)"

text \<open>A step that does not touch lock keys and takes no lock.\<close>

lemma locked_inv_move:
  assumes "locked_inv C rq s" and "en_now s' = en_now s"
    and "\<And>i. lock_since (en_phase s' i) \<noteq> None \<Longrightarrow> lock_since (en_phase s' i) = lock_since (en_phase s i)"
    and "\<And>i t. lock_since (en_phase s' i) \<noteq> None \<Longrightarrow> en_now s \<le> t \<Longrightarrow> x_get (sn_redis C) t (cache_lock_key C (rq i)) (en_redis s')
        = x_get (sn_redis C) t (cache_lock_key C (rq i)) (en_redis s)"
  shows "locked_inv C rq s'"
  using assms unfolding locked_inv_def by (metis option.distinct(1))

context expiring_redis
begin

lemma save_keeps_locks:
  assumes "sn_redis C = X" and "now \<le> t"
  shows "x_get X t (cache_lock_key C q) (saveSession C now (cache_session_key C q') sess r)
    = x_get X t (cache_lock_key C q) r"
  using session_lock_keys [of C q' q] assms by (auto simp: saveSession_def get_set get_del split: option.splits)

lemma evict_keeps_locks:
  "x_get X t (cache_lock_key C q) (x_del X (cache_session_key C q') r) = x_get X t (cache_lock_key C q) r"
  using session_lock_keys [of C q' q] by (auto simp: get_del)

lemma locked_inv_taken:
  assumes X: "sn_redis C = X" and inv: "locked_inv C rq s" and "en_phase s i = Locking"
    and "x_setnx X (en_now s) (cache_lock_key C (rq i)) ''1'' (sc_LockTTL (sn_config C)) (en_redis s) = (True, r)"
  shows "locked_inv C rq (go_with i (Creating (en_now s) True) r s)"
proof -
  let ?k = "\<lambda>i. cache_lock_key C (rq i)" and ?ttl = "sc_LockTTL (sn_config C)"
  have r: "x_get X (en_now s) (?k i) (en_redis s) = None" "r = x_set X (en_now s) (?k i) ''1'' ?ttl (en_redis s)"
    using setnx_taken [OF assms(4)] by simp_all
  have fresh: "0 < ttl_sent ?ttl" by (auto simp: ttl_sent_def millisecond_def)
  have other: "?k j \<noteq> ?k i" if nn: "lock_since (en_phase s j) \<noteq> None" for j
  proof
    assume "?k j = ?k i"
    moreover obtain t0 where "lock_since (en_phase s j) = Some t0" using nn by auto
    ultimately have "x_get X (en_now s) (?k i) (en_redis s) \<noteq> None" using inv X unfolding locked_inv_def by force
    then show False using r(1) by simp
  qed
  show ?thesis
    unfolding locked_inv_def
  proof (intro conjI allI impI)
    fix j t0 t
    assume j: "lock_since (en_phase (go_with i (Creating (en_now s) True) r s) j) = Some t0"
    then show "t0 \<le> en_now (go_with i (Creating (en_now s) True) r s)"
      "en_now (go_with i (Creating (en_now s) True) r s) < t0 + ttl_sent ?ttl"
      using inv fresh by (auto simp: go_with_def locked_inv_def split: if_splits)
    assume t: "en_now (go_with i (Creating (en_now s) True) r s) \<le> t \<and> t < t0 + ttl_sent ?ttl"
    then show "x_get (sn_redis C) t (?k j) (en_redis (go_with i (Creating (en_now s) True) r s)) \<noteq> None"
    proof (cases "j = i")
      case True
      then show ?thesis using t j by (simp add: go_with_def X r(2) get_set alive_for_def)
    next
      case False
      then have "lock_since (en_phase s j) = Some t0" using j by (simp add: go_with_def)
      then show ?thesis using t other [of j] inv X by (simp add: go_with_def r(2) get_set locked_inv_def)
    qed
  next
    fix j l
    assume a: "lock_since (en_phase (go_with i (Creating (en_now s) True) r s) j) \<noteq> None
      \<and> lock_since (en_phase (go_with i (Creating (en_now s) True) r s) l) \<noteq> None \<and> ?k j = ?k l"
    show "j = l"
    proof (cases "j = i \<or> l = i")
      case True
      then show ?thesis using a other [of j] other [of l] by (auto simp: go_with_def split: if_splits)
    next
      case False
      then have "lock_since (en_phase s j) \<noteq> None \<and> lock_since (en_phase s l) \<noteq> None \<and> ?k j = ?k l"
        using a by (simp add: go_with_def)
      then show ?thesis using inv unfolding locked_inv_def by blast
    qed
  qed
qed

lemma locked_inv_step:
  assumes "sn_redis C = X" and "ensure_step C rq (timely C) s s'" and "locked_inv C rq s"
  shows "locked_inv C rq s'"
  using assms(2)
proof cases
  case (tick t)
  then have "t0 \<le> t" if "lock_since (en_phase s i) = Some t0" for i t0
    using assms(3) that unfolding locked_inv_def by (meson order_trans)
  then show ?thesis using assms(3) tick by (auto simp: locked_inv_def timely_def)
next
  case (lock_taken i r)
  then show ?thesis using locked_inv_taken [OF assms(1,3)] assms(1) by simp
next
  case (release i t out)
  have "x_get X t' (cache_lock_key C (rq j)) (x_del X (cache_lock_key C (rq i)) (en_redis s)) = x_get X t' (cache_lock_key C (rq j)) (en_redis s)"
    if "lock_since (en_phase s j) \<noteq> None" "j \<noteq> i" for j t'
  proof -
    have "cache_lock_key C (rq j) \<noteq> cache_lock_key C (rq i)"
      using assms(3) that release(2) unfolding locked_inv_def by force
    then show ?thesis by (simp add: get_del)
  qed
  then show ?thesis unfolding release(1)
    by (intro locked_inv_move [OF assms(3)]) (auto simp: go_with_def assms(1) split: if_splits)
next
  case (lock_busy i r)
  then have "r = en_redis s" using assms(1) by (auto simp: setnx split: if_splits)
  then show ?thesis unfolding lock_busy(1)
    by (intro locked_inv_move [OF assms(3)]) (auto simp: go_with_def split: if_splits)
qed (auto intro!: locked_inv_move [OF assms(3)] simp: go_to_def go_with_def assms(1) save_keeps_locks evict_keeps_locks split: if_splits)

lemma locked_inv_reachable:
  assumes "ensure_reachable C rq (timely C) r0 s" and "sn_redis C = X"
  shows "locked_inv C rq s"
  using assms(1)
proof induction
  case (start t)
  then show ?case by (simp add: locked_inv_def)
next
  case (step s s')
  then show ?case using locked_inv_step [OF assms(2)] by blast
qed

end

section \<open>Properties\<close>

text \<open>
  Property C29. While no call outlasts its lock, at most one of all the processes that ask for a session of
  one token and model is between taking the lock and releasing it, so no two create a session at the
  same time, whatever the interleaving, the failures of Redis and the answers of the upstream.
\<close>

theorem session_lock_exclusive:
  assumes "expiring_redis (sn_redis C)" and "ensure_reachable C rq (timely C) r0 s"
    and "lock_since (en_phase s i) \<noteq> None" and "lock_since (en_phase s j) \<noteq> None"
    and "cache_lock_key C (rq i) = cache_lock_key C (rq j)"
  shows "i = j"
  using expiring_redis.locked_inv_reachable [OF assms(1,2) refl] assms(3-5) unfolding locked_inv_def by blast

definition reuse_inv :: "'r session_cache \<Rightarrow> (nat \<Rightarrow> string \<times> string) \<Rightarrow> 'r ensure_state \<Rightarrow> bool" where
  "reuse_inv C rq s \<longleftrightarrow> (\<forall>i c. (\<forall>t. en_phase s i \<noteq> Releasing t (Reused c))
     \<and> (en_phase s i = Ended (Reused c) \<longrightarrow> us_Model c = snd (rq i) \<and> IsFresh (sc_FreshThresholdMs (sn_config C)) (Some c)))"

lemma usable_facts: "usable_session C t q r = Some c \<Longrightarrow> us_Model c = snd q \<and> IsFresh (sc_FreshThresholdMs (sn_config C)) (Some c)"
  by (auto simp: usable_session_def split: option.splits if_splits)

lemma reuse_inv_step:
  assumes "ensure_step C rq slack s s'" and "reuse_inv C rq s"
  shows "reuse_inv C rq s'"
  using assms(1)
  by cases (use assms(2) in \<open>auto simp: reuse_inv_def go_to_def go_with_def dest: usable_facts split: if_splits\<close>)

text \<open>
  A session that is reused is one of the requested model and was reported with more than the
  configured time to spare, or with none reported.
\<close>

theorem session_reuse_sound:
  assumes "ensure_reachable C rq slack r0 s" and "en_phase s i = Ended (Reused c)"
  shows "us_Model c = snd (rq i) \<and> (us_RemainingMs c = 0 \<or> us_RemainingMs c > sc_FreshThresholdMs (sn_config C))"
proof -
  have "reuse_inv C rq s"
    using assms(1) by induction (auto simp: reuse_inv_def [of _ _ "\<lparr>en_redis = _, en_now = _, en_phase = _\<rparr>"] intro: reuse_inv_step)
  then show ?thesis using assms(2) by (auto simp: reuse_inv_def IsFresh_def)
qed

text \<open>
  The threshold is not a reserve: a saved session with a reported time above the threshold is
  reused until the very end of that time, for the time that is left is never computed; and one reported
  with no more than the threshold is never reused, although it is kept for its whole time.
\<close>

theorem session_served_to_the_end:
  assumes "expiring_redis (sn_redis C)" and "codec_ok fit (sn_json C)" and "fit c" and "marshal (sn_json C) c = Some raw"
    and "0 < us_RemainingMs c" and "in64 (us_RemainingMs c * millisecond)"
    and "us_Model c = snd q" and "now \<le> t" and "r' = saveSession C now (cache_session_key C q) (Some c) r"
  shows "usable_session C t q r' =
    (if t < now + us_RemainingMs c * millisecond \<and> sc_FreshThresholdMs (sn_config C) < us_RemainingMs c then Some c else None)"
proof -
  have ttl: "session_ttl c = us_RemainingMs c * millisecond" using assms(5,6) by (simp add: session_ttl_def wrap64_id)
  have "millisecond \<le> us_RemainingMs c * millisecond" using assms(5) by (simp add: millisecond_def)
  then have "alive_for (session_ttl c) now t \<longleftrightarrow> t < now + us_RemainingMs c * millisecond"
    using assms(5) unfolding ttl alive_for_def ttl_sent_def by (auto simp: millisecond_def)
  then have "loadSession C t (cache_session_key C q) r' = (if t < now + us_RemainingMs c * millisecond then Some c else None)"
    using codec_okD [OF assms(2-4)] assms(4)
    by (simp add: assms(9) loadSession_def saveSession_def expiring_redis.get_set [OF assms(1,8)])
  then show ?thesis using assms(5,7) by (auto simp: usable_session_def IsFresh_def)
qed

section \<open>Runs\<close>

definition some_session :: upstream_session where
  "some_session = \<lparr>us_InstanceID = ''i'', us_Model = ''m'', us_ExpiresAt = '''', us_RemainingMs = 31000\<rparr>"

definition some_cache :: "ttl_map session_cache" where
  "some_cache = NewSessionCache ttl_server (table_codec [(''s'', some_session)]) (\<lambda>t. replicate 64 (CHR ''0'')) ''''"

definition one_request :: "nat \<Rightarrow> string \<times> string" where
  "one_request i = (''token'', ''m'')"

lemma some_cache_simps [simp]:
  "sn_redis some_cache = ttl_server" "sc_LockTTL (sn_config some_cache) = 60 * second"
  "sc_PollTimeout (sn_config some_cache) = 5 * second" "sc_FreshThresholdMs (sn_config some_cache) = 30000"
  by (simp_all add: some_cache_def NewSessionCache_def NewSessionCacheWith_def session_withDefaults_def second_def)

lemma ttl_server_simps:
  "x_setnx ttl_server now k v d m = (if tm_get now k m = None then (True, tm_set now k v d m) else (False, m))"
  "x_get ttl_server = tm_get" "x_del ttl_server = gm_del"
  by (simp_all add: ttl_server_def)

text \<open>The lock and nothing else in the server: no session is found, and the lock can be taken once it is over.\<close>

definition the_lock :: string where "the_lock = cache_lock_key some_cache (''token'', ''m'')"

definition locked_at :: "instant \<Rightarrow> ttl_map" where
  "locked_at t = [(the_lock, (''1'', Some (t + 60 * second)))]"

lemma locked_get: "tm_get t k (locked_at t0) = (if k = the_lock \<and> t < t0 + 60 * second then Some ''1'' else None)"
  by (simp add: tm_get_def locked_at_def)

lemma lock_again: "tm_set t the_lock ''1'' (60 * second) (locked_at t0) = locked_at t" "tm_set t the_lock ''1'' (60 * second) [] = locked_at t"
  "gm_del the_lock (locked_at t) = []"
  by (simp_all add: tm_set_def locked_at_def ttl_sent_def second_def millisecond_def)

lemma tm_get_Nil: "tm_get t k [] = None"
  by (simp add: tm_get_def)

lemma nothing_cached: "usable_session some_cache t (one_request i) (locked_at t0) = None" "usable_session some_cache t (one_request i) [] = None"
  using session_lock_keys [of some_cache "(''token'', ''m'')" "(''token'', ''m'')"]
  by (simp_all add: usable_session_def loadSession_def ttl_server_simps locked_get one_request_def the_lock_def tm_get_Nil)

definition at_phases :: "ttl_map \<Rightarrow> instant \<Rightarrow> phase \<Rightarrow> phase \<Rightarrow> phase \<Rightarrow> ttl_map ensure_state" where
  "at_phases r t p q u = \<lparr>en_redis = r, en_now = t, en_phase = (\<lambda>i. Looking)(0 := p, 1 := q, 2 := u)\<rparr>"

lemma phase_moves:
  "go_with 0 p' r' (at_phases r t p q u) = at_phases r' t p' q u" "go_with 1 q' r' (at_phases r t p q u) = at_phases r' t p q' u"
  "go_with 2 u' r' (at_phases r t p q u) = at_phases r' t p q u'"
  "go_to 0 p' (at_phases r t p q u) = at_phases r t p' q u" "go_to 1 q' (at_phases r t p q u) = at_phases r t p q' u"
  "go_to 2 u' (at_phases r t p q u) = at_phases r t p q u'"
  "(at_phases r t p q u)\<lparr>en_now := t'\<rparr> = at_phases r t' p q u"
  "en_phase (at_phases r t p q u) 0 = p" "en_phase (at_phases r t p q u) 1 = q" "en_phase (at_phases r t p q u) 2 = u"
  "en_redis (at_phases r t p q u) = r" "en_now (at_phases r t p q u) = t"
  by (auto simp: at_phases_def go_with_def go_to_def fun_eq_iff)

lemmas at_phases_moves = phase_moves phase_moves [unfolded One_nat_def]

lemma at_start: "at_phases r t Looking Looking Looking = \<lparr>en_redis = r, en_now = t, en_phase = (\<lambda>i. Looking)\<rparr>"
  by (auto simp: at_phases_def)

text \<open>The first call takes the free lock, the others reach it.\<close>

lemma first_takes_lock:
  assumes "slack = (\<lambda>s t. True) \<or> slack = timely some_cache"
  shows "ensure_reachable some_cache one_request slack [] (at_phases (locked_at 0) 0 (Creating 0 True) Locking Locking)"
proof -
  let ?r = "ensure_reachable some_cache one_request slack []" and ?step = "ensure_step some_cache one_request slack"
  have "?r (at_phases [] 0 Looking Looking Looking)"
    using ensure_reachable.start [of some_cache one_request slack "[]" 0] by (simp add: at_start)
  moreover have "?step (at_phases [] 0 Looking q u) (at_phases [] 0 Locking q u)"
    "?step (at_phases [] 0 p Looking u) (at_phases [] 0 p Locking u)" "?step (at_phases [] 0 p q Looking) (at_phases [] 0 p q Locking)" for p q u
    using ensure_step.look_miss [of "at_phases [] 0 Looking q u" 0] ensure_step.look_miss [of "at_phases [] 0 p Looking u" 1]
      ensure_step.look_miss [of "at_phases [] 0 p q Looking" 2] nothing_cached by (simp_all add: at_phases_moves)
  moreover have "?step (at_phases [] 0 Locking q u) (at_phases (locked_at 0) 0 (Creating 0 True) q u)" for q u
    using ensure_step.lock_taken [of "at_phases [] 0 Locking q u" 0 some_cache one_request "locked_at 0"]
    by (simp add: at_phases_moves ttl_server_simps tm_get_Nil one_request_def the_lock_def [symmetric] lock_again)
  ultimately show ?thesis by (meson ensure_reachable.step)
qed

theorem session_lock_exclusive_witness:
  "\<exists>s. ensure_reachable some_cache one_request (timely some_cache) [] s
     \<and> lock_since (en_phase s 0) \<noteq> None \<and> lock_since (en_phase s 1) = None"
proof -
  let ?s = "at_phases (locked_at 0) 0 (Creating 0 True) Locking Locking"
  have "ensure_reachable some_cache one_request (timely some_cache) [] ?s" using first_takes_lock by blast
  moreover from session_lock_exclusive [OF _ this, of 0 1] ttl.expiring_redis_axioms
  have "lock_since (en_phase ?s 1) = None" by (auto simp: at_phases_moves one_request_def)
  ultimately show ?thesis by (intro exI [of _ ?s]) (simp add: at_phases_moves)
qed

text \<open>
  The release does not ask whose lock it is: a creation that takes longer than the lock lives
  ends by deleting the lock of the next creator, and from then on two calls create a session for the
  same token and model at once, both of them well within their time.
\<close>

theorem slow_creation_breaks_lock:
  "\<exists>s. ensure_reachable some_cache one_request (\<lambda>s t. True) [] s \<and> en_now s = 60 * second
     \<and> en_phase s 1 = Creating (60 * second) True \<and> en_phase s 2 = Creating (60 * second) True
     \<and> cache_lock_key some_cache (one_request 1) = cache_lock_key some_cache (one_request 2)"
proof -
  let ?slack = "\<lambda>s t. True" and ?t = "60 * second"
  let ?r = "ensure_reachable some_cache one_request ?slack []" and ?step = "ensure_step some_cache one_request ?slack"
  let ?c = "Creating ?t True"
  have "?r (at_phases (locked_at 0) 0 (Creating 0 True) Locking Locking)" using first_takes_lock by blast
  moreover have "?step (at_phases (locked_at 0) 0 p q u) (at_phases (locked_at 0) ?t p q u)" for p q u
    using ensure_step.tick [of "at_phases (locked_at 0) 0 p q u" ?t ?slack] by (simp add: at_phases_moves second_def)
  moreover have "?step (at_phases (locked_at 0) ?t p Locking u) (at_phases (locked_at ?t) ?t p ?c u)" for p u
    using ensure_step.lock_taken [of "at_phases (locked_at 0) ?t p Locking u" 1 some_cache one_request "locked_at ?t"]
    by (simp add: at_phases_moves ttl_server_simps locked_get one_request_def the_lock_def [symmetric] lock_again)
  moreover have "?step (at_phases r ?t (Creating 0 True) q u) (at_phases r ?t (Releasing 0 CreateFailed) q u)" for r q u
    using ensure_step.create_failed [of "at_phases r ?t (Creating 0 True) q u" 0] by (simp add: at_phases_moves)
  moreover have "?step (at_phases (locked_at ?t) ?t (Releasing 0 o') q u) (at_phases [] ?t (Ended o') q u)" for o' q u
    using ensure_step.release [of "at_phases (locked_at ?t) ?t (Releasing 0 o') q u" 0 0 o' some_cache one_request]
    by (simp add: at_phases_moves ttl_server_simps one_request_def the_lock_def [symmetric] lock_again)
  moreover have "?step (at_phases [] ?t p q Locking) (at_phases (locked_at ?t) ?t p q ?c)" for p q
    using ensure_step.lock_taken [of "at_phases [] ?t p q Locking" 2 some_cache one_request "locked_at ?t"]
    by (simp add: at_phases_moves ttl_server_simps tm_get_Nil one_request_def the_lock_def [symmetric] lock_again)
  ultimately have "?r (at_phases (locked_at ?t) ?t (Ended CreateFailed) ?c ?c)" by (meson ensure_reachable.step)
  then show ?thesis by (intro exI [of _ "at_phases (locked_at ?t) ?t (Ended CreateFailed) ?c ?c"]) (simp add: at_phases_moves one_request_def)
qed

lemma some_codec: "codec_ok (\<lambda>s. True) (sn_json some_cache)" "marshal (sn_json some_cache) some_session = Some ''s''"
  by (auto simp: some_cache_def NewSessionCache_def NewSessionCacheWith_def codec_ok_def table_codec_def split: if_splits)

definition saved :: ttl_map where
  "saved = saveSession some_cache 0 (cache_session_key some_cache (one_request 0)) (Some some_session) []"

theorem session_served_to_the_end_witness:
  "usable_session some_cache (31 * second - 1) (one_request 0) saved = Some some_session
   \<and> usable_session some_cache (31 * second) (one_request 0) saved = None"
  using session_served_to_the_end [OF _ some_codec(1) TrueI some_codec(2), of "one_request 0" 0 "31 * second - 1" saved "[]"]
    session_served_to_the_end [OF _ some_codec(1) TrueI some_codec(2), of "one_request 0" 0 "31 * second" saved "[]"] ttl.expiring_redis_axioms
  by (simp add: saved_def some_session_def one_request_def second_def millisecond_def in64_def)

theorem session_reuse_sound_witness:
  "\<exists>s c. ensure_reachable some_cache one_request (\<lambda>s t. True) saved s \<and> en_phase s 0 = Ended (Reused c) \<and> us_Model c = ''m''"
proof -
  have "ensure_reachable some_cache one_request (\<lambda>s t. True) saved (at_phases saved 0 Looking Looking Looking)"
    using ensure_reachable.start [of some_cache one_request "\<lambda>s t. True" saved 0] by (simp add: at_start)
  moreover have "usable_session some_cache 0 (one_request 0) saved = Some some_session"
    using session_served_to_the_end [OF _ some_codec(1) TrueI some_codec(2), of "one_request 0" 0 0 saved "[]"] ttl.expiring_redis_axioms
    by (simp add: saved_def some_session_def one_request_def second_def millisecond_def in64_def)
  then have "ensure_step some_cache one_request (\<lambda>s t. True) (at_phases saved 0 Looking Looking Looking)
      (at_phases saved 0 (Ended (Reused some_session)) Looking Looking)"
    using ensure_step.look_hit [of "at_phases saved 0 Looking Looking Looking" 0 some_cache one_request some_session] by (simp add: at_phases_moves)
  ultimately have r: "ensure_reachable some_cache one_request (\<lambda>s t. True) saved
      (at_phases saved 0 (Ended (Reused some_session)) Looking Looking)" by (rule ensure_reachable.step)
  from session_reuse_sound [OF r, of 0 some_session] show ?thesis
    using r by (intro exI [of _ "at_phases saved 0 (Ended (Reused some_session)) Looking Looking"] exI [of _ some_session])
      (simp add: at_phases_moves one_request_def)
qed

end
