(* ===== verification/App_Errors.thy ===== *)
theory App_Errors
  imports Go_Prelude
begin

text \<open>
  Error values and their classification: \<open>internal/errors\<close> (the predefined application errors,
  the account-status and upstream-error classifiers), \<open>internal/handler/error_status.go\<close> (category
  to HTTP status) and the constructors and predicates of \<open>internal/codebuff/errors.go\<close>. The
  classifiers work on the text of an error, as the code does; a nil error is \<open>None\<close>.
\<close>

section \<open>Application errors\<close>

record app_error =
  Code :: string
  Message :: string
  HTTPStatus :: int

definition New :: "string \<Rightarrow> string \<Rightarrow> int \<Rightarrow> app_error" where
  "New code message httpStatus = \<lparr>Code = code, Message = message, HTTPStatus = httpStatus\<rparr>"

definition CodeInvalidRequest :: string where "CodeInvalidRequest = ''invalid_request_error''"
definition CodeAuthError :: string where "CodeAuthError = ''authentication_error''"
definition CodePermissionDenied :: string where "CodePermissionDenied = ''permission_denied''"
definition CodeNotFound :: string where "CodeNotFound = ''not_found''"
definition CodeOverloaded :: string where "CodeOverloaded = ''overloaded_error''"
definition CodeUpstreamError :: string where "CodeUpstreamError = ''upstream_error''"
definition CodeInternalError :: string where "CodeInternalError = ''internal_error''"
definition CodeRateLimitExceeded :: string where "CodeRateLimitExceeded = ''rate_limit_exceeded''"
definition CodeTimeout :: string where "CodeTimeout = ''timeout_error''"
definition CodeCircuitOpen :: string where "CodeCircuitOpen = ''circuit_breaker_open''"

lemmas error_codes = CodeInvalidRequest_def CodeAuthError_def CodePermissionDenied_def CodeNotFound_def
  CodeOverloaded_def CodeUpstreamError_def CodeInternalError_def CodeRateLimitExceeded_def
  CodeTimeout_def CodeCircuitOpen_def

text \<open>The predefined instances, under their Go names, in the order of the file.\<close>

definition predefined_errors :: "(string \<times> app_error) list" where
  "predefined_errors =
    [(''ErrInvalidRequest'', New CodeInvalidRequest ''Invalid request format'' 400),
     (''ErrRequestBodyTooLarge'', New CodeInvalidRequest ''Request body too large'' 413),
     (''ErrMethodNotAllowed'', New CodeInvalidRequest ''Method not allowed'' 405),
     (''ErrUnauthorized'', New CodeAuthError ''Authentication failed'' 401),
     (''ErrInvalidToken'', New CodeAuthError ''Invalid token'' 401),
     (''ErrSessionExpired'', New CodeAuthError ''Session expired'' 401),
     (''ErrAccountNotFound'', New CodeNotFound ''Account not found'' 404),
     (''ErrModelNotFound'', New CodeNotFound ''Model not found'' 404),
     (''ErrResourceNotFound'', New CodeNotFound ''Resource not found'' 404),
     (''ErrNoAvailableAccount'', New CodeOverloaded ''No available account'' 503),
     (''ErrUpstreamUnavailable'', New CodeUpstreamError ''Upstream service unavailable'' 502),
     (''ErrUpstreamTimeout'', New CodeTimeout ''Upstream service response timeout'' 504),
     (''ErrCircuitBreakerOpen'', New CodeCircuitOpen ''Service circuit broken, please try again later'' 503),
     (''ErrRateLimitExceeded'', New CodeRateLimitExceeded ''Request rate limit exceeded'' 429),
     (''ErrConcurrencyLimitExceeded'', New CodeRateLimitExceeded ''Concurrent request limit exceeded'' 429),
     (''ErrInternal'', New CodeInternalError ''Internal service error'' 500),
     (''ErrStoreNotConfigured'', New CodeInternalError ''storage is not configured'' 500)]"

section \<open>Classification of error texts\<close>

definition status_patterns :: "string \<Rightarrow> string list" where
  "status_patterns code =
    [''http '' @ code, ''http/1.1 '' @ code, ''http/2 '' @ code, ''status '' @ code,
     ''status='' @ code, ''status:'' @ code, ''statuscode '' @ code, ''statuscode='' @ code,
     ''status code '' @ code, ''code '' @ code, ''code='' @ code, ''code:'' @ code,
     ''response status '' @ code, ''response code '' @ code]"

definition HasExplicitHTTPStatus :: "string \<Rightarrow> string \<Rightarrow> bool" where
  "HasExplicitHTTPStatus lower code =
    (let code = trim_space code in
     if code = '''' \<or> lower = '''' then False
     else list_ex (contains lower) (status_patterns code))"

definition any_of :: "string \<Rightarrow> string list \<Rightarrow> bool" where
  "any_of lower ps = list_ex (contains lower) ps"

definition ClassifyAccountStatus :: "string \<Rightarrow> string" where
  "ClassifyAccountStatus errStr =
    (let lower = to_lower errStr in
     if any_of lower [''model is not found'', ''model not found''] then ''''
     else if HasExplicitHTTPStatus lower ''401''
       \<or> any_of lower [''signed out'', ''signed_out'', ''unauthorized'', ''no active sessions found'']
     then ''401''
     else if HasExplicitHTTPStatus lower ''403'' \<or> contains lower ''forbidden'' then ''403''
     else if HasExplicitHTTPStatus lower ''404'' then ''404''
     else if HasExplicitHTTPStatus lower ''402''
       \<or> any_of lower [''insufficient_funds'', ''insufficient funding'',
            ''available funding is insufficient'', ''out of credits'', ''credits exhausted'',
            ''run out of credits'', ''quota_limit'']
     then ''402''
     else if HasExplicitHTTPStatus lower ''429''
       \<or> any_of lower [''too many requests'', ''rate limit'', ''rate_limit'', ''no remaining quota'',
            ''quota exceeded'']
     then ''429''
     else '''')"

definition IsAccountAuthFailure :: "string option \<Rightarrow> bool" where
  "IsAccountAuthFailure err = (case err of None \<Rightarrow> False
     | Some e \<Rightarrow> ClassifyAccountStatus e = ''401'' \<or> ClassifyAccountStatus e = ''403'')"

record upstream_error_class =
  Category :: string
  Retryable :: bool
  SwitchAccount :: bool

abbreviation uclass :: "string \<Rightarrow> bool \<Rightarrow> bool \<Rightarrow> upstream_error_class" where
  "uclass c r s \<equiv> \<lparr>Category = c, Retryable = r, SwitchAccount = s\<rparr>"

definition isWarpModelUnavailableError :: "string \<Rightarrow> bool" where
  "isWarpModelUnavailableError lower =
    (if \<not> contains lower ''warp'' then False
     else if contains lower ''requested base model''
       \<and> (contains lower ''not allowed'' \<or> contains lower ''no model available'') then True
     else contains lower ''llm_unavailable'' \<or> contains lower ''model unavailable'')"

definition ClassifyUpstreamError :: "string \<Rightarrow> upstream_error_class" where
  "ClassifyUpstreamError errStr =
    (let lower = to_lower errStr in
     if any_of lower [''context canceled'', ''canceled''] then uclass ''canceled'' False False
     else if any_of lower [''model is not found'', ''model not found'', ''no_implementation_available'',
         ''context_window_exceeded'', ''max_token_limit''] then uclass ''client'' False False
     else if HasExplicitHTTPStatus lower ''401''
       \<or> any_of lower [''signed out'', ''signed_out'', ''invalid_api_key''] then uclass ''auth'' True True
     else if HasExplicitHTTPStatus lower ''403'' then uclass ''auth_blocked'' True True
     else if HasExplicitHTTPStatus lower ''404'' then uclass ''auth_blocked'' False False
     else if HasExplicitHTTPStatus lower ''409''
       \<or> any_of lower [''model_locked'', ''session_model_mismatch''] then uclass ''session_conflict'' True True
     else if isWarpModelUnavailableError lower then uclass ''model_unavailable'' True True
     else if contains lower ''input is too long'' \<or> HasExplicitHTTPStatus lower ''400''
     then uclass ''client'' False False
     else if HasExplicitHTTPStatus lower ''429'' \<or> HasExplicitHTTPStatus lower ''402''
       \<or> any_of lower [''too many requests'', ''rate limit'', ''rate_limit'', ''insufficient_funds'',
            ''insufficient funding'', ''no remaining quota'', ''quota_limit'', ''out of credits'',
            ''credits exhausted'', ''run out of credits''] then uclass ''rate_limit'' True True
     else if any_of lower [''timeout'', ''deadline exceeded'', ''context deadline'']
     then uclass ''timeout'' True True
     else if any_of lower [''connection reset'', ''connection refused'', ''unexpected eof'',
            ''use of closed'', ''broken pipe''] \<or> has_suffix lower '': eof'' \<or> lower = ''eof''
     then uclass ''network'' True True
     else if HasExplicitHTTPStatus lower ''500'' \<or> HasExplicitHTTPStatus lower ''502''
       \<or> HasExplicitHTTPStatus lower ''503'' \<or> HasExplicitHTTPStatus lower ''504''
       \<or> any_of lower [''llm_unavailable'', ''internal_error''] then uclass ''server'' True True
     else uclass ''unknown'' True True)"

definition errorCategoryToStatus :: "string \<Rightarrow> int" where
  "errorCategoryToStatus category =
    (if category = ''client'' \<or> category = ''session_conflict'' then 400
     else if category = ''auth'' then 401
     else if category = ''auth_blocked'' then 403
     else if category = ''rate_limit'' then 429
     else if category = ''model_unavailable'' then 503
     else if category = ''timeout'' then 504
     else if category = ''server'' \<or> category = ''network'' then 502
     else if category = ''canceled'' then 499
     else 502)"

section \<open>Codebuff errors\<close>

record codebuff_error =
  cb_Message :: string
  cb_StatusCode :: int

definition IsWaitingRoomRequired :: "string option \<Rightarrow> bool" where
  "IsWaitingRoomRequired err = (case err of None \<Rightarrow> False | Some e \<Rightarrow> contains e ''waiting_room_required'')"

definition IsModelLocked :: "string option \<Rightarrow> bool" where
  "IsModelLocked err = (case err of None \<Rightarrow> False | Some e \<Rightarrow> contains e ''model_locked'')"

text \<open>The bytes of the fixed message for a 409 \<open>session_model_mismatch\<close> (UTF-8 after the colon).\<close>

definition mismatch_message :: string where
  "mismatch_message = ''Codebuff 409 session_model_mismatch: '' @
     bytes_of [229, 189, 147, 229, 137, 141] @ '' IP/'' @
     bytes_of [229, 140, 186, 229, 159, 159, 229, 143, 151, 233, 153, 144, 239, 188, 155, 232, 175, 183,
       230, 141, 162, 231, 148, 168] @ '' US '' @
     bytes_of [230, 156, 141, 229, 138, 161, 229, 153, 168, 230, 136, 150] @ '' US '' @
     bytes_of [229, 135, 186, 229, 143, 163] @ '' IP '' @
     bytes_of [229, 144, 142, 233, 135, 141, 232, 175, 149, 227, 128, 130]"

text \<open>\<open>resp\<close> is the status of the HTTP response, \<open>None\<close> for a nil response.\<close>

definition NewError :: "int option \<Rightarrow> string \<Rightarrow> string \<Rightarrow> codebuff_error" where
  "NewError resp body pre =
    (let raw = body;
         text = (if length raw > 500 then take 500 raw else raw);
         status = (case resp of None \<Rightarrow> 502 | Some s \<Rightarrow> s)
     in if status = 409 \<and> contains raw (CHR 0x22 # ''error'' @ CHR 0x22 # '':'' @ CHR 0x22 # ''session_model_mismatch'' @ [CHR 0x22])
        then \<lparr>cb_Message = mismatch_message, cb_StatusCode = status\<rparr>
        else let pre = (if pre = '''' then ''Codebuff request failed'' else pre)
          in \<lparr>cb_Message = pre @ '': status='' @ itoa status @ '' body='' @ text, cb_StatusCode = status\<rparr>)"

section \<open>Lemmas\<close>

lemma any_of_simps [simp]:
  "any_of l [] = False"
  "any_of l (p # ps) = (contains l p \<or> any_of l ps)"
  by (simp_all add: any_of_def)

lemma status_pattern_found:
  assumes "contains lower p" and "p \<in> set (status_patterns (trim_space code))" and "trim_space code \<noteq> ''''"
  shows "HasExplicitHTTPStatus lower code"
proof -
  have "p \<noteq> []" using assms(2) by (auto simp: status_patterns_def)
  with assms(1) have "lower \<noteq> ''''" by (auto simp: contains_def)
  with assms show ?thesis by (auto simp: HasExplicitHTTPStatus_def Let_def list_ex_iff)
qed

lemma contains_self [simp]: "contains p p"
  by (simp add: contains_def)

lemma contains_infix [simp]: "contains (a @ p @ b) p"
  by (auto simp: contains_def sublist_def)

lemma HasExplicitHTTPStatus_embed:
  "HasExplicitHTTPStatus s code \<Longrightarrow> HasExplicitHTTPStatus (a @ s @ b) code"
  by (auto simp: HasExplicitHTTPStatus_def Let_def list_ex_iff intro: contains_append split: if_splits)

lemma lower_itoa: "to_lower (itoa n) = itoa n"
proof -
  have "lower_char c = c" if "c \<in> set (itoa n)" for c
    using itoa_chars [OF that] by (auto simp: lower_char_def)
  then show ?thesis by (auto simp: to_lower_def intro!: map_idI)
qed

lemma itoa_nonempty [simp]: "itoa n \<noteq> ''''"
  by (simp add: itoa_def)

text \<open>An explicit status in the text, however the rest of the message reads.\<close>

lemma status_equals_found:
  "HasExplicitHTTPStatus (to_lower (p @ '': status='' @ itoa n @ '' body='' @ b)) (itoa n)"
proof (rule status_pattern_found)
  have "to_lower (p @ '': status='' @ itoa n @ '' body='' @ b)
    = (to_lower p @ '': '') @ (''status='' @ itoa n) @ (to_lower ('' body='' @ b))"
    by (simp add: lower_itoa lower_char_def)
  then show "contains (to_lower (p @ '': status='' @ itoa n @ '' body='' @ b)) (''status='' @ itoa n)"
    by (simp only: contains_infix)
qed (simp_all add: status_patterns_def trim_space_itoa)

end
