(* ===== verification/Conn_Tracker.thy ===== *)
theory Conn_Tracker
  imports Go_Prelude
begin

text \<open>
  The in-memory connection tracker of \<open>internal/loadbalancer/conn_tracker.go\<close>: a \<open>sync.Map\<close>
  from account IDs to atomic 64-bit counters. The operations are modelled twice, as atomic
  functions on the map, and, for \<open>Release\<close>, as the load / compare-and-swap loop the code
  runs, with other goroutines acting between its steps. The locale states what the load balancer
  relies on. The Redis tracker of the same file is not modelled here.
\<close>

section \<open>The contract\<close>

locale conn_tracker =
  fixes inv :: "'t \<Rightarrow> bool"
    and acquire :: "int \<Rightarrow> 't \<Rightarrow> 't"
    and release :: "int \<Rightarrow> 't \<Rightarrow> 't"
    and count :: "'t \<Rightarrow> int \<Rightarrow> int"
  assumes count_range: "inv t \<Longrightarrow> 0 \<le> count t a \<and> in64 (count t a)"
    and acquire_inv: "inv t \<Longrightarrow> count t a < 2 ^ 63 - 1 \<Longrightarrow> inv (acquire a t)"
    and release_inv: "inv t \<Longrightarrow> inv (release a t)"
    and count_acquire: "inv t \<Longrightarrow> count t a < 2 ^ 63 - 1 \<Longrightarrow>
      count (acquire a t) b = count t b + (if b = a then 1 else 0)"
    and count_release: "inv t \<Longrightarrow>
      count (release a t) b = (if b = a \<and> 0 < count t a then count t b - 1 else count t b)"
begin

lemma acquire_release:
  assumes "inv t" and "count t a < 2 ^ 63 - 1"
  shows "count (release a (acquire a t)) b = count t b"
  using assms count_range [of t a] acquire_inv [of t a] by (simp add: count_release count_acquire)

text \<open>A run of requests: \<open>(True, a)\<close> acquires account \<open>a\<close>, \<open>(False, a)\<close> releases it.\<close>

definition conn_run :: "(bool \<times> int) list \<Rightarrow> 't \<Rightarrow> 't" where
  "conn_run es t = fold (\<lambda>(b, a). if b then acquire a else release a) es t"

lemma conn_run_simps [simp]:
  "conn_run [] t = t"
  "conn_run ((b, a) # es) t = conn_run es (if b then acquire a t else release a t)"
  by (simp_all add: conn_run_def)

text \<open>Enough room: no account can reach the top of the 64-bit range during the run.\<close>

definition room :: "(bool \<times> int) list \<Rightarrow> 't \<Rightarrow> bool" where
  "room es t \<longleftrightarrow> (\<forall>a. count t a + int (length es) \<le> 2 ^ 63 - 1)"

lemma room_step:
  assumes "inv t" and "room ((b, a) # es) t"
  shows "inv (if b then acquire a t else release a t)"
    and "room es (if b then acquire a t else release a t)"
proof -
  have le: "count t x + int (length es) + 1 \<le> 2 ^ 63 - 1" for x
    using assms(2) by (simp add: room_def algebra_simps)
  have lt: "count t a < 2 ^ 63 - 1" using le [of a] by simp
  show "inv (if b then acquire a t else release a t)"
    using assms(1) lt by (simp add: acquire_inv release_inv)
  show "room es (if b then acquire a t else release a t)"
    unfolding room_def
  proof
    fix x
    show "count (if b then acquire a t else release a t) x + int (length es) \<le> 2 ^ 63 - 1"
      using assms(1) lt le [of x] by (auto simp: count_acquire count_release)
  qed
qed

lemma run_inv: "inv t \<Longrightarrow> room es t \<Longrightarrow> inv (conn_run es t)"
proof (induction es arbitrary: t)
  case (Cons e es)
  obtain b a where e: "e = (b, a)" by force
  with Cons show ?case using room_step [of t b a es] by simp
qed simp

text \<open>
  Conservation: as long as no account is released more often than it was acquired, a count is its
  start value plus acquires minus releases.
\<close>

fun balanced :: "(int \<Rightarrow> int) \<Rightarrow> (bool \<times> int) list \<Rightarrow> bool" where
  "balanced n [] = True"
| "balanced n ((b, a) # es) = ((b \<or> 0 < n a) \<and> balanced (n(a := n a + (if b then 1 else - 1))) es)"

lemma run_conservation:
  assumes "inv t" and "room es t" and "balanced (count t) es"
  shows "count (conn_run es t) a
    = count t a + int (count_list es (True, a)) - int (count_list es (False, a))"
  using assms
proof (induction es arbitrary: t)
  case (Cons e es)
  obtain b x where e: "e = (b, x)" by force
  let ?t = "if b then acquire x t else release x t"
  have lt: "count t x < 2 ^ 63 - 1"
    using Cons.prems(2) by (auto simp: room_def dest: spec [of _ x])
  have cnt: "count ?t y = ((count t)(x := count t x + (if b then 1 else - 1))) y" for y
    using Cons.prems(1,3) lt e by (cases b) (auto simp: count_acquire count_release)
  then have fn: "count ?t = (count t)(x := count t x + (if b then 1 else - 1))" by (rule ext)
  have "balanced (count ?t) es" using Cons.prems(3) e by (simp add: fn)
  with Cons.IH [of ?t] room_step [of t b x es] Cons.prems e
  have "count (conn_run es ?t) a
    = count ?t a + int (count_list es (True, a)) - int (count_list es (False, a))"
    by blast
  with cnt [of a] e show ?case by (cases b) auto
qed simp

end

section \<open>The memory tracker\<close>

type_synonym tracker = "(int, int) gomap"

definition NewMemoryConnTracker :: tracker where
  "NewMemoryConnTracker = []"

definition mem_GetCount :: "tracker \<Rightarrow> int \<Rightarrow> int" where
  "mem_GetCount t a = (case gm_get t a of Some c \<Rightarrow> c | None \<Rightarrow> 0)"

definition mem_Acquire :: "int \<Rightarrow> tracker \<Rightarrow> tracker" where
  "mem_Acquire a t = (let c = (case gm_get t a of Some c \<Rightarrow> c | None \<Rightarrow> 0) in gm_put a (wrap64 (c + 1)) t)"

definition mem_Release :: "int \<Rightarrow> tracker \<Rightarrow> tracker" where
  "mem_Release a t = (case gm_get t a of None \<Rightarrow> t
     | Some current \<Rightarrow> if current \<le> 0 then t else gm_put a (wrap64 (current - 1)) t)"

definition mem_GetCounts :: "tracker \<Rightarrow> int list \<Rightarrow> (int, int) gomap" where
  "mem_GetCounts t ids = fold (\<lambda>id counts. gm_put id (mem_GetCount t id) counts) ids []"

definition tracker_wf :: "tracker \<Rightarrow> bool" where
  "tracker_wf t \<longleftrightarrow> gm_wf t \<and> (\<forall>a. 0 \<le> mem_GetCount t a \<and> in64 (mem_GetCount t a))"

lemma tracker_wf_new [simp]: "tracker_wf NewMemoryConnTracker"
  by (simp add: tracker_wf_def NewMemoryConnTracker_def mem_GetCount_def in64_def)

lemma mem_GetCount_Acquire:
  "mem_GetCount (mem_Acquire a t) b = (if b = a then wrap64 (mem_GetCount t a + 1) else mem_GetCount t b)"
  by (simp add: mem_GetCount_def mem_Acquire_def gomap_simps)

lemma mem_GetCount_Release:
  "mem_GetCount (mem_Release a t) b
     = (if b = a \<and> 0 < mem_GetCount t a then wrap64 (mem_GetCount t a - 1) else mem_GetCount t b)"
  by (auto simp: mem_GetCount_def mem_Release_def gomap_simps split: option.splits)

lemma gm_wf_Acquire: "gm_wf t \<Longrightarrow> gm_wf (mem_Acquire a t)"
  by (simp add: mem_Acquire_def)

lemma gm_wf_Release: "gm_wf t \<Longrightarrow> gm_wf (mem_Release a t)"
  by (simp add: mem_Release_def split: option.splits)

lemma in64_succ: "0 \<le> n \<Longrightarrow> n < 2 ^ 63 - 1 \<Longrightarrow> wrap64 (n + 1) = n + 1"
  by (rule wrap64_id) (simp add: in64_def)

lemma in64_pred: "0 < n \<Longrightarrow> in64 n \<Longrightarrow> wrap64 (n - 1) = n - 1"
  by (rule wrap64_id) (simp add: in64_def)

interpretation mem: conn_tracker tracker_wf mem_Acquire mem_Release mem_GetCount
proof (unfold_locales, goal_cases)
  case (1 t a)
  then show ?case by (simp add: tracker_wf_def)
next
  case (2 t a)
  then show ?case
    by (auto simp: tracker_wf_def gm_wf_Acquire mem_GetCount_Acquire in64_succ in64_def)
next
  case (3 t a)
  then have r: "0 \<le> mem_GetCount t x \<and> in64 (mem_GetCount t x)" for x
    by (simp add: tracker_wf_def)
  have "0 \<le> mem_GetCount (mem_Release a t) x \<and> in64 (mem_GetCount (mem_Release a t) x)" for x
    using r [of x] r [of a] by (auto simp: mem_GetCount_Release in64_pred in64_def)
  with 3 show ?case by (simp add: tracker_wf_def gm_wf_Release)
next
  case (4 t a b)
  then show ?case
    by (auto simp: tracker_wf_def mem_GetCount_Acquire in64_succ)
next
  case (5 t a b)
  then show ?case
    by (auto simp: tracker_wf_def mem_GetCount_Release in64_pred)
qed

lemma mem_GetCounts_eq:
  "gm_get (mem_GetCounts t ids) a = (if a \<in> set ids then Some (mem_GetCount t a) else None)"
proof -
  note mem_GetCounts_def [simp]
  have "gm_get (fold (\<lambda>id counts. gm_put id (mem_GetCount t id) counts) ids m) a
    = (if a \<in> set ids then Some (mem_GetCount t a) else gm_get m a)" for m
    by (induction ids arbitrary: m) (auto simp: gomap_simps)
  from this [of "[]"] show ?thesis by simp
qed

section \<open>The compare-and-swap loop of Release\<close>

text \<open>
  One counter, any number of goroutines inside \<open>Release\<close> (numbered by \<open>nat\<close>), and goroutines
  that acquire. \<open>Loaded c\<close> is the point between \<open>counter.Load()\<close> and \<open>CompareAndSwap\<close>;
  \<open>Finished True\<close> left the loop after a successful swap, \<open>Finished False\<close> because it saw a
  count that was not positive.
\<close>

datatype release_pc = Start | Loaded int | Finished bool

record cas_state =
  counter :: int
  pc :: "nat \<Rightarrow> release_pc"
  acquired :: nat

inductive cas_step :: "cas_state \<Rightarrow> cas_state \<Rightarrow> bool" where
  cas_exit: "pc s i = Start \<Longrightarrow> counter s \<le> 0 \<Longrightarrow> cas_step s (s\<lparr>pc := (pc s)(i := Finished False)\<rparr>)"
| cas_load: "pc s i = Start \<Longrightarrow> 0 < counter s \<Longrightarrow> cas_step s (s\<lparr>pc := (pc s)(i := Loaded (counter s))\<rparr>)"
| cas_swap: "pc s i = Loaded c \<Longrightarrow> counter s = c \<Longrightarrow>
    cas_step s (s\<lparr>counter := c - 1, pc := (pc s)(i := Finished True)\<rparr>)"
| cas_retry: "pc s i = Loaded c \<Longrightarrow> counter s \<noteq> c \<Longrightarrow> cas_step s (s\<lparr>pc := (pc s)(i := Start)\<rparr>)"
| cas_acquire: "counter s < 2 ^ 63 - 1 \<Longrightarrow>
    cas_step s (s\<lparr>counter := counter s + 1, acquired := Suc (acquired s)\<rparr>)"

inductive_cases cas_stepE: "cas_step s t"

definition cas_init :: "int \<Rightarrow> cas_state" where
  "cas_init c = \<lparr>counter = c, pc = (\<lambda>_. Start), acquired = 0\<rparr>"

inductive cas_reachable :: "int \<Rightarrow> cas_state \<Rightarrow> bool" for c where
  cas_start: "cas_reachable c (cas_init c)"
| cas_more: "cas_reachable c s \<Longrightarrow> cas_step s t \<Longrightarrow> cas_reachable c t"

definition released :: "cas_state \<Rightarrow> nat set" where
  "released s = {i. pc s i = Finished True}"

definition cas_inv :: "int \<Rightarrow> cas_state \<Rightarrow> bool" where
  "cas_inv c s \<longleftrightarrow> 0 \<le> counter s \<and> (\<forall>i n. pc s i = Loaded n \<longrightarrow> 0 < n) \<and> finite (released s)
     \<and> counter s + int (card (released s)) = c + int (acquired s)"

lemma released_unchanged:
  "pc s i \<noteq> Finished True \<Longrightarrow> p \<noteq> Finished True \<Longrightarrow> released (s\<lparr>pc := (pc s)(i := p)\<rparr>) = released s"
  by (auto simp: released_def)

lemma released_swap:
  "pc s i \<noteq> Finished True \<Longrightarrow>
     released (s\<lparr>counter := c, pc := (pc s)(i := Finished True)\<rparr>) = insert i (released s)"
  by (auto simp: released_def)

lemma released_acquire [simp]: "released (s\<lparr>counter := c, acquired := n\<rparr>) = released s"
  by (simp add: released_def)

lemma cas_step_inv:
  assumes "cas_step s t" and "cas_inv c s"
  shows "cas_inv c t"
  using assms
proof (cases rule: cas_step.cases)
  case (cas_swap i n)
  then have "0 < n" and "i \<notin> released s"
    using assms(2) by (auto simp: cas_inv_def released_def)
  with cas_swap assms(2) show ?thesis
    by (auto simp: cas_inv_def released_swap split: if_splits)
qed (auto simp: cas_inv_def released_unchanged split: if_splits)

lemma cas_reachable_inv: "cas_reachable c s \<Longrightarrow> 0 \<le> c \<Longrightarrow> cas_inv c s"
proof (induction rule: cas_reachable.induct)
  case cas_start
  then show ?case by (simp add: cas_inv_def cas_init_def released_def)
next
  case (cas_more s t)
  then show ?case by (blast intro: cas_step_inv)
qed

text \<open>Every step of the loop acts on the counter as one atomic operation, or not at all.\<close>

lemma mem_GetCount_single [simp]: "mem_GetCount [(a, n)] a = n"
  by (simp add: mem_GetCount_def)

lemma cas_step_atomic:
  assumes "cas_step s t" and "cas_inv c s" and "in64 (counter s)"
  shows "counter t = counter s
    \<or> counter t = mem_GetCount (mem_Release a [(a, counter s)]) a
    \<or> counter t = mem_GetCount (mem_Acquire a [(a, counter s)]) a"
  using assms
  by (cases rule: cas_step.cases)
    (auto simp: cas_inv_def mem_GetCount_Release mem_GetCount_Acquire in64_succ in64_pred)

end
