(* ===== verification/Load_Balancer.thy ===== *)
theory Load_Balancer
  imports Accounts Conn_Tracker Go_Float
begin

text \<open>
  Account selection of \<open>internal/loadbalancer/loadbalancer.go\<close> and \<open>tier.go\<close>: the cache of
  enabled accounts, the cool-down rules of a failed account, the filter loop and the weighted
  least-connections choice. The cached slice holds pointers, and the filter loop runs over those
  very pointers, so an account is referred to by its index in \<open>cachedAccounts\<close> and clearing its
  status is visible to everyone who reads the cache.

  The account store is reached through two operations (\<open>store_ops\<close>), its state is the type
  \<open>'s\<close>. The clock is an argument: \<open>clock n\<close> is the n-th reading of \<open>time.Now\<close> in the call.
  A call to \<open>rand.IntN\<close> is the argument \<open>r\<close>, the value drawn, reduced to the range.
\<close>

record 's store_ops =
  st_GetEnabledAccounts :: "'s \<Rightarrow> string + account list"
  st_UpdateAccount :: "account \<Rightarrow> 's \<Rightarrow> 's"

datatype lb_error =
    StoreError string
  | NoEnabledAccounts string
  | AllRateLimited string
  | NilStore

record 's lb =
  Store :: "'s option"
  cachedAccounts :: "account list"
  cacheExpires :: instant
  cacheTTL :: duration
  connTracker :: "tracker option"

definition defaultCacheTTL :: duration where "defaultCacheTTL = 5 * second"

definition NewWithCacheTTL :: "'s option \<Rightarrow> duration \<Rightarrow> 's lb" where
  "NewWithCacheTTL s ttl = \<lparr>Store = s, cachedAccounts = [], cacheExpires = zero_time,
     cacheTTL = (if ttl \<le> 0 then defaultCacheTTL else ttl), connTracker = Some NewMemoryConnTracker\<rparr>"

section \<open>The cache of enabled accounts\<close>

text \<open>
  The unlocked check and the check inside the singleflight call read the same cache when no other
  goroutine refreshes it in between, so they are one test. A call on a nil store panics.
\<close>

definition getEnabledAccounts ::
    "'s store_ops \<Rightarrow> (nat \<Rightarrow> instant) \<Rightarrow> 's lb \<Rightarrow> (lb_error + account list) \<times> 's lb" where
  "getEnabledAccounts ops clock lb =
    (if cachedAccounts lb \<noteq> [] \<and> clock 0 < cacheExpires lb then (Inr (cachedAccounts lb), lb)
     else case Store lb of None \<Rightarrow> (Inl NilStore, lb)
       | Some s \<Rightarrow> (case st_GetEnabledAccounts ops s of
            Inl e \<Rightarrow> (Inl (StoreError e), lb)
          | Inr accounts \<Rightarrow> (Inr accounts,
              lb\<lparr>cachedAccounts := accounts, cacheExpires := t_add (clock 1) (cacheTTL lb)\<rparr>)))"

section \<open>Cool-down of failed accounts\<close>

definition retry401Default :: duration where "retry401Default = 5 * minute"
definition retry402Default :: duration where "retry402Default = 24 * hour"
definition retry429Default :: duration where "retry429Default = 1 * minute"
definition retry403Default :: duration where "retry403Default = 24 * hour"

lemmas retry_defs = retry401Default_def retry402Default_def retry429Default_def retry403Default_def

text \<open>What \<open>isAccountAvailable\<close> decides before it acts: \<open>Recover\<close> clears the status first.\<close>

datatype verdict = Available | Recover string | Unavailable

definition after_cooldown :: "instant \<Rightarrow> account \<Rightarrow> duration \<Rightarrow> string \<Rightarrow> verdict" where
  "after_cooldown now acc cooldown reason =
    (if is_zero (LastAttempt acc) then Unavailable
     else if cooldown \<le> t_sub now (LastAttempt acc) then Recover reason else Unavailable)"

definition account_verdict :: "instant \<Rightarrow> account \<Rightarrow> verdict" where
  "account_verdict now acc =
    (let status = trim_space (StatusCode acc) in
     if status = '''' then Available
     else if status = ''401'' then
       after_cooldown now acc retry401Default ''401 Cooling completed, automatic recovery attempt''
     else if status = ''429'' then
       (if is_zero (LastAttempt acc) then Unavailable
        else if \<not> is_zero (QuotaResetAt acc) then
          (if \<not> now < QuotaResetAt acc then Recover ''429 Cooling completed, automatic recovery attempt''
           else Unavailable)
        else if retry429Default \<le> t_sub now (LastAttempt acc)
          then Recover ''429 Cooling completed, automatic recovery attempt'' else Unavailable)
     else if status = ''402'' then
       (if \<not> is_zero (QuotaResetAt acc) then
          (if \<not> now < QuotaResetAt acc then Recover ''402 Cooling completed, automatic recovery attempt''
           else Unavailable)
        else after_cooldown now acc retry402Default ''402 Cooling completed, automatic recovery attempt'')
     else if status = ''403'' \<or> status = ''404'' then
       after_cooldown now acc retry403Default (status @ ''Cooling completed, automatic recovery attempt'')
     else
       after_cooldown now acc retry401Default
         (status @ ''Unknown status cooling completed, automatic recovery attempt''))"

text \<open>The \<open>for \<dots> break\<close> over the cache: the first account with this ID.\<close>

fun update_first :: "int \<Rightarrow> (account \<Rightarrow> account) \<Rightarrow> account list \<Rightarrow> account list" where
  "update_first i f [] = []"
| "update_first i f (a # as) = (if ID a = i then f a # as else a # update_first i f as)"

definition persistAccountStatus :: "'s store_ops \<Rightarrow> account \<Rightarrow> 's lb \<Rightarrow> 's lb" where
  "persistAccountStatus ops acc lb = (case Store lb of None \<Rightarrow> lb
     | Some s \<Rightarrow> lb\<lparr>Store := Some (st_UpdateAccount ops acc s)\<rparr>)"

text \<open>\<open>clearAccountStatus\<close> on the account behind the i-th pointer of the cache.\<close>

definition clearAccountStatus :: "'s store_ops \<Rightarrow> nat \<Rightarrow> 's lb \<Rightarrow> 's lb" where
  "clearAccountStatus ops i lb =
    (let acc = clear_status (cachedAccounts lb ! i);
         cache = update_first (ID acc) clear_status ((cachedAccounts lb)[i := acc])
     in persistAccountStatus ops acc (lb\<lparr>cachedAccounts := cache\<rparr>))"

definition isAccountAvailable :: "'s store_ops \<Rightarrow> instant \<Rightarrow> nat \<Rightarrow> 's lb \<Rightarrow> bool \<times> 's lb" where
  "isAccountAvailable ops now i lb = (case account_verdict now (cachedAccounts lb ! i) of
     Available \<Rightarrow> (True, lb)
   | Recover reason \<Rightarrow> (True, clearAccountStatus ops i lb)
   | Unavailable \<Rightarrow> (False, lb))"

text \<open>
  \<open>MarkAccountStatus\<close>: the caller's account (a nil pointer is \<open>None\<close>) and the cache entry with
  its ID get the status; the reset instant counts for 429 only.
\<close>

definition mark_with :: "string \<Rightarrow> instant \<Rightarrow> instant \<Rightarrow> account \<Rightarrow> account" where
  "mark_with status now resetAt a = a\<lparr>StatusCode := status, LastAttempt := now,
     QuotaResetAt := (if status = ''429'' \<and> \<not> is_zero resetAt then resetAt else zero_time)\<rparr>"

definition MarkAccountStatus ::
    "'s store_ops \<Rightarrow> instant \<Rightarrow> account option \<Rightarrow> string \<Rightarrow> instant list \<Rightarrow> 's lb \<Rightarrow> account option \<times> 's lb" where
  "MarkAccountStatus ops now acc status quotaResetAt lb =
    (case acc of None \<Rightarrow> (None, lb)
     | Some a \<Rightarrow> if Store lb = None \<or> status = '''' then (Some a, lb)
        else let resetAt = (case quotaResetAt of [] \<Rightarrow> zero_time | r # _ \<Rightarrow> r);
                 a' = mark_with status now resetAt a;
                 cache = update_first (ID a) (mark_with status now resetAt) (cachedAccounts lb)
          in (Some a', persistAccountStatus ops a' (lb\<lparr>cachedAccounts := cache\<rparr>)))"

section \<open>Weighted least connections\<close>

definition conn_score :: "(int, int) gomap \<Rightarrow> account \<Rightarrow> rat" where
  "conn_score connCounts acc =
    (let weight = (if Weight acc \<le> 0 then 1 else Weight acc);
         conns = (case gm_get connCounts (ID acc) of Some c \<Rightarrow> c | None \<Rightarrow> 0)
     in f_div (f_of_int conns) (f_of_int weight))"

fun best_loop :: "(account \<Rightarrow> rat) \<Rightarrow> account list \<Rightarrow> account list \<Rightarrow> rat \<Rightarrow> account list" where
  "best_loop score [] best minScore = best"
| "best_loop score (acc # accs) best minScore =
    (if best = [] \<or> score acc < minScore then best_loop score accs [acc] (score acc)
     else if score acc = minScore then best_loop score accs (best @ [acc]) minScore
     else best_loop score accs best minScore)"

definition rand_IntN :: "nat \<Rightarrow> nat \<Rightarrow> nat" where
  "rand_IntN r n = r mod n"

definition pick_tracker :: "tracker option \<Rightarrow> 's lb \<Rightarrow> tracker" where
  "pick_tracker tr lb = (case tr of Some t \<Rightarrow> t
     | None \<Rightarrow> (case connTracker lb of Some t \<Rightarrow> t | None \<Rightarrow> NewMemoryConnTracker))"

definition selectAccountWithTracker :: "account list \<Rightarrow> tracker option \<Rightarrow> nat \<Rightarrow> 's lb \<Rightarrow> account option" where
  "selectAccountWithTracker accounts tr r lb =
    (if accounts = [] then None
     else if length accounts = 1 then Some (accounts ! 0)
     else let connCounts = mem_GetCounts (pick_tracker tr lb) (map ID accounts);
              best = best_loop (conn_score connCounts) accounts [] (- 1)
       in if length best > 0 then Some (best ! rand_IntN r (length best)) else Some (accounts ! 0))"

section \<open>The filter loop\<close>

definition channel_matches :: "string \<Rightarrow> account \<Rightarrow> bool" where
  "channel_matches channel acc \<longleftrightarrow>
     channel = '''' \<or> equal_fold (AccountType acc) channel \<or> equal_fold (AgentMode acc) channel"

record filter_state =
  fs_filtered :: "nat list"
  fs_channelMatched :: nat
  fs_rateLimited :: nat

text \<open>One turn of the loop for the i-th account; every \<open>continue\<close> keeps the state so far.\<close>

definition filter_step ::
    "'s store_ops \<Rightarrow> (nat \<Rightarrow> instant) \<Rightarrow> int list \<Rightarrow> string \<Rightarrow> (account \<Rightarrow> bool) option \<Rightarrow> nat
     \<Rightarrow> filter_state \<times> 's lb \<Rightarrow> filter_state \<times> 's lb" where
  "filter_step ops clock excludeIDs channel flt i st = (case st of (fs, lb) \<Rightarrow>
    (let acc = cachedAccounts lb ! i in
     if ID acc \<in> set excludeIDs then (fs, lb)
     else if \<not> channel_matches channel acc then (fs, lb)
     else if (case flt of None \<Rightarrow> False | Some f \<Rightarrow> \<not> f acc) then (fs, lb)
     else let fs = fs\<lparr>fs_channelMatched := Suc (fs_channelMatched fs)\<rparr>;
              (ok, lb) = isAccountAvailable ops (clock (i + 2)) i lb;
              acc = cachedAccounts lb ! i
       in if \<not> ok \<and> \<not> (trim_space (StatusCode acc) = ''429'' \<and> equal_fold channel ''codebuff'')
          then (if trim_space (StatusCode acc) = ''429''
                then (fs\<lparr>fs_rateLimited := Suc (fs_rateLimited fs)\<rparr>, lb) else (fs, lb))
          else (fs\<lparr>fs_filtered := fs_filtered fs @ [i]\<rparr>, lb)))"

definition filter_loop ::
    "'s store_ops \<Rightarrow> (nat \<Rightarrow> instant) \<Rightarrow> int list \<Rightarrow> string \<Rightarrow> (account \<Rightarrow> bool) option \<Rightarrow> nat list
     \<Rightarrow> filter_state \<times> 's lb \<Rightarrow> filter_state \<times> 's lb" where
  "filter_loop ops clock excludeIDs channel flt is st =
     fold (filter_step ops clock excludeIDs channel flt) is st"

definition fs_init :: filter_state where
  "fs_init = \<lparr>fs_filtered = [], fs_channelMatched = 0, fs_rateLimited = 0\<rparr>"

definition GetNextAccountExcludingByChannelWithTrackerFilter ::
    "'s store_ops \<Rightarrow> (nat \<Rightarrow> instant) \<Rightarrow> nat \<Rightarrow> int list \<Rightarrow> string \<Rightarrow> tracker option
     \<Rightarrow> (account \<Rightarrow> bool) option \<Rightarrow> 's lb \<Rightarrow> (lb_error + account) \<times> 's lb" where
  "GetNextAccountExcludingByChannelWithTrackerFilter ops clock r excludeIDs channel tr flt lb =
    (case getEnabledAccounts ops clock lb of
       (Inl e, lb) \<Rightarrow> (Inl e, lb)
     | (Inr accounts, lb) \<Rightarrow>
        (case filter_loop ops clock excludeIDs channel flt [0..<length accounts] (fs_init, lb) of
          (fs, lb) \<Rightarrow>
           (let accounts = map (\<lambda>i. cachedAccounts lb ! i) (fs_filtered fs) in
            if accounts = [] then
              (if channel \<noteq> '''' \<and> fs_channelMatched fs > 0 \<and> fs_rateLimited fs = fs_channelMatched fs
               then (Inl (AllRateLimited channel), lb)
               else (Inl (NoEnabledAccounts channel), lb))
            else (case selectAccountWithTracker accounts tr r lb of
                Some account \<Rightarrow> (Inr account, lb)
              | None \<Rightarrow> (Inl (NoEnabledAccounts channel), lb)))))"

definition GetNextAccountExcludingByChannelWithTracker where
  "GetNextAccountExcludingByChannelWithTracker ops clock r excludeIDs channel tr lb =
     GetNextAccountExcludingByChannelWithTrackerFilter ops clock r excludeIDs channel tr None lb"

definition GetNextAccountExcludingByChannel where
  "GetNextAccountExcludingByChannel ops clock r excludeIDs channel lb =
     GetNextAccountExcludingByChannelWithTracker ops clock r excludeIDs channel None lb"

definition AcquireConnection :: "int \<Rightarrow> 's lb \<Rightarrow> 's lb" where
  "AcquireConnection accountID lb = lb\<lparr>connTracker := map_option (mem_Acquire accountID) (connTracker lb)\<rparr>"

definition ReleaseConnection :: "int \<Rightarrow> 's lb \<Rightarrow> 's lb" where
  "ReleaseConnection accountID lb = lb\<lparr>connTracker := map_option (mem_Release accountID) (connTracker lb)\<rparr>"

section \<open>Tiers\<close>

definition TierPreferred :: int where "TierPreferred = 1"
definition TierStandard :: int where "TierStandard = 2"
definition TierFallback :: int where "TierFallback = 3"

definition TierOf :: "account option \<Rightarrow> int" where
  "TierOf acc = (case acc of None \<Rightarrow> TierFallback
     | Some a \<Rightarrow> (let s = to_lower (trim_space (Subscription a)) in
         if s = ''free'' then TierFallback
         else if s = ''pro'' \<or> s = ''team'' \<or> s = ''enterprise'' then TierStandard
         else TierStandard))"

definition selectWithinTier :: "account list \<Rightarrow> tracker \<Rightarrow> nat \<Rightarrow> account option" where
  "selectWithinTier accounts tr r =
    (if accounts = [] then None
     else if length accounts = 1 then Some (accounts ! 0)
     else let connCounts = mem_GetCounts tr (map ID accounts);
              best = best_loop (conn_score connCounts) accounts [] (- 1)
       in if length best = 0 then Some (accounts ! 0) else Some (best ! rand_IntN r (length best)))"

definition fill_buckets :: "(account \<Rightarrow> bool) \<Rightarrow> account list \<Rightarrow> (int, account list) gomap" where
  "fill_buckets pred accounts = fold (\<lambda>acc b. if \<not> pred acc then b
     else gm_put (TierOf (Some acc))
       ((case gm_get b (TierOf (Some acc)) of Some l \<Rightarrow> l | None \<Rightarrow> []) @ [acc]) b) accounts []"

fun first_pick :: "(int \<Rightarrow> account option) \<Rightarrow> int list \<Rightarrow> account option" where
  "first_pick f [] = None"
| "first_pick f (t # ts) = (case f t of Some a \<Rightarrow> Some a | None \<Rightarrow> first_pick f ts)"

definition selectAccountByTier ::
    "account list \<Rightarrow> tracker option \<Rightarrow> (account \<Rightarrow> bool) option \<Rightarrow> nat \<Rightarrow> 's lb \<Rightarrow> account option" where
  "selectAccountByTier accounts tr predicate r lb =
    (if accounts = [] then None
     else let pred = (case predicate of None \<Rightarrow> (\<lambda>_. True) | Some p \<Rightarrow> p);
              buckets = fill_buckets pred accounts
       in if buckets = [] then None
          else first_pick (\<lambda>tier. selectWithinTier
                 (case gm_get buckets tier of Some l \<Rightarrow> l | None \<Rightarrow> []) (pick_tracker tr lb) r)
               (sort (map fst buckets)))"

end
