(* ===== verification/Balancer_Laws.thy ===== *)
theory Balancer_Laws
  imports Load_Balancer
begin

text \<open>
  Lemmas about the load balancer: the tie set of the weighted choice, the cool-down verdict as a
  function of time, and one invariant of the filter loop that carries soundness, completeness and
  the error cases of account selection.
\<close>

section \<open>The weighted choice\<close>

lemma best_loop_set:
  assumes "best \<noteq> [] \<Longrightarrow> \<forall>a \<in> set best. score a = m" and "best \<noteq> [] \<or> accs \<noteq> []"
  shows "\<exists>m'. set (best_loop score accs best m) = {a \<in> set best \<union> set accs. score a = m'}
    \<and> (\<forall>a \<in> set best \<union> set accs. m' \<le> score a) \<and> best_loop score accs best m \<noteq> []"
  using assms
proof (induction score accs best m rule: best_loop.induct)
  case (1 score best m)
  then show ?case by auto
next
  case (2 score acc accs best m)
  consider "best = [] \<or> score acc < m" | "best \<noteq> []" "score acc = m" | "best \<noteq> []" "m < score acc"
    by force
  then show ?case
  proof cases
    case 1
    have "\<exists>m'. set (best_loop score accs [acc] (score acc)) = {a \<in> set [acc] \<union> set accs. score a = m'}
        \<and> (\<forall>a \<in> set [acc] \<union> set accs. m' \<le> score a) \<and> best_loop score accs [acc] (score acc) \<noteq> []"
      by (rule "2.IH"(1) [OF 1]) simp_all
    then obtain m' where m': "set (best_loop score accs [acc] (score acc)) = {a \<in> {acc} \<union> set accs. score a = m'}"
      "\<forall>a \<in> {acc} \<union> set accs. m' \<le> score a" "best_loop score accs [acc] (score acc) \<noteq> []"
      by auto
    have lt: "m' < score a" if "a \<in> set best" for a
    proof -
      have "best \<noteq> []" using that by auto
      with 1 "2.prems"(1) that have "score acc < score a" by auto
      with m'(2) show ?thesis by force
    qed
    then have "{a \<in> set best \<union> set (acc # accs). score a = m'} = {a \<in> {acc} \<union> set accs. score a = m'}"
      by auto
    moreover have "\<forall>a \<in> set best \<union> set (acc # accs). m' \<le> score a"
      using lt m'(2) by (auto intro: less_imp_le)
    ultimately show ?thesis using 1 m' by (intro exI [of _ m']) simp
  next
    case 2
    then have n: "\<not> (best = [] \<or> score acc < m)" "score acc = m" by auto
    have "\<exists>m'. set (best_loop score accs (best @ [acc]) m) = {a \<in> set (best @ [acc]) \<union> set accs. score a = m'}
        \<and> (\<forall>a \<in> set (best @ [acc]) \<union> set accs. m' \<le> score a) \<and> best_loop score accs (best @ [acc]) m \<noteq> []"
      by (rule "2.IH"(2) [OF n]) (use 2 "2.prems"(1) in auto)
    then show ?thesis using n by auto
  next
    case 3
    then have n: "\<not> (best = [] \<or> score acc < m)" "score acc \<noteq> m" by auto
    obtain m' where "set (best_loop score accs best m) = {a \<in> set best \<union> set accs. score a = m'}"
      "\<forall>a \<in> set best \<union> set accs. m' \<le> score a" "best_loop score accs best m \<noteq> []"
      using "2.IH"(3) [OF n "2.prems"(1)] 3(1) by blast
    moreover from this 3 have "m' < score acc"
      using "2.prems"(1) by (metis UnI1 hd_in_set le_less_trans)
    ultimately show ?thesis using 3 by (intro exI [of _ m']) auto
  qed
qed

lemma best_loop_minimal:
  assumes "accs \<noteq> []"
  shows "set (best_loop score accs [] m) = {a \<in> set accs. \<forall>b \<in> set accs. score a \<le> score b}"
    and "best_loop score accs [] m \<noteq> []"
proof -
  obtain m' where m: "set (best_loop score accs [] m) = {a \<in> set accs. score a = m'}"
    "\<forall>a \<in> set accs. m' \<le> score a" "best_loop score accs [] m \<noteq> []"
    using best_loop_set [of "[]" score m accs] assms by auto
  then obtain c where "c \<in> set accs" "score c = m'"
    by (metis (mono_tags, lifting) last_in_set mem_Collect_eq)
  then have "score a = m' \<longleftrightarrow> (\<forall>b \<in> set accs. score a \<le> score b)" if "a \<in> set accs" for a
    using m(2) that by (metis order_antisym)
  with m show "set (best_loop score accs [] m) = {a \<in> set accs. \<forall>b \<in> set accs. score a \<le> score b}"
    by auto
  show "best_loop score accs [] m \<noteq> []" by (rule m(3))
qed

text \<open>The load of an account under a tracker: what every candidate is scored by.\<close>

definition effective_weight :: "account \<Rightarrow> int" where
  "effective_weight acc = (if Weight acc \<le> 0 then 1 else Weight acc)"

definition load :: "tracker \<Rightarrow> account \<Rightarrow> rat" where
  "load t acc = f_div (f_of_int (mem_GetCount t (ID acc))) (f_of_int (effective_weight acc))"

lemma conn_score_load:
  "acc \<in> set accounts \<Longrightarrow> conn_score (mem_GetCounts t (map ID accounts)) acc = load t acc"
  by (simp add: conn_score_def load_def effective_weight_def mem_GetCounts_eq Let_def)

lemma minimal_score_load:
  "{a \<in> set accs. \<forall>b \<in> set accs. conn_score (mem_GetCounts t (map ID accs)) a \<le> conn_score (mem_GetCounts t (map ID accs)) b}
    = {a \<in> set accs. \<forall>b \<in> set accs. load t a \<le> load t b}"
  by (auto simp: conn_score_load)

lemma rand_IntN_less: "0 < n \<Longrightarrow> rand_IntN r n < n"
  by (simp add: rand_IntN_def)

lemma select_some: "accs \<noteq> [] \<Longrightarrow> \<exists>a. selectAccountWithTracker accs tr r lb = Some a"
  by (simp add: selectAccountWithTracker_def Let_def)

lemma select_least:
  assumes "selectAccountWithTracker accs tr r lb = Some a"
  shows "a \<in> set accs" and "b \<in> set accs \<Longrightarrow> load (pick_tracker tr lb) a \<le> load (pick_tracker tr lb) b"
proof -
  let ?t = "pick_tracker tr lb"
  let ?best = "best_loop (conn_score (mem_GetCounts ?t (map ID accs))) accs [] (- 1)"
  have ne: "accs \<noteq> []" using assms by (auto simp: selectAccountWithTracker_def)
  note best = best_loop_minimal [OF ne, of "conn_score (mem_GetCounts ?t (map ID accs))" "- 1",
      unfolded minimal_score_load]
  have "a \<in> set accs \<and> (\<forall>b \<in> set accs. load ?t a \<le> load ?t b)"
  proof (cases "length accs = 1")
    case True
    then obtain x where "accs = [x]" by (cases accs) auto
    with assms show ?thesis by (simp add: selectAccountWithTracker_def)
  next
    case False
    with assms ne best(2) have "a = ?best ! rand_IntN r (length ?best)"
      by (simp add: selectAccountWithTracker_def Let_def)
    then have "a \<in> set ?best" using best(2) by (simp add: rand_IntN_less)
    then show ?thesis using best(1) by auto
  qed
  then show "a \<in> set accs" "b \<in> set accs \<Longrightarrow> load ?t a \<le> load ?t b" by auto
qed

lemma select_fair:
  assumes "a \<in> set accs" and "\<forall>b \<in> set accs. load (pick_tracker tr lb) a \<le> load (pick_tracker tr lb) b"
  shows "\<exists>r. selectAccountWithTracker accs tr r lb = Some a"
proof (cases "length accs = 1")
  case True
  with assms show ?thesis by (auto simp: selectAccountWithTracker_def length_Suc_conv)
next
  case False
  let ?t = "pick_tracker tr lb"
  let ?best = "best_loop (conn_score (mem_GetCounts ?t (map ID accs))) accs [] (- 1)"
  have ne: "accs \<noteq> []" using assms by auto
  note best = best_loop_minimal [OF ne, of "conn_score (mem_GetCounts ?t (map ID accs))" "- 1",
      unfolded minimal_score_load]
  from assms best(1) have "a \<in> set ?best" by auto
  then obtain r where "r < length ?best" "?best ! r = a" by (auto simp: in_set_conv_nth)
  then have "selectAccountWithTracker accs tr r lb = Some a"
    using False ne best(2)
    by (simp add: selectAccountWithTracker_def Let_def rand_IntN_def)
  then show ?thesis by blast
qed

lemma load_nonneg: "0 \<le> mem_GetCount t (ID a) \<Longrightarrow> 0 \<le> load t a"
  unfolding load_def f_div_def f_of_int_def effective_weight_def
  by (intro fl_nonneg divide_nonneg_nonneg) auto

lemma load_zero_iff: "load t a = 0 \<longleftrightarrow> mem_GetCount t (ID a) = 0"
  by (simp add: load_def f_div_def f_of_int_def effective_weight_def)

section \<open>The verdict over time\<close>

lemma t_sub_mono: "a \<le> a' \<Longrightarrow> t_sub a b \<le> t_sub a' b"
  by (auto simp: t_sub_def)

lemma after_cooldown_mono:
  "after_cooldown now acc d r \<noteq> Unavailable \<Longrightarrow> now \<le> now' \<Longrightarrow> after_cooldown now' acc d r \<noteq> Unavailable"
  using t_sub_mono [of now now' "LastAttempt acc"]
  by (auto simp: after_cooldown_def split: if_splits)

lemma verdict_mono:
  "account_verdict now acc \<noteq> Unavailable \<Longrightarrow> now \<le> now' \<Longrightarrow> account_verdict now' acc \<noteq> Unavailable"
  using t_sub_mono [of now now' "LastAttempt acc"] after_cooldown_mono [of now acc _ _ now']
  by (auto simp: account_verdict_def Let_def split: if_splits)

lemma t_sub_ge: "b + d \<le> a \<Longrightarrow> d \<le> max_duration \<Longrightarrow> d \<le> t_sub a b"
  by (auto simp: t_sub_def)

lemma verdict_within_a_day:
  assumes "\<not> is_zero (LastAttempt acc)" and "is_zero (QuotaResetAt acc)"
    and "LastAttempt acc + 24 * hour \<le> now"
  shows "account_verdict now acc \<noteq> Unavailable"
proof -
  have "d \<le> t_sub now (LastAttempt acc)" if "d \<le> 24 * hour" for d
    using that assms(3) by (intro t_sub_ge) (auto simp: duration_units max_duration_def)
  then show ?thesis
    using assms(1,2)
    by (auto simp: account_verdict_def after_cooldown_def Let_def retry_defs duration_units)
qed

lemma verdict_Available_iff: "account_verdict now acc = Available \<longleftrightarrow> trim_space (StatusCode acc) = ''''"
  by (auto simp: account_verdict_def after_cooldown_def Let_def)

section \<open>Clearing and marking\<close>

definition cleared :: "account list \<Rightarrow> account list \<Rightarrow> bool" where
  "cleared L L' \<longleftrightarrow> list_all2 (\<lambda>a a'. a' = a \<or> a' = clear_status a) L L'"

lemma cleared_refl [simp]: "cleared L L"
  by (simp add: cleared_def list_all2_refl)

lemma cleared_trans: "cleared L L' \<Longrightarrow> cleared L' L'' \<Longrightarrow> cleared L L''"
  unfolding cleared_def by (auto simp: list_all2_conv_all_nth) (metis clear_status_idem)

lemma cleared_length: "cleared L L' \<Longrightarrow> length L' = length L"
  by (simp add: cleared_def list_all2_lengthD)

lemma cleared_nth: "cleared L L' \<Longrightarrow> i < length L \<Longrightarrow> L' ! i = L ! i \<or> L' ! i = clear_status (L ! i)"
  by (auto simp: cleared_def list_all2_conv_all_nth)

lemma cleared_identity: "cleared L L' \<Longrightarrow> i < length L \<Longrightarrow> same_identity (L' ! i) (L ! i)"
  using cleared_nth [of L L' i] by auto

lemma cleared_update_first: "cleared L (update_first i clear_status L)"
  unfolding cleared_def by (induction L) (auto simp: list_all2_refl)

lemma cleared_list_update: "i < length L \<Longrightarrow> cleared L (L[i := clear_status (L ! i)])"
  unfolding cleared_def by (auto simp: list_all2_conv_all_nth nth_list_update)

lemma persist_frame [simp]:
  "cachedAccounts (persistAccountStatus ops a lb) = cachedAccounts lb"
  "cacheExpires (persistAccountStatus ops a lb) = cacheExpires lb"
  "cacheTTL (persistAccountStatus ops a lb) = cacheTTL lb"
  "connTracker (persistAccountStatus ops a lb) = connTracker lb"
  by (simp_all add: persistAccountStatus_def split: option.splits)

lemma clear_cached:
  assumes "i < length (cachedAccounts lb)"
  shows "cleared (cachedAccounts lb) (cachedAccounts (clearAccountStatus ops i lb))"
    and "StatusCode (cachedAccounts (clearAccountStatus ops i lb) ! i) = ''''"
proof -
  let ?L = "(cachedAccounts lb)[i := clear_status (cachedAccounts lb ! i)]"
  show "cleared (cachedAccounts lb) (cachedAccounts (clearAccountStatus ops i lb))"
    using cleared_trans [OF cleared_list_update [OF assms] cleared_update_first]
    by (simp add: clearAccountStatus_def Let_def)
  have "cleared ?L (update_first j clear_status ?L)" for j by (rule cleared_update_first)
  then have "StatusCode (update_first j clear_status ?L ! i) = ''''" for j
    using cleared_nth [of ?L "update_first j clear_status ?L" i] assms by force
  then show "StatusCode (cachedAccounts (clearAccountStatus ops i lb) ! i) = ''''"
    by (simp add: clearAccountStatus_def Let_def)
qed

lemma available_step:
  assumes "isAccountAvailable ops now i lb = (ok, lb')" and "i < length (cachedAccounts lb)"
  shows "cleared (cachedAccounts lb) (cachedAccounts lb')"
    and "ok \<Longrightarrow> trim_space (StatusCode (cachedAccounts lb' ! i)) = ''''"
    and "\<not> ok \<Longrightarrow> lb' = lb"
    and "ok \<longleftrightarrow> account_verdict now (cachedAccounts lb ! i) \<noteq> Unavailable"
    and "connTracker lb' = connTracker lb"
proof -
  have "connTracker (clearAccountStatus ops i lb) = connTracker lb"
    by (simp add: clearAccountStatus_def Let_def)
  then show "cleared (cachedAccounts lb) (cachedAccounts lb')"
    "ok \<Longrightarrow> trim_space (StatusCode (cachedAccounts lb' ! i)) = ''''"
    "\<not> ok \<Longrightarrow> lb' = lb"
    "ok \<longleftrightarrow> account_verdict now (cachedAccounts lb ! i) \<noteq> Unavailable"
    "connTracker lb' = connTracker lb"
    using assms clear_cached [of i lb ops] verdict_Available_iff [of now "cachedAccounts lb ! i"]
    by (auto simp: isAccountAvailable_def split: verdict.splits)
qed

section \<open>The filter loop\<close>

definition eligible :: "int list \<Rightarrow> string \<Rightarrow> (account \<Rightarrow> bool) option \<Rightarrow> account \<Rightarrow> bool" where
  "eligible excludeIDs channel flt a \<longleftrightarrow> ID a \<notin> set excludeIDs \<and> channel_matches channel a
     \<and> (case flt of None \<Rightarrow> True | Some f \<Rightarrow> f a)"

text \<open>What a selected account looks like: no failure status, or 429 on the codebuff channel.\<close>

definition selectable :: "string \<Rightarrow> account \<Rightarrow> bool" where
  "selectable channel a \<longleftrightarrow> trim_space (StatusCode a) = ''''
     \<or> (trim_space (StatusCode a) = ''429'' \<and> equal_fold channel ''codebuff'')"

lemma selectable_cleared: "selectable channel a \<Longrightarrow> b = a \<or> b = clear_status a \<Longrightarrow> selectable channel b"
  by (auto simp: selectable_def)

definition filter_inv where
  "filter_inv clock excludeIDs channel flt lb0 is st \<longleftrightarrow> (case st of (fs, lb) \<Rightarrow>
     cleared (cachedAccounts lb0) (cachedAccounts lb) \<and> connTracker lb = connTracker lb0
   \<and> (\<forall>i \<in> set (fs_filtered fs). i \<in> set is \<and> selectable channel (cachedAccounts lb ! i)
        \<and> (\<exists>v. same_identity v (cachedAccounts lb0 ! i) \<and> eligible excludeIDs channel flt v))
   \<and> (\<forall>i \<in> set is. (\<forall>v. same_identity v (cachedAccounts lb0 ! i) \<longrightarrow> eligible excludeIDs channel flt v)
        \<and> account_verdict (clock (i + 2)) (cachedAccounts lb0 ! i) \<noteq> Unavailable \<longrightarrow> i \<in> set (fs_filtered fs))
   \<and> fs_rateLimited fs + length (fs_filtered fs) \<le> fs_channelMatched fs
   \<and> (fs_filtered fs = [] \<longrightarrow> lb = lb0
        \<and> fs_channelMatched fs = length (filter (\<lambda>i. eligible excludeIDs channel flt (cachedAccounts lb0 ! i)) is)
        \<and> (\<forall>i \<in> set is. eligible excludeIDs channel flt (cachedAccounts lb0 ! i)
             \<longrightarrow> account_verdict (clock (i + 2)) (cachedAccounts lb0 ! i) = Unavailable)
        \<and> (fs_rateLimited fs = fs_channelMatched fs \<longleftrightarrow>
            (\<forall>i \<in> set is. eligible excludeIDs channel flt (cachedAccounts lb0 ! i)
               \<longrightarrow> trim_space (StatusCode (cachedAccounts lb0 ! i)) = ''429''))))"

lemma cleared_verdict:
  assumes "a' = a \<or> a' = clear_status a" and "account_verdict now a \<noteq> Unavailable"
  shows "account_verdict now a' \<noteq> Unavailable"
  using assms verdict_Available_iff [of now "clear_status a"] by auto

lemma filter_step_skip:
  "\<not> eligible excludeIDs channel flt (cachedAccounts lb ! i) \<Longrightarrow>
     filter_step ops clock excludeIDs channel flt i (fs, lb) = (fs, lb)"
  by (auto simp: filter_step_def eligible_def Let_def split: option.splits)

lemma filter_step_take:
  assumes "eligible excludeIDs channel flt (cachedAccounts lb ! i)"
    and "isAccountAvailable ops (clock (i + 2)) i lb = (ok, lb')"
  shows "filter_step ops clock excludeIDs channel flt i (fs, lb) =
    (let fs = fs\<lparr>fs_channelMatched := Suc (fs_channelMatched fs)\<rparr>;
         limited = trim_space (StatusCode (cachedAccounts lb' ! i)) = ''429'' in
     if \<not> ok \<and> \<not> (limited \<and> equal_fold channel ''codebuff'')
     then (if limited then (fs\<lparr>fs_rateLimited := Suc (fs_rateLimited fs)\<rparr>, lb') else (fs, lb'))
     else (fs\<lparr>fs_filtered := fs_filtered fs @ [i]\<rparr>, lb'))"
  using assms by (auto simp: filter_step_def eligible_def Let_def split: option.splits)


lemma filter_inv_skip:
  assumes "filter_inv clock ex ch flt lb0 is (fs, lb)" and "i < length (cachedAccounts lb0)"
    and "\<not> eligible ex ch flt (cachedAccounts lb ! i)"
  shows "filter_inv clock ex ch flt lb0 (is @ [i]) (fs, lb)"
proof -
  have cl: "cleared (cachedAccounts lb0) (cachedAccounts lb)"
    using assms(1) by (simp add: filter_inv_def)
  have "same_identity (cachedAccounts lb ! i) (cachedAccounts lb0 ! i)"
    by (rule cleared_identity [OF cl assms(2)])
  then have "\<not> (\<forall>v. same_identity v (cachedAccounts lb0 ! i) \<longrightarrow> eligible ex ch flt v)"
    using assms(3) by blast
  with assms(1,3) show ?thesis by (auto simp: filter_inv_def)
qed

lemma filter_inv_select:
  assumes "filter_inv clock ex ch flt lb0 is (fs, lb)" and "cleared (cachedAccounts lb) (cachedAccounts lb')"
    and "connTracker lb' = connTracker lb" and "i < length (cachedAccounts lb0)"
    and "eligible ex ch flt (cachedAccounts lb ! i)" and "selectable ch (cachedAccounts lb' ! i)"
    and "\<forall>j \<in> set is. j < length (cachedAccounts lb0)"
  shows "filter_inv clock ex ch flt lb0 (is @ [i])
    (fs\<lparr>fs_channelMatched := Suc (fs_channelMatched fs), fs_filtered := fs_filtered fs @ [i]\<rparr>, lb')"
proof -
  have cl: "cleared (cachedAccounts lb0) (cachedAccounts lb)"
    using assms(1) by (simp add: filter_inv_def)
  have "same_identity (cachedAccounts lb ! i) (cachedAccounts lb0 ! i)"
    by (rule cleared_identity [OF cl assms(4)])
  moreover have "selectable ch (cachedAccounts lb' ! j)"
    if "selectable ch (cachedAccounts lb ! j)" "j < length (cachedAccounts lb0)" for j
    using selectable_cleared [OF that(1)] cleared_nth [OF assms(2)] that(2) cleared_length [OF cl] by simp
  moreover have "j < length (cachedAccounts lb0)" if "j \<in> set (fs_filtered fs)" for j
    using that assms(1,7) by (auto simp: filter_inv_def)
  ultimately show ?thesis
    using assms(1,3,5,6) cleared_trans [OF cl assms(2)] by (auto simp: filter_inv_def)
qed


lemma filter_inv_reject:
  assumes "filter_inv clock ex ch flt lb0 is (fs, lb)" and "i < length (cachedAccounts lb0)"
    and "eligible ex ch flt (cachedAccounts lb ! i)"
    and "account_verdict (clock (i + 2)) (cachedAccounts lb ! i) = Unavailable"
    and "n = (if trim_space (StatusCode (cachedAccounts lb ! i)) = ''429''
           then Suc (fs_rateLimited fs) else fs_rateLimited fs)"
  shows "filter_inv clock ex ch flt lb0 (is @ [i])
    (fs\<lparr>fs_channelMatched := Suc (fs_channelMatched fs), fs_rateLimited := n\<rparr>, lb)"
proof -
  have cl: "cleared (cachedAccounts lb0) (cachedAccounts lb)"
    using assms(1) by (simp add: filter_inv_def)
  have un: "account_verdict (clock (i + 2)) (cachedAccounts lb0 ! i) = Unavailable"
    using cleared_verdict [OF cleared_nth [OF cl assms(2)]] assms(4) by blast
  show ?thesis
    using assms un by (auto simp: filter_inv_def)
qed

lemma filter_inv_step:
  assumes "filter_inv clock ex ch flt lb0 is st" and "i < length (cachedAccounts lb0)"
    and "\<forall>j \<in> set is. j < length (cachedAccounts lb0)"
  shows "filter_inv clock ex ch flt lb0 (is @ [i]) (filter_step ops clock ex ch flt i st)"
proof -
  obtain fs lb where st: "st = (fs, lb)" by force
  have len: "i < length (cachedAccounts lb)"
    using assms(1,2) st cleared_length [of "cachedAccounts lb0" "cachedAccounts lb"]
    by (auto simp: filter_inv_def)
  show ?thesis
  proof (cases "eligible ex ch flt (cachedAccounts lb ! i)")
    case False
    then show ?thesis
      using filter_inv_skip [OF assms(1) [unfolded st] assms(2)] by (simp add: st filter_step_skip)
  next
    case True
    obtain ok lb' where av: "isAccountAvailable ops (clock (i + 2)) i lb = (ok, lb')" by force
    note a = available_step [OF av len]
    show ?thesis
    proof (cases "\<not> ok \<and> \<not> (trim_space (StatusCode (cachedAccounts lb' ! i)) = ''429'' \<and> equal_fold ch ''codebuff'')")
      case False
      then have "selectable ch (cachedAccounts lb' ! i)"
        using a(2) by (auto simp: selectable_def)
      from filter_inv_select [OF assms(1) [unfolded st] a(1) a(5) assms(2) True this assms(3)] False
      show ?thesis unfolding st filter_step_take [where clock = clock, OF True av] by (auto simp: Let_def)
    next
      case rej: True
      then have "lb' = lb" and "account_verdict (clock (i + 2)) (cachedAccounts lb ! i) = Unavailable"
        using a(3,4) by auto
      with filter_inv_reject [OF assms(1) [unfolded st] assms(2) True] rej
      show ?thesis unfolding st filter_step_take [where clock = clock, OF True av] by (auto simp: Let_def)
    qed
  qed
qed

lemma filter_loop_inv:
  "\<forall>i \<in> set is. i < length (cachedAccounts lb) \<Longrightarrow>
     filter_inv clock ex ch flt lb is (filter_loop ops clock ex ch flt is (fs_init, lb))"
proof (induction "is" rule: rev_induct)
  case Nil
  then show ?case by (simp add: filter_loop_def filter_inv_def fs_init_def)
next
  case (snoc i "is")
  then have "filter_inv clock ex ch flt lb is (filter_loop ops clock ex ch flt is (fs_init, lb))" by simp
  from filter_inv_step [OF this, of i ops] snoc.prems show ?case
    by (simp add: filter_loop_def)
qed


section \<open>Account selection\<close>

lemma get_enabled_cached:
  assumes "getEnabledAccounts ops clock lb = (Inr accs, lb1)"
  shows "cachedAccounts lb1 = accs" and "connTracker lb1 = connTracker lb"
  using assms by (auto simp: getEnabledAccounts_def split: if_splits option.splits sum.splits)

lemma get_next_unfold:
  assumes "getEnabledAccounts ops clock lb = (Inr accs, lb1)"
    and "filter_loop ops clock ex ch flt [0..<length accs] (fs_init, lb1) = (fs, lb2)"
  shows "GetNextAccountExcludingByChannelWithTrackerFilter ops clock r ex ch tr flt lb =
    (let cands = map (\<lambda>i. cachedAccounts lb2 ! i) (fs_filtered fs) in
     if cands = [] then
       (if ch \<noteq> '''' \<and> fs_channelMatched fs > 0 \<and> fs_rateLimited fs = fs_channelMatched fs
        then (Inl (AllRateLimited ch), lb2) else (Inl (NoEnabledAccounts ch), lb2))
     else (Inr (the (selectAccountWithTracker cands tr r lb2)), lb2))"
  using assms select_some [of "map (\<lambda>i. cachedAccounts lb2 ! i) (fs_filtered fs)" tr r lb2]
  by (auto simp: GetNextAccountExcludingByChannelWithTrackerFilter_def Let_def)

lemma get_next_filter_inv:
  assumes "getEnabledAccounts ops clock lb = (Inr accs, lb1)"
    and "filter_loop ops clock ex ch flt [0..<length accs] (fs_init, lb1) = (fs, lb2)"
  shows "filter_inv clock ex ch flt lb1 [0..<length accs] (fs, lb2)"
  using filter_loop_inv [of "[0..<length accs]" lb1 clock ex ch flt ops] assms
    get_enabled_cached(1) [OF assms(1)] by simp

lemma load_identity: "same_identity a b \<Longrightarrow> load t a = load t b"
  by (simp add: load_def effective_weight_def same_identity_fields)

text \<open>
  An account that the caller's constraints admit whatever its failure status: without a filter
  argument that is just \<open>eligible\<close>.
\<close>

definition always_eligible :: "int list \<Rightarrow> string \<Rightarrow> (account \<Rightarrow> bool) option \<Rightarrow> account \<Rightarrow> bool" where
  "always_eligible ex ch flt a \<longleftrightarrow> (\<forall>v. same_identity v a \<longrightarrow> eligible ex ch flt v)"

lemma always_eligible_None: "always_eligible ex ch None a \<longleftrightarrow> eligible ex ch None a"
proof -
  have "eligible ex ch None v = eligible ex ch None a" if "same_identity v a" for v
    using same_identity_fields [OF that] by (simp add: eligible_def channel_matches_def)
  then show ?thesis unfolding always_eligible_def using same_identity_refl by blast
qed

lemma candidates_facts:
  assumes "filter_inv clock ex ch flt lb1 [0..<length accs] (fs, lb2)"
    and "cachedAccounts lb1 = accs" and "i \<in> set (fs_filtered fs)"
  shows "i < length accs" and "same_identity (cachedAccounts lb2 ! i) (accs ! i)"
    and "selectable ch (cachedAccounts lb2 ! i)"
    and "\<exists>v. same_identity v (cachedAccounts lb2 ! i) \<and> eligible ex ch flt v"
proof -
  from assms show i: "i < length accs" by (auto simp: filter_inv_def)
  have cl: "cleared accs (cachedAccounts lb2)" using assms by (simp add: filter_inv_def)
  show id: "same_identity (cachedAccounts lb2 ! i) (accs ! i)"
    by (rule cleared_identity [OF cl i])
  show "selectable ch (cachedAccounts lb2 ! i)" using assms by (simp add: filter_inv_def)
  have "\<forall>i \<in> set (fs_filtered fs). \<exists>v. same_identity v (cachedAccounts lb1 ! i) \<and> eligible ex ch flt v"
    using assms(1) unfolding filter_inv_def prod.case by blast
  then obtain v where "same_identity v (accs ! i)" "eligible ex ch flt v" using assms(2,3) by blast
  with same_identity_trans [OF _ same_identity_sym [OF id]]
  show "\<exists>v. same_identity v (cachedAccounts lb2 ! i) \<and> eligible ex ch flt v" by blast
qed

text \<open>
  Property C22. Soundness of account selection: the account handed out is one of the enabled
  accounts fetched, it is not excluded, its type or agent mode matches the channel, the filter
  accepted it, and it carries no failure status (or 429 on the codebuff channel, which is left
  to the per-model quota filter). No account that was admissible and out of its cool-down is less
  loaded, by connections over weight as float64.
\<close>

theorem selection_sound:
  assumes "GetNextAccountExcludingByChannelWithTrackerFilter ops clock r ex ch tr flt lb = (Inr a, lb')"
    and "getEnabledAccounts ops clock lb = (Inr accs, lb1)"
  shows "(\<exists>i < length accs. a = cachedAccounts lb' ! i \<and> same_identity a (accs ! i))
    \<and> ID a \<notin> set ex \<and> channel_matches ch a \<and> selectable ch a
    \<and> (\<exists>v. same_identity v a \<and> eligible ex ch flt v)
    \<and> (\<forall>j < length accs. always_eligible ex ch flt (accs ! j)
           \<and> account_verdict (clock (j + 2)) (accs ! j) \<noteq> Unavailable
           \<longrightarrow> load (pick_tracker tr lb) a \<le> load (pick_tracker tr lb) (accs ! j))"
proof -
  obtain fs lb2 where loop: "filter_loop ops clock ex ch flt [0..<length accs] (fs_init, lb1) = (fs, lb2)"
    by force
  note inv = get_next_filter_inv [OF assms(2) loop]
  note en = get_enabled_cached [OF assms(2)]
  let ?cands = "map (\<lambda>i. cachedAccounts lb2 ! i) (fs_filtered fs)"
  have res: "?cands \<noteq> []" "a = the (selectAccountWithTracker ?cands tr r lb2)" "lb' = lb2"
    using assms(1) unfolding get_next_unfold [OF assms(2) loop] by (auto simp: Let_def split: if_splits)
  then have sel: "selectAccountWithTracker ?cands tr r lb2 = Some a"
    using select_some [of ?cands tr r lb2] by auto
  then obtain i where i: "i \<in> set (fs_filtered fs)" "a = cachedAccounts lb2 ! i"
    using select_least(1) by fastforce
  note c = candidates_facts [OF inv en(1) i(1)]
  have "\<exists>i < length accs. a = cachedAccounts lb' ! i \<and> same_identity a (accs ! i)"
    using c i res(3) by auto
  moreover have "ID a \<notin> set ex \<and> channel_matches ch a \<and> selectable ch a
         \<and> (\<exists>v. same_identity v a \<and> eligible ex ch flt v)"
  proof -
    obtain v where v: "same_identity v a" "eligible ex ch flt v" using c(4) i(2) by auto
    with same_identity_fields [OF v(1)] c(3) i(2) show ?thesis
      by (auto simp: eligible_def channel_matches_def)
  qed
  moreover have trk: "pick_tracker tr lb2 = pick_tracker tr lb"
  proof -
    have "connTracker lb2 = connTracker lb" using inv en(2) by (simp add: filter_inv_def)
    then show ?thesis by (cases tr) (simp_all add: pick_tracker_def)
  qed
  moreover have "\<forall>j < length accs. always_eligible ex ch flt (accs ! j)
           \<and> account_verdict (clock (j + 2)) (accs ! j) \<noteq> Unavailable
           \<longrightarrow> load (pick_tracker tr lb) a \<le> load (pick_tracker tr lb) (accs ! j)"
  proof (intro allI impI)
    fix j assume j: "j < length accs" "always_eligible ex ch flt (accs ! j)
           \<and> account_verdict (clock (j + 2)) (accs ! j) \<noteq> Unavailable"
    then have jf: "j \<in> set (fs_filtered fs)"
      using inv en(1) unfolding always_eligible_def filter_inv_def by auto
    then have "load (pick_tracker tr lb2) a \<le> load (pick_tracker tr lb2) (cachedAccounts lb2 ! j)"
      by (intro select_least(2) [OF sel]) auto
    then show "load (pick_tracker tr lb) a \<le> load (pick_tracker tr lb) (accs ! j)"
      by (simp only: trk load_identity [OF candidates_facts(2) [OF inv en(1) jf]])
  qed
  ultimately show ?thesis by simp
qed

text \<open>
  Property C23. Account selection fails only when it must: if the enabled accounts could be
  fetched and no account is returned, the cache is left as fetched and every admissible account is
  still in its cool-down; the error is "all rate-limited" for a named channel with at least one
  admissible account where all of them carry status 429, and "no enabled accounts" otherwise.
\<close>

theorem selection_error:
  assumes "GetNextAccountExcludingByChannelWithTrackerFilter ops clock r ex ch tr flt lb = (Inl e, lb')"
    and "getEnabledAccounts ops clock lb = (Inr accs, lb1)"
  shows "lb' = lb1
    \<and> (\<forall>i < length accs. eligible ex ch flt (accs ! i)
           \<longrightarrow> account_verdict (clock (i + 2)) (accs ! i) = Unavailable)
    \<and> e = (if ch \<noteq> '''' \<and> (\<exists>i < length accs. eligible ex ch flt (accs ! i))
             \<and> (\<forall>i < length accs. eligible ex ch flt (accs ! i) \<longrightarrow> trim_space (StatusCode (accs ! i)) = ''429'')
           then AllRateLimited ch else NoEnabledAccounts ch)"
proof -
  obtain fs lb2 where loop: "filter_loop ops clock ex ch flt [0..<length accs] (fs_init, lb1) = (fs, lb2)"
    by force
  note inv = get_next_filter_inv [OF assms(2) loop]
  note en = get_enabled_cached [OF assms(2)]
  have res: "fs_filtered fs = []" "lb' = lb2"
    "e = (if ch \<noteq> '''' \<and> fs_channelMatched fs > 0 \<and> fs_rateLimited fs = fs_channelMatched fs
          then AllRateLimited ch else NoEnabledAccounts ch)"
    using assms(1) unfolding get_next_unfold [OF assms(2) loop] by (auto simp: Let_def split: if_splits)
  have empty: "lb2 = lb1"
    "fs_channelMatched fs = length (filter (\<lambda>i. eligible ex ch flt (accs ! i)) [0..<length accs])"
    "\<forall>i \<in> set [0..<length accs]. eligible ex ch flt (accs ! i)
       \<longrightarrow> account_verdict (clock (i + 2)) (accs ! i) = Unavailable"
    "fs_rateLimited fs = fs_channelMatched fs \<longleftrightarrow> (\<forall>i \<in> set [0..<length accs].
       eligible ex ch flt (accs ! i) \<longrightarrow> trim_space (StatusCode (accs ! i)) = ''429'')"
    using inv res(1) unfolding filter_inv_def prod.case en(1) by blast+
  have "fs_channelMatched fs > 0 \<longleftrightarrow> (\<exists>i < length accs. eligible ex ch flt (accs ! i))"
    unfolding empty(2) by (auto simp: length_greater_0_conv filter_empty_conv)
  then show ?thesis using res(2,3) empty(1,3,4) by auto
qed

end
