(* ===== verification/Error_Properties.thy ===== *)
theory Error_Properties
  imports App_Errors Balancer_Laws
begin

text \<open>
  What the classification of error texts promises to its two clients: the retry loop of the
  handler (category, retry, account switch, HTTP status) and the load balancer (status codes that
  take an account out of rotation).
\<close>

section \<open>Upstream classes\<close>

lemma if_in: "a \<in> S \<Longrightarrow> b \<in> S \<Longrightarrow> (if c then a else b) \<in> S"
  by simp

lemma upstream_classes:
  "ClassifyUpstreamError e \<in> {uclass ''canceled'' False False, uclass ''client'' False False,
     uclass ''auth'' True True, uclass ''auth_blocked'' True True, uclass ''auth_blocked'' False False,
     uclass ''session_conflict'' True True, uclass ''model_unavailable'' True True,
     uclass ''rate_limit'' True True, uclass ''timeout'' True True, uclass ''network'' True True,
     uclass ''server'' True True, uclass ''unknown'' True True}"
  unfolding ClassifyUpstreamError_def Let_def by (intro if_in; (rule insertI1 | rule insertI2)+)

text \<open>
  Every error text falls in one of ten categories with a fixed HTTP status; a class
  is retried exactly when it switches the account; and only a canceled request, a client error and
  a blocked or missing resource are ever given up without a retry.
\<close>

theorem upstream_class_range:
  "Retryable (ClassifyUpstreamError e) = SwitchAccount (ClassifyUpstreamError e)
    \<and> (Category (ClassifyUpstreamError e), errorCategoryToStatus (Category (ClassifyUpstreamError e))) \<in>
        {(''canceled'', 499), (''client'', 400), (''auth'', 401), (''auth_blocked'', 403),
         (''session_conflict'', 400), (''model_unavailable'', 503), (''rate_limit'', 429),
         (''timeout'', 504), (''network'', 502), (''server'', 502), (''unknown'', 502)}
    \<and> (Retryable (ClassifyUpstreamError e)
        \<or> Category (ClassifyUpstreamError e) \<in> {''canceled'', ''client'', ''auth_blocked''})"
  using upstream_classes [of e] by (elim insertE) (simp_all add: errorCategoryToStatus_def)

lemma model_error_class:
  assumes "any_of (to_lower e) [''model is not found'', ''model not found'', ''no_implementation_available'',
     ''context_window_exceeded'', ''max_token_limit'']"
  shows "ClassifyUpstreamError e \<in> {uclass ''canceled'' False False, uclass ''client'' False False}"
  unfolding ClassifyUpstreamError_def Let_def if_P [OF assms]
  by (rule if_in, rule insertI1, rule insertI2, rule insertI1)

text \<open>
  A mapping error never costs an account: when the upstream says that the model is
  not found, the account keeps its status, the failure does not count as an authentication
  failure, and the request is not retried elsewhere, whatever else the text contains (a 401 or a
  429 included).
\<close>

theorem model_error_spares_account:
  assumes "contains (to_lower e) ''model not found'' \<or> contains (to_lower e) ''model is not found''"
  shows "ClassifyAccountStatus e = '''' \<and> \<not> IsAccountAuthFailure (Some e)
    \<and> \<not> Retryable (ClassifyUpstreamError e) \<and> \<not> SwitchAccount (ClassifyUpstreamError e)"
proof -
  have "any_of (to_lower e) [''model is not found'', ''model not found'']" using assms by auto
  then have "ClassifyAccountStatus e = ''''" unfolding ClassifyAccountStatus_def Let_def by (rule if_P)
  moreover from this have "\<not> IsAccountAuthFailure (Some e)" by (simp add: IsAccountAuthFailure_def)
  moreover have "ClassifyUpstreamError e \<in> {uclass ''canceled'' False False, uclass ''client'' False False}"
    by (rule model_error_class) (use assms in auto)
  ultimately show ?thesis by auto
qed

theorem model_error_spares_account_witness:
  "ClassifyAccountStatus ''HTTP 401: Model not found'' = ''''"
proof -
  have "to_lower ''HTTP 401: Model not found'' = ''http 401: '' @ ''model not found'' @ ''''"
    by code_simp
  then have "contains (to_lower ''HTTP 401: Model not found'') ''model not found''"
    by (simp only: contains_infix)
  then show ?thesis using model_error_spares_account by blast
qed

section \<open>Account status\<close>

lemma contains_Cons: "contains (c # s) p = (prefix p (c # s) \<or> contains s p)"
  by (simp add: contains_def sublist_Cons_right)

lemma contains_Nil: "contains s []" "contains [] p = (p = [])"
  by (simp_all add: contains_def)

lemma account_status_values:
  "ClassifyAccountStatus e \<in> {'''', ''401'', ''403'', ''404'', ''402'', ''429''}"
  unfolding ClassifyAccountStatus_def Let_def by (intro if_in; (rule insertI1 | rule insertI2)+)

lemma trim_status:
  "s \<in> {''401'', ''403'', ''404'', ''402'', ''429''} \<Longrightarrow> trim_space s = s"
  by (auto intro!: trim_space_id simp: printable_def)

text \<open>
  The classifier and the load balancer agree: every status the classifier can give
  an account, once marked, makes the balancer refuse the account at that very instant, and every
  other text is no reason to mark it.
\<close>

theorem classified_status_takes_effect:
  assumes "now \<noteq> 0" and "ClassifyAccountStatus e \<noteq> ''''"
  shows "account_verdict now (mark_with (ClassifyAccountStatus e) now 0 a) = Unavailable
    \<and> account_verdict (now + 24 * hour) (mark_with (ClassifyAccountStatus e) now 0 a) \<noteq> Unavailable"
proof
  have s: "ClassifyAccountStatus e \<in> {''401'', ''403'', ''404'', ''402'', ''429''}"
    using account_status_values [of e] assms(2) by auto
  have "t_sub now now = 0" by (simp add: t_sub_def min_duration_def max_duration_def)
  with s assms(1) trim_status [OF s]
  show "account_verdict now (mark_with (ClassifyAccountStatus e) now 0 a) = Unavailable"
    by (auto simp: account_verdict_def mark_with_def after_cooldown_def is_zero_def zero_time_def
        retry_defs minute_def hour_def second_def)
  show "account_verdict (now + 24 * hour) (mark_with (ClassifyAccountStatus e) now 0 a) \<noteq> Unavailable"
    by (rule verdict_within_a_day) (use assms(1) in \<open>auto simp: mark_with_def is_zero_def zero_time_def\<close>)
qed

theorem classified_status_takes_effect_witness:
  "account_verdict 7 (mark_with (ClassifyAccountStatus ''forbidden'') 7 0 zero_account) = Unavailable"
proof -
  have "to_lower ''forbidden'' = ''forbidden''" by code_simp
  then have "ClassifyAccountStatus ''forbidden'' \<noteq> ''''"
    by (simp add: ClassifyAccountStatus_def Let_def contains_Cons contains_Nil)
  from classified_status_takes_effect [OF _ this, of 7 zero_account] show ?thesis by simp
qed

section \<open>Codebuff errors\<close>

lemma explicit_status_contained:
  assumes "HasExplicitHTTPStatus l code"
  shows "contains l (trim_space code)"
proof -
  have "contains p (trim_space code)" if "p \<in> set (status_patterns (trim_space code))" for p
    using that by (auto simp: status_patterns_def contains_def suffix_imp_sublist Cons_eq_append_conv
        intro!: suffix_imp_sublist suffix_ConsI)
  moreover obtain p where "p \<in> set (status_patterns (trim_space code))" "contains l p"
    using assms by (auto simp: HasExplicitHTTPStatus_def Let_def list_ex_iff split: if_splits)
  ultimately show ?thesis by (auto simp: contains_def intro: sublist_order.order_trans)
qed

definition ascii :: "string \<Rightarrow> bool" where
  "ascii s = list_all (\<lambda>c. (of_char c :: nat) < 128) s"

lemma contains_skip:
  "contains (bs @ b) p \<Longrightarrow> set p \<inter> set bs = {} \<Longrightarrow> p \<noteq> [] \<Longrightarrow> contains b p"
  by (induction bs) (auto simp: contains_Cons prefix_Cons)

lemma contains_split:
  assumes "contains (a @ bs @ b) p" and "set p \<inter> set bs = {}" and "bs \<noteq> []"
  shows "contains a p \<or> contains b p"
proof (cases "p = []")
  case False
  have no: "\<not> prefix q (bs @ b)" if "q \<noteq> []" "set q \<inter> set bs = {}" for q
    using that assms(3) by (cases bs; cases q) auto
  have pre: "prefix p xs" if pxs: "prefix p (xs @ bs @ b)" for xs
  proof -
    consider "prefix p xs" | us where "p = xs @ us" "prefix us (bs @ b)"
      using pxs unfolding prefix_append [of p xs "bs @ b"] by blast
    then show ?thesis
    proof cases
      case 2
      then have "us = []" using no [of us] assms(2) by auto
      then show ?thesis using 2 by simp
    qed
  qed
  have "contains (xs @ bs @ b) p \<Longrightarrow> contains xs p \<or> contains b p" for xs
  proof (induction xs)
    case Nil
    then show ?case using contains_skip [OF _ assms(2) False] by simp
  next
    case (Cons x xs)
    then show ?case using pre [of "x # xs"] by (auto simp: contains_Cons)
  qed
  then show ?thesis using assms(1) by blast
qed (simp add: contains_Nil)

lemma itoa_401: "itoa 401 = ''401''"
  by code_simp

lemma any_of_bytes:
  assumes "list_all ascii ps" and "list_all (\<lambda>n. 128 \<le> n \<and> n < 256) ns" and "ns \<noteq> []"
  shows "any_of (a @ bytes_of ns @ b) ps = (any_of a ps \<or> any_of b ps)"
proof -
  have "contains (a @ bytes_of ns @ b) p = (contains a p \<or> contains b p)" if "p \<in> set ps" for p
  proof -
    have "ascii p" using assms(1) that by (simp add: list_all_iff)
    then have "set p \<inter> set (bytes_of ns) = {}"
      using assms(2) by (fastforce simp: ascii_def list_all_iff bytes_of_def)
    then show ?thesis using contains_split [of a "bytes_of ns" b p] assms(3)
        contains_append [of a p "[]" "bytes_of ns @ b"] contains_append [of b p "a @ bytes_of ns" "[]"]
      by (auto simp: bytes_of_def)
  qed
  then show ?thesis by (auto simp: any_of_def list_ex_iff)
qed

lemma lower_bytes: "list_all (\<lambda>n. 128 \<le> n \<and> n < 256) ns \<Longrightarrow> to_lower (bytes_of ns) = bytes_of ns"
  by (auto simp: to_lower_def bytes_of_def lower_char_def list_all_iff intro!: map_idI)

lemma lower_append: "to_lower (a @ b) = to_lower a @ to_lower b"
  by (simp add: to_lower_def)

lemma mismatch_any_of:
  assumes "list_all ascii ps"
  shows "any_of (to_lower mismatch_message) ps = (any_of ''codebuff 409 session_model_mismatch: '' ps
    \<or> any_of '' ip/'' ps \<or> any_of '' us '' ps \<or> any_of '' ip '' ps \<or> any_of [] ps)"
proof -
  have "to_lower ''Codebuff 409 session_model_mismatch: '' = ''codebuff 409 session_model_mismatch: ''"
    "to_lower '' IP/'' = '' ip/''" "to_lower '' US '' = '' us ''" "to_lower '' IP '' = '' ip ''"
    by code_simp+
  moreover have "any_of (a @ bytes_of ns) ps = (any_of a ps \<or> any_of [] ps)"
    if "list_all (\<lambda>n. 128 \<le> n \<and> n < 256) ns" "ns \<noteq> []" for a ns
    using any_of_bytes [OF assms that, of a "[]"] by simp
  ultimately show ?thesis
    by (simp add: mismatch_message_def lower_append lower_bytes any_of_bytes assms del: append.simps)
qed

lemma lower_mismatch:
  "\<not> any_of (to_lower mismatch_message) [''401'', ''402'', ''403'', ''404'', ''429'']"
  "\<not> any_of (to_lower mismatch_message) [''context canceled'', ''canceled'', ''model is not found'',
     ''model not found'', ''no_implementation_available'', ''context_window_exceeded'', ''max_token_limit'',
     ''signed out'', ''signed_out'', ''invalid_api_key'']"
  "\<not> any_of (to_lower mismatch_message) [''unauthorized'', ''no active sessions found'', ''forbidden'',
     ''insufficient_funds'', ''insufficient funding'', ''available funding is insufficient'',
     ''out of credits'', ''credits exhausted'', ''run out of credits'', ''quota_limit'']"
  "\<not> any_of (to_lower mismatch_message) [''too many requests'', ''rate limit'', ''rate_limit'',
     ''no remaining quota'', ''quota exceeded'']"
  "any_of (to_lower mismatch_message) [''session_model_mismatch'']"
  by (simp_all del: any_of_simps(2) add: mismatch_any_of ascii_def, simp_all add: contains_Cons contains_Nil)

lemma mismatch_class:
  "ClassifyUpstreamError mismatch_message = uclass ''session_conflict'' True True"
  "ClassifyAccountStatus mismatch_message = ''''"
proof -
  have no: "\<not> HasExplicitHTTPStatus (to_lower mismatch_message) s"
    if "s \<in> {''401'', ''402'', ''403'', ''404'', ''429''}" for s
    using explicit_status_contained [of "to_lower mismatch_message" s] trim_status [of s] lower_mismatch(1) that
    by auto
  show "ClassifyUpstreamError mismatch_message = uclass ''session_conflict'' True True"
    unfolding ClassifyUpstreamError_def Let_def using no lower_mismatch by simp
  show "ClassifyAccountStatus mismatch_message = ''''"
    unfolding ClassifyAccountStatus_def Let_def using no lower_mismatch by simp
qed

text \<open>
  The error built from an upstream response keeps the status readable for the
  classifiers: a 409 \<open>session_model_mismatch\<close> becomes a retryable session conflict that leaves the
  account alone; any other response leaves its status code as an explicit HTTP status in the
  message, whatever prefix and body surround it, so that a 401 without a model error marks the
  account and counts as an authentication failure.
\<close>

theorem codebuff_error_classified:
  "(if cb_Message (NewError resp body pre) = mismatch_message
    then ClassifyUpstreamError (cb_Message (NewError resp body pre)) = uclass ''session_conflict'' True True
      \<and> ClassifyAccountStatus (cb_Message (NewError resp body pre)) = ''''
    else HasExplicitHTTPStatus (to_lower (cb_Message (NewError resp body pre)))
        (itoa (cb_StatusCode (NewError resp body pre)))
      \<and> (cb_StatusCode (NewError resp body pre) = 401
          \<and> \<not> any_of (to_lower (cb_Message (NewError resp body pre))) [''model is not found'', ''model not found'']
        \<longrightarrow> IsAccountAuthFailure (Some (cb_Message (NewError resp body pre)))))"
proof (cases "cb_Message (NewError resp body pre) = mismatch_message")
  case True
  then show ?thesis by (simp add: mismatch_class)
next
  case False
  then obtain p b where m: "cb_Message (NewError resp body pre)
      = p @ '': status='' @ itoa (cb_StatusCode (NewError resp body pre)) @ '' body='' @ b"
    by (auto simp: NewError_def Let_def split: if_splits)
  have h: "HasExplicitHTTPStatus (to_lower (cb_Message (NewError resp body pre)))
      (itoa (cb_StatusCode (NewError resp body pre)))"
    by (subst m) (rule status_equals_found)
  moreover note itoa_401
  ultimately show ?thesis using False
    by (auto simp: IsAccountAuthFailure_def ClassifyAccountStatus_def Let_def)
qed

theorem codebuff_error_classified_witness:
  "IsAccountAuthFailure (Some (cb_Message (NewError (Some 401) ''expired'' '''')))"
proof -
  let ?m = "''Codebuff request failed: status=401 body=expired''"
  have m: "NewError (Some 401) ''expired'' '''' = \<lparr>cb_Message = ?m, cb_StatusCode = 401\<rparr>"
    using itoa_401 by (simp add: NewError_def)
  have "to_lower ?m = ''codebuff request failed: status=401 body=expired''" by code_simp
  then have "\<not> any_of (to_lower ?m) [''model is not found'', ''model not found'']"
    by (simp add: contains_Cons contains_Nil)
  moreover have "?m \<noteq> mismatch_message" by (simp add: mismatch_message_def)
  ultimately show ?thesis using codebuff_error_classified [of "Some 401" "''expired''" "''''"]
    unfolding m by simp
qed

end
