(* ===== verification/Counter_Redis.thy ===== *)
theory Counter_Redis
  imports Go_Any "HOL-Library.Finite_Map"
begin

text \<open>
  The Redis commands that count: fields of hashes, members of sorted sets and counters, with an expiry
  of the key, as lists of commands that a transaction runs. The server is a record of operations at an
  instant, its documented behaviour a locale, and a concrete server satisfies it. Every key is used with one
  type of value; the numbers are 64-bit integers and sorted sets have integral scores.
\<close>

section \<open>Commands\<close>

datatype command =
    HIncrBy string string int
  | HSet string string int
  | HSetNX string string int
  | Expire string duration
  | ZAdd string int string
  | ZRemBelow string int
  | Incr string
  | DelKey string

text \<open>
  \<open>k_hgetall\<close> gives the texts of a hash, \<open>k_zcount\<close> the members with a score above the first and up to the
  second bound, \<open>k_get\<close> a counter.
\<close>

record 'r counters =
  k_exec :: "instant \<Rightarrow> command \<Rightarrow> 'r \<Rightarrow> 'r"
  k_hgetall :: "instant \<Rightarrow> string \<Rightarrow> 'r \<Rightarrow> (string, string) fmap"
  k_zcount :: "instant \<Rightarrow> string \<Rightarrow> int \<Rightarrow> int \<Rightarrow> 'r \<Rightarrow> int"
  k_get :: "instant \<Rightarrow> string \<Rightarrow> 'r \<Rightarrow> int option"

text \<open>A transaction: all commands, or none when the server cannot be reached.\<close>

definition transaction :: "'r counters \<Rightarrow> bool \<Rightarrow> instant \<Rightarrow> command list \<Rightarrow> 'r \<Rightarrow> 'r" where
  "transaction K up now cs r = (if up then fold (k_exec K now) cs r else r)"

section \<open>What a command does to a value\<close>

fun cell_after :: "command \<Rightarrow> string \<Rightarrow> string \<Rightarrow> int option \<Rightarrow> int option" where
  "cell_after (HIncrBy k f d) k' f' v = (if k = k' \<and> f = f' then Some (or_else 0 v + d) else v)"
| "cell_after (HSet k f n) k' f' v = (if k = k' \<and> f = f' then Some n else v)"
| "cell_after (HSetNX k f n) k' f' v = (if k = k' \<and> f = f' \<and> v = None then Some n else v)"
| "cell_after (Expire k ttl) k' f' v = (if k = k' \<and> ttl \<le> 0 then None else v)"
| "cell_after (DelKey k) k' f' v = (if k = k' then None else v)"
| "cell_after c k' f' v = v"

fun members_after :: "command \<Rightarrow> string \<Rightarrow> (string \<times> int) set \<Rightarrow> (string \<times> int) set" where
  "members_after (ZAdd k score m) k' s = (if k = k' then insert (m, score) {p \<in> s. fst p \<noteq> m} else s)"
| "members_after (ZRemBelow k x) k' s = (if k = k' then {p \<in> s. x \<le> snd p} else s)"
| "members_after (Expire k ttl) k' s = (if k = k' \<and> ttl \<le> 0 then {} else s)"
| "members_after (DelKey k) k' s = (if k = k' then {} else s)"
| "members_after c k' s = s"

fun count_after :: "command \<Rightarrow> string \<Rightarrow> int option \<Rightarrow> int option" where
  "count_after (Incr k) k' v = (if k = k' then Some (or_else 0 v + 1) else v)"
| "count_after (Expire k ttl) k' v = (if k = k' \<and> ttl \<le> 0 then None else v)"
| "count_after (DelKey k) k' v = (if k = k' then None else v)"
| "count_after c k' v = v"

text \<open>The instant up to which a key surely stays, as the commands move it.\<close>

fun stays_after :: "instant \<Rightarrow> command \<Rightarrow> string \<Rightarrow> instant \<Rightarrow> bool \<Rightarrow> bool" where
  "stays_after now (Expire k ttl) k' u b \<longleftrightarrow> (if k = k' then u \<le> now + ttl else b)"
| "stays_after now c k' u b \<longleftrightarrow> b"

section \<open>The server\<close>

text \<open>
  \<open>cell\<close> and \<open>members\<close> read the live value of a key; \<open>stays k u r\<close> says that the key does not expire
  before \<open>u\<close>. An increment that overflows is refused by the server, so the law of increments has a range.
\<close>

locale counter_redis =
  fixes K :: "'r counters"
    and cell :: "instant \<Rightarrow> string \<Rightarrow> string \<Rightarrow> 'r \<Rightarrow> int option"
    and members :: "instant \<Rightarrow> string \<Rightarrow> 'r \<Rightarrow> (string \<times> int) set"
    and stays :: "string \<Rightarrow> instant \<Rightarrow> 'r \<Rightarrow> bool"
  assumes cell_exec: "(\<And>d. c = HIncrBy k f d \<Longrightarrow> in64 (or_else 0 (cell now k f r) + d))
      \<Longrightarrow> cell now k f (k_exec K now c r) = cell_after c k f (cell now k f r)"
    and members_exec: "members now k (k_exec K now c r) = members_after c k (members now k r)"
    and count_exec: "k_get K now k (k_exec K now c r) = count_after c k (k_get K now k r)"
    and stays_exec: "stays_after now c k u (stays k u r) \<Longrightarrow> stays k u (k_exec K now c r)"
    and cell_stays: "stays k u r \<Longrightarrow> s < u \<Longrightarrow> t < u \<Longrightarrow> cell t k f r = cell s k f r"
    and members_stays: "stays k u r \<Longrightarrow> s < u \<Longrightarrow> t < u \<Longrightarrow> members t k r = members s k r"
    and count_stays: "stays k u r \<Longrightarrow> s < u \<Longrightarrow> t < u \<Longrightarrow> k_get K t k r = k_get K s k r"
    and hgetall: "fmlookup (k_hgetall K now k r) f = map_option itoa (cell now k f r)"
    and zcount: "k_zcount K now k lo hi r = int (card {p \<in> members now k r. lo < snd p \<and> snd p \<le> hi})"
begin

lemma members_run: "members now k (fold (k_exec K now) cs r) = fold (\<lambda>c. members_after c k) cs (members now k r)"
  by (induction cs arbitrary: r) (simp_all add: members_exec)

lemma count_run: "k_get K now k (fold (k_exec K now) cs r) = fold (\<lambda>c. count_after c k) cs (k_get K now k r)"
  by (induction cs arbitrary: r) (simp_all add: count_exec)

lemma stays_run: "(\<And>ttl. Expire k ttl \<in> set cs \<Longrightarrow> u \<le> now + ttl) \<Longrightarrow> stays k u r \<Longrightarrow> stays k u (fold (k_exec K now) cs r)"
proof (induction cs arbitrary: r)
  case (Cons c cs)
  have "stays_after now c k u (stays k u r)" using Cons.prems by (cases c) auto
  then have "stays k u (k_exec K now c r)" by (rule stays_exec)
  with Cons show ?case by simp
qed simp

end

section \<open>Sums of increments\<close>

text \<open>The increments of a cell in a list of commands, and the commands that leave it to increments.\<close>

fun inc_of :: "string \<Rightarrow> string \<Rightarrow> command \<Rightarrow> int list" where
  "inc_of k f (HIncrBy k' f' d) = (if k' = k \<and> f' = f then [d] else [])"
| "inc_of k f c = []"

fun only_counts :: "string \<Rightarrow> string \<Rightarrow> command \<Rightarrow> bool" where
  "only_counts k f (HSet k' f' n) \<longleftrightarrow> k' \<noteq> k \<or> f' \<noteq> f"
| "only_counts k f (HSetNX k' f' n) \<longleftrightarrow> k' \<noteq> k \<or> f' \<noteq> f"
| "only_counts k f (Expire k' ttl) \<longleftrightarrow> k' \<noteq> k \<or> 0 < ttl"
| "only_counts k f (DelKey k') \<longleftrightarrow> k' \<noteq> k"
| "only_counts k f c \<longleftrightarrow> True"

definition incs :: "string \<Rightarrow> string \<Rightarrow> command list \<Rightarrow> int list" where
  "incs k f cs = concat (map (inc_of k f) cs)"

definition all_incs :: "string \<Rightarrow> string \<Rightarrow> (instant \<times> command list) list \<Rightarrow> int list" where
  "all_incs k f ts = concat (map (incs k f \<circ> snd) ts)"

definition sum_opt :: "int list \<Rightarrow> int option" where
  "sum_opt ds = (if ds = [] then None else Some (sum_list ds))"

definition run_all :: "'r counters \<Rightarrow> (instant \<times> command list) list \<Rightarrow> 'r \<Rightarrow> 'r" where
  "run_all K ts = fold (\<lambda>(now, cs). transaction K True now cs) ts"

lemma incs_simps [simp]: "incs k f [] = []" "incs k f (c # cs) = inc_of k f c @ incs k f cs" "incs k f (cs @ cs') = incs k f cs @ incs k f cs'"
  by (simp_all add: incs_def)

lemma all_incs_simps [simp]: "all_incs k f [] = []" "all_incs k f ((t, cs) # ts) = incs k f cs @ all_incs k f ts"
  "all_incs k f (ts @ ts') = all_incs k f ts @ all_incs k f ts'"
  by (simp_all add: all_incs_def)

lemma cell_counts: "only_counts k f c \<Longrightarrow> cell_after c k f (sum_opt ds) = sum_opt (ds @ inc_of k f c)"
  by (cases c) (auto simp: sum_opt_def)

lemma run_all_simps [simp]: "run_all K [] r = r" "run_all K ((t, cs) # ts) r = run_all K ts (fold (k_exec K t) cs r)"
  "run_all K (ts @ ts') r = run_all K ts' (run_all K ts r)"
  by (simp_all add: run_all_def transaction_def)

context counter_redis begin

lemma cell_run:
  assumes "\<forall>c \<in> set cs. only_counts k f c" and "cell now k f r = sum_opt ds" and "\<forall>d \<in> set (ds @ incs k f cs). 0 \<le> d"
    and "sum_list (ds @ incs k f cs) < 2 ^ 63"
  shows "cell now k f (fold (k_exec K now) cs r) = sum_opt (ds @ incs k f cs)"
  using assms
proof (induction cs arbitrary: r ds)
  case (Cons c cs)
  have pos: "0 \<le> sum_list (ds @ inc_of k f c)" "0 \<le> sum_list (incs k f cs)"
    by (rule sum_list_nonneg; use Cons.prems(3) in auto)+
  have "in64 (or_else 0 (cell now k f r) + d)" if "c = HIncrBy k f d" for d
    using that pos Cons.prems(2,4) by (auto simp: in64_def sum_opt_def or_else_def)
  then have "cell now k f (k_exec K now c r) = sum_opt (ds @ inc_of k f c)"
    using cell_exec cell_counts Cons.prems(1,2) by simp
  from Cons.IH [OF _ this] Cons.prems show ?case by simp
qed simp

text \<open>
  A cell that is only incremented, whose key was extended past the instant of reading at every touch, holds the
  sum of its increments.
\<close>

theorem cell_sum:
  assumes "\<forall>(t, cs) \<in> set ts. t \<le> now \<and> (\<forall>c \<in> set cs. only_counts k f c) \<and> (\<forall>ttl. Expire k ttl \<in> set cs \<longrightarrow> now < t + ttl)"
    and "stays k (now + 1) r" and "cell now k f r = None"
    and "\<forall>d \<in> set (all_incs k f ts). 0 \<le> d" and "sum_list (all_incs k f ts) < 2 ^ 63"
  shows "cell now k f (run_all K ts r) = sum_opt (all_incs k f ts)"
proof -
  have "stays k (now + 1) (run_all K ts r) \<and> cell now k f (run_all K ts r) = sum_opt (all_incs k f ts)"
    using assms
  proof (induction ts rule: rev_induct)
    case (snoc e ts)
    obtain t cs where e: "e = (t, cs)" by (cases e)
    let ?r = "run_all K ts r"
    have pos: "0 \<le> sum_list (incs k f cs)" using snoc.prems(4) e by (auto intro!: sum_list_nonneg)
    have IH: "stays k (now + 1) ?r" "cell now k f ?r = sum_opt (all_incs k f ts)" using snoc pos e by auto
    have s: "stays k (now + 1) (fold (k_exec K t) cs ?r)" using snoc.prems(1) e by (intro stays_run [OF _ IH(1)]) auto
    have "t < now + 1" using snoc.prems(1) e by auto
    then have "cell t k f ?r = sum_opt (all_incs k f ts)" using cell_stays [OF IH(1), of now t f] IH(2) by simp
    then have "cell t k f (fold (k_exec K t) cs ?r) = sum_opt (all_incs k f (ts @ [e]))"
      using cell_run snoc.prems(1,4,5) e by auto
    then show ?case using cell_stays [OF s, of t now f] \<open>t < now + 1\<close> s e by simp
  qed (simp add: sum_opt_def)
  then show ?thesis by blast
qed

end

section \<open>A concrete server\<close>

text \<open>Values with a deadline; a value past it is not there.\<close>

type_synonym 'v timed = "(string, 'v \<times> instant option) fmap"

definition timely :: "instant \<Rightarrow> instant option \<Rightarrow> bool" where
  "timely t d = (case d of None \<Rightarrow> True | Some d \<Rightarrow> t < d)"

definition look :: "instant \<Rightarrow> string \<Rightarrow> 'v timed \<Rightarrow> 'v option" where
  "look t k m = (case fmlookup m k of Some (v, d) \<Rightarrow> if timely t d then Some v else None | None \<Rightarrow> None)"

definition change :: "instant \<Rightarrow> string \<Rightarrow> ('v option \<Rightarrow> 'v) \<Rightarrow> 'v timed \<Rightarrow> 'v timed" where
  "change t k f m = fmupd k (f (look t k m), case fmlookup m k of Some (v, d) \<Rightarrow> if timely t d then d else None | None \<Rightarrow> None) m"

definition prolong :: "instant \<Rightarrow> string \<Rightarrow> duration \<Rightarrow> 'v timed \<Rightarrow> 'v timed" where
  "prolong t k ttl m = (case look t k m of Some v \<Rightarrow> fmupd k (v, Some (t + ttl)) m | None \<Rightarrow> fmdrop k m)"

definition stays_in :: "string \<Rightarrow> instant \<Rightarrow> 'v timed \<Rightarrow> bool" where
  "stays_in k u m = (case fmlookup m k of Some (v, Some d) \<Rightarrow> u \<le> d | _ \<Rightarrow> True)"

lemma look_change: "look t k' (change t k f m) = (if k' = k then Some (f (look t k m)) else look t k' m)"
  by (auto simp: look_def change_def timely_def split: option.splits)

lemma look_prolong: "0 < ttl \<Longrightarrow> look t k' (prolong t k ttl m) = look t k' m"
  by (auto simp: look_def prolong_def timely_def split: option.splits)

lemma look_drop: "look t k' (fmdrop k m) = (if k' = k then None else look t k' m)"
  by (simp add: look_def)

lemma stays_change: "stays_in k' u m \<Longrightarrow> stays_in k' u (change t k f m)"
  by (auto simp: stays_in_def change_def split: option.splits)

lemma stays_prolong: "(if k = k' then u \<le> t + ttl else stays_in k' u m) \<Longrightarrow> stays_in k' u (prolong t k ttl m)"
  by (auto simp: stays_in_def prolong_def split: option.splits if_splits)

lemma look_stays: "stays_in k u m \<Longrightarrow> s < u \<Longrightarrow> t < u \<Longrightarrow> look t k m = look s k m"
  by (auto simp: stays_in_def look_def timely_def split: option.splits)

record counter_maps =
  cm_hash :: "(string, int) fmap timed"
  cm_zset :: "(string, int) fmap timed"
  cm_count :: "int timed"

definition table :: "(string, int) fmap option \<Rightarrow> (string, int) fmap" where
  "table v = or_else fmempty v"

fun maps_exec :: "instant \<Rightarrow> command \<Rightarrow> counter_maps \<Rightarrow> counter_maps" where
  "maps_exec t (HIncrBy k f d) m =
     (let old = or_else 0 (fmlookup (table (look t k (cm_hash m))) f) in
      if in64 (old + d) then m\<lparr>cm_hash := change t k (\<lambda>v. fmupd f (old + d) (table v)) (cm_hash m)\<rparr> else m)"
| "maps_exec t (HSet k f n) m = m\<lparr>cm_hash := change t k (\<lambda>v. fmupd f n (table v)) (cm_hash m)\<rparr>"
| "maps_exec t (HSetNX k f n) m = (if fmlookup (table (look t k (cm_hash m))) f = None
     then m\<lparr>cm_hash := change t k (\<lambda>v. fmupd f n (table v)) (cm_hash m)\<rparr> else m)"
| "maps_exec t (Expire k ttl) m = (if ttl \<le> 0 then m\<lparr>cm_hash := fmdrop k (cm_hash m), cm_zset := fmdrop k (cm_zset m), cm_count := fmdrop k (cm_count m)\<rparr>
     else m\<lparr>cm_hash := prolong t k ttl (cm_hash m), cm_zset := prolong t k ttl (cm_zset m), cm_count := prolong t k ttl (cm_count m)\<rparr>)"
| "maps_exec t (ZAdd k score i) m = m\<lparr>cm_zset := change t k (\<lambda>v. fmupd i score (table v)) (cm_zset m)\<rparr>"
| "maps_exec t (ZRemBelow k x) m = m\<lparr>cm_zset := change t k (\<lambda>v. fmfilter (\<lambda>i. x \<le> or_else x (fmlookup (table v) i)) (table v)) (cm_zset m)\<rparr>"
| "maps_exec t (Incr k) m = m\<lparr>cm_count := change t k (\<lambda>v. or_else 0 v + 1) (cm_count m)\<rparr>"
| "maps_exec t (DelKey k) m = m\<lparr>cm_hash := fmdrop k (cm_hash m), cm_zset := fmdrop k (cm_zset m), cm_count := fmdrop k (cm_count m)\<rparr>"

definition maps_server :: "counter_maps counters" where
  "maps_server = \<lparr>k_exec = maps_exec, k_hgetall = (\<lambda>t k m. fmmap itoa (table (look t k (cm_hash m)))),
     k_zcount = (\<lambda>t k lo hi m. int (card {p \<in> fset (fset_of_fmap (table (look t k (cm_zset m)))). lo < snd p \<and> snd p \<le> hi})),
     k_get = (\<lambda>t k m. look t k (cm_count m))\<rparr>"

definition maps_cell :: "instant \<Rightarrow> string \<Rightarrow> string \<Rightarrow> counter_maps \<Rightarrow> int option" where
  "maps_cell t k f m = fmlookup (table (look t k (cm_hash m))) f"

definition maps_members :: "instant \<Rightarrow> string \<Rightarrow> counter_maps \<Rightarrow> (string \<times> int) set" where
  "maps_members t k m = {(i, score). fmlookup (table (look t k (cm_zset m))) i = Some score}"

definition maps_stays :: "string \<Rightarrow> instant \<Rightarrow> counter_maps \<Rightarrow> bool" where
  "maps_stays k u m \<longleftrightarrow> stays_in k u (cm_hash m) \<and> stays_in k u (cm_zset m) \<and> stays_in k u (cm_count m)"

definition no_counters :: counter_maps where
  "no_counters = \<lparr>cm_hash = fmempty, cm_zset = fmempty, cm_count = fmempty\<rparr>"

lemma stays_drop: "k' = k \<or> stays_in k' u m \<Longrightarrow> stays_in k' u (fmdrop k m)"
  by (auto simp: stays_in_def split: option.splits)

interpretation maps: counter_redis maps_server maps_cell maps_members maps_stays
proof
  fix c k f now and m :: counter_maps
  assume "\<And>d. c = HIncrBy k f d \<Longrightarrow> in64 (or_else 0 (maps_cell now k f m) + d)"
  then show "maps_cell now k f (k_exec maps_server now c m) = cell_after c k f (maps_cell now k f m)"
    by (cases c) (auto simp: maps_server_def maps_cell_def look_change look_prolong look_drop table_def Let_def)
next
  fix c k now and m :: counter_maps
  show "maps_members now k (k_exec maps_server now c m) = members_after c k (maps_members now k m)"
    by (cases c) (auto simp: maps_server_def maps_members_def look_change look_prolong look_drop table_def Let_def split: if_splits)
next
  fix c k now and m :: counter_maps
  show "k_get maps_server now k (k_exec maps_server now c m) = count_after c k (k_get maps_server now k m)"
    by (cases c) (auto simp: maps_server_def look_change look_prolong look_drop Let_def)
next
  fix now c k u and m :: counter_maps
  assume "stays_after now c k u (maps_stays k u m)"
  then show "maps_stays k u (k_exec maps_server now c m)"
    by (cases c) (auto simp: maps_server_def maps_stays_def stays_change stays_prolong stays_drop Let_def split: if_splits)
next
  fix now k f and m :: counter_maps
  show "fmlookup (k_hgetall maps_server now k m) f = map_option itoa (maps_cell now k f m)"
    by (simp add: maps_server_def maps_cell_def)
next
  fix now k lo hi and m :: counter_maps
  have "fset (fset_of_fmap (table (look now k (cm_zset m)))) = maps_members now k m"
    by (auto simp: maps_members_def)
  then show "k_zcount maps_server now k lo hi m = int (card {p \<in> maps_members now k m. lo < snd p \<and> snd p \<le> hi})"
    by (simp add: maps_server_def)
next
  fix k u s t f and m :: counter_maps
  assume a: "maps_stays k u m" "s < u" "t < u"
  then have l: "look t k (cm_hash m) = look s k (cm_hash m)" "look t k (cm_zset m) = look s k (cm_zset m)" "look t k (cm_count m) = look s k (cm_count m)"
    by (simp_all only: maps_stays_def look_stays [of k u _ s t])
  show "maps_cell t k f m = maps_cell s k f m" by (simp add: maps_cell_def l(1))
  show "maps_members t k m = maps_members s k m" by (simp add: maps_members_def l(2))
  show "k_get maps_server t k m = k_get maps_server s k m" by (simp add: maps_server_def l(3))
qed

end
