(* ===== verification/Codebuff_Telemetry.thy ===== *)
theory Codebuff_Telemetry
  imports Counter_Redis Codebuff_Models Quota_Store
begin

text \<open>
  \<open>internal/codebuff/telemetry.go\<close>: what is counted of the requests and sessions of every account and
  model, in hashes over the lifetime and per minute, and the metrics that are read from them.
\<close>

section \<open>Keys\<close>

record telemetry_store =
  tl_prefix :: string

definition NewTelemetryStore :: "string \<Rightarrow> telemetry_store" where
  "NewTelemetryStore pre = \<lparr>tl_prefix = (if pre = '''' then ''codebuff'' else pre)\<rparr>"

definition accountKey :: "telemetry_store \<Rightarrow> int \<Rightarrow> string \<Rightarrow> string" where
  "accountKey ts accountID model = tl_prefix ts @ '':telemetry:'' @ itoa accountID @ '':'' @ model"

definition timestampKey :: "telemetry_store \<Rightarrow> int \<Rightarrow> string" where
  "timestampKey ts accountID = tl_prefix ts @ '':telemetry:times:'' @ itoa accountID"

definition dailyKey :: "telemetry_store \<Rightarrow> int \<Rightarrow> string \<Rightarrow> string" where
  "dailyKey ts accountID day = tl_prefix ts @ '':telemetry:daily:'' @ itoa accountID @ '':'' @ day"

text \<open>Go's remainder has the sign of the dividend.\<close>

definition go_rem :: "int \<Rightarrow> int \<Rightarrow> int" where
  "go_rem a b = sgn a * (\<bar>a\<bar> mod \<bar>b\<bar>)"

definition minute_of :: "int \<Rightarrow> int" where
  "minute_of sec = sec - go_rem sec 60"

definition bucketKey :: "telemetry_store \<Rightarrow> int \<Rightarrow> string \<Rightarrow> int \<Rightarrow> string" where
  "bucketKey ts accountID model sec =
     tl_prefix ts @ '':telemetry:bucket:'' @ itoa accountID @ '':'' @ model @ '':'' @ itoa (minute_of sec)"

definition unix :: "instant \<Rightarrow> int" where
  "unix now = (now - unix_epoch) div second"

text \<open>The date of an instant, in the proleptic Gregorian calendar, for years of four digits.\<close>

definition padded :: "nat \<Rightarrow> int \<Rightarrow> string" where
  "padded n i = replicate (n - length (itoa i)) CHR ''0'' @ itoa i"

definition nowDateUTC :: "int \<Rightarrow> string" where
  "nowDateUTC sec =
    (let z = sec div 86400 + 719468; era = z div 146097; doe = z mod 146097;
         yoe = (doe - doe div 1460 + doe div 36524 - doe div 146096) div 365;
         doy = doe - (365 * yoe + yoe div 4 - yoe div 100); mp = (5 * doy + 2) div 153;
         d = doy - (153 * mp + 2) div 5 + 1; m = (if mp < 10 then mp + 3 else mp - 9);
         y = yoe + era * 400 + (if m \<le> 2 then 1 else 0)
     in padded 4 y @ ''-'' @ padded 2 m @ ''-'' @ padded 2 d)"

section \<open>Recording\<close>

text \<open>One request: its account and model, how it ended, and what it took.\<close>

record request =
  rq_account :: int
  rq_model :: string
  rq_is429 :: bool
  rq_isError :: bool
  rq_tokens :: int
  rq_latency :: int

definition request_commands :: "telemetry_store \<Rightarrow> int \<Rightarrow> request \<Rightarrow> command list" where
  "request_commands ts now q =
    (let bucket = bucketKey ts (rq_account q) (rq_model q) now; key = accountKey ts (rq_account q) (rq_model q);
         times = timestampKey ts (rq_account q); daily = dailyKey ts (rq_account q) (nowDateUTC now);
         counts = (\<lambda>k. (if rq_is429 q then [HIncrBy k ''errors_429'' 1] else [])
            @ (if rq_isError q then [HIncrBy k ''errors_total'' 1] else [])
            @ (if 0 < rq_tokens q then [HIncrBy k ''tokens'' (rq_tokens q)] else [])
            @ (if 0 < rq_latency q then [HIncrBy k ''latency_ms'' (rq_latency q), HIncrBy k ''wall_ms'' (rq_latency q)] else []))
     in [HIncrBy bucket ''requests'' 1] @ counts bucket @ [Expire bucket (24 * hour),
         HIncrBy key ''requests'' 1, HIncrBy key ''last_unix'' now] @ counts key
        @ [HSetNX key ''first_unix'' now, Expire key (24 * hour),
           ZAdd times now (itoa now @ ''-'' @ itoa (rq_account q)), ZRemBelow times (now - 120), Expire times (2 * hour),
           Incr daily, Expire daily (48 * hour)])"

text \<open>The store is nil or there; \<open>up\<close> says whether the transaction reaches the server.\<close>

definition RecordRequest :: "telemetry_store option \<Rightarrow> 'r counters \<Rightarrow> bool \<Rightarrow> instant \<Rightarrow> request \<Rightarrow> 'r \<Rightarrow> 'r" where
  "RecordRequest ts K up now q r = (case ts of
     None \<Rightarrow> r
   | Some ts \<Rightarrow> if rq_account q = 0 \<or> rq_model q = '''' then r else transaction K up now (request_commands ts (unix now) q) r)"

definition sessionField :: "(string, string) gomap" where
  "sessionField = [(''create'', ''session_creates''), (''reuse'', ''session_reuses''), (''evict'', ''session_evictions''),
     (''waiting_room'', ''waiting_room''), (''model_locked'', ''model_locked''), (''mismatch'', ''session_mismatch'')]"

definition RecordSessionEvent :: "telemetry_store option \<Rightarrow> 'r counters \<Rightarrow> bool \<Rightarrow> instant \<Rightarrow> int \<Rightarrow> string \<Rightarrow> string \<Rightarrow> 'r \<Rightarrow> 'r" where
  "RecordSessionEvent ts K up now accountID model outcome r = (case ts of
     None \<Rightarrow> r
   | Some ts \<Rightarrow> if accountID = 0 \<or> model = '''' then r
       else (case gm_get sessionField outcome of
          None \<Rightarrow> r
        | Some f \<Rightarrow> let key = accountKey ts accountID model; bucket = bucketKey ts accountID model (unix now) in
            transaction K up now [HIncrBy key f 1, HSet key ''session_last_event'' (unix now),
              HIncrBy bucket f 1, HSet bucket ''session_last_event'' (unix now), Expire bucket (24 * hour)] r))"

section \<open>Metrics\<close>

record session_metrics =
  sm_Creates :: int
  sm_Reuses :: int
  sm_Evictions :: int
  sm_WaitingRoom :: int
  sm_ModelLocked :: int
  sm_Mismatch :: int
  sm_LastEvent :: int

record model_metrics =
  mm_Requests :: int
  mm_Errors429 :: int
  mm_ErrorsTotal :: int
  mm_Tokens :: int
  mm_LatencyMs :: int
  mm_WallMs :: int
  mm_AvgLatencyMs :: int
  mm_TokensPerS :: rat
  mm_LastUsed :: int
  mm_FirstUsed :: int
  mm_Sessions :: session_metrics

record account_metrics =
  am_AccountID :: int
  am_Name :: string
  am_Total :: model_metrics
  am_Models :: "(string, model_metrics) gomap"
  am_RPM :: rat

definition no_sessions :: session_metrics where
  "no_sessions = \<lparr>sm_Creates = 0, sm_Reuses = 0, sm_Evictions = 0, sm_WaitingRoom = 0, sm_ModelLocked = 0, sm_Mismatch = 0, sm_LastEvent = 0\<rparr>"

definition no_metrics :: model_metrics where
  "no_metrics = \<lparr>mm_Requests = 0, mm_Errors429 = 0, mm_ErrorsTotal = 0, mm_Tokens = 0, mm_LatencyMs = 0, mm_WallMs = 0,
     mm_AvgLatencyMs = 0, mm_TokensPerS = 0, mm_LastUsed = 0, mm_FirstUsed = 0, mm_Sessions = no_sessions\<rparr>"

fun parse_digits :: "int \<Rightarrow> string \<Rightarrow> int" where
  "parse_digits n [] = n"
| "parse_digits n (c # s) =
    (if (of_char c :: nat) < 48 \<or> 57 < (of_char c :: nat) then 0 else parse_digits (wrap64 (n * 10 + int (digit_value c))) s)"

definition telemetry_parseInt :: "string \<Rightarrow> int" where
  "telemetry_parseInt s = parse_digits 0 s"

definition num_of :: "(string, string) fmap \<Rightarrow> string \<Rightarrow> int" where
  "num_of raw f = telemetry_parseInt (or_else '''' (fmlookup raw f))"

definition add64 :: "int \<Rightarrow> int \<Rightarrow> int" where
  "add64 a b = wrap64 (a + b)"

text \<open>The quotient of two 64-bit integers, truncated; only the least one by \<open>-1\<close> would wrap.\<close>

definition avgLat :: "int \<Rightarrow> int \<Rightarrow> int" where
  "avgLat reqs latencyMs = (if reqs = 0 then 0 else wrap64 (sgn latencyMs * sgn reqs * (\<bar>latencyMs\<bar> div \<bar>reqs\<bar>)))"

definition tokensPerSecond :: "int \<Rightarrow> int \<Rightarrow> rat" where
  "tokensPerSecond tokens latencyMs =
     (if latencyMs = 0 then 0 else f_div (fl (of_int tokens)) (f_div (fl (of_int latencyMs)) 1000))"

definition session_of :: "(string, string) fmap \<Rightarrow> session_metrics" where
  "session_of raw = \<lparr>sm_Creates = num_of raw ''session_creates'', sm_Reuses = num_of raw ''session_reuses'',
     sm_Evictions = num_of raw ''session_evictions'', sm_WaitingRoom = num_of raw ''waiting_room'',
     sm_ModelLocked = num_of raw ''model_locked'', sm_Mismatch = num_of raw ''session_mismatch'',
     sm_LastEvent = num_of raw ''session_last_event''\<rparr>"

definition parseModelMetrics :: "(string, string) fmap \<Rightarrow> model_metrics" where
  "parseModelMetrics raw = \<lparr>mm_Requests = num_of raw ''requests'', mm_Errors429 = num_of raw ''errors_429'',
     mm_ErrorsTotal = num_of raw ''errors_total'', mm_Tokens = num_of raw ''tokens'', mm_LatencyMs = num_of raw ''latency_ms'',
     mm_WallMs = num_of raw ''wall_ms'', mm_AvgLatencyMs = avgLat (num_of raw ''requests'') (num_of raw ''latency_ms''),
     mm_TokensPerS = tokensPerSecond (num_of raw ''tokens'') (num_of raw ''wall_ms''), mm_LastUsed = num_of raw ''last_unix'',
     mm_FirstUsed = num_of raw ''first_unix'', mm_Sessions = session_of raw\<rparr>"

text \<open>The counters of sessions, and the metrics, of two readings; the derived numbers stay.\<close>

definition add_sessions :: "session_metrics \<Rightarrow> session_metrics \<Rightarrow> session_metrics" where
  "add_sessions a b = \<lparr>sm_Creates = add64 (sm_Creates a) (sm_Creates b), sm_Reuses = add64 (sm_Reuses a) (sm_Reuses b),
     sm_Evictions = add64 (sm_Evictions a) (sm_Evictions b), sm_WaitingRoom = add64 (sm_WaitingRoom a) (sm_WaitingRoom b),
     sm_ModelLocked = add64 (sm_ModelLocked a) (sm_ModelLocked b), sm_Mismatch = add64 (sm_Mismatch a) (sm_Mismatch b),
     sm_LastEvent = max (sm_LastEvent a) (sm_LastEvent b)\<rparr>"

definition add_metrics :: "model_metrics \<Rightarrow> model_metrics \<Rightarrow> model_metrics" where
  "add_metrics a b = a\<lparr>mm_Requests := add64 (mm_Requests a) (mm_Requests b), mm_Errors429 := add64 (mm_Errors429 a) (mm_Errors429 b),
     mm_ErrorsTotal := add64 (mm_ErrorsTotal a) (mm_ErrorsTotal b), mm_Tokens := add64 (mm_Tokens a) (mm_Tokens b),
     mm_LatencyMs := add64 (mm_LatencyMs a) (mm_LatencyMs b), mm_WallMs := add64 (mm_WallMs a) (mm_WallMs b),
     mm_LastUsed := max (mm_LastUsed a) (mm_LastUsed b), mm_Sessions := add_sessions (mm_Sessions a) (mm_Sessions b)\<rparr>"

definition with_rates :: "model_metrics \<Rightarrow> model_metrics" where
  "with_rates m = m\<lparr>mm_AvgLatencyMs := avgLat (mm_Requests m) (mm_LatencyMs m), mm_TokensPerS := tokensPerSecond (mm_Tokens m) (mm_LatencyMs m)\<rparr>"

text \<open>The minutes of the window, by their first second.\<close>

definition window_minutes :: "int \<Rightarrow> int \<Rightarrow> int list" where
  "window_minutes now secs = map (\<lambda>i. minute_of (now - secs) + 60 * i) [0 .. (minute_of now - minute_of (now - secs)) div 60]"

definition sumBucketsForRange :: "telemetry_store \<Rightarrow> 'r counters \<Rightarrow> bool \<Rightarrow> instant \<Rightarrow> int \<Rightarrow> string \<Rightarrow> int \<Rightarrow> 'r \<Rightarrow> model_metrics option" where
  "sumBucketsForRange ts K up now accountID model rangeSeconds r =
    (if rangeSeconds \<le> 0 then Some no_metrics
     else if \<not> up then None
     else Some (with_rates (fold (\<lambda>m sum. let v = k_hgetall K now (bucketKey ts accountID model m) r in
         if v = fmempty then sum
         else add_metrics sum (parseModelMetrics v)) (window_minutes (unix now) rangeSeconds) no_metrics)))"

text \<open>The rate per minute, if the count can be read; stale timestamps are removed.\<close>

definition RollingRPM :: "telemetry_store option \<Rightarrow> 'r counters \<Rightarrow> bool \<Rightarrow> instant \<Rightarrow> int \<Rightarrow> int \<Rightarrow> 'r \<Rightarrow> rat option \<times> 'r" where
  "RollingRPM ts K up now accountID windowSeconds r = (case ts of
     None \<Rightarrow> (Some 0, r)
   | Some ts \<Rightarrow> if accountID = 0 then (Some 0, r)
       else if \<not> up then (None, r)
       else let key = timestampKey ts accountID; n = unix now; r = k_exec K now (ZRemBelow key (n - 120)) r;
                count = k_zcount K now key (n - windowSeconds) n r
         in (Some (if windowSeconds \<le> 0 then 0 else f_div (fl (of_int count)) (f_div (fl (of_int windowSeconds)) 60)), r))"

definition DailyRequests :: "telemetry_store option \<Rightarrow> 'r counters \<Rightarrow> bool \<Rightarrow> instant \<Rightarrow> int \<Rightarrow> 'r \<Rightarrow> int option" where
  "DailyRequests ts K up now accountID r = (case ts of
     None \<Rightarrow> Some 0
   | Some ts \<Rightarrow> if accountID = 0 then Some 0 else if \<not> up then None
       else Some (or_else 0 (k_get K now (dailyKey ts accountID (nowDateUTC (unix now))) r)))"

text \<open>The metrics of one model, if any are there.\<close>

definition model_reading :: "telemetry_store \<Rightarrow> 'r counters \<Rightarrow> bool \<Rightarrow> instant \<Rightarrow> int \<Rightarrow> int \<Rightarrow> string \<Rightarrow> 'r \<Rightarrow> model_metrics option" where
  "model_reading ts K up now rangeSeconds accountID m r =
    (if 0 < rangeSeconds then (case sumBucketsForRange ts K up now accountID m rangeSeconds r of
        None \<Rightarrow> None
      | Some mm \<Rightarrow> if mm_Requests mm = 0 \<and> mm_Errors429 mm = 0 \<and> mm_Tokens mm = 0 then None else Some mm)
     else let raw = k_hgetall K now (accountKey ts accountID m) r in
       if \<not> up \<or> raw = fmempty then None else Some (parseModelMetrics raw))"

definition total_with :: "model_metrics \<Rightarrow> model_metrics \<Rightarrow> model_metrics" where
  "total_with tot mm = (add_metrics tot mm)\<lparr>mm_FirstUsed :=
     if mm_FirstUsed tot = 0 \<or> (0 < mm_FirstUsed mm \<and> mm_FirstUsed mm < mm_FirstUsed tot) then mm_FirstUsed mm else mm_FirstUsed tot\<rparr>"

definition account_reading :: "telemetry_store \<Rightarrow> 'r counters \<Rightarrow> (string \<Rightarrow> bool) \<Rightarrow> instant \<Rightarrow> int \<Rightarrow> int \<times> string \<Rightarrow> 'r
    \<Rightarrow> account_metrics \<times> 'r" where
  "account_reading ts K up now rangeSeconds acc r =
    (let readings = concat (map (\<lambda>m. case model_reading ts K (up (accountKey ts (fst acc) m)) now rangeSeconds (fst acc) m r of
             None \<Rightarrow> [] | Some mm \<Rightarrow> [(m, mm)]) allModelIDs)
     in case RollingRPM (Some ts) K (up (timestampKey ts (fst acc))) now (fst acc) 60 r of (rpm, r) \<Rightarrow>
       (\<lparr>am_AccountID = fst acc, am_Name = snd acc, am_Total = with_rates (fold (\<lambda>(m, mm) tot. total_with tot mm) readings no_metrics),
          am_Models = fold (\<lambda>(m, mm). gm_put m mm) readings [], am_RPM = or_else 0 rpm\<rparr>, r))"

fun account_readings :: "telemetry_store \<Rightarrow> 'r counters \<Rightarrow> (string \<Rightarrow> bool) \<Rightarrow> instant \<Rightarrow> int \<Rightarrow> (int \<times> string) list \<Rightarrow> 'r
    \<Rightarrow> account_metrics list \<times> 'r" where
  "account_readings ts K up now rangeSeconds [] r = ([], r)"
| "account_readings ts K up now rangeSeconds (acc # accs) r = (case account_reading ts K up now rangeSeconds acc r of
     (am, r) \<Rightarrow> case account_readings ts K up now rangeSeconds accs r of (ams, r) \<Rightarrow> (am # ams, r))"

definition GetAccountsMetricsInRange :: "telemetry_store option \<Rightarrow> 'r counters \<Rightarrow> (string \<Rightarrow> bool) \<Rightarrow> instant \<Rightarrow> int \<Rightarrow> (int \<times> string) list
    \<Rightarrow> 'r \<Rightarrow> account_metrics list \<times> 'r" where
  "GetAccountsMetricsInRange ts K up now rangeSeconds accs r = (case ts of
     None \<Rightarrow> ([], r) | Some ts \<Rightarrow> account_readings ts K up now rangeSeconds accs r)"

section \<open>Reading back numbers\<close>

definition digit_char :: "char \<Rightarrow> bool" where
  "digit_char c \<longleftrightarrow> 48 \<le> (of_char c :: nat) \<and> (of_char c :: nat) \<le> 57"

lemma parse_digits_append: "list_all digit_char s \<Longrightarrow> parse_digits n (s @ t) = parse_digits (parse_digits n s) t"
  by (induction s arbitrary: n) (auto simp: digit_char_def not_less)

lemma nat_digits_digits: "list_all digit_char (nat_digits n)"
  using nat_digits_range by (auto simp: list_all_iff digit_char_def)

lemma parse_nat_digits: "int n < 2 ^ 63 \<Longrightarrow> parse_digits 0 (nat_digits n) = int n"
proof (induction n rule: nat_digits.induct)
  case (1 n)
  have one: "parse_digits m [char_of (48 + d)] = m * 10 + int d" if "d < 10" "0 \<le> m" "m * 10 + int d < 2 ^ 63" for m d
    using that by (simp add: digit_value_def wrap64_id in64_def)
  show ?case
  proof (cases "n < 10")
    case True
    then show ?thesis using one [of n 0] by (simp add: nat_digits.simps [of n])
  next
    case False
    then have "parse_digits 0 (nat_digits (n div 10)) = int (n div 10)" using 1 by simp
    moreover have "int (n div 10) * 10 + int (n mod 10) = int n" by presburger
    ultimately show ?thesis using False one [of "n mod 10" "int (n div 10)"] 1(2)
      by (simp add: nat_digits.simps [of n] parse_digits_append nat_digits_digits del: parse_digits.simps)
  qed
qed

lemma metric_itoa: "0 \<le> n \<Longrightarrow> n < 2 ^ 63 \<Longrightarrow> telemetry_parseInt (itoa n) = n"
  using parse_nat_digits [of "nat n"] by (simp add: telemetry_parseInt_def itoa_def)

section \<open>Keys are told apart\<close>

lemma itoa_head: "\<exists>c s. itoa i = c # s \<and> (c = CHR ''-'' \<or> digit_char c)"
proof -
  have "itoa i \<noteq> []" by (simp add: itoa_def nat_digits_nonempty)
  then obtain c s where "itoa i = c # s" by (cases "itoa i") auto
  with itoa_chars [of c i] show ?thesis by (auto simp: digit_char_def)
qed

lemma account_not_word: "c # s = itoa i @ t \<Longrightarrow> c = CHR ''-'' \<or> digit_char c"
  using itoa_head [of i] by auto

lemma last_colon:
  assumes "CHR '':'' \<notin> set b" and "CHR '':'' \<notin> set b'"
  shows "a @ CHR '':'' # b = a' @ CHR '':'' # b' \<longleftrightarrow> a = a' \<and> b = b'"
proof -
  have "a @ CHR '':'' # b = a' @ CHR '':'' # b' \<longleftrightarrow> rev b @ CHR '':'' # rev a = rev b' @ CHR '':'' # rev a'"
    using rev_is_rev_conv [of "a @ CHR '':'' # b" "a' @ CHR '':'' # b'"] by simp
  also have "\<dots> \<longleftrightarrow> a = a' \<and> b = b'" using split_at_first [of "CHR '':''" "rev b" "rev b'" "rev a" "rev a'"] assms by auto
  finally show ?thesis .
qed

lemma bucketKey_inject [simp]:
  "bucketKey ts a m s = bucketKey ts a' m' s' \<longleftrightarrow> a = a' \<and> m = m' \<and> minute_of s = minute_of s'"
proof -
  have "bucketKey ts a m s = bucketKey ts a' m' s' \<longleftrightarrow> itoa a @ CHR '':'' # m @ CHR '':'' # itoa (minute_of s) = itoa a' @ CHR '':'' # m' @ CHR '':'' # itoa (minute_of s')"
    by (simp add: bucketKey_def)
  also have "\<dots> \<longleftrightarrow> a = a' \<and> m @ CHR '':'' # itoa (minute_of s) = m' @ CHR '':'' # itoa (minute_of s')"
    by (rule colon_split)
  also have "\<dots> \<longleftrightarrow> a = a' \<and> m = m' \<and> minute_of s = minute_of s'" using last_colon [OF colon_not_itoa colon_not_itoa] by simp
  finally show ?thesis .
qed

lemma accountKey_inject [simp]: "accountKey ts a m = accountKey ts a' m' \<longleftrightarrow> a = a' \<and> m = m'"
  by (simp add: accountKey_def colon_split)

lemma timestampKey_inject [simp]: "timestampKey ts a = timestampKey ts a' \<longleftrightarrow> a = a'"
  by (simp add: timestampKey_def)

lemma keys_differ [simp]:
  "bucketKey ts a m s \<noteq> accountKey ts a' m'" "accountKey ts a' m' \<noteq> bucketKey ts a m s"
  "bucketKey ts a m s \<noteq> timestampKey ts a'" "timestampKey ts a' \<noteq> bucketKey ts a m s"
  "bucketKey ts a m s \<noteq> dailyKey ts a' d" "dailyKey ts a' d \<noteq> bucketKey ts a m s"
  "accountKey ts a m \<noteq> timestampKey ts a'" "timestampKey ts a' \<noteq> accountKey ts a m"
  "accountKey ts a m \<noteq> dailyKey ts a' d" "dailyKey ts a' d \<noteq> accountKey ts a m"
  "timestampKey ts a \<noteq> dailyKey ts a' d" "dailyKey ts a' d \<noteq> timestampKey ts a"
proof -
  have w: "\<not> digit_char CHR ''b''" "\<not> digit_char CHR ''t''" "\<not> digit_char CHR ''d''" by (simp_all add: digit_char_def)
  show "bucketKey ts a m s \<noteq> accountKey ts a' m'" "accountKey ts a' m' \<noteq> bucketKey ts a m s"
    "accountKey ts a m \<noteq> timestampKey ts a'" "timestampKey ts a' \<noteq> accountKey ts a m"
    "accountKey ts a m \<noteq> dailyKey ts a' d" "dailyKey ts a' d \<noteq> accountKey ts a m"
    using itoa_head [of a] itoa_head [of a'] w by (auto simp: bucketKey_def accountKey_def timestampKey_def dailyKey_def)
qed (simp_all add: bucketKey_def timestampKey_def dailyKey_def)

section \<open>Requests as transactions\<close>

definition recorded :: "request \<Rightarrow> bool" where
  "recorded q \<longleftrightarrow> rq_account q \<noteq> 0 \<and> rq_model q \<noteq> ''''"

definition record_all :: "telemetry_store \<Rightarrow> 'r counters \<Rightarrow> (instant \<times> request) list \<Rightarrow> 'r \<Rightarrow> 'r" where
  "record_all ts K qs = fold (\<lambda>(t, q). RecordRequest (Some ts) K True t q) qs"

definition transactions :: "telemetry_store \<Rightarrow> (instant \<times> request) list \<Rightarrow> (instant \<times> command list) list" where
  "transactions ts qs = map (\<lambda>(t, q). (t, request_commands ts (unix t) q)) (filter (recorded \<circ> snd) qs)"

lemma record_all_run: "record_all ts K qs r = run_all K (transactions ts qs) r"
  by (induction qs arbitrary: r)
    (auto simp: record_all_def transactions_def RecordRequest_def recorded_def transaction_def)

text \<open>What one request adds to a field of the two hashes.\<close>

definition request_incs :: "string \<Rightarrow> request \<Rightarrow> int list" where
  "request_incs f q = (if f = ''requests'' then [1]
     else if f = ''errors_429'' then (if rq_is429 q then [1] else [])
     else if f = ''errors_total'' then (if rq_isError q then [1] else [])
     else if f = ''tokens'' then (if 0 < rq_tokens q then [rq_tokens q] else [])
     else if f = ''latency_ms'' \<or> f = ''wall_ms'' then (if 0 < rq_latency q then [rq_latency q] else [])
     else [])"

definition added :: "string \<Rightarrow> request \<Rightarrow> int" where
  "added f q = sum_list (request_incs f q)"

lemma incs_bucket: "incs (bucketKey ts a m s) f (request_commands ts n q)
    = (if rq_account q = a \<and> rq_model q = m \<and> minute_of n = minute_of s then request_incs f q else [])"
  by (auto simp: request_commands_def request_incs_def Let_def)

lemma incs_account: "incs (accountKey ts a m) f (request_commands ts n q)
    = (if rq_account q = a \<and> rq_model q = m then (if f = ''last_unix'' then [n] else request_incs f q) else [])"
  by (auto simp: request_commands_def request_incs_def Let_def)

lemma counts_only:
  "\<forall>c \<in> set (request_commands ts n q). only_counts (bucketKey ts a m s) f c"
  "f \<noteq> ''first_unix'' \<Longrightarrow> \<forall>c \<in> set (request_commands ts n q). only_counts (accountKey ts a m) f c"
  by (auto simp: request_commands_def Let_def hour_def minute_def second_def)

lemma expiries:
  "Expire (bucketKey ts a m s) ttl \<in> set (request_commands ts n q) \<Longrightarrow> ttl = 24 * hour \<and> rq_account q = a \<and> rq_model q = m \<and> minute_of n = minute_of s"
  "Expire (accountKey ts a m) ttl \<in> set (request_commands ts n q) \<Longrightarrow> ttl = 24 * hour \<and> rq_account q = a \<and> rq_model q = m"
  "Expire (timestampKey ts a) ttl \<in> set (request_commands ts n q) \<Longrightarrow> ttl = 2 * hour \<and> rq_account q = a"
  by (auto simp: request_commands_def Let_def split: if_splits)

lemma all_incs_bucket: "all_incs (bucketKey ts a m s) f (transactions ts qs) = concat (map (\<lambda>(t, q). request_incs f q)
    (filter (\<lambda>(t, q). recorded q \<and> rq_account q = a \<and> rq_model q = m \<and> minute_of (unix t) = minute_of s) qs))"
  by (induction qs) (auto simp: transactions_def incs_bucket split: if_splits)

lemma all_incs_account: "all_incs (accountKey ts a m) f (transactions ts qs) = concat (map (\<lambda>(t, q). if f = ''last_unix'' then [unix t] else request_incs f q)
    (filter (\<lambda>(t, q). recorded q \<and> rq_account q = a \<and> rq_model q = m) qs))"
  by (induction qs) (auto simp: transactions_def incs_account split: if_splits)

lemma incs_pos: "d \<in> set (request_incs f q) \<Longrightarrow> 0 \<le> d"
  by (auto simp: request_incs_def split: if_splits)

lemma added_pos: "0 \<le> added f q"
  unfolding added_def by (rule sum_list_nonneg) (rule incs_pos)

lemma sum_concat_added: "sum_list (concat (map (\<lambda>(t, q). request_incs f q) qs)) = sum_list (map (added f \<circ> snd) qs)"
  by (induction qs) (auto simp: added_def)

lemma sum_filter_le: "(\<And>x. 0 \<le> g x) \<Longrightarrow> sum_list (map g (filter P xs)) \<le> (sum_list (map g xs) :: int)"
proof (induction xs)
  case (Cons x xs)
  from Cons.IH [OF Cons.prems] Cons.prems [of x] show ?case by (auto simp: add_increasing)
qed simp

context counter_redis begin

text \<open>A cell of a bucket holds what its minute's requests added.\<close>

lemma bucket_cell:
  assumes "\<forall>(t, q) \<in> set qs. t \<le> now" and "sum_list (map (added f \<circ> snd) qs) < 2 ^ 63"
    and "\<forall>(t, q) \<in> set qs. minute_of (unix t) = minute_of s \<longrightarrow> now < t + 24 * hour"
    and "\<And>k u. stays k u r" and "\<And>k f. cell now k f r = None"
  shows "cell now (bucketKey ts a m s) f (record_all ts K qs r) = sum_opt (all_incs (bucketKey ts a m s) f (transactions ts qs))"
  unfolding record_all_run
proof (rule cell_sum)
  show "\<forall>(t, cs) \<in> set (transactions ts qs). t \<le> now \<and> (\<forall>c \<in> set cs. only_counts (bucketKey ts a m s) f c)
      \<and> (\<forall>ttl. Expire (bucketKey ts a m s) ttl \<in> set cs \<longrightarrow> now < t + ttl)"
    using assms(1,3) counts_only(1) expiries(1) by (fastforce simp: transactions_def)
  show "\<forall>d \<in> set (all_incs (bucketKey ts a m s) f (transactions ts qs)). 0 \<le> d"
    using incs_pos by (auto simp: all_incs_bucket)
  have "sum_list (all_incs (bucketKey ts a m s) f (transactions ts qs)) \<le> sum_list (map (added f \<circ> snd) qs)"
    unfolding all_incs_bucket sum_concat_added by (rule sum_filter_le) (simp add: added_pos)
  then show "sum_list (all_incs (bucketKey ts a m s) f (transactions ts qs)) < 2 ^ 63" using assms(2) by simp
qed (rule assms(4,5))+

lemma bucket_num:
  assumes "cell now k f r = sum_opt ds" and "\<forall>d \<in> set ds. 0 \<le> d" and "sum_list ds < 2 ^ 63"
  shows "num_of (k_hgetall K now k r) f = sum_list ds"
proof (cases "ds = []")
  case True
  then show ?thesis using assms(1) by (simp add: num_of_def hgetall sum_opt_def telemetry_parseInt_def)
next
  case False
  then have "0 \<le> sum_list ds" using assms(2) by (intro sum_list_nonneg) auto
  then show ?thesis using False assms by (simp add: num_of_def hgetall sum_opt_def metric_itoa)
qed

end

section \<open>The window of minutes\<close>

lemma minute_of_nonneg: "0 \<le> s \<Longrightarrow> minute_of s = 60 * (s div 60)"
  by (cases "s = 0") (auto simp: minute_of_def go_rem_def sgn_if minus_mod_eq_mult_div [symmetric])

lemma window_facts:
  assumes "0 \<le> n - secs" and "0 \<le> secs"
  shows "distinct (window_minutes n secs)" and "\<forall>m \<in> set (window_minutes n secs). minute_of m = m"
    and "0 \<le> u \<Longrightarrow> u \<le> n \<Longrightarrow> minute_of u \<in> set (window_minutes n secs) \<longleftrightarrow> minute_of (n - secs) \<le> minute_of u"
proof -
  have n: "0 \<le> n" using assms by simp
  show "distinct (window_minutes n secs)" by (simp add: window_minutes_def distinct_map inj_on_def)
  show "\<forall>m \<in> set (window_minutes n secs). minute_of m = m"
    using assms(1) by (auto simp: window_minutes_def minute_of_nonneg [OF assms(1)] minute_of_nonneg)
  assume u: "0 \<le> u" "u \<le> n"
  have "minute_of n - minute_of (n - secs) = 60 * (n div 60 - (n - secs) div 60)"
    by (simp only: minute_of_nonneg [OF assms(1)] minute_of_nonneg [OF n] right_diff_distrib)
  then have k: "(minute_of n - minute_of (n - secs)) div 60 = n div 60 - (n - secs) div 60" by simp
  have "u div 60 \<le> n div 60" using u(2) by (rule zdiv_mono1) simp
  then show "minute_of u \<in> set (window_minutes n secs) \<longleftrightarrow> minute_of (n - secs) \<le> minute_of u"
    using u(1) unfolding window_minutes_def k unfolding minute_of_nonneg [OF assms(1)] minute_of_nonneg [OF u(1)]
    by (auto simp: image_iff intro!: bexI [of _ "u div 60 - (n - secs) div 60"])
qed

text \<open>A request of a minute in the window is less than a day old.\<close>

lemma window_fresh:
  assumes "t \<le> now" and "0 \<le> unix t" and "0 \<le> unix now - secs" and "secs \<le> 24 * 3600 - 60" and "minute_of (unix now - secs) \<le> minute_of (unix t)"
  shows "now < t + 24 * hour"
proof -
  have "unix now - secs - 60 < minute_of (unix now - secs)" "minute_of (unix t) \<le> unix t"
    using assms(2,3) by (simp_all add: minute_of_nonneg)
  then have "unix now < unix t + 24 * 3600" using assms(4,5) by simp
  then show ?thesis by (simp add: unix_def hour_def minute_def second_def)
qed

section \<open>Metrics of a window\<close>

lemma num_of_empty [simp]: "num_of fmempty f = 0"
  by (simp add: num_of_def telemetry_parseInt_def)

lemma fold_buckets:
  assumes "\<And>a b. F (add_metrics a b) = add64 (F a) (F b)" and "\<And>v. F (parseModelMetrics v) = num_of v f"
    and "\<forall>m \<in> set ms. 0 \<le> num_of (v m) f" and "0 \<le> F acc" and "F acc + (\<Sum>m \<leftarrow> ms. num_of (v m) f) < 2 ^ 63"
  shows "F (fold (\<lambda>m sum. let raw = v m in if raw = fmempty then sum else add_metrics sum (parseModelMetrics raw)) ms acc)
    = F acc + (\<Sum>m \<leftarrow> ms. num_of (v m) f)"
  using assms(3-5)
proof (induction ms arbitrary: acc)
  case (Cons m ms)
  have "0 \<le> (\<Sum>m \<leftarrow> ms. num_of (v m) f)" using Cons.prems(1) by (intro sum_list_nonneg) auto
  then have F: "F (add_metrics acc (parseModelMetrics (v m))) = F acc + num_of (v m) f"
    using Cons.prems by (simp add: assms(1,2) add64_def wrap64_id in64_def)
  show ?case
  proof (cases "v m = fmempty")
    case True
    then show ?thesis using Cons by simp
  next
    case False
    then show ?thesis using Cons.IH [of "add_metrics acc (parseModelMetrics (v m))"] Cons.prems F by (simp add: Let_def)
  qed
qed simp

lemma sum_by_key:
  "distinct ms \<Longrightarrow> (\<Sum>m \<leftarrow> ms. sum_list (map g (filter (\<lambda>x. P x \<and> key x = m) xs))) = (sum_list (map g (filter (\<lambda>x. P x \<and> key x \<in> set ms) xs)) :: int)"
proof (induction xs)
  case (Cons x xs)
  have "(\<Sum>m \<leftarrow> ms. if P x \<and> key x = m then g x else 0) = (if P x \<and> key x \<in> set ms then g x else 0)"
    using Cons.prems by (induction ms) auto
  moreover have "(\<Sum>m \<leftarrow> ms. sum_list (map g (filter (\<lambda>x. P x \<and> key x = m) (x # xs))))
      = (\<Sum>m \<leftarrow> ms. if P x \<and> key x = m then g x else 0) + (\<Sum>m \<leftarrow> ms. sum_list (map g (filter (\<lambda>x. P x \<and> key x = m) xs)))"
    by (simp add: sum_list_addf [symmetric] if_distrib cong: if_cong) (rule arg_cong [of _ _ sum_list], auto)
  ultimately show ?case using Cons by auto
qed simp

definition in_window :: "int \<Rightarrow> int \<Rightarrow> int \<Rightarrow> string \<Rightarrow> instant \<times> request \<Rightarrow> bool" where
  "in_window n secs a m = (\<lambda>(t, q). rq_account q = a \<and> rq_model q = m \<and> minute_of (n - secs) \<le> minute_of (unix t))"

context counter_redis begin

lemma window_sum:
  assumes "\<forall>(t, q) \<in> set qs. t \<le> now \<and> 0 \<le> unix t" and "sum_list (map (added f \<circ> snd) qs) < 2 ^ 63"
    and "0 \<le> unix now - secs" and "0 \<le> secs" and "secs \<le> 24 * 3600 - 60" and "a \<noteq> 0" and "m \<noteq> ''''"
    and "\<And>k u. stays k u r" and "\<And>k f. cell now k f r = None"
  shows "(\<Sum>s \<leftarrow> window_minutes (unix now) secs. num_of (k_hgetall K now (bucketKey ts a m s) (record_all ts K qs r)) f)
      = sum_list (map (added f \<circ> snd) (filter (in_window (unix now) secs a m) qs))"
    and "s \<in> set (window_minutes (unix now) secs) \<Longrightarrow> 0 \<le> num_of (k_hgetall K now (bucketKey ts a m s) (record_all ts K qs r)) f"
proof -
  let ?ms = "window_minutes (unix now) secs"
  note w = window_facts [OF assms(3,4)]
  have le: "unix t \<le> unix now" if "t \<le> now" for t using that by (simp add: unix_def zdiv_mono1 second_def)
  have one: "num_of (k_hgetall K now (bucketKey ts a m s) (record_all ts K qs r)) f
      = sum_list (map (added f \<circ> snd) (filter (\<lambda>x. (recorded (snd x) \<and> rq_account (snd x) = a \<and> rq_model (snd x) = m) \<and> minute_of (unix (fst x)) = s) qs))"
    if s: "s \<in> set ?ms" for s
  proof -
    have ms: "minute_of s = s" using w(2) s by blast
    have "now < t + 24 * hour" if tq: "(t, q) \<in> set qs" "minute_of (unix t) = minute_of s" for t q
    proof -
      have t: "t \<le> now" "0 \<le> unix t" using assms(1) tq(1) by auto
      have "minute_of (unix now - secs) \<le> minute_of (unix t)" using w(3) [of "unix t"] le [OF t(1)] t(2) tq(2) s ms by simp
      then show ?thesis using window_fresh [OF t assms(3,5)] by simp
    qed
    then have c: "cell now (bucketKey ts a m s) f (record_all ts K qs r) = sum_opt (all_incs (bucketKey ts a m s) f (transactions ts qs))"
      using assms(1) by (intro bucket_cell [OF _ assms(2) _ assms(8,9)]) auto
    have le_all: "sum_list (all_incs (bucketKey ts a m s) f (transactions ts qs)) \<le> sum_list (map (added f \<circ> snd) qs)"
      unfolding all_incs_bucket sum_concat_added by (rule sum_filter_le) (simp add: added_pos)
    have "num_of (k_hgetall K now (bucketKey ts a m s) (record_all ts K qs r)) f = sum_list (all_incs (bucketKey ts a m s) f (transactions ts qs))"
      using incs_pos le_all assms(2) by (intro bucket_num [OF c]) (auto simp: all_incs_bucket)
    then show ?thesis unfolding all_incs_bucket sum_concat_added ms by (simp add: case_prod_unfold conj_assoc)
  qed
  then have "(\<Sum>s \<leftarrow> ?ms. num_of (k_hgetall K now (bucketKey ts a m s) (record_all ts K qs r)) f)
      = (\<Sum>s \<leftarrow> ?ms. sum_list (map (added f \<circ> snd) (filter (\<lambda>x. (recorded (snd x) \<and> rq_account (snd x) = a \<and> rq_model (snd x) = m) \<and> minute_of (unix (fst x)) = s) qs)))"
    by (simp cong: map_cong)
  also have "\<dots> = sum_list (map (added f \<circ> snd) (filter (\<lambda>x. (recorded (snd x) \<and> rq_account (snd x) = a \<and> rq_model (snd x) = m) \<and> minute_of (unix (fst x)) \<in> set ?ms) qs))"
    by (rule sum_by_key [OF w(1)])
  also have "filter (\<lambda>x. (recorded (snd x) \<and> rq_account (snd x) = a \<and> rq_model (snd x) = m) \<and> minute_of (unix (fst x)) \<in> set ?ms) qs = filter (in_window (unix now) secs a m) qs"
    using assms(1,6,7) w(3) le by (intro filter_cong) (auto simp: in_window_def recorded_def)
  finally show "(\<Sum>s \<leftarrow> ?ms. num_of (k_hgetall K now (bucketKey ts a m s) (record_all ts K qs r)) f)
      = sum_list (map (added f \<circ> snd) (filter (in_window (unix now) secs a m) qs))" .
  show "0 \<le> num_of (k_hgetall K now (bucketKey ts a m s) (record_all ts K qs r)) f" if "s \<in> set ?ms"
    using one [OF that] added_pos by (auto intro!: sum_list_nonneg)
qed

end

text \<open>
  Property C18. The metrics of an account and model over a window of less than a day minus a minute count every
  recorded request of the minutes of the window, and nothing else: how many there were, how many failed in
  which way, their tokens and their time, whatever else was recorded before and after.
\<close>

theorem range_metrics_exact:
  assumes "counter_redis K cell mem stays" and "\<And>k u. stays k u r" and "\<And>k f. cell now k f r = None"
    and "\<forall>(t, q) \<in> set qs. t \<le> now \<and> 0 \<le> unix t" and "\<And>f. sum_list (map (added f \<circ> snd) qs) < 2 ^ 63"
    and "0 < secs" and "secs \<le> unix now" and "secs \<le> 24 * 3600 - 60" and "a \<noteq> 0" and "m \<noteq> ''''"
  shows "\<exists>mm. sumBucketsForRange ts K True now a m secs (record_all ts K qs r) = Some mm
    \<and> (let sel = map snd (filter (in_window (unix now) secs a m) qs) in
        mm_Requests mm = int (length sel) \<and> mm_Errors429 mm = int (length (filter rq_is429 sel))
        \<and> mm_ErrorsTotal mm = int (length (filter rq_isError sel)) \<and> mm_Tokens mm = (\<Sum>q \<leftarrow> sel. max 0 (rq_tokens q))
        \<and> mm_LatencyMs mm = (\<Sum>q \<leftarrow> sel. max 0 (rq_latency q)))"
proof -
  let ?v = "\<lambda>s. k_hgetall K now (bucketKey ts a m s) (record_all ts K qs r)"
  let ?ms = "window_minutes (unix now) secs"
  let ?sel = "filter (in_window (unix now) secs a m) qs"
  let ?mm = "fold (\<lambda>s sum. let raw = ?v s in if raw = fmempty then sum else add_metrics sum (parseModelMetrics raw)) ?ms no_metrics"
  have w: "0 \<le> unix now - secs" "0 \<le> secs" using assms(6,7) by simp_all
  note sums = counter_redis.window_sum [OF assms(1,4,5) w assms(8-10) assms(2,3)]
  have total: "sum_list (map (added f \<circ> snd) ?sel) < 2 ^ 63" for f
    using sum_filter_le [of "added f \<circ> snd" "in_window (unix now) secs a m" qs] added_pos assms(5) [of f] by (simp add: le_less_trans)
  have field: "F ?mm = sum_list (map (added f \<circ> snd) ?sel)"
    if "\<And>a b. F (add_metrics a b) = add64 (F a) (F b)" "\<And>v. F (parseModelMetrics v) = num_of v f" "F no_metrics = 0" for F f
    using fold_buckets [OF that(1,2), of ?ms ?v no_metrics] that(3) sums total by simp
  have sel: "sum_list (map (added ''requests'' \<circ> snd) xs) = int (length xs)"
    "sum_list (map (added ''errors_429'' \<circ> snd) xs) = int (length (filter rq_is429 (map snd xs)))"
    "sum_list (map (added ''errors_total'' \<circ> snd) xs) = int (length (filter rq_isError (map snd xs)))"
    "sum_list (map (added ''tokens'' \<circ> snd) xs) = (\<Sum>q \<leftarrow> map snd xs. max 0 (rq_tokens q))"
    "sum_list (map (added ''latency_ms'' \<circ> snd) xs) = (\<Sum>q \<leftarrow> map snd xs. max 0 (rq_latency q))" for xs :: "(instant \<times> request) list"
    by (induction xs; simp add: added_def request_incs_def max_def)+
  have "sumBucketsForRange ts K True now a m secs (record_all ts K qs r) = Some (with_rates ?mm)"
    using assms(6) by (simp add: sumBucketsForRange_def Let_def)
  moreover have "mm_Requests ?mm = int (length (map snd ?sel))" "mm_Errors429 ?mm = int (length (filter rq_is429 (map snd ?sel)))"
    "mm_ErrorsTotal ?mm = int (length (filter rq_isError (map snd ?sel)))" "mm_Tokens ?mm = (\<Sum>q \<leftarrow> map snd ?sel. max 0 (rq_tokens q))"
    "mm_LatencyMs ?mm = (\<Sum>q \<leftarrow> map snd ?sel. max 0 (rq_latency q))"
    using field [of mm_Requests "''requests''"] field [of mm_Errors429 "''errors_429''"] field [of mm_ErrorsTotal "''errors_total''"]
      field [of mm_Tokens "''tokens''"] field [of mm_LatencyMs "''latency_ms''"]
    by (simp_all add: add_metrics_def parseModelMetrics_def no_metrics_def sel)
  ultimately show ?thesis by (simp add: with_rates_def Let_def)
qed

section \<open>The last use\<close>

text \<open>
  The instants of the requests of the last day are added up instead of replaced: the last use that
  the metrics of an account and model show is the sum of all of them.
\<close>

theorem last_use_is_sum:
  assumes "counter_redis K cell mem stays" and "\<And>k u. stays k u r" and "\<And>k f. cell now k f r = None"
    and "\<forall>(t, q) \<in> set qs. t \<le> now \<and> 0 \<le> unix t \<and> now < t + 24 * hour" and "sum_list (map (unix \<circ> fst) qs) < 2 ^ 63"
    and "a \<noteq> 0" and "m \<noteq> ''''"
  shows "mm_LastUsed (parseModelMetrics (k_hgetall K now (accountKey ts a m) (record_all ts K qs r)))
    = (\<Sum>(t, q) \<leftarrow> filter (\<lambda>(t, q). rq_account q = a \<and> rq_model q = m) qs. unix t)"
proof -
  let ?ds = "all_incs (accountKey ts a m) ''last_unix'' (transactions ts qs)"
  have eq: "?ds = map (unix \<circ> fst) (filter (\<lambda>(t, q). rq_account q = a \<and> rq_model q = m) qs)"
    using assms(6,7) unfolding all_incs_account by (induction qs) (auto simp: recorded_def)
  have pos: "\<forall>d \<in> set ?ds. 0 \<le> d" using assms(4) by (auto simp: eq)
  have "sum_list (map (unix \<circ> fst) (filter P qs)) \<le> sum_list (map (unix \<circ> fst) qs)" for P
    using assms(4) by (induction qs) (auto simp: add_increasing)
  then have small: "sum_list ?ds < 2 ^ 63" using assms(5) unfolding eq by (rule le_less_trans)
  have "cell now (accountKey ts a m) ''last_unix'' (record_all ts K qs r) = sum_opt ?ds"
    unfolding record_all_run
  proof (rule counter_redis.cell_sum [OF assms(1)])
    show "\<forall>(t, cs) \<in> set (transactions ts qs). t \<le> now \<and> (\<forall>c \<in> set cs. only_counts (accountKey ts a m) ''last_unix'' c)
        \<and> (\<forall>ttl. Expire (accountKey ts a m) ttl \<in> set cs \<longrightarrow> now < t + ttl)"
      using assms(4) counts_only(2) [of "''last_unix''"] expiries(2) by (fastforce simp: transactions_def)
  qed (use assms(2,3) pos small in simp_all)
  then show ?thesis using counter_redis.bucket_num [OF assms(1) _ pos small]
    by (simp add: parseModelMetrics_def eq case_prod_unfold comp_def)
qed

section \<open>The rolling rate\<close>

definition stamp :: "int \<Rightarrow> int \<Rightarrow> string \<times> int" where
  "stamp a s = (itoa s @ ''-'' @ itoa a, s)"

definition seconds_after :: "int \<Rightarrow> int \<Rightarrow> (instant \<times> request) list \<Rightarrow> int set" where
  "seconds_after lo a qs = {unix t | t q. (t, q) \<in> set qs \<and> recorded q \<and> rq_account q = a \<and> lo < unix t}"

lemma stamp_inject [simp]: "stamp a s = stamp a s' \<longleftrightarrow> s = s'"
  by (simp add: stamp_def)

lemma members_request: "fold (\<lambda>c. members_after c (timestampKey ts a)) (request_commands ts n q) S
    = (if rq_account q = a then {p \<in> insert (stamp a n) {p \<in> S. fst p \<noteq> fst (stamp a n)}. n - 120 \<le> snd p} else S)"
  by (auto simp: request_commands_def Let_def stamp_def hour_def minute_def second_def)

context counter_redis begin

lemma members_window:
  assumes "\<forall>(t, q) \<in> set qs. t \<le> now \<and> now < t + 2 * hour" and "unix now - 120 \<le> lo"
    and "\<And>k u. stays k u r" and "\<And>k. members now k r = {}"
  shows "{p \<in> members now (timestampKey ts a) (record_all ts K qs r). lo < snd p} = stamp a ` seconds_after lo a qs"
proof -
  let ?k = "timestampKey ts a"
  have "stays ?k (now + 1) (record_all ts K qs r) \<and> members now ?k (record_all ts K qs r) \<subseteq> range (stamp a)
      \<and> {p \<in> members now ?k (record_all ts K qs r). lo < snd p} = stamp a ` seconds_after lo a qs"
    using assms(1)
  proof (induction qs rule: rev_induct)
    case Nil
    then show ?case using assms(3,4) by (simp add: record_all_def seconds_after_def)
  next
    case (snoc e qs)
    obtain t q where e: "e = (t, q)" by (cases e)
    let ?r = "record_all ts K qs r"
    have IH: "stays ?k (now + 1) ?r" "members now ?k ?r \<subseteq> range (stamp a)" "{p \<in> members now ?k ?r. lo < snd p} = stamp a ` seconds_after lo a qs"
      using snoc by auto
    show ?case
    proof (cases "recorded q")
      case False
      then have "record_all ts K (qs @ [e]) r = ?r" by (simp add: record_all_def e RecordRequest_def recorded_def)
      moreover have "seconds_after lo a (qs @ [e]) = seconds_after lo a qs" using False e by (auto simp: seconds_after_def)
      ultimately show ?thesis using IH by simp
    next
      case True
      then have run: "record_all ts K (qs @ [e]) r = fold (k_exec K t) (request_commands ts (unix t) q) ?r"
        by (simp add: record_all_def e RecordRequest_def recorded_def transaction_def)
      have t: "t < now + 1" "now < t + 2 * hour" using snoc.prems e by auto
      have s: "stays ?k (now + 1) (record_all ts K (qs @ [e]) r)" unfolding run
        using t expiries(3) by (intro stays_run [OF _ IH(1)]) fastforce
      have m: "members now ?k (record_all ts K (qs @ [e]) r) = fold (\<lambda>c. members_after c ?k) (request_commands ts (unix t) q) (members now ?k ?r)"
        using members_stays [OF s, of t now] members_stays [OF IH(1), of t now] t(1) members_run run by simp
      have "unix t \<le> unix now" using t(1) by (simp add: unix_def zdiv_mono1 second_def)
      then have old: "unix t - 120 \<le> snd p" if "lo < snd p" for p :: "string \<times> int" using that assms(2) by simp
      have same: "fst p = fst (stamp a n) \<longleftrightarrow> p = stamp a n" if "p \<in> range (stamp a)" for p n using that by (auto simp: stamp_def)
      have sec: "seconds_after lo a (qs @ [e]) = seconds_after lo a qs \<union> (if rq_account q = a \<and> lo < unix t then {unix t} else {})"
        using True e by (auto simp: seconds_after_def)
      show ?thesis
      proof (cases "rq_account q = a")
        case False
        then show ?thesis using s IH m sec by (simp add: members_request)
      next
        case acc: True
        have "{p \<in> members now ?k (record_all ts K (qs @ [e]) r). lo < snd p}
            = {p \<in> members now ?k ?r. lo < snd p} \<union> (if lo < unix t then {stamp a (unix t)} else {})"
          using m acc IH(2) old same by (auto simp: members_request stamp_def split: if_splits)
        moreover have "members now ?k (record_all ts K (qs @ [e]) r) \<subseteq> range (stamp a)"
          using m acc IH(2) by (auto simp: members_request)
        ultimately show ?thesis using s IH(3) acc sec by auto
      qed
    qed
  qed
  then show ?thesis by blast
qed

end

text \<open>
  The rolling rate of an account counts the seconds of the window in which it had a request, not
  its requests: several requests of one second are one.
\<close>

theorem rate_counts_seconds:
  assumes "counter_redis K cell mem stays" and "\<And>k u. stays k u r" and "\<And>k. mem now k r = {}"
    and "\<forall>(t, q) \<in> set qs. t \<le> now \<and> now < t + 2 * hour" and "0 < w" and "w \<le> 120" and "a \<noteq> 0"
  shows "fst (RollingRPM (Some ts) K True now a w (record_all ts K qs r))
      = Some (f_div (fl (of_int (int (card (seconds_after (unix now - w) a qs))))) (f_div (fl (of_int w)) 60))
    \<and> int (card (seconds_after (unix now - w) a qs)) \<le> w"
proof -
  let ?r = "record_all ts K qs r" and ?lo = "unix now - w"
  have le: "s \<le> unix now" if "s \<in> seconds_after ?lo a qs" for s
    using that assms(4) by (auto simp: seconds_after_def unix_def second_def intro!: zdiv_mono1)
  have pruned: "mem now (timestampKey ts a) (k_exec K now (ZRemBelow (timestampKey ts a) (unix now - 120)) ?r)
      = {p \<in> mem now (timestampKey ts a) ?r. unix now - 120 \<le> snd p}"
    using counter_redis.members_exec [OF assms(1)] by simp
  have "{p \<in> mem now (timestampKey ts a) (k_exec K now (ZRemBelow (timestampKey ts a) (unix now - 120)) ?r). ?lo < snd p \<and> snd p \<le> unix now}
      = {p \<in> {p \<in> mem now (timestampKey ts a) ?r. ?lo < snd p}. snd p \<le> unix now}"
    unfolding pruned by (rule Collect_cong) (use assms(6) in \<open>simp, linarith\<close>)
  also have "{p \<in> mem now (timestampKey ts a) ?r. ?lo < snd p} = stamp a ` seconds_after ?lo a qs"
    using assms(6) by (intro counter_redis.members_window [OF assms(1,4) _ assms(2,3)]) simp
  also have "{p \<in> stamp a ` seconds_after ?lo a qs. snd p \<le> unix now} = stamp a ` seconds_after ?lo a qs"
    using le by (auto simp: stamp_def)
  finally have "k_zcount K now (timestampKey ts a) ?lo (unix now) (k_exec K now (ZRemBelow (timestampKey ts a) (unix now - 120)) ?r)
      = int (card (seconds_after ?lo a qs))"
    by (simp add: counter_redis.zcount [OF assms(1)] card_image inj_on_def)
  moreover have "?lo < s" if "s \<in> seconds_after ?lo a qs" for s using that by (auto simp: seconds_after_def)
  with le have "seconds_after ?lo a qs \<subseteq> {?lo <.. unix now}" by auto
  then have "card (seconds_after ?lo a qs) \<le> card {?lo <.. unix now}" by (intro card_mono) auto
  ultimately show ?thesis using assms(5,7) by (simp add: RollingRPM_def Let_def)
qed

section \<open>Instances\<close>

definition some_instant :: instant where
  "some_instant = unix_epoch + 100000 * second"

definition some_request :: "int \<Rightarrow> bool \<Rightarrow> request" where
  "some_request tokens failed = \<lparr>rq_account = 1, rq_model = ''m'', rq_is429 = False, rq_isError = failed, rq_tokens = tokens, rq_latency = 20\<rparr>"

definition some_requests :: "(instant \<times> request) list" where
  "some_requests = [(some_instant, some_request 5 False), (some_instant, some_request 7 True)]"

definition some_store :: telemetry_store where
  "some_store = NewTelemetryStore ''''"

lemma no_counters_facts: "maps_stays k u no_counters" "maps_cell t k f no_counters = None" "maps_members t k no_counters = {}"
  by (simp_all add: maps_stays_def stays_in_def no_counters_def maps_cell_def maps_members_def look_def table_def)

lemma some_unix [simp]: "unix some_instant = 100000"
  by (simp add: some_instant_def unix_def second_def)

lemma range_metrics_exact_witness:
  "\<exists>mm. sumBucketsForRange some_store maps_server True some_instant 1 ''m'' 60 (record_all some_store maps_server some_requests no_counters) = Some mm
    \<and> mm_Requests mm = 2 \<and> mm_ErrorsTotal mm = 1 \<and> mm_Tokens mm = 12"
proof -
  have w: "in_window 100000 60 1 ''m'' (some_instant, some_request n b)" for n b
    by (simp add: in_window_def some_request_def minute_of_def go_rem_def)
  have b: "sum_list (map (added f \<circ> snd) some_requests) < 2 ^ 63" for f
    by (simp add: some_requests_def some_request_def added_def request_incs_def)
  have q: "\<forall>(t, q) \<in> set some_requests. t \<le> some_instant \<and> 0 \<le> unix t" by (simp add: some_requests_def)
  have "(0::int) < 60" "60 \<le> unix some_instant" "(60::int) \<le> 24 * 3600 - 60" "(1::int) \<noteq> 0" "''m'' \<noteq> ''''" by simp_all
  from range_metrics_exact [OF maps.counter_redis_axioms no_counters_facts(1,2) q b this, of some_store] show ?thesis
    by (simp add: some_requests_def w) (auto simp: some_request_def)
qed

lemma last_use_is_sum_witness:
  "mm_LastUsed (parseModelMetrics (k_hgetall maps_server some_instant (accountKey some_store 1 ''m'')
     (record_all some_store maps_server some_requests no_counters))) = 200000"
proof -
  have q: "\<forall>(t, q) \<in> set some_requests. t \<le> some_instant \<and> 0 \<le> unix t \<and> some_instant < t + 24 * hour"
    by (simp add: some_requests_def hour_def minute_def second_def)
  have "sum_list (map (unix \<circ> fst) some_requests) < 2 ^ 63" "(1::int) \<noteq> 0" "''m'' \<noteq> ''''" by (simp_all add: some_requests_def)
  from last_use_is_sum [OF maps.counter_redis_axioms no_counters_facts(1,2) q this, of some_store] show ?thesis
    by (simp add: some_requests_def some_request_def)
qed

lemma rate_counts_seconds_witness:
  "fst (RollingRPM (Some some_store) maps_server True some_instant 1 60 (record_all some_store maps_server some_requests no_counters))
    = Some (f_div (fl 1) (f_div (fl 60) 60))"
proof -
  have q: "\<forall>(t, q) \<in> set some_requests. t \<le> some_instant \<and> some_instant < t + 2 * hour"
    by (simp add: some_requests_def hour_def minute_def second_def)
  have "seconds_after (100000 - 60) 1 some_requests = {100000}"
  proof
    have "(some_instant, some_request 5 False) \<in> set some_requests" "recorded (some_request 5 False)" "rq_account (some_request 5 False) = 1"
      by (simp_all add: some_requests_def some_request_def recorded_def)
    then show "{100000} \<subseteq> seconds_after (100000 - 60) 1 some_requests" using some_unix by (force simp: seconds_after_def)
  qed (auto simp: seconds_after_def some_requests_def)
  moreover have "(0::int) < 60" "(60::int) \<le> 120" "(1::int) \<noteq> 0" by simp_all
  note rate_counts_seconds [OF maps.counter_redis_axioms no_counters_facts(1,3) q this, of some_store]
  ultimately show ?thesis by simp
qed

end
