(* ===== verification/Codebuff_Provider.thy ===== *)
theory Codebuff_Provider
  imports Codebuff_Stream Quota_Store Codebuff_Models Accounts Upstream_Sessions App_Errors Error_Properties Codebuff_Telemetry
begin

text \<open>
  A request to the codebuff upstream, \<open>internal/codebuff/provider.go\<close>, \<open>runs.go\<close> and the session part of
  \<open>client.go\<close>: the creation of a session, the chain of runs, and the cycles of session and chat with
  their retries. The HTTP interface is a parameter that may change with every call (the world); what the
  provider does is a list of actions.
\<close>

section \<open>Sessions of the upstream\<close>

definition sessionFromData :: "any_map \<Rightarrow> string \<Rightarrow> upstream_session option" where
  "sessionFromData data model =
    (let instanceID = or_else '''' (str_field data ''instanceId'') in
     if instanceID = '''' then None
     else Some \<lparr>us_InstanceID = instanceID, us_Model = model, us_ExpiresAt = or_else '''' (str_field data ''expiresAt''),
       us_RemainingMs = or_else 0 (int_field data ''remainingMs'')\<rparr>)"

definition maxQueuePollDelay :: duration where "maxQueuePollDelay = 2 * second"
definition minQueuePollDelay :: duration where "minQueuePollDelay = 250 * millisecond"

text \<open>The conversion of a number that no 64-bit integer holds is left to the machine; here it wraps.\<close>

definition queuePollDelay :: "any option \<Rightarrow> duration" where
  "queuePollDelay wait = (case wait of
     Some (ANum v) \<Rightarrow>
       if 0 < v then
         (let d = wrap64 (wrap64 (f_to_int v) * millisecond) in
          if d < minQueuePollDelay then minQueuePollDelay else if maxQueuePollDelay < d then maxQueuePollDelay else d)
       else minQueuePollDelay
   | _ \<Rightarrow> minQueuePollDelay)"

text \<open>
  Waiting in the queue: one round is the instant of the check, whether the context ended during the delay, and
  the answer to the next look. Without further rounds the call has not returned yet.
\<close>

datatype waited = Active any_map | WaitFailed string | StillWaiting

fun wait_rounds :: "(any_map \<Rightarrow> string) \<Rightarrow> instant \<Rightarrow> (instant \<times> bool \<times> (string + any_map)) list \<Rightarrow> bool \<Rightarrow> any_map \<Rightarrow> waited" where
  "wait_rounds fmt deadline rounds first data =
    (if str_field data ''status'' \<noteq> Some ''queued'' then Active data
     else (case rounds of
        [] \<Rightarrow> StillWaiting
      | (now, ended, answer) # rounds \<Rightarrow>
          if deadline < now then WaitFailed (''Freebuff session did not become active before timeout: '' @ fmt data)
          else if \<not> first \<and> ended then WaitFailed ''context canceled''
          else (case answer of Inl e \<Rightarrow> WaitFailed e | Inr data \<Rightarrow> wait_rounds fmt deadline rounds False data)))"

definition waitForActiveSession :: "(any_map \<Rightarrow> string) \<Rightarrow> instant \<Rightarrow> (instant \<times> bool \<times> (string + any_map)) list \<Rightarrow> any_map \<Rightarrow> string
    \<Rightarrow> (string + upstream_session option \<times> any_map) option" where
  "waitForActiveSession fmt deadline rounds data model =
    (if or_else '''' (str_field data ''instanceId'') = '''' then Some (Inl (''Freebuff queued session id missing: '' @ fmt data))
     else (case wait_rounds fmt deadline rounds True data of
        Active data \<Rightarrow> Some (Inr (sessionFromData data model, data))
      | WaitFailed e \<Rightarrow> Some (Inl e)
      | StillWaiting \<Rightarrow> None))"

definition CreateSession :: "(any_map \<Rightarrow> string) \<Rightarrow> instant \<Rightarrow> (instant \<times> bool \<times> (string + any_map)) list \<Rightarrow> string + any_map \<Rightarrow> string
    \<Rightarrow> (string + upstream_session option \<times> any_map) option" where
  "CreateSession fmt deadline rounds answer model = (case answer of
     Inl e \<Rightarrow> Some (Inl e)
   | Inr data \<Rightarrow> if str_field data ''status'' = Some ''queued'' then waitForActiveSession fmt deadline rounds data model
       else Some (Inr (sessionFromData data model, data)))"

section \<open>Runs\<close>

text \<open>The calls for runs; the ids of children are nil or a list.\<close>

datatype api_call = AStart string "string list" | AStep string int "string list option" string string | AFinish string int

type_synonym 'w http = "api_call \<Rightarrow> 'w \<Rightarrow> (string + any_map) \<times> 'w"

record run =
  rn_RunID :: string
  rn_AgentID :: string
  rn_StartedAt :: string
  rn_ChildRunID :: string
  rn_ChatRunID :: string
  rn_ChatStartedAt :: string

definition PayloadRunID :: "run \<Rightarrow> string" where
  "PayloadRunID r = (if rn_ChatRunID r \<noteq> '''' then rn_ChatRunID r else rn_RunID r)"

definition StartRun :: "'w http \<Rightarrow> (any_map \<Rightarrow> string) \<Rightarrow> string \<Rightarrow> string list \<Rightarrow> 'w \<Rightarrow> (string + string) \<times> 'w" where
  "StartRun http fmt agentID ancestors w = (case http (AStart agentID ancestors) w of
     (Inl e, w) \<Rightarrow> (Inl e, w)
   | (Inr data, w) \<Rightarrow> let runID = or_else '''' (str_field data ''runId'') in
       (if runID = '''' then Inl (''Codebuff run id missing: '' @ fmt data) else Inr runID, w))"

text \<open>\<open>at1\<close> and \<open>at2\<close> are the instants of the two starts. With the run come the calls made in the background.\<close>

definition startStandardRunChain :: "'w http \<Rightarrow> (any_map \<Rightarrow> string) \<Rightarrow> string \<Rightarrow> string \<Rightarrow> model_config \<Rightarrow> 'w
    \<Rightarrow> (string + run \<times> api_call list) \<times> 'w" where
  "startStandardRunChain http fmt at1 at2 model w = (case StartRun http fmt (mc_AgentID model) [] w of
     (Inl e, w) \<Rightarrow> (Inl (''start parent run: '' @ e), w)
   | (Inr runID, w) \<Rightarrow> (case StartRun http fmt ContextPrunerAgentID [runID] w of
        (Inl e, w) \<Rightarrow> (Inl (''start child run: '' @ e), w)
      | (Inr childRunID, w) \<Rightarrow>
          (Inr (\<lparr>rn_RunID = runID, rn_AgentID = mc_AgentID model, rn_StartedAt = at1, rn_ChildRunID = childRunID,
               rn_ChatRunID = '''', rn_ChatStartedAt = ''''\<rparr>,
             [AStep childRunID 1 None '''' at2, AFinish childRunID 2, AStep runID 1 (Some [childRunID]) '''' at1]), w)))"

definition startChildChatRunChain :: "'w http \<Rightarrow> (any_map \<Rightarrow> string) \<Rightarrow> string \<Rightarrow> string \<Rightarrow> model_config \<Rightarrow> 'w
    \<Rightarrow> (string + run \<times> api_call list) \<times> 'w" where
  "startChildChatRunChain http fmt at1 at2 model w = (case StartRun http fmt (mc_ParentAgentID model) [] w of
     (Inl e, w) \<Rightarrow> (Inl (''start parent run: '' @ e), w)
   | (Inr parentRunID, w) \<Rightarrow> (case StartRun http fmt (mc_AgentID model) [parentRunID] w of
        (Inl e, w) \<Rightarrow> (Inl (''start chat run: '' @ e), w)
      | (Inr chatRunID, w) \<Rightarrow>
          (Inr (\<lparr>rn_RunID = parentRunID, rn_AgentID = mc_ParentAgentID model, rn_StartedAt = at1, rn_ChildRunID = chatRunID,
               rn_ChatRunID = chatRunID, rn_ChatStartedAt = at2\<rparr>, []), w)))"

definition StartRunChain :: "'w http \<Rightarrow> (any_map \<Rightarrow> string) \<Rightarrow> string \<Rightarrow> string \<Rightarrow> model_config \<Rightarrow> 'w
    \<Rightarrow> (string + run \<times> api_call list) \<times> 'w" where
  "StartRunChain http fmt at1 at2 model w =
    (if mc_ParentAgentID model \<noteq> '''' then startChildChatRunChain http fmt at1 at2 model w
     else startStandardRunChain http fmt at1 at2 model w)"

text \<open>The calls that finalise a run; their errors are dropped.\<close>

definition FinalizeRun :: "run \<Rightarrow> string \<Rightarrow> api_call list" where
  "FinalizeRun r messageID =
    (if rn_ChatRunID r \<noteq> '''' \<and> rn_ChatRunID r \<noteq> rn_RunID r
     then [AStep (rn_ChatRunID r) 1 None messageID (rn_ChatStartedAt r), AFinish (rn_ChatRunID r) 2,
       AStep (rn_RunID r) 1 (Some [rn_ChatRunID r]) '''' (rn_StartedAt r), AFinish (rn_RunID r) 2]
     else [AStep (rn_RunID r) 2 None messageID (rn_StartedAt r), AFinish (rn_RunID r) 3])"

section \<open>Blocks\<close>

text \<open>
  \<open>recordBlockIf429\<close>: the error is one of the HTTP client, with its status, or another one. A body without
  a model is an error of the parser, so the requested model is never used.
\<close>

datatype request_error = HttpError int string | OtherError string

fun error_text :: "request_error \<Rightarrow> string" where
  "error_text (HttpError status e) = e"
| "error_text (OtherError e) = e"

definition recordBlockIf429 :: "'r quota_store option \<Rightarrow> (string \<Rightarrow> any_map option) \<Rightarrow> (string \<Rightarrow> instant option) \<Rightarrow> bool \<Rightarrow> instant
    \<Rightarrow> account option \<Rightarrow> request_error \<Rightarrow> string \<Rightarrow> 'r \<Rightarrow> 'r" where
  "recordBlockIf429 qs decode rfc up now acc err requestedModel r = (case (qs, acc, err) of
     (Some qs, Some a, HttpError status e) \<Rightarrow>
       if status \<noteq> 429 then r
       else (case Parse429Body decode rfc now (Some e) of
          Inr (Some b) \<Rightarrow>
            let b = (if mb_Model b = '''' then b\<lparr>mb_Model := requestedModel\<rparr> else b)
            in snd (RecordBlock (Some qs) up now (ID a) (Some b) r)
        | _ \<Rightarrow> r)
   | _ \<Rightarrow> r)"

section \<open>Telemetry and quotas\<close>

text \<open>The name under which a model is counted: the one of the upstream when the model is known.\<close>

definition counted_model :: "string \<Rightarrow> string" where
  "counted_model requested = (case ResolveModel requested of Inl e \<Rightarrow> requested | Inr m \<Rightarrow> UpstreamID m)"

definition recordTelemetry :: "telemetry_store option \<Rightarrow> 'r counters \<Rightarrow> bool \<Rightarrow> instant \<Rightarrow> account option \<Rightarrow> string \<Rightarrow> bool \<Rightarrow> bool
    \<Rightarrow> int \<Rightarrow> int \<Rightarrow> 'r \<Rightarrow> 'r" where
  "recordTelemetry ts K up now acc requestedModel is429 isError tokens latency r = (case (ts, acc) of
     (Some ts, Some a) \<Rightarrow>
       if counted_model requestedModel = '''' then r
       else RecordRequest (Some ts) K up now \<lparr>rq_account = ID a, rq_model = counted_model requestedModel, rq_is429 = is429,
         rq_isError = isError, rq_tokens = tokens, rq_latency = latency\<rparr> r
   | _ \<Rightarrow> r)"

definition recordSessionTelemetry :: "telemetry_store option \<Rightarrow> 'r counters \<Rightarrow> bool \<Rightarrow> instant \<Rightarrow> account option \<Rightarrow> string \<Rightarrow> string
    \<Rightarrow> 'r \<Rightarrow> 'r" where
  "recordSessionTelemetry ts K up now acc model outcome r = (case (ts, acc) of
     (Some ts, Some a) \<Rightarrow>
       if counted_model model = '''' then r else RecordSessionEvent (Some ts) K up now (ID a) (counted_model model) outcome r
   | _ \<Rightarrow> r)"

definition provider_recordQuotas :: "'r quota_store option \<Rightarrow> (string \<Rightarrow> instant option) \<Rightarrow> bool \<Rightarrow> instant \<Rightarrow> account option
    \<Rightarrow> any_map option \<Rightarrow> 'r \<Rightarrow> 'r" where
  "provider_recordQuotas qs rfc up now acc data r = (case (qs, acc, data) of
     (Some qs, Some a, Some d) \<Rightarrow>
       (case ParseSessionRateLimits rfc (Some d) of
          Some limits \<Rightarrow> if limits = [] then r else snd (RecordSessionQuotas (Some qs) up now (ID a) limits r)
        | None \<Rightarrow> r)
   | _ \<Rightarrow> r)"

text \<open>The name under which a model is counted is counted under itself.\<close>

lemma upstream_resolves: "list_all (\<lambda>c. case ResolveModel (UpstreamID c) of Inl e \<Rightarrow> True | Inr d \<Rightarrow> UpstreamID d = UpstreamID c) (DEFAULT_MODEL # map snd modelByID)"
  by code_simp

lemma counted_once: "counted_model (counted_model m) = counted_model m"
proof (cases "ResolveModel m")
  case (Inr c)
  then have "c \<in> set (DEFAULT_MODEL # map snd modelByID)"
    by (auto simp: ResolveModel_def split: if_splits option.splits dest!: map_of_SomeD) force
  then show ?thesis using upstream_resolves Inr by (auto simp: counted_model_def list_all_iff split: sum.splits)
qed (simp add: counted_model_def)

section \<open>The request\<close>

record provider_request =
  pr_Model :: string
  pr_Stream :: bool
  pr_raw :: bool

text \<open>
  What the provider meets: the answer to the acquisition of a session (the session, its data if it was created and
  how it was got), the start of the runs and the answer to the chat, each in its cycle and attempt, and the
  libraries of the three ways to read the chat.
\<close>

record provider_env =
  pe_acquire :: "nat \<Rightarrow> nat \<Rightarrow> request_error + (upstream_session option \<times> any_map option \<times> string)"
  pe_runs :: "nat \<Rightarrow> string + run"
  pe_chat :: "nat \<Rightarrow> string + (string list \<times> string option)"
  pe_completion :: "nat \<Rightarrow> string + string"
  pe_json :: "string \<Rightarrow> string + any_map"
  pe_order :: "string list \<Rightarrow> string list"
  pe_raw :: raw_lib
  pe_decode :: "string \<Rightarrow> string + completion"

datatype provider_action = Acquire string | Evict string | SessionEvent string string | CheckBlock request_error string
  | SessionQuotas any_map | Ads | RunsStarted | Chat chat_log "raw_write list"

definition session_error :: "string \<Rightarrow> bool" where
  "session_error e \<longleftrightarrow> IsWaitingRoomRequired (Some e) \<or> IsModelLocked (Some e) \<or> contains e ''session_model_mismatch''"

definition evictReason :: "string option \<Rightarrow> string" where
  "evictReason err = (if IsWaitingRoomRequired err then ''waiting_room'' else if IsModelLocked err then ''model_locked''
     else if (case err of Some e \<Rightarrow> contains e ''session_model_mismatch'' | None \<Rightarrow> False) then ''mismatch'' else ''evict'')"

definition maxSessionRetries :: nat where "maxSessionRetries = 1"
definition maxCreateRetries :: nat where "maxCreateRetries = 1"

text \<open>The attempts of one cycle to get a session; \<open>n\<close> is the number of attempts that are left after this one.\<close>

fun acquire_loop :: "provider_env \<Rightarrow> model_config \<Rightarrow> nat \<Rightarrow> nat \<Rightarrow> provider_action list
    \<times> (string + (upstream_session option \<times> any_map option \<times> string))" where
  "acquire_loop P model cycle n = (case pe_acquire P cycle (maxCreateRetries - n) of
     Inr got \<Rightarrow> ([Acquire (model_SessionID model)], Inr got)
   | Inl err \<Rightarrow>
       (case n of
          Suc n \<Rightarrow> if session_error (error_text err) then
              (case acquire_loop P model cycle n of (acts, res) \<Rightarrow>
                 ([Acquire (model_SessionID model), Evict (model_SessionID model), SessionEvent (UpstreamID model) (evictReason (Some (error_text err)))] @ acts, res))
            else ([Acquire (model_SessionID model), CheckBlock err (UpstreamID model)], Inl (''codebuff session acquisition failed: '' @ error_text err))
        | 0 \<Rightarrow> ([Acquire (model_SessionID model), CheckBlock err (UpstreamID model)], Inl (''codebuff session acquisition failed: '' @ error_text err))))"

definition chat_of :: "provider_env \<Rightarrow> provider_request \<Rightarrow> nat \<Rightarrow> provider_action \<times> string option" where
  "chat_of P q cycle =
    (if pr_Stream q then
       (if pr_raw q then (case streamChatRaw (pe_raw P) (pe_chat P cycle) of (ws, lg, e) \<Rightarrow> (Chat lg ws, e))
        else (case streamChat (pe_json P) (pe_order P) (pe_chat P cycle) of (lg, e) \<Rightarrow> (Chat lg [], e)))
     else (case completeChat (pe_decode P) (pe_completion P cycle) of (lg, e) \<Rightarrow> (Chat lg [], e)))"

text \<open>The cycles; \<open>n\<close> is the number of cycles that are left after this one.\<close>

fun send_cycles :: "provider_env \<Rightarrow> provider_request \<Rightarrow> model_config \<Rightarrow> nat \<Rightarrow> provider_action list \<times> string option" where
  "send_cycles P q model n = (case acquire_loop P model (maxSessionRetries - n) maxCreateRetries of
     (acts, Inl e) \<Rightarrow> (acts, Some e)
   | (acts, Inr (sess, data, outcome)) \<Rightarrow>
       if sess = None then (acts, Some ''codebuff session is nil after acquisition'')
       else
         let acts = acts @ (if outcome \<noteq> '''' then [SessionEvent (UpstreamID model) outcome] else [])
               @ (case data of Some d \<Rightarrow> [SessionQuotas d] | None \<Rightarrow> []) @ [Ads]
         in (case pe_runs P (maxSessionRetries - n) of
            Inl e \<Rightarrow> (acts, Some (''codebuff run chain failed: '' @ e))
          | Inr run \<Rightarrow> (case chat_of P q (maxSessionRetries - n) of
               (chat, None) \<Rightarrow> (acts @ [RunsStarted, chat], None)
             | (chat, Some e) \<Rightarrow> (case n of
                  Suc n \<Rightarrow> if session_error e then
                      (case send_cycles P q model n of (acts', res) \<Rightarrow>
                        (acts @ [RunsStarted, chat, Evict (model_SessionID model), SessionEvent (UpstreamID model) (evictReason (Some e))] @ acts', res))
                    else (acts @ [RunsStarted, chat], Some e)
                | 0 \<Rightarrow> (acts @ [RunsStarted, chat], Some e)))))"

definition SendRequestWithPayload :: "provider_env \<Rightarrow> provider_request \<Rightarrow> provider_action list \<times> string option" where
  "SendRequestWithPayload P q = (case ResolveModel (pr_Model q) of
     Inl requested \<Rightarrow> ([], Some (''Unsupported Freebuff model: '' @ requested))
   | Inr model \<Rightarrow> send_cycles P q model maxSessionRetries)"

section \<open>Bounded retries\<close>

definition acquisitions :: "provider_action list \<Rightarrow> nat" where
  "acquisitions acts = length (filter (\<lambda>a. case a of Acquire m \<Rightarrow> True | _ \<Rightarrow> False) acts)"

definition chats :: "provider_action list \<Rightarrow> nat" where
  "chats acts = length (filter (\<lambda>a. case a of Chat lg ws \<Rightarrow> True | _ \<Rightarrow> False) acts)"

text \<open>A reader of the actions: a session is acquired at the start or after an eviction since the last acquisition.\<close>

definition fresh_step :: "provider_action \<Rightarrow> bool option \<Rightarrow> bool option" where
  "fresh_step a st = (case st of
     None \<Rightarrow> None
   | Some fresh \<Rightarrow> (case a of Acquire m \<Rightarrow> if fresh then Some False else None | Evict m \<Rightarrow> Some True | _ \<Rightarrow> Some fresh))"

definition fresh_reader :: "provider_action list \<Rightarrow> bool option \<Rightarrow> bool option" where
  "fresh_reader acts = fold fresh_step acts"

lemma action_simps [simp]:
  "acquisitions [] = 0" "chats [] = 0" "acquisitions (xs @ ys) = acquisitions xs + acquisitions ys" "chats (xs @ ys) = chats xs + chats ys"
  "acquisitions (Acquire m # xs) = Suc (acquisitions xs)" "acquisitions (Evict m # xs) = acquisitions xs"
  "acquisitions (SessionEvent m s # xs) = acquisitions xs" "acquisitions (CheckBlock e m # xs) = acquisitions xs"
  "acquisitions (SessionQuotas d # xs) = acquisitions xs" "acquisitions (Ads # xs) = acquisitions xs"
  "acquisitions (RunsStarted # xs) = acquisitions xs" "acquisitions (Chat lg ws # xs) = acquisitions xs"
  "chats (Acquire m # xs) = chats xs" "chats (Evict m # xs) = chats xs" "chats (SessionEvent m s # xs) = chats xs"
  "chats (CheckBlock e m # xs) = chats xs" "chats (SessionQuotas d # xs) = chats xs" "chats (Ads # xs) = chats xs"
  "chats (RunsStarted # xs) = chats xs" "chats (Chat lg ws # xs) = Suc (chats xs)"
  "fresh_reader [] st = st" "fresh_reader (a # xs) st = fresh_reader xs (fresh_step a st)"
  "fresh_reader (xs @ ys) st = fresh_reader ys (fresh_reader xs st)"
  by (simp_all add: acquisitions_def chats_def fresh_reader_def)

lemma fresh_simps [simp]:
  "fresh_step (Acquire m) (Some True) = Some False" "fresh_step (Evict m) (Some b) = Some True" "fresh_step (SessionEvent m s) (Some b) = Some b"
  "fresh_step (CheckBlock e m) (Some b) = Some b" "fresh_step (SessionQuotas d) (Some b) = Some b" "fresh_step Ads (Some b) = Some b"
  "fresh_step RunsStarted (Some b) = Some b" "fresh_step (Chat lg ws) (Some b) = Some b"
  by (simp_all add: fresh_step_def)

declare acquire_loop.simps [simp del] send_cycles.simps [simp del]

lemma acquire_loop_facts:
  "acquire_loop P model cycle n = (acts, res) \<Longrightarrow> acquisitions acts \<le> Suc n \<and> chats acts = 0 \<and> fresh_reader acts (Some True) = Some False"
proof (induction n arbitrary: acts res)
  case 0
  then show ?case by (auto simp: acquire_loop.simps [of P model cycle 0] split: sum.splits)
next
  case (Suc n)
  obtain acts' res' where r: "acquire_loop P model cycle n = (acts', res')" by (cases "acquire_loop P model cycle n")
  from Suc.IH [OF r] Suc.prems r show ?case
    by (auto simp: acquire_loop.simps [of P model cycle "Suc n"] split: sum.splits if_splits)
qed

text \<open>What a cycle does before the chat.\<close>

definition prelude :: "model_config \<Rightarrow> any_map option \<Rightarrow> string \<Rightarrow> provider_action list" where
  "prelude model data outcome = (if outcome \<noteq> '''' then [SessionEvent (UpstreamID model) outcome] else [])
     @ (case data of Some d \<Rightarrow> [SessionQuotas d] | None \<Rightarrow> []) @ [Ads]"

lemma prelude_facts [simp]: "acquisitions (prelude model data outcome) = 0" "chats (prelude model data outcome) = 0"
  "fresh_reader (prelude model data outcome) (Some b) = Some b"
  by (auto simp: prelude_def split: option.split)

lemma chat_of_Chat: "\<exists>lg ws. fst (chat_of P q cycle) = Chat lg ws"
  by (auto simp: chat_of_def split: prod.split)

text \<open>A cycle ends in one of four ways.\<close>

lemma cycle_cases:
  assumes "send_cycles P q model n = (acts, res)"
  obtains e where "acquire_loop P model (maxSessionRetries - n) maxCreateRetries = (acts, Inl e)" "res = Some e"
  | pre e where "acquire_loop P model (maxSessionRetries - n) maxCreateRetries = (pre, Inr e)" "fst e = None" "acts = pre" "res \<noteq> None"
  | pre s data outcome e where "acquire_loop P model (maxSessionRetries - n) maxCreateRetries = (pre, Inr (Some s, data, outcome))"
      "acts = pre @ prelude model data outcome" "res \<noteq> None"
  | pre s data outcome lg ws where "acquire_loop P model (maxSessionRetries - n) maxCreateRetries = (pre, Inr (Some s, data, outcome))"
      "chat_of P q (maxSessionRetries - n) = (Chat lg ws, res)" "acts = pre @ prelude model data outcome @ [RunsStarted, Chat lg ws]"
  | pre s data outcome lg ws e m acts' where "acquire_loop P model (maxSessionRetries - n) maxCreateRetries = (pre, Inr (Some s, data, outcome))"
      "chat_of P q (maxSessionRetries - n) = (Chat lg ws, Some e)" "session_error e" "n = Suc m" "send_cycles P q model m = (acts', res)"
      "acts = pre @ prelude model data outcome @ [RunsStarted, Chat lg ws, Evict (model_SessionID model), SessionEvent (UpstreamID model) (evictReason (Some e))] @ acts'"
proof -
  obtain pre out where a: "acquire_loop P model (maxSessionRetries - n) maxCreateRetries = (pre, out)"
    by (cases "acquire_loop P model (maxSessionRetries - n) maxCreateRetries")
  note s = assms [unfolded send_cycles.simps [of P q model n] a]
  show ?thesis
  proof (cases out)
    case (Inl e)
    then show ?thesis using s a that(1) by auto
  next
    case (Inr got)
    obtain sess data outcome where g: "got = (sess, data, outcome)" by (cases got)
    show ?thesis
    proof (cases sess)
      case None
      then have "acts = pre" "res = Some ''codebuff session is nil after acquisition''" using s Inr g by simp_all
      then show ?thesis using a Inr g None by (intro that(2) [of pre got]) simp_all
    next
      case sess: (Some ses)
      show ?thesis
      proof (cases "pe_runs P (maxSessionRetries - n)")
        case (Inl e)
        then have "acts = pre @ prelude model data outcome" "res \<noteq> None" using s \<open>out = Inr got\<close> g sess by (auto simp: prelude_def Let_def)
        then show ?thesis using a \<open>out = Inr got\<close> g sess by (intro that(3) [of pre ses data outcome]) simp_all
      next
        case runs: (Inr r)
        obtain chat e where c: "chat_of P q (maxSessionRetries - n) = (chat, e)" by (cases "chat_of P q (maxSessionRetries - n)")
        obtain lg ws where lg: "chat = Chat lg ws" using chat_of_Chat [of P q "maxSessionRetries - n"] c by auto
        have got: "acquire_loop P model (maxSessionRetries - n) maxCreateRetries = (pre, Inr (Some ses, data, outcome))" using a Inr g sess by simp
        show ?thesis
        proof (cases "\<exists>e' m. e = Some e' \<and> session_error e' \<and> n = Suc m")
          case False
          then have "acts = pre @ prelude model data outcome @ [RunsStarted, Chat lg ws]" "res = e"
            using s Inr g sess runs c lg by (auto simp: prelude_def Let_def split: option.splits nat.splits if_splits)
          then show ?thesis using got c lg by (intro that(4) [of pre ses data outcome lg ws]) simp_all
        next
          case True
          then obtain e' m where m: "e = Some e'" "session_error e'" "n = Suc m" by blast
          obtain acts' res' where r: "send_cycles P q model m = (acts', res')" by (cases "send_cycles P q model m")
          have "acts = pre @ prelude model data outcome @ [RunsStarted, Chat lg ws, Evict (model_SessionID model),
              SessionEvent (UpstreamID model) (evictReason (Some e'))] @ acts'" "res = res'"
            using s Inr g sess runs c lg m r by (auto simp: prelude_def Let_def)
          then show ?thesis using got c lg m r by (intro that(5) [of pre ses data outcome lg ws e' m acts']) simp_all
        qed
      qed
    qed
  qed
qed

lemma send_cycles_facts:
  "send_cycles P q model n = (acts, res) \<Longrightarrow> acquisitions acts \<le> Suc n * Suc maxCreateRetries \<and> chats acts \<le> Suc n \<and> fresh_reader acts (Some True) \<noteq> None"
proof (induction n arbitrary: acts res rule: less_induct)
  case (less n)
  show ?case
  proof (cases rule: cycle_cases [OF less.prems])
    case (5 pre s data outcome lg ws e m acts')
    have "acquisitions acts' \<le> Suc m * Suc maxCreateRetries \<and> chats acts' \<le> Suc m \<and> fresh_reader acts' (Some True) \<noteq> None"
      by (rule less.IH) (simp_all add: 5)
    with acquire_loop_facts [OF 5(1)] 5 show ?thesis by auto
  qed (auto dest!: acquire_loop_facts)
qed

text \<open>
  Property C11. A request makes at most four acquisitions of a session and two chats, and a session is never
  acquired again without an eviction in between.
\<close>

theorem provider_retries_bounded:
  "case SendRequestWithPayload P q of (acts, res) \<Rightarrow> acquisitions acts \<le> 4 \<and> chats acts \<le> 2 \<and> fresh_reader acts (Some True) \<noteq> None"
proof (cases "ResolveModel (pr_Model q)")
  case (Inr model)
  obtain acts res where s: "send_cycles P q model maxSessionRetries = (acts, res)" by (cases "send_cycles P q model maxSessionRetries")
  show ?thesis using send_cycles_facts [OF s] s Inr by (auto simp: SendRequestWithPayload_def maxSessionRetries_def maxCreateRetries_def)
qed (auto simp: SendRequestWithPayload_def)

section \<open>Nothing is answered twice\<close>

text \<open>What each chat handed on: its messages and the lines it wrote.\<close>

definition outputs :: "provider_action list \<Rightarrow> (sse_message list \<times> raw_write list) list" where
  "outputs = List.map_filter (\<lambda>a. case a of Chat lg ws \<Rightarrow> Some (lg_messages lg, ws) | _ \<Rightarrow> None)"

lemma outputs_simps [simp]:
  "outputs [] = []" "outputs (Acquire m # xs) = outputs xs" "outputs (Evict m # xs) = outputs xs" "outputs (SessionEvent m s # xs) = outputs xs"
  "outputs (CheckBlock e m # xs) = outputs xs" "outputs (SessionQuotas d # xs) = outputs xs" "outputs (Ads # xs) = outputs xs"
  "outputs (RunsStarted # xs) = outputs xs" "outputs (Chat lg ws # xs) = (lg_messages lg, ws) # outputs xs"
  by (simp_all add: outputs_def List.map_filter_simps)

lemma outputs_append [simp]: "outputs (xs @ ys) = outputs xs @ outputs ys"
  by (simp add: outputs_def List.map_filter_def)

lemma outputs_none: "chats acts = 0 \<Longrightarrow> outputs acts = []"
proof (induction acts)
  case (Cons a acts)
  then show ?case by (cases a) simp_all
qed simp

text \<open>The marks of a session error have no blank, so a text before a blank neither adds one nor takes one away.\<close>

lemma session_error_blank:
  assumes "session_error (a @ '' '' @ e)" and "\<not> session_error a"
  shows "session_error e"
proof -
  have "contains a m \<or> contains e m" if "contains (a @ '' '' @ e) m" "set m \<inter> set '' '' = {}" for m
    by (rule contains_split [OF that]) simp
  note c = this [of "''waiting_room_required''"] this [of "''model_locked''"] this [of "''session_model_mismatch''"]
  have "contains e ''waiting_room_required'' \<or> contains e ''model_locked'' \<or> contains e ''session_model_mismatch''"
    using assms c unfolding session_error_def IsWaitingRoomRequired_def IsModelLocked_def by auto
  then show ?thesis by (simp add: session_error_def IsWaitingRoomRequired_def IsModelLocked_def)
qed

lemma stream_error_marks: "session_error (''codebuff stream error: '' @ e) \<Longrightarrow> session_error e"
  by (rule session_error_blank [of "''codebuff stream error:''"]) (simp, code_simp)

lemma chunk_error_marks: "session_error (''failed to parse SSE chunk: '' @ e) \<Longrightarrow> session_error e"
  by (rule session_error_blank [of "''failed to parse SSE chunk:''"]) (simp, code_simp)

lemma next_fails: "parser_Next json ord ending lines sp = (ReadFailed e, rest, sp')
    \<Longrightarrow> ending = Some e \<or> (\<exists>data e'. json data = Inl e' \<and> e = ''failed to parse SSE chunk: '' @ e')"
  by (induction lines arbitrary: sp) (auto simp: Let_def split: if_splits sum.splits prod.splits option.splits)

lemma stream_loop_fails: "stream_loop json ord ending lines sp est acc = (lg, Some e)
    \<Longrightarrow> \<exists>e'. e = ''codebuff stream error: '' @ e' \<and> (ending = Some e' \<or> (\<exists>data d. json data = Inl d \<and> e' = ''failed to parse SSE chunk: '' @ d))"
proof (induction json ord ending lines sp est acc rule: stream_loop.induct)
  case (1 json ord ending lines sp est acc)
  obtain r rest sp' where n: "parser_Next json ord ending lines sp = (r, rest, sp')" by (cases "parser_Next json ord ending lines sp")
  show ?case
  proof (cases r)
    case (Messages msgs)
    obtain sent est' fin where f: "forward msgs est = (sent, est', fin)" by (cases "forward msgs est")
    show ?thesis using 1 n Messages f by (auto simp: stream_loop.simps [of json ord ending lines] Let_def split: option.splits)
  next
    case (ReadFailed e')
    then show ?thesis using 1(2) n next_fails [of json ord ending lines sp e' rest sp'] by (auto simp: stream_loop.simps [of json ord ending lines])
  qed (use 1(2) n in \<open>simp add: stream_loop.simps [of json ord ending lines]\<close>)
qed

lemma raw_loop_fails: "raw_loop R ending lines saw n = (ws, n', Some e) \<Longrightarrow> ending = Some e"
  by (induction lines arbitrary: saw n ws n') (auto simp: Let_def split: if_splits prod.splits)

lemma session_error_quiet:
  assumes reader: "\<And>lines e. pe_chat P cycle = Inr (lines, Some e) \<Longrightarrow> \<not> session_error e"
    and json: "\<And>data e. pe_json P data = Inl e \<Longrightarrow> \<not> session_error e"
    and chat: "chat_of P q cycle = (Chat lg ws, Some e)" "session_error e"
  shows "lg_messages lg = [] \<and> ws = []"
proof (cases "pr_Stream q")
  case False
  then show ?thesis using chat by (auto simp: chat_of_def completeChat_def rejected_def no_log_def split: sum.splits prod.splits)
next
  case stream: True
  show ?thesis
  proof (cases "pe_chat P cycle")
    case (Inl e')
    then show ?thesis using chat stream
      by (auto simp: chat_of_def streamChat_def streamChatRaw_def rejected_def no_log_def split: if_splits)
  next
    case (Inr body)
    obtain lines ending where b: "body = (lines, ending)" by (cases body)
    have "\<not> session_error e"
    proof (cases "pr_raw q")
      case True
      then obtain n e' where "raw_loop (pe_raw P) ending lines False \<lparr>rc_estimator = new_estimator, rc_usage = 0, rc_id = ''''\<rparr> = (ws, n, Some e')"
          "e = ''codebuff stream error: '' @ e'"
        using chat stream Inr b by (auto simp: chat_of_def streamChatRaw_def split: prod.splits)
      then show ?thesis using raw_loop_fails reader Inr b stream_error_marks by blast
    next
      case False
      then have "stream_loop (pe_json P) (pe_order P) ending lines new_parser new_estimator no_log = (lg, Some e)"
        using chat stream Inr b by (auto simp: chat_of_def streamChat_def split: prod.splits)
      from stream_loop_fails [OF this] show ?thesis using reader json Inr b stream_error_marks chunk_error_marks by blast
    qed
    with chat(2) show ?thesis by simp
  qed
qed

lemma cycles_quiet:
  assumes "\<And>cycle lines e. pe_chat P cycle = Inr (lines, Some e) \<Longrightarrow> \<not> session_error e"
    and "\<And>data e. pe_json P data = Inl e \<Longrightarrow> \<not> session_error e"
  shows "send_cycles P q model n = (acts, res) \<Longrightarrow> set (butlast (outputs acts)) \<subseteq> {([], [])}"
proof (induction n arbitrary: acts res rule: less_induct)
  case (less n)
  show ?case
  proof (cases rule: cycle_cases [OF less.prems])
    case (5 pre s data outcome lg ws e m acts')
    have "set (butlast (outputs acts')) \<subseteq> {([], [])}" by (rule less.IH [OF _ 5(5)]) (simp add: 5(4))
    moreover have "lg_messages lg = [] \<and> ws = []" by (rule session_error_quiet [OF assms 5(2,3)])
    ultimately show ?thesis using acquire_loop_facts [OF 5(1)] by (simp add: 5 outputs_none)
  qed (auto dest!: acquire_loop_facts simp: outputs_none)
qed

text \<open>
  Property C12. A chat that is retried has answered nothing: when neither the reader of the answer nor the JSON
  decoder reports an error with a mark of a session error, every chat of a request but the last one hands on no
  message and writes no line, so the client never sees a part of the answer twice.
\<close>

theorem retried_chats_silent:
  assumes "\<And>cycle lines e. pe_chat P cycle = Inr (lines, Some e) \<Longrightarrow> \<not> session_error e"
    and "\<And>data e. pe_json P data = Inl e \<Longrightarrow> \<not> session_error e"
  shows "set (butlast (outputs (fst (SendRequestWithPayload P q)))) \<subseteq> {([], [])}"
proof (cases "ResolveModel (pr_Model q)")
  case (Inr model)
  then show ?thesis using cycles_quiet [OF assms surjective_pairing] by (simp add: SendRequestWithPayload_def)
qed (simp add: SendRequestWithPayload_def)

section \<open>Runs are closed\<close>

definition finishes :: "api_call list \<Rightarrow> string list" where
  "finishes = List.map_filter (\<lambda>c. case c of AFinish r n \<Rightarrow> Some r | _ \<Rightarrow> None)"

definition steps_of :: "string \<Rightarrow> api_call list \<Rightarrow> nat" where
  "steps_of r calls = length (filter (\<lambda>c. case c of AStep r' n cs m started \<Rightarrow> r' = r | _ \<Rightarrow> False) calls)"

text \<open>Of a run, the number of steps a finish reports is the number of steps recorded, counting the finish itself.\<close>

definition finish_counts :: "api_call list \<Rightarrow> bool" where
  "finish_counts calls \<longleftrightarrow> (\<forall>r n. AFinish r n \<in> set calls \<longrightarrow> n = int (steps_of r calls) + 1)"

lemma StartRun_nonempty: "StartRun http fmt agent ancestors w = (Inr r, w') \<Longrightarrow> r \<noteq> ''''"
  by (auto simp: StartRun_def Let_def split: prod.splits sum.splits if_splits)

text \<open>
  Property C13. A chain of runs that was started and then finalised finishes each of its two runs once: the
  background calls of the start and the calls of \<open>FinalizeRun\<close> together hold exactly one finish for the parent
  run and one for the child, and each finish reports the steps recorded for its run and itself. The upstream has
  to give the two runs different ids.
\<close>

theorem runs_closed:
  assumes "StartRunChain http fmt at1 at2 model w = (Inr (r, bg), w')" and "rn_ChildRunID r \<noteq> rn_RunID r"
  shows "distinct (finishes (bg @ FinalizeRun r messageID)) \<and> set (finishes (bg @ FinalizeRun r messageID)) = {rn_RunID r, rn_ChildRunID r}
    \<and> finish_counts (bg @ FinalizeRun r messageID)"
proof -
  have ne: "rn_ChildRunID r \<noteq> ''''"
    using assms(1) by (auto simp: StartRunChain_def startStandardRunChain_def startChildChatRunChain_def
        dest: StartRun_nonempty split: prod.splits sum.splits if_splits)
  then have "rn_ChatRunID r = '''' \<and> (\<exists>m1 m2. bg = [AStep (rn_ChildRunID r) 1 None '''' m1, AFinish (rn_ChildRunID r) 2, AStep (rn_RunID r) 1 (Some [rn_ChildRunID r]) '''' m2])
      \<or> rn_ChatRunID r = rn_ChildRunID r \<and> bg = []"
    using assms(1) by (auto simp: StartRunChain_def startStandardRunChain_def startChildChatRunChain_def split: prod.splits sum.splits if_splits)
  then show ?thesis
    using assms(2) ne by (auto simp: FinalizeRun_def finishes_def List.map_filter_simps finish_counts_def steps_of_def)
qed

section \<open>Blocks and delays\<close>

lemma Parse429Body_model: "Parse429Body decode rfc now (Some e) = Inr (Some b) \<Longrightarrow> mb_Model b \<noteq> ''''"
  by (auto simp: Parse429Body_def Let_def split: option.splits sum.splits if_splits)

text \<open>Every outcome that the provider books is a field that telemetry knows.\<close>

lemma outcomes_known: "gm_get sessionField (evictReason e) \<noteq> None" "gm_get sessionField ''create'' \<noteq> None" "gm_get sessionField ''reuse'' \<noteq> None"
  by (simp_all add: evictReason_def sessionField_def)

text \<open>The model the client asked for never decides which model is blocked.\<close>

lemma block_model_upstream:
  "recordBlockIf429 qs decode rfc up now acc err m r = recordBlockIf429 qs decode rfc up now acc err m' r"
  by (auto simp: recordBlockIf429_def Let_def split: option.splits sum.splits request_error.splits dest!: Parse429Body_model)

lemma queuePollDelay_bounds: "250 * millisecond \<le> queuePollDelay wait \<and> queuePollDelay wait \<le> 2 * second"
proof -
  have "minQueuePollDelay \<le> maxQueuePollDelay" by (simp add: minQueuePollDelay_def maxQueuePollDelay_def second_def millisecond_def)
  then have "minQueuePollDelay \<le> queuePollDelay wait \<and> queuePollDelay wait \<le> maxQueuePollDelay"
    by (auto simp: queuePollDelay_def Let_def split: option.split any.split)
  then show ?thesis by (simp add: minQueuePollDelay_def maxQueuePollDelay_def)
qed

section \<open>Instances\<close>

definition busy_provider :: provider_env where
  "busy_provider = \<lparr>pe_acquire = (\<lambda>c a. Inr (Some \<lparr>us_InstanceID = ''i'', us_Model = ''m'', us_ExpiresAt = '''', us_RemainingMs = 0\<rparr>, None, ''reuse'')),
     pe_runs = (\<lambda>c. Inr \<lparr>rn_RunID = ''r'', rn_AgentID = ''a'', rn_StartedAt = '''', rn_ChildRunID = ''c'', rn_ChatRunID = '''', rn_ChatStartedAt = ''''\<rparr>),
     pe_chat = (\<lambda>c. if c = 0 then Inl ''model_locked'' else Inr ([], Some ''bad'')), pe_completion = (\<lambda>c. Inl ''''), pe_json = (\<lambda>s. Inl ''bad''),
     pe_order = (\<lambda>xs. xs), pe_raw = \<lparr>rl_tokens = (\<lambda>s. None), rl_chunk_id = (\<lambda>s. None)\<rparr>, pe_decode = (\<lambda>s. Inl '''')\<rparr>"

lemma retried_chats_silent_witness:
  "set (butlast (outputs (fst (SendRequestWithPayload busy_provider \<lparr>pr_Model = '''', pr_Stream = True, pr_raw = False\<rparr>)))) \<subseteq> {([], [])}"
proof (rule retried_chats_silent)
  have bad: "\<not> session_error ''bad''" by code_simp
  show "\<not> session_error e" if "pe_chat busy_provider cycle = Inr (lines, Some e)" for cycle lines e
    using that bad by (auto simp: busy_provider_def split: if_splits)
  show "\<not> session_error e" if "pe_json busy_provider data = Inl e" for data e
    using that bad by (auto simp: busy_provider_def)
qed

definition some_http :: "nat http" where
  "some_http call n = (Inr [(''runId'', AStr (replicate (Suc n) CHR ''r''))], Suc n)"

lemma runs_closed_witness:
  "case StartRunChain some_http (\<lambda>d. '''') ''t'' ''u'' DEFAULT_MODEL 0 of
     (Inr (r, bg), w) \<Rightarrow> distinct (finishes (bg @ FinalizeRun r ''m'')) \<and> set (finishes (bg @ FinalizeRun r ''m'')) = {''r'', ''rr''}
       \<and> finish_counts (bg @ FinalizeRun r ''m'')
   | _ \<Rightarrow> False"
proof -
  let ?r = "\<lparr>rn_RunID = ''r'', rn_AgentID = mc_AgentID DEFAULT_MODEL, rn_StartedAt = ''t'', rn_ChildRunID = ''rr'', rn_ChatRunID = '''', rn_ChatStartedAt = ''''\<rparr>"
  let ?bg = "[AStep ''rr'' 1 None '''' ''u'', AFinish ''rr'' 2, AStep ''r'' 1 (Some [''rr'']) '''' ''t'']"
  have p: "mc_ParentAgentID DEFAULT_MODEL = ''''" by code_simp
  have s: "StartRunChain some_http (\<lambda>d. '''') ''t'' ''u'' DEFAULT_MODEL 0 = (Inr (?r, ?bg), 2)"
    by (simp add: StartRunChain_def startStandardRunChain_def StartRun_def some_http_def str_field_def p Let_def numeral_2_eq_2)
  from runs_closed [OF s] show ?thesis by (simp add: s)
qed

end
