(* ===== verification/Configuration.thy ===== *)
theory Configuration
  imports Redis_Server
begin

text \<open>
  \<open>internal/config/config.go\<close>: the configuration, its defaults, the values that no file can change,
  the reader of flat YAML files, and \<open>Load\<close>. The file system and the JSON library are parameters.
\<close>

section \<open>The configuration\<close>

record config =
  cfg_Port :: string
  cfg_DebugEnabled :: bool
  cfg_VerboseDiagnostics :: bool
  cfg_AdminUser :: string
  cfg_AdminPass :: string
  cfg_AdminPath :: string
  cfg_AdminToken :: string
  cfg_StoreMode :: string
  cfg_RedisAddr :: string
  cfg_RedisPassword :: string
  cfg_RedisDB :: int
  cfg_RedisPrefix :: string
  cfg_CacheTokenCount :: bool
  cfg_CacheTTL :: int
  cfg_CacheStrategy :: string
  cfg_EnableTokenCache :: bool
  cfg_TokenCacheTTL :: int
  cfg_TokenCacheStrategy :: string
  cfg_CodebuffEnabled :: bool
  cfg_CodebuffBaseURL :: string
  cfg_CodebuffAdProviders :: "string list"
  cfg_CodebuffSessionID :: string
  cfg_CodebuffClientID :: string
  cfg_CodebuffTimezone :: string
  cfg_CodebuffLocale :: string
  cfg_CodebuffOS :: string
  cfg_ZeroclickBaseURL :: string
  cfg_KimchiEnabled :: bool
  cfg_KimchiBaseURL :: string
  cfg_SessionID :: string
  cfg_ClientCookie :: string
  cfg_SessionCookie :: string
  cfg_ClientUat :: string
  cfg_ProjectID :: string
  cfg_UserID :: string
  cfg_AgentMode :: string
  cfg_Email :: string
  cfg_DebugLogSSE :: bool
  cfg_SuppressThinking :: bool
  cfg_OutputTokenMode :: string
  cfg_ContextMaxTokens :: int
  cfg_ContextSummaryMaxTokens :: int
  cfg_ContextKeepTurns :: int
  cfg_UpstreamURL :: string
  cfg_UpstreamToken :: string
  cfg_UpstreamMode :: string
  cfg_Stream :: "bool option"
  cfg_ImageNSFW :: "bool option"
  cfg_ImageFinalMinBytes :: int
  cfg_ImageMediumMinBytes :: int
  cfg_MaxRetries :: int
  cfg_RetryDelay :: int
  cfg_AccountSwitchCount :: int
  cfg_RequestTimeout :: int
  cfg_Retry429Interval :: int
  cfg_TokenRefreshInterval :: int
  cfg_AutoRefreshToken :: bool
  cfg_OutputTokenCount :: bool
  cfg_LoadBalancerCacheTTL :: int
  cfg_ConcurrencyLimit :: int
  cfg_ConcurrencyTimeout :: int
  cfg_AdaptiveTimeout :: bool
  cfg_ProxyURL :: string
  cfg_ProxyHTTP :: string
  cfg_ProxyHTTPS :: string
  cfg_ProxyUser :: string
  cfg_ProxyPass :: string
  cfg_ProxyBypass :: "string list"
  cfg_AutoRegEnabled :: bool
  cfg_AutoRegThreshold :: int
  cfg_AutoRegScript :: string
  cfg_PublicKey :: string
  cfg_PublicEnabled :: "bool option"

text \<open>The zero value of the structure.\<close>

definition zero_config :: config where
  "zero_config = \<lparr>
    cfg_Port = '''', cfg_DebugEnabled = False, cfg_VerboseDiagnostics = False, cfg_AdminUser = '''', cfg_AdminPass = '''',
    cfg_AdminPath = '''', cfg_AdminToken = '''', cfg_StoreMode = '''', cfg_RedisAddr = '''', cfg_RedisPassword = '''',
    cfg_RedisDB = 0, cfg_RedisPrefix = '''', cfg_CacheTokenCount = False, cfg_CacheTTL = 0, cfg_CacheStrategy = '''',
    cfg_EnableTokenCache = False, cfg_TokenCacheTTL = 0, cfg_TokenCacheStrategy = '''', cfg_CodebuffEnabled = False,
    cfg_CodebuffBaseURL = '''', cfg_CodebuffAdProviders = [], cfg_CodebuffSessionID = '''', cfg_CodebuffClientID = '''',
    cfg_CodebuffTimezone = '''', cfg_CodebuffLocale = '''', cfg_CodebuffOS = '''', cfg_ZeroclickBaseURL = '''',
    cfg_KimchiEnabled = False, cfg_KimchiBaseURL = '''', cfg_SessionID = '''', cfg_ClientCookie = '''',
    cfg_SessionCookie = '''', cfg_ClientUat = '''', cfg_ProjectID = '''', cfg_UserID = '''', cfg_AgentMode = '''',
    cfg_Email = '''', cfg_DebugLogSSE = False, cfg_SuppressThinking = False, cfg_OutputTokenMode = '''',
    cfg_ContextMaxTokens = 0, cfg_ContextSummaryMaxTokens = 0, cfg_ContextKeepTurns = 0, cfg_UpstreamURL = '''',
    cfg_UpstreamToken = '''', cfg_UpstreamMode = '''', cfg_Stream = None, cfg_ImageNSFW = None, cfg_ImageFinalMinBytes = 0,
    cfg_ImageMediumMinBytes = 0, cfg_MaxRetries = 0, cfg_RetryDelay = 0, cfg_AccountSwitchCount = 0, cfg_RequestTimeout = 0,
    cfg_Retry429Interval = 0, cfg_TokenRefreshInterval = 0, cfg_AutoRefreshToken = False, cfg_OutputTokenCount = False,
    cfg_LoadBalancerCacheTTL = 0, cfg_ConcurrencyLimit = 0, cfg_ConcurrencyTimeout = 0, cfg_AdaptiveTimeout = False,
    cfg_ProxyURL = '''', cfg_ProxyHTTP = '''', cfg_ProxyHTTPS = '''', cfg_ProxyUser = '''', cfg_ProxyPass = '''',
    cfg_ProxyBypass = [], cfg_AutoRegEnabled = False, cfg_AutoRegThreshold = 0, cfg_AutoRegScript = '''',
    cfg_PublicKey = '''', cfg_PublicEnabled = None\<rparr>"

section \<open>Defaults\<close>

definition hardcoded_limits :: "config \<Rightarrow> config" where
  "hardcoded_limits cfg = cfg\<lparr>cfg_OutputTokenMode := ''final'', cfg_UpstreamMode := ''ws'', cfg_ContextMaxTokens := 100000,
     cfg_ContextSummaryMaxTokens := 800, cfg_ContextKeepTurns := 6, cfg_Stream := Some True, cfg_ImageNSFW := Some True,
     cfg_PublicEnabled := Some True, cfg_ImageFinalMinBytes := 100000, cfg_ImageMediumMinBytes := 30000\<rparr>"

definition hardcoded_retries :: "config \<Rightarrow> config" where
  "hardcoded_retries cfg = cfg\<lparr>cfg_MaxRetries := 3, cfg_RetryDelay := 1000, cfg_AccountSwitchCount := 5, cfg_RequestTimeout := 600,
     cfg_Retry429Interval := 60, cfg_TokenRefreshInterval := 1, cfg_AutoRefreshToken := True, cfg_LoadBalancerCacheTTL := 5,
     cfg_ConcurrencyLimit := 100, cfg_ConcurrencyTimeout := 300, cfg_AdaptiveTimeout := True, cfg_AutoRegThreshold := 5,
     cfg_AutoRegScript := ''scripts/autoreg.py''\<rparr>"

definition ApplyHardcoded :: "config \<Rightarrow> config" where
  "ApplyHardcoded cfg = (let cfg = hardcoded_retries (hardcoded_limits cfg) in cfg\<lparr>cfg_DebugLogSSE := cfg_DebugEnabled cfg\<rparr>)"

text \<open>
  A password of the given length from random bytes: \<open>rand n\<close> is what \<open>rand.Read\<close> puts into a buffer of
  \<open>n\<close> bytes; the program ends when it fails.
\<close>

definition hex_encode :: "string \<Rightarrow> string" where
  "hex_encode s = concat (map (\<lambda>c. let b = of_char c :: nat in
     [''0123456789abcdef'' ! (b div 16), ''0123456789abcdef'' ! (b mod 16)]) s)"

definition generateRandomPassword :: "(nat \<Rightarrow> string) \<Rightarrow> nat \<Rightarrow> string" where
  "generateRandomPassword rand len =
    (let encoded = hex_encode (rand ((len + 1) div 2)) in if len < length encoded then take len encoded else encoded)"

text \<open>The defaults fill in what is empty; every test of the code reads only the field that it then sets.\<close>

definition default_string :: "string \<Rightarrow> string \<Rightarrow> string" where
  "default_string d v = (if v = '''' then d else v)"

definition ApplyDefaults :: "(nat \<Rightarrow> string) \<Rightarrow> config \<Rightarrow> config" where
  "ApplyDefaults rand cfg = ApplyHardcoded (cfg\<lparr>
     cfg_Port := default_string ''3002'' (cfg_Port cfg),
     cfg_AdminUser := default_string ''admin'' (cfg_AdminUser cfg),
     cfg_AdminPass := default_string (generateRandomPassword rand 16) (cfg_AdminPass cfg),
     cfg_AdminPath := default_string ''/admin'' (cfg_AdminPath cfg),
     cfg_StoreMode := default_string ''redis'' (cfg_StoreMode cfg),
     cfg_RedisPrefix := default_string ''warp:'' (cfg_RedisPrefix cfg),
     cfg_CacheTTL := (if cfg_CacheTTL cfg \<le> 0 then 5 else cfg_CacheTTL cfg),
     cfg_CacheStrategy := (if trim_space (cfg_CacheStrategy cfg) = '''' then ''mix'' else cfg_CacheStrategy cfg),
     cfg_TokenCacheTTL := (if cfg_TokenCacheTTL cfg \<le> 0 then 300 else cfg_TokenCacheTTL cfg),
     cfg_TokenCacheStrategy := (if trim_space (cfg_TokenCacheStrategy cfg) = '''' then ''1'' else cfg_TokenCacheStrategy cfg)\<rparr>)"

section \<open>Accessors\<close>

definition VerboseDiagnosticsEnabled :: "config option \<Rightarrow> bool" where
  "VerboseDiagnosticsEnabled c = (case c of None \<Rightarrow> False | Some c \<Rightarrow> cfg_DebugEnabled c \<and> cfg_VerboseDiagnostics c)"

definition ChatDefaultStream :: "config option \<Rightarrow> bool" where
  "ChatDefaultStream c = (case Option.bind c cfg_Stream of None \<Rightarrow> True | Some b \<Rightarrow> b)"

definition PublicImagineNSFW :: "config option \<Rightarrow> bool" where
  "PublicImagineNSFW c = (case Option.bind c cfg_ImageNSFW of None \<Rightarrow> True | Some b \<Rightarrow> b)"

definition PublicImagineFinalMinBytes :: "config option \<Rightarrow> int" where
  "PublicImagineFinalMinBytes c = (case c of None \<Rightarrow> 100000
     | Some c \<Rightarrow> if cfg_ImageFinalMinBytes c \<le> 0 then 100000 else cfg_ImageFinalMinBytes c)"

definition PublicImagineMediumMinBytes :: "config option \<Rightarrow> int" where
  "PublicImagineMediumMinBytes c = (case c of None \<Rightarrow> 30000
     | Some c \<Rightarrow> if cfg_ImageMediumMinBytes c \<le> 0 then 30000 else cfg_ImageMediumMinBytes c)"

definition PublicAPIKey :: "config option \<Rightarrow> string" where
  "PublicAPIKey c = (case c of None \<Rightarrow> '''' | Some c \<Rightarrow> trim_space (cfg_PublicKey c))"

definition PublicAPIEnabled :: "config option \<Rightarrow> bool" where
  "PublicAPIEnabled c = (case Option.bind c cfg_PublicEnabled of None \<Rightarrow> False | Some b \<Rightarrow> b)"


section \<open>Flat YAML\<close>

text \<open>The lines a \<open>bufio.Scanner\<close> yields: none from a line on that does not fit its buffer of 64 KiB.\<close>

definition max_line :: nat where "max_line = 65536"

fun split_lines :: "string \<Rightarrow> string list" where
  "split_lines [] = [[]]"
| "split_lines (c # s) = (if c = CHR 0x0A then [] # split_lines s
     else (case split_lines s of [] \<Rightarrow> [[c]] | l # ls \<Rightarrow> (c # l) # ls))"

definition scan_lines :: "string \<Rightarrow> string list \<times> bool" where
  "scan_lines s = (let ls = split_lines s in
     (takeWhile (\<lambda>l. length l < max_line) ls, list_all (\<lambda>l. length l < max_line) ls))"

definition index_sub :: "string \<Rightarrow> string \<Rightarrow> nat option" where
  "index_sub s p = find (\<lambda>i. has_prefix (drop i s) p) [0..<Suc (length s)]"

definition trim_cutset :: "(char \<Rightarrow> bool) \<Rightarrow> string \<Rightarrow> string" where
  "trim_cutset p s = rev (trim_head p (rev (trim_head p s)))"

datatype yaml_value = YStr string | YBool bool | YInt int

definition strip_comment :: "string \<Rightarrow> string" where
  "strip_comment line = (case index_sub line '' #'' of
     Some idx \<Rightarrow> trim_space (take idx line)
   | None \<Rightarrow> (case index_sub line (CHR 0x09 # ''#'') of Some idx \<Rightarrow> trim_space (take idx line) | None \<Rightarrow> line))"

definition yaml_scalar :: "string \<Rightarrow> yaml_value" where
  "yaml_scalar value =
    (if value = '''' then YStr ''''
     else if value = ''true'' \<or> value = ''false'' then YBool (value = ''true'')
     else (case parse_int64 value of Some num \<Rightarrow> YInt num | None \<Rightarrow> YStr value))"

text \<open>One line: skipped, a binding, or invalid.\<close>

definition yaml_line :: "string \<Rightarrow> (string + (string \<times> yaml_value) option)" where
  "yaml_line txt =
    (let line = trim_space txt in
     if line = '''' \<or> has_prefix line ''#'' then Inr None
     else let line = strip_comment line in
       if line = '''' then Inr None
       else (case index_byte line CHR '':'' of
           None \<Rightarrow> Inl line
         | Some i \<Rightarrow>
            let key = trim_space (take i line); value = trim_cutset (\<lambda>c. c = CHR 0x22 \<or> c = CHR 0x27) (trim_space (drop (Suc i) line))
            in Inr (if key = '''' then None else Some (key, yaml_scalar value))))"

datatype config_error = NoConfigFile | ReadFailed | InvalidYamlLine string | LineTooLong | DecodeFailed | UnsupportedExtension string

fun yaml_lines :: "string list \<Rightarrow> (string, yaml_value) gomap \<Rightarrow> config_error + (string, yaml_value) gomap" where
  "yaml_lines [] out = Inr out"
| "yaml_lines (l # ls) out = (case yaml_line l of
     Inl line \<Rightarrow> Inl (InvalidYamlLine line)
   | Inr None \<Rightarrow> yaml_lines ls out
   | Inr (Some (k, v)) \<Rightarrow> yaml_lines ls (gm_put k v out))"

definition parseYAMLFlat :: "string \<Rightarrow> config_error + (string, yaml_value) gomap" where
  "parseYAMLFlat data = (case scan_lines data of (ls, complete) \<Rightarrow>
     (case yaml_lines ls [] of
        Inl e \<Rightarrow> Inl e
      | Inr out \<Rightarrow> if complete then Inr out else Inl LineTooLong))"

section \<open>Load\<close>






section \<open>What holds of a loaded configuration\<close>





lemma hex_length: "length (hex_encode s) = 2 * length s"
  by (induction s) (simp_all add: hex_encode_def Let_def)

lemma password_length: "length (rand 8) = 8 \<Longrightarrow> length (generateRandomPassword rand 16) = 16"
  by (simp add: generateRandomPassword_def hex_length)

lemmas defaults_defs = ApplyDefaults_def ApplyHardcoded_def hardcoded_limits_def hardcoded_retries_def

lemma default_strategies: "trim_space ''mix'' = ''mix''" "trim_space ''1'' = ''1''"
  by (rule trim_space_id; simp add: printable_def)+


text \<open>
  The defaults are applied once: applying them again, with whatever random bytes, changes
  nothing.
\<close>

theorem defaults_idempotent:
  assumes "length (rand 8) = 8"
  shows "ApplyDefaults rand' (ApplyDefaults rand cfg) = ApplyDefaults rand cfg"
proof -
  have p: "generateRandomPassword rand 16 \<noteq> ''''" using password_length [of rand] assms by auto
  show ?thesis
    using p by (simp add: defaults_defs default_string_def Let_def default_strategies)
qed


section \<open>Files written by hand\<close>

text \<open>Words that need no quotes: printable, without a colon, a hash or a quote.\<close>

definition word_char :: "char \<Rightarrow> bool" where
  "word_char c \<longleftrightarrow> printable c \<and> c \<noteq> CHR '':'' \<and> c \<noteq> CHR ''#'' \<and> c \<noteq> CHR 0x22 \<and> c \<noteq> CHR 0x27"

definition plain_word :: "string \<Rightarrow> bool" where
  "plain_word s \<longleftrightarrow> s \<noteq> '''' \<and> list_all word_char s"

definition yaml_entry :: "string \<times> string \<Rightarrow> string" where
  "yaml_entry kv = fst kv @ '': '' @ snd kv"

lemma word_ends:
  assumes "plain_word s"
  shows "word_char (hd s)" "word_char (last s)" "trim_space s = s"
proof -
  show h: "word_char (hd s)" "word_char (last s)" using assms by (auto simp: plain_word_def list_all_iff)
  show "trim_space s = s" by (rule trim_space_id) (use h in \<open>auto simp: word_char_def\<close>)
qed

lemma index_sub_none: "c \<in> set p \<Longrightarrow> c \<notin> set s \<Longrightarrow> index_sub s p = None"
  by (auto simp: index_sub_def find_None_iff has_prefix_def dest: set_mono_prefix in_set_dropD)

lemma index_byte_append: "c \<notin> set a \<Longrightarrow> index_byte (a @ c # t) c = Some (length a)"
  by (induction a) auto

lemma trim_blank: "plain_word v \<Longrightarrow> trim_space (CHR 0x20 # v) = v"
proof -
  assume v: "plain_word v"
  then obtain c t where ct: "v = c # t" by (cases v) (auto simp: plain_word_def)
  have es: "list_all (\<lambda>e. e \<noteq> [] \<and> \<not> printable (hd e)) space_encodings"
    "list_all (\<lambda>e. e \<noteq> [] \<and> \<not> printable (hd e)) (map rev space_encodings)"
    using space_encodings_not_printable by simp_all
  have "strip_one space_encodings (CHR 0x20 # v) = Some v"
    by (simp add: space_encodings_def bytes_of_def char_of_def bit_0)
  then have "strip_all space_encodings (CHR 0x20 # v) = strip_all space_encodings v"
    by (simp add: strip_all.simps [of space_encodings "CHR 0x20 # v"])
  then have "trim_space (CHR 0x20 # v) = trim_space v" by (simp add: trim_space_def)
  then show ?thesis using word_ends(3) [OF v] by simp
qed

lemma trim_cutset_word: "plain_word v \<Longrightarrow> trim_cutset (\<lambda>c. c = CHR 0x22 \<or> c = CHR 0x27) v = v"
proof -
  assume v: "plain_word v"
  have "trim_head p s = s" if "s \<noteq> [] \<longrightarrow> \<not> p (hd s)" for p :: "char \<Rightarrow> bool" and s
    using that by (cases s) auto
  then show ?thesis using word_ends(1,2) [OF v] by (simp add: trim_cutset_def word_char_def hd_rev)
qed

lemma yaml_line_entry:
  assumes "plain_word k" and "plain_word v"
  shows "yaml_line (yaml_entry (k, v)) = Inr (Some (k, yaml_scalar v))"
proof -
  let ?l = "k @ CHR '':'' # CHR 0x20 # v"
  have k: "k \<noteq> []" "CHR '':'' \<notin> set k" "hd k \<noteq> CHR ''#''" and hash: "CHR ''#'' \<notin> set ?l"
    using assms by (auto simp: plain_word_def list_all_iff word_char_def dest: hd_in_set)
  have t: "trim_space ?l = ?l"
    by (rule trim_space_id) (use word_ends [OF assms(1)] word_ends [OF assms(2)] assms in
        \<open>auto simp: word_char_def plain_word_def\<close>)
  have "strip_comment ?l = ?l"
    using index_sub_none [OF _ hash] by (simp add: strip_comment_def)
  moreover have "\<not> has_prefix ?l ''#''" using k by (cases k) (auto simp: has_prefix_def)
  ultimately show ?thesis
    using k t index_byte_append [OF k(2), of "CHR 0x20 # v"] word_ends(3) [OF assms(1)] trim_blank [OF assms(2)] trim_cutset_word [OF assms(2)]
    by (simp add: yaml_line_def yaml_entry_def Let_def)
qed

lemma split_lines_append: "CHR 0x0A \<notin> set l \<Longrightarrow> split_lines (l @ CHR 0x0A # s) = l # split_lines s"
  by (induction l) auto

text \<open>
  A file of \<open>key: value\<close> lines of plain words is read as the map of its last binding of each key,
  with the numbers and the two truth values typed as such: round trip of the flat YAML reader.
\<close>

theorem yaml_reads_written:
  assumes "list_all (\<lambda>(k, v). plain_word k \<and> plain_word v \<and> length k + length v < 65534) kvs"
  shows "parseYAMLFlat (concat (map (\<lambda>kv. yaml_entry kv @ [CHR 0x0A]) kvs))
    = Inr (fold (\<lambda>(k, v). gm_put k (yaml_scalar v)) kvs [])"
proof -
  have newline: "CHR 0x0A \<notin> set (yaml_entry kv)" "length (yaml_entry kv) < max_line" if kv: "kv \<in> set kvs" for kv
  proof -
    obtain k v where e: "kv = (k, v)" by (cases kv)
    have p: "plain_word k" "plain_word v" "length k + length v < 65534"
      using kv assms unfolding e by (auto simp: list_all_iff)
    have "\<not> word_char CHR 0x0A" by (simp add: word_char_def printable_def)
    then show "CHR 0x0A \<notin> set (yaml_entry kv)"
      using p(1,2) unfolding e by (auto simp: plain_word_def list_all_iff yaml_entry_def)
    show "length (yaml_entry kv) < max_line" using p(3) unfolding e by (simp add: yaml_entry_def max_line_def)
  qed
  then have s: "split_lines (concat (map (\<lambda>kv. yaml_entry kv @ [CHR 0x0A]) kvs)) = map yaml_entry kvs @ [[]]"
    by (induction kvs) (auto simp: split_lines_append)
  have short: "\<forall>l \<in> set (map yaml_entry kvs @ [[]]). length l < max_line"
    using newline(2) by (auto simp: max_line_def)
  then have "takeWhile (\<lambda>l. length l < max_line) (map yaml_entry kvs @ [[]]) = map yaml_entry kvs @ [[]]"
    by (simp only: takeWhile_eq_all_conv)
  then have "scan_lines (concat (map (\<lambda>kv. yaml_entry kv @ [CHR 0x0A]) kvs)) = (map yaml_entry kvs @ [[]], True)"
    using short unfolding scan_lines_def s Let_def list_all_iff by simp
  moreover have "yaml_lines (map yaml_entry kvs @ [[]]) out = Inr (fold (\<lambda>(k, v). gm_put k (yaml_scalar v)) kvs out)" for out
    using assms
  proof (induction kvs arbitrary: out)
    case Nil
    then show ?case by (simp add: yaml_line_def)
  next
    case (Cons kv kvs)
    then show ?case using yaml_line_entry [of "fst kv" "snd kv"] by (cases kv) auto
  qed
  ultimately show ?thesis by (simp add: parseYAMLFlat_def)
qed


section \<open>Loading\<close>








section \<open>Instances\<close>

definition sample_rand :: "nat \<Rightarrow> string" where
  "sample_rand n = replicate n CHR ''A''"


lemmas scalar_simps = yaml_scalar_def parse_int64_def digits_value_def digit_value_def in64_def

lemma sample_scalars:
  "yaml_scalar ''8080'' = YInt 8080" "yaml_scalar ''0123'' = YInt 123" "yaml_scalar ''true'' = YBool True"
  "yaml_scalar ''3002'' = YInt 3002"
  by (simp_all add: scalar_simps)

lemma sample_words:
  "plain_word ''port''" "plain_word ''8080''" "plain_word ''admin_pass''" "plain_word ''0123''" "plain_word ''debug_enabled''"
  "plain_word ''true''" "plain_word ''3002''"
  by (simp_all add: plain_word_def word_char_def printable_def)



theorem defaults_idempotent_witness:
  "ApplyDefaults (\<lambda>n. '''') (ApplyDefaults sample_rand zero_config) = ApplyDefaults sample_rand zero_config"
  by (rule defaults_idempotent) (simp add: sample_rand_def)

theorem yaml_reads_written_witness:
  "parseYAMLFlat (concat (map (\<lambda>kv. yaml_entry kv @ [CHR 0x0A]) [(''admin_pass'', ''0123''), (''debug_enabled'', ''true''), (''port'', ''3002'')]))
    = Inr [(''admin_pass'', YInt 123), (''debug_enabled'', YBool True), (''port'', YInt 3002)]"
  using yaml_reads_written [of "[(''admin_pass'', ''0123''), (''debug_enabled'', ''true''), (''port'', ''3002'')]"]
  by (simp add: sample_words sample_scalars)

end
