(* ===== verification/Client_Cache.thy ===== *)
theory Client_Cache
  imports Accounts Configuration "HOL-Library.Multiset"
begin

text \<open>
  The cache of upstream clients of \<open>internal/handler/client_cache.go\<close>, one client per account. A
  client is an identity, its fields are not modelled: \<open>Client n\<close> is the n-th client built of a type
  with a \<open>Close\<close> method (\<open>puter.Client\<close>, \<open>codebuff.Provider\<close>), \<open>Plain n\<close> the n-th of a type
  without one (\<open>kimchi.Provider\<close>), and \<open>TypedNil\<close> the nil pointer that \<open>codebuff.NewFromAccount\<close> returns for an account
  without a token and that becomes a non-nil interface value. \<open>getOrCreateAccountClient\<close> is
  modelled twice: as a function, and as the steps of goroutines that interleave, for its lock is
  not held while a client is built.
\<close>

section \<open>Fingerprints\<close>

definition writeString :: "string \<Rightarrow> string" where
  "writeString v = v @ [CHR 0x00]"

definition writeBool :: "bool \<Rightarrow> string" where
  "writeBool v = (if v then [CHR 0x01] else [CHR 0x00]) @ [CHR 0x00]"

definition writeInt :: "int \<Rightarrow> string" where
  "writeInt v = itoa v @ [CHR 0x00]"

text \<open>What \<open>accountClientFingerprint\<close> hashes: the account and, when there is one, the configuration.\<close>

definition account_bytes :: "account \<Rightarrow> string" where
  "account_bytes acc =
     writeInt (ID acc) @ writeString (Name acc) @ writeString (AccountType acc) @ writeBool (NSFWEnabled acc)
     @ writeString (SessionID acc) @ writeString (ClientCookie acc) @ writeString (RefreshToken acc)
     @ writeString (DeviceID acc) @ writeString (RequestID acc) @ writeString (SessionCookie acc)
     @ writeString (ClientUat acc) @ writeString (ProjectID acc) @ writeString (UserID acc)
     @ writeString (AgentMode acc) @ writeString (Email acc) @ writeString (Token acc)"

definition config_bytes :: "config \<Rightarrow> string" where
  "config_bytes cfg =
     writeString (cfg_UpstreamMode cfg) @ writeString (cfg_UpstreamURL cfg) @ writeString (cfg_UpstreamToken cfg)
     @ writeString (cfg_ProxyURL cfg) @ writeString (cfg_ProxyHTTP cfg) @ writeString (cfg_ProxyHTTPS cfg)
     @ writeString (cfg_ProxyUser cfg) @ writeString (cfg_ProxyPass cfg) @ writeBool (cfg_AutoRefreshToken cfg)
     @ writeBool (cfg_DebugEnabled cfg) @ writeBool (cfg_DebugLogSSE cfg) @ writeBool (cfg_SuppressThinking cfg)
     @ writeInt (cfg_MaxRetries cfg) @ writeInt (cfg_RetryDelay cfg) @ writeInt (cfg_RequestTimeout cfg)
     @ concat (map writeString (cfg_ProxyBypass cfg))"

definition fingerprint_bytes :: "account \<Rightarrow> config option \<Rightarrow> string" where
  "fingerprint_bytes acc cfg = account_bytes acc @ (case cfg of None \<Rightarrow> [] | Some c \<Rightarrow> config_bytes c)"

definition accountClientFingerprint :: "(string \<Rightarrow> string) \<Rightarrow> account option \<Rightarrow> config option \<Rightarrow> string" where
  "accountClientFingerprint sha256hex acc cfg = (case acc of None \<Rightarrow> '''' | Some a \<Rightarrow> sha256hex (fingerprint_bytes a cfg))"

section \<open>Clients and the cache\<close>

datatype client = TypedNil | Client nat | Plain nat

record cachedAccountClient =
  cc_fingerprint :: string
  cc_client :: "client option"

text \<open>
  The cache together with what happened to clients: how many were built with and without a \<open>Close\<close>
  method, and which were closed, in order.
\<close>

record client_cache =
  cl_entries :: "(int, cachedAccountClient) gomap"
  cl_retired :: "client list"
  cl_built :: nat
  cl_plain :: nat
  cl_closed :: "nat list"

definition newAccountClientCache :: client_cache where
  "newAccountClientCache = \<lparr>cl_entries = [], cl_retired = [], cl_built = 0, cl_plain = 0, cl_closed = []\<rparr>"

text \<open>What a constructor returns: a nil interface, a nil pointer in an interface, or a new client, with or without \<open>Close\<close>.\<close>

datatype built = NilInterface | NilPointer | NewClient | NewPlain

type_synonym client_factory = "(account \<Rightarrow> config option \<Rightarrow> built) option"

definition ResolveAuthToken :: "account option \<Rightarrow> string" where
  "ResolveAuthToken acc = (case acc of None \<Rightarrow> ''''
   | Some a \<Rightarrow> (case find (\<lambda>token. token \<noteq> '''') (map trim_space [ClientCookie a, SessionCookie a, RefreshToken a]) of
        Some token \<Rightarrow> token
      | None \<Rightarrow> let token = trim_space (Token a)
          in if token \<noteq> '''' then (if has_suffix token ''...'' then '''' else token) else ''''))"

definition constructor_of :: "client_factory \<Rightarrow> config option \<Rightarrow> account \<Rightarrow> built" where
  "constructor_of clientFactory cfg acc = (case clientFactory of
     Some f \<Rightarrow> f acc cfg
   | None \<Rightarrow> if equal_fold (AccountType acc) ''puter'' then NewClient
       else if equal_fold (AccountType acc) ''codebuff''
         then (if ResolveAuthToken (Some acc) = '''' then NilPointer else NewClient)
       else NilInterface)"

definition buildAccountClient :: "client_factory \<Rightarrow> config option \<Rightarrow> account \<Rightarrow> client_cache \<Rightarrow> client option \<times> client_cache" where
  "buildAccountClient clientFactory cfg acc w = (case constructor_of clientFactory cfg acc of
     NilInterface \<Rightarrow> (None, w)
   | NilPointer \<Rightarrow> (Some TypedNil, w)
   | NewClient \<Rightarrow> (Some (Client (cl_built w)), w\<lparr>cl_built := Suc (cl_built w)\<rparr>)
   | NewPlain \<Rightarrow> (Some (Plain (cl_plain w)), w\<lparr>cl_plain := Suc (cl_plain w)\<rparr>))"

text \<open>
  The type assertion \<open>client.(clientCloser)\<close>, and the call of \<open>Close\<close> on what it gives, which does nothing on a nil pointer.
\<close>

definition clientCloser :: "client \<Rightarrow> client option" where
  "clientCloser c = (case c of Plain n \<Rightarrow> None | _ \<Rightarrow> Some c)"

definition call_Close :: "client \<Rightarrow> client_cache \<Rightarrow> client_cache" where
  "call_Close c w = (case c of Client n \<Rightarrow> w\<lparr>cl_closed := cl_closed w @ [n]\<rparr> | _ \<Rightarrow> w)"

definition closeUpstreamClient :: "client \<Rightarrow> client_cache \<Rightarrow> client_cache" where
  "closeUpstreamClient c w = (case clientCloser c of Some c \<Rightarrow> call_Close c w | None \<Rightarrow> w)"

section \<open>getOrCreateAccountClient\<close>

text \<open>The test that occurs twice: an entry with this fingerprint and a client.\<close>

definition cached_client :: "int \<Rightarrow> string \<Rightarrow> client_cache \<Rightarrow> client option" where
  "cached_client i fp w = (case gm_get (cl_entries w) i of
     Some entry \<Rightarrow> if cc_fingerprint entry = fp then cc_client entry else None
   | None \<Rightarrow> None)"

text \<open>The second critical section, for the client \<open>c\<close> just built.\<close>

definition store_client :: "int \<Rightarrow> string \<Rightarrow> client \<Rightarrow> client_cache \<Rightarrow> client \<times> client_cache" where
  "store_client i fp c w = (case cached_client i fp w of
     Some c' \<Rightarrow> (c', closeUpstreamClient c w)
   | None \<Rightarrow>
      let w = (case gm_get (cl_entries w) i of
             Some entry \<Rightarrow> (case cc_client entry of Some old \<Rightarrow> w\<lparr>cl_retired := cl_retired w @ [old]\<rparr> | None \<Rightarrow> w)
           | None \<Rightarrow> w)
      in (c, w\<lparr>cl_entries := gm_put i \<lparr>cc_fingerprint = fp, cc_client = Some c\<rparr> (cl_entries w)\<rparr>))"

definition getOrCreateAccountClient ::
    "(string \<Rightarrow> string) \<Rightarrow> client_factory \<Rightarrow> config option \<Rightarrow> account option \<Rightarrow> client_cache \<Rightarrow> client option \<times> client_cache" where
  "getOrCreateAccountClient sha256hex clientFactory cfg acc w = (case acc of None \<Rightarrow> (None, w)
   | Some a \<Rightarrow>
      if ID a = 0 then buildAccountClient clientFactory cfg a w
      else let fp = accountClientFingerprint sha256hex (Some a) cfg
        in (case cached_client (ID a) fp w of
             Some c \<Rightarrow> (Some c, w)
           | None \<Rightarrow> (case buildAccountClient clientFactory cfg a w of
                (None, w) \<Rightarrow> (None, w)
              | (Some c, w) \<Rightarrow> (case store_client (ID a) fp c w of (c, w) \<Rightarrow> (Some c, w)))))"

text \<open>\<open>Close\<close>: the default client, every cached and every retired client, those that have a \<open>Close\<close> method.\<close>

definition close_handler :: "client option \<Rightarrow> client_cache \<Rightarrow> client_cache" where
  "close_handler dflt w =
    fold call_Close
      (List.map_filter clientCloser
        ((case dflt of None \<Rightarrow> [] | Some c \<Rightarrow> [c])
          @ List.map_filter (\<lambda>(i, entry). cc_client entry) (cl_entries w) @ cl_retired w))
      (w\<lparr>cl_entries := [], cl_retired := []\<rparr>)"

section \<open>Goroutines\<close>

text \<open>
  A goroutine that asks for the client of an account: it has missed the cache, holds a client it has
  built, or was given one.
\<close>

datatype pc = Idle | Missed account | Holding account client | Given client | Refused

record cache_state =
  cs_cache :: client_cache
  cs_pc :: "nat \<Rightarrow> pc"

inductive cache_step :: "(string \<Rightarrow> string) \<Rightarrow> client_factory \<Rightarrow> config option \<Rightarrow> cache_state \<Rightarrow> cache_state \<Rightarrow> bool"
  for h f cfg where
  hit: "ID a \<noteq> 0 \<Longrightarrow> cached_client (ID a) (accountClientFingerprint h (Some a) cfg) (cs_cache s) = Some c \<Longrightarrow>
    cs_pc s g = Idle \<Longrightarrow> cache_step h f cfg s (s\<lparr>cs_pc := (cs_pc s)(g := Given c)\<rparr>)"
| miss: "ID a \<noteq> 0 \<Longrightarrow> cached_client (ID a) (accountClientFingerprint h (Some a) cfg) (cs_cache s) = None \<Longrightarrow>
    cs_pc s g = Idle \<Longrightarrow> cache_step h f cfg s (s\<lparr>cs_pc := (cs_pc s)(g := Missed a)\<rparr>)"
| build: "cs_pc s g = Missed a \<Longrightarrow> buildAccountClient f cfg a (cs_cache s) = (Some c, w) \<Longrightarrow>
    cache_step h f cfg s (s\<lparr>cs_cache := w, cs_pc := (cs_pc s)(g := Holding a c)\<rparr>)"
| refuse: "cs_pc s g = Missed a \<Longrightarrow> buildAccountClient f cfg a (cs_cache s) = (None, w) \<Longrightarrow>
    cache_step h f cfg s (s\<lparr>cs_cache := w, cs_pc := (cs_pc s)(g := Refused)\<rparr>)"
| store: "cs_pc s g = Holding a c \<Longrightarrow>
    store_client (ID a) (accountClientFingerprint h (Some a) cfg) c (cs_cache s) = (c', w) \<Longrightarrow>
    cache_step h f cfg s (s\<lparr>cs_cache := w, cs_pc := (cs_pc s)(g := Given c')\<rparr>)"
| again: "cs_pc s g = Given c \<Longrightarrow> cache_step h f cfg s (s\<lparr>cs_pc := (cs_pc s)(g := Idle)\<rparr>)"

inductive cache_reachable :: "(string \<Rightarrow> string) \<Rightarrow> client_factory \<Rightarrow> config option \<Rightarrow> cache_state \<Rightarrow> bool"
  for h f cfg where
  start: "cache_reachable h f cfg \<lparr>cs_cache = newAccountClientCache, cs_pc = \<lambda>g. Idle\<rparr>"
| step: "cache_reachable h f cfg s \<Longrightarrow> cache_step h f cfg s s' \<Longrightarrow> cache_reachable h f cfg s'"

section \<open>Where every client is\<close>

fun client_id :: "client option \<Rightarrow> nat option" where
  "client_id (Some (Client n)) = Some n"
| "client_id _ = None"

definition entry_ids :: "(int, cachedAccountClient) gomap \<Rightarrow> nat list" where
  "entry_ids es = List.map_filter (\<lambda>(i, entry). client_id (cc_client entry)) es"

definition retired_ids :: "client list \<Rightarrow> nat list" where
  "retired_ids cs = List.map_filter (\<lambda>c. client_id (Some c)) cs"

definition usable :: "client_cache \<Rightarrow> nat set" where
  "usable w = set (entry_ids (cl_entries w)) \<union> set (retired_ids (cl_retired w))"

definition known :: "client_cache \<Rightarrow> nat list" where
  "known w = entry_ids (cl_entries w) @ retired_ids (cl_retired w) @ cl_closed w"

definition cache_wf :: "client_cache \<Rightarrow> bool" where
  "cache_wf w \<longleftrightarrow> gm_wf (cl_entries w) \<and> distinct (known w) \<and> (\<forall>n \<in> set (known w). n < cl_built w)"

text \<open>Every client is known to the cache or held by exactly one goroutine; what was given is usable.\<close>

definition cache_inv :: "cache_state \<Rightarrow> bool" where
  "cache_inv s \<longleftrightarrow> cache_wf (cs_cache s)
     \<and> (\<forall>g a n. cs_pc s g = Holding a (Client n) \<longrightarrow> n < cl_built (cs_cache s) \<and> n \<notin> set (known (cs_cache s)))
     \<and> (\<forall>g g' a a' n. cs_pc s g = Holding a (Client n) \<and> cs_pc s g' = Holding a' (Client n) \<longrightarrow> g' = g)
     \<and> (\<forall>n < cl_built (cs_cache s). n \<in> set (known (cs_cache s)) \<or> (\<exists>g a. cs_pc s g = Holding a (Client n)))
     \<and> (\<forall>g n. cs_pc s g = Given (Client n) \<longrightarrow> n \<in> usable (cs_cache s))"

lemma usable_not_closed: "cache_wf w \<Longrightarrow> n \<in> usable w \<Longrightarrow> n \<notin> set (cl_closed w)"
  by (auto simp: cache_wf_def known_def usable_def)

lemma usable_known: "usable w \<subseteq> set (known w)"
  by (auto simp: usable_def known_def)

lemma entry_ids_Cons: "entry_ids ((i, e) # es) = (case client_id (cc_client e) of None \<Rightarrow> [] | Some n \<Rightarrow> [n]) @ entry_ids es"
  by (simp add: entry_ids_def split: option.split)

lemma entry_ids_Nil [simp]: "entry_ids [] = []"
  by (simp add: entry_ids_def)

lemma entry_ids_put:
  assumes "gm_wf es"
  shows "mset (entry_ids (gm_put i e es)) + (case gm_get es i of Some old \<Rightarrow> mset (entry_ids [(i, old)]) | None \<Rightarrow> {#})
    = mset (entry_ids es) + mset (entry_ids [(i, e)])"
  using assms
proof (induction es)
  case (Cons p es)
  then show ?case by (cases p) (auto simp: entry_ids_Cons split: option.splits)
qed simp

lemma retired_ids_append: "retired_ids (cs @ [c]) = retired_ids cs @ (case client_id (Some c) of None \<Rightarrow> [] | Some n \<Rightarrow> [n])"
  by (simp add: retired_ids_def map_filter_def split: option.split)

lemma entry_ids_get: "gm_get es i = Some e \<Longrightarrow> client_id (cc_client e) = Some n \<Longrightarrow> n \<in> set (entry_ids es)"
  by (induction es) (auto simp: entry_ids_Cons split: if_splits)

lemma entry_ids_mem: "(i, e) \<in> set es \<Longrightarrow> cc_client e = Some (Client n) \<Longrightarrow> n \<in> set (entry_ids es)"
  by (induction es) (auto simp: entry_ids_Cons)

definition fresh_id :: "client \<Rightarrow> nat list" where
  "fresh_id c = (case client_id (Some c) of None \<Rightarrow> [] | Some n \<Rightarrow> [n])"

lemmas close_defs = closeUpstreamClient_def clientCloser_def call_Close_def

lemma close_known: "known (closeUpstreamClient c w) = known w @ fresh_id c"
  by (cases c) (simp_all add: close_defs known_def fresh_id_def)

lemma close_frame: "cl_entries (closeUpstreamClient c w) = cl_entries w" "cl_retired (closeUpstreamClient c w) = cl_retired w"
  "cl_built (closeUpstreamClient c w) = cl_built w"
  by (cases c; simp add: close_defs)+

text \<open>Storing a client keeps track of every client, and gives one that is in use.\<close>

lemma store_client_known:
  assumes "gm_wf (cl_entries w)" and "store_client i fp c w = (c', w')"
  shows "gm_wf (cl_entries w')" and "cl_built w' = cl_built w"
    and "mset (known w') = mset (known w) + mset (fresh_id c)" and "usable w \<subseteq> usable w'"
    and "c' = Client n \<Longrightarrow> n \<in> usable w'"
proof -
  have "gm_wf (cl_entries w') \<and> cl_built w' = cl_built w \<and> mset (known w') = mset (known w) + mset (fresh_id c)
      \<and> usable w \<subseteq> usable w' \<and> (\<forall>n. c' = Client n \<longrightarrow> n \<in> usable w')"
  proof (cases "cached_client i fp w")
    case (Some d)
    then have "c' = d" "w' = closeUpstreamClient c w" using assms(2) by (auto simp: store_client_def)
    moreover obtain e where "gm_get (cl_entries w) i = Some e" "cc_client e = Some d"
      using Some by (auto simp: cached_client_def split: option.splits if_splits)
    ultimately show ?thesis using assms(1)
      by (auto simp: close_frame close_known usable_def dest: entry_ids_mem)
  next
    case None
    let ?e = "\<lparr>cc_fingerprint = fp, cc_client = Some c\<rparr>"
    let ?es = "gm_put i ?e (cl_entries w)"
    define old where "old = (case gm_get (cl_entries w) i of
        Some entry \<Rightarrow> (case cc_client entry of Some d \<Rightarrow> [d] | None \<Rightarrow> []) | None \<Rightarrow> [])"
    have w': "c' = c" "cl_entries w' = ?es" "cl_retired w' = cl_retired w @ old" "cl_closed w' = cl_closed w" "cl_built w' = cl_built w"
      using assms(2) None by (auto simp: store_client_def old_def Let_def split: option.splits)
    have put: "mset (entry_ids ?es) + mset (retired_ids old) = mset (entry_ids (cl_entries w)) + mset (fresh_id c)"
      using entry_ids_put [OF assms(1), of i ?e]
      by (auto simp: old_def entry_ids_Cons fresh_id_def retired_ids_def split: option.splits)
    have app: "retired_ids (cl_retired w @ old) = retired_ids (cl_retired w) @ retired_ids old"
      by (simp add: retired_ids_def map_filter_def)
    have "mset (known w') = mset (known w) + mset (fresh_id c)"
      using put w' app by (simp add: known_def ac_simps)
    moreover have "set (entry_ids (cl_entries w)) \<subseteq> set (entry_ids ?es) \<union> set (retired_ids old)"
      using put by (metis set_mset_mset set_mset_union sup_ge1)
    then have "usable w \<subseteq> usable w'" using w' app by (auto simp: usable_def)
    moreover have "n \<in> usable w'" if "c' = Client n" for n
      using that w' entry_ids_get [of ?es i ?e n] by (simp add: usable_def gomap_simps)
    ultimately show ?thesis using w' assms(1) by simp
  qed
  then show "gm_wf (cl_entries w')" and "cl_built w' = cl_built w"
    and "mset (known w') = mset (known w) + mset (fresh_id c)" and "usable w \<subseteq> usable w'"
    and "c' = Client n \<Longrightarrow> n \<in> usable w'" by blast+
qed

lemma cached_client_usable: "cached_client i fp w = Some (Client n) \<Longrightarrow> n \<in> usable w"
  by (auto simp: cached_client_def usable_def split: option.splits if_splits dest: entry_ids_get)

lemma build_facts:
  assumes "buildAccountClient f cfg a w = (r, w')"
  shows "known w' = known w" "usable w' = usable w" "cl_entries w' = cl_entries w"
    and "cl_built w' = cl_built w + (case client_id r of None \<Rightarrow> 0 | Some n \<Rightarrow> 1)"
    and "client_id r = Some n \<Longrightarrow> n = cl_built w"
  using assms by (auto simp: buildAccountClient_def known_def usable_def split: built.splits)

lemma wf_mset:
  assumes "cache_wf w" and "gm_wf (cl_entries w')" and "mset (known w') = mset (known w) + mset (fresh_id c)"
    and "cl_built w' = cl_built w" and "\<And>n. c = Client n \<Longrightarrow> n < cl_built w \<and> n \<notin> set (known w)"
  shows "cache_wf w'" and "set (known w') = set (known w) \<union> set (fresh_id c)"
proof -
  have eq: "mset (known w') = mset (known w @ fresh_id c)" using assms(3) by simp
  show s: "set (known w') = set (known w) \<union> set (fresh_id c)"
    using arg_cong [OF eq, of set_mset] by simp
  have "distinct (known w @ fresh_id c)" using assms(1,5) by (cases c) (auto simp: cache_wf_def fresh_id_def)
  then have "distinct (known w')" using mset_eq_imp_distinct_iff [OF eq] by simp
  then show "cache_wf w'" using assms(1,2,4,5) s by (cases c) (auto simp: cache_wf_def fresh_id_def)
qed

text \<open>A step that only moves one goroutine.\<close>

lemma cache_inv_move:
  assumes "cache_inv s" and "\<And>a n. q \<noteq> Holding a (Client n)" and "\<And>n. q = Given (Client n) \<Longrightarrow> n \<in> usable (cs_cache s)"
    and "\<And>a n. cs_pc s g \<noteq> Holding a (Client n)"
  shows "cache_inv (s\<lparr>cs_pc := (cs_pc s)(g := q)\<rparr>)"
  using assms unfolding cache_inv_def by (simp split: if_splits) (metis (no_types, lifting))

lemma cache_inv_build:
  assumes "cache_inv s" and "cs_pc s g = Missed a" and b: "buildAccountClient f cfg a (cs_cache s) = (r, w)"
    and q: "q = (case r of Some c \<Rightarrow> Holding a c | None \<Rightarrow> Refused)"
  shows "cache_inv (s\<lparr>cs_cache := w, cs_pc := (cs_pc s)(g := q)\<rparr>)"
proof -
  note w = build_facts(1-4) [OF b]
  have n: "client_id r = Some n \<Longrightarrow> n = cl_built (cs_cache s)" for n by (rule build_facts(5) [OF b])
  have wf: "cache_wf (cs_cache s)" using assms(1) by (simp add: cache_inv_def)
  then have wf': "cache_wf w" using w by (auto simp: cache_wf_def less_Suc_eq split: option.splits)
  show ?thesis
  proof (cases "client_id r")
    case None
    have "q \<noteq> Holding b (Client m) \<and> q \<noteq> Given c" for b m c using q None by (cases r) auto
    then show ?thesis using assms(1,2) w wf' None
      unfolding cache_inv_def by (simp split: if_splits) (metis pc.distinct)
  next
    case (Some m)
    then have r: "r = Some (Client m)" by (cases "(r, r)" rule: prod.exhaust) (metis client_id.elims option.distinct(1) option.inject)
    have m: "m = cl_built (cs_cache s)" using n Some by simp
    have built: "cl_built w = Suc m" using w(4) Some m by simp
    have q: "q = Holding a (Client m)" using q r by simp
    show ?thesis unfolding cache_inv_def
    proof (intro conjI allI impI, goal_cases)
      case 1 then show ?case using wf' by simp
    next
      case (2 g' a' k)
      then show ?case using assms(1) wf q m built w(1) by (auto simp: cache_inv_def cache_wf_def less_Suc_eq split: if_splits)
    next
      case (3 g' a' k)
      then show ?case using assms(1) wf q m built w(1) by (auto simp: cache_inv_def cache_wf_def split: if_splits)
    next
      case (4 g' g'' a' a'' k)
      then show ?case using assms(1) wf q m built w(1) by (auto simp: cache_inv_def cache_wf_def split: if_splits)
    next
      case (5 k)
      show ?case
      proof (cases "k = m")
        case True
        then show ?thesis using q by auto
      next
        case False
        then have "k < cl_built (cs_cache s)" using 5 built m by simp
        then have "k \<in> set (known (cs_cache s)) \<or> (\<exists>g a. cs_pc s g = Holding a (Client k))"
          using assms(1) by (simp add: cache_inv_def)
        then show ?thesis
        proof
          assume "\<exists>g a. cs_pc s g = Holding a (Client k)"
          then obtain g' b where "cs_pc s g' = Holding b (Client k)" by blast
          moreover from this have "g' \<noteq> g" using assms(2) by auto
          ultimately show ?thesis by (intro disjI2 exI [of _ g'] exI [of _ b]) simp
        qed (simp add: w(1))
      qed
    next
      case (6 g' k)
      then show ?case using assms(1) w(2) q by (auto simp: cache_inv_def split: if_splits)
    qed
  qed
qed

lemma cache_inv_store:
  assumes "cache_inv s" and "cs_pc s g = Holding a c" and st: "store_client i fp c (cs_cache s) = (c', w)"
  shows "cache_inv (s\<lparr>cs_cache := w, cs_pc := (cs_pc s)(g := Given c')\<rparr>)"
proof -
  have wf: "cache_wf (cs_cache s)" using assms(1) by (simp add: cache_inv_def)
  then have "gm_wf (cl_entries (cs_cache s))" by (simp add: cache_wf_def)
  note st = store_client_known [OF this st]
  have own: "c = Client n \<Longrightarrow> n < cl_built (cs_cache s) \<and> n \<notin> set (known (cs_cache s))" for n
    using assms(1,2) by (auto simp: cache_inv_def)
  note w = wf_mset [OF wf st(1,3,2) own]
  have fresh: "set (fresh_id c) = {n. c = Client n}" by (cases c) (auto simp: fresh_id_def)
  have others: "c \<noteq> Client n" if "cs_pc s g' = Holding b (Client n)" "g' \<noteq> g" for g' b n
    using assms(1,2) that by (auto simp: cache_inv_def)
  show ?thesis unfolding cache_inv_def
  proof (intro conjI allI impI, goal_cases)
    case 1 then show ?case using w(1) by simp
  next
    case (2 g' a' n)
    then show ?case using assms(1) st(2) by (auto simp: cache_inv_def split: if_splits)
  next
    case (3 g' a' n)
    then show ?case using assms(1) w(2) fresh others by (auto simp: cache_inv_def split: if_splits)
  next
    case (4 g' g'' a' a'' n)
    then show ?case using assms(1) by (auto simp: cache_inv_def split: if_splits)
  next
    case (5 n)
    then have "n \<in> set (known (cs_cache s)) \<or> (\<exists>g a. cs_pc s g = Holding a (Client n))"
      using assms(1) st(2) by (simp add: cache_inv_def)
    then show ?case
    proof
      assume "\<exists>g a. cs_pc s g = Holding a (Client n)"
      then obtain g' b where g': "cs_pc s g' = Holding b (Client n)" by blast
      show ?thesis
      proof (cases "g' = g")
        case True
        then show ?thesis using g' assms(2) w(2) fresh by auto
      next
        case False
        then show ?thesis using g' by (intro disjI2 exI [of _ g'] exI [of _ b]) simp
      qed
    qed (simp add: w(2))
  next
    case (6 g' n)
    then show ?case using assms(1) st(4,5) by (auto simp: cache_inv_def split: if_splits)
  qed
qed

lemma cache_step_inv: "cache_step h f cfg s s' \<Longrightarrow> cache_inv s \<Longrightarrow> cache_inv s'"
proof (induction rule: cache_step.induct)
  case (hit a s c g)
  then show ?case by (intro cache_inv_move) (auto dest: cached_client_usable)
next
  case (miss a s g)
  then show ?case by (intro cache_inv_move) auto
next
  case (build s g a c w)
  then show ?case using cache_inv_build [of s g a f cfg "Some c" w] by simp
next
  case (refuse s g a w)
  then show ?case using cache_inv_build [of s g a f cfg None w] by simp
next
  case (store s g a c c' w)
  then show ?case by (intro cache_inv_store)
next
  case (again s g c)
  then show ?case by (intro cache_inv_move) auto
qed

lemma cache_reachable_inv: "cache_reachable h f cfg s \<Longrightarrow> cache_inv s"
proof (induction rule: cache_reachable.induct)
  case start
  then show ?case
    by (simp add: cache_inv_def cache_wf_def known_def newAccountClientCache_def retired_ids_def)
next
  case (step s s')
  then show ?case by (blast intro: cache_step_inv)
qed

lemma close_handler_facts:
  "cl_entries (close_handler dflt w) = []" "cl_retired (close_handler dflt w) = []"
  "cl_built (close_handler dflt w) = cl_built w"
  "cl_closed (close_handler None w) = cl_closed w @ entry_ids (cl_entries w) @ retired_ids (cl_retired w)"
proof -
  have fold: "cl_entries (fold call_Close (List.map_filter clientCloser cs) v) = cl_entries v
      \<and> cl_retired (fold call_Close (List.map_filter clientCloser cs) v) = cl_retired v
      \<and> cl_built (fold call_Close (List.map_filter clientCloser cs) v) = cl_built v
      \<and> cl_closed (fold call_Close (List.map_filter clientCloser cs) v) = cl_closed v @ retired_ids cs"
    for cs v
  proof (induction cs arbitrary: v)
    case (Cons c cs)
    then show ?case by (cases c) (simp_all add: clientCloser_def call_Close_def retired_ids_def)
  qed (simp add: retired_ids_def)
  have "retired_ids (List.map_filter (\<lambda>(i, entry). cc_client entry) es) = entry_ids es" for es :: "(int, cachedAccountClient) gomap"
    by (induction es) (auto simp: retired_ids_def entry_ids_def map_filter_def split: option.split)
  then show "cl_entries (close_handler dflt w) = []" "cl_retired (close_handler dflt w) = []"
    "cl_built (close_handler dflt w) = cl_built w"
    "cl_closed (close_handler None w) = cl_closed w @ entry_ids (cl_entries w) @ retired_ids (cl_retired w)"
    using fold by (auto simp: close_handler_def retired_ids_def map_filter_def)
qed

section \<open>Properties\<close>

text \<open>
  Property C39. No upstream client is leaked or closed too early. Whatever goroutines ask for clients at
  the same time, a client that was given to one of them has not been closed; and when no goroutine
  is in the middle of storing a client, closing the handler empties the cache and leaves every client
  that was ever built and has a \<open>Close\<close> method closed, exactly once. Clients without that
  method (\<open>kimchi.Provider\<close>) may be built, cached and replaced in between; there is nothing to close on them.
\<close>

theorem clients_closed_once:
  assumes "cache_reachable h f cfg s"
  shows "(\<forall>g n. cs_pc s g = Given (Client n) \<longrightarrow> n \<notin> set (cl_closed (cs_cache s)))
    \<and> ((\<forall>g a c. cs_pc s g \<noteq> Holding a c) \<longrightarrow>
        mset (cl_closed (close_handler None (cs_cache s))) = mset [0..<cl_built (cs_cache s)])
    \<and> cl_entries (close_handler None (cs_cache s)) = [] \<and> cl_retired (close_handler None (cs_cache s)) = []"
proof (intro conjI)
  have inv: "cache_inv s" using assms by (rule cache_reachable_inv)
  then have wf: "cache_wf (cs_cache s)" by (simp add: cache_inv_def)
  show "\<forall>g n. cs_pc s g = Given (Client n) \<longrightarrow> n \<notin> set (cl_closed (cs_cache s))"
    using inv usable_not_closed [OF wf] by (auto simp: cache_inv_def)
  show "(\<forall>g a c. cs_pc s g \<noteq> Holding a c) \<longrightarrow>
        mset (cl_closed (close_handler None (cs_cache s))) = mset [0..<cl_built (cs_cache s)]"
  proof
    assume "\<forall>g a c. cs_pc s g \<noteq> Holding a c"
    then have "set (known (cs_cache s)) = {..<cl_built (cs_cache s)}"
      using inv by (auto simp: cache_inv_def cache_wf_def)
    moreover have "distinct (known (cs_cache s))" using wf by (simp add: cache_wf_def)
    ultimately have "mset (known (cs_cache s)) = mset [0..<cl_built (cs_cache s)]"
      by (intro set_eq_iff_mset_eq_distinct [THEN iffD1]) (auto simp: atLeast0LessThan)
    then show "mset (cl_closed (close_handler None (cs_cache s))) = mset [0..<cl_built (cs_cache s)]"
      by (simp add: close_handler_facts known_def ac_simps)
  qed
qed (simp_all add: close_handler_facts)

text \<open>Two goroutines that both miss: the second one to store closes its own client.\<close>

definition puter_account :: account where
  "puter_account = zero_account\<lparr>ID := 7, AccountType := ''puter''\<rparr>"

definition raced_cache :: client_cache where
  "raced_cache = \<lparr>cl_entries = [(7, \<lparr>cc_fingerprint = ''f'', cc_client = Some (Client 0)\<rparr>)], cl_retired = [],
     cl_built = 2, cl_plain = 0, cl_closed = [1]\<rparr>"

lemma build_puter: "buildAccountClient None None puter_account w = (Some (Client (cl_built w)), w\<lparr>cl_built := Suc (cl_built w)\<rparr>)"
  by (simp add: buildAccountClient_def constructor_of_def puter_account_def zero_account_def)

lemma race_reachable:
  "cache_reachable (\<lambda>b. ''f'') None None
     \<lparr>cs_cache = raced_cache, cs_pc = (\<lambda>g. Idle)(0 := Given (Client 0), 1 := Given (Client 0))\<rparr>"
proof -
  let ?st = "\<lambda>w p q. \<lparr>cs_cache = w, cs_pc = (\<lambda>g. Idle)(0 := p, 1 := q)\<rparr>"
  let ?new = "newAccountClientCache" and ?a = puter_account
  have miss: "cached_client (ID ?a) (accountClientFingerprint (\<lambda>b. ''f'') (Some ?a) None) ?new = None" "ID ?a \<noteq> 0"
    by (simp_all add: cached_client_def newAccountClientCache_def puter_account_def)
  let ?r = "cache_reachable (\<lambda>b. ''f'') None None"
  have eq: "(\<lambda>g. Idle)(0 := Idle, 1 := Idle) = (\<lambda>g. Idle)" by auto
  have "?r (?st ?new Idle Idle)" using cache_reachable.start unfolding eq .
  then have "?r (?st ?new (Missed ?a) Idle)"
    by (rule cache_reachable.step) (use cache_step.miss [OF miss(2), of "\<lambda>b. ''f''" None "?st ?new Idle Idle" 0] miss(1) in \<open>simp add: fun_upd_twist\<close>)
  then have "?r (?st ?new (Missed ?a) (Missed ?a))"
    by (rule cache_reachable.step) (use cache_step.miss [OF miss(2), of "\<lambda>b. ''f''" None "?st ?new (Missed ?a) Idle" 1] miss(1) in simp)
  then have "?r (?st (?new\<lparr>cl_built := 1\<rparr>) (Holding ?a (Client 0)) (Missed ?a))"
    by (rule cache_reachable.step)
      (use cache_step.build [of "?st ?new (Missed ?a) (Missed ?a)" 0, OF _ build_puter] in \<open>simp add: fun_upd_twist newAccountClientCache_def\<close>)
  then have "?r (?st (?new\<lparr>cl_built := 2\<rparr>) (Holding ?a (Client 0)) (Holding ?a (Client 1)))"
    by (rule cache_reachable.step)
      (use cache_step.build [of "?st (?new\<lparr>cl_built := 1\<rparr>) (Holding ?a (Client 0)) (Missed ?a)" 1, OF _ build_puter]
        in \<open>simp add: numeral_2_eq_2\<close>)
  then have "?r (?st (raced_cache\<lparr>cl_closed := []\<rparr>) (Given (Client 0)) (Holding ?a (Client 1)))"
    by (rule cache_reachable.step)
      (use cache_step.store [of "?st (?new\<lparr>cl_built := 2\<rparr>) (Holding ?a (Client 0)) (Holding ?a (Client 1))" 0 ?a "Client 0" "\<lambda>b. ''f''" None
          "Client 0" "raced_cache\<lparr>cl_closed := []\<rparr>"]
        in \<open>simp add: fun_upd_twist store_client_def cached_client_def newAccountClientCache_def raced_cache_def
              accountClientFingerprint_def puter_account_def\<close>)
  then show ?thesis
    by (rule cache_reachable.step)
      (use cache_step.store [of "?st (raced_cache\<lparr>cl_closed := []\<rparr>) (Given (Client 0)) (Holding ?a (Client 1))" 1 ?a "Client 1" "\<lambda>b. ''f''" None
          "Client 0" raced_cache]
        in \<open>simp add: store_client_def cached_client_def raced_cache_def close_defs
              accountClientFingerprint_def puter_account_def\<close>)
qed

theorem clients_closed_once_witness:
  "mset (cl_closed (close_handler None raced_cache)) = mset [0..<2]"
proof -
  have "mset (cl_closed (close_handler None raced_cache)) = mset [0..<cl_built raced_cache]"
    using clients_closed_once [OF race_reachable] by simp
  moreover have "cl_built raced_cache = 2" by (simp add: raced_cache_def)
  ultimately show ?thesis by (simp only:)
qed

section \<open>What a client is built for\<close>

definition nul_free :: "string \<Rightarrow> bool" where
  "nul_free v \<longleftrightarrow> CHR 0x00 \<notin> set v"

definition account_strings :: "account \<Rightarrow> string list" where
  "account_strings a = [Name a, AccountType a, SessionID a, ClientCookie a, RefreshToken a, DeviceID a, RequestID a,
     SessionCookie a, ClientUat a, ProjectID a, UserID a, AgentMode a, Email a, Token a]"

definition config_strings :: "config \<Rightarrow> string list" where
  "config_strings c = [cfg_UpstreamMode c, cfg_UpstreamURL c, cfg_UpstreamToken c, cfg_ProxyURL c, cfg_ProxyHTTP c,
     cfg_ProxyHTTPS c, cfg_ProxyUser c, cfg_ProxyPass c] @ cfg_ProxyBypass c"

definition config_flags :: "config \<Rightarrow> bool list \<times> int list" where
  "config_flags c = ([cfg_AutoRefreshToken c, cfg_DebugEnabled c, cfg_DebugLogSSE c, cfg_SuppressThinking c],
     [cfg_MaxRetries c, cfg_RetryDelay c, cfg_RequestTimeout c])"

lemma write_split:
  "nul_free v \<Longrightarrow> nul_free v' \<Longrightarrow> writeString v @ s = writeString v' @ s' \<longleftrightarrow> v = v' \<and> s = s'"
  "writeInt i @ s = writeInt i' @ s' \<longleftrightarrow> i = i' \<and> s = s'"
  "writeBool b @ s = writeBool b' @ s' \<longleftrightarrow> b = b' \<and> s = s'"
proof -
  have split: "v @ CHR 0x00 # s = v' @ CHR 0x00 # s' \<longleftrightarrow> v = v' \<and> s = s'" if "nul_free v" "nul_free v'" for v v' s s'
    using split_at_first [of "CHR 0x00" v v' s s'] that by (auto simp: nul_free_def)
  then show "nul_free v \<Longrightarrow> nul_free v' \<Longrightarrow> writeString v @ s = writeString v' @ s' \<longleftrightarrow> v = v' \<and> s = s'"
    by (simp add: writeString_def)
  have "nul_free (itoa n)" for n using itoa_chars [of "CHR 0x00" n] by (auto simp: nul_free_def)
  then show "writeInt i @ s = writeInt i' @ s' \<longleftrightarrow> i = i' \<and> s = s'"
    using split [of "itoa i" "itoa i'" s s'] by (simp add: writeInt_def)
  show "writeBool b @ s = writeBool b' @ s' \<longleftrightarrow> b = b' \<and> s = s'"
    by (auto simp: writeBool_def)
qed

lemma bypass_split:
  "list_all nul_free vs \<Longrightarrow> list_all nul_free vs' \<Longrightarrow> concat (map writeString vs) = concat (map writeString vs') \<longleftrightarrow> vs = vs'"
proof (induction vs arbitrary: vs')
  case Nil
  then show ?case by (cases vs') (auto simp: writeString_def)
next
  case (Cons v vs)
  show ?case
  proof (cases vs')
    case Nil
    then show ?thesis by (simp add: writeString_def)
  next
    case (Cons u us)
    then show ?thesis using Cons.IH [of us] Cons.prems by (simp add: write_split)
  qed
qed

text \<open>
  The client of an account is rebuilt exactly when what it was built from changes. For
  strings without NUL bytes, two accounts and configurations hash the same bytes only if the ID,
  the credentials and the other identity fields agree and so do the upstream and proxy settings,
  while usage, status and the time stamps play no part.
\<close>

theorem fingerprint_identity:
  assumes "list_all nul_free (account_strings a @ account_strings a')"
    and "list_all nul_free (config_strings c @ config_strings c')"
  shows "fingerprint_bytes a (Some c) = fingerprint_bytes a' (Some c') \<longleftrightarrow>
    ID a = ID a' \<and> NSFWEnabled a = NSFWEnabled a' \<and> account_strings a = account_strings a'
    \<and> config_strings c = config_strings c' \<and> config_flags c = config_flags c'"
  using assms unfolding fingerprint_bytes_def account_bytes_def config_bytes_def option.case
  by (simp add: write_split bypass_split account_strings_def config_strings_def config_flags_def) blast

definition sample_config :: config where
  "sample_config = zero_config\<lparr>cfg_RedisPrefix := ''dabbo:'', cfg_ProxyBypass := [''localhost''], cfg_AutoRefreshToken := True,
     cfg_MaxRetries := 3, cfg_RetryDelay := 1000, cfg_RequestTimeout := 600\<rparr>"

theorem fingerprint_identity_witness:
  "fingerprint_bytes puter_account (Some sample_config) \<noteq> fingerprint_bytes (puter_account\<lparr>Token := ''t''\<rparr>) (Some sample_config)
   \<and> fingerprint_bytes puter_account (Some sample_config) = fingerprint_bytes (puter_account\<lparr>StatusCode := ''429''\<rparr>) (Some sample_config)"
  using fingerprint_identity [of puter_account "puter_account\<lparr>Token := ''t''\<rparr>" sample_config sample_config]
    fingerprint_identity [of puter_account "puter_account\<lparr>StatusCode := ''429''\<rparr>" sample_config sample_config]
  by (simp add: nul_free_def account_strings_def config_strings_def sample_config_def zero_config_def puter_account_def zero_account_def)

end
