(* ===== verification/Model_Store.thy ===== *)
theory Model_Store
  imports Redis_Server
begin

text \<open>
  Models and their statuses: \<open>internal/store/model.go\<close>, the model part of
  \<open>internal/store/redis_store.go\<close> (records, the set of IDs, an index by model ID and one by
  channel and model ID) and the layer of \<open>internal/store/store.go\<close> that keeps one default model per
  channel. Faults are those of theory Redis_Server; the round trips of one call are numbered in
  the order of the code.
\<close>

section \<open>Statuses\<close>

definition ModelStatusAvailable :: string where "ModelStatusAvailable = ''available''"
definition ModelStatusMaintenance :: string where "ModelStatusMaintenance = ''maintenance''"
definition ModelStatusOffline :: string where "ModelStatusOffline = ''offline''"

definition ModelStatus_Enabled :: "string \<Rightarrow> bool" where
  "ModelStatus_Enabled s \<longleftrightarrow> s = ModelStatusAvailable"

text \<open>The JSON library on scalars: reading a bool, reading a string, writing a string.\<close>

record json_scalars =
  js_bool :: "string \<Rightarrow> bool option"
  js_string :: "string \<Rightarrow> string option"
  js_quote :: "string \<Rightarrow> string"

definition json_scalars_ok :: "json_scalars \<Rightarrow> bool" where
  "json_scalars_ok P \<longleftrightarrow> (\<forall>s. list_all printable s \<longrightarrow> js_string P (js_quote P s) = Some s
     \<and> js_bool P (js_quote P s) = None \<and> trim_space (js_quote P s) = js_quote P s
     \<and> js_quote P s \<noteq> '''' \<and> js_quote P s \<noteq> ''null'')"

definition UnmarshalStatus :: "json_scalars \<Rightarrow> string \<Rightarrow> string" where
  "UnmarshalStatus P data =
    (let data = trim_space data in
     if data = '''' \<or> data = ''null'' then ModelStatusOffline
     else (case js_bool P data of
         Some b \<Rightarrow> if b then ModelStatusAvailable else ModelStatusOffline
       | None \<Rightarrow> (case js_string P data of
           Some str \<Rightarrow> (let s = to_lower (trim_space str) in
             if s \<in> {''available'', ''enabled'', ''true'', ''on'', ''1''} then ModelStatusAvailable
             else if s \<in> {''maintenance'', ''maint''} then ModelStatusMaintenance
             else ModelStatusOffline)
         | None \<Rightarrow> ModelStatusOffline)))"

definition MarshalStatus :: "json_scalars \<Rightarrow> string \<Rightarrow> string" where
  "MarshalStatus P s = js_quote P (if s = '''' then ModelStatusOffline else s)"

section \<open>Records and keys\<close>

record model =
  mID :: string
  mChannel :: string
  mModelID :: string
  mName :: string
  mStatus :: string
  mVerified :: bool
  mIsDefault :: bool
  mSortOrder :: int

definition plain_model :: "model \<Rightarrow> bool" where
  "plain_model m \<longleftrightarrow> list_all plain_string [mID m, mChannel m, mModelID m, mName m]
     \<and> mStatus m \<in> {ModelStatusAvailable, ModelStatusMaintenance, ModelStatusOffline}"

definition modelsKey :: "'r redis_store \<Rightarrow> string \<Rightarrow> string" where
  "modelsKey S i = prefix S @ ''models:id:'' @ i"

definition modelsIDsKey :: "'r redis_store \<Rightarrow> string" where
  "modelsIDsKey S = prefix S @ ''models:ids''"

definition modelsNextIDKey :: "'r redis_store \<Rightarrow> string" where
  "modelsNextIDKey S = prefix S @ ''models:next_id''"

definition modelsModelIDMapKey :: "'r redis_store \<Rightarrow> string" where
  "modelsModelIDMapKey S = prefix S @ ''models:model_id_map''"

definition modelsChannelModelIDMapKey :: "'r redis_store \<Rightarrow> string" where
  "modelsChannelModelIDMapKey S = prefix S @ ''models:channel_model_id_map''"

lemma models_keys [simp]:
  "modelsKey S i = modelsKey S j \<longleftrightarrow> i = j"
  "modelsKey S i \<noteq> modelsIDsKey S" "modelsKey S i \<noteq> modelsNextIDKey S" "modelsKey S i \<noteq> modelsModelIDMapKey S"
  "modelsKey S i \<noteq> modelsChannelModelIDMapKey S"
  "modelsIDsKey S \<noteq> modelsKey S i" "modelsNextIDKey S \<noteq> modelsKey S i" "modelsModelIDMapKey S \<noteq> modelsKey S i"
  "modelsChannelModelIDMapKey S \<noteq> modelsKey S i"
  "modelsIDsKey S \<noteq> modelsNextIDKey S" "modelsIDsKey S \<noteq> modelsModelIDMapKey S" "modelsIDsKey S \<noteq> modelsChannelModelIDMapKey S"
  "modelsNextIDKey S \<noteq> modelsIDsKey S" "modelsModelIDMapKey S \<noteq> modelsIDsKey S" "modelsChannelModelIDMapKey S \<noteq> modelsIDsKey S"
  "modelsModelIDMapKey S \<noteq> modelsChannelModelIDMapKey S" "modelsChannelModelIDMapKey S \<noteq> modelsModelIDMapKey S"
  "modelsModelIDMapKey S \<noteq> modelsNextIDKey S" "modelsChannelModelIDMapKey S \<noteq> modelsNextIDKey S"
  "modelsNextIDKey S \<noteq> modelsModelIDMapKey S" "modelsNextIDKey S \<noteq> modelsChannelModelIDMapKey S"
  by (simp_all add: modelsKey_def modelsIDsKey_def modelsNextIDKey_def modelsModelIDMapKey_def modelsChannelModelIDMapKey_def)

definition replace_char :: "char \<Rightarrow> char \<Rightarrow> string \<Rightarrow> string" where
  "replace_char a b s = map (\<lambda>c. if c = a then b else c) s"

definition normalizeModelChannelKey :: "string \<Rightarrow> string" where
  "normalizeModelChannelKey channel =
    (let channel = to_lower (trim_space channel) in
     if channel = '''' then '''' else replace_char CHR '' '' CHR ''-'' (replace_char CHR ''_'' CHR ''-'' channel))"

definition modelChannelIndexKey :: "string \<Rightarrow> string \<Rightarrow> string" where
  "modelChannelIndexKey channel modelID = normalizeModelChannelKey channel @ ''|'' @ trim_space modelID"

section \<open>The Redis layer\<close>

definition later :: "nat \<Rightarrow> faults \<Rightarrow> faults" where
  "later n ft = (\<lambda>i. ft (i + n))"

definition redis_GetModel :: "'r redis_store \<Rightarrow> model codec \<Rightarrow> nat option \<Rightarrow> string \<Rightarrow> 'r \<Rightarrow> store_error + model" where
  "redis_GetModel S J f i r =
    (if \<not> configured S then Inl NotConfigured
     else if f \<noteq> None then Inl Unreachable
     else (case r_get (client S) r (modelsKey S i) of
         None \<Rightarrow> Inl NoRows
       | Some value \<Rightarrow> (case unmarshal J value of None \<Rightarrow> Inl Undecodable | Some m \<Rightarrow> Inr m)))"

definition redis_CreateModel :: "'r redis_store \<Rightarrow> model codec \<Rightarrow> faults \<Rightarrow> model \<Rightarrow> 'r \<Rightarrow> store_error option \<times> model \<times> 'r" where
  "redis_CreateModel S J ft m r =
    (if \<not> configured S then (Some NotConfigured, m, r)
     else (case incr (client S) (ft 0) (modelsNextIDKey S) r of
         (None, r1) \<Rightarrow> (Some Unreachable, m, r1)
       | (Some n, r1) \<Rightarrow>
           (let m = m\<lparr>mID := itoa n\<rparr>
            in case marshal J m of
                None \<Rightarrow> (Some Unencodable, m, r1)
              | Some data \<Rightarrow>
                  let cs = [SET (modelsKey S (mID m)) data, SADD (modelsIDsKey S) (mID m)]
                        @ (if trim_space (mModelID m) \<noteq> ''''
                           then [HSETNX (modelsModelIDMapKey S) (mModelID m) (mID m),
                                 HSET (modelsChannelModelIDMapKey S) (modelChannelIndexKey (mChannel m) (mModelID m)) (mID m)]
                           else []);
                      (e, r2) = pipeline (client S) (ft 1) cs r1
                  in (e, m, r2))))"

text \<open>The pipeline of \<open>UpdateModel\<close>: \<open>prev\<close> is the stored model, if it could be read, \<open>globalID\<close> the answer of the \<open>HGET\<close> ("" for none or an error).\<close>

definition update_commands :: "'r redis_store \<Rightarrow> model option \<Rightarrow> string \<Rightarrow> string \<Rightarrow> model \<Rightarrow> command list" where
  "update_commands S prev globalID data m =
    [SET (modelsKey S (mID m)) data, SADD (modelsIDsKey S) (mID m)]
    @ (case prev of None \<Rightarrow> []
       | Some p \<Rightarrow> if trim_space (mModelID p) \<noteq> ''''
            \<and> modelChannelIndexKey (mChannel p) (mModelID p) \<noteq> modelChannelIndexKey (mChannel m) (mModelID m)
           then [HDEL (modelsChannelModelIDMapKey S) (modelChannelIndexKey (mChannel p) (mModelID p))] else [])
    @ (if trim_space (mModelID m) \<noteq> ''''
       then (if globalID = '''' \<or> globalID = mID m \<or> (case prev of None \<Rightarrow> False | Some p \<Rightarrow> globalID = mID p)
             then [HSET (modelsModelIDMapKey S) (mModelID m) (mID m)] else [])
         @ [HSET (modelsChannelModelIDMapKey S) (modelChannelIndexKey (mChannel m) (mModelID m)) (mID m)]
       else [])"

definition hget_or_empty :: "'r redis_store \<Rightarrow> nat option \<Rightarrow> string \<Rightarrow> string \<Rightarrow> 'r \<Rightarrow> string" where
  "hget_or_empty S f k field r = (if f \<noteq> None then '''' else case r_hget (client S) r k field of None \<Rightarrow> '''' | Some v \<Rightarrow> v)"

definition redis_UpdateModel :: "'r redis_store \<Rightarrow> model codec \<Rightarrow> faults \<Rightarrow> model \<Rightarrow> 'r \<Rightarrow> store_error option \<times> 'r" where
  "redis_UpdateModel S J ft m r =
    (if \<not> configured S then (Some NotConfigured, r)
     else if mID m = '''' then (Some ModelIDRequired, r)
     else let prev = (case redis_GetModel S J (ft 0) (mID m) r of Inl _ \<Rightarrow> None | Inr p \<Rightarrow> Some p)
       in (case marshal J m of
           None \<Rightarrow> (Some Unencodable, r)
         | Some data \<Rightarrow> pipeline (client S) (ft 2)
             (update_commands S prev (hget_or_empty S (ft 1) (modelsModelIDMapKey S) (mModelID m) r) data m) r))"

definition redis_DeleteModel :: "'r redis_store \<Rightarrow> model codec \<Rightarrow> faults \<Rightarrow> string \<Rightarrow> 'r \<Rightarrow> store_error option \<times> 'r" where
  "redis_DeleteModel S J ft i r =
    (if \<not> configured S then (Some NotConfigured, r)
     else if i = '''' then (None, r)
     else let m = (case redis_GetModel S J (ft 0) i r of Inl _ \<Rightarrow> None | Inr p \<Rightarrow> Some p)
       in pipeline (client S) (ft 2)
         ([DEL (modelsKey S i), SREM (modelsIDsKey S) i]
          @ (case m of None \<Rightarrow> []
             | Some m \<Rightarrow> if trim_space (mModelID m) \<noteq> ''''
                 then (if hget_or_empty S (ft 1) (modelsModelIDMapKey S) (mModelID m) r = i
                       then [HDEL (modelsModelIDMapKey S) (mModelID m)] else [])
                   @ [HDEL (modelsChannelModelIDMapKey S) (modelChannelIndexKey (mChannel m) (mModelID m))]
                 else [])) r)"

text \<open>
  The order of a listing: numbers by value, anything else as strings. \<open>sort.Slice\<close> sorts up to
  twelve elements by insertion; for IDs that are all numbers every sorting method gives the same.
\<close>

fun string_less :: "string \<Rightarrow> string \<Rightarrow> bool" where
  "string_less s [] \<longleftrightarrow> False"
| "string_less [] (c # t) \<longleftrightarrow> True"
| "string_less (c # s) (d # t) \<longleftrightarrow> (of_char c :: nat) < of_char d \<or> c = d \<and> string_less s t"

definition id_less :: "string \<Rightarrow> string \<Rightarrow> bool" where
  "id_less a b = (case (parse_int64 a, parse_int64 b) of
     (Some m, Some n) \<Rightarrow> m < n
   | _ \<Rightarrow> string_less a b)"

fun insert_id :: "string \<Rightarrow> string list \<Rightarrow> string list" where
  "insert_id x [] = [x]"
| "insert_id x (y # ys) = (if id_less y x then y # insert_id x ys else x # y # ys)"

definition sort_ids :: "string list \<Rightarrow> string list" where
  "sort_ids ids = foldr insert_id ids []"

definition decode_model :: "model codec \<Rightarrow> string option \<Rightarrow> model option" where
  "decode_model J value = (case value of None \<Rightarrow> None
     | Some s \<Rightarrow> if s = '''' then None else unmarshal J s)"

definition redis_ListModels :: "'r redis_store \<Rightarrow> model codec \<Rightarrow> faults \<Rightarrow> 'r \<Rightarrow> store_error + model list" where
  "redis_ListModels S J ft r =
    (if \<not> configured S then Inl NotConfigured
     else if ft 0 \<noteq> None then Inl Unreachable
     else let ids = r_smembers (client S) r (modelsIDsKey S)
       in if ids = [] then Inr []
          else if ft 1 \<noteq> None then Inl Unreachable
          else Inr (List.map_filter (decode_model J) (map (\<lambda>i. r_get (client S) r (modelsKey S i)) (sort_ids ids))))"

text \<open>The lookups by an index: the scan repairs the index, and may fail silently to do so.\<close>

definition redis_GetModelByModelID :: "'r redis_store \<Rightarrow> model codec \<Rightarrow> faults \<Rightarrow> string \<Rightarrow> 'r \<Rightarrow> (store_error + model) \<times> 'r" where
  "redis_GetModelByModelID S J ft modelID r =
    (let modelID = trim_space modelID in
     if \<not> configured S then (Inl NotConfigured, r)
     else if modelID = '''' then (Inl ModelNotFound, r)
     else let i = hget_or_empty S (ft 0) (modelsModelIDMapKey S) modelID r
       in (case (if i \<noteq> '''' then redis_GetModel S J (ft 1) i r else Inl NoRows) of
           Inr m \<Rightarrow> (Inr m, r)
         | Inl _ \<Rightarrow> (case redis_ListModels S J (later 2 ft) r of
             Inl e \<Rightarrow> (Inl e, r)
           | Inr models \<Rightarrow> (case find (\<lambda>m. mModelID m = modelID) models of
               None \<Rightarrow> (Inl ModelNotFound, r)
             | Some m \<Rightarrow> (Inr m, snd (pipeline (client S) (ft 4) [HSET (modelsModelIDMapKey S) modelID (mID m)] r))))))"

definition redis_GetModelByChannelAndModelID ::
    "'r redis_store \<Rightarrow> model codec \<Rightarrow> faults \<Rightarrow> string \<Rightarrow> string \<Rightarrow> 'r \<Rightarrow> (store_error + model) \<times> 'r" where
  "redis_GetModelByChannelAndModelID S J ft channel modelID r =
    (let modelID = trim_space modelID in
     if \<not> configured S then (Inl NotConfigured, r)
     else if modelID = '''' then (Inl ModelNotFound, r)
     else let channelKey = modelChannelIndexKey channel modelID;
              i = hget_or_empty S (ft 0) (modelsChannelModelIDMapKey S) channelKey r
       in (case (if i \<noteq> '''' then redis_GetModel S J (ft 1) i r else Inl NoRows) of
           Inr m \<Rightarrow> (Inr m, r)
         | Inl _ \<Rightarrow> (case redis_ListModels S J (later 2 ft) r of
             Inl e \<Rightarrow> (Inl e, r)
           | Inr models \<Rightarrow> (case find (\<lambda>m. normalizeModelChannelKey (mChannel m) = normalizeModelChannelKey channel
                   \<and> mModelID m = modelID) models of
               None \<Rightarrow> (Inl ModelNotFound, r)
             | Some m \<Rightarrow> (Inr m, snd (pipeline (client S) (ft 4) [HSET (modelsChannelModelIDMapKey S) channelKey (mID m)] r))))))"

section \<open>One default per channel\<close>

text \<open>
  The loop of \<open>Store.CreateModel\<close> and \<open>Store.UpdateModel\<close> over the listed models: a default of the
  same channel (and, for an update, of another ID) loses the flag; a failing update is logged.
\<close>

fun clear_defaults :: "'r redis_store \<Rightarrow> model codec \<Rightarrow> faults \<Rightarrow> (model \<Rightarrow> bool) \<Rightarrow> model list \<Rightarrow> 'r \<Rightarrow> 'r" where
  "clear_defaults S J ft p [] r = r"
| "clear_defaults S J ft p (other # others) r =
     (if p other \<and> mIsDefault other
      then clear_defaults S J (later 3 ft) p others (snd (redis_UpdateModel S J ft (other\<lparr>mIsDefault := False\<rparr>) r))
      else clear_defaults S J ft p others r)"

definition with_defaults_cleared :: "'r redis_store \<Rightarrow> model codec \<Rightarrow> faults \<Rightarrow> (model \<Rightarrow> bool) \<Rightarrow> model \<Rightarrow> 'r \<Rightarrow> 'r" where
  "with_defaults_cleared S J ft p m r =
    (if mIsDefault m
     then (case redis_ListModels S J ft r of Inl _ \<Rightarrow> r | Inr models \<Rightarrow> clear_defaults S J (later 2 ft) p models r)
     else r)"

text \<open>The faults of the last call are a second argument, as the number of round trips before it varies.\<close>

definition Store_CreateModel :: "'r redis_store \<Rightarrow> model codec \<Rightarrow> faults \<Rightarrow> faults \<Rightarrow> model \<Rightarrow> 'r \<Rightarrow> store_error option \<times> model \<times> 'r" where
  "Store_CreateModel S J ft ft' m r =
    redis_CreateModel S J ft' m (with_defaults_cleared S J ft (\<lambda>other. mChannel other = mChannel m) m r)"

definition Store_UpdateModel :: "'r redis_store \<Rightarrow> model codec \<Rightarrow> faults \<Rightarrow> faults \<Rightarrow> model \<Rightarrow> 'r \<Rightarrow> store_error option \<times> 'r" where
  "Store_UpdateModel S J ft ft' m r =
    redis_UpdateModel S J ft' m
      (with_defaults_cleared S J ft (\<lambda>other. mChannel other = mChannel m \<and> mID other \<noteq> mID m) m r)"

text \<open>\<open>seedModels\<close>: nothing when a model exists; otherwise each seed model that is not found by channel and ID.\<close>

fun seed_loop :: "'r redis_store \<Rightarrow> model codec \<Rightarrow> model list \<Rightarrow> 'r \<Rightarrow> 'r" where
  "seed_loop S J [] r = r"
| "seed_loop S J (m # ms) r =
     (case redis_GetModelByChannelAndModelID S J no_faults (mChannel m) (mModelID m) r of
        (Inr _, r1) \<Rightarrow> seed_loop S J ms r1
      | (Inl _, r1) \<Rightarrow> seed_loop S J ms (snd (snd (Store_CreateModel S J no_faults no_faults m r1))))"

definition seedModels :: "'r redis_store \<Rightarrow> model codec \<Rightarrow> model list \<Rightarrow> 'r \<Rightarrow> 'r" where
  "seedModels S J seeds r =
    (case redis_ListModels S J no_faults r of
       Inr (m # ms) \<Rightarrow> r
     | _ \<Rightarrow> seed_loop S J seeds r)"

section \<open>The table of models and its invariant\<close>

definition models_of :: "'r redis_store \<Rightarrow> model codec \<Rightarrow> 'r \<Rightarrow> string \<Rightarrow> model option" where
  "models_of S J r i = Option.bind (r_get (client S) r (modelsKey S i)) (unmarshal J)"

definition models_inv :: "'r redis_store \<Rightarrow> model codec \<Rightarrow> 'r \<Rightarrow> bool" where
  "models_inv S J r \<longleftrightarrow> (\<exists>n. 0 \<le> n \<and> counter_at (client S) r (modelsNextIDKey S) n)
     \<and> (\<forall>i d. r_get (client S) r (modelsKey S i) = Some d \<longrightarrow> d \<noteq> '''' \<and> i \<noteq> ''''
          \<and> i \<in> members (client S) r (modelsIDsKey S)
          \<and> (\<exists>m. unmarshal J d = Some m \<and> plain_model m \<and> mID m = i))"

definition default_unique :: "'r redis_store \<Rightarrow> model codec \<Rightarrow> 'r \<Rightarrow> bool" where
  "default_unique S J r \<longleftrightarrow> (\<forall>i j a b. models_of S J r i = Some a \<and> models_of S J r j = Some b
     \<and> mIsDefault a \<and> mIsDefault b \<and> mChannel a = mChannel b \<longrightarrow> i = j)"

lemma models_of_inv:
  assumes "models_inv S J r" and "models_of S J r i = Some m"
  shows "mID m = i" "i \<noteq> ''''" "plain_model m" "i \<in> members (client S) r (modelsIDsKey S)"
proof -
  obtain d where "r_get (client S) r (modelsKey S i) = Some d" "unmarshal J d = Some m"
    using assms(2) by (auto simp: models_of_def bind_eq_Some_conv)
  then show "mID m = i" "i \<noteq> ''''" "plain_model m" "i \<in> members (client S) r (modelsIDsKey S)"
    using assms(1) by (fastforce simp: models_inv_def)+
qed

text \<open>Commands on the two indexes leave the records, the set and the counter alone.\<close>

definition index_command :: "'r redis_store \<Rightarrow> command \<Rightarrow> bool" where
  "index_command S c \<longleftrightarrow> key_of c \<in> {modelsModelIDMapKey S, modelsChannelModelIDMapKey S}"

lemma index_command_frame:
  assumes "redis_ok (client S)" and "list_all (index_command S) cs"
  shows "models_of S J (fold (exec (client S)) cs r) = models_of S J r"
    and "models_inv S J (fold (exec (client S)) cs r) = models_inv S J r"
proof -
  have frame: "r_get (client S) (fold (exec (client S)) cs r) k = r_get (client S) r k
      \<and> members (client S) (fold (exec (client S)) cs r) k = members (client S) r k"
    if "k \<notin> {modelsModelIDMapKey S, modelsChannelModelIDMapKey S}" for k
    using assms(2)
  proof (induction cs arbitrary: r)
    case (Cons c cs)
    have "k \<noteq> key_of c" using that Cons.prems by (auto simp: index_command_def)
    with only_atD [OF exec_only_at [OF assms(1)], of k c r] Cons show ?case by simp
  qed simp
  have get: "r_get (client S) (fold (exec (client S)) cs r) (modelsKey S i) = r_get (client S) r (modelsKey S i)" for i
    using frame by simp
  show "models_of S J (fold (exec (client S)) cs r) = models_of S J r"
    by (simp add: models_of_def fun_eq_iff get)
  show "models_inv S J (fold (exec (client S)) cs r) = models_inv S J r"
    using frame [of "modelsNextIDKey S"] frame [of "modelsIDsKey S"]
    by (simp add: models_inv_def counter_at_def get)
qed

text \<open>Writing a record and its ID.\<close>

lemma write_model:
  assumes "redis_ok (client S)" and "models_inv S J r" and "unmarshal J d = Some m" and "d \<noteq> ''''" and "plain_model m"
    and "mID m \<noteq> ''''" and "list_all (index_command S) cs"
  defines "r' \<equiv> fold (exec (client S)) ([SET (modelsKey S (mID m)) d, SADD (modelsIDsKey S) (mID m)] @ cs) r"
  shows "models_of S J r' = (models_of S J r)(mID m \<mapsto> m)" and "models_inv S J r'"
proof -
  let ?r1 = "fold (exec (client S)) [SET (modelsKey S (mID m)) d, SADD (modelsIDsKey S) (mID m)] r"
  have r': "r' = fold (exec (client S)) cs ?r1" by (simp add: r'_def)
  have "models_of S J ?r1 = (models_of S J r)(mID m \<mapsto> m)"
    using assms(3) by (simp add: models_of_def fun_eq_iff redis_get [OF assms(1)])
  then show "models_of S J r' = (models_of S J r)(mID m \<mapsto> m)"
    by (simp only: r' index_command_frame [OF assms(1,7)])
  have "models_inv S J ?r1"
    using assms(2-6) by (auto simp: models_inv_def counter_at_def redis_get [OF assms(1)] redis_members [OF assms(1)])
  then show "models_inv S J r'" by (simp only: r' index_command_frame [OF assms(1,7)])
qed

lemma redis_UpdateModel_effect:
  assumes "redis_ok (client S)" and "codec_ok plain_model J" and "configured S" and "models_inv S J r"
    and "plain_model m" and "mID m \<noteq> ''''" and "marshal J m = Some d"
  shows "models_of S J (snd (redis_UpdateModel S J no_faults m r)) = (models_of S J r)(mID m \<mapsto> m)"
    and "models_inv S J (snd (redis_UpdateModel S J no_faults m r))"
    and "fst (redis_UpdateModel S J no_faults m r) = None"
proof -
  have d: "unmarshal J d = Some m" "d \<noteq> ''''" using codec_okD [OF assms(2,5,7)] by auto
  define prev where "prev = (case redis_GetModel S J None (mID m) r of Inl _ \<Rightarrow> None | Inr p \<Rightarrow> Some p)"
  define g where "g = hget_or_empty S None (modelsModelIDMapKey S) (mModelID m) r"
  define cs where "cs = drop 2 (update_commands S prev g d m)"
  have cs: "update_commands S prev g d m = [SET (modelsKey S (mID m)) d, SADD (modelsIDsKey S) (mID m)] @ cs"
    "list_all (index_command S) cs"
    by (simp_all add: cs_def update_commands_def index_command_def split: option.split)
  have u: "redis_UpdateModel S J no_faults m r
      = (None, fold (exec (client S)) ([SET (modelsKey S (mID m)) d, SADD (modelsIDsKey S) (mID m)] @ cs) r)"
    using assms(3,6,7) cs(1)
    by (simp add: redis_UpdateModel_def no_faults_def pipeline_def prev_def [symmetric] g_def [symmetric])
  show "models_of S J (snd (redis_UpdateModel S J no_faults m r)) = (models_of S J r)(mID m \<mapsto> m)"
    "models_inv S J (snd (redis_UpdateModel S J no_faults m r))"
    "fst (redis_UpdateModel S J no_faults m r) = None"
    unfolding u snd_conv fst_conv using write_model [OF assms(1,4) d assms(5,6) cs(2)] by simp_all
qed

lemma sort_ids_set: "set (sort_ids ids) = set ids"
proof -
  have "set (insert_id x ys) = insert x (set ys)" for x ys by (induction ys) auto
  then show ?thesis unfolding sort_ids_def by (induction ids) auto
qed

lemma redis_ListModels_all:
  assumes "configured S" and "models_inv S J r"
  obtains l where "redis_ListModels S J no_faults r = Inr l" and "set l = {m. \<exists>i. models_of S J r i = Some m}"
proof -
  have row: "decode_model J (r_get (client S) r (modelsKey S i)) = models_of S J r i" for i
    using assms(2) by (auto simp: decode_model_def models_of_def models_inv_def split: option.split)
  let ?ids = "r_smembers (client S) r (modelsIDsKey S)"
  let ?l = "List.map_filter (decode_model J) (map (\<lambda>i. r_get (client S) r (modelsKey S i)) (sort_ids ?ids))"
  have mem: "i \<in> set ?ids" if "models_of S J r i = Some m" for i m
    using models_of_inv(4) [OF assms(2) that] by (simp add: members_def)
  have "set ?l = {m. \<exists>i \<in> set ?ids. models_of S J r i = Some m}"
    by (simp add: set_map_filter_Some sort_ids_set row)
  also have "\<dots> = {m. \<exists>i. models_of S J r i = Some m}" using mem by blast
  finally have l: "set ?l = {m. \<exists>i. models_of S J r i = Some m}" .
  show thesis
  proof (cases "?ids = []")
    case True
    then have "models_of S J r i = None" for i using mem [of i] by (cases "models_of S J r i") auto
    then show thesis using that [of "[]"] True assms(1) by (simp add: redis_ListModels_def no_faults_def)
  next
    case False
    then show thesis using that [OF _ l] assms(1) by (simp add: redis_ListModels_def no_faults_def Let_def)
  qed
qed

lemma later_no_faults [simp]: "later n no_faults = no_faults"
  by (simp add: later_def no_faults_def)

text \<open>After the loop, a default model is one that was there before and that the loop was not to clear.\<close>

lemma clear_defaults_effect:
  assumes "redis_ok (client S)" and "codec_ok plain_model J" and "configured S"
  shows "models_inv S J r \<Longrightarrow> \<forall>o' \<in> set l. plain_model o' \<and> mID o' \<noteq> '''' \<and> marshal J (o'\<lparr>mIsDefault := False\<rparr>) \<noteq> None \<Longrightarrow>
    models_inv S J (clear_defaults S J no_faults p l r) \<and>
    (\<forall>i a. models_of S J (clear_defaults S J no_faults p l r) i = Some a \<and> mIsDefault a \<longrightarrow>
      models_of S J r i = Some a \<and> \<not> (a \<in> set l \<and> p a))"
proof (induction l arbitrary: r)
  case Nil
  then show ?case by simp
next
  case (Cons x l)
  show ?case
  proof (cases "p x \<and> mIsDefault x")
    case False
    then have "clear_defaults S J no_faults p (x # l) r = clear_defaults S J no_faults p l r" by auto
    moreover have "models_inv S J (clear_defaults S J no_faults p l r)"
      "\<And>i a. models_of S J (clear_defaults S J no_faults p l r) i = Some a \<Longrightarrow> mIsDefault a \<Longrightarrow>
        models_of S J r i = Some a \<and> \<not> (a \<in> set l \<and> p a)"
      using Cons.IH [OF Cons.prems(1)] Cons.prems(2) by simp_all
    ultimately show ?thesis using False by (auto simp del: clear_defaults.simps)
  next
    case True
    let ?x = "x\<lparr>mIsDefault := False\<rparr>"
    obtain d where d: "marshal J ?x = Some d" using Cons.prems(2) by auto
    have x: "plain_model ?x" "mID ?x \<noteq> ''''" using Cons.prems(2) by (simp_all add: plain_model_def)
    let ?r1 = "snd (redis_UpdateModel S J no_faults ?x r)"
    note eff = redis_UpdateModel_effect [OF assms Cons.prems(1) x d]
    have IH: "models_inv S J (clear_defaults S J no_faults p l ?r1)"
      "\<And>i a. models_of S J (clear_defaults S J no_faults p l ?r1) i = Some a \<Longrightarrow> mIsDefault a \<Longrightarrow>
        models_of S J ?r1 i = Some a \<and> \<not> (a \<in> set l \<and> p a)"
      using Cons.IH [OF eff(2)] Cons.prems(2) by auto
    have "models_of S J r i = Some a \<and> \<not> (a \<in> set (x # l) \<and> p a)"
      if "models_of S J (clear_defaults S J no_faults p l ?r1) i = Some a" "mIsDefault a" for i a
    proof -
      have a: "((models_of S J r)(mID x \<mapsto> ?x)) i = Some a" "\<not> (a \<in> set l \<and> p a)"
        using IH(2) [OF that] unfolding eff(1) by simp_all
      then have "i \<noteq> mID x" "models_of S J r i = Some a" using that(2) by (auto split: if_splits)
      moreover have "a \<noteq> x" using models_of_inv(1) [OF Cons.prems(1) calculation(2)] calculation(1) by auto
      ultimately show ?thesis using a(2) by auto
    qed
    moreover have "clear_defaults S J no_faults p (x # l) r = clear_defaults S J no_faults p l ?r1" using True by simp
    ultimately show ?thesis using IH(1) by (simp only:) blast
  qed
qed

section \<open>Properties\<close>

text \<open>The records the loop may write can be encoded.\<close>

definition clearable :: "'r redis_store \<Rightarrow> model codec \<Rightarrow> 'r \<Rightarrow> bool" where
  "clearable S J r \<longleftrightarrow> (\<forall>i a. models_of S J r i = Some a \<longrightarrow> marshal J (a\<lparr>mIsDefault := False\<rparr>) \<noteq> None)"

lemma with_defaults_cleared_effect:
  assumes "redis_ok (client S)" and "codec_ok plain_model J" and "configured S" and "models_inv S J r" and "clearable S J r"
  shows "models_inv S J (with_defaults_cleared S J no_faults p m r)"
    and "models_of S J (with_defaults_cleared S J no_faults p m r) i = Some a \<Longrightarrow> mIsDefault a \<Longrightarrow>
      models_of S J r i = Some a \<and> (mIsDefault m \<longrightarrow> \<not> p a)"
proof -
  obtain l where l: "redis_ListModels S J no_faults r = Inr l" "set l = {m. \<exists>i. models_of S J r i = Some m}"
    by (rule redis_ListModels_all [OF assms(3,4)])
  have "\<forall>o' \<in> set l. plain_model o' \<and> mID o' \<noteq> '''' \<and> marshal J (o'\<lparr>mIsDefault := False\<rparr>) \<noteq> None"
    using models_of_inv(1-3) [OF assms(4)] assms(5) by (fastforce simp: l(2) clearable_def)
  note eff = clear_defaults_effect [OF assms(1-4) this, of p]
  show "models_inv S J (with_defaults_cleared S J no_faults p m r)"
    using eff assms(4) l(1) by (simp add: with_defaults_cleared_def)
  show "models_of S J r i = Some a \<and> (mIsDefault m \<longrightarrow> \<not> p a)"
    if "models_of S J (with_defaults_cleared S J no_faults p m r) i = Some a" "mIsDefault a"
  proof (cases "mIsDefault m")
    case True
    then have "models_of S J (clear_defaults S J no_faults p l r) i = Some a"
      using that(1) l(1) by (simp add: with_defaults_cleared_def)
    then have "models_of S J r i = Some a" "\<not> (a \<in> set l \<and> p a)" using eff that(2) by blast+
    then show ?thesis using l(2) by auto
  next
    case False
    then show ?thesis using that(1) by (simp add: with_defaults_cleared_def)
  qed
qed

lemma plain_itoa: "plain_string (itoa n)"
  by (auto simp: plain_string_def dest!: itoa_chars)

lemma redis_CreateModel_effect:
  assumes "redis_ok (client S)" and "codec_ok plain_model J" and "configured S" and "models_inv S J r" and "plain_model m"
    and "redis_CreateModel S J no_faults m r = (e, m', r')"
  shows "models_inv S J r'"
    and "e = None \<and> m' = m\<lparr>mID := mID m'\<rparr> \<and> mID m' \<noteq> '''' \<and> models_of S J r' = (models_of S J r)(mID m' \<mapsto> m')
      \<or> e \<noteq> None \<and> models_of S J r' = models_of S J r"
    and "e = None \<Longrightarrow> trim_space (mModelID m) \<noteq> '''' \<Longrightarrow>
      r_hget (client S) r' (modelsChannelModelIDMapKey S) (modelChannelIndexKey (mChannel m) (mModelID m)) = Some (mID m')"
proof -
  obtain n where n: "0 \<le> n" "counter_at (client S) r (modelsNextIDKey S) n"
    using assms(4) by (auto simp: models_inv_def)
  note laws = redis_incr [OF assms(1) n(2)]
  let ?m = "m\<lparr>mID := itoa (n + 1)\<rparr>"
  have plain: "plain_model ?m" using assms(5) by (simp add: plain_model_def plain_itoa)
  have id: "mID ?m \<noteq> ''''" by (simp add: itoa_def)
  have "models_inv S J r' \<and> (e = None \<and> m' = ?m \<and> models_of S J r' = (models_of S J r)(mID m' \<mapsto> m')
        \<and> (trim_space (mModelID m) \<noteq> '''' \<longrightarrow> r_hget (client S) r' (modelsChannelModelIDMapKey S)
            (modelChannelIndexKey (mChannel m) (mModelID m)) = Some (mID m'))
      \<or> e \<noteq> None \<and> models_of S J r' = models_of S J r)"
  proof (cases "in64 (n + 1)")
    case False
    then show ?thesis using laws(3) assms(3,4,6) by (auto simp: redis_CreateModel_def incr_def no_faults_def)
  next
    case True
    obtain r1 where r1: "r_incr (client S) (modelsNextIDKey S) r = (Some (n + 1), r1)"
      using laws(1) [OF True] by (cases "r_incr (client S) (modelsNextIDKey S) r") simp
    have r1': "r1 = snd (r_incr (client S) (modelsNextIDKey S) r)" by (simp add: r1)
    have same: "models_of S J r1 = models_of S J r"
      by (simp add: models_of_def fun_eq_iff r1' redis_get [OF assms(1)])
    have "counter_at (client S) r1 (modelsNextIDKey S) (n + 1)"
      using laws(2) [OF True] True by (simp add: r1' counter_at_def)
    then have inv1: "models_inv S J r1"
      using assms(4) n(1) unfolding models_inv_def
      by (intro conjI exI [of _ "n + 1"]) (auto simp: r1' redis_get [OF assms(1)] redis_members [OF assms(1)])
    show ?thesis
    proof (cases "marshal J ?m")
      case None
      then show ?thesis using r1 inv1 same assms(3,6)
        by (auto simp: redis_CreateModel_def incr_def no_faults_def Let_def)
    next
      case (Some d)
      have d: "unmarshal J d = Some ?m" "d \<noteq> ''''" using codec_okD [OF assms(2) plain Some] by auto
      let ?cs = "if trim_space (mModelID m) \<noteq> ''''
         then [HSETNX (modelsModelIDMapKey S) (mModelID m) (mID ?m),
               HSET (modelsChannelModelIDMapKey S) (modelChannelIndexKey (mChannel m) (mModelID m)) (mID ?m)]
         else []"
      have idx: "list_all (index_command S) ?cs" by (simp add: index_command_def)
      have res: "e = None" "m' = ?m"
        "r' = fold (exec (client S)) ([SET (modelsKey S (mID ?m)) d, SADD (modelsIDsKey S) (mID ?m)] @ ?cs) r1"
        using assms(3,6) r1 Some by (auto simp: redis_CreateModel_def incr_def no_faults_def Let_def pipeline_def)
      have "r_hget (client S) r' (modelsChannelModelIDMapKey S)
            (modelChannelIndexKey (mChannel m) (mModelID m)) = Some (mID m')" if "trim_space (mModelID m) \<noteq> ''''"
        using that by (simp add: res redis_hget [OF assms(1)])
      moreover note write_model [OF assms(1) inv1 d plain id idx, folded res(3)]
      ultimately show ?thesis using res(1,2) same by simp
    qed
  qed
  then show "models_inv S J r'"
    and "e = None \<and> m' = m\<lparr>mID := mID m'\<rparr> \<and> mID m' \<noteq> '''' \<and> models_of S J r' = (models_of S J r)(mID m' \<mapsto> m')
      \<or> e \<noteq> None \<and> models_of S J r' = models_of S J r"
    and "e = None \<Longrightarrow> trim_space (mModelID m) \<noteq> '''' \<Longrightarrow>
      r_hget (client S) r' (modelsChannelModelIDMapKey S) (modelChannelIndexKey (mChannel m) (mModelID m)) = Some (mID m')"
    using id by auto
qed

text \<open>
  At most one default model per channel: creating or updating a model keeps it so
  (when no round trip fails), whether or not the model is a default, renames its channel or is
  new; and the records stay well formed.
\<close>

theorem one_default_per_channel:
  assumes "redis_ok (client S)" and "codec_ok plain_model J" and "configured S" and "models_inv S J r"
    and "clearable S J r" and "default_unique S J r" and "plain_model m"
  shows "default_unique S J (snd (snd (Store_CreateModel S J no_faults no_faults m r)))
    \<and> default_unique S J (snd (Store_UpdateModel S J no_faults no_faults m r))
    \<and> models_inv S J (snd (snd (Store_CreateModel S J no_faults no_faults m r)))
    \<and> models_inv S J (snd (Store_UpdateModel S J no_faults no_faults m r))"
proof -
  note eff = with_defaults_cleared_effect [OF assms(1-5)]
  let ?p = "\<lambda>other. mChannel other = mChannel m" and ?q = "\<lambda>other. mChannel other = mChannel m \<and> mID other \<noteq> mID m"
  let ?r1 = "with_defaults_cleared S J no_faults ?p m r" and ?r2 = "with_defaults_cleared S J no_faults ?q m r"
  have unique: "default_unique S J r'"
    if tab: "models_of S J r' = models_of S J (with_defaults_cleared S J no_faults p m r)
        \<or> models_of S J r' = (models_of S J (with_defaults_cleared S J no_faults p m r))(k \<mapsto> m')"
      and m': "mIsDefault m' = mIsDefault m" "mChannel m' = mChannel m"
      and p: "\<And>i a. models_of S J r i = Some a \<Longrightarrow> mChannel a = mChannel m \<Longrightarrow> \<not> p a \<Longrightarrow> i = k"
    for r' p k m'
  proof -
    have old: "models_of S J r i = Some a \<and> (mIsDefault m \<longrightarrow> \<not> p a) \<or> i = k \<and> a = m'"
      if "models_of S J r' i = Some a" "mIsDefault a" for i a
      using tab that eff(2) [of p m i a] by (auto split: if_splits)
    show ?thesis unfolding default_unique_def
    proof (intro allI impI)
      fix i j a b
      assume h: "models_of S J r' i = Some a \<and> models_of S J r' j = Some b \<and> mIsDefault a \<and> mIsDefault b \<and> mChannel a = mChannel b"
      have both: "i = j" if "models_of S J r i = Some a" "models_of S J r j = Some b"
        using assms(6) [unfolded default_unique_def, rule_format, of i a j b] that h by blast
      have new: "x = k" if "models_of S J r x = Some c" "mIsDefault m \<longrightarrow> \<not> p c" "mIsDefault m'" "mChannel c = mChannel m'" for x c
        using p [OF that(1)] that m' by simp
      from old [of i a] old [of j b] h consider
          "models_of S J r i = Some a" "models_of S J r j = Some b"
        | "i = k" "j = k"
        | "i = k" "a = m'" "models_of S J r j = Some b" "mIsDefault m \<longrightarrow> \<not> p b"
        | "j = k" "b = m'" "models_of S J r i = Some a" "mIsDefault m \<longrightarrow> \<not> p a" by blast
      then show "i = j"
      proof cases
        case 1 then show ?thesis by (rule both)
      next
        case 2 then show ?thesis by simp
      next
        case 3 then show ?thesis using new [of j b] h by simp
      next
        case 4 then show ?thesis using new [of i a] h by simp
      qed
    qed
  qed
  obtain e m' r' where c: "redis_CreateModel S J no_faults m ?r1 = (e, m', r')" by (cases "redis_CreateModel S J no_faults m ?r1")
  note ce = redis_CreateModel_effect [OF assms(1-3) eff(1) [of ?p m] assms(7) c]
  have "default_unique S J r'"
  proof (cases "e = None")
    case True
    then have m': "m' = m\<lparr>mID := mID m'\<rparr>" and "models_of S J r' = (models_of S J ?r1)(mID m' \<mapsto> m')" using ce(2) by auto
    moreover have "mIsDefault m' = mIsDefault m" "mChannel m' = mChannel m"
      by (subst m', simp)+
    ultimately show ?thesis by (intro unique [of r' ?p "mID m'" m']) auto
  next
    case False
    then show ?thesis using ce(2) by (intro unique [of r' ?p "''''" m]) auto
  qed
  moreover have "default_unique S J (snd (redis_UpdateModel S J no_faults m ?r2)) \<and> models_inv S J (snd (redis_UpdateModel S J no_faults m ?r2))"
  proof (cases "mID m = '''' \<or> marshal J m = None")
    case True
    then have "snd (redis_UpdateModel S J no_faults m ?r2) = ?r2" using assms(3) by (auto simp: redis_UpdateModel_def Let_def)
    moreover have "default_unique S J ?r2"
    proof (rule unique [of ?r2 ?q "mID m" m])
      show "i = mID m" if "models_of S J r i = Some a" "mChannel a = mChannel m" "\<not> ?q a" for i a
        using that models_of_inv(1) [OF assms(4) that(1)] by simp
    qed simp_all
    ultimately show ?thesis using eff(1) [of ?q m] by simp
  next
    case False
    then obtain d where d: "marshal J m = Some d" by auto
    note ue = redis_UpdateModel_effect [OF assms(1-3) eff(1) [of ?q m] assms(7) _ d]
    have "default_unique S J (snd (redis_UpdateModel S J no_faults m ?r2))"
    proof (rule unique [of _ ?q "mID m" m])
      show "i = mID m" if "models_of S J r i = Some a" "mChannel a = mChannel m" "\<not> ?q a" for i a
        using that models_of_inv(1) [OF assms(4) that(1)] by simp
    qed (use ue(1) False in simp_all)
    then show ?thesis using ue(2) False by simp
  qed
  ultimately show ?thesis using ce(1) c by (simp add: Store_CreateModel_def Store_UpdateModel_def)
qed

text \<open>
  A model that was created is found by its channel and model ID: up to the case and
  separators of the channel and surrounding blanks of the ID, the lookup returns the model as it
  was stored, and changes nothing.
\<close>

theorem created_model_found:
  assumes "redis_ok (client S)" and "codec_ok plain_model J" and "configured S" and "models_inv S J r" and "plain_model m"
    and "redis_CreateModel S J no_faults m r = (None, m', r')" and "trim_space (mModelID m) \<noteq> ''''"
    and "normalizeModelChannelKey channel = normalizeModelChannelKey (mChannel m)" and "trim_space i = trim_space (mModelID m)"
  shows "redis_GetModelByChannelAndModelID S J no_faults channel i r' = (Inr m', r') \<and> m' = m\<lparr>mID := mID m'\<rparr>"
proof -
  note ce = redis_CreateModel_effect [OF assms(1-6)]
  have m': "m' = m\<lparr>mID := mID m'\<rparr>" "mID m' \<noteq> ''''" "models_of S J r' (mID m') = Some m'" using ce(2) by auto
  obtain d where d: "r_get (client S) r' (modelsKey S (mID m')) = Some d" "unmarshal J d = Some m'"
    using m'(3) by (auto simp: models_of_def bind_eq_Some_conv)
  have "modelChannelIndexKey channel (trim_space (mModelID m)) = modelChannelIndexKey (mChannel m) (mModelID m)"
    using assms(8) by (simp add: modelChannelIndexKey_def)
  then have "redis_GetModelByChannelAndModelID S J no_faults channel i r' = (Inr m', r')"
    using assms(3,7) m'(2) ce(3) d unfolding redis_GetModelByChannelAndModelID_def assms(9)
    by (simp add: hget_or_empty_def redis_GetModel_def no_faults_def)
  then show ?thesis using m'(1) by simp
qed

section \<open>A concrete store\<close>

definition model_store :: "server redis_store" where
  "model_store = \<lparr>configured = True, client = map_redis, prefix = ''dabbo:''\<rparr>"

definition sample_model :: "string \<Rightarrow> string \<Rightarrow> model" where
  "sample_model i name = \<lparr>mID = i, mChannel = ''Puter'', mModelID = name, mName = name, mStatus = ModelStatusAvailable,
     mVerified = False, mIsDefault = True, mSortOrder = 0\<rparr>"

definition model_codec :: "model codec" where
  "model_codec = table_codec [(''d1'', sample_model ''1'' ''gpt-5''), (''c1'', (sample_model ''1'' ''gpt-5'')\<lparr>mIsDefault := False\<rparr>),
     (''d2'', sample_model ''2'' ''o3''), (''n1'', sample_model ''1'' ''gpt-6'')]"

definition one_model :: server where
  "one_model = gm_put (modelsKey model_store ''1'') (RStr ''d1'') (gm_put (modelsIDsKey model_store) (RSet [''1''])
     (gm_put (modelsModelIDMapKey model_store) (RHash [(''gpt-5'', ''1'')]) (gm_put (modelsNextIDKey model_store) (RStr ''1'') [])))"

lemma plain_sample_model: "plain_string i \<Longrightarrow> plain_string name \<Longrightarrow> plain_model (sample_model i name)"
  by (simp add: plain_model_def sample_model_def plain_string_def)

lemma one_model_table: "models_of model_store model_codec one_model = [''1'' \<mapsto> sample_model ''1'' ''gpt-5'']"
  by (simp add: models_of_def one_model_def model_store_def [unfolded atomize_eq] sv_observe fun_eq_iff model_codec_def table_codec_def
      sv_str_def gomap_simps)

lemma one_model_counter: "counter_at (client model_store) one_model (modelsNextIDKey model_store) 1"
proof -
  have "itoa 1 = ''1''" by code_simp
  then show ?thesis
    by (simp add: counter_at_def in64_def one_model_def model_store_def sv_str_def gomap_simps modelsKey_def modelsIDsKey_def
        modelsModelIDMapKey_def modelsNextIDKey_def)
qed

lemma one_model_facts:
  "redis_ok (client model_store)" "codec_ok plain_model model_codec" "configured model_store"
  "models_inv model_store model_codec one_model" "clearable model_store model_codec one_model"
  "default_unique model_store model_codec one_model"
proof -
  show "redis_ok (client model_store)" "configured model_store" by (simp_all add: model_store_def map_redis_ok)
  show "codec_ok plain_model model_codec" by (simp add: model_codec_def table_codec_ok)
  have key: "r_get (client model_store) one_model (modelsKey model_store i) = (if i = ''1'' then Some ''d1'' else None)" for i
    by (simp add: one_model_def model_store_def sv_str_def gomap_simps modelsKey_def modelsIDsKey_def modelsModelIDMapKey_def
        modelsNextIDKey_def)
  have "members (client model_store) one_model (modelsIDsKey model_store) = {''1''}"
    by (simp add: members_def one_model_def model_store_def sv_set_def gomap_simps modelsKey_def modelsIDsKey_def)
  moreover note one_model_counter
  moreover have "plain_model (sample_model ''1'' ''gpt-5'')" "mID (sample_model ''1'' ''gpt-5'') = ''1''"
    using plain_sample_model [of "''1''" "''gpt-5''"] by (simp_all add: plain_string_def) (simp add: sample_model_def)
  moreover have "unmarshal model_codec ''d1'' = Some (sample_model ''1'' ''gpt-5'')"
    by (simp add: model_codec_def table_codec_def)
  moreover have "(0 :: int) \<le> 1" by simp
  ultimately show "models_inv model_store model_codec one_model"
    unfolding models_inv_def key by (metis insertI1 list.distinct(1) option.distinct(1) option.inject)
  show "clearable model_store model_codec one_model"
  proof -
    have "marshal model_codec ((sample_model ''1'' ''gpt-5'')\<lparr>mIsDefault := False\<rparr>) \<noteq> None"
      by (simp add: model_codec_def table_codec_def sample_model_def)
    then show ?thesis by (simp add: clearable_def one_model_table)
  qed
  show "default_unique model_store model_codec one_model"
    by (auto simp: default_unique_def one_model_table split: if_splits)
qed

theorem one_default_per_channel_witness:
  "default_unique model_store model_codec
     (snd (snd (Store_CreateModel model_store model_codec no_faults no_faults (sample_model '''' ''o3'') one_model)))"
  using one_default_per_channel [OF one_model_facts plain_sample_model, of "''''" "''o3''"]
  by (simp add: plain_string_def)

lemma create_second:
  obtains r' where "redis_CreateModel model_store model_codec no_faults (sample_model '''' ''o3'') one_model
    = (None, sample_model ''2'' ''o3'', r')"
proof -
  have "counter_at map_redis one_model (modelsNextIDKey model_store) 1"
    using one_model_counter by (simp add: model_store_def)
  then have "r_incr map_redis (modelsNextIDKey model_store) one_model
      = (Some 2, gm_put (modelsNextIDKey model_store) (RStr (itoa 2)) one_model)"
    by (simp add: map_redis_incr in64_def)
  moreover have "itoa 2 = ''2''" by code_simp
  moreover have "(sample_model '''' ''o3'')\<lparr>mID := ''2''\<rparr> = sample_model ''2'' ''o3''"
    "mModelID (sample_model '''' ''o3'') = ''o3''" by (simp_all add: sample_model_def)
  moreover have "marshal model_codec (sample_model ''2'' ''o3'') = Some ''d2''"
    by (simp add: model_codec_def table_codec_def sample_model_def)
  ultimately show thesis using that
    by (simp add: redis_CreateModel_def incr_def no_faults_def model_store_def pipeline_def Let_def)
qed

theorem created_model_found_witness:
  "\<exists>r'. redis_GetModelByChannelAndModelID model_store model_codec no_faults ''PUTER'' ''o3'' r'
   = (Inr (sample_model ''2'' ''o3''), r')"
proof -
  obtain r' where c: "redis_CreateModel model_store model_codec no_faults (sample_model '''' ''o3'') one_model
      = (None, sample_model ''2'' ''o3'', r')" by (rule create_second)
  have "plain_model (sample_model '''' ''o3'')" by (rule plain_sample_model) (simp_all add: plain_string_def)
  moreover have t: "trim_space ''o3'' = ''o3''" "trim_space ''PUTER'' = ''PUTER''" "trim_space ''Puter'' = ''Puter''"
    by (rule trim_space_id; simp add: printable_def)+
  have "to_lower ''PUTER'' = to_lower ''Puter''" by code_simp
  with t have "normalizeModelChannelKey ''PUTER'' = normalizeModelChannelKey (mChannel (sample_model '''' ''o3''))"
    by (simp add: normalizeModelChannelKey_def sample_model_def)
  ultimately show ?thesis
    using created_model_found [OF one_model_facts(1-4) _ c] t(1) by (auto simp: sample_model_def)
qed

text \<open>
  The index by model ID is not cleared by an update: after a model was renamed, a lookup
  of its old model ID still finds the record, which now carries another model ID.
\<close>

theorem renamed_model_still_found:
  assumes "redis_ok (client S)" and "codec_ok plain_model J" and "configured S" and "models_inv S J r" and "plain_model m"
    and "mID m \<noteq> ''''" and "marshal J m = Some d" and "r_hget (client S) r (modelsModelIDMapKey S) (trim_space old) = Some (mID m)"
    and "trim_space old \<noteq> ''''" and "mModelID m \<noteq> trim_space old"
  shows "fst (redis_GetModelByModelID S J no_faults old (snd (redis_UpdateModel S J no_faults m r))) = Inr m"
proof -
  let ?r' = "snd (redis_UpdateModel S J no_faults m r)"
  have "models_of S J ?r' (mID m) = Some m" using redis_UpdateModel_effect(1) [OF assms(1-7)] by simp
  then obtain d' where d': "r_get (client S) ?r' (modelsKey S (mID m)) = Some d'" "unmarshal J d' = Some m"
    by (auto simp: models_of_def bind_eq_Some_conv)
  have "r_hget (client S) ?r' (modelsModelIDMapKey S) (trim_space old) = Some (mID m)"
    using assms(3,6-8,10)
    by (auto simp: redis_UpdateModel_def no_faults_def pipeline_def update_commands_def redis_hget [OF assms(1)] Let_def
        split: option.split)
  then show ?thesis using assms(3,6,9) d'
    by (simp add: redis_GetModelByModelID_def hget_or_empty_def redis_GetModel_def no_faults_def)
qed

theorem renamed_model_still_found_witness:
  "fst (redis_GetModelByModelID model_store model_codec no_faults ''gpt-5''
     (snd (redis_UpdateModel model_store model_codec no_faults (sample_model ''1'' ''gpt-6'') one_model)))
   = Inr (sample_model ''1'' ''gpt-6'')"
proof -
  have "plain_model (sample_model ''1'' ''gpt-6'')" by (rule plain_sample_model) (simp_all add: plain_string_def)
  moreover have "marshal model_codec (sample_model ''1'' ''gpt-6'') = Some ''n1''"
    by (simp add: model_codec_def table_codec_def sample_model_def)
  moreover have t: "trim_space ''gpt-5'' = ''gpt-5''" by (rule trim_space_id) (simp_all add: printable_def)
  moreover have "r_hget (client model_store) one_model (modelsModelIDMapKey model_store) ''gpt-5'' = Some ''1''"
    by (simp add: one_model_def model_store_def sv_hash_def gomap_simps modelsKey_def modelsIDsKey_def modelsModelIDMapKey_def)
  ultimately show ?thesis
    by (intro renamed_model_still_found [OF one_model_facts(1-4)]) (simp_all add: sample_model_def)
qed

text \<open>
  A status survives being written and read: the three statuses are read back as they
  were, the empty one as offline; and whatever bytes are read (old booleans, unknown words,
  garbage) the result is one of the three.
\<close>

theorem status_roundtrip:
  assumes "json_scalars_ok P" and "s \<in> {'''', ModelStatusAvailable, ModelStatusMaintenance, ModelStatusOffline}"
  shows "UnmarshalStatus P (MarshalStatus P s) = (if s = '''' then ModelStatusOffline else s)
    \<and> UnmarshalStatus P data \<in> {ModelStatusAvailable, ModelStatusMaintenance, ModelStatusOffline}"
proof -
  define t where "t = (if s = '''' then ModelStatusOffline else s)"
  note defs = ModelStatusAvailable_def ModelStatusMaintenance_def ModelStatusOffline_def
  have "list_all printable t" using assms(2) by (auto simp: t_def defs printable_def)
  then have P: "js_string P (js_quote P t) = Some t" "js_bool P (js_quote P t) = None" "trim_space (js_quote P t) = js_quote P t"
    "js_quote P t \<noteq> ''''" "js_quote P t \<noteq> ''null''"
    using assms(1) by (simp_all add: json_scalars_ok_def)
  have "to_lower (trim_space t) = t" if "t \<in> {ModelStatusAvailable, ModelStatusMaintenance, ModelStatusOffline}" for t
  proof -
    have "trim_space t = t" using that by (intro trim_space_id) (auto simp: defs printable_def)
    moreover have "to_lower ''available'' = ''available''" "to_lower ''maintenance'' = ''maintenance''" "to_lower ''offline'' = ''offline''"
      by code_simp+
    ultimately show ?thesis using that by (auto simp: defs)
  qed
  moreover have "t \<in> {ModelStatusAvailable, ModelStatusMaintenance, ModelStatusOffline}" using assms(2) by (auto simp: t_def)
  ultimately have t: "to_lower (trim_space t) = t" "t \<in> {ModelStatusAvailable, ModelStatusMaintenance, ModelStatusOffline}" by blast+
  have "UnmarshalStatus P (js_quote P t) = (if t \<in> {''available'', ''enabled'', ''true'', ''on'', ''1''} then ModelStatusAvailable
      else if t \<in> {''maintenance'', ''maint''} then ModelStatusMaintenance else ModelStatusOffline)"
    by (simp only: UnmarshalStatus_def Let_def P t(1) option.case if_False de_Morgan_disj simp_thms)
  also have "\<dots> = t" using t(2) by (elim insertE emptyE) (simp_all add: defs)
  finally have "UnmarshalStatus P (MarshalStatus P s) = t" by (simp add: MarshalStatus_def t_def)
  moreover have "UnmarshalStatus P data \<in> {ModelStatusAvailable, ModelStatusMaintenance, ModelStatusOffline}"
    by (auto simp: UnmarshalStatus_def Let_def split: option.split)
  ultimately show ?thesis by (simp add: t_def)
qed

definition plain_scalars :: json_scalars where
  "plain_scalars = \<lparr>js_bool = (\<lambda>d. if d = ''true'' then Some True else if d = ''false'' then Some False else None),
     js_string = (\<lambda>d. case d of [] \<Rightarrow> None | c # t \<Rightarrow> if c = CHR 0x22 \<and> t \<noteq> [] then Some (butlast t) else None),
     js_quote = (\<lambda>s. [CHR 0x22] @ s @ [CHR 0x22])\<rparr>"

theorem status_roundtrip_witness:
  "UnmarshalStatus plain_scalars (MarshalStatus plain_scalars ''maintenance'') = ''maintenance''"
proof -
  have "json_scalars_ok plain_scalars"
    by (auto simp: json_scalars_ok_def plain_scalars_def printable_def intro!: trim_space_id)
  from status_roundtrip [OF this, of "''maintenance''"] show ?thesis by (simp add: ModelStatusMaintenance_def)
qed

end
