(* ===== verification/Handler_Select.thy ===== *)
theory Handler_Select
  imports Error_Properties Client_Cache Model_Store
begin

text \<open>
  The helpers of \<open>internal/handler/handler_helpers.go\<close> that choose the account and the client of a
  request: session affinity, the quota filter, the call of the load balancer, the connection count
  and the check of the requested model; and the back-off of the retry loops.
\<close>

section \<open>The handler\<close>

record 's handler =
  h_client :: "client option"
  h_lb :: "'s lb option"
  h_tracker :: "tracker option"
  h_cache :: client_cache

text \<open>What does not change while the handler runs: its store, configuration and constructors.\<close>

record 's deps =
  d_ops :: "'s store_ops"
  d_sha256hex :: "string \<Rightarrow> string"
  d_factory :: client_factory
  d_config :: "config option"

text \<open>
  What one selection reads from outside: the clock and the random draw of the load balancer, the
  listing of all accounts (none when there is no Redis client or it fails), the answers of the
  pipelined \<open>EXISTS\<close>, and the quota store, if any, whose answer \<open>None\<close> is a Redis error.
\<close>

record sel_env =
  se_clock :: "nat \<Rightarrow> instant"
  se_rand :: nat
  se_listed :: "account list option"
  se_exists :: "string \<Rightarrow> bool"
  se_blocked :: "(int \<Rightarrow> string \<Rightarrow> bool option) option"

datatype select_error = LBError lb_error | LBNotConfigured | NoClientConfigured

section \<open>Selection\<close>

definition firstString :: "string list \<Rightarrow> string" where
  "firstString values = (case find (\<lambda>v. v \<noteq> '''') (map trim_space values) of Some v \<Rightarrow> v | None \<Rightarrow> '''')"

definition quotaFilter :: "sel_env \<Rightarrow> string \<Rightarrow> string \<Rightarrow> account \<Rightarrow> bool" where
  "quotaFilter env targetChannel modelID acc = (case se_blocked env of
     None \<Rightarrow> True
   | Some IsBlocked \<Rightarrow>
      if modelID = '''' then True
      else if \<not> equal_fold targetChannel ''codebuff'' then True
      else (case IsBlocked (ID acc) modelID of None \<Rightarrow> True | Some blocked \<Rightarrow> \<not> blocked))"

definition trim_suffix :: "string \<Rightarrow> string \<Rightarrow> string" where
  "trim_suffix s p = (if has_suffix s p then take (length s - length p) s else s)"

definition hashToken :: "(string \<Rightarrow> string) \<Rightarrow> string \<Rightarrow> string" where
  "hashToken sha256hex token = take 16 (sha256hex token)"

definition session_prefix :: "config option \<Rightarrow> string" where
  "session_prefix cfg = (case cfg of
     Some c \<Rightarrow> if cfg_RedisPrefix c \<noteq> '''' then trim_suffix (cfg_RedisPrefix c) '':'' @ '':codebuff'' else ''codebuff''
   | None \<Rightarrow> ''codebuff'')"

definition session_key :: "'s deps \<Rightarrow> string \<Rightarrow> account \<Rightarrow> string" where
  "session_key D model acc = session_prefix (d_config D) @ '':session:''
     @ hashToken (d_sha256hex D) (ResolveAuthToken (Some acc)) @ '':'' @ model"

definition trySessionAffinity ::
    "'s deps \<Rightarrow> sel_env \<Rightarrow> string \<Rightarrow> int list \<Rightarrow> (account \<Rightarrow> bool) option \<Rightarrow> account option" where
  "trySessionAffinity D env model failedIDs flt = (case se_listed env of
     None \<Rightarrow> None
   | Some all \<Rightarrow>
      let candidates = filter (\<lambda>acc. equal_fold (AccountType acc) ''codebuff'' \<and> ResolveAuthToken (Some acc) \<noteq> '''') all
      in find (\<lambda>acc. se_exists env (session_key D model acc) \<and> ID acc \<notin> set failedIDs \<and> Enabled acc
           \<and> (case flt of None \<Rightarrow> True | Some f \<Rightarrow> f acc)) candidates)"

definition selectAccountRecordWithOptions ::
    "'s deps \<Rightarrow> sel_env \<Rightarrow> string \<Rightarrow> int list \<Rightarrow> string \<Rightarrow> 's handler \<Rightarrow> (select_error + account) \<times> 's handler" where
  "selectAccountRecordWithOptions D env targetChannel failedIDs modelID h = (case h_lb h of
     None \<Rightarrow> (Inl LBNotConfigured, h)
   | Some lb \<Rightarrow>
      (case (if modelID \<noteq> '''' \<and> equal_fold targetChannel ''codebuff''
             then trySessionAffinity D env modelID failedIDs (Some (quotaFilter env targetChannel modelID)) else None) of
         Some acc \<Rightarrow> (Inr acc, h)
       | None \<Rightarrow>
          (case GetNextAccountExcludingByChannelWithTrackerFilter (d_ops D) (se_clock env) (se_rand env) failedIDs
              targetChannel (h_tracker h) (Some (quotaFilter env targetChannel modelID)) lb of
             (Inl e, lb) \<Rightarrow> (Inl (LBError e), h\<lparr>h_lb := Some lb\<rparr>)
           | (Inr acc, lb) \<Rightarrow> (Inr acc, h\<lparr>h_lb := Some lb\<rparr>))))"

definition selectAccountWithOptions ::
    "'s deps \<Rightarrow> sel_env \<Rightarrow> string \<Rightarrow> bool \<Rightarrow> int list \<Rightarrow> string \<Rightarrow> 's handler
     \<Rightarrow> (select_error + client \<times> account option) \<times> 's handler" where
  "selectAccountWithOptions D env targetChannel channelRequired failedIDs modelID h =
    (if h_lb h \<noteq> None then
       (case selectAccountRecordWithOptions D env targetChannel failedIDs modelID h of
          (Inl err, h) \<Rightarrow>
            (if channelRequired then (Inl err, h)
             else case h_client h of Some c \<Rightarrow> (Inr (c, None), h) | None \<Rightarrow> (Inl err, h))
        | (Inr account, h) \<Rightarrow>
            (case getOrCreateAccountClient (d_sha256hex D) (d_factory D) (d_config D) (Some account) (h_cache h) of
               (None, w) \<Rightarrow> (Inl NoClientConfigured, h\<lparr>h_cache := w\<rparr>)
             | (Some c, w) \<Rightarrow> (Inr (c, Some account), h\<lparr>h_cache := w\<rparr>)))
     else case h_client h of Some c \<Rightarrow> (Inr (c, None), h) | None \<Rightarrow> (Inl NoClientConfigured, h))"

definition selectAccount where
  "selectAccount D env targetChannel channelRequired failedIDs modelID h =
     selectAccountWithOptions D env targetChannel channelRequired failedIDs (firstString modelID) h"

section \<open>Connection counts\<close>

definition acquireTrackedAccount :: "account option \<Rightarrow> 's handler \<Rightarrow> int \<times> 's handler" where
  "acquireTrackedAccount acc h = (case acc of
     None \<Rightarrow> (0, h)
   | Some a \<Rightarrow>
      if ID a = 0 then (0, h)
      else (case h_tracker h of
          Some t \<Rightarrow> (ID a, h\<lparr>h_tracker := Some (mem_Acquire (ID a) t)\<rparr>)
        | None \<Rightarrow> (case h_lb h of
            Some lb \<Rightarrow> (ID a, h\<lparr>h_lb := Some (AcquireConnection (ID a) lb)\<rparr>)
          | None \<Rightarrow> (0, h))))"

definition releaseTrackedAccount :: "int \<Rightarrow> 's handler \<Rightarrow> 's handler" where
  "releaseTrackedAccount accountID h =
    (if accountID = 0 then h
     else (case h_tracker h of
         Some t \<Rightarrow> h\<lparr>h_tracker := Some (mem_Release accountID t)\<rparr>
       | None \<Rightarrow> (case h_lb h of
           Some lb \<Rightarrow> h\<lparr>h_lb := Some (ReleaseConnection accountID lb)\<rparr>
         | None \<Rightarrow> h)))"

section \<open>The requested model\<close>

definition sameModelChannel :: "string \<Rightarrow> string \<Rightarrow> bool" where
  "sameModelChannel a b =
    (let normalize = (\<lambda>value. replace_char CHR '' '' CHR ''-'' (replace_char CHR ''_'' CHR ''-'' (to_lower (trim_space value))))
     in normalize a = normalize b)"

datatype gate_error = GateNotFound | GateNotAvailable

text \<open>The store is nil when \<open>S\<close> is \<open>None\<close>; then, and for an empty model, there is nothing to check.\<close>

definition validateModelAvailability ::
    "'r redis_store option \<Rightarrow> model codec \<Rightarrow> faults \<Rightarrow> string \<Rightarrow> string \<Rightarrow> 'r \<Rightarrow> (gate_error + model option) \<times> 'r" where
  "validateModelAvailability S J ft modelID forcedChannel r = (case S of
     None \<Rightarrow> (Inr None, r)
   | Some S \<Rightarrow>
      let modelID = trim_space modelID in
      if modelID = '''' then (Inr None, r)
      else (case (if forcedChannel \<noteq> '''' then redis_GetModelByChannelAndModelID S J ft forcedChannel modelID r
                  else redis_GetModelByModelID S J ft modelID r) of
          (Inl _, r) \<Rightarrow> (Inl GateNotFound, r)
        | (Inr m, r) \<Rightarrow>
            if \<not> ModelStatus_Enabled (mStatus m) then (Inl GateNotAvailable, r)
            else if forcedChannel \<noteq> '''' \<and> \<not> sameModelChannel (trim_space (mChannel m)) forcedChannel
              then (Inl GateNotFound, r)
            else (Inr (Some m), r)))"

section \<open>Back-off\<close>

definition computeRetryDelay :: "duration \<Rightarrow> int \<Rightarrow> string \<Rightarrow> duration" where
  "computeRetryDelay base attempt category =
    (if base \<le> 0 then 0
     else let attempt = (if attempt < 1 then 1 else attempt);
              attempt = (if 4 < attempt then 4 else attempt);
              delay = wrap64 (base * 2 ^ nat (attempt - 1));
              delay = (if category = ''rate_limit'' \<and> delay < 2 * second then 2 * second else delay);
              delay = (if 30 * second < delay then 30 * second else delay)
       in delay)"

definition shouldRetryCurrentAccountWhenNoAlternative :: "string \<Rightarrow> bool" where
  "shouldRetryCurrentAccountWhenNoAlternative category \<longleftrightarrow>
     trim_space category \<in> {''network'', ''timeout'', ''server'', ''model_unavailable'', ''unknown''}"

section \<open>Selection is sound\<close>

lemma next_account_facts:
  assumes "GetNextAccountExcludingByChannelWithTrackerFilter ops clock r ex ch tr flt lb = (res, lb')"
  shows "connTracker lb' = connTracker lb"
    and "res = Inr a \<Longrightarrow> ID a \<notin> set ex \<and> channel_matches ch a \<and> (\<exists>v. same_identity v a \<and> eligible ex ch flt v)"
proof -
  have "connTracker lb' = connTracker lb \<and> (\<forall>a. res = Inr a \<longrightarrow>
      ID a \<notin> set ex \<and> channel_matches ch a \<and> (\<exists>v. same_identity v a \<and> eligible ex ch flt v))"
  proof (cases "getEnabledAccounts ops clock lb")
    case (Pair q lb1)
    show ?thesis
    proof (cases q)
      case (Inl e)
      then have "lb' = lb1" "\<And>a. res \<noteq> Inr a"
        using assms Pair by (auto simp: GetNextAccountExcludingByChannelWithTrackerFilter_def)
      moreover have "connTracker lb1 = connTracker lb"
        using Pair Inl by (auto simp: getEnabledAccounts_def split: if_splits option.splits sum.splits)
      ultimately show ?thesis by simp
    next
      case (Inr accs)
      note en = get_enabled_cached [OF Pair [unfolded Inr]]
      obtain fs lb2 where loop: "filter_loop ops clock ex ch flt [0..<length accs] (fs_init, lb1) = (fs, lb2)"
        by force
      note inv = get_next_filter_inv [OF Pair [unfolded Inr] loop]
      let ?cands = "map (\<lambda>i. cachedAccounts lb2 ! i) (fs_filtered fs)"
      have trk: "connTracker lb2 = connTracker lb" using inv en(2) by (simp add: filter_inv_def)
      have lb': "lb' = lb2"
        using assms unfolding get_next_unfold [OF Pair [unfolded Inr] loop] by (auto simp: Let_def split: if_splits)
      have "ID a \<notin> set ex \<and> channel_matches ch a \<and> (\<exists>v. same_identity v a \<and> eligible ex ch flt v)" if "res = Inr a" for a
      proof -
        have "?cands \<noteq> []" "a = the (selectAccountWithTracker ?cands tr r lb2)"
          using assms that unfolding get_next_unfold [OF Pair [unfolded Inr] loop] by (auto simp: Let_def split: if_splits)
        then have "selectAccountWithTracker ?cands tr r lb2 = Some a" using select_some [of ?cands tr r lb2] by auto
        then obtain i where i: "i \<in> set (fs_filtered fs)" "a = cachedAccounts lb2 ! i" using select_least(1) by fastforce
        obtain v where v: "same_identity v a" "eligible ex ch flt v" using candidates_facts(4) [OF inv en(1) i(1)] i(2) by auto
        with same_identity_fields [OF v(1)] show ?thesis by (auto simp: eligible_def channel_matches_def)
      qed
      with trk lb' show ?thesis by simp
    qed
  qed
  then show "connTracker lb' = connTracker lb"
    and "res = Inr a \<Longrightarrow> ID a \<notin> set ex \<and> channel_matches ch a \<and> (\<exists>v. same_identity v a \<and> eligible ex ch flt v)" by blast+
qed

lemma quotaFilter_identity: "same_identity v a \<Longrightarrow> quotaFilter env ch m v = quotaFilter env ch m a"
  using same_identity_fields [of v a] by (simp add: quotaFilter_def split: option.split)

lemma affinity_facts:
  assumes "trySessionAffinity D env m failed flt = Some a"
  shows "ID a \<notin> set failed" "Enabled a" "equal_fold (AccountType a) ''codebuff''" "flt = Some f \<Longrightarrow> f a"
    and "se_exists env (session_key D m a)"
  using assms by (auto simp: trySessionAffinity_def Let_def find_Some_iff split: option.splits)
    (metis (no_types, lifting) mem_Collect_eq nth_mem set_filter)+

text \<open>The counts in use: the handler's tracker or, without one, the load balancer's.\<close>

definition active_tracker :: "'s handler \<Rightarrow> tracker option" where
  "active_tracker h = (case h_tracker h of Some t \<Rightarrow> Some t
     | None \<Rightarrow> (case h_lb h of Some lb \<Rightarrow> connTracker lb | None \<Rightarrow> None))"

lemma select_record_facts:
  assumes "selectAccountRecordWithOptions D env ch failed m h = (res, h')"
  shows "active_tracker h' = active_tracker h" "h_client h' = h_client h" "h_cache h' = h_cache h"
    and "h_lb h' = None \<longleftrightarrow> h_lb h = None"
    and "res = Inr a \<Longrightarrow> ID a \<notin> set failed \<and> quotaFilter env ch m a
       \<and> (channel_matches ch a \<or> equal_fold ch ''codebuff'' \<and> equal_fold (AccountType a) ''codebuff'' \<and> Enabled a)"
proof -
  let ?flt = "Some (quotaFilter env ch m)"
  have "active_tracker h' = active_tracker h \<and> h_client h' = h_client h \<and> h_cache h' = h_cache h
    \<and> (h_lb h' = None \<longleftrightarrow> h_lb h = None)
    \<and> (\<forall>a. res = Inr a \<longrightarrow> ID a \<notin> set failed \<and> quotaFilter env ch m a
       \<and> (channel_matches ch a \<or> equal_fold ch ''codebuff'' \<and> equal_fold (AccountType a) ''codebuff'' \<and> Enabled a))"
  proof (cases "h_lb h")
    case (Some lb)
    show ?thesis
    proof (cases "if m \<noteq> '''' \<and> equal_fold ch ''codebuff'' then trySessionAffinity D env m failed ?flt else None")
      case None
      obtain q lb' where q: "GetNextAccountExcludingByChannelWithTrackerFilter (d_ops D) (se_clock env) (se_rand env) failed
          ch (h_tracker h) ?flt lb = (q, lb')" by force
      note f = next_account_facts [OF q]
      have h': "h' = h\<lparr>h_lb := Some lb'\<rparr>" "\<And>a. res = Inr a \<Longrightarrow> q = Inr a"
        using assms None Some q by (auto simp: selectAccountRecordWithOptions_def split: sum.splits)
      have "active_tracker h' = active_tracker h" using f(1) h'(1) Some by (simp add: active_tracker_def split: option.split)
      moreover have "ID a \<notin> set failed \<and> channel_matches ch a \<and> quotaFilter env ch m a" if "res = Inr a" for a
        using f(2) [OF h'(2) [OF that]] quotaFilter_identity by (auto simp: eligible_def)
      ultimately show ?thesis using h'(1) Some by simp
    next
      case (Some b)
      then have "m \<noteq> ''''" "equal_fold ch ''codebuff''" "trySessionAffinity D env m failed ?flt = Some b" by (auto split: if_splits)
      moreover from this affinity_facts [OF this(3)] have "res = Inr b" "h' = h"
        using assms Some \<open>h_lb h = Some lb\<close> by (auto simp: selectAccountRecordWithOptions_def)
      ultimately show ?thesis using affinity_facts [of D env m failed ?flt b] by auto
    qed
  qed (use assms in \<open>auto simp: selectAccountRecordWithOptions_def\<close>)
  then show "active_tracker h' = active_tracker h" "h_client h' = h_client h" "h_cache h' = h_cache h"
    and "h_lb h' = None \<longleftrightarrow> h_lb h = None"
    and "res = Inr a \<Longrightarrow> ID a \<notin> set failed \<and> quotaFilter env ch m a
       \<and> (channel_matches ch a \<or> equal_fold ch ''codebuff'' \<and> equal_fold (AccountType a) ''codebuff'' \<and> Enabled a)" by blast+
qed

lemma get_or_create_cached:
  assumes "getOrCreateAccountClient sha f cfg (Some a) w = (Some c, w')" and "ID a \<noteq> 0"
  shows "cached_client (ID a) (accountClientFingerprint sha (Some a) cfg) w' = Some c"
  using assms
  by (auto simp: getOrCreateAccountClient_def store_client_def cached_client_def close_frame Let_def gomap_simps
      simp del: map_of_eq_Some_iff split: option.splits if_splits prod.splits client.splits)

lemma select_facts:
  assumes "selectAccountWithOptions D env ch req failed m h = (res, h')"
  shows "active_tracker h' = active_tracker h" and "h_client h' = h_client h" and "h_lb h' = None \<longleftrightarrow> h_lb h = None"
    and "res = Inr (c, Some a) \<Longrightarrow> ID a \<notin> set failed \<and> quotaFilter env ch m a
       \<and> (channel_matches ch a \<or> equal_fold ch ''codebuff'' \<and> equal_fold (AccountType a) ''codebuff'' \<and> Enabled a)
       \<and> (ID a \<noteq> 0 \<longrightarrow> cached_client (ID a) (accountClientFingerprint (d_sha256hex D) (Some a) (d_config D)) (h_cache h') = Some c)"
    and "res = Inr (c, None) \<Longrightarrow> h_client h = Some c \<and> (h_lb h \<noteq> None \<longrightarrow> \<not> req)"
proof -
  have "active_tracker h' = active_tracker h \<and> h_client h' = h_client h \<and> (h_lb h' = None \<longleftrightarrow> h_lb h = None)
    \<and> (\<forall>c a. res = Inr (c, Some a) \<longrightarrow> ID a \<notin> set failed \<and> quotaFilter env ch m a
       \<and> (channel_matches ch a \<or> equal_fold ch ''codebuff'' \<and> equal_fold (AccountType a) ''codebuff'' \<and> Enabled a)
       \<and> (ID a \<noteq> 0 \<longrightarrow> cached_client (ID a) (accountClientFingerprint (d_sha256hex D) (Some a) (d_config D)) (h_cache h') = Some c))
    \<and> (\<forall>c. res = Inr (c, None) \<longrightarrow> h_client h = Some c \<and> (h_lb h \<noteq> None \<longrightarrow> \<not> req))"
  proof (cases "h_lb h = None")
    case False
    obtain q h1 where q: "selectAccountRecordWithOptions D env ch failed m h = (q, h1)" by force
    note f = select_record_facts [OF q]
    show ?thesis
    proof (cases q)
      case (Inl e)
      then show ?thesis using assms False q f(1-4) by (auto simp: selectAccountWithOptions_def split: if_splits option.splits)
    next
      case (Inr b)
      obtain r w where r: "getOrCreateAccountClient (d_sha256hex D) (d_factory D) (d_config D) (Some b) (h_cache h1) = (r, w)" by force
      have h': "h' = h1\<lparr>h_cache := w\<rparr>" "res = (case r of None \<Rightarrow> Inl NoClientConfigured | Some c \<Rightarrow> Inr (c, Some b))"
        using assms False q Inr r by (auto simp: selectAccountWithOptions_def split: option.splits)
      moreover have "active_tracker h' = active_tracker h1" using h'(1) by (simp add: active_tracker_def split: option.split)
      ultimately show ?thesis using f(1-4) f(5) [OF Inr] get_or_create_cached [of _ _ _ b "h_cache h1" _ w] r
        by (auto split: option.splits)
    qed
  qed (use assms in \<open>auto simp: selectAccountWithOptions_def split: option.splits\<close>)
  then show "active_tracker h' = active_tracker h" and "h_client h' = h_client h" and "h_lb h' = None \<longleftrightarrow> h_lb h = None"
    and "res = Inr (c, Some a) \<Longrightarrow> ID a \<notin> set failed \<and> quotaFilter env ch m a
       \<and> (channel_matches ch a \<or> equal_fold ch ''codebuff'' \<and> equal_fold (AccountType a) ''codebuff'' \<and> Enabled a)
       \<and> (ID a \<noteq> 0 \<longrightarrow> cached_client (ID a) (accountClientFingerprint (d_sha256hex D) (Some a) (d_config D)) (h_cache h') = Some c)"
    and "res = Inr (c, None) \<Longrightarrow> h_client h = Some c \<and> (h_lb h \<noteq> None \<longrightarrow> \<not> req)" by blast+
qed

section \<open>Properties\<close>

text \<open>
  Property C36. A request gets an account only if it may: the account selected by affinity or by the
  load balancer was not tried before in this request, is not blocked by the quota of the model
  (an unreachable quota store blocks nothing), belongs to the channel, and the client handed out
  with it is the one cached for the account as it is now. Without an account the client is the
  default one, and only for a request that does not require the channel. Connection counts do not
  change.
\<close>

theorem selected_account_admissible:
  assumes "selectAccountWithOptions D env ch req failed m h = (Inr (c, acc), h')"
  shows "active_tracker h' = active_tracker h \<and>
    (case acc of
       Some a \<Rightarrow> ID a \<notin> set failed \<and> quotaFilter env ch m a
         \<and> (channel_matches ch a \<or> equal_fold ch ''codebuff'' \<and> equal_fold (AccountType a) ''codebuff'' \<and> Enabled a)
         \<and> (ID a \<noteq> 0 \<longrightarrow> cached_client (ID a) (accountClientFingerprint (d_sha256hex D) (Some a) (d_config D)) (h_cache h') = Some c)
     | None \<Rightarrow> h_client h = Some c \<and> (h_lb h \<noteq> None \<longrightarrow> \<not> req))"
  using select_facts [OF assms] by (auto split: option.split)

definition codebuff_account :: "int \<Rightarrow> account" where
  "codebuff_account i = zero_account\<lparr>ID := i, AccountType := ''codebuff'', Token := ''t'', Enabled := True\<rparr>"

definition sample_env :: sel_env where
  "sample_env = \<lparr>se_clock = (\<lambda>i. 100), se_rand = 0, se_listed = Some [codebuff_account 1, codebuff_account 2],
     se_exists = (\<lambda>k. True), se_blocked = Some (\<lambda>i m. Some (i = 1))\<rparr>"

definition sample_deps :: "unit deps" where
  "sample_deps = \<lparr>d_ops = \<lparr>st_GetEnabledAccounts = (\<lambda>s. Inr []), st_UpdateAccount = (\<lambda>a s. s)\<rparr>,
     d_sha256hex = (\<lambda>b. ''h''), d_factory = None, d_config = None\<rparr>"

definition sample_handler :: "unit handler" where
  "sample_handler = \<lparr>h_client = None, h_lb = Some (NewWithCacheTTL (Some ()) 0), h_tracker = Some [], h_cache = newAccountClientCache\<rparr>"

lemma trim_t [simp]: "trim_space ''t'' = ''t''"
  by (rule trim_space_id) (simp_all add: printable_def)

lemma token_t [simp]: "ResolveAuthToken (Some (codebuff_account i)) = ''t''"
proof -
  have "\<not> suffix ''...'' ''t''" by (auto dest: suffix_length_le)
  then show ?thesis by (simp add: ResolveAuthToken_def codebuff_account_def zero_account_def has_suffix_def Let_def)
qed

lemma codebuff_account_simps [simp]:
  "ID (codebuff_account i) = i" "AccountType (codebuff_account i) = ''codebuff''" "Enabled (codebuff_account i)"
  by (simp_all add: codebuff_account_def)

lemma sample_select:
  "selectAccountWithOptions sample_deps sample_env ''codebuff'' True [] ''m'' sample_handler
    = (Inr (Client 0, Some (codebuff_account 2)), sample_handler\<lparr>h_cache := newAccountClientCache\<lparr>cl_built := 1,
        cl_entries := [(2, \<lparr>cc_fingerprint = ''h'', cc_client = Some (Client 0)\<rparr>)]\<rparr>\<rparr>)"
proof -
  have aff: "trySessionAffinity sample_deps sample_env ''m'' [] (Some (quotaFilter sample_env ''codebuff'' ''m'')) = Some (codebuff_account 2)"
    by (simp add: trySessionAffinity_def sample_env_def quotaFilter_def)
  have "selectAccountRecordWithOptions sample_deps sample_env ''codebuff'' [] ''m'' sample_handler = (Inr (codebuff_account 2), sample_handler)"
    using aff by (simp add: selectAccountRecordWithOptions_def sample_handler_def)
  then show ?thesis
    by (simp add: selectAccountWithOptions_def sample_handler_def getOrCreateAccountClient_def sample_deps_def
        accountClientFingerprint_def cached_client_def newAccountClientCache_def buildAccountClient_def constructor_of_def
        store_client_def equal_fold_def lower_char_def)
qed

theorem selected_account_admissible_witness:
  "quotaFilter sample_env ''codebuff'' ''m'' (codebuff_account 2)"
  using selected_account_admissible [OF sample_select] by simp

text \<open>
  A request for a model passes only if the model is in the store, available, and of the
  channel that the path forces, up to case and separators; a model in maintenance or offline is
  turned away whatever the route. Nothing but a missing store or an empty model name is let
  through unchecked.
\<close>

theorem model_gate:
  assumes "validateModelAvailability S J ft modelID forced r = (Inr res, r')"
  shows "case res of
      None \<Rightarrow> S = None \<or> trim_space modelID = ''''
    | Some m \<Rightarrow> mStatus m = ModelStatusAvailable
        \<and> (forced \<noteq> '''' \<longrightarrow> normalizeModelChannelKey (trim_space (mChannel m)) = normalizeModelChannelKey forced)"
proof (cases res)
  case None
  then show ?thesis using assms
    by (auto simp: validateModelAvailability_def Let_def split: option.splits sum.splits prod.splits if_splits)
next
  case (Some m)
  have "sameModelChannel (trim_space (mChannel m)) forced" if "forced \<noteq> ''''"
    using assms Some that
    by (auto simp: validateModelAvailability_def Let_def split: option.splits sum.splits prod.splits if_splits)
  moreover have "normalizeModelChannelKey a = normalizeModelChannelKey b" if "sameModelChannel a b" for a b
    using that by (auto simp: sameModelChannel_def normalizeModelChannelKey_def Let_def replace_char_def)
  moreover have "mStatus m = ModelStatusAvailable"
    using assms Some
    by (auto simp: validateModelAvailability_def ModelStatus_Enabled_def Let_def split: option.splits sum.splits prod.splits if_splits)
  ultimately show ?thesis using Some by simp
qed

theorem model_gate_witness:
  "fst (validateModelAvailability (Some model_store) model_codec no_faults ''gpt-5'' '''' one_model) = Inr (Some (sample_model ''1'' ''gpt-5''))
   \<and> mStatus (sample_model ''1'' ''gpt-5'') = ModelStatusAvailable"
proof -
  have "trim_space ''gpt-5'' = ''gpt-5''" by (rule trim_space_id) (simp_all add: printable_def)
  then have "validateModelAvailability (Some model_store) model_codec no_faults ''gpt-5'' '''' one_model
      = (Inr (Some (sample_model ''1'' ''gpt-5'')), one_model)"
    by (simp add: validateModelAvailability_def redis_GetModelByModelID_def redis_GetModel_def hget_or_empty_def no_faults_def
        one_model_def model_store_def sv_observe sv_str_def sv_hash_def gomap_simps modelsKey_def modelsIDsKey_def
        modelsModelIDMapKey_def modelsNextIDKey_def model_codec_def table_codec_def sample_model_def ModelStatus_Enabled_def Let_def)
  from this model_gate [OF this] show ?thesis by simp
qed

text \<open>
  The back-off doubles with the attempt up to four times, and stays between its base and
  30 seconds, at least two seconds for a rate limit; with no base there is no delay. No base that
  a configuration can ask for overflows, up to 2^60 nanoseconds.
\<close>

theorem retry_delay_bounds:
  assumes "0 < base" and "base < 2 ^ 60"
  shows "min base (30 * second) \<le> computeRetryDelay base n category
    \<and> computeRetryDelay base n category \<le> 30 * second
    \<and> (category = ''rate_limit'' \<longrightarrow> 2 * second \<le> computeRetryDelay base n category)
    \<and> computeRetryDelay base n category \<le> computeRetryDelay base (n + 1) category
    \<and> (category \<noteq> ''rate_limit'' \<and> 1 \<le> n \<and> n \<le> 4 \<longrightarrow>
        computeRetryDelay base n category = min (base * 2 ^ nat (n - 1)) (30 * second))"
proof -
  define k where "k n = (if n < 1 then 0 else if 4 < n then 3 else nat (n - 1))" for n :: int
  have k: "k n \<le> 3" "k n \<le> k (n + 1)" for n by (auto simp: k_def)
  have pow: "base \<le> base * 2 ^ k n" "base * 2 ^ k n \<le> base * 8" for n
  proof -
    have "(2::int) ^ k n \<le> 2 ^ 3" using k(1) by (intro power_increasing) auto
    then show "base * 2 ^ k n \<le> base * 8" using assms(1) by simp
    show "base \<le> base * 2 ^ k n" using assms(1) by simp
  qed
  have "wrap64 (base * 2 ^ k n) = base * 2 ^ k n" for n
  proof (rule wrap64_id)
    have "0 < base * 2 ^ k n" "base * 8 < 2 ^ 63" using assms by simp_all
    then show "in64 (base * 2 ^ k n)" using pow(2) [of n] unfolding in64_def by linarith
  qed
  moreover have "nat ((if 4 < (if n < 1 then 1 else n) then 4 else if n < 1 then 1 else n) - 1) = k n" for n
    by (simp add: k_def)
  ultimately have d: "computeRetryDelay base n category =
      (let d = base * 2 ^ k n; d = (if category = ''rate_limit'' \<and> d < 2 * second then 2 * second else d)
       in min d (30 * second))" for n
    using assms(1) by (simp add: computeRetryDelay_def Let_def min_def not_less)
  have "base * 2 ^ k n \<le> base * 2 ^ k (n + 1)"
    using assms(1) k(2) by (intro mult_left_mono power_increasing) auto
  then show ?thesis using pow [of n] unfolding d by (auto simp: Let_def second_def min_def k_def)
qed

theorem retry_delay_bounds_witness:
  "computeRetryDelay second 3 ''server'' = 4 * second \<and> 2 * second \<le> computeRetryDelay millisecond 1 ''rate_limit''"
  using retry_delay_bounds [of second 3 "''server''"] retry_delay_bounds [of millisecond 1 "''rate_limit''"]
  by (simp add: second_def millisecond_def)

end
