(* ===== verification/Quota_Selection.thy ===== *)
theory Quota_Selection
  imports Handler_Select Quota_Store
begin

text \<open>
  The handler's selection (\<open>handler_helpers.go\<close>) over the quota store (\<open>quotastore.go\<close>): a block that
  one request records turns later requests away from the account.
\<close>

text \<open>What a selection at \<open>t\<close> sees of the quota store; \<open>up\<close> says whether the server answers.\<close>

definition asks_quota :: "'r quota_store \<Rightarrow> bool \<Rightarrow> instant \<Rightarrow> 'r \<Rightarrow> sel_env \<Rightarrow> bool" where
  "asks_quota qs up t r env \<longleftrightarrow> se_blocked env = Some (\<lambda>i m. IsBlocked (Some qs) up t r i m)"

lemma quotaFilter_recorded:
  assumes "expiring_redis (qs_redis qs)" and "RecordBlock (Some qs) up now i (Some b) r = (True, r')"
    and "now \<le> t" and "t \<le> mb_ResetAt b" and "now < mb_ResetAt b" and "\<not> is_zero (mb_ResetAt b)"
    and "in64 (mb_ResetAt b - now)" and "in64 (mb_ResetAt b - now + minute)"
    and "asks_quota qs True t r' env" and "equal_fold ch ''codebuff''" and "mb_Model b \<noteq> ''''"
  shows "ID a = i \<Longrightarrow> \<not> quotaFilter env ch (mb_Model b) a"
    and "ID a \<noteq> i \<Longrightarrow> quotaFilter env ch (mb_Model b) a \<longleftrightarrow> IsBlocked (Some qs) True t r (ID a) (mb_Model b) = Some False"
proof -
  note rec = recorded_block [OF assms(1-3), of "ID a" "mb_Model b"]
  have "alive_for (blockTTL now (mb_ResetAt b)) now t" using blockTTL_alive [OF assms(7,8), of t] assms(4-6) by auto
  with rec show "ID a = i \<Longrightarrow> \<not> quotaFilter env ch (mb_Model b) a"
    using assms(9-11) by (simp add: quotaFilter_def asks_quota_def)
  from rec show "ID a \<noteq> i \<Longrightarrow> quotaFilter env ch (mb_Model b) a \<longleftrightarrow> IsBlocked (Some qs) True t r (ID a) (mb_Model b) = Some False"
    using assms(9-11) by (simp add: quotaFilter_def asks_quota_def IsBlocked_def)
qed

text \<open>
  Leaving accounts out by the quota filter or by the list of failed accounts comes to the same: two
  selections that leave out the same accounts are equal, state and errors included.
\<close>

lemma filter_loop_same:
  assumes "\<And>a. (ID a \<notin> set ex \<and> f a) = (ID a \<notin> set ex' \<and> f' a)"
  shows "filter_loop ops clock ex ch (Some f) is st = filter_loop ops clock ex' ch (Some f') is st"
proof -
  have "filter_step ops clock ex ch (Some f) i st = filter_step ops clock ex' ch (Some f') i st" for i st
    using assms [of "cachedAccounts (snd st) ! i"] by (cases st) (auto simp: filter_step_def Let_def)
  then have "filter_step ops clock ex ch (Some f) = filter_step ops clock ex' ch (Some f')" by (simp add: fun_eq_iff)
  then show ?thesis by (simp only: filter_loop_def)
qed

lemma affinity_same:
  assumes "\<And>a. (ID a \<notin> set ex \<and> f a) = (ID a \<notin> set ex' \<and> f' a)"
    and "se_listed env' = se_listed env" and "se_exists env' = se_exists env"
  shows "trySessionAffinity D env m ex (Some f) = trySessionAffinity D env' m ex' (Some f')"
proof -
  have "(\<lambda>acc. se_exists env (session_key D m acc) \<and> ID acc \<notin> set ex \<and> Enabled acc \<and> f acc)
    = (\<lambda>acc. se_exists env (session_key D m acc) \<and> ID acc \<notin> set ex' \<and> Enabled acc \<and> f' acc)" using assms(1) by blast
  then show ?thesis by (simp add: trySessionAffinity_def assms(2,3) Let_def cong: option.case_cong)
qed

lemma selection_same:
  assumes "\<And>a. (ID a \<notin> set ex \<and> quotaFilter env ch m a) = (ID a \<notin> set ex' \<and> quotaFilter (env\<lparr>se_blocked := q\<rparr>) ch m a)"
  shows "selectAccountWithOptions D env ch required ex m h = selectAccountWithOptions D (env\<lparr>se_blocked := q\<rparr>) ch required ex' m h"
proof -
  let ?env = "env\<lparr>se_blocked := q\<rparr>"
  have aff: "trySessionAffinity D env m ex (Some (quotaFilter env ch m)) = trySessionAffinity D ?env m ex' (Some (quotaFilter ?env ch m))"
    by (rule affinity_same [OF assms]) simp_all
  have nxt: "GetNextAccountExcludingByChannelWithTrackerFilter ops clock r ex ch tr (Some (quotaFilter env ch m)) lb
    = GetNextAccountExcludingByChannelWithTrackerFilter ops clock r ex' ch tr (Some (quotaFilter ?env ch m)) lb" for ops clock r tr lb
    unfolding GetNextAccountExcludingByChannelWithTrackerFilter_def by (subst filter_loop_same [OF assms]) (rule refl)
  have same: "se_clock ?env = se_clock env" "se_rand ?env = se_rand env" by simp_all
  show ?thesis unfolding selectAccountWithOptions_def selectAccountRecordWithOptions_def aff nxt same by (rule refl)
qed

text \<open>
  Property C30. An account that ran out of quota is left alone until its reset: once a block of the model
  is recorded with a reset ahead, no selection for that model on the codebuff channel, by affinity or
  by the load balancer, hands the account out before the reset, whatever the rest of the handler's
  state. The block keeps no other account from being chosen: the selection is the one that would
  have been made on the server before the block had the account been among the failed ones, with the
  same account or error and the same handler.
\<close>

theorem blocked_account_skipped:
  assumes "expiring_redis (qs_redis qs)" and "RecordBlock (Some qs) up now i (Some b) r = (True, r')"
    and "now \<le> t" and "t \<le> mb_ResetAt b" and "now < mb_ResetAt b" and "\<not> is_zero (mb_ResetAt b)"
    and "in64 (mb_ResetAt b - now)" and "in64 (mb_ResetAt b - now + minute)"
    and "asks_quota qs True t r' env" and "equal_fold ch ''codebuff''" and "mb_Model b \<noteq> ''''"
  shows "(case selectAccountWithOptions D env ch required failed (mb_Model b) h of
      (Inr (c, Some a), h') \<Rightarrow> ID a \<noteq> i \<and> IsBlocked (Some qs) True t r (ID a) (mb_Model b) = Some False
    | _ \<Rightarrow> True)
    \<and> selectAccountWithOptions D env ch required failed (mb_Model b) h
      = selectAccountWithOptions D (env\<lparr>se_blocked := Some (\<lambda>i m. IsBlocked (Some qs) True t r i m)\<rparr>) ch required
          (i # failed) (mb_Model b) h"
proof
  show "case selectAccountWithOptions D env ch required failed (mb_Model b) h of
      (Inr (c, Some a), h') \<Rightarrow> ID a \<noteq> i \<and> IsBlocked (Some qs) True t r (ID a) (mb_Model b) = Some False | _ \<Rightarrow> True"
  proof (cases "selectAccountWithOptions D env ch required failed (mb_Model b) h")
    case (Pair res h')
    have "ID a \<noteq> i \<and> IsBlocked (Some qs) True t r (ID a) (mb_Model b) = Some False" if "res = Inr (c, Some a)" for c a
      using select_facts(4) [OF Pair that] quotaFilter_recorded [OF assms, of a] by blast
    then show ?thesis by (simp add: Pair split: sum.split prod.split option.split)
  qed
  let ?q = "Some (\<lambda>i m. IsBlocked (Some qs) True t r i m)"
  have "quotaFilter (env\<lparr>se_blocked := ?q\<rparr>) ch (mb_Model b) a \<longleftrightarrow> IsBlocked (Some qs) True t r (ID a) (mb_Model b) = Some False" for a
    using assms(10,11) by (simp add: quotaFilter_def IsBlocked_def)
  then show "selectAccountWithOptions D env ch required failed (mb_Model b) h
      = selectAccountWithOptions D (env\<lparr>se_blocked := ?q\<rparr>) ch required (i # failed) (mb_Model b) h"
    using quotaFilter_recorded [OF assms] by (intro selection_same) auto
qed

definition quota_env :: sel_env where
  "quota_env = sample_env\<lparr>se_blocked := Some (\<lambda>i m. IsBlocked (Some sample_quota) True (2 * hour)
     (snd (RecordBlock (Some sample_quota) True hour 1 (Some sample_block) [])) i m)\<rparr>"

theorem blocked_account_skipped_witness:
  "\<exists>c h'. selectAccountWithOptions sample_deps quota_env ''codebuff'' True [] ''minimax/minimax-m3'' sample_handler
      = (Inr (c, Some (codebuff_account 2)), h')
    \<and> IsBlocked (Some sample_quota) True (2 * hour) [] 2 ''minimax/minimax-m3'' = Some False"
proof -
  let ?r = "snd (RecordBlock (Some sample_quota) True hour 1 (Some sample_block) [])"
  let ?f = "quotaFilter quota_env ''codebuff'' ''minimax/minimax-m3''"
  have m: "mb_Model sample_block = ''minimax/minimax-m3''" "mb_ResetAt sample_block = 2 * hour" by (simp_all add: sample_block_def)
  have ok: "expiring_redis (qs_redis sample_quota)" using ttl.expiring_redis_axioms by simp
  have rec: "RecordBlock (Some sample_quota) True hour 1 (Some sample_block) [] = (True, ?r)"
    by (simp add: RecordBlock_def put_json_def)
  have asks: "asks_quota sample_quota True (2 * hour) ?r quota_env" by (simp add: asks_quota_def quota_env_def)
  have none: "IsBlocked (Some sample_quota) True (2 * hour) [] 2 ''minimax/minimax-m3'' = Some False"
    by (simp add: IsBlocked_def ttl_server_def tm_get_def)
  have nums: "hour \<le> 2 * hour" "2 * hour \<le> mb_ResetAt sample_block" "hour < mb_ResetAt sample_block" "\<not> is_zero (mb_ResetAt sample_block)"
    "in64 (mb_ResetAt sample_block - hour)" "in64 (mb_ResetAt sample_block - hour + minute)"
    by (simp_all add: m hour_def minute_def second_def is_zero_def zero_time_def in64_def)
  have flt: "\<not> ?f (codebuff_account 1)" "?f (codebuff_account 2)"
    using quotaFilter_recorded [OF ok rec nums asks, of "''codebuff''" "codebuff_account 1"]
      quotaFilter_recorded [OF ok rec nums asks, of "''codebuff''" "codebuff_account 2"] none
    by (simp_all add: m)
  have "trySessionAffinity sample_deps quota_env ''minimax/minimax-m3'' [] (Some ?f) = Some (codebuff_account 2)"
    using flt by (simp add: trySessionAffinity_def quota_env_def sample_env_def)
  then have "selectAccountRecordWithOptions sample_deps quota_env ''codebuff'' [] ''minimax/minimax-m3'' sample_handler
      = (Inr (codebuff_account 2), sample_handler)"
    by (simp add: selectAccountRecordWithOptions_def sample_handler_def)
  then have "\<exists>c h'. selectAccountWithOptions sample_deps quota_env ''codebuff'' True [] ''minimax/minimax-m3'' sample_handler
      = (Inr (c, Some (codebuff_account 2)), h')"
    by (simp add: selectAccountWithOptions_def sample_handler_def getOrCreateAccountClient_def sample_deps_def
        accountClientFingerprint_def cached_client_def newAccountClientCache_def buildAccountClient_def constructor_of_def
        store_client_def equal_fold_def lower_char_def)
  then obtain c h' where s: "selectAccountWithOptions sample_deps quota_env ''codebuff'' True [] ''minimax/minimax-m3'' sample_handler
      = (Inr (c, Some (codebuff_account 2)), h')" by blast
  have cm: "equal_fold ''codebuff'' ''codebuff''" "mb_Model sample_block \<noteq> []" by (simp_all add: m equal_fold_def lower_char_def)
  have "IsBlocked (Some sample_quota) True (2 * hour) [] 2 ''minimax/minimax-m3'' = Some False"
    using conjunct1 [OF blocked_account_skipped [OF ok rec nums asks cm, of sample_deps True "[]" sample_handler], unfolded m s] by simp
  with s show ?thesis by blast
qed

end
