(* ===== verification/Retry_Loop.thy ===== *)
theory Retry_Loop
  imports Handler_Select
begin

text \<open>
  The retry loop of \<open>HandleMessages\<close> in \<open>internal/handler/handler.go\<close>, with the selection before it
  and the deferred release after it: an upstream call, and on an error without output the marking
  of the account, the change to another account and the back-off. The upstream, the clock and the
  cancellation of the request are the rounds, one per attempt.
\<close>

section \<open>Rounds and state\<close>

text \<open>
  What happens in one attempt: the answer of the upstream (\<open>None\<close> is success; an error comes with
  its text and whether anything was already sent to the client), the reset instant that
  \<open>Parse429Body\<close> finds in the error, the clock for the marking, whether the request was cancelled
  when the error is handled and during the back-off, and what the next selection reads.
\<close>

record round =
  rd_reply :: "(string \<times> bool) option"
  rd_resetAt :: instant
  rd_now :: instant
  rd_cancelled :: bool
  rd_slept :: bool
  rd_env :: sel_env

record 's run_state =
  rs_handler :: "'s handler"
  rs_client :: client
  rs_account :: "account option"
  rs_tracked :: int
  rs_failed :: "int list"
  rs_calls :: "(client \<times> account option) list"

text \<open>How the run ends for the client.\<close>

datatype finish = Completed | PartialOutput string | AuthFailure string string | UpstreamFailure string
  | RequestCanceled | ContextDone | RetriesExhausted string | NoAvailableAccount string

text \<open>What the loop reads of the request: its channel, whether the path forces it, and the model.\<close>

record request =
  rq_channel :: string
  rq_required :: bool
  rq_model :: string

section \<open>The steps of an attempt\<close>

definition auth_category :: "string \<Rightarrow> bool" where
  "auth_category c \<longleftrightarrow> c = ''auth'' \<or> c = ''auth_blocked''"

text \<open>The status an error gives the current account: none for a 429 on the codebuff channel.\<close>

definition status_to_mark :: "string \<Rightarrow> string \<Rightarrow> string option" where
  "status_to_mark channel errStr =
    (let status = ClassifyAccountStatus errStr; errClass = ClassifyUpstreamError errStr in
     if status \<noteq> '''' \<and> (\<not> Retryable errClass \<or> auth_category (Category errClass)
          \<or> status = ''403'' \<or> status = ''429'' \<or> status = ''402'')
     then (if status = ''429'' \<and> equal_fold channel ''codebuff'' then None else Some status) else None)"

definition mark_account :: "'s deps \<Rightarrow> request \<Rightarrow> round \<Rightarrow> string \<Rightarrow> 's run_state \<Rightarrow> 's run_state" where
  "mark_account D rq rd errStr st = (case (rs_account st, h_lb (rs_handler st), status_to_mark (rq_channel rq) errStr) of
     (Some acc, Some lb, Some status) \<Rightarrow>
       if Store lb = None then st
       else (case MarkAccountStatus (d_ops D) (rd_now rd) (Some acc) status
              [if status = ''429'' then rd_resetAt rd else zero_time] lb of
          (acc, lb) \<Rightarrow> st\<lparr>rs_account := acc, rs_handler := (rs_handler st)\<lparr>h_lb := Some lb\<rparr>\<rparr>)
   | _ \<Rightarrow> st)"

text \<open>The change of account after a retryable error; \<open>False\<close> when there is no account to go on with.\<close>

definition note_failed :: "int \<Rightarrow> int list \<Rightarrow> int list" where
  "note_failed i failed = (if i \<in> set failed then failed else failed @ [i])"

definition release_current :: "'s run_state \<Rightarrow> 's run_state" where
  "release_current st = (if rs_tracked st \<noteq> 0
     then st\<lparr>rs_handler := releaseTrackedAccount (rs_tracked st) (rs_handler st), rs_tracked := 0\<rparr> else st)"

definition switch_account :: "'s deps \<Rightarrow> request \<Rightarrow> round \<Rightarrow> upstream_error_class \<Rightarrow> 's run_state \<Rightarrow> bool \<times> 's run_state" where
  "switch_account D rq rd errClass st = (case rs_account st of
     None \<Rightarrow> (True, st)
   | Some acc \<Rightarrow>
      if \<not> SwitchAccount errClass \<or> h_lb (rs_handler st) = None then (True, st)
      else let st = release_current (st\<lparr>rs_failed := note_failed (ID acc) (rs_failed st)\<rparr>)
        in (case selectAccountWithOptions D (rd_env rd) (rq_channel rq) (rq_required rq) (rs_failed st) (rq_model rq) (rs_handler st) of
            (Inr (nextClient, nextAccount), h) \<Rightarrow>
              (case acquireTrackedAccount nextAccount h of
                 (tracked, h) \<Rightarrow> (True, st\<lparr>rs_handler := h, rs_client := nextClient, rs_account := nextAccount, rs_tracked := tracked\<rparr>))
          | (Inl retryErr, h) \<Rightarrow>
              if shouldRetryCurrentAccountWhenNoAlternative (Category errClass)
              then (case acquireTrackedAccount (Some acc) h of
                  (tracked, h) \<Rightarrow> (True, st\<lparr>rs_handler := h, rs_tracked := tracked\<rparr>))
              else (False, st\<lparr>rs_handler := h\<rparr>)))"

section \<open>The loop\<close>

definition retry_delay :: "config \<Rightarrow> duration" where
  "retry_delay cfg = wrap64 (cfg_RetryDelay cfg * millisecond)"

fun run_loop :: "'s deps \<Rightarrow> config \<Rightarrow> request \<Rightarrow> (nat \<Rightarrow> round) \<Rightarrow> nat \<Rightarrow> nat \<Rightarrow> 's run_state \<Rightarrow> finish \<times> 's run_state" where
  "run_loop D cfg rq rounds attempt retriesRemaining st =
    (let rd = rounds attempt; st = st\<lparr>rs_calls := rs_calls st @ [(rs_client st, rs_account st)]\<rparr> in
     case rd_reply rd of
       None \<Rightarrow> (Completed, st)
     | Some (errStr, output) \<Rightarrow>
        let errClass = ClassifyUpstreamError errStr in
        if output then (PartialOutput errStr, st)
        else let st = mark_account D rq rd errStr st in
          if \<not> Retryable errClass then
            (if auth_category (Category errClass) then AuthFailure (Category errClass) errStr
             else if Category errClass = ''canceled'' then RequestCanceled else UpstreamFailure errStr, st)
          else if rd_cancelled rd then (ContextDone, st)
          else (case retriesRemaining of
              0 \<Rightarrow> (if auth_category (Category errClass) then AuthFailure (Category errClass) errStr
                   else RetriesExhausted errStr, st)
            | Suc retriesRemaining \<Rightarrow>
               (case switch_account D rq rd errClass st of
                  (False, st) \<Rightarrow> (NoAvailableAccount errStr, st)
                | (True, st) \<Rightarrow>
                   if 0 < retry_delay cfg
                      \<and> 0 < computeRetryDelay (retry_delay cfg) (int attempt + 1) (Category errClass) \<and> \<not> rd_slept rd
                   then (ContextDone, st)
                   else run_loop D cfg rq rounds (Suc attempt) retriesRemaining st)))"

declare run_loop.simps [simp del]

text \<open>
  The whole of it: selection, acquisition, the loop, and the deferred release of the connection. A
  failed selection is answered with an error.
\<close>

definition handle_upstream :: "'s deps \<Rightarrow> config \<Rightarrow> request \<Rightarrow> string \<Rightarrow> sel_env \<Rightarrow> (nat \<Rightarrow> round) \<Rightarrow> 's handler
    \<Rightarrow> (select_error + finish \<times> 's run_state) \<times> 's handler" where
  "handle_upstream D cfg rq reqModel env rounds h =
    (case selectAccountWithOptions D env (rq_channel rq) (rq_required rq) [] (trim_space reqModel) h of
       (Inl e, h) \<Rightarrow> (Inl e, h)
     | (Inr (c, acc), h) \<Rightarrow>
        (case acquireTrackedAccount acc h of
           (tracked, h) \<Rightarrow>
            (case run_loop D cfg rq rounds 0 (nat (cfg_MaxRetries cfg))
                \<lparr>rs_handler = h, rs_client = c, rs_account = acc, rs_tracked = tracked, rs_failed = [], rs_calls = []\<rparr> of
               (fin, st) \<Rightarrow> (Inr (fin, st), releaseTrackedAccount (rs_tracked st) (rs_handler st)))))"

section \<open>Invariants of the loop\<close>

definition record_call :: "'s run_state \<Rightarrow> 's run_state" where
  "record_call st = st\<lparr>rs_calls := rs_calls st @ [(rs_client st, rs_account st)]\<rparr>"

lemma run_loop_preserves:
  assumes "run_loop D cfg rq rounds k n st = (fin, st')" and "P st"
    and call: "\<And>st. P st \<Longrightarrow> P (record_call st)"
    and mark: "\<And>rd e st. P st \<Longrightarrow> P (mark_account D rq rd e st)"
    and switch: "\<And>rd c st b st2. P st \<Longrightarrow> switch_account D rq rd c st = (b, st2) \<Longrightarrow> P st2"
  shows "P st'"
  using assms(1,2)
proof (induction n arbitrary: k st)
  case 0
  then show ?case using call [OF 0(2)] mark [OF call [OF 0(2)]]
    by (auto simp: run_loop.simps [of _ _ _ _ _ 0] Let_def simp flip: record_call_def split: option.splits prod.splits if_splits)
next
  case (Suc n)
  have c: "P (record_call st)" and m: "P (mark_account D rq rd e (record_call st))" for rd e
    using call mark Suc.prems(2) by blast+
  show ?case
    using Suc.prems(1) c m switch [OF m] Suc.IH
    by (auto simp: run_loop.simps [of _ _ _ _ _ "Suc n"] Let_def simp flip: record_call_def
        split: option.splits prod.splits if_splits bool.splits)
qed

text \<open>The number of calls: one for each attempt, at most one more than there are retries.\<close>

lemma mark_frame [simp]:
  "rs_calls (mark_account D rq rd e st) = rs_calls st" "rs_failed (mark_account D rq rd e st) = rs_failed st"
  "rs_tracked (mark_account D rq rd e st) = rs_tracked st" "rs_client (mark_account D rq rd e st) = rs_client st"
  "map_option ID (rs_account (mark_account D rq rd e st)) = map_option ID (rs_account st)"
  by (auto simp: mark_account_def MarkAccountStatus_def mark_with_def Let_def split: option.splits prod.splits if_splits)

lemma mark_tracker [simp]:
  "active_tracker (rs_handler (mark_account D rq rd e st)) = active_tracker (rs_handler st)"
  by (auto simp: mark_account_def MarkAccountStatus_def active_tracker_def Let_def split: option.splits prod.splits if_splits)

lemma switch_calls: "switch_account D rq rd c st = (b, st2) \<Longrightarrow> rs_calls st2 = rs_calls st"
  by (auto simp: switch_account_def release_current_def Let_def split: option.splits prod.splits if_splits sum.splits)

lemma run_loop_calls:
  assumes "run_loop D cfg rq rounds k n st = (fin, st')"
  shows "\<exists>m \<le> n. length (rs_calls st') = length (rs_calls st) + Suc m
    \<and> (\<forall>i < m. \<exists>e. rd_reply (rounds (k + i)) = Some (e, False) \<and> Retryable (ClassifyUpstreamError e) \<and> \<not> rd_cancelled (rounds (k + i)))
    \<and> (case rd_reply (rounds (k + m)) of
         None \<Rightarrow> fin = Completed
       | Some (e, True) \<Rightarrow> fin = PartialOutput e
       | Some (e, False) \<Rightarrow> fin \<noteq> Completed \<and> (\<forall>e'. fin \<noteq> PartialOutput e'))"
  using assms
proof (induction n arbitrary: k st)
  case 0
  then show ?case
    by (auto simp: run_loop.simps [of _ _ _ _ _ 0] Let_def split: option.splits prod.splits if_splits bool.splits)
next
  case (Suc n)
  let ?st = "record_call st"
  show ?case
  proof (cases "\<exists>e st2. rd_reply (rounds k) = Some (e, False) \<and> Retryable (ClassifyUpstreamError e) \<and> \<not> rd_cancelled (rounds k)
      \<and> switch_account D rq (rounds k) (ClassifyUpstreamError e) (mark_account D rq (rounds k) e ?st) = (True, st2)
      \<and> run_loop D cfg rq rounds (Suc k) n st2 = (fin, st')")
    case True
    then obtain e st2 where e: "rd_reply (rounds k) = Some (e, False)" "Retryable (ClassifyUpstreamError e)" "\<not> rd_cancelled (rounds k)"
      and sw: "switch_account D rq (rounds k) (ClassifyUpstreamError e) (mark_account D rq (rounds k) e ?st) = (True, st2)"
      and "run_loop D cfg rq rounds (Suc k) n st2 = (fin, st')" by blast
    from Suc.IH [OF this(5)] obtain m where m: "m \<le> n" "length (rs_calls st') = length (rs_calls st2) + Suc m"
      "\<forall>i < m. \<exists>e. rd_reply (rounds (Suc k + i)) = Some (e, False) \<and> Retryable (ClassifyUpstreamError e) \<and> \<not> rd_cancelled (rounds (Suc k + i))"
      "case rd_reply (rounds (Suc k + m)) of None \<Rightarrow> fin = Completed | Some (e, True) \<Rightarrow> fin = PartialOutput e
         | Some (e, False) \<Rightarrow> fin \<noteq> Completed \<and> (\<forall>e'. fin \<noteq> PartialOutput e')" by blast
    have "length (rs_calls st2) = Suc (length (rs_calls st))" using switch_calls [OF sw] by (simp add: record_call_def)
    moreover have "\<exists>e. rd_reply (rounds (k + i)) = Some (e, False) \<and> Retryable (ClassifyUpstreamError e) \<and> \<not> rd_cancelled (rounds (k + i))"
      if "i < Suc m" for i using that m(3) e by (cases i) auto
    ultimately show ?thesis using m by (intro exI [of _ "Suc m"]) simp
  next
    case False
    have "length (rs_calls st') = Suc (length (rs_calls st)) \<and> (case rd_reply (rounds k) of
         None \<Rightarrow> fin = Completed | Some (e, True) \<Rightarrow> fin = PartialOutput e
       | Some (e, False) \<Rightarrow> fin \<noteq> Completed \<and> (\<forall>e'. fin \<noteq> PartialOutput e'))"
      using Suc.prems False
      by (auto simp: run_loop.simps [of _ _ _ _ _ "Suc n"] Let_def record_call_def dest: switch_calls
          split: option.splits prod.splits if_splits bool.splits)
    then show ?thesis by (intro exI [of _ 0]) auto
  qed
qed

section \<open>Connection counts\<close>

text \<open>The counts of \<open>h\<close> are those of \<open>h0\<close> plus one connection of the account \<open>i\<close>, if there is one.\<close>

definition held :: "'s handler \<Rightarrow> int \<Rightarrow> 's handler \<Rightarrow> bool" where
  "held h0 i h \<longleftrightarrow> (case active_tracker h0 of
     None \<Rightarrow> active_tracker h = None
   | Some t0 \<Rightarrow> \<exists>t. active_tracker h = Some t \<and> tracker_wf t
       \<and> (\<forall>a. mem_GetCount t a = mem_GetCount t0 a + (if i \<noteq> 0 \<and> a = i then 1 else 0)))"

definition room_for_one :: "'s handler \<Rightarrow> bool" where
  "room_for_one h \<longleftrightarrow> (case active_tracker h of None \<Rightarrow> True
     | Some t \<Rightarrow> tracker_wf t \<and> (\<forall>a. mem_GetCount t a < 2 ^ 63 - 1))"

lemma held_frame: "active_tracker h' = active_tracker h \<Longrightarrow> held h0 i h' = held h0 i h"
  by (simp add: held_def split: option.split)

lemma held_start: "room_for_one h \<Longrightarrow> held h 0 h"
  by (auto simp: held_def room_for_one_def split: option.splits)

lemma acquire_tracker:
  assumes "acquireTrackedAccount acc h = (i, h')"
  shows "active_tracker h' = (if i = 0 then active_tracker h else map_option (mem_Acquire i) (active_tracker h))"
  using assms
  by (auto simp: acquireTrackedAccount_def active_tracker_def AcquireConnection_def split: option.splits if_splits)

lemma release_tracker:
  "active_tracker (releaseTrackedAccount i h) = (if i = 0 then active_tracker h else map_option (mem_Release i) (active_tracker h))"
  by (auto simp: releaseTrackedAccount_def active_tracker_def ReleaseConnection_def split: option.splits if_splits)

lemma held_acquire:
  assumes "held h0 0 h" and "room_for_one h0" and "acquireTrackedAccount acc h = (i, h')"
  shows "held h0 i h'"
proof (cases "active_tracker h0")
  case None
  then show ?thesis using assms acquire_tracker [OF assms(3)] by (simp add: held_def)
next
  case (Some t0)
  then obtain t where t: "active_tracker h = Some t" "tracker_wf t" "\<And>a. mem_GetCount t a = mem_GetCount t0 a"
    using assms(1) by (auto simp: held_def)
  have "mem_GetCount t i < 2 ^ 63 - 1" using assms(2) Some t(3) by (simp add: room_for_one_def)
  then show ?thesis using Some t acquire_tracker [OF assms(3)] mem.acquire_inv [OF t(2)] mem.count_acquire [OF t(2)]
    by (auto simp: held_def)
qed

lemma held_release:
  assumes "held h0 i h" and "room_for_one h0"
  shows "held h0 0 (releaseTrackedAccount i h)"
proof (cases "active_tracker h0")
  case None
  then show ?thesis using assms by (simp add: held_def release_tracker)
next
  case (Some t0)
  then obtain t where t: "active_tracker h = Some t" "tracker_wf t"
    "\<And>a. mem_GetCount t a = mem_GetCount t0 a + (if i \<noteq> 0 \<and> a = i then 1 else 0)"
    using assms(1) by (auto simp: held_def)
  have "0 \<le> mem_GetCount t0 i" using assms(2) Some mem.count_range [of t0 i] by (simp add: room_for_one_def)
  then show ?thesis using Some t mem.release_inv [OF t(2)] mem.count_release [OF t(2)]
    by (auto simp: held_def release_tracker)
qed

lemma release_current_held:
  "held h0 (rs_tracked st) (rs_handler st) \<Longrightarrow> room_for_one h0 \<Longrightarrow>
     rs_tracked (release_current st) = 0 \<and> held h0 0 (rs_handler (release_current st))"
  using held_release [of h0 "rs_tracked st" "rs_handler st"] by (auto simp: release_current_def)

lemma release_current_frame [simp]:
  "rs_failed (release_current st) = rs_failed st" "rs_calls (release_current st) = rs_calls st"
  "rs_account (release_current st) = rs_account st" "rs_client (release_current st) = rs_client st"
  by (simp_all add: release_current_def)

lemma switch_held:
  assumes "held h0 (rs_tracked st) (rs_handler st)" and "room_for_one h0" and "switch_account D rq rd c st = (b, st2)"
  shows "held h0 (rs_tracked st2) (rs_handler st2)"
proof (cases "rs_account st = None \<or> \<not> SwitchAccount c \<or> h_lb (rs_handler st) = None")
  case True
  then show ?thesis using assms by (auto simp: switch_account_def split: option.splits)
next
  case False
  then obtain acc where acc: "rs_account st = Some acc" by auto
  let ?st = "release_current (st\<lparr>rs_failed := note_failed (ID acc) (rs_failed st)\<rparr>)"
  have r: "rs_tracked ?st = 0" "held h0 0 (rs_handler ?st)"
    using release_current_held [of h0 "st\<lparr>rs_failed := note_failed (ID acc) (rs_failed st)\<rparr>"] assms(1,2) by simp_all
  obtain q h where q: "selectAccountWithOptions D (rd_env rd) (rq_channel rq) (rq_required rq) (rs_failed ?st) (rq_model rq) (rs_handler ?st) = (q, h)"
    by force
  have h: "held h0 0 h" using r(2) by (simp only: held_frame [OF select_facts(1) [OF q]])
  have sw: "switch_account D rq rd c st = (case q of
      Inr (nextClient, nextAccount) \<Rightarrow> (case acquireTrackedAccount nextAccount h of
         (tracked, h) \<Rightarrow> (True, ?st\<lparr>rs_handler := h, rs_client := nextClient, rs_account := nextAccount, rs_tracked := tracked\<rparr>))
    | Inl retryErr \<Rightarrow> if shouldRetryCurrentAccountWhenNoAlternative (Category c)
        then (case acquireTrackedAccount (Some acc) h of (tracked, h) \<Rightarrow> (True, ?st\<lparr>rs_handler := h, rs_tracked := tracked\<rparr>))
        else (False, ?st\<lparr>rs_handler := h\<rparr>))"
    unfolding switch_account_def using False by (simp only: acc option.case if_False de_Morgan_disj not_not Let_def q prod.case simp_thms if_False)
  have acq: "held h0 i h'" if "acquireTrackedAccount x h = (i, h')" for x i h'
    by (rule held_acquire [OF h assms(2) that])
  show ?thesis
  proof (cases q)
    case (Inl e)
    then show ?thesis using assms(3) sw acq [of "Some acc"] h r(1)
      by (cases "acquireTrackedAccount (Some acc) h") (auto split: if_splits)
  next
    case (Inr ca)
    then show ?thesis using assms(3) sw acq [of "snd ca"]
      by (cases ca; cases "acquireTrackedAccount (snd ca) h") auto
  qed
qed

section \<open>The accounts that are called\<close>

definition call_ids :: "(client \<times> account option) list \<Rightarrow> int option list" where
  "call_ids cs = map (map_option ID \<circ> snd) cs"

definition calls_inv :: "'s run_state \<Rightarrow> bool" where
  "calls_inv st \<longleftrightarrow> (let ids = call_ids (rs_calls st); cur = map_option ID (rs_account st) in
     distinct (remdups_adj ids)
     \<and> (\<forall>i. Some i \<in> set ids \<longrightarrow> Some i = cur \<or> i \<in> set (rs_failed st))
     \<and> (None \<in> set ids \<longrightarrow> cur = None)
     \<and> (cur \<in> set ids \<longrightarrow> last ids = cur))"

lemma remdups_adj_snoc:
  "remdups_adj (xs @ [x]) = (if xs \<noteq> [] \<and> last xs = x then remdups_adj xs else remdups_adj xs @ [x])"
  by (induction xs rule: remdups_adj.induct) auto

lemma calls_inv_call: "calls_inv st \<Longrightarrow> calls_inv (record_call st)"
  by (auto simp: calls_inv_def record_call_def call_ids_def Let_def remdups_adj_snoc)

lemma calls_inv_mark: "calls_inv st \<Longrightarrow> calls_inv (mark_account D rq rd e st)"
  by (simp add: calls_inv_def Let_def)

lemma switch_cases:
  assumes "switch_account D rq rd c st = (b, st2)"
  shows "map_option ID (rs_account st2) = map_option ID (rs_account st) \<and> set (rs_failed st) \<subseteq> set (rs_failed st2)
    \<or> (\<exists>acc. rs_account st = Some acc \<and> insert (ID acc) (set (rs_failed st)) \<subseteq> set (rs_failed st2)
         \<and> (case rs_account st2 of None \<Rightarrow> True | Some a \<Rightarrow> ID a \<notin> set (rs_failed st2)))"
proof (cases "rs_account st = None \<or> \<not> SwitchAccount c \<or> h_lb (rs_handler st) = None")
  case True
  then show ?thesis using assms by (auto simp: switch_account_def split: option.splits)
next
  case False
  then obtain acc where acc: "rs_account st = Some acc" by auto
  let ?failed = "note_failed (ID acc) (rs_failed st)"
  let ?st = "release_current (st\<lparr>rs_failed := ?failed\<rparr>)"
  have f: "set ?failed = insert (ID acc) (set (rs_failed st))" by (auto simp: note_failed_def)
  obtain q h where q: "selectAccountWithOptions D (rd_env rd) (rq_channel rq) (rq_required rq) ?failed (rq_model rq) (rs_handler ?st) = (q, h)"
    by force
  show ?thesis
  proof (cases q)
    case (Inl e)
    then show ?thesis using assms acc False q f
      by (auto simp: switch_account_def Let_def split: prod.splits if_splits)
  next
    case (Inr ca)
    obtain c' acc' where ca: "ca = (c', acc')" by (cases ca)
    have "case acc' of None \<Rightarrow> True | Some a \<Rightarrow> ID a \<notin> set ?failed"
      using select_facts(4) [OF q] Inr ca by (auto split: option.split)
    moreover have "rs_account st2 = acc'" "rs_failed st2 = ?failed"
      using assms acc False q Inr ca by (auto simp: switch_account_def Let_def split: prod.splits if_splits)
    ultimately show ?thesis using acc f by (auto split: option.splits)
  qed
qed

lemma calls_inv_switch:
  assumes "calls_inv st" and "switch_account D rq rd c st = (b, st2)"
  shows "calls_inv st2"
proof -
  have calls: "rs_calls st2 = rs_calls st" by (rule switch_calls [OF assms(2)])
  from switch_cases [OF assms(2)] show ?thesis
  proof (elim disjE)
    assume "map_option ID (rs_account st2) = map_option ID (rs_account st) \<and> set (rs_failed st) \<subseteq> set (rs_failed st2)"
    then show ?thesis using assms(1) calls by (auto simp: calls_inv_def Let_def)
  next
    assume "\<exists>acc. rs_account st = Some acc \<and> insert (ID acc) (set (rs_failed st)) \<subseteq> set (rs_failed st2)
         \<and> (case rs_account st2 of None \<Rightarrow> True | Some a \<Rightarrow> ID a \<notin> set (rs_failed st2))"
    then obtain acc where acc: "rs_account st = Some acc" "insert (ID acc) (set (rs_failed st)) \<subseteq> set (rs_failed st2)"
      "case rs_account st2 of None \<Rightarrow> True | Some a \<Rightarrow> ID a \<notin> set (rs_failed st2)" by blast
    then have "None \<notin> set (call_ids (rs_calls st))" using assms(1) by (auto simp: calls_inv_def Let_def)
    moreover have "i \<in> set (rs_failed st2)" if "Some i \<in> set (call_ids (rs_calls st))" for i
      using that assms(1) acc by (auto simp: calls_inv_def Let_def)
    moreover from this acc(3) have "map_option ID (rs_account st2) \<notin> set (call_ids (rs_calls st))"
      using calculation(1) by (cases "rs_account st2") auto
    ultimately show ?thesis using assms(1) calls by (simp add: calls_inv_def Let_def)
  qed
qed

section \<open>Properties\<close>

text \<open>
  Property C32. A request is retried only when that is safe, and a bounded number of times: there are
  at most one more upstream calls than configured retries, every call but the last failed with a
  retryable error before anything was sent to the client, and the request ends as completed exactly
  when the last call succeeded, and as cut off exactly when the last one failed after output.
\<close>

theorem retry_attempts:
  assumes "handle_upstream D cfg rq reqModel env rounds h = (Inr (fin, st), h')"
  shows "\<exists>m \<le> nat (cfg_MaxRetries cfg). length (rs_calls st) = Suc m
    \<and> (\<forall>i < m. \<exists>e. rd_reply (rounds i) = Some (e, False) \<and> Retryable (ClassifyUpstreamError e) \<and> \<not> rd_cancelled (rounds i))
    \<and> (case rd_reply (rounds m) of
         None \<Rightarrow> fin = Completed
       | Some (e, True) \<Rightarrow> fin = PartialOutput e
       | Some (e, False) \<Rightarrow> fin \<noteq> Completed \<and> (\<forall>e'. fin \<noteq> PartialOutput e'))"
proof -
  obtain c acc h1 tracked h2 where "run_loop D cfg rq rounds 0 (nat (cfg_MaxRetries cfg))
     \<lparr>rs_handler = h2, rs_client = c, rs_account = acc, rs_tracked = tracked, rs_failed = [], rs_calls = []\<rparr> = (fin, st)"
    using assms by (auto simp: handle_upstream_def split: sum.splits prod.splits)
  from run_loop_calls [OF this] show ?thesis by simp
qed

definition conn_count :: "'s handler \<Rightarrow> int \<Rightarrow> int" where
  "conn_count h a = (case active_tracker h of None \<Rightarrow> 0 | Some t \<Rightarrow> mem_GetCount t a)"

text \<open>
  Property C33. No connection leaks: however often the accounts were changed and however the request
  ended, error or success, every account has as many connections as before the request.
\<close>

theorem retry_returns_connections:
  assumes "room_for_one h"
  shows "conn_count (snd (handle_upstream D cfg rq reqModel env rounds h)) a = conn_count h a"
proof -
  obtain q h1 where q: "selectAccountWithOptions D env (rq_channel rq) (rq_required rq) [] (trim_space reqModel) h = (q, h1)" by force
  have h1: "held h 0 h1" using held_start [OF assms] by (simp only: held_frame [OF select_facts(1) [OF q]])
  have "held h 0 (snd (handle_upstream D cfg rq reqModel env rounds h))"
  proof (cases q)
    case (Inl e)
    then show ?thesis using q h1 by (simp add: handle_upstream_def)
  next
    case (Inr ca)
    obtain c acc where ca: "ca = (c, acc)" by (cases ca)
    obtain tracked h2 where t: "acquireTrackedAccount acc h1 = (tracked, h2)" by force
    obtain fin st where r: "run_loop D cfg rq rounds 0 (nat (cfg_MaxRetries cfg))
        \<lparr>rs_handler = h2, rs_client = c, rs_account = acc, rs_tracked = tracked, rs_failed = [], rs_calls = []\<rparr> = (fin, st)" by force
    have "held h (rs_tracked st) (rs_handler st)"
    proof (rule run_loop_preserves [OF r, where P = "\<lambda>st. held h (rs_tracked st) (rs_handler st)"], goal_cases)
      case 1
      then show ?case using held_acquire [OF h1 assms t] by simp
    next
      case (2 s)
      then show ?case by (simp add: record_call_def)
    next
      case (3 rd e s)
      then show ?case by (simp only: mark_frame held_frame [OF mark_tracker])
    next
      case (4 rd x s b s2)
      then show ?case using switch_held [OF _ assms] by blast
    qed
    then have "held h 0 (releaseTrackedAccount (rs_tracked st) (rs_handler st))" by (rule held_release [OF _ assms])
    then show ?thesis using q Inr ca t r by (simp add: handle_upstream_def)
  qed
  then show ?thesis by (auto simp: conn_count_def held_def split: option.splits)
qed

text \<open>
  Property C34. A request never comes back to an account it has left: the calls on one account are
  consecutive, so an account is called again only when no other could be found, and never after
  another one was tried.
\<close>

theorem retry_never_returns:
  assumes "handle_upstream D cfg rq reqModel env rounds h = (Inr (fin, st), h')"
  shows "distinct (remdups_adj (map (map_option ID \<circ> snd) (rs_calls st)))"
proof -
  obtain c acc tracked h2 where r: "run_loop D cfg rq rounds 0 (nat (cfg_MaxRetries cfg))
     \<lparr>rs_handler = h2, rs_client = c, rs_account = acc, rs_tracked = tracked, rs_failed = [], rs_calls = []\<rparr> = (fin, st)"
    using assms by (auto simp: handle_upstream_def split: sum.splits prod.splits)
  have "calls_inv st"
    by (rule run_loop_preserves [OF r])
      (simp add: calls_inv_def call_ids_def, erule calls_inv_call, erule calls_inv_mark, erule (1) calls_inv_switch)
  then show ?thesis by (simp add: calls_inv_def call_ids_def Let_def)
qed

text \<open>A run in which the only account fails once, is retried for want of another, and succeeds.\<close>

lemma trim_codes: "trim_space ''401'' = ''401''" "trim_space ''403'' = ''403''" "trim_space ''404'' = ''404''"
  "trim_space ''409'' = ''409''" "trim_space ''400'' = ''400''" "trim_space ''429'' = ''429''" "trim_space ''402'' = ''402''"
  by (rule trim_space_id; simp add: printable_def)+

lemmas classify_simps = ClassifyUpstreamError_def ClassifyAccountStatus_def any_of_def Let_def HasExplicitHTTPStatus_def
  status_patterns_def trim_codes contains_Cons contains_Nil isWarpModelUnavailableError_def lower_char_def

lemma class_eof: "ClassifyUpstreamError ''eof'' = uclass ''network'' True True" "ClassifyAccountStatus ''eof'' = ''''"
  by (simp_all add: classify_simps)

definition sample_rounds :: "nat \<Rightarrow> round" where
  "sample_rounds i = \<lparr>rd_reply = (if i = 0 then Some (''eof'', False) else None), rd_resetAt = 0, rd_now = 200,
     rd_cancelled = False, rd_slept = True, rd_env = sample_env\<rparr>"

definition sample_request :: request where
  "sample_request = \<lparr>rq_channel = ''codebuff'', rq_required = True, rq_model = ''m''\<rparr>"

lemma sample_no_other:
  assumes "h_lb h = h_lb sample_handler"
  shows "\<exists>e lb. selectAccountWithOptions sample_deps sample_env ''codebuff'' True [2] ''m'' h = (Inl e, h\<lparr>h_lb := Some lb\<rparr>)"
proof -
  have "trySessionAffinity sample_deps sample_env ''m'' [2] (Some (quotaFilter sample_env ''codebuff'' ''m'')) = None"
    by (simp add: trySessionAffinity_def sample_env_def quotaFilter_def)
  moreover have "\<exists>lb. GetNextAccountExcludingByChannelWithTrackerFilter (d_ops sample_deps) (se_clock sample_env) (se_rand sample_env) [2]
      ''codebuff'' (h_tracker h) (Some (quotaFilter sample_env ''codebuff'' ''m'')) (NewWithCacheTTL (Some ()) 0)
      = (Inl (NoEnabledAccounts ''codebuff''), lb)"
    by (simp add: GetNextAccountExcludingByChannelWithTrackerFilter_def getEnabledAccounts_def NewWithCacheTTL_def
        sample_deps_def filter_loop_def fs_init_def)
  ultimately show ?thesis using assms
    by (auto simp: selectAccountWithOptions_def selectAccountRecordWithOptions_def sample_handler_def)
qed

lemma sample_run:
  "\<exists>st h'. handle_upstream sample_deps sample_config sample_request ''m'' sample_env sample_rounds sample_handler = (Inr (Completed, st), h')
    \<and> map snd (rs_calls st) = [Some (codebuff_account 2), Some (codebuff_account 2)]"
proof -
  let ?h1 = "sample_handler\<lparr>h_cache := newAccountClientCache\<lparr>cl_built := 1,
     cl_entries := [(2, \<lparr>cc_fingerprint = ''h'', cc_client = Some (Client 0)\<rparr>)]\<rparr>\<rparr>"
  let ?h2 = "?h1\<lparr>h_tracker := Some (mem_Acquire 2 [])\<rparr>"
  let ?a = "codebuff_account 2"
  let ?st = "\<lparr>rs_handler = ?h2, rs_client = Client 0, rs_account = Some ?a, rs_tracked = 2, rs_failed = [], rs_calls = []\<rparr>"
  have "trim_space ''m'' = ''m''" by (rule trim_space_id) (simp_all add: printable_def)
  moreover have "acquireTrackedAccount (Some ?a) ?h1 = (2, ?h2)" by (simp add: acquireTrackedAccount_def sample_handler_def)
  ultimately have h: "handle_upstream sample_deps sample_config sample_request ''m'' sample_env sample_rounds sample_handler =
      (case run_loop sample_deps sample_config sample_request sample_rounds 0 3 ?st of
        (fin, st) \<Rightarrow> (Inr (fin, st), releaseTrackedAccount (rs_tracked st) (rs_handler st)))"
    by (simp add: handle_upstream_def sample_request_def sample_select sample_config_def split: prod.split)
  let ?h3 = "releaseTrackedAccount 2 ?h2"
  have "h_lb ?h3 = h_lb sample_handler" by (simp add: releaseTrackedAccount_def)
  from sample_no_other [OF this] obtain e lb where e:
    "selectAccountWithOptions sample_deps sample_env ''codebuff'' True [2] ''m'' ?h3 = (Inl e, ?h3\<lparr>h_lb := Some lb\<rparr>)" by blast
  obtain t h4 where t: "acquireTrackedAccount (Some ?a) (?h3\<lparr>h_lb := Some lb\<rparr>) = (t, h4)" by force
  have tn: "trim_space ''network'' = ''network''" by (rule trim_space_id) (simp_all add: printable_def)
  have lb: "h_lb ?h2 \<noteq> None" by (simp add: sample_handler_def)
  have "run_loop sample_deps sample_config sample_request sample_rounds 0 3 ?st =
     (Completed, ?st\<lparr>rs_handler := h4, rs_tracked := t, rs_failed := [2], rs_calls := [(Client 0, Some ?a), (Client 0, Some ?a)]\<rparr>)"
    unfolding numeral_3_eq_3
    using e t lb
    by (simp add: run_loop.simps [of _ _ _ _ 0] run_loop.simps [of _ _ _ _ "Suc 0"] sample_rounds_def class_eof mark_account_def status_to_mark_def
        switch_account_def note_failed_def release_current_def sample_request_def shouldRetryCurrentAccountWhenNoAlternative_def tn Let_def
        split: option.split)
  with h show ?thesis by simp
qed

theorem retry_attempts_witness:
  "\<exists>st h'. handle_upstream sample_deps sample_config sample_request ''m'' sample_env sample_rounds sample_handler
     = (Inr (Completed, st), h') \<and> 0 < length (rs_calls st) \<and> length (rs_calls st) \<le> 4"
proof -
  obtain st h' where r: "handle_upstream sample_deps sample_config sample_request ''m'' sample_env sample_rounds sample_handler
     = (Inr (Completed, st), h')" using sample_run by blast
  have "nat (cfg_MaxRetries sample_config) = 3" by (simp add: sample_config_def)
  then obtain m where "m \<le> 3" "length (rs_calls st) = Suc m" using retry_attempts [OF r] by force
  with r show ?thesis by auto
qed

theorem retry_returns_connections_witness:
  "conn_count (snd (handle_upstream sample_deps sample_config sample_request ''m'' sample_env sample_rounds sample_handler)) 2 = 0"
proof -
  have t: "active_tracker sample_handler = Some NewMemoryConnTracker"
    by (simp add: active_tracker_def sample_handler_def NewMemoryConnTracker_def)
  then have "room_for_one sample_handler" by (simp add: room_for_one_def mem_GetCount_def) (simp add: NewMemoryConnTracker_def)
  from retry_returns_connections [OF this] t show ?thesis
    by (simp add: conn_count_def mem_GetCount_def) (simp add: NewMemoryConnTracker_def)
qed

theorem retry_never_returns_witness:
  "\<exists>st h'. handle_upstream sample_deps sample_config sample_request ''m'' sample_env sample_rounds sample_handler
     = (Inr (Completed, st), h') \<and> distinct (remdups_adj (map (map_option ID \<circ> snd) (rs_calls st)))"
proof -
  obtain st h' where r: "handle_upstream sample_deps sample_config sample_request ''m'' sample_env sample_rounds sample_handler
     = (Inr (Completed, st), h')" using sample_run by blast
  with retry_never_returns [OF this] show ?thesis by blast
qed

end
