(* ===== verification/Passthrough.thy ===== *)
theory Passthrough
  imports Retry_Loop
begin

text \<open>
  \<open>handlePassthroughProvider\<close> of \<open>internal/handler/handler.go\<close>: the check of the model, the selection
  of an account, the raw writer that forwards the upstream's events, the retry loop and the error
  response after it. What is written to the client is a list of writes. The switch to another
  account is the one of \<open>Retry_Loop\<close>: here the code releases the connection before it notes the
  failed account, and the two do not depend on each other.
\<close>

section \<open>What the client receives\<close>

datatype client_write = SSEData string | HTTPStatus int | HTTPBody string

definition quoted :: "string \<Rightarrow> string" where
  "quoted s = [CHR 0x22] @ s @ [CHR 0x22]"

definition replace_with :: "char \<Rightarrow> string \<Rightarrow> string \<Rightarrow> string" where
  "replace_with c t s = concat (map (\<lambda>d. if d = c then t else [d]) s)"

text \<open>A backslash before every backslash and every quote.\<close>

definition escape_error :: "string \<Rightarrow> string" where
  "escape_error s = replace_with CHR 0x22 [CHR 0x5C, CHR 0x22] (replace_with CHR 0x5C [CHR 0x5C, CHR 0x5C] s)"

definition sse_error :: "string \<Rightarrow> string" where
  "sse_error msg = ''{'' @ quoted ''type'' @ '':'' @ quoted ''error'' @ '','' @ quoted ''error'' @ '':{'' @ quoted ''message''
     @ '':'' @ quoted msg @ ''}}''"

definition json_error :: "string \<Rightarrow> string \<Rightarrow> int \<Rightarrow> string" where
  "json_error msg errType code = ''{'' @ quoted ''error'' @ '':{'' @ quoted ''message'' @ '':'' @ quoted msg @ '',''
     @ quoted ''type'' @ '':'' @ quoted errType @ '','' @ quoted ''code'' @ '':'' @ itoa code @ ''}}'' @ [CHR 0x0A]"

section \<open>The raw writer\<close>

definition stop_mark :: string where "stop_mark = quoted ''finish_reason'' @ '':'' @ quoted ''stop''"
definition tool_calls_mark :: string where "tool_calls_mark = quoted ''finish_reason'' @ '':'' @ quoted ''tool_calls''"

record writer =
  wr_out :: "client_write list"
  wr_hasOutput :: bool
  wr_sawToolCalls :: bool
  wr_body :: string

text \<open>The writer of a streamed response, for one event.\<close>

definition stream_write :: "string \<Rightarrow> writer \<Rightarrow> writer" where
  "stream_write data w =
    (let w = w\<lparr>wr_hasOutput := True\<rparr> in
     if data = ''[DONE]'' then w\<lparr>wr_out := wr_out w @ [SSEData ''[DONE]'']\<rparr>
     else if wr_sawToolCalls w \<and> contains data stop_mark then w
     else let w = w\<lparr>wr_out := wr_out w @ [SSEData data]\<rparr>
       in if \<not> wr_sawToolCalls w \<and> contains data tool_calls_mark then w\<lparr>wr_sawToolCalls := True\<rparr> else w)"

text \<open>The writer of a response that is not streamed keeps the last event.\<close>

definition body_write :: "string \<Rightarrow> writer \<Rightarrow> writer" where
  "body_write data w = (if data = ''[DONE]'' then w else w\<lparr>wr_body := data, wr_hasOutput := True\<rparr>)"

text \<open>One call of the upstream: a fresh buffer and flag, the status line of a stream, then the events.\<close>

definition upstream_events :: "bool \<Rightarrow> string list \<Rightarrow> writer \<Rightarrow> writer" where
  "upstream_events streamed events w =
    (let w = w\<lparr>wr_sawToolCalls := False, wr_body := ''''\<rparr> in
     if streamed then fold stream_write events (w\<lparr>wr_out := wr_out w @ [HTTPStatus 200]\<rparr>)
     else fold body_write events w)"

section \<open>The loop\<close>

record pass_round =
  pr_events :: "string list"
  pr_error :: "string option"
  pr_resetAt :: instant
  pr_now :: instant
  pr_slept :: bool
  pr_env :: sel_env

definition as_round :: "pass_round \<Rightarrow> round" where
  "as_round pr = \<lparr>rd_reply = None, rd_resetAt = pr_resetAt pr, rd_now = pr_now pr, rd_cancelled = False,
     rd_slept = pr_slept pr, rd_env = pr_env pr\<rparr>"

record 's pass_state =
  ps_run :: "'s run_state"
  ps_writer :: writer
  ps_lastErr :: string
  ps_lastCategory :: string

text \<open>Whether the request is a stream, and whether the provider is one that is always streamed.\<close>

record pass_request =
  pq_request :: request
  pq_stream :: bool
  pq_forced :: bool

definition write_out :: "client_write list \<Rightarrow> 's pass_state \<Rightarrow> 's pass_state" where
  "write_out ws st = st\<lparr>ps_writer := (ps_writer st)\<lparr>wr_out := wr_out (ps_writer st) @ ws\<rparr>\<rparr>"

fun pass_loop :: "'s deps \<Rightarrow> config \<Rightarrow> pass_request \<Rightarrow> (nat \<Rightarrow> pass_round) \<Rightarrow> nat \<Rightarrow> nat \<Rightarrow> 's pass_state \<Rightarrow> 's pass_state" where
  "pass_loop D cfg pq rounds attempt retriesRemaining st =
    (let pr = rounds attempt;
         st = st\<lparr>ps_run := record_call (ps_run st),
                 ps_writer := upstream_events (pq_stream pq \<or> pq_forced pq) (pr_events pr) (ps_writer st)\<rparr>
     in case pr_error pr of
       None \<Rightarrow> if \<not> pq_stream pq \<and> wr_body (ps_writer st) \<noteq> '''' then write_out [HTTPBody (wr_body (ps_writer st))] st else st
     | Some errStr \<Rightarrow>
        let errClass = ClassifyUpstreamError errStr;
            st = st\<lparr>ps_lastErr := errStr, ps_lastCategory := Category errClass\<rparr>
        in if pq_stream pq \<and> wr_hasOutput (ps_writer st)
           then write_out [SSEData (sse_error (''Request failed: '' @ escape_error errStr))] st
           else let st = st\<lparr>ps_run := mark_account D (pq_request pq) (as_round pr) errStr (ps_run st)\<rparr>
             in if \<not> Retryable errClass then st
                else (case retriesRemaining of
                    0 \<Rightarrow> st
                  | Suc retriesRemaining \<Rightarrow>
                     (case switch_account D (pq_request pq) (as_round pr) errClass (ps_run st) of
                        (False, rs) \<Rightarrow> st\<lparr>ps_run := rs\<rparr>
                      | (True, rs) \<Rightarrow>
                          let st = st\<lparr>ps_run := rs\<rparr> in
                          if 0 < retry_delay cfg
                             \<and> 0 < computeRetryDelay (retry_delay cfg) (int attempt + 1) (Category errClass) \<and> \<not> pr_slept pr
                          then st
                          else pass_loop D cfg pq rounds (Suc attempt) retriesRemaining st)))"

declare pass_loop.simps [simp del]

text \<open>The error response after the loop, for a failure without any output.\<close>

definition inject_error :: "pass_request \<Rightarrow> 's pass_state \<Rightarrow> 's pass_state" where
  "inject_error pq st =
    (if ps_lastErr st \<noteq> '''' \<and> \<not> wr_hasOutput (ps_writer st)
     then let escaped = escape_error (ps_lastErr st) in
       if pq_stream pq then write_out [SSEData (sse_error escaped), SSEData ''[DONE]''] st
       else let statusCode = errorCategoryToStatus (ps_lastCategory st);
                errType = (if 400 \<le> statusCode \<and> statusCode < 500
                  then (if ps_lastCategory st = '''' then ''invalid_request_error'' else ps_lastCategory st) else ''upstream_error'')
         in write_out [HTTPStatus statusCode, HTTPBody (json_error escaped errType statusCode)] st
     else st)"

section \<open>The handler\<close>

text \<open>
  A selection without an account, which only a handler without load balancer makes, ends in a panic: the
  log call after it reads the identifier of the account.
\<close>

datatype pass_stop = NoAccountSelected select_error | NilAccount

datatype pass_answer = InvalidRequest gate_error | NoAccount pass_stop | Answered "client_write list"

definition empty_writer :: writer where
  "empty_writer = \<lparr>wr_out = [], wr_hasOutput = False, wr_sawToolCalls = False, wr_body = ''''\<rparr>"

definition run_passthrough :: "'s deps \<Rightarrow> config \<Rightarrow> pass_request \<Rightarrow> sel_env \<Rightarrow> (nat \<Rightarrow> pass_round) \<Rightarrow> 's handler
    \<Rightarrow> (pass_stop + 's pass_state) \<times> 's handler" where
  "run_passthrough D cfg pq env rounds h =
    (case selectAccountWithOptions D env (rq_channel (pq_request pq)) True [] (rq_model (pq_request pq)) h of
       (Inl e, h) \<Rightarrow> (Inl (NoAccountSelected e), h)
     | (Inr (c, acc), h) \<Rightarrow>
        if acc = None then (Inl NilAccount, h)
        else (case acquireTrackedAccount acc h of
           (tracked, h) \<Rightarrow>
            let st = pass_loop D cfg pq rounds 0 (nat (cfg_MaxRetries cfg))
                \<lparr>ps_run = \<lparr>rs_handler = h, rs_client = c, rs_account = acc, rs_tracked = tracked, rs_failed = [], rs_calls = []\<rparr>,
                 ps_writer = empty_writer, ps_lastErr = '''', ps_lastCategory = ''''\<rparr>
            in (Inr (inject_error pq st), releaseTrackedAccount (rs_tracked (ps_run st)) (rs_handler (ps_run st)))))"

definition handlePassthroughProvider :: "'r redis_store option \<Rightarrow> model codec \<Rightarrow> faults \<Rightarrow> 's deps \<Rightarrow> config \<Rightarrow> string \<Rightarrow> string \<Rightarrow> bool
    \<Rightarrow> sel_env \<Rightarrow> (nat \<Rightarrow> pass_round) \<Rightarrow> 'r \<Rightarrow> 's handler \<Rightarrow> pass_answer \<times> 'r \<times> 's handler" where
  "handlePassthroughProvider S J ft D cfg specName rawModel stream env rounds r h =
    (let targetChannel = trim_space specName in
     case validateModelAvailability S J ft rawModel targetChannel r of
       (Inl e, r) \<Rightarrow> (InvalidRequest e, r, h)
     | (Inr validated, r) \<Rightarrow>
        let mappedModel = (case validated of None \<Rightarrow> rawModel
              | Some m \<Rightarrow> if mModelID m \<noteq> '''' then mModelID m else rawModel);
            pq = \<lparr>pq_request = \<lparr>rq_channel = targetChannel, rq_required = True, rq_model = mappedModel\<rparr>,
                  pq_stream = stream, pq_forced = equal_fold specName ''kimchi''\<rparr>
        in (case run_passthrough D cfg pq env rounds h of
            (Inl e, h) \<Rightarrow> (NoAccount e, r, h)
          | (Inr st, h) \<Rightarrow> (Answered (wr_out (ps_writer st)), r, h)))"

section \<open>The transcript of a stream\<close>

text \<open>The events of one call that reach the client.\<close>

fun forwarded :: "bool \<Rightarrow> string list \<Rightarrow> string list" where
  "forwarded saw [] = []"
| "forwarded saw (d # ds) =
    (if d = ''[DONE]'' then d # forwarded saw ds
     else if saw \<and> contains d stop_mark then forwarded saw ds
     else d # forwarded (saw \<or> contains d tool_calls_mark) ds)"

lemma fold_stream_write:
  "wr_out (fold stream_write es w) = wr_out w @ map SSEData (forwarded (wr_sawToolCalls w) es)
    \<and> wr_hasOutput (fold stream_write es w) = (wr_hasOutput w \<or> es \<noteq> []) \<and> wr_body (fold stream_write es w) = wr_body w"
proof (induction es arbitrary: w)
  case (Cons d es)
  show ?case using Cons.IH [of "stream_write d w"] by (simp add: stream_write_def Let_def)
qed simp

lemma fold_body_write:
  "wr_out (fold body_write es w) = wr_out w
    \<and> wr_hasOutput (fold body_write es w) = (wr_hasOutput w \<or> (\<exists>d \<in> set es. d \<noteq> ''[DONE]''))"
  by (induction es arbitrary: w) (auto simp: body_write_def)

lemma upstream_events_out:
  "wr_out (upstream_events True es w) = wr_out w @ HTTPStatus 200 # map SSEData (forwarded False es)"
  "wr_hasOutput (upstream_events True es w) = (wr_hasOutput w \<or> es \<noteq> [])" "wr_body (upstream_events True es w) = ''''"
  "wr_out (upstream_events False es w) = wr_out w"
  "wr_hasOutput (upstream_events False es w) = (wr_hasOutput w \<or> (\<exists>d \<in> set es. d \<noteq> ''[DONE]''))"
  by (simp_all add: upstream_events_def fold_stream_write fold_body_write)

lemma forwarded_saw: "forwarded True es = filter (\<lambda>d. d = ''[DONE]'' \<or> \<not> contains d stop_mark) es"
  by (induction es) auto

text \<open>
  The passthrough writer removes exactly the stray stop events: the events of a call are
  forwarded as they came up to the first one that finishes with tool calls, and from there on all
  but those that finish with stop.
\<close>

theorem passthrough_suppresses_stop:
  "\<exists>pre post. es = pre @ post
    \<and> wr_out (upstream_events True es w)
        = wr_out w @ HTTPStatus 200 # map SSEData (pre @ filter (\<lambda>d. d = ''[DONE]'' \<or> \<not> contains d stop_mark) post)
    \<and> (\<forall>d. d \<in> set (butlast pre) \<and> d \<noteq> ''[DONE]'' \<longrightarrow> \<not> contains d tool_calls_mark)
    \<and> (post = [] \<or> pre \<noteq> [] \<and> last pre \<noteq> ''[DONE]'' \<and> contains (last pre) tool_calls_mark)"
proof -
  have "\<exists>pre post. es = pre @ post
    \<and> forwarded False es = pre @ filter (\<lambda>d. d = ''[DONE]'' \<or> \<not> contains d stop_mark) post
    \<and> (\<forall>d. d \<in> set (butlast pre) \<and> d \<noteq> ''[DONE]'' \<longrightarrow> \<not> contains d tool_calls_mark)
    \<and> (post = [] \<or> pre \<noteq> [] \<and> last pre \<noteq> ''[DONE]'' \<and> contains (last pre) tool_calls_mark)"
  proof (induction es)
    case Nil
    then show ?case by (intro exI [of _ "[]"]) simp
  next
    case (Cons d es)
    show ?case
    proof (cases "d \<noteq> ''[DONE]'' \<and> contains d tool_calls_mark")
      case True
      then show ?thesis by (intro exI [of _ "[d]"] exI [of _ es]) (simp add: forwarded_saw)
    next
      case False
      obtain pre post where IH: "es = pre @ post"
        "forwarded False es = pre @ filter (\<lambda>d. d = ''[DONE]'' \<or> \<not> contains d stop_mark) post"
        "\<forall>d. d \<in> set (butlast pre) \<and> d \<noteq> ''[DONE]'' \<longrightarrow> \<not> contains d tool_calls_mark"
        "post = [] \<or> pre \<noteq> [] \<and> last pre \<noteq> ''[DONE]'' \<and> contains (last pre) tool_calls_mark"
        using Cons by blast
      then show ?thesis using False by (intro exI [of _ "d # pre"] exI [of _ post]) auto
    qed
  qed
  then obtain pre post where "es = pre @ post"
    "forwarded False es = pre @ filter (\<lambda>d. d = ''[DONE]'' \<or> \<not> contains d stop_mark) post"
    "\<forall>d. d \<in> set (butlast pre) \<and> d \<noteq> ''[DONE]'' \<longrightarrow> \<not> contains d tool_calls_mark"
    "post = [] \<or> pre \<noteq> [] \<and> last pre \<noteq> ''[DONE]'' \<and> contains (last pre) tool_calls_mark" by blast
  then show ?thesis by (intro exI [of _ pre] exI [of _ post]) (simp only: upstream_events_out simp_thms)
qed

lemma pass_loop_preserves:
  assumes "P (ps_run st)"
    and call: "\<And>st. P st \<Longrightarrow> P (record_call st)"
    and mark: "\<And>rd e st. P st \<Longrightarrow> P (mark_account D (pq_request pq) rd e st)"
    and switch: "\<And>rd c st b st2. P st \<Longrightarrow> switch_account D (pq_request pq) rd c st = (b, st2) \<Longrightarrow> P st2"
  shows "P (ps_run (pass_loop D cfg pq rounds k n st))"
  using assms(1)
proof (induction n arbitrary: k st)
  case 0
  then show ?case using call [OF 0] mark [OF call [OF 0]]
    by (auto simp: pass_loop.simps [of _ _ _ _ _ 0] Let_def write_out_def split: option.splits)
next
  case (Suc n)
  have c: "P (record_call (ps_run st))" and m: "P (mark_account D (pq_request pq) rd e (record_call (ps_run st)))" for rd e
    using call mark Suc.prems by blast+
  show ?case using c m switch [OF m] Suc.IH
    by (auto simp: pass_loop.simps [of _ _ _ _ _ "Suc n"] Let_def write_out_def split: option.splits prod.splits bool.splits)
qed

definition error_frames :: "string \<Rightarrow> client_write list" where
  "error_frames e = (if e = '''' then [] else [SSEData (sse_error (escape_error e)), SSEData ''[DONE]''])"

lemma stream_loop:
  assumes "pq_stream pq" and "\<not> wr_hasOutput (ps_writer st)"
  shows "\<exists>m \<le> n. length (rs_calls (ps_run (pass_loop D cfg pq rounds k n st))) = length (rs_calls (ps_run st)) + Suc m
    \<and> (\<forall>i < m. pr_events (rounds (k + i)) = [] \<and> (\<exists>e. pr_error (rounds (k + i)) = Some e \<and> Retryable (ClassifyUpstreamError e)))
    \<and> wr_out (ps_writer (pass_loop D cfg pq rounds k n st)) =
        wr_out (ps_writer st) @ replicate (Suc m) (HTTPStatus 200) @ map SSEData (forwarded False (pr_events (rounds (k + m))))
        @ (case pr_error (rounds (k + m)) of None \<Rightarrow> []
           | Some e \<Rightarrow> if pr_events (rounds (k + m)) = [] then [] else [SSEData (sse_error (''Request failed: '' @ escape_error e))])
    \<and> wr_hasOutput (ps_writer (pass_loop D cfg pq rounds k n st)) = (pr_events (rounds (k + m)) \<noteq> [])
    \<and> ps_lastErr (pass_loop D cfg pq rounds k n st) = (case pr_error (rounds (k + m)) of Some e \<Rightarrow> e
        | None \<Rightarrow> if m = 0 then ps_lastErr st else the (pr_error (rounds (k + m - 1))))"
  using assms(2)
proof (induction n arbitrary: k st)
  case 0
  then show ?case using assms(1)
    by (auto simp: pass_loop.simps [of _ _ _ _ _ 0] Let_def write_out_def upstream_events_out record_call_def split: option.splits)
next
  case (Suc n)
  let ?pr = "rounds k"
  let ?st = "st\<lparr>ps_run := record_call (ps_run st), ps_writer := upstream_events True (pr_events ?pr) (ps_writer st)\<rparr>"
  show ?case
  proof (cases "\<exists>e rs. pr_events ?pr = [] \<and> pr_error ?pr = Some e \<and> Retryable (ClassifyUpstreamError e)
      \<and> switch_account D (pq_request pq) (as_round ?pr) (ClassifyUpstreamError e)
          (mark_account D (pq_request pq) (as_round ?pr) e (record_call (ps_run st))) = (True, rs)
      \<and> pass_loop D cfg pq rounds k (Suc n) st = pass_loop D cfg pq rounds (Suc k) n
          (?st\<lparr>ps_lastErr := e, ps_lastCategory := Category (ClassifyUpstreamError e), ps_run := rs\<rparr>)")
    case True
    then obtain e rs where e: "pr_events ?pr = []" "pr_error ?pr = Some e" "Retryable (ClassifyUpstreamError e)"
      and sw: "switch_account D (pq_request pq) (as_round ?pr) (ClassifyUpstreamError e)
          (mark_account D (pq_request pq) (as_round ?pr) e (record_call (ps_run st))) = (True, rs)"
      and l: "pass_loop D cfg pq rounds k (Suc n) st = pass_loop D cfg pq rounds (Suc k) n
          (?st\<lparr>ps_lastErr := e, ps_lastCategory := Category (ClassifyUpstreamError e), ps_run := rs\<rparr>)" by blast
    let ?s = "?st\<lparr>ps_lastErr := e, ps_lastCategory := Category (ClassifyUpstreamError e), ps_run := rs\<rparr>"
    have s: "\<not> wr_hasOutput (ps_writer ?s)" "wr_out (ps_writer ?s) = wr_out (ps_writer st) @ [HTTPStatus 200]"
      "length (rs_calls (ps_run ?s)) = Suc (length (rs_calls (ps_run st)))" "ps_lastErr ?s = e"
      using e(1) Suc.prems switch_calls [OF sw] by (simp_all add: upstream_events_out record_call_def)
    obtain m where m: "m \<le> n"
      "length (rs_calls (ps_run (pass_loop D cfg pq rounds (Suc k) n ?s))) = length (rs_calls (ps_run ?s)) + Suc m"
      "\<forall>i < m. pr_events (rounds (Suc k + i)) = [] \<and> (\<exists>e. pr_error (rounds (Suc k + i)) = Some e \<and> Retryable (ClassifyUpstreamError e))"
      "wr_out (ps_writer (pass_loop D cfg pq rounds (Suc k) n ?s)) =
        wr_out (ps_writer ?s) @ replicate (Suc m) (HTTPStatus 200) @ map SSEData (forwarded False (pr_events (rounds (Suc k + m))))
        @ (case pr_error (rounds (Suc k + m)) of None \<Rightarrow> []
           | Some e \<Rightarrow> if pr_events (rounds (Suc k + m)) = [] then [] else [SSEData (sse_error (''Request failed: '' @ escape_error e))])"
      "wr_hasOutput (ps_writer (pass_loop D cfg pq rounds (Suc k) n ?s)) = (pr_events (rounds (Suc k + m)) \<noteq> [])"
      "ps_lastErr (pass_loop D cfg pq rounds (Suc k) n ?s) = (case pr_error (rounds (Suc k + m)) of Some e \<Rightarrow> e
        | None \<Rightarrow> if m = 0 then ps_lastErr ?s else the (pr_error (rounds (Suc k + m - 1))))"
      using Suc.IH [OF s(1), of "Suc k"] by blast
    have "pr_events (rounds (k + i)) = [] \<and> (\<exists>e. pr_error (rounds (k + i)) = Some e \<and> Retryable (ClassifyUpstreamError e))"
      if "i < Suc m" for i using that m(3) e by (cases i) auto
    then show ?thesis unfolding l using m s e by (intro exI [of _ "Suc m"]) (simp split: option.split)
  next
    case False
    have "length (rs_calls (ps_run (pass_loop D cfg pq rounds k (Suc n) st))) = Suc (length (rs_calls (ps_run st)))
      \<and> wr_out (ps_writer (pass_loop D cfg pq rounds k (Suc n) st)) =
        wr_out (ps_writer st) @ HTTPStatus 200 # map SSEData (forwarded False (pr_events (rounds k)))
        @ (case pr_error (rounds k) of None \<Rightarrow> []
           | Some e \<Rightarrow> if pr_events (rounds k) = [] then [] else [SSEData (sse_error (''Request failed: '' @ escape_error e))])
      \<and> wr_hasOutput (ps_writer (pass_loop D cfg pq rounds k (Suc n) st)) = (pr_events (rounds k) \<noteq> [])
      \<and> ps_lastErr (pass_loop D cfg pq rounds k (Suc n) st) = (case pr_error (rounds k) of Some e \<Rightarrow> e | None \<Rightarrow> ps_lastErr st)"
      using False assms(1) Suc.prems
      by (auto simp: pass_loop.simps [of _ _ _ _ _ "Suc n"] Let_def write_out_def upstream_events_out record_call_def
          dest: switch_calls split: option.splits prod.splits bool.splits if_splits)
    then show ?thesis by (intro exI [of _ 0]) (simp split: option.splits)
  qed
qed

text \<open>
  Property C35. What a client of a streamed passthrough request receives, whatever the upstream does:
  the status, once per call, then the events of the last call, and nothing of any call before it, for
  no call is repeated once there was output; and an upstream error that ends the request is never
  silent, it follows the events as one more event, or stands alone with the end mark when there
  were none.
\<close>

theorem passthrough_transcript:
  assumes "run_passthrough D cfg pq env rounds h = (Inr st, h')" and "pq_stream pq"
  shows "\<exists>m \<le> nat (cfg_MaxRetries cfg). length (rs_calls (ps_run st)) = Suc m
    \<and> (\<forall>i < m. pr_events (rounds i) = [] \<and> (\<exists>e. pr_error (rounds i) = Some e \<and> Retryable (ClassifyUpstreamError e)))
    \<and> wr_out (ps_writer st) = replicate (Suc m) (HTTPStatus 200) @ map SSEData (forwarded False (pr_events (rounds m)))
        @ (case pr_error (rounds m) of
             Some e \<Rightarrow> if pr_events (rounds m) = [] then error_frames e
               else [SSEData (sse_error (''Request failed: '' @ escape_error e))]
           | None \<Rightarrow> if pr_events (rounds m) = [] \<and> 0 < m then error_frames (the (pr_error (rounds (m - 1)))) else [])"
proof -
  obtain st0 where st0: "st = inject_error pq (pass_loop D cfg pq rounds 0 (nat (cfg_MaxRetries cfg)) st0)"
    "ps_writer st0 = empty_writer" "ps_lastErr st0 = ''''" "rs_calls (ps_run st0) = []"
    using assms(1) by (auto simp: run_passthrough_def Let_def split: sum.splits prod.splits if_splits)
  let ?l = "pass_loop D cfg pq rounds 0 (nat (cfg_MaxRetries cfg)) st0"
  have "\<not> wr_hasOutput (ps_writer st0)" using st0(2) by (simp add: empty_writer_def)
  from stream_loop [OF assms(2) this, of "nat (cfg_MaxRetries cfg)" D cfg rounds 0, unfolded add_0 st0(2-4)] obtain m where m:
    "m \<le> nat (cfg_MaxRetries cfg)" "length (rs_calls (ps_run ?l)) = Suc m"
    "\<forall>i < m. pr_events (rounds i) = [] \<and> (\<exists>e. pr_error (rounds i) = Some e \<and> Retryable (ClassifyUpstreamError e))"
    "wr_out (ps_writer ?l) = replicate (Suc m) (HTTPStatus 200) @ map SSEData (forwarded False (pr_events (rounds m)))
        @ (case pr_error (rounds m) of None \<Rightarrow> []
           | Some e \<Rightarrow> if pr_events (rounds m) = [] then [] else [SSEData (sse_error (''Request failed: '' @ escape_error e))])"
    "wr_hasOutput (ps_writer ?l) = (pr_events (rounds m) \<noteq> [])"
    "ps_lastErr ?l = (case pr_error (rounds m) of Some e \<Rightarrow> e | None \<Rightarrow> if m = 0 then '''' else the (pr_error (rounds (m - 1))))"
    using st0 by (auto simp: empty_writer_def)
  have "wr_out (ps_writer st) = wr_out (ps_writer ?l) @ (if pr_events (rounds m) = [] then error_frames (ps_lastErr ?l) else [])"
    using assms(2) m(5) by (simp add: st0(1) inject_error_def error_frames_def write_out_def)
  moreover have "rs_calls (ps_run st) = rs_calls (ps_run ?l)"
    by (simp add: st0(1) inject_error_def write_out_def Let_def)
  moreover have "error_frames '''' = []" by (simp add: error_frames_def)
  ultimately show ?thesis using m(1-4,6) by (intro exI [of _ m]) (simp split: option.split)
qed

text \<open>
  A passthrough request leaves no connection behind: every account has as many as before,
  whatever the request does.
\<close>

theorem passthrough_returns_connections:
  assumes "room_for_one h"
  shows "conn_count (snd (run_passthrough D cfg pq env rounds h)) a = conn_count h a"
proof -
  obtain q h1 where q: "selectAccountWithOptions D env (rq_channel (pq_request pq)) True [] (rq_model (pq_request pq)) h = (q, h1)" by force
  have h1: "held h 0 h1" using held_start [OF assms] by (simp only: held_frame [OF select_facts(1) [OF q]])
  have "held h 0 (snd (run_passthrough D cfg pq env rounds h))"
  proof (cases q)
    case (Inl e)
    then show ?thesis using q h1 by (simp add: run_passthrough_def)
  next
    case (Inr ca)
    obtain c acc where ca: "ca = (c, acc)" by (cases ca)
    obtain tracked h2 where t: "acquireTrackedAccount acc h1 = (tracked, h2)" by force
    let ?st0 = "\<lparr>ps_run = \<lparr>rs_handler = h2, rs_client = c, rs_account = acc, rs_tracked = tracked, rs_failed = [], rs_calls = []\<rparr>,
      ps_writer = empty_writer, ps_lastErr = '''', ps_lastCategory = ''''\<rparr>"
    let ?st = "pass_loop D cfg pq rounds 0 (nat (cfg_MaxRetries cfg)) ?st0"
    have "held h (rs_tracked (ps_run ?st)) (rs_handler (ps_run ?st))"
    proof (rule pass_loop_preserves [where P = "\<lambda>st. held h (rs_tracked st) (rs_handler st)"], goal_cases)
      case 1
      then show ?case using held_acquire [OF h1 assms t] by simp
    next
      case (2 s)
      then show ?case by (simp add: record_call_def)
    next
      case (3 rd e s)
      then show ?case by (simp only: mark_frame held_frame [OF mark_tracker])
    next
      case (4 rd x s b s2)
      then show ?case using switch_held [OF _ assms] by blast
    qed
    from held_release [OF this assms] show ?thesis using q Inr ca t h1 by (simp add: run_passthrough_def Let_def)
  qed
  then show ?thesis by (auto simp: conn_count_def held_def split: option.splits)
qed

text \<open>
  An error after output is lost when the response is not streamed: if the upstream delivers
  a body event and then fails with an error that is not retried, nothing at all is written and the
  client gets an empty response with status 200.
\<close>

theorem unstreamed_error_lost:
  assumes "run_passthrough D cfg pq env rounds h = (Inr st, h')" and "\<not> pq_stream pq" and "\<not> pq_forced pq"
    and "d \<in> set (pr_events (rounds 0))" and "d \<noteq> ''[DONE]''"
    and "pr_error (rounds 0) = Some e" and "\<not> Retryable (ClassifyUpstreamError e)"
  shows "wr_out (ps_writer st) = []"
proof -
  obtain st0 where st0: "st = inject_error pq (pass_loop D cfg pq rounds 0 (nat (cfg_MaxRetries cfg)) st0)" "ps_writer st0 = empty_writer"
    using assms(1) by (auto simp: run_passthrough_def Let_def split: sum.splits prod.splits if_splits)
  have "ps_writer (pass_loop D cfg pq rounds 0 (nat (cfg_MaxRetries cfg)) st0) = upstream_events False (pr_events (rounds 0)) empty_writer"
    using assms(2,3,6,7) st0(2) by (simp add: pass_loop.simps [of _ _ _ _ 0] Let_def)
  then show ?thesis using assms(4,5)
    by (auto simp: st0(1) inject_error_def Let_def upstream_events_out empty_writer_def)
qed

definition sample_pass :: "bool \<Rightarrow> bool \<Rightarrow> pass_request" where
  "sample_pass stream forced = \<lparr>pq_request = sample_request, pq_stream = stream, pq_forced = forced\<rparr>"

definition sample_pass_round :: "string option \<Rightarrow> pass_round" where
  "sample_pass_round err = \<lparr>pr_events = [''x''], pr_error = err, pr_resetAt = 0, pr_now = 200, pr_slept = True, pr_env = sample_env\<rparr>"

text \<open>The first selection and acquisition of a sample run.\<close>

lemma sample_pass_start:
  obtains h1 where "h_lb h1 = h_lb sample_handler"
    "acquireTrackedAccount (Some (codebuff_account 2)) h1 = (2, h1\<lparr>h_tracker := Some (mem_Acquire 2 [])\<rparr>)"
    "\<And>stream forced rounds. run_passthrough sample_deps sample_config (sample_pass stream forced) sample_env rounds sample_handler =
      (let st = pass_loop sample_deps sample_config (sample_pass stream forced) rounds 0 3
          \<lparr>ps_run = \<lparr>rs_handler = h1\<lparr>h_tracker := Some (mem_Acquire 2 [])\<rparr>, rs_client = Client 0,
             rs_account = Some (codebuff_account 2), rs_tracked = 2, rs_failed = [], rs_calls = []\<rparr>,
           ps_writer = empty_writer, ps_lastErr = '''', ps_lastCategory = ''''\<rparr>
       in (Inr (inject_error (sample_pass stream forced) st), releaseTrackedAccount (rs_tracked (ps_run st)) (rs_handler (ps_run st))))"
proof (rule that)
  let ?h1 = "sample_handler\<lparr>h_cache := newAccountClientCache\<lparr>cl_built := 1,
     cl_entries := [(2, \<lparr>cc_fingerprint = ''h'', cc_client = Some (Client 0)\<rparr>)]\<rparr>\<rparr>"
  show "h_lb ?h1 = h_lb sample_handler" by simp
  show a: "acquireTrackedAccount (Some (codebuff_account 2)) ?h1 = (2, ?h1\<lparr>h_tracker := Some (mem_Acquire 2 [])\<rparr>)"
    by (simp add: acquireTrackedAccount_def sample_handler_def)
  fix stream forced rounds
  show "run_passthrough sample_deps sample_config (sample_pass stream forced) sample_env rounds sample_handler =
      (let st = pass_loop sample_deps sample_config (sample_pass stream forced) rounds 0 3
          \<lparr>ps_run = \<lparr>rs_handler = ?h1\<lparr>h_tracker := Some (mem_Acquire 2 [])\<rparr>, rs_client = Client 0,
             rs_account = Some (codebuff_account 2), rs_tracked = 2, rs_failed = [], rs_calls = []\<rparr>,
           ps_writer = empty_writer, ps_lastErr = '''', ps_lastCategory = ''''\<rparr>
       in (Inr (inject_error (sample_pass stream forced) st), releaseTrackedAccount (rs_tracked (ps_run st)) (rs_handler (ps_run st))))"
    using a by (simp add: run_passthrough_def sample_pass_def sample_request_def sample_select sample_config_def)
qed

theorem passthrough_transcript_witness:
  "\<exists>st h'. run_passthrough sample_deps sample_config (sample_pass True False) sample_env (\<lambda>i. sample_pass_round None) sample_handler
     = (Inr st, h') \<and> wr_out (ps_writer st) = [HTTPStatus 200, SSEData ''x'']"
proof -
  obtain st h' where r: "run_passthrough sample_deps sample_config (sample_pass True False) sample_env (\<lambda>i. sample_pass_round None) sample_handler
     = (Inr st, h')" using sample_pass_start by (metis (no_types, lifting))
  have "forwarded False [''x''] = [''x'']" by simp
  moreover have "pr_events (sample_pass_round None) = [''x'']" "pr_error (sample_pass_round None) = None"
    by (simp_all add: sample_pass_round_def)
  moreover have "pq_stream (sample_pass True False)" by (simp add: sample_pass_def)
  ultimately show ?thesis using passthrough_transcript [OF r] r by (auto dest: spec [of _ 0])
qed

theorem passthrough_returns_connections_witness:
  "conn_count (snd (run_passthrough sample_deps sample_config (sample_pass False True) sample_env (\<lambda>i. sample_pass_round (Some ''eof'')) sample_handler)) 2 = 0"
proof -
  have t: "active_tracker sample_handler = Some NewMemoryConnTracker"
    by (simp add: active_tracker_def sample_handler_def NewMemoryConnTracker_def)
  then have "room_for_one sample_handler" by (simp add: room_for_one_def mem_GetCount_def) (simp add: NewMemoryConnTracker_def)
  from passthrough_returns_connections [OF this] t show ?thesis
    by (simp add: conn_count_def mem_GetCount_def) (simp add: NewMemoryConnTracker_def)
qed

lemma class_canceled: "ClassifyUpstreamError ''canceled'' = uclass ''canceled'' False False"
  by (simp add: classify_simps)

theorem unstreamed_error_lost_witness:
  "\<exists>st h'. run_passthrough sample_deps sample_config (sample_pass False False) sample_env (\<lambda>i. sample_pass_round (Some ''canceled'')) sample_handler
     = (Inr st, h') \<and> wr_out (ps_writer st) = []"
proof -
  obtain st h' where r: "run_passthrough sample_deps sample_config (sample_pass False False) sample_env (\<lambda>i. sample_pass_round (Some ''canceled'')) sample_handler
     = (Inr st, h')" using sample_pass_start by (metis (no_types, lifting))
  have "''x'' \<noteq> ''[DONE]''" by simp
  moreover have "''x'' \<in> set (pr_events (sample_pass_round (Some ''canceled'')))" "pr_error (sample_pass_round (Some ''canceled'')) = Some ''canceled''"
    by (simp_all add: sample_pass_round_def)
  ultimately show ?thesis using unstreamed_error_lost [OF r, of "''x''" "''canceled''"] class_canceled r by (auto simp: sample_pass_def)
qed

text \<open>
  A provider that is always streamed repeats its output: when the client did not ask for a
  stream, a retryable error after output does not end the request, and the client receives the
  events of the failed call and then those of the next one.
\<close>

theorem forced_stream_repeats_output:
  "\<exists>st h'. run_passthrough sample_deps sample_config (sample_pass False True) sample_env
      (\<lambda>i. sample_pass_round (if i = 0 then Some ''eof'' else None)) sample_handler = (Inr st, h')
    \<and> wr_out (ps_writer st) = [HTTPStatus 200, SSEData ''x'', HTTPStatus 200, SSEData ''x'']"
proof -
  obtain h1 where h1: "h_lb h1 = h_lb sample_handler"
    "acquireTrackedAccount (Some (codebuff_account 2)) h1 = (2, h1\<lparr>h_tracker := Some (mem_Acquire 2 [])\<rparr>)"
    and run: "\<And>rounds. run_passthrough sample_deps sample_config (sample_pass False True) sample_env rounds sample_handler =
      (let st = pass_loop sample_deps sample_config (sample_pass False True) rounds 0 3
          \<lparr>ps_run = \<lparr>rs_handler = h1\<lparr>h_tracker := Some (mem_Acquire 2 [])\<rparr>, rs_client = Client 0,
             rs_account = Some (codebuff_account 2), rs_tracked = 2, rs_failed = [], rs_calls = []\<rparr>,
           ps_writer = empty_writer, ps_lastErr = '''', ps_lastCategory = ''''\<rparr>
       in (Inr (inject_error (sample_pass False True) st), releaseTrackedAccount (rs_tracked (ps_run st)) (rs_handler (ps_run st))))"
    by (rule sample_pass_start) blast
  define h2 where "h2 = h1\<lparr>h_tracker := Some (mem_Acquire 2 [])\<rparr>"
  define h3 where "h3 = releaseTrackedAccount 2 h2"
  have lb: "h_lb h3 = h_lb sample_handler" "h_lb h2 \<noteq> None"
    using h1(1) by (simp_all add: h2_def h3_def releaseTrackedAccount_def sample_handler_def)
  from sample_no_other [OF lb(1)] obtain e lb where e:
    "selectAccountWithOptions sample_deps sample_env ''codebuff'' True [2] ''m'' h3 = (Inl e, h3\<lparr>h_lb := Some lb\<rparr>)" by blast
  obtain t h4 where t: "acquireTrackedAccount (Some (codebuff_account 2)) (h3\<lparr>h_lb := Some lb\<rparr>) = (t, h4)" by force
  have tn: "trim_space ''network'' = ''network''" by (rule trim_space_id) (simp_all add: printable_def)
  have fw: "upstream_events True [''x''] w = w\<lparr>wr_out := wr_out w @ [HTTPStatus 200, SSEData ''x''], wr_hasOutput := True,
      wr_sawToolCalls := False, wr_body := ''''\<rparr>" for w
    by (simp add: upstream_events_def stream_write_def Let_def tool_calls_mark_def quoted_def contains_Cons contains_Nil)
  let ?run = "\<lparr>rs_handler = h2, rs_client = Client 0, rs_account = Some (codebuff_account 2), rs_tracked = 2, rs_failed = [], rs_calls = []\<rparr>"
  obtain rs where sw: "switch_account sample_deps sample_request (as_round (sample_pass_round (Some ''eof''))) (uclass ''network'' True True)
      (record_call ?run) = (True, rs)"
    using e t lb(2)
    by (simp add: switch_account_def record_call_def note_failed_def release_current_def sample_request_def as_round_def
        sample_pass_round_def shouldRetryCurrentAccountWhenNoAlternative_def tn h3_def)
  have mk: "mark_account sample_deps rq rd ''eof'' st = st" for rq rd st
    by (simp add: mark_account_def status_to_mark_def class_eof split: option.split)
  show ?thesis unfolding run numeral_3_eq_3 h2_def [symmetric]
    using sw
    by (simp add: pass_loop.simps [of _ _ _ _ 0] pass_loop.simps [of _ _ _ _ "Suc 0"] sample_pass_def sample_pass_round_def class_eof mk
        fw empty_writer_def inject_error_def Let_def)
qed

theorem passthrough_suppresses_stop_witness:
  "\<exists>pre post. [tool_calls_mark, stop_mark] = pre @ post
    \<and> wr_out (upstream_events True [tool_calls_mark, stop_mark] empty_writer)
        = HTTPStatus 200 # map SSEData (pre @ filter (\<lambda>d. d = ''[DONE]'' \<or> \<not> contains d stop_mark) post)"
  using passthrough_suppresses_stop [of "[tool_calls_mark, stop_mark]" empty_writer] by (auto simp: empty_writer_def)

end
