(* ===== verification/Balancer_Properties.thy ===== *)
theory Balancer_Properties
  imports Balancer_Laws
begin

text \<open>
  The properties of the load balancer and its connection tracker, with a small concrete account
  pool on which the witnesses evaluate them.
\<close>

section \<open>A concrete pool\<close>

text \<open>Accounts kept as they are: updates of the store state are recorded, newest first.\<close>

definition log_ops :: "(account list \<times> account list) store_ops" where
  "log_ops = \<lparr>st_GetEnabledAccounts = (\<lambda>s. Inr (fst s)), st_UpdateAccount = (\<lambda>a s. (fst s, a # snd s))\<rparr>"

definition acc_ready :: account where
  "acc_ready = zero_account\<lparr>ID := 1, AccountType := ''puter'', Weight := 2, Enabled := True\<rparr>"

definition acc_limited :: account where
  "acc_limited = zero_account\<lparr>ID := 2, AccountType := ''codebuff'', Enabled := True,
     StatusCode := ''429'', LastAttempt := 1000\<rparr>"

definition acc_recovering :: account where
  "acc_recovering = zero_account\<lparr>ID := 3, AccountType := ''PUTER'', Enabled := True,
     StatusCode := ''401'', LastAttempt := 1000\<rparr>"

definition pool_lb :: "account list \<Rightarrow> (account list \<times> account list) lb" where
  "pool_lb as = NewWithCacheTTL (Some (as, [])) 0"

definition late_clock :: "nat \<Rightarrow> instant" where
  "late_clock n = 1000 + 5 * minute + int n"

lemmas pool_defs = log_ops_def acc_ready_def acc_limited_def acc_recovering_def pool_lb_def late_clock_def

lemma pool_fetch:
  "getEnabledAccounts log_ops late_clock (pool_lb as)
     = (Inr as, (pool_lb as)\<lparr>cachedAccounts := as, cacheExpires := late_clock 1 + defaultCacheTTL\<rparr>)"
  by (simp add: getEnabledAccounts_def pool_lb_def NewWithCacheTTL_def log_ops_def t_add_def)

lemma pool_select:
  "GetNextAccountExcludingByChannelWithTrackerFilter log_ops late_clock 0 [] ''puter'' None None
     (pool_lb [acc_recovering, acc_limited])
   = (Inr (clear_status acc_recovering), (pool_lb [clear_status acc_recovering, acc_limited])
        \<lparr>Store := Some ([acc_recovering, acc_limited], [clear_status acc_recovering]),
          cacheExpires := late_clock 1 + defaultCacheTTL,
          cachedAccounts := [clear_status acc_recovering, acc_limited]\<rparr>)"
  by code_simp

lemma pool_error:
  "GetNextAccountExcludingByChannelWithTrackerFilter log_ops (\<lambda>n. 2000) 0 [] ''puter'' None (Some (\<lambda>a. ID a = 3))
     ((pool_lb [acc_recovering, acc_limited]))
   = (Inl (NoEnabledAccounts ''puter''), (pool_lb [acc_recovering, acc_limited])
        \<lparr>cacheExpires := 2000 + defaultCacheTTL, cachedAccounts := [acc_recovering, acc_limited]\<rparr>)"
  by code_simp

section \<open>Account selection\<close>

theorem selection_sound_witness:
  "ID (clear_status acc_recovering) \<notin> set [] \<and> channel_matches ''puter'' (clear_status acc_recovering)
     \<and> selectable ''puter'' (clear_status acc_recovering)"
  using selection_sound [OF pool_select pool_fetch] by simp

theorem selection_error_witness:
  "account_verdict 2000 acc_recovering = Unavailable"
proof -
  have "getEnabledAccounts log_ops (\<lambda>n. 2000) (pool_lb [acc_recovering, acc_limited])
    = (Inr [acc_recovering, acc_limited], (pool_lb [acc_recovering, acc_limited])
        \<lparr>cachedAccounts := [acc_recovering, acc_limited], cacheExpires := 2000 + defaultCacheTTL\<rparr>)"
    by (simp add: getEnabledAccounts_def pool_lb_def NewWithCacheTTL_def log_ops_def t_add_def)
  from selection_error [OF pool_error this]
  have "\<forall>i < length [acc_recovering, acc_limited].
     eligible [] ''puter'' (Some (\<lambda>a. ID a = 3)) ([acc_recovering, acc_limited] ! i)
     \<longrightarrow> account_verdict 2000 ([acc_recovering, acc_limited] ! i) = Unavailable" by simp
  moreover have "eligible [] ''puter'' (Some (\<lambda>a. ID a = 3)) acc_recovering" by code_simp
  ultimately show ?thesis by (elim allE [of _ 0]) simp
qed

text \<open>
  The weighted least-connections choice: whatever the random draw, the account chosen
  from a non-empty candidate list is one of the candidates and no candidate has a smaller
  float64 score (connections over weight); and every candidate with the smallest score is chosen
  by some draw, so ties are broken over the whole tie set.
\<close>

theorem least_loaded_choice:
  "(\<forall>r a. selectAccountWithTracker accs tr r lb = Some a \<longrightarrow>
      a \<in> set accs \<and> (\<forall>b \<in> set accs. load (pick_tracker tr lb) a \<le> load (pick_tracker tr lb) b))
   \<and> (\<forall>a \<in> set accs. (\<forall>b \<in> set accs. load (pick_tracker tr lb) a \<le> load (pick_tracker tr lb) b)
        \<longrightarrow> (\<exists>r. selectAccountWithTracker accs tr r lb = Some a))"
  using select_least [of accs tr _ lb] select_fair [of _ accs tr lb] by blast

theorem least_loaded_choice_witness:
  "\<exists>r. selectAccountWithTracker [acc_ready] None r (pool_lb []) = Some acc_ready"
  using least_loaded_choice [of "[acc_ready]" None "pool_lb []"] by simp

text \<open>
  An account with no open connection is always preferred to a busy one: with a
  well-formed tracker, if some candidate is idle then the account chosen is idle.
\<close>

theorem idle_preferred:
  assumes "tracker_wf (pick_tracker tr lb)" and "b \<in> set accs"
    and "mem_GetCount (pick_tracker tr lb) (ID b) = 0"
    and "selectAccountWithTracker accs tr r lb = Some a"
  shows "mem_GetCount (pick_tracker tr lb) (ID a) = 0"
proof -
  have "load (pick_tracker tr lb) a \<le> load (pick_tracker tr lb) b"
    by (rule select_least(2) [OF assms(4,2)])
  moreover have "0 \<le> load (pick_tracker tr lb) a"
    using assms(1) by (intro load_nonneg) (simp add: tracker_wf_def)
  ultimately show ?thesis using assms(3) load_zero_iff by (metis order_antisym)
qed

theorem idle_preferred_witness:
  "mem_GetCount NewMemoryConnTracker (ID acc_ready) = 0"
  using idle_preferred [of "Some NewMemoryConnTracker" "pool_lb []" acc_ready "[acc_ready]" 0 acc_ready]
  by (simp add: pick_tracker_def mem_GetCount_def NewMemoryConnTracker_def selectAccountWithTracker_def
      tracker_wf_new [unfolded NewMemoryConnTracker_def])

section \<open>Cool-down\<close>

text \<open>
  When the cool-down of a failed account is over: an upstream reset instant decides for the codes 402
  and 429, else the code's cool-down after the last attempt; never, when no attempt is recorded
  (only a 402 with a reset instant does without one).
\<close>

definition cooldown_length :: "string \<Rightarrow> duration" where
  "cooldown_length code = (if code = ''429'' then minute
     else if code \<in> {''402'', ''403'', ''404''} then 24 * hour else 5 * minute)"

definition cooldown_over :: "account \<Rightarrow> instant option" where
  "cooldown_over acc = (let code = trim_space (StatusCode acc); reset = \<not> is_zero (QuotaResetAt acc) in
     if is_zero (LastAttempt acc) \<and> \<not> (code = ''402'' \<and> reset) then None
     else if code \<in> {''402'', ''429''} \<and> reset then Some (QuotaResetAt acc)
     else Some (LastAttempt acc + cooldown_length code))"

lemma after_cooldown_iff:
  assumes "0 \<le> d" and "d \<le> 24 * hour"
  shows "after_cooldown now acc d r = Unavailable \<longleftrightarrow> is_zero (LastAttempt acc) \<or> now < LastAttempt acc + d"
  using assms by (auto simp: after_cooldown_def t_sub_def duration_units max_duration_def min_duration_def)

lemma verdict_cooldown:
  "account_verdict now acc \<noteq> Unavailable \<longleftrightarrow>
     trim_space (StatusCode acc) = '''' \<or> (\<exists>e. cooldown_over acc = Some e \<and> e \<le> now)"
proof -
  have "minute \<le> t_sub now (LastAttempt acc) \<longleftrightarrow> LastAttempt acc + minute \<le> now"
    by (auto simp: t_sub_def duration_units max_duration_def min_duration_def)
  moreover have "after_cooldown now acc (24 * hour) r = Unavailable \<longleftrightarrow> is_zero (LastAttempt acc) \<or> now < LastAttempt acc + 24 * hour"
    "after_cooldown now acc (5 * minute) r = Unavailable \<longleftrightarrow> is_zero (LastAttempt acc) \<or> now < LastAttempt acc + 5 * minute" for r
    by (rule after_cooldown_iff; simp add: duration_units)+
  ultimately show ?thesis
    by (auto simp: account_verdict_def cooldown_over_def cooldown_length_def retry_defs Let_def)
qed

text \<open>
  Property C31. The cool-down of a failed account ends at a known instant and only ever ends. At any
  instant an account counts as available exactly when it has no status code or its cool-down is over:
  from the upstream reset instant on when there is one (codes 402 and 429), else a minute (429), a day
  (402, 403, 404) or five minutes (any other code) after the last attempt. An available account stays available at
  every later instant, and an account whose last attempt is recorded and that has no upstream
  reset instant is available again at the latest 24 hours after that attempt.
\<close>

theorem cooldown_ends:
  "let acc = cachedAccounts lb ! i; available = (\<lambda>now. fst (isAccountAvailable ops now i lb)) in
     (\<forall>now. available now \<longleftrightarrow> trim_space (StatusCode acc) = '''' \<or> (\<exists>e. cooldown_over acc = Some e \<and> e \<le> now))
     \<and> (\<forall>now now'. now \<le> now' \<and> available now \<longrightarrow> available now')
     \<and> (\<not> is_zero (LastAttempt acc) \<and> is_zero (QuotaResetAt acc)
          \<longrightarrow> (\<forall>now. LastAttempt acc + 24 * hour \<le> now \<longrightarrow> available now))"
proof -
  have *: "fst (isAccountAvailable ops now i lb) \<longleftrightarrow> account_verdict now (cachedAccounts lb ! i) \<noteq> Unavailable" for now
    by (simp add: isAccountAvailable_def split: verdict.split)
  show ?thesis
    unfolding Let_def * using verdict_cooldown verdict_mono verdict_within_a_day by (intro conjI allI impI) blast+
qed

theorem cooldown_ends_witness:
  "fst (isAccountAvailable log_ops (1000 + 24 * hour) 0 ((pool_lb [])\<lparr>cachedAccounts := [acc_recovering]\<rparr>))"
proof -
  let ?lb = "(pool_lb [])\<lparr>cachedAccounts := [acc_recovering]\<rparr>"
  have acc: "cachedAccounts ?lb ! 0 = acc_recovering" "LastAttempt acc_recovering = 1000" "is_zero (QuotaResetAt acc_recovering)"
    by (simp_all add: acc_recovering_def is_zero_def zero_time_def zero_account_def)
  have "\<not> is_zero (LastAttempt acc_recovering)" by (simp add: acc is_zero_def zero_time_def)
  with cooldown_ends [of ?lb 0 log_ops, unfolded Let_def acc(1), THEN conjunct2, THEN conjunct2] acc(2,3) show ?thesis
    by (metis order_refl)
qed

lemma update_first_find:
  "find (\<lambda>a. ID a = i) as = Some a \<Longrightarrow> (\<And>a. ID (f a) = ID a) \<Longrightarrow> find (\<lambda>a. ID a = i) (update_first i f as) = Some (f a)"
  by (induction "as") (auto split: if_splits)

lemma trim_429: "trim_space ''429'' = ''429''"
  by (rule trim_space_id) (simp_all add: printable_def)

lemma marked_verdict:
  assumes "reset \<noteq> 0" and "now \<noteq> 0"
  shows "(t < reset \<longrightarrow> account_verdict t (mark_with ''429'' now reset a) = Unavailable)
    \<and> (reset \<le> t \<longrightarrow> account_verdict t (mark_with ''429'' now reset a) \<noteq> Unavailable)"
  using assms by (auto simp: account_verdict_def mark_with_def trim_429 is_zero_def zero_time_def)

text \<open>
  A 429 with an upstream reset instant is honoured to the nanosecond: after
  \<open>MarkAccountStatus\<close> with such an instant the caller's account, and the cached account with the
  same ID, is unavailable strictly before it and recovers from it on.
\<close>

theorem rate_limit_reset_honoured:
  assumes "Store lb \<noteq> None" and "reset \<noteq> 0" and "now \<noteq> 0"
    and "MarkAccountStatus ops now (Some a) ''429'' [reset] lb = (Some a', lb')"
    and "find (\<lambda>x. ID x = ID a) (cachedAccounts lb) = Some c"
  shows "\<exists>c'. find (\<lambda>x. ID x = ID a) (cachedAccounts lb') = Some c' \<and> (\<forall>t. \<forall>x \<in> {a', c'}.
     (t < reset \<longrightarrow> account_verdict t x = Unavailable) \<and> (reset \<le> t \<longrightarrow> account_verdict t x \<noteq> Unavailable))"
proof -
  have "find (\<lambda>x. ID x = ID a) (update_first (ID a) (mark_with ''429'' now reset) (cachedAccounts lb))
    = Some (mark_with ''429'' now reset c)"
    using assms(5) by (rule update_first_find) (simp add: mark_with_def)
  then have "find (\<lambda>x. ID x = ID a) (cachedAccounts lb') = Some (mark_with ''429'' now reset c)"
    and "a' = mark_with ''429'' now reset a"
    using assms(1,4) by (auto simp: MarkAccountStatus_def Let_def)
  then show ?thesis using marked_verdict [OF assms(2,3)] by auto
qed

theorem rate_limit_reset_honoured_witness:
  "account_verdict 4999 (mark_with ''429'' 3000 5000 acc_ready) = Unavailable"
proof -
  let ?lb = "pool_lb [] \<lparr>cachedAccounts := [acc_ready]\<rparr>"
  have "\<exists>c'. find (\<lambda>x. ID x = ID acc_ready)
        (cachedAccounts (snd (MarkAccountStatus log_ops 3000 (Some acc_ready) ''429'' [5000] ?lb))) = Some c' \<and>
      (\<forall>t. \<forall>x \<in> {mark_with ''429'' 3000 5000 acc_ready, c'}.
        (t < 5000 \<longrightarrow> account_verdict t x = Unavailable) \<and> (5000 \<le> t \<longrightarrow> account_verdict t x \<noteq> Unavailable))"
    by (rule rate_limit_reset_honoured [of ?lb 5000 3000 log_ops acc_ready "mark_with ''429'' 3000 5000 acc_ready" _ acc_ready])
      (simp_all add: MarkAccountStatus_def Let_def pool_lb_def NewWithCacheTTL_def)
  then obtain c' where "\<forall>t. \<forall>x \<in> {mark_with ''429'' 3000 5000 acc_ready, c'}.
      t < 5000 \<longrightarrow> account_verdict t x = Unavailable" by blast
  then show ?thesis by (elim allE [of _ 4999]) simp
qed

text \<open>
  Recovery is visible and persistent: when the availability check lets an account
  through after its cool-down, the cached account is cleared of status, last attempt and reset
  instant, the cleared account is written to the store, and no other account is touched except a
  cached one with the same ID.
\<close>

theorem recovery_clears_and_persists:
  assumes "i < length (cachedAccounts lb)" and "account_verdict now (cachedAccounts lb ! i) = Recover reason"
    and "Store lb = Some s" and "isAccountAvailable ops now i lb = (ok, lb')"
  shows "ok \<and> cachedAccounts lb' ! i = clear_status (cachedAccounts lb ! i)
    \<and> Store lb' = Some (st_UpdateAccount ops (clear_status (cachedAccounts lb ! i)) s)
    \<and> (\<forall>j < length (cachedAccounts lb). ID (cachedAccounts lb ! j) \<noteq> ID (cachedAccounts lb ! i)
         \<longrightarrow> cachedAccounts lb' ! j = cachedAccounts lb ! j)"
proof -
  let ?a = "clear_status (cachedAccounts lb ! i)"
  let ?L = "(cachedAccounts lb)[i := ?a]"
  have same: "update_first k clear_status M ! j = M ! j" if "j < length M" "ID (M ! j) \<noteq> k" for k M j
    using that by (induction M arbitrary: j) (auto simp: nth_Cons split: nat.splits)
  have eq: "lb' = clearAccountStatus ops i lb" "ok"
    using assms(2,4) by (auto simp: isAccountAvailable_def)
  have cached: "cachedAccounts lb' = update_first (ID ?a) clear_status ?L"
    by (simp add: eq(1) clearAccountStatus_def Let_def)
  have "cleared ?L (cachedAccounts lb')" unfolding cached by (rule cleared_update_first)
  from cleared_nth [OF this, of i] have "cachedAccounts lb' ! i = ?a" using assms(1) by auto
  moreover have "cachedAccounts lb' ! j = cachedAccounts lb ! j"
    if "j < length (cachedAccounts lb)" "ID (cachedAccounts lb ! j) \<noteq> ID (cachedAccounts lb ! i)" for j
  proof -
    have "j \<noteq> i" using that by auto
    with that show ?thesis unfolding cached by (subst same) simp_all
  qed
  moreover have "Store lb' = Some (st_UpdateAccount ops ?a s)"
    using assms(3) by (simp add: eq(1) clearAccountStatus_def Let_def persistAccountStatus_def)
  ultimately show ?thesis using eq(2) by blast
qed

theorem recovery_clears_and_persists_witness:
  "cachedAccounts (snd (isAccountAvailable log_ops (1000 + 5 * minute) 0
      (pool_lb [] \<lparr>cachedAccounts := [acc_recovering]\<rparr>))) ! 0 = clear_status acc_recovering"
proof -
  have v: "account_verdict (1000 + 5 * minute) acc_recovering = Recover ''401 Cooling completed, automatic recovery attempt''"
    by code_simp
  let ?lb = "pool_lb [] \<lparr>cachedAccounts := [acc_recovering]\<rparr>"
  have "cachedAccounts ?lb = [acc_recovering]" by simp
  then show ?thesis
    using v recovery_clears_and_persists [of 0 ?lb "1000 + 5 * minute"
      "''401 Cooling completed, automatic recovery attempt''" "([], [])" log_ops, OF _ _ _ surjective_pairing]
    by (simp add: pool_lb_def NewWithCacheTTL_def)
qed

end
