(* ===== verification/Tier_Properties.thy ===== *)
theory Tier_Properties
  imports Balancer_Properties
begin

text \<open>
  Selection by tier, the short-lived cache of enabled accounts and the connection counters: the
  remaining promises of \<open>internal/loadbalancer\<close>.
\<close>

section \<open>Buckets\<close>

definition bucket_of :: "(account \<Rightarrow> bool) \<Rightarrow> account list \<Rightarrow> int \<Rightarrow> account list" where
  "bucket_of p accs t = filter (\<lambda>a. p a \<and> TierOf (Some a) = t) accs"

lemma fill_buckets_snoc:
  "fill_buckets p (accs @ [a]) = (if p a then gm_put (TierOf (Some a))
     ((case gm_get (fill_buckets p accs) (TierOf (Some a)) of Some l \<Rightarrow> l | None \<Rightarrow> []) @ [a]) (fill_buckets p accs)
     else fill_buckets p accs)"
  by (simp add: fill_buckets_def)

lemma fill_buckets_get:
  "gm_get (fill_buckets p accs) t = (if bucket_of p accs t = [] then None else Some (bucket_of p accs t))"
proof (induction accs rule: rev_induct)
  case Nil
  then show ?case by (simp add: fill_buckets_def bucket_of_def)
next
  case (snoc a accs)
  have "bucket_of p (accs @ [a]) t = bucket_of p accs t @ (if p a \<and> TierOf (Some a) = t then [a] else [])"
    by (simp add: bucket_of_def)
  with snoc show ?case by (auto simp: fill_buckets_snoc gomap_simps)
qed

lemma fill_buckets_keys: "t \<in> fst ` set (fill_buckets p accs) \<longleftrightarrow> bucket_of p accs t \<noteq> []"
  using fill_buckets_get [of p accs t] map_of_eq_None_iff [of "fill_buckets p accs" t]
  by (auto split: if_splits)

lemma within_tier_eq:
  "selectWithinTier accs t r = selectAccountWithTracker accs (Some t) r lb"
  by (simp add: selectWithinTier_def selectAccountWithTracker_def Let_def pick_tracker_def)

lemma first_pick_least:
  assumes "\<And>t. t \<in> set ts \<Longrightarrow> \<exists>a. f t = Some a" and "ts \<noteq> []" and "sorted ts"
  shows "\<exists>t \<in> set ts. first_pick f ts = f t \<and> (\<forall>u \<in> set ts. t \<le> u)"
proof (cases ts)
  case (Cons t ts')
  with assms(1) [of t] obtain a where "f t = Some a" by auto
  with Cons assms(3) show ?thesis by auto
qed (use assms(2) in simp)

lemma select_by_tier_unfold:
  assumes "filter p accs \<noteq> []"
  shows "\<exists>t. selectAccountByTier accs tr (Some p) r lb
      = selectAccountWithTracker (bucket_of p accs t) (Some (pick_tracker tr lb)) r lb
    \<and> bucket_of p accs t \<noteq> [] \<and> (\<forall>u. bucket_of p accs u \<noteq> [] \<longrightarrow> t \<le> u)"
proof -
  let ?b = "fill_buckets p accs"
  let ?f = "\<lambda>tier. selectWithinTier (case gm_get ?b tier of Some l \<Rightarrow> l | None \<Rightarrow> []) (pick_tracker tr lb) r"
  have f: "?f t = selectAccountWithTracker (bucket_of p accs t) (Some (pick_tracker tr lb)) r lb" for t
    by (simp add: fill_buckets_get within_tier_eq [of _ _ _ lb])
  have keys: "t \<in> set (sort (map fst ?b)) \<longleftrightarrow> bucket_of p accs t \<noteq> []" for t
    unfolding set_sort set_map by (rule fill_buckets_keys)
  from assms obtain a where a: "a \<in> set accs" "p a" by (auto simp: filter_empty_conv)
  then have "bucket_of p accs (TierOf (Some a)) \<noteq> []" by (auto simp: bucket_of_def filter_empty_conv)
  then have "TierOf (Some a) \<in> set (sort (map fst ?b))" by (simp only: keys not_False_eq_True)
  then have ne: "sort (map fst ?b) \<noteq> []" "?b \<noteq> []" by (metis empty_iff list.set(1), auto)
  have "\<exists>t \<in> set (sort (map fst ?b)). first_pick ?f (sort (map fst ?b)) = ?f t \<and> (\<forall>u \<in> set (sort (map fst ?b)). t \<le> u)"
  proof (rule first_pick_least [OF _ ne(1)])
    fix t assume "t \<in> set (sort (map fst ?b))"
    then have "bucket_of p accs t \<noteq> []" unfolding keys .
    then show "\<exists>a. ?f t = Some a" unfolding f by (rule select_some)
  qed simp
  then obtain t where "first_pick ?f (sort (map fst ?b)) = ?f t" "bucket_of p accs t \<noteq> []"
      "\<forall>u. bucket_of p accs u \<noteq> [] \<longrightarrow> t \<le> u"
    unfolding keys [symmetric] by blast
  moreover have "accs \<noteq> []" using a by auto
  ultimately show ?thesis using ne(2) f by (auto simp: selectAccountByTier_def)
qed

text \<open>
  Selection by tier: an account is found exactly when some account passes the
  predicate; the one found passes it, no passing account is in a better tier, and in its own tier
  none has a lower load.
\<close>

theorem tier_selection:
  "case selectAccountByTier accs tr (Some p) r lb of
     None \<Rightarrow> filter p accs = []
   | Some a \<Rightarrow> a \<in> set accs \<and> p a
       \<and> (\<forall>b \<in> set (filter p accs). TierOf (Some a) \<le> TierOf (Some b)
            \<and> (TierOf (Some b) = TierOf (Some a) \<longrightarrow> load (pick_tracker tr lb) a \<le> load (pick_tracker tr lb) b))"
proof (cases "filter p accs = []")
  case True
  then have "fill_buckets p accs = []"
    using fill_buckets_keys [of _ p accs] by (cases "fill_buckets p accs") (auto simp: bucket_of_def filter_empty_conv)
  with True show ?thesis by (simp add: selectAccountByTier_def)
next
  case False
  from select_by_tier_unfold [OF this, of tr r lb] obtain t where
    t: "selectAccountByTier accs tr (Some p) r lb
      = selectAccountWithTracker (bucket_of p accs t) (Some (pick_tracker tr lb)) r lb"
      "bucket_of p accs t \<noteq> []" "\<forall>u. bucket_of p accs u \<noteq> [] \<longrightarrow> t \<le> u"
    by blast
  from select_some [OF t(2)] obtain a where
    a: "selectAccountWithTracker (bucket_of p accs t) (Some (pick_tracker tr lb)) r lb = Some a" by blast
  note least = select_least [OF a, unfolded pick_tracker_def, simplified, folded pick_tracker_def]
  have mem: "b \<in> set (bucket_of p accs (TierOf (Some b)))" if "b \<in> set accs" "p b" for b
    using that by (simp add: bucket_of_def)
  have "t \<le> TierOf (Some b)" if "b \<in> set accs" "p b" for b
    using t(3) mem [OF that] by (metis empty_iff list.set(1))
  moreover have "a \<in> set accs" "p a" "TierOf (Some a) = t"
    using least(1) by (auto simp: bucket_of_def)
  moreover have "load (pick_tracker tr lb) a \<le> load (pick_tracker tr lb) b"
    if "b \<in> set accs" "p b" "TierOf (Some b) = t" for b
    using least(2) [of b] that by (simp add: bucket_of_def)
  ultimately show ?thesis using t(1) a by auto
qed

theorem tier_selection_witness:
  "selectAccountByTier [acc_ready] None (Some (\<lambda>a. True)) 0 (pool_lb []) = Some acc_ready"
  using tier_selection [where accs = "[acc_ready]" and tr = None and p = "\<lambda>a. True" and r = 0 and lb = "pool_lb []"]
  by (auto split: option.splits)

section \<open>The cache of enabled accounts\<close>

text \<open>
  The account list is read from the store at most once per TTL: after a successful
  read, every read before the TTL has passed returns the same accounts from the cache, and leaves
  the balancer and the store as they are; from that instant on the store is asked again.
\<close>

theorem cache_lifetime:
  assumes "getEnabledAccounts ops clock lb = (Inr accs, lb')" and "accs \<noteq> []"
    and "\<not> (cachedAccounts lb \<noteq> [] \<and> clock 0 < cacheExpires lb)"
  shows "(if clock' 0 < clock 1 + cacheTTL lb
     then getEnabledAccounts ops clock' lb' = (Inr accs, lb')
     else \<exists>s. Store lb = Some s \<and> fst (getEnabledAccounts ops clock' lb') =
       (case st_GetEnabledAccounts ops s of Inl e \<Rightarrow> Inl (StoreError e) | Inr as \<Rightarrow> Inr as))"
  using assms by (auto simp: getEnabledAccounts_def t_add_def split: if_splits option.splits sum.splits)

theorem cache_lifetime_witness:
  "getEnabledAccounts log_ops (\<lambda>_. late_clock 1 + 4 * second)
     ((pool_lb [acc_ready])\<lparr>cachedAccounts := [acc_ready], cacheExpires := late_clock 1 + defaultCacheTTL\<rparr>)
   = (Inr [acc_ready], (pool_lb [acc_ready])\<lparr>cachedAccounts := [acc_ready], cacheExpires := late_clock 1 + defaultCacheTTL\<rparr>)"
  using cache_lifetime [OF pool_fetch [of "[acc_ready]"], of "\<lambda>_. late_clock 1 + 4 * second"]
  by (simp add: pool_lb_def NewWithCacheTTL_def defaultCacheTTL_def second_def)

section \<open>Connection counters\<close>

text \<open>
  Connections are conserved: over a run of acquires and releases in which no account
  is released more often than acquired and no counter can overflow, every count is its start value
  plus the account's acquires minus its releases, and an acquire followed by its release restores
  every count.
\<close>

theorem connections_conserved:
  assumes "tracker_wf t" and "mem.room es t" and "mem.balanced (mem_GetCount t) es"
  shows "mem_GetCount (mem.conn_run es t) a
      = mem_GetCount t a + int (count_list es (True, a)) - int (count_list es (False, a))
    \<and> tracker_wf (mem.conn_run es t)"
  using mem.run_conservation [OF assms] mem.run_inv [OF assms(1,2)] by blast

theorem connections_conserved_witness:
  "mem_GetCount (mem.conn_run [(True, 5), (True, 6), (False, 5)] NewMemoryConnTracker) 5 = 0"
proof -
  let ?es = "[(True, 5), (True, 6), (False, 5)] :: (bool \<times> int) list"
  have "mem.room ?es NewMemoryConnTracker" "mem.balanced (mem_GetCount NewMemoryConnTracker) ?es"
    by (simp_all add: mem.room_def mem_GetCount_def NewMemoryConnTracker_def)
  from connections_conserved [OF tracker_wf_new this, of 5] show ?thesis
    by (simp add: mem_GetCount_def NewMemoryConnTracker_def)
qed

text \<open>
  The compare-and-swap loop of \<open>Release\<close> is safe under every interleaving with other
  releases and with acquires: the counter never goes below zero, every release that reports
  success has taken exactly one connection, and each step changes the counter as one atomic
  release or acquire of the sequential tracker would, or not at all.
\<close>

theorem release_loop_safe:
  assumes "cas_reachable c s" and "0 \<le> c"
  shows "0 \<le> counter s \<and> finite (released s)
    \<and> counter s = c + int (acquired s) - int (card (released s))
    \<and> (\<forall>t. cas_step s t \<and> in64 (counter s) \<longrightarrow> counter t \<in> {counter s,
         mem_GetCount (mem_Release a [(a, counter s)]) a, mem_GetCount (mem_Acquire a [(a, counter s)]) a})"
  using cas_reachable_inv [OF assms] cas_step_atomic [of s _ c a] by (auto simp: cas_inv_def)

theorem release_loop_safe_witness:
  "\<exists>s. cas_reachable 1 s \<and> pc s 0 = Finished True \<and> counter s = 0 \<and> 0 \<le> counter s"
proof -
  let ?s1 = "(cas_init 1)\<lparr>pc := (pc (cas_init 1))(0 := Loaded (counter (cas_init 1)))\<rparr>"
  let ?s2 = "?s1\<lparr>counter := 1 - 1, pc := (pc ?s1)(0 := Finished True)\<rparr>"
  have "cas_step (cas_init 1) ?s1" by (rule cas_load) (simp_all add: cas_init_def)
  moreover have "cas_step ?s1 ?s2" by (rule cas_swap) (simp_all add: cas_init_def)
  ultimately have "cas_reachable 1 ?s2" by (blast intro: cas_start cas_more)
  moreover from release_loop_safe [OF this] have "0 \<le> counter ?s2" by simp
  ultimately show ?thesis by (intro exI [of _ ?s2]) simp
qed

end
