(* ===== verification/Session_Registry.thy ===== *)
theory Session_Registry
  imports Go_Prelude
begin

text \<open>
  The session registry of \<open>internal/loadbalancer/session_registry.go\<close>: which account served which
  model, with a time to live, a size cap and a marker for model conflicts. The methods return at
  once on a nil receiver; the model is of a registry that exists. Clock readings are arguments.
\<close>

record session_entry =
  se_accountID :: int
  se_model :: string
  se_createdAt :: instant

record session_registry =
  rg_entries :: "(string, session_entry) gomap"
  rg_ttl :: duration
  rg_maxSize :: int

record registry_config =
  MaxEntries :: int
  EntryTTL :: duration

definition registry_withDefaults :: "registry_config \<Rightarrow> registry_config" where
  "registry_withDefaults c = (if EntryTTL c \<le> 0 then c\<lparr>EntryTTL := 5 * minute\<rparr> else c)"

definition NewSessionRegistry :: "registry_config \<Rightarrow> session_registry" where
  "NewSessionRegistry cfg = (let cfg = registry_withDefaults cfg in
     \<lparr>rg_entries = [], rg_ttl = EntryTTL cfg, rg_maxSize = MaxEntries cfg\<rparr>)"

definition registry_key :: "int \<Rightarrow> string \<Rightarrow> string" where
  "registry_key accountID model = itoa accountID @ '':'' @ model"

text \<open>The lookup deletes an entry that has outlived its time.\<close>

definition registry_Lookup :: "instant \<Rightarrow> int \<Rightarrow> string \<Rightarrow> session_registry \<Rightarrow> (string \<times> bool) \<times> session_registry" where
  "registry_Lookup now accountID model r =
    (case gm_get (rg_entries r) (registry_key accountID model) of
       None \<Rightarrow> (('''', False), r)
     | Some e \<Rightarrow> if rg_ttl r < t_sub now (se_createdAt e)
         then (('''', False), r\<lparr>rg_entries := gm_del (registry_key accountID model) (rg_entries r)\<rparr>)
         else ((se_model e, True), r))"

definition registry_evict :: "session_registry \<Rightarrow> (string, session_entry) gomap" where
  "registry_evict r = (if 0 < rg_maxSize r \<and> rg_maxSize r \<le> int (length (rg_entries r))
     then evict_mark se_createdAt (rg_entries r) else rg_entries r)"

definition registry_record :: "instant \<Rightarrow> int \<Rightarrow> string \<Rightarrow> string \<Rightarrow> session_registry \<Rightarrow> session_registry" where
  "registry_record now accountID model observedModel r =
    r\<lparr>rg_entries := gm_put (registry_key accountID model)
        \<lparr>se_accountID = accountID, se_model = observedModel, se_createdAt = now\<rparr> (registry_evict r)\<rparr>"

definition registry_Record :: "instant \<Rightarrow> int \<Rightarrow> string \<Rightarrow> session_registry \<Rightarrow> session_registry" where
  "registry_Record now accountID model r =
    r\<lparr>rg_entries := gm_put (registry_key accountID model)
        \<lparr>se_accountID = accountID, se_model = model, se_createdAt = now\<rparr> (registry_evict r)\<rparr>"

definition registry_Forget :: "int \<Rightarrow> string \<Rightarrow> session_registry \<Rightarrow> session_registry" where
  "registry_Forget accountID model r =
    r\<lparr>rg_entries := gm_del (registry_key accountID model) (rg_entries r)\<rparr>"

definition conflictMarker :: string where
  "conflictMarker = char_of (0 :: nat) # ''conflict'' @ [char_of (0 :: nat)]"

definition IsReportedModelConflict :: "instant \<Rightarrow> int \<Rightarrow> string \<Rightarrow> session_registry \<Rightarrow> bool \<times> session_registry" where
  "IsReportedModelConflict now accountID model r =
    (case registry_Lookup now accountID model r of ((m, ok), r') \<Rightarrow> (ok \<and> m = conflictMarker, r'))"

definition MarkModelConflict :: "instant \<Rightarrow> int \<Rightarrow> string \<Rightarrow> session_registry \<Rightarrow> session_registry" where
  "MarkModelConflict now accountID model r = registry_record now accountID model conflictMarker r"

section \<open>Keys\<close>

lemma registry_key_inject [simp]:
  "registry_key a m = registry_key b n \<longleftrightarrow> a = b \<and> m = n"
proof
  assume eq: "registry_key a m = registry_key b n"
  then have "itoa a @ CHR '':'' # m = itoa b @ CHR '':'' # n" by (simp add: registry_key_def)
  with split_at_first [OF colon_not_itoa colon_not_itoa] have "itoa a = itoa b \<and> m = n" by blast
  then show "a = b \<and> m = n" by simp
qed simp

lemma registry_key_not_Nil [simp]: "registry_key a m \<noteq> ''''" "'''' \<noteq> registry_key a m"
  by (simp_all add: registry_key_def)

section \<open>Invariant\<close>

text \<open>Every key is that of its entry's account and some model; in particular no key is empty.\<close>

definition registry_inv :: "session_registry \<Rightarrow> bool" where
  "registry_inv r \<longleftrightarrow> gm_wf (rg_entries r)
     \<and> (\<forall>(k, e) \<in> set (rg_entries r). \<exists>m. k = registry_key (se_accountID e) m)"

lemma registry_inv_subset:
  "registry_inv r \<Longrightarrow> gm_wf es \<Longrightarrow> set es \<subseteq> set (rg_entries r) \<Longrightarrow> registry_inv (r\<lparr>rg_entries := es\<rparr>)"
  unfolding registry_inv_def by fastforce

lemma registry_no_empty_key: "registry_inv r \<Longrightarrow> '''' \<notin> fst ` set (rg_entries r)"
  unfolding registry_inv_def by (auto dest!: bspec)

lemma registry_inv_New: "registry_inv (NewSessionRegistry cfg)"
  by (simp add: registry_inv_def NewSessionRegistry_def Let_def)

lemma registry_inv_Lookup: "registry_inv r \<Longrightarrow> registry_inv (snd (registry_Lookup now a m r))"
  using registry_inv_subset [OF _ _ gm_del_subset, of r]
  by (auto simp: registry_Lookup_def registry_inv_def split: option.splits)

lemma registry_inv_Forget: "registry_inv r \<Longrightarrow> registry_inv (registry_Forget a m r)"
  using registry_inv_subset [OF _ _ gm_del_subset, of r]
  by (auto simp: registry_Forget_def registry_inv_def)

lemma registry_evict_wf: "registry_inv r \<Longrightarrow> gm_wf (registry_evict r)"
  by (auto simp: registry_evict_def registry_inv_def)

lemma registry_evict_subset: "set (registry_evict r) \<subseteq> set (rg_entries r)"
  using evict_subset(2) [of se_createdAt "rg_entries r"] by (auto simp: registry_evict_def)

lemma registry_evict_get:
  "gm_get (registry_evict r) k = Some e \<Longrightarrow> gm_get (rg_entries r) k = Some e"
  by (auto simp: registry_evict_def split: if_splits dest: evict_get(2))

lemma registry_evict_room:
  assumes "registry_inv r" and "0 < rg_maxSize r" and "int (length (rg_entries r)) \<le> rg_maxSize r"
  shows "int (length (registry_evict r)) < rg_maxSize r"
proof (cases "rg_maxSize r \<le> int (length (rg_entries r))")
  case True
  then have "rg_entries r \<noteq> []" using assms(2) by auto
  moreover have "evict_mark se_createdAt (rg_entries r) = evict_flag se_createdAt (rg_entries r)"
    by (rule evict_mark_eq_flag [OF registry_no_empty_key [OF assms(1)]])
  ultimately have "length (registry_evict r) = length (rg_entries r) - 1"
    using True assms(1,2) by (simp add: registry_evict_def evict_flag_length registry_inv_def)
  with assms(3) \<open>rg_entries r \<noteq> []\<close> show ?thesis by (cases "rg_entries r") auto
qed (simp add: registry_evict_def)

lemma registry_inv_record: "registry_inv r \<Longrightarrow> registry_inv (registry_record now a m obs r)"
  using registry_evict_wf [of r] registry_evict_subset [of r]
    gm_put_subset [of "registry_key a m" "\<lparr>se_accountID = a, se_model = obs, se_createdAt = now\<rparr>" "registry_evict r"]
  unfolding registry_record_def registry_inv_def by fastforce

lemma registry_Record_eq: "registry_Record now a m r = registry_record now a m m r"
  by (simp add: registry_Record_def registry_record_def)

text \<open>The registry is a size-bounded cache from accounts and models to observations.\<close>

definition registry_entry :: "session_registry \<Rightarrow> int \<times> string \<Rightarrow> (string \<times> instant) option" where
  "registry_entry r am = map_option (\<lambda>e. (se_model e, se_createdAt e))
     (gm_get (rg_entries r) (registry_key (fst am) (snd am)))"

definition registry_put :: "int \<times> string \<Rightarrow> string \<times> instant \<Rightarrow> session_registry \<Rightarrow> session_registry" where
  "registry_put am ot r = registry_record (snd ot) (fst am) (snd am) (fst ot) r"

interpretation reg: bounded_cache registry_inv registry_put registry_entry
  "\<lambda>r. length (rg_entries r)" "\<lambda>r. nat (rg_maxSize r)"
proof
  fix s :: session_registry and k k' :: "int \<times> string" and v w :: "string \<times> instant"
  assume inv: "registry_inv s"
  show "registry_inv (registry_put k v s)" using inv by (simp add: registry_put_def registry_inv_record)
  show "registry_entry (registry_put k v s) k = Some v"
    by (simp add: registry_put_def registry_record_def registry_entry_def gomap_simps)
  show "registry_entry s k' = Some w" if "k' \<noteq> k" "registry_entry (registry_put k v s) k' = Some w"
    using that registry_evict_get
    by (auto simp: registry_put_def registry_record_def registry_entry_def gomap_simps prod_eq_iff)
  show "length (rg_entries (registry_put k v s)) \<le> nat (rg_maxSize s)"
    if "0 < nat (rg_maxSize s)" "length (rg_entries s) \<le> nat (rg_maxSize s)"
  proof -
    have "int (length (registry_evict s)) < rg_maxSize s"
      by (rule registry_evict_room [OF inv]) (use that in linarith)+
    moreover have "length (rg_entries (registry_put k v s)) \<le> Suc (length (registry_evict s))"
      by (simp add: registry_put_def registry_record_def gm_len_put)
    ultimately show ?thesis by linarith
  qed
qed (simp add: registry_put_def registry_record_def)

section \<open>Properties\<close>

lemma Lookup_entry:
  "registry_Lookup now a m r = (case registry_entry r (a, m) of
     None \<Rightarrow> (('''', False), r)
   | Some (obs, t) \<Rightarrow> if rg_ttl r < t_sub now t
       then (('''', False), registry_Forget a m r) else ((obs, True), r))"
  by (simp add: registry_Lookup_def registry_entry_def registry_Forget_def split: option.splits)

text \<open>
  What was recorded is read back until its time to live is over and never after it:
  a lookup of the pair that was just recorded finds it exactly while the elapsed time is within
  the TTL; a lookup of any other pair finds what it found before, or nothing (when the record
  evicted it); a model switch on one account never overwrites the entry of the old model.
\<close>

theorem registry_read_back:
  assumes "registry_inv r"
  shows "fst (registry_Lookup t a m (registry_Record t0 a m r))
      = (if t_sub t t0 \<le> rg_ttl r then (m, True) else ('''', False))
    \<and> (\<forall>a' m'. (a', m') \<noteq> (a, m) \<longrightarrow>
         fst (registry_Lookup t a' m' (registry_Record t0 a m r)) \<in>
           {fst (registry_Lookup t a' m' r), ('''', False)})"
proof -
  have put: "registry_Record t0 a m r = registry_put (a, m) (m, t0) r"
    by (simp add: registry_put_def registry_Record_eq)
  have ttl: "rg_ttl (registry_put (a, m) (m, t0) r) = rg_ttl r"
    by (simp add: registry_put_def registry_record_def)
  have "registry_entry (registry_put (a, m) (m, t0) r) (a, m) = Some (m, t0)"
    by (rule reg.get_store [OF assms])
  moreover have "fst (registry_Lookup t a' m' (registry_put (a, m) (m, t0) r))
      \<in> {fst (registry_Lookup t a' m' r), ('''', False)}" if "(a', m') \<noteq> (a, m)" for a' m'
    using reg.get_other [OF assms that, of "(m, t0)"]
    by (auto simp: Lookup_entry ttl split: option.splits)
  ultimately show ?thesis unfolding put by (auto simp: Lookup_entry ttl)
qed

theorem registry_read_back_witness:
  "fst (registry_Lookup 20 (-1) ''a:b'' (registry_Record 7 (-1) ''a:b''
     (NewSessionRegistry \<lparr>MaxEntries = 1, EntryTTL = 13\<rparr>))) = (''a:b'', True)"
  using registry_read_back [OF registry_inv_New [of "\<lparr>MaxEntries = 1, EntryTTL = 13\<rparr>"], of 20 "-1" "''a:b''" 7]
  by (simp add: NewSessionRegistry_def registry_withDefaults_def t_sub_def max_duration_def min_duration_def)

section \<open>Runs\<close>

datatype registry_op = OpRecord int string | OpConflict int string | OpForget int string
  | OpLookup int string

fun registry_step :: "instant \<times> registry_op \<Rightarrow> session_registry \<Rightarrow> session_registry" where
  "registry_step (t, OpRecord a m) r = registry_Record t a m r"
| "registry_step (t, OpConflict a m) r = MarkModelConflict t a m r"
| "registry_step (t, OpForget a m) r = registry_Forget a m r"
| "registry_step (t, OpLookup a m) r = snd (registry_Lookup t a m r)"

definition registry_run :: "(instant \<times> registry_op) list \<Rightarrow> session_registry \<Rightarrow> session_registry" where
  "registry_run ops r = fold registry_step ops r"

fun observed :: "registry_op \<Rightarrow> (int \<times> string) \<Rightarrow> string \<Rightarrow> bool" where
  "observed (OpRecord a m) am obs = (am = (a, m) \<and> obs = m)"
| "observed (OpConflict a m) am obs = (am = (a, m) \<and> obs = conflictMarker)"
| "observed _ am obs = False"

lemma registry_Lookup_state: "snd (registry_Lookup now a m r) \<in> {r, registry_Forget a m r}"
  by (auto simp: Lookup_entry split: option.splits)

lemma registry_step_facts:
  assumes "registry_inv r"
  shows "registry_inv (registry_step stp r)" and "rg_ttl (registry_step stp r) = rg_ttl r"
    and "rg_maxSize (registry_step stp r) = rg_maxSize r"
    and "0 < rg_maxSize r \<Longrightarrow> int (length (rg_entries r)) \<le> rg_maxSize r
      \<Longrightarrow> int (length (rg_entries (registry_step stp r))) \<le> rg_maxSize r"
    and "registry_entry (registry_step stp r) am = Some (obs, t)
      \<Longrightarrow> registry_entry r am = Some (obs, t) \<or> (\<exists>op. stp = (t, op) \<and> observed op am obs)"
proof -
  obtain t0 op where stp: "stp = (t0, op)" by force
  have del: "length (gm_del k (rg_entries r)) \<le> length (rg_entries r)" for k
    by (rule length_delete_le)
  consider (put) a m o' where "registry_step stp r = registry_put (a, m) (o', t0) r"
      "observed op (a, m) o'"
    | (drop) k where "registry_step stp r = r\<lparr>rg_entries := gm_del k (rg_entries r)\<rparr>"
    | (same) "registry_step stp r = r"
  proof (cases op)
    case (OpLookup a m)
    then show ?thesis using that(2,3) registry_Lookup_state [of t0 a m r] unfolding stp
      by (auto simp: registry_Forget_def)
  qed (auto simp: stp registry_Record_eq MarkModelConflict_def registry_put_def registry_Forget_def)
  note cases = this
  show "registry_inv (registry_step stp r)" unfolding stp
    by (cases op) (auto simp: registry_Record_eq MarkModelConflict_def
        intro: assms registry_inv_record registry_inv_Forget registry_inv_Lookup)
  show "rg_ttl (registry_step stp r) = rg_ttl r" and "rg_maxSize (registry_step stp r) = rg_maxSize r"
    using cases by (cases; simp add: registry_put_def registry_record_def)+
  show "int (length (rg_entries (registry_step stp r))) \<le> rg_maxSize r"
    if "0 < rg_maxSize r" "int (length (rg_entries r)) \<le> rg_maxSize r"
    using cases
  proof cases
    case (put a m o')
    have "length (rg_entries (registry_put (a, m) (o', t0) r)) \<le> nat (rg_maxSize r)"
      by (rule reg.size_store [OF assms]) (use that in linarith)+
    with put(1) that(1) show ?thesis by simp
  next
    case (drop k)
    then show ?thesis using that del [of k] by simp
  qed (use that in simp)
  show "registry_entry r am = Some (obs, t) \<or> (\<exists>op. stp = (t, op) \<and> observed op am obs)"
    if "registry_entry (registry_step stp r) am = Some (obs, t)"
    using cases
  proof cases
    case (put a m o')
    then show ?thesis
      using that stp reg.get_store [OF assms, of "(a, m)" "(o', t0)"]
        reg.get_other [OF assms, of am "(a, m)" "(o', t0)"] by (cases "am = (a, m)") auto
  next
    case (drop k)
    then show ?thesis using that by (auto simp: registry_entry_def gomap_simps split: if_splits)
  qed (use that in simp)
qed

lemma registry_run_Cons [simp]:
  "registry_run (stp # ops) r = registry_run ops (registry_step stp r)"
  by (simp add: registry_run_def)

lemma registry_run_Nil [simp]: "registry_run [] r = r"
  by (simp add: registry_run_def)

lemma registry_run_inv:
  "registry_inv r \<Longrightarrow> registry_inv (registry_run ops r) \<and> rg_ttl (registry_run ops r) = rg_ttl r
     \<and> rg_maxSize (registry_run ops r) = rg_maxSize r"
  by (induction ops arbitrary: r) (simp_all add: registry_step_facts(1,2,3))

lemma registry_run_bounded:
  "registry_inv r \<Longrightarrow> 0 < rg_maxSize r \<Longrightarrow> int (length (rg_entries r)) \<le> rg_maxSize r
    \<Longrightarrow> int (length (rg_entries (registry_run ops r))) \<le> rg_maxSize r"
proof (induction ops arbitrary: r)
  case (Cons stp ops)
  from Cons.IH [of "registry_step stp r"] registry_step_facts(1,3,4) [OF Cons.prems(1), of stp] Cons.prems
  show ?case by simp
qed simp

lemma registry_run_entry:
  "registry_inv r \<Longrightarrow> registry_entry (registry_run ops r) am = Some (obs, t)
    \<Longrightarrow> registry_entry r am = Some (obs, t) \<or> (\<exists>op. (t, op) \<in> set ops \<and> observed op am obs)"
proof (induction ops arbitrary: r)
  case (Cons stp ops)
  from Cons.IH [of "registry_step stp r"] Cons.prems registry_step_facts(1) [OF Cons.prems(1), of stp]
    registry_step_facts(5) [OF Cons.prems(1), of stp am obs t]
  show ?case by fastforce
qed simp

text \<open>
  After any sequence of operations on a new registry with a cap, the cap holds, and a
  reported model conflict is genuine: it was marked for this very account and model (or that
  literal marker was recorded as a model) no longer ago than the time to live.
\<close>

theorem registry_conflicts_genuine:
  assumes "0 < MaxEntries cfg"
  shows "int (length (rg_entries (registry_run ops (NewSessionRegistry cfg)))) \<le> MaxEntries cfg
    \<and> (fst (IsReportedModelConflict now a m (registry_run ops (NewSessionRegistry cfg))) \<longrightarrow>
        (\<exists>t op. (t, op) \<in> set ops \<and> t_sub now t \<le> EntryTTL (registry_withDefaults cfg)
          \<and> (op = OpConflict a m \<or> op = OpRecord a conflictMarker \<and> m = conflictMarker)))"
proof -
  let ?new = "NewSessionRegistry cfg"
  let ?r = "registry_run ops ?new"
  have new: "rg_entries ?new = []" "rg_ttl ?new = EntryTTL (registry_withDefaults cfg)" "rg_maxSize ?new = MaxEntries cfg"
    by (simp_all add: NewSessionRegistry_def registry_withDefaults_def Let_def)
  have "\<exists>t op. (t, op) \<in> set ops \<and> t_sub now t \<le> EntryTTL (registry_withDefaults cfg)
      \<and> (op = OpConflict a m \<or> op = OpRecord a conflictMarker \<and> m = conflictMarker)"
    if "fst (IsReportedModelConflict now a m ?r)"
  proof -
    from that obtain t where t: "registry_entry ?r (a, m) = Some (conflictMarker, t)" "t_sub now t \<le> rg_ttl ?r"
      by (auto simp: IsReportedModelConflict_def Lookup_entry split: option.splits if_splits)
    moreover have "registry_entry ?new (a, m) = None" by (simp add: registry_entry_def new)
    ultimately obtain op where op: "(t, op) \<in> set ops" "observed op (a, m) conflictMarker" using registry_run_entry [OF registry_inv_New] by fastforce
    then have "op = OpConflict a m \<or> op = OpRecord a conflictMarker \<and> m = conflictMarker"
      by (cases op) auto
    with op(1) t(2) registry_run_inv [OF registry_inv_New, of ops cfg] new(2) show ?thesis by auto
  qed
  moreover have "int (length (rg_entries ?r)) \<le> MaxEntries cfg"
    using registry_run_bounded [OF registry_inv_New, of cfg ops] assms new by simp
  ultimately show ?thesis by blast
qed

theorem registry_conflicts_genuine_witness:
  "length (rg_entries (registry_run [(1, OpRecord 1 ''x''), (2, OpConflict 2 ''y''), (3, OpRecord 3 ''z'')]
     (NewSessionRegistry \<lparr>MaxEntries = 2, EntryTTL = 0\<rparr>))) \<le> 2"
  using registry_conflicts_genuine [of "\<lparr>MaxEntries = 2, EntryTTL = 0\<rparr>"
      "[(1, OpRecord 1 ''x''), (2, OpConflict 2 ''y''), (3, OpRecord 3 ''z'')]"] by simp

end
