(* ===== verification/Token_Cache.thy ===== *)
theory Token_Cache
  imports Go_Prelude "HOL-Library.Word"
begin

text \<open>
  The in-memory caches of \<open>internal/tokencache\<close>: \<open>MemoryCache\<close> (\<open>memory.go\<close>,
  \<open>memory_cleanup.go\<close>) and \<open>MemoryPromptCache\<close> (\<open>prompt_cache.go\<close>). The two Go types have the
  same fields and the same eviction, so they share the record \<open>lru_cache\<close>. Clock readings are
  arguments (\<open>clock n\<close> is the n-th reading of a call); the channel that stops the cleanup goroutine
  is left out, a cleanup tick is \<open>pruneExpiredLocked\<close>. Byte totals are kept as integers: the
  invariant ties them to the stored keys, so they cannot reach \<open>2^63\<close>. The digest is a parameter.
\<close>

record cache_item =
  ci_tokens :: int
  ci_expiresAt :: instant
  ci_accessedAt :: instant
  ci_size :: int

record lru_cache =
  lc_ttl :: duration
  lc_maxEntries :: int
  lc_items :: "(string, cache_item) gomap"
  lc_sizeBytes :: int
  lc_accessCount :: "64 word"

definition NewMemoryCache :: "duration \<Rightarrow> int list \<Rightarrow> lru_cache" where
  "NewMemoryCache ttl maxEntries =
    \<lparr>lc_ttl = (if ttl < 0 then 0 else ttl),
     lc_maxEntries = (case maxEntries of m # _ \<Rightarrow> if 0 < m then m else 0 | [] \<Rightarrow> 0),
     lc_items = [], lc_sizeBytes = 0, lc_accessCount = 0\<rparr>"

definition normalizeStrategy :: "string \<Rightarrow> string" where
  "normalizeStrategy strategy = (let s = to_lower (trim_space strategy) in
     if s = ''split'' then ''split''
     else if s = ''mix'' \<or> s = ''mixed'' then ''mix''
     else ''mix'')"

text \<open>The bytes fed to the hasher, and the key made of them.\<close>

definition hashed_bytes :: "string \<Rightarrow> string \<Rightarrow> string \<Rightarrow> string" where
  "hashed_bytes strategy model txt =
    (if normalizeStrategy strategy = ''split''
     then to_lower (trim_space model) @ [char_of (0 :: nat)] @ txt else txt)"

definition CacheKey :: "(string \<Rightarrow> string) \<Rightarrow> string \<Rightarrow> string \<Rightarrow> string \<Rightarrow> string" where
  "CacheKey sha256_hex strategy model txt = sha256_hex (hashed_bytes strategy model txt)"

definition cache_SetTTL :: "duration \<Rightarrow> lru_cache \<Rightarrow> lru_cache" where
  "cache_SetTTL ttl c = (let ttl = (if ttl < 0 then 0 else ttl) in
     if lc_ttl c \<noteq> ttl then c\<lparr>lc_ttl := ttl, lc_items := [], lc_sizeBytes := 0\<rparr> else c)"

definition item_expired :: "instant \<Rightarrow> cache_item \<Rightarrow> bool" where
  "item_expired now i \<longleftrightarrow> \<not> is_zero (ci_expiresAt i) \<and> ci_expiresAt i < now"

definition drop_key :: "string \<Rightarrow> lru_cache \<Rightarrow> lru_cache" where
  "drop_key key c = (case gm_get (lc_items c) key of None \<Rightarrow> c
     | Some i \<Rightarrow> c\<lparr>lc_sizeBytes := lc_sizeBytes c - ci_size i, lc_items := gm_del key (lc_items c)\<rparr>)"

text \<open>The sampled update of the access time: one read in eight.\<close>

definition touch_sampled :: "instant \<Rightarrow> string \<Rightarrow> lru_cache \<Rightarrow> lru_cache" where
  "touch_sampled now key c = (let n = lc_accessCount c + 1; c = c\<lparr>lc_accessCount := n\<rparr> in
     if n mod 8 = 0 then (case gm_get (lc_items c) key of None \<Rightarrow> c
       | Some i \<Rightarrow> c\<lparr>lc_items := gm_put key (i\<lparr>ci_accessedAt := now\<rparr>) (lc_items c)\<rparr>)
     else c)"

definition cache_Get :: "(nat \<Rightarrow> instant) \<Rightarrow> string \<Rightarrow> lru_cache \<Rightarrow> (int \<times> bool) \<times> lru_cache" where
  "cache_Get clock key c = (case gm_get (lc_items c) key of
     None \<Rightarrow> ((0, False), c)
   | Some item \<Rightarrow>
       if 0 < lc_ttl c \<and> item_expired (clock 0) item
       then ((0, False), if 0 < lc_ttl c \<and> item_expired (clock 1) item then drop_key key c else c)
       else ((ci_tokens item, True), touch_sampled (clock 1) key c))"

definition evictLRULocked :: "lru_cache \<Rightarrow> lru_cache" where
  "evictLRULocked c = (case scan_flag ci_accessedAt (lc_items c) None of None \<Rightarrow> c
     | Some (lruKey, _) \<Rightarrow> drop_key lruKey c)"

definition make_room :: "string \<Rightarrow> lru_cache \<Rightarrow> lru_cache" where
  "make_room key c = (case gm_get (lc_items c) key of
     Some existing \<Rightarrow> c\<lparr>lc_sizeBytes := lc_sizeBytes c - ci_size existing\<rparr>
   | None \<Rightarrow> if 0 < lc_maxEntries c \<and> lc_maxEntries c \<le> int (length (lc_items c)) then evictLRULocked c else c)"

definition cache_Put :: "instant \<Rightarrow> string \<Rightarrow> int \<Rightarrow> lru_cache \<Rightarrow> lru_cache" where
  "cache_Put now key tokens c =
    (let expiresAt = (if 0 < lc_ttl c then t_add now (lc_ttl c) else zero_time);
         size = int (length key) + 8;
         c = make_room key c
     in c\<lparr>lc_items := gm_put key \<lparr>ci_tokens = tokens, ci_expiresAt = expiresAt,
              ci_accessedAt = now, ci_size = size\<rparr> (lc_items c),
          lc_sizeBytes := lc_sizeBytes c + size\<rparr>)"

definition pruneExpiredLocked :: "instant \<Rightarrow> lru_cache \<Rightarrow> lru_cache" where
  "pruneExpiredLocked now c =
    (if lc_ttl c \<le> 0 then c
     else fold (\<lambda>(key, item) c. if item_expired now item
         then c\<lparr>lc_sizeBytes := lc_sizeBytes c - ci_size item, lc_items := gm_del key (lc_items c)\<rparr> else c)
       (lc_items c) c)"

definition cache_GetStats :: "instant \<Rightarrow> lru_cache \<Rightarrow> (int \<times> int) \<times> lru_cache" where
  "cache_GetStats now c = (let c = pruneExpiredLocked now c in
     ((int (length (lc_items c)), lc_sizeBytes c), c))"

definition cache_Clear :: "lru_cache \<Rightarrow> lru_cache" where
  "cache_Clear c = c\<lparr>lc_items := [], lc_sizeBytes := 0\<rparr>"

section \<open>The prompt cache\<close>

text \<open>
  \<open>checkCache\<close> inside \<open>CheckPromptCache\<close>: \<open>now\<close> is read once per call, \<open>later\<close> is the reading
  for a sampled access time. The pair is (tokens read, tokens created).
\<close>

definition checkCache :: "instant \<Rightarrow> instant \<Rightarrow> string \<Rightarrow> int \<Rightarrow> lru_cache \<Rightarrow> (int \<times> int) \<times> lru_cache" where
  "checkCache now later key tokens c =
    (if tokens \<le> 0 \<or> key = '''' then ((0, 0), c)
     else case gm_get (lc_items c) key of
       Some item \<Rightarrow>
         if lc_ttl c = 0 \<or> is_zero (ci_expiresAt item) \<or> \<not> ci_expiresAt item < now
         then ((tokens, 0), touch_sampled later key c)
         else ((0, tokens), cache_Put now key tokens c)
     | None \<Rightarrow> ((0, tokens), cache_Put now key tokens c))"

definition prompt_hash :: "(string \<Rightarrow> string) \<Rightarrow> string \<Rightarrow> string" where
  "prompt_hash sha256_hex txt = (if length txt = 0 then '''' else sha256_hex txt)"

definition check_part :: "(string \<Rightarrow> string) \<Rightarrow> instant \<Rightarrow> instant \<Rightarrow> string \<Rightarrow> string \<Rightarrow> int \<Rightarrow> lru_cache \<Rightarrow> (int \<times> int) \<times> lru_cache" where
  "check_part sha now later pre txt tokens c =
    (if 0 < length txt \<and> 0 < tokens then checkCache now later (prompt_hash sha (pre @ txt)) tokens c
     else ((0, 0), c))"

definition check_split :: "(string \<Rightarrow> string) \<Rightarrow> (nat \<Rightarrow> instant) \<Rightarrow> int \<Rightarrow> int \<Rightarrow> string \<Rightarrow> string \<Rightarrow> lru_cache \<Rightarrow> (int \<times> int) \<times> lru_cache" where
  "check_split sha clock systemTokens toolsTokens systemText toolsText c =
    (let ((r1, cr1), c) = check_part sha (clock 0) (clock 1) ''sys:'' systemText systemTokens c;
         ((r2, cr2), c) = check_part sha (clock 0) (clock 2) ''tools:'' toolsText toolsTokens c
     in ((r1 + r2, cr1 + cr2), c))"

definition CheckPromptCache :: "(string \<Rightarrow> string) \<Rightarrow> (nat \<Rightarrow> instant) \<Rightarrow> string \<Rightarrow> int \<Rightarrow> int \<Rightarrow> string \<Rightarrow> string \<Rightarrow> lru_cache \<Rightarrow> (int \<times> int) \<times> lru_cache" where
  "CheckPromptCache sha clock strategy systemTokens toolsTokens systemText toolsText c =
    (if strategy = ''0'' then
       checkCache (clock 0) (clock 1) (prompt_hash sha (''sys:'' @ systemText @ ''|tools:'' @ toolsText))
         (systemTokens + toolsTokens) c
     else if strategy = ''1'' then check_split sha clock systemTokens toolsTokens systemText toolsText c
     else if strategy = ''2'' then
       (let ((r, cr), c) = check_part sha (clock 0) (clock 1) ''sys:'' systemText systemTokens c
        in ((r, cr + toolsTokens), c))
     else if strategy = ''3'' then
       (let ((r, cr), c) = check_part sha (clock 0) (clock 1) ''tools:'' toolsText toolsTokens c
        in ((r, cr + systemTokens), c))
     else check_split sha clock systemTokens toolsTokens systemText toolsText c)"

definition NewMemoryPromptCache :: "duration \<Rightarrow> int list \<Rightarrow> lru_cache" where
  "NewMemoryPromptCache ttl maxEntries = NewMemoryCache ttl maxEntries"

section \<open>Invariant\<close>

definition item_total :: "(string, cache_item) gomap \<Rightarrow> int" where
  "item_total m = (\<Sum>(k, i) \<leftarrow> m. ci_size i)"

definition sized :: "(string, cache_item) gomap \<Rightarrow> bool" where
  "sized m \<longleftrightarrow> (\<forall>(k, i) \<in> set m. ci_size i = int (length k) + 8)"

definition lru_inv :: "lru_cache \<Rightarrow> bool" where
  "lru_inv c \<longleftrightarrow> gm_wf (lc_items c) \<and> lc_sizeBytes c = item_total (lc_items c)
     \<and> sized (lc_items c) \<and> 0 \<le> lc_maxEntries c"

lemma item_total_simps [simp]:
  "item_total [] = 0" "item_total ((k, i) # m) = ci_size i + item_total m"
  by (simp_all add: item_total_def)

definition size_at :: "(string, cache_item) gomap \<Rightarrow> string \<Rightarrow> int" where
  "size_at m k = (case gm_get m k of None \<Rightarrow> 0 | Some i \<Rightarrow> ci_size i)"

lemma item_total_del: "gm_wf m \<Longrightarrow> item_total (gm_del k m) = item_total m - size_at m k"
proof (induction m)
  case (Cons p m)
  obtain a i where p: "p = (a, i)" by force
  show ?case
  proof (cases "a = k")
    case True
    with Cons.prems p have "gm_del k m = m" by (simp add: delete_idem)
    with p True show ?thesis by (simp add: size_at_def)
  qed (use Cons p in \<open>simp add: size_at_def\<close>)
qed (simp add: size_at_def)

lemma item_total_put: "gm_wf m \<Longrightarrow> item_total (gm_put k i m) = item_total m - size_at m k + ci_size i"
proof (induction m)
  case (Cons p m)
  obtain a j where p: "p = (a, j)" by force
  show ?case
  proof (cases "a = k")
    case True
    with p show ?thesis by (simp add: size_at_def)
  qed (use Cons p in \<open>simp add: size_at_def\<close>)
qed (simp add: size_at_def)

lemma sized_put: "sized m \<Longrightarrow> ci_size i = int (length k) + 8 \<Longrightarrow> sized (gm_put k i m)"
  using gm_put_subset [of k i m] by (fastforce simp: sized_def)

lemma sized_del: "sized m \<Longrightarrow> sized (gm_del k m)"
  using gm_del_subset [of k m] by (fastforce simp: sized_def)

lemma sized_get: "sized m \<Longrightarrow> gm_get m k = Some i \<Longrightarrow> ci_size i = int (length k) + 8"
  by (auto simp: sized_def dest: map_of_SomeD)

lemma lru_inv_drop: "lru_inv c \<Longrightarrow> lru_inv (drop_key k c)"
  by (simp add: drop_key_def lru_inv_def item_total_del size_at_def sized_del gm_wf_del split: option.splits)

lemma lru_inv_touch: "lru_inv c \<Longrightarrow> lru_inv (touch_sampled now k c)"
  using sized_get [of "lc_items c" k]
  by (simp add: touch_sampled_def lru_inv_def Let_def item_total_put size_at_def sized_put gm_wf_put
      split: option.splits)

lemma drop_key_frame [simp]:
  "lc_ttl (drop_key k c) = lc_ttl c" "lc_maxEntries (drop_key k c) = lc_maxEntries c"
  "lc_accessCount (drop_key k c) = lc_accessCount c"
  by (simp_all add: drop_key_def split: option.splits)

lemma drop_key_items: "lc_items (drop_key k c) = gm_del k (lc_items c)"
  by (simp add: drop_key_def delete_idem map_of_eq_None_iff split: option.splits)

lemma evict_frame [simp]:
  "lc_ttl (evictLRULocked c) = lc_ttl c" "lc_maxEntries (evictLRULocked c) = lc_maxEntries c"
  by (simp_all add: evictLRULocked_def split: option.splits)

lemma evict_items: "lc_items (evictLRULocked c) = evict_flag ci_accessedAt (lc_items c)"
  by (auto simp: evictLRULocked_def evict_flag_def drop_key_items split: option.splits)

lemma lru_inv_evict: "lru_inv c \<Longrightarrow> lru_inv (evictLRULocked c)"
  by (auto simp: evictLRULocked_def lru_inv_drop split: option.splits)

lemma make_room_frame [simp]:
  "lc_ttl (make_room k c) = lc_ttl c" "lc_maxEntries (make_room k c) = lc_maxEntries c"
  by (simp_all add: make_room_def split: option.splits)

lemma make_room_items:
  "lc_items (make_room k c) = (if gm_get (lc_items c) k = None \<and> 0 < lc_maxEntries c
       \<and> lc_maxEntries c \<le> int (length (lc_items c)) then evict_flag ci_accessedAt (lc_items c) else lc_items c)"
  by (simp add: make_room_def evict_items split: option.splits)

lemma make_room_inv:
  assumes "lru_inv c"
  shows "gm_wf (lc_items (make_room k c))" and "sized (lc_items (make_room k c))"
    and "lc_sizeBytes (make_room k c) = item_total (lc_items (make_room k c)) - size_at (lc_items (make_room k c)) k"
proof -
  have "lru_inv (evictLRULocked c)" using assms by (rule lru_inv_evict)
  moreover have "gm_get (lc_items c) k = None \<Longrightarrow> size_at (lc_items (evictLRULocked c)) k = 0"
    using evict_get(1) [of ci_accessedAt "lc_items c" k]
    by (auto simp: size_at_def evict_items split: option.splits)
  ultimately show "gm_wf (lc_items (make_room k c))" "sized (lc_items (make_room k c))"
    "lc_sizeBytes (make_room k c) = item_total (lc_items (make_room k c)) - size_at (lc_items (make_room k c)) k"
    using assms by (auto simp del: map_of_eq_Some_iff simp: make_room_def lru_inv_def size_at_def split: option.splits)
qed

lemma cache_Put_items:
  "lc_items (cache_Put now k tok c) = gm_put k \<lparr>ci_tokens = tok,
     ci_expiresAt = (if 0 < lc_ttl c then now + lc_ttl c else 0), ci_accessedAt = now,
     ci_size = int (length k) + 8\<rparr> (lc_items (make_room k c))"
  by (simp add: cache_Put_def Let_def t_add_def zero_time_def)

lemma cache_Put_frame [simp]:
  "lc_ttl (cache_Put now k tok c) = lc_ttl c" "lc_maxEntries (cache_Put now k tok c) = lc_maxEntries c"
  by (simp_all add: cache_Put_def Let_def)

lemma lru_inv_Put:
  assumes "lru_inv c"
  shows "lru_inv (cache_Put now k tok c)"
  using make_room_inv [OF assms, of k] assms
  by (simp add: cache_Put_def Let_def lru_inv_def item_total_put sized_put gm_wf_put)

lemma make_room_length:
  assumes "lru_inv c" and "0 < lc_maxEntries c" and "int (length (lc_items c)) \<le> lc_maxEntries c"
  shows "int (length (gm_put k i (lc_items (make_room k c)))) \<le> lc_maxEntries c"
proof (cases "gm_get (lc_items c) k = None \<and> lc_maxEntries c \<le> int (length (lc_items c))")
  case True
  then have "lc_items c \<noteq> []" using assms(2) by auto
  with True assms have "length (lc_items (make_room k c)) < length (lc_items c)"
    by (simp add: make_room_items evict_flag_length lru_inv_def)
  with True assms(3) show ?thesis by (auto simp: gm_len_put)
next
  case False
  then have "lc_items (make_room k c) = lc_items c" by (auto simp: make_room_items)
  with False assms(3) show ?thesis by (auto simp: gm_len_put)
qed

section \<open>The bounded cache\<close>

definition cache_entry :: "lru_cache \<Rightarrow> string \<Rightarrow> (int \<times> instant) option" where
  "cache_entry c k = map_option (\<lambda>i. (ci_tokens i, ci_accessedAt i)) (gm_get (lc_items c) k)"

definition cache_store :: "string \<Rightarrow> int \<times> instant \<Rightarrow> lru_cache \<Rightarrow> lru_cache" where
  "cache_store k v c = cache_Put (snd v) k (fst v) c"

interpretation tokens: bounded_cache lru_inv cache_store cache_entry
  "\<lambda>c. length (lc_items c)" "\<lambda>c. nat (lc_maxEntries c)"
proof
  fix s :: lru_cache and k k' :: string and v w :: "int \<times> instant"
  assume inv: "lru_inv s"
  show "lru_inv (cache_store k v s)" using inv by (simp add: cache_store_def lru_inv_Put)
  show "cache_entry (cache_store k v s) k = Some v"
    by (simp add: cache_store_def cache_entry_def cache_Put_items gomap_simps)
  show "cache_entry s k' = Some w" if "k' \<noteq> k" "cache_entry (cache_store k v s) k' = Some w"
    using that evict_get(1) [of ci_accessedAt "lc_items s" k']
    by (auto simp: cache_store_def cache_entry_def cache_Put_items gomap_simps make_room_items split: if_splits)
  show "length (lc_items (cache_store k v s)) \<le> nat (lc_maxEntries s)"
    if "0 < nat (lc_maxEntries s)" "length (lc_items s) \<le> nat (lc_maxEntries s)"
  proof -
    have "int (length (lc_items (cache_store k v s))) \<le> lc_maxEntries s"
      unfolding cache_store_def cache_Put_items
      by (rule make_room_length [OF inv]) (use that in linarith)+
    then show ?thesis by linarith
  qed
qed (simp add: cache_store_def)

section \<open>Pruning\<close>

definition prune_step :: "instant \<Rightarrow> string \<times> cache_item \<Rightarrow> lru_cache \<Rightarrow> lru_cache" where
  "prune_step now = (\<lambda>(key, item) c. if item_expired now item
     then c\<lparr>lc_sizeBytes := lc_sizeBytes c - ci_size item, lc_items := gm_del key (lc_items c)\<rparr> else c)"

lemma prune_step_drop:
  "gm_get (lc_items c) k = Some i \<Longrightarrow> prune_step now (k, i) c = (if item_expired now i then drop_key k c else c)"
  by (simp add: prune_step_def drop_key_def del: map_of_eq_Some_iff)

definition expires_in :: "instant \<Rightarrow> string \<Rightarrow> (string, cache_item) gomap \<Rightarrow> bool" where
  "expires_in now k xs \<longleftrightarrow> (\<exists>i. (k, i) \<in> set xs \<and> item_expired now i)"

lemma prune_fold:
  assumes "lru_inv c" and "distinct (map fst xs)" and "\<forall>(k, i) \<in> set xs. gm_get (lc_items c) k = Some i"
  shows "lru_inv (fold (prune_step now) xs c) \<and> lc_ttl (fold (prune_step now) xs c) = lc_ttl c
    \<and> lc_maxEntries (fold (prune_step now) xs c) = lc_maxEntries c
    \<and> gm_get (lc_items (fold (prune_step now) xs c)) k
       = (if expires_in now k xs then None else gm_get (lc_items c) k)"
  using assms
proof (induction xs arbitrary: c)
  case (Cons x xs)
  obtain a i where x: "x = (a, i)" by force
  let ?c = "prune_step now x c"
  have c: "?c = (if item_expired now i then drop_key a c else c)"
    using Cons.prems(3) x prune_step_drop by auto
  have "\<forall>(k, i) \<in> set xs. gm_get (lc_items ?c) k = Some i"
  proof (clarify)
    fix b j assume bj: "(b, j) \<in> set xs"
    then have "b \<noteq> a" using Cons.prems(2) x by force
    moreover have "gm_get (lc_items c) b = Some j" using Cons.prems(3) bj by auto
    ultimately show "gm_get (lc_items ?c) b = Some j"
      by (simp add: c drop_key_items gomap_simps del: map_of_eq_Some_iff)
  qed
  moreover have "lru_inv ?c" using Cons.prems(1) by (simp add: c lru_inv_drop)
  moreover have "distinct (map fst xs)" using Cons.prems(2) by simp
  ultimately have "lru_inv (fold (prune_step now) xs ?c) \<and> lc_ttl (fold (prune_step now) xs ?c) = lc_ttl ?c
    \<and> lc_maxEntries (fold (prune_step now) xs ?c) = lc_maxEntries ?c
    \<and> gm_get (lc_items (fold (prune_step now) xs ?c)) k
       = (if expires_in now k xs then None else gm_get (lc_items ?c) k)"
    by (intro Cons.IH)
  moreover have "lc_ttl ?c = lc_ttl c" "lc_maxEntries ?c = lc_maxEntries c"
    "gm_get (lc_items ?c) k = (if k = a \<and> item_expired now i then None else gm_get (lc_items c) k)"
    by (simp_all add: c drop_key_items gomap_simps)
  moreover have "expires_in now k (x # xs) \<longleftrightarrow> (k = a \<and> item_expired now i) \<or> expires_in now k xs"
    using x by (auto simp: expires_in_def)
  ultimately show ?case by (cases "k = a \<and> item_expired now i") (simp_all only: fold_Cons comp_apply if_True if_False if_cancel simp_thms)
qed (simp add: expires_in_def)

lemma pruneExpired_eq:
  "pruneExpiredLocked now c = (if lc_ttl c \<le> 0 then c else fold (prune_step now) (lc_items c) c)"
  by (simp add: pruneExpiredLocked_def prune_step_def)

lemma prune_facts:
  assumes "lru_inv c"
  shows "lru_inv (pruneExpiredLocked now c)"
    and "lc_ttl (pruneExpiredLocked now c) = lc_ttl c"
    and "lc_maxEntries (pruneExpiredLocked now c) = lc_maxEntries c"
    and "gm_get (lc_items (pruneExpiredLocked now c)) k = (case gm_get (lc_items c) k of None \<Rightarrow> None
      | Some i \<Rightarrow> if 0 < lc_ttl c \<and> item_expired now i then None else Some i)"
proof -
  have wf: "gm_wf (lc_items c)" using assms by (simp add: lru_inv_def)
  then have "\<forall>(k, i) \<in> set (lc_items c). gm_get (lc_items c) k = Some i" by auto
  note fold = prune_fold [OF assms wf this, of now k]
  show "lru_inv (pruneExpiredLocked now c)" "lc_ttl (pruneExpiredLocked now c) = lc_ttl c"
    "lc_maxEntries (pruneExpiredLocked now c) = lc_maxEntries c"
    using fold assms by (simp_all add: pruneExpired_eq)
  show "gm_get (lc_items (pruneExpiredLocked now c)) k = (case gm_get (lc_items c) k of None \<Rightarrow> None
      | Some i \<Rightarrow> if 0 < lc_ttl c \<and> item_expired now i then None else Some i)"
    using fold eq_key_imp_eq_value [OF wf, of k]
    by (cases "gm_get (lc_items c) k") (auto simp: pruneExpired_eq expires_in_def dest: map_of_SomeD weak_map_of_SomeI)
qed

section \<open>Runs\<close>

datatype cache_op = OpGet string | OpPut string int | OpSetTTL duration | OpClear | OpStats
  | OpPrompt string int int string string

fun cache_step :: "(string \<Rightarrow> string) \<Rightarrow> (nat \<Rightarrow> instant) \<times> cache_op \<Rightarrow> lru_cache \<Rightarrow> lru_cache" where
  "cache_step sha (clock, OpGet k) c = snd (cache_Get clock k c)"
| "cache_step sha (clock, OpPut k n) c = cache_Put (clock 0) k n c"
| "cache_step sha (clock, OpSetTTL d) c = cache_SetTTL d c"
| "cache_step sha (clock, OpClear) c = cache_Clear c"
| "cache_step sha (clock, OpStats) c = snd (cache_GetStats (clock 0) c)"
| "cache_step sha (clock, OpPrompt st a b s t) c = snd (CheckPromptCache sha clock st a b s t c)"

definition cache_run :: "(string \<Rightarrow> string) \<Rightarrow> ((nat \<Rightarrow> instant) \<times> cache_op) list \<Rightarrow> lru_cache \<Rightarrow> lru_cache" where
  "cache_run sha ops c = fold (cache_step sha) ops c"

text \<open>The invariant together with the cap, and the cap itself, through every operation.\<close>

definition lru_ok :: "int \<Rightarrow> lru_cache \<Rightarrow> bool" where
  "lru_ok cap c \<longleftrightarrow> lru_inv c \<and> lc_maxEntries c = cap \<and> (0 < cap \<longrightarrow> int (length (lc_items c)) \<le> cap)"

lemma touch_frame:
  "lc_maxEntries (touch_sampled now k c) = lc_maxEntries c"
  "length (lc_items (touch_sampled now k c)) = length (lc_items c)"
  by (simp_all add: touch_sampled_def Let_def gm_len_put split: option.splits)

lemma lru_ok_touch: "lru_ok cap c \<Longrightarrow> lru_ok cap (touch_sampled now k c)"
  by (simp add: lru_ok_def lru_inv_touch touch_frame)

lemma lru_ok_drop: "lru_ok cap c \<Longrightarrow> lru_ok cap (drop_key k c)"
  using length_delete_le [of k "lc_items c"] by (auto simp: lru_ok_def lru_inv_drop drop_key_items)

lemma lru_ok_Put: "lru_ok cap c \<Longrightarrow> lru_ok cap (cache_Put now k n c)"
  using make_room_length [of c k] by (auto simp: lru_ok_def lru_inv_Put cache_Put_items)

lemma lru_ok_empty: "lru_ok cap c \<Longrightarrow> lru_ok cap (c\<lparr>lc_items := [], lc_sizeBytes := 0\<rparr>)"
  by (simp add: lru_ok_def lru_inv_def sized_def)

lemma lru_ok_ttl [simp]: "lru_ok cap (c\<lparr>lc_ttl := d\<rparr>) = lru_ok cap c"
  by (simp add: lru_ok_def lru_inv_def)

lemma lru_ok_prune: "lru_ok cap c \<Longrightarrow> lru_ok cap (pruneExpiredLocked now c)"
proof -
  assume ok: "lru_ok cap c"
  then have inv: "lru_inv c" by (simp add: lru_ok_def)
  have wf: "gm_wf (lc_items c)" "gm_wf (lc_items (pruneExpiredLocked now c))"
    using inv prune_facts(1) [OF inv] by (simp_all add: lru_inv_def)
  have "fst ` set (lc_items (pruneExpiredLocked now c)) \<subseteq> fst ` set (lc_items c)"
  proof
    fix k assume "k \<in> fst ` set (lc_items (pruneExpiredLocked now c))"
    then have "gm_get (lc_items (pruneExpiredLocked now c)) k \<noteq> None" by (simp add: map_of_eq_None_iff)
    then have "gm_get (lc_items c) k \<noteq> None"
      unfolding prune_facts(4) [OF inv] by (auto split: option.splits)
    then show "k \<in> fst ` set (lc_items c)" by (simp add: map_of_eq_None_iff)
  qed
  then have "card (set (map fst (lc_items (pruneExpiredLocked now c)))) \<le> card (set (map fst (lc_items c)))"
    by (intro card_mono) auto
  then have "length (lc_items (pruneExpiredLocked now c)) \<le> length (lc_items c)"
    using wf by (simp only: distinct_card length_map)
  with ok prune_facts [OF inv] show ?thesis by (auto simp: lru_ok_def)
qed

lemma lru_ok_check: "lru_ok cap c \<Longrightarrow> lru_ok cap (snd (checkCache now later k n c))"
  by (auto simp: checkCache_def lru_ok_touch lru_ok_Put split: option.splits)

lemma lru_ok_part: "lru_ok cap c \<Longrightarrow> lru_ok cap (snd (check_part sha now later p t n c))"
  by (simp add: check_part_def lru_ok_check)

lemma lru_ok_split: "lru_ok cap c \<Longrightarrow> lru_ok cap (snd (check_split sha clock a b s t c))"
  using lru_ok_part [of cap c sha "clock 0" "clock 1" "''sys:''" s a] lru_ok_part
  by (auto simp: check_split_def split: prod.splits) (metis snd_conv)

lemma lru_ok_prompt: "lru_ok cap c \<Longrightarrow> lru_ok cap (snd (CheckPromptCache sha clock st a b s t c))"
  using lru_ok_part [of cap c sha "clock 0" "clock 1" "''sys:''" s a]
    lru_ok_part [of cap c sha "clock 0" "clock 1" "''tools:''" t b]
  by (auto simp: CheckPromptCache_def lru_ok_split lru_ok_check split: prod.splits)

lemma lru_ok_step: "lru_ok cap c \<Longrightarrow> lru_ok cap (cache_step sha s c)"
proof -
  assume ok: "lru_ok cap c"
  obtain clock op where s: "s = (clock, op)" by force
  show ?thesis unfolding s
  proof (cases op)
    case (OpGet k)
    then show "lru_ok cap (cache_step sha (clock, op) c)"
      using ok by (auto simp: cache_Get_def lru_ok_touch lru_ok_drop split: option.splits)
  next
    case (OpSetTTL d)
    then show "lru_ok cap (cache_step sha (clock, op) c)"
      using ok lru_ok_empty [of cap "c\<lparr>lc_ttl := t\<rparr>" for t] by (auto simp: cache_SetTTL_def Let_def)
  qed (use ok in \<open>simp_all add: lru_ok_Put lru_ok_empty cache_Clear_def cache_GetStats_def Let_def
        lru_ok_prune lru_ok_prompt\<close>)
qed

lemma lru_ok_run: "lru_ok cap c \<Longrightarrow> lru_ok cap (cache_run sha ops c)"
  unfolding cache_run_def by (induction ops arbitrary: c) (simp_all add: lru_ok_step)

lemma lru_ok_new:
  "lru_ok (lc_maxEntries (NewMemoryCache ttl ms)) (NewMemoryCache ttl ms)"
  by (auto simp: lru_ok_def lru_inv_def NewMemoryCache_def sized_def split: list.splits)

section \<open>Properties\<close>

text \<open>
  Property C24. Whatever operations a token cache goes through (reads with their sampled updates and
  expiry, writes with eviction, prompt checks, pruning, a changed TTL), its byte total is the sum
  over its keys of the key length plus eight, and a configured cap is never exceeded.
\<close>

theorem token_cache_accounting:
  "lc_sizeBytes (cache_run sha ops (NewMemoryCache ttl ms))
      = (\<Sum>(k, i) \<leftarrow> lc_items (cache_run sha ops (NewMemoryCache ttl ms)). int (length k) + 8)
    \<and> distinct (map fst (lc_items (cache_run sha ops (NewMemoryCache ttl ms))))
    \<and> (case ms of [] \<Rightarrow> True | m # _ \<Rightarrow>
        m \<le> 0 \<or> int (length (lc_items (cache_run sha ops (NewMemoryCache ttl ms)))) \<le> m)"
proof -
  let ?c = "cache_run sha ops (NewMemoryCache ttl ms)"
  have ok: "lru_ok (lc_maxEntries (NewMemoryCache ttl ms)) ?c"
    by (rule lru_ok_run [OF lru_ok_new])
  have "item_total m = (\<Sum>(k, i) \<leftarrow> m. int (length k) + 8)" if "sized m" for m
    using that by (induction m) (auto simp: sized_def)
  with ok show ?thesis
    by (auto simp: lru_ok_def lru_inv_def NewMemoryCache_def split: list.splits if_splits)
qed

text \<open>
  A token count put at \<open>t0\<close> is read back at \<open>t\<close> until the TTL has passed and never
  after it (with no TTL, for ever); a hit keeps every entry, and an expired entry is removed by
  the read that finds it.
\<close>

theorem token_cache_read_back:
  assumes "lru_inv c" and "t0 + lc_ttl c \<noteq> 0" and "clock 0 \<le> clock 1"
  shows "fst (cache_Get clock k (cache_Put t0 k n c))
      = (if 0 < lc_ttl c \<and> t0 + lc_ttl c < clock 0 then (0, False) else (n, True))
    \<and> (cache_entry (snd (cache_Get clock k (cache_Put t0 k n c))) k = None
        \<longleftrightarrow> 0 < lc_ttl c \<and> t0 + lc_ttl c < clock 0)
    \<and> (k' \<noteq> k \<longrightarrow> cache_entry (snd (cache_Get clock k (cache_Put t0 k n c))) k'
        = cache_entry (cache_Put t0 k n c) k')"
proof -
  let ?i = "\<lparr>ci_tokens = n, ci_expiresAt = (if 0 < lc_ttl c then t0 + lc_ttl c else 0),
     ci_accessedAt = t0, ci_size = int (length k) + 8\<rparr>"
  have get: "gm_get (lc_items (cache_Put t0 k n c)) k = Some ?i"
    by (simp add: cache_Put_items gomap_simps)
  have expired: "0 < lc_ttl c \<and> item_expired t ?i \<longleftrightarrow> 0 < lc_ttl c \<and> t0 + lc_ttl c < t" for t
    using assms(2) by (auto simp: item_expired_def is_zero_def zero_time_def)
  have touch: "cache_entry (touch_sampled t k (cache_Put t0 k n c)) k \<noteq> None
    \<and> (k' \<noteq> k \<longrightarrow> cache_entry (touch_sampled t k (cache_Put t0 k n c)) k' = cache_entry (cache_Put t0 k n c) k')" for t
    by (simp add: cache_entry_def touch_sampled_def Let_def get gomap_simps)
  have drop: "cache_entry (drop_key k (cache_Put t0 k n c)) k = None
    \<and> (k' \<noteq> k \<longrightarrow> cache_entry (drop_key k (cache_Put t0 k n c)) k' = cache_entry (cache_Put t0 k n c) k')"
    by (simp add: cache_entry_def drop_key_items gomap_simps)
  show ?thesis
  proof (cases "0 < lc_ttl c \<and> t0 + lc_ttl c < clock 0")
    case True
    then have "0 < lc_ttl c \<and> t0 + lc_ttl c < clock 1" using assms(3) by auto
    then have "cache_Get clock k (cache_Put t0 k n c) = ((0, False), drop_key k (cache_Put t0 k n c))"
      using True unfolding cache_Get_def get option.case cache_Put_frame expired by simp
    with True drop show ?thesis by simp
  next
    case False
    then have "cache_Get clock k (cache_Put t0 k n c) = ((n, True), touch_sampled (clock 1) k (cache_Put t0 k n c))"
      unfolding cache_Get_def get option.case cache_Put_frame expired by simp
    then show ?thesis using False touch [of "clock 1"] by auto
  qed
qed

theorem token_cache_read_back_witness:
  "fst (cache_Get (\<lambda>n. 25 + int n) ''k'' (cache_Put 16 ''k'' 42 (NewMemoryCache 10 [2]))) = (42, True)"
proof -
  have "lru_inv (NewMemoryCache 10 [2])" using lru_ok_new [of 10 "[2]"] by (simp add: lru_ok_def)
  from token_cache_read_back [OF this, of 16 "\<lambda>n. 25 + int n" "''k''" 42 "''j''"] show ?thesis
    by (simp add: NewMemoryCache_def)
qed

text \<open>
  Eviction is least-recently-used and minimal: storing a new key in a full cache
  drops exactly one entry, and none that was accessed later than some other one; storing a key
  that is present, or one in a cache with room, drops nothing.
\<close>

theorem lru_eviction:
  assumes "lru_inv c"
  shows "if gm_get (lc_items c) k = None \<and> 0 < lc_maxEntries c \<and> lc_maxEntries c \<le> int (length (lc_items c))
    then \<exists>(v, i) \<in> set (lc_items c). v \<noteq> k
       \<and> (\<forall>(k', j) \<in> set (lc_items c). ci_accessedAt i \<le> ci_accessedAt j)
       \<and> (\<forall>k'. k' \<noteq> k \<longrightarrow> cache_entry (cache_Put now k n c) k' = (if k' = v then None else cache_entry c k'))
    else (\<forall>k'. k' \<noteq> k \<longrightarrow> cache_entry (cache_Put now k n c) k' = cache_entry c k')"
proof (cases "gm_get (lc_items c) k = None \<and> 0 < lc_maxEntries c \<and> lc_maxEntries c \<le> int (length (lc_items c))")
  case True
  then have ne: "lc_items c \<noteq> []" by auto
  then obtain v t where scan: "scan_flag ci_accessedAt (lc_items c) None = Some (v, t)"
    using scan_flag_None_iff [of ci_accessedAt "lc_items c"] by auto
  from scan_flag_oldest [OF scan ne] obtain i where
    i: "(v, i) \<in> set (lc_items c)" "t = ci_accessedAt i"
      "\<forall>(k', j) \<in> set (lc_items c). ci_accessedAt i \<le> ci_accessedAt j" by blast
  have "v \<noteq> k" using True i(1) by (auto simp: map_of_eq_None_iff rev_image_eqI)
  moreover have "lc_items (make_room k c) = gm_del v (lc_items c)"
    using True scan by (simp add: make_room_items evict_flag_def)
  then have "\<forall>k'. k' \<noteq> k \<longrightarrow> cache_entry (cache_Put now k n c) k' = (if k' = v then None else cache_entry c k')"
    by (simp add: cache_entry_def cache_Put_items gomap_simps)
  ultimately show ?thesis using True i by auto
next
  case False
  then have "lc_items (make_room k c) = lc_items c" by (auto simp: make_room_items)
  then have "\<forall>k'. k' \<noteq> k \<longrightarrow> cache_entry (cache_Put now k n c) k' = cache_entry c k'"
    by (simp add: cache_entry_def cache_Put_items gomap_simps)
  with False show ?thesis by auto
qed

theorem lru_eviction_witness:
  "\<exists>(v, i) \<in> set (lc_items (cache_Put 5 ''a'' 1 (NewMemoryCache 0 [1]))). v \<noteq> ''b''
     \<and> cache_entry (cache_Put 9 ''b'' 2 (cache_Put 5 ''a'' 1 (NewMemoryCache 0 [1]))) v = None"
proof -
  let ?c = "cache_Put 5 ''a'' 1 (NewMemoryCache 0 [1])"
  have inv: "lru_inv ?c" using lru_ok_new [of 0 "[1]"] by (intro lru_inv_Put) (simp add: lru_ok_def)
  have items: "lc_items ?c = [(''a'', \<lparr>ci_tokens = 1, ci_expiresAt = 0, ci_accessedAt = 5, ci_size = 9\<rparr>)]"
    "lc_maxEntries (NewMemoryCache 0 [1]) = 1"
    by (simp_all add: cache_Put_def NewMemoryCache_def make_room_def Let_def zero_time_def)
  from lru_eviction [OF inv, of "''b''" 9 2] show ?thesis by (auto simp: items split: if_splits)
qed

section \<open>Prompt accounting\<close>

lemma checkCache_total:
  "fst (fst (checkCache now later k n c)) + snd (fst (checkCache now later k n c)) = (if n \<le> 0 \<or> k = '''' then 0 else n)"
  by (auto simp: checkCache_def split: option.splits)

lemma check_part_total:
  assumes "p \<noteq> ''''" and "\<And>s. sha s \<noteq> ''''" and "0 \<le> n" and "t = '''' \<longrightarrow> n = 0"
  shows "fst (fst (check_part sha now later p t n c)) + snd (fst (check_part sha now later p t n c)) = n"
  using assms by (auto simp: check_part_def checkCache_total prompt_hash_def)

lemma check_split_total:
  assumes "\<And>s. sha s \<noteq> ''''" and "0 \<le> a" and "s = '''' \<longrightarrow> a = 0" and "0 \<le> b" and "t = '''' \<longrightarrow> b = 0"
  shows "fst (fst (check_split sha clock a b s t c)) + snd (fst (check_split sha clock a b s t c)) = a + b"
proof -
  obtain r cr c' where p: "check_part sha (clock 0) (clock 1) ''sys:'' s a c = ((r, cr), c')" by (metis prod.collapse)
  obtain r2 cr2 c2 where q: "check_part sha (clock 0) (clock 2) ''tools:'' t b c' = ((r2, cr2), c2)" by (metis prod.collapse)
  have "r + cr = a" using check_part_total [of "''sys:''" sha a s "clock 0" "clock 1" c] assms p by simp
  moreover have "r2 + cr2 = b" using check_part_total [of "''tools:''" sha b t "clock 0" "clock 2" c'] assms q by simp
  ultimately show ?thesis by (simp add: check_split_def p q del: One_nat_def)
qed

text \<open>
  No prompt token is lost or counted twice: under every strategy (also an unknown
  one), the tokens reported as read from the cache and those reported as created add up to the
  system and tool tokens, for a digest that is never empty and token counts that are zero for
  empty texts.
\<close>

theorem prompt_tokens_conserved:
  assumes "\<And>s. sha s \<noteq> ''''" and "0 \<le> a" and "s = '''' \<longrightarrow> a = 0" and "0 \<le> b" and "t = '''' \<longrightarrow> b = 0"
  shows "fst (fst (CheckPromptCache sha clock strategy a b s t c))
    + snd (fst (CheckPromptCache sha clock strategy a b s t c)) = a + b"
proof -
  note split = check_split_total [OF assms]
  have sys: "fst (fst (check_part sha now later ''sys:'' s a c)) + snd (fst (check_part sha now later ''sys:'' s a c)) = a" for now later
    by (rule check_part_total) (use assms in auto)
  have tools: "fst (fst (check_part sha now later ''tools:'' t b c)) + snd (fst (check_part sha now later ''tools:'' t b c)) = b" for now later
    by (rule check_part_total) (use assms in auto)
  consider "strategy = ''0''" | "strategy = ''2''" | "strategy = ''3''"
    | "strategy \<noteq> ''0''" "strategy \<noteq> ''2''" "strategy \<noteq> ''3''" by blast
  then show ?thesis
  proof cases
    case 1
    then show ?thesis using assms(1,2,4) by (simp add: CheckPromptCache_def checkCache_total prompt_hash_def)
  next
    case 2
    then show ?thesis using sys [of "clock 0" "clock 1"] by (simp add: CheckPromptCache_def case_prod_unfold Let_def)
  next
    case 3
    then show ?thesis using tools [of "clock 0" "clock 1"] by (simp add: CheckPromptCache_def case_prod_unfold Let_def)
  qed (use split in \<open>simp add: CheckPromptCache_def\<close>)
qed

theorem prompt_tokens_conserved_witness:
  "fst (fst (CheckPromptCache (\<lambda>s. ''#'' @ s) (\<lambda>_. 7) ''1'' 10 4 ''be brief'' ''[]'' (NewMemoryPromptCache 0 [])))
   + snd (fst (CheckPromptCache (\<lambda>s. ''#'' @ s) (\<lambda>_. 7) ''1'' 10 4 ''be brief'' ''[]'' (NewMemoryPromptCache 0 []))) = 14"
  using prompt_tokens_conserved [of "\<lambda>s. ''#'' @ s" 10 "''be brief''" 4 "''[]''"] by simp

text \<open>
  Token-cache keys: with the strategy \<open>split\<close> two requests hash the same bytes only if
  their texts are equal and their models agree up to surrounding blanks and letter case (for model
  names without NUL bytes); with every other strategy they do exactly when the texts are equal.
\<close>

theorem cache_key_separates:
  assumes "char_of (0 :: nat) \<notin> set (to_lower (trim_space m))" and "char_of (0 :: nat) \<notin> set (to_lower (trim_space m'))"
  shows "hashed_bytes strategy m t = hashed_bytes strategy m' t'
    \<longleftrightarrow> t = t' \<and> (normalizeStrategy strategy \<noteq> ''split'' \<or> equal_fold (trim_space m) (trim_space m'))"
  using split_at_first [OF assms, of t t'] by (auto simp: hashed_bytes_def equal_fold_def)

theorem cache_key_separates_witness:
  "hashed_bytes ''mixed'' ''gpt-5'' ''hi'' = hashed_bytes ''mixed'' ''glm'' ''hi''"
proof -
  have "trim_space ''gpt-5'' = ''gpt-5''" "trim_space ''glm'' = ''glm''" "trim_space ''mixed'' = ''mixed''"
    by (rule trim_space_id; simp add: printable_def)+
  moreover have "char_of (0 :: nat) \<notin> set (to_lower ''gpt-5'')" "char_of (0 :: nat) \<notin> set (to_lower ''glm'')"
    "to_lower ''mixed'' = ''mixed''"
    by code_simp+
  ultimately show ?thesis using cache_key_separates [of "''gpt-5''" "''glm''" "''mixed''" "''hi''" "''hi''"]
    by (simp add: normalizeStrategy_def)
qed

end
