(* ===== verification/Rate_Limit.thy ===== *)
theory Rate_Limit
  imports Go_Prelude Go_Float
begin

text \<open>
  The login rate limiter of \<open>internal/middleware/ratelimit.go\<close>: a token bucket per IP in 64-bit
  floating point, with lazy refill. Each request takes effect in one locked step on its entry, so a
  run is a list of such steps. The window is taken to be at least a nanosecond: with a window of
  zero Go divides by zero and the bucket fills with infinities, which rationals do not show.
\<close>

record limiter_entry =
  le_tokens :: rat
  le_lastVisit :: instant

record rate_limiter =
  rl_entries :: "(string, limiter_entry) gomap"
  rl_maxAttempts :: int
  rl_window :: duration

definition NewRateLimiter :: "int \<Rightarrow> duration \<Rightarrow> rate_limiter" where
  "NewRateLimiter maxAttempts window = \<lparr>rl_entries = [], rl_maxAttempts = maxAttempts, rl_window = window\<rparr>"

text \<open>\<open>Duration.Seconds\<close> of the standard library: whole seconds plus the rest over \<open>1e9\<close>.\<close>

definition pos_seconds :: "duration \<Rightarrow> rat" where
  "pos_seconds d = f_add (f_of_int (d div second)) (f_div (f_of_int (d mod second)) (f_of_int 1000000000))"

definition seconds_of :: "duration \<Rightarrow> rat" where
  "seconds_of d = (if d < 0 then - pos_seconds (- d) else pos_seconds d)"

definition processExistingEntry :: "instant \<Rightarrow> rate_limiter \<Rightarrow> limiter_entry \<Rightarrow> bool \<times> limiter_entry" where
  "processExistingEntry now rl e =
    (let elapsed = t_sub now (le_lastVisit e);
         ratePerSec = f_div (f_of_int (rl_maxAttempts rl)) (seconds_of (rl_window rl));
         tokens = f_add (le_tokens e) (f_mul (seconds_of elapsed) ratePerSec);
         tokens = (if f_of_int (rl_maxAttempts rl) < tokens then f_of_int (rl_maxAttempts rl) else tokens)
     in if 1 \<le> tokens then (True, \<lparr>le_tokens = f_sub tokens 1, le_lastVisit = now\<rparr>)
        else (False, \<lparr>le_tokens = tokens, le_lastVisit = now\<rparr>))"

definition Allow :: "instant \<Rightarrow> string \<Rightarrow> rate_limiter \<Rightarrow> bool \<times> rate_limiter" where
  "Allow now ip rl = (case gm_get (rl_entries rl) ip of
     Some entry \<Rightarrow> (let (ok, e) = processExistingEntry now rl entry
                     in (ok, rl\<lparr>rl_entries := gm_put ip e (rl_entries rl)\<rparr>))
   | None \<Rightarrow> (True, rl\<lparr>rl_entries := gm_put ip
        \<lparr>le_tokens = f_of_int (rl_maxAttempts rl - 1), le_lastVisit = now\<rparr> (rl_entries rl)\<rparr>))"

definition limiter_cleanup :: "instant \<Rightarrow> rate_limiter \<Rightarrow> rate_limiter" where
  "limiter_cleanup now rl = rl\<lparr>rl_entries :=
     filter (\<lambda>(k, e). \<not> wrap64 (rl_window rl * 2) < t_sub now (le_lastVisit e)) (rl_entries rl)\<rparr>"

section \<open>The client address\<close>

text \<open>\<open>net.SplitHostPort\<close> of the standard library, the host only; \<open>None\<close> is an error.\<close>

definition last_index_byte :: "string \<Rightarrow> char \<Rightarrow> nat option" where
  "last_index_byte s c = map_option (\<lambda>i. length s - 1 - i) (index_byte (rev s) c)"

definition split_host :: "string \<Rightarrow> string option" where
  "split_host hp = (case last_index_byte hp (CHR '':'') of None \<Rightarrow> None
     | Some i \<Rightarrow>
       if hp ! 0 = CHR ''['' then
         (case index_byte hp (CHR '']'') of None \<Rightarrow> None
          | Some e \<Rightarrow> if e + 1 \<noteq> i then None
              else if CHR ''['' \<in> set (drop 1 hp) \<or> CHR '']'' \<in> set (drop (e + 1) hp) then None
              else Some (drop 1 (take e hp)))
       else if CHR '':'' \<in> set (take i hp) \<or> CHR ''['' \<in> set hp \<or> CHR '']'' \<in> set hp then None
       else Some (take i hp))"

definition ExtractIP :: "string \<Rightarrow> string \<Rightarrow> string \<Rightarrow> string" where
  "ExtractIP remoteAddr xForwardedFor xRealIP =
    (let xff = trim_space xForwardedFor;
         xff = (if xff = '''' then '''' else case index_byte xff (CHR '','') of
                  Some idx \<Rightarrow> trim_space (take idx xff) | None \<Rightarrow> xff)
     in if xff \<noteq> '''' then xff
        else if trim_space xRealIP \<noteq> '''' then trim_space xRealIP
        else case split_host remoteAddr of None \<Rightarrow> remoteAddr | Some host \<Rightarrow> host)"

section \<open>Seconds\<close>

lemma fl_of_int_mono: "a \<le> b \<Longrightarrow> f_of_int a \<le> f_of_int b"
  by (simp add: f_of_int_def fl_mono)

lemma f_of_int_exact: "\<bar>n\<bar> < 2 ^ 53 \<Longrightarrow> f_of_int n = of_int n"
  by (simp add: f_of_int_def fl_int)

lemma pos_seconds_mono:
  assumes "0 \<le> a" and "a \<le> b" and "b \<le> max_duration"
  shows "pos_seconds a \<le> pos_seconds b"
proof -
  have range: "\<bar>x div second\<bar> < 2 ^ 53" "\<bar>x div second + 1\<bar> < 2 ^ 53" if "0 \<le> x" "x \<le> max_duration" for x
    using that by (simp_all add: second_def max_duration_def)
  have frac: "0 \<le> f_div (f_of_int (x mod second)) (f_of_int 1000000000)
    \<and> f_div (f_of_int (x mod second)) (f_of_int 1000000000) \<le> 1" for x
  proof -
    have "0 \<le> x mod second" "x mod second < 1000000000" by (simp_all add: second_def)
    then have "f_of_int (x mod second) = of_int (x mod second)" by (intro f_of_int_exact) auto
    moreover have "f_of_int 1000000000 = 1000000000" using f_of_int_exact [of 1000000000] by simp
    moreover have "of_int (x mod second) / 1000000000 \<le> (1 :: rat)" "0 \<le> of_int (x mod second) / (1000000000 :: rat)"
      using \<open>0 \<le> x mod second\<close> \<open>x mod second < 1000000000\<close> by simp_all
    ultimately show ?thesis
      using fl_mono [of "of_int (x mod second) / 1000000000" 1] fl_nonneg fl_int [of 1]
      by (simp add: f_div_def)
  qed
  show ?thesis
  proof (cases "a div second = b div second")
    case True
    have "b div second * second + a mod second = a" "b div second * second + b mod second = b"
      using div_mult_mod_eq [of a second] div_mult_mod_eq [of b second] unfolding True by blast+
    then have "a mod second \<le> b mod second" using assms(2) by linarith
    then have "f_div (f_of_int (a mod second)) (f_of_int 1000000000) \<le> f_div (f_of_int (b mod second)) (f_of_int 1000000000)"
      unfolding f_div_def using f_of_int_exact [of 1000000000]
      by (intro fl_mono divide_right_mono fl_of_int_mono) auto
    then show ?thesis unfolding pos_seconds_def f_add_def True by (intro fl_mono) simp
  next
    case False
    then have lt: "a div second + 1 \<le> b div second"
      using zdiv_mono1 [OF assms(2), of second] by (simp add: second_def)
    have "pos_seconds a \<le> fl (of_int (a div second + 1))"
      unfolding pos_seconds_def f_add_def using frac [of a] f_of_int_exact [OF range(1) [of a]] assms
      by (intro fl_mono) simp
    also have "\<dots> = of_int (a div second + 1)" using range(2) [of a] assms by (intro fl_int) auto
    also have "\<dots> \<le> of_int (b div second)" using lt by linarith
    also have "\<dots> = fl (of_int (b div second))" using range(1) [of b] assms by (intro fl_int [symmetric]) auto
    also have "\<dots> \<le> pos_seconds b"
      unfolding pos_seconds_def f_add_def using frac [of b] f_of_int_exact [OF range(1) [of b]] assms
      by (intro fl_mono) simp
    finally show ?thesis .
  qed
qed

lemma seconds_of_0 [simp]: "seconds_of 0 = 0"
  by (simp add: seconds_of_def pos_seconds_def f_add_def f_div_def f_of_int_def)

lemma pos_seconds_pos:
  assumes "0 < d" and "d \<le> max_duration"
  shows "0 < pos_seconds d"
proof -
  have "0 < pos_seconds 1"
    using fl_pos [of 1] by (simp add: pos_seconds_def second_def f_add_def f_div_def f_of_int_def fl_pos)
  also have "\<dots> \<le> pos_seconds d" using assms by (intro pos_seconds_mono) auto
  finally show ?thesis .
qed

section \<open>One entry\<close>

lemma process_bound:
  assumes "1 \<le> rl_maxAttempts rl" and "rl_maxAttempts rl < 2 ^ 53"
    and "processExistingEntry now rl e = (ok, e')"
  shows "le_lastVisit e' = now" and "le_tokens e' \<le> of_int (rl_maxAttempts rl - (if ok then 1 else 0))"
    and "le_lastVisit e = now \<Longrightarrow> le_tokens e \<le> of_int n \<Longrightarrow> n \<le> rl_maxAttempts rl \<Longrightarrow> 0 \<le> n
      \<Longrightarrow> le_tokens e' \<le> of_int (n - (if ok then 1 else 0)) \<and> (ok \<longrightarrow> 1 \<le> n)"
proof -
  have max: "f_of_int (rl_maxAttempts rl) = of_int (rl_maxAttempts rl)"
    using assms(1,2) by (intro f_of_int_exact) auto
  define t where "t = f_add (le_tokens e) (f_mul (seconds_of (t_sub now (le_lastVisit e)))
      (f_div (of_int (rl_maxAttempts rl)) (seconds_of (rl_window rl))))"
  define t' where "t' = (if of_int (rl_maxAttempts rl) < t then of_int (rl_maxAttempts rl) else t)"
  have res: "ok = (1 \<le> t')" "e' = \<lparr>le_tokens = (if 1 \<le> t' then f_sub t' 1 else t'), le_lastVisit = now\<rparr>"
    using assms(3) unfolding processExistingEntry_def Let_def max t_def [symmetric] t'_def [symmetric]
    by (auto split: if_splits)
  have sub: "f_sub x 1 \<le> of_int (n - 1)" if "x \<le> of_int n" "1 \<le> n" "n < 2 ^ 53" for x n
  proof -
    have "f_sub x 1 \<le> fl (of_int (n - 1))" unfolding f_sub_def using that by (intro fl_mono) simp
    also have "\<dots> = of_int (n - 1)" using that by (intro fl_int) auto
    finally show ?thesis .
  qed
  show "le_lastVisit e' = now" using res by simp
  have "t' \<le> of_int (rl_maxAttempts rl)" by (simp add: t'_def)
  then show "le_tokens e' \<le> of_int (rl_maxAttempts rl - (if ok then 1 else 0))"
    using res sub [of t' "rl_maxAttempts rl"] assms(1,2) by simp
  assume now: "le_lastVisit e = now" and n: "le_tokens e \<le> of_int n" "n \<le> rl_maxAttempts rl" "0 \<le> n"
  have "t = fl (le_tokens e)"
    unfolding t_def now by (simp add: t_sub_def max_duration_def min_duration_def f_mul_def f_add_def)
  also have "\<dots> \<le> fl (of_int n)" using n(1) by (rule fl_mono)
  also have "\<dots> = of_int n" using n(2,3) assms(2) by (intro fl_int) auto
  finally have t': "t' \<le> of_int n" using n(2) by (auto simp: t'_def)
  moreover have "1 \<le> n" if "1 \<le> t'" using t' that of_int_le_iff [of 1 n, where 'a = rat] by simp
  ultimately show "le_tokens e' \<le> of_int (n - (if ok then 1 else 0)) \<and> (ok \<longrightarrow> 1 \<le> n)"
    using res sub [of t' n] n assms(2) by simp
qed

section \<open>Bursts\<close>

text \<open>How many requests of \<open>ip\<close> a run admits.\<close>

fun admitted :: "string \<Rightarrow> (instant \<times> string) list \<Rightarrow> rate_limiter \<Rightarrow> nat" where
  "admitted ip [] rl = 0"
| "admitted ip ((now, i) # reqs) rl = (case Allow now i rl of (ok, rl') \<Rightarrow>
     (if ok \<and> i = ip then 1 else 0) + admitted ip reqs rl')"

lemma Allow_frame:
  assumes "Allow now i rl = (ok, rl')"
  shows "rl_maxAttempts rl' = rl_maxAttempts rl" and "rl_window rl' = rl_window rl"
    and "ip \<noteq> i \<Longrightarrow> gm_get (rl_entries rl') ip = gm_get (rl_entries rl) ip"
  using assms by (auto simp: Allow_def gomap_simps split: option.splits prod.splits)

lemma burst_present:
  assumes "\<forall>(t, i) \<in> set reqs. t = now" and "1 \<le> rl_maxAttempts rl" and "rl_maxAttempts rl < 2 ^ 53"
    and "gm_get (rl_entries rl) ip = Some e" and "le_lastVisit e = now" and "le_tokens e \<le> of_int n"
    and "n \<le> rl_maxAttempts rl" and "0 \<le> n"
  shows "int (admitted ip reqs rl) \<le> n"
  using assms
proof (induction reqs arbitrary: rl e n)
  case (Cons req reqs)
  obtain i where req: "req = (now, i)" using Cons.prems(1) by (cases req) auto
  obtain ok rl' where allow: "Allow now i rl = (ok, rl')" by force
  have same: "\<forall>(t, i) \<in> set reqs. t = now" using Cons.prems(1) by simp
  show ?case
  proof (cases "i = ip")
    case False
    then have "gm_get (rl_entries rl') ip = Some e"
      using Allow_frame(3) [OF allow, of ip] Cons.prems(4) by simp
    from Cons.IH [OF same _ _ this] Cons.prems show ?thesis
      using False req by (simp add: allow Allow_frame(1) [OF allow])
  next
    case True
    obtain ok' e' where p: "processExistingEntry now rl e = (ok', e')" by force
    with allow True Cons.prems(4) have r: "ok = ok'" "gm_get (rl_entries rl') ip = Some e'"
      by (auto simp: Allow_def gomap_simps simp del: map_of_eq_Some_iff)
    note b = process_bound [OF Cons.prems(2,3) p]
    from b(3) [of n] Cons.prems have n': "le_tokens e' \<le> of_int (n - (if ok' then 1 else 0))" "ok' \<longrightarrow> 1 \<le> n"
      by auto
    have "int (admitted ip reqs rl') \<le> n - (if ok' then 1 else 0)"
      by (rule Cons.IH [OF same _ _ r(2) b(1) n'(1)]) (use Cons.prems n'(2) in \<open>auto simp: Allow_frame(1) [OF allow]\<close>)
    then show ?thesis using req True r(1) allow by (simp split: if_splits)
  qed
qed simp

text \<open>
  No burst passes: whatever the history of the limiter, and however the requests of
  other addresses interleave, the requests of one IP that arrive at one instant are admitted at
  most \<open>maxAttempts\<close> times, floating-point rounding included.
\<close>

theorem burst_bounded:
  assumes "1 \<le> rl_maxAttempts rl" and "rl_maxAttempts rl < 2 ^ 53" and "\<forall>(t, i) \<in> set reqs. t = now"
  shows "int (admitted ip reqs rl) \<le> rl_maxAttempts rl"
  using assms
proof (induction reqs arbitrary: rl)
  case (Cons req reqs)
  obtain i where req: "req = (now, i)" using Cons.prems(3) by (cases req) auto
  obtain ok rl' where allow: "Allow now i rl = (ok, rl')" by force
  have same: "\<forall>(t, i) \<in> set reqs. t = now" using Cons.prems(3) by simp
  note frame = Allow_frame [OF allow]
  show ?case
  proof (cases "i = ip")
    case False
    then show ?thesis using Cons.IH [of rl'] Cons.prems req same by (simp add: allow frame)
  next
    case True
    have "\<exists>e'. gm_get (rl_entries rl') ip = Some e' \<and> le_lastVisit e' = now
        \<and> le_tokens e' \<le> of_int (rl_maxAttempts rl - (if ok then 1 else 0))"
    proof (cases "gm_get (rl_entries rl) ip")
      case None
      have "\<bar>rl_maxAttempts rl - 1\<bar> < 2 ^ 53" using Cons.prems(1,2) by simp
      with None allow True show ?thesis by (auto simp: Allow_def gomap_simps f_of_int_exact)
    next
      case (Some e)
      obtain ok' e' where p: "processExistingEntry now rl e = (ok', e')" by force
      from process_bound(1,2) [OF Cons.prems(1,2) p] allow True Some p show ?thesis
        by (auto simp: Allow_def gomap_simps simp del: map_of_eq_Some_iff)
    qed
    then obtain e' where e': "gm_get (rl_entries rl') ip = Some e'" "le_lastVisit e' = now"
      "le_tokens e' \<le> of_int (rl_maxAttempts rl - (if ok then 1 else 0))" by blast
    have "int (admitted ip reqs rl') \<le> rl_maxAttempts rl - (if ok then 1 else 0)"
      by (rule burst_present [OF same _ _ e']) (use Cons.prems in \<open>auto simp: frame\<close>)
    then show ?thesis using req True allow by (simp split: if_splits)
  qed
qed simp

theorem burst_bounded_witness:
  "admitted ''10.0.0.1'' (replicate 9 (7, ''10.0.0.1'')) (NewRateLimiter 5 (15 * minute)) \<le> 5"
  using burst_bounded [of "NewRateLimiter 5 (15 * minute)" "replicate 9 (7, ''10.0.0.1'')" 7 "''10.0.0.1''"]
  by (simp add: NewRateLimiter_def)

section \<open>Refill\<close>

lemma unit_roundoff_square: "1 \<le> 2 * ((1 - unit_roundoff) * (1 - unit_roundoff))"
  by (simp add: unit_roundoff_def field_simps)

lemma refill_full:
  assumes "0 < w" and "w \<le> e" and "2 \<le> m"
  shows "1 \<le> f_mul e (f_div m w)"
proof -
  have u: "0 \<le> 1 - unit_roundoff" by (simp add: unit_roundoff_def)
  have "m / w * (1 - unit_roundoff) \<le> f_div m w"
    unfolding f_div_def using assms by (intro fl_error(1)) simp
  moreover have "m / e \<le> m / w" using assms by (intro divide_left_mono) auto
  ultimately have r: "m / e * (1 - unit_roundoff) \<le> f_div m w"
    using u by (meson mult_right_mono order_trans)
  have e: "0 < e" using assms by simp
  have "1 \<le> m * ((1 - unit_roundoff) * (1 - unit_roundoff))"
    using unit_roundoff_square mult_right_mono [OF assms(3), of "(1 - unit_roundoff) * (1 - unit_roundoff)"] u
    by simp
  also have "\<dots> = e * (m / e * (1 - unit_roundoff)) * (1 - unit_roundoff)" using e by simp
  also have "\<dots> \<le> e * f_div m w * (1 - unit_roundoff)"
    using r e u by (intro mult_right_mono mult_left_mono) auto
  also have "\<dots> \<le> f_mul e (f_div m w)"
  proof -
    have "0 \<le> m / e * (1 - unit_roundoff)" using assms(3) e u by simp
    then have "0 \<le> e * f_div m w" using r e by (intro mult_nonneg_nonneg) auto
    then show ?thesis unfolding f_mul_def by (rule fl_error(1))
  qed
  finally show ?thesis .
qed

text \<open>
  No lock-out: an address that stays quiet for a whole window is admitted again, for
  every configuration that allows at least two attempts, floating-point rounding included.
\<close>

theorem quiet_window_readmits:
  assumes "2 \<le> rl_maxAttempts rl" and "rl_maxAttempts rl < 2 ^ 53"
    and "0 < rl_window rl" and "rl_window rl \<le> max_duration"
    and "gm_get (rl_entries rl) ip = Some e" and "0 \<le> le_tokens e"
    and "le_lastVisit e + rl_window rl \<le> now"
  shows "fst (Allow now ip rl)"
proof -
  let ?d = "t_sub now (le_lastVisit e)"
  have max: "f_of_int (rl_maxAttempts rl) = of_int (rl_maxAttempts rl)"
    using assms(1,2) by (intro f_of_int_exact) auto
  have d: "rl_window rl \<le> ?d" "?d \<le> max_duration"
    using assms(3,4,7) by (auto simp: t_sub_def max_duration_def min_duration_def)
  have "0 < pos_seconds (rl_window rl)" "pos_seconds (rl_window rl) \<le> pos_seconds ?d"
    using assms(3,4) d by (auto intro: pos_seconds_pos pos_seconds_mono)
  then have "0 < seconds_of (rl_window rl)" "seconds_of (rl_window rl) \<le> seconds_of ?d"
    using assms(3) d by (auto simp: seconds_of_def)
  moreover have "(2 :: rat) \<le> of_int (rl_maxAttempts rl)" using assms(1) by simp
  ultimately have "1 \<le> f_mul (seconds_of ?d) (f_div (of_int (rl_maxAttempts rl)) (seconds_of (rl_window rl)))"
    by (rule refill_full)
  then have "fl (of_int 1) \<le> f_add (le_tokens e) (f_mul (seconds_of ?d)
      (f_div (of_int (rl_maxAttempts rl)) (seconds_of (rl_window rl))))"
    unfolding f_add_def using assms(6) by (intro fl_mono) simp
  then have "1 \<le> f_add (le_tokens e) (f_mul (seconds_of ?d)
      (f_div (of_int (rl_maxAttempts rl)) (seconds_of (rl_window rl))))"
    using fl_int [of 1] by simp
  moreover have "(1 :: rat) \<le> of_int (rl_maxAttempts rl)" using assms(1) by simp
  ultimately have "fst (processExistingEntry now rl e)"
    unfolding processExistingEntry_def Let_def max by auto
  then show ?thesis using assms(5) by (auto simp: Allow_def split: prod.splits)
qed

theorem quiet_window_readmits_witness:
  "fst (Allow (15 * minute + 3) ''10.0.0.1'' ((NewRateLimiter 5 (15 * minute))
     \<lparr>rl_entries := [(''10.0.0.1'', \<lparr>le_tokens = 0, le_lastVisit = 3\<rparr>)]\<rparr>))"
  by (rule quiet_window_readmits [where e = "\<lparr>le_tokens = 0, le_lastVisit = 3\<rparr>"])
    (simp_all add: NewRateLimiter_def duration_units max_duration_def)

end
