(* ===== verification/Concurrency_Limit.thy ===== *)
theory Concurrency_Limit
  imports Go_Prelude Go_Float
begin

text \<open>
  The concurrency limiter of \<open>internal/middleware/concurrency.go\<close>: a state machine of any number of
  requests around a weighted semaphore, the adaptive wait time, and the latency percentile that
  feeds it. The semaphore is a third-party package: what is used of it is that it hands out a
  permit only while fewer than its size are out. A handler that panics still runs the deferred
  release, so it takes the same steps.
\<close>

section \<open>The state machine of requests\<close>

datatype request_pc = Idle | Waiting | Acquired | Serving | Releasing | Served | TimedOut

record limiter_state =
  ls_permits :: int
  ls_activeCount :: int
  ls_totalReqs :: int
  ls_rejectedReqs :: int
  ls_pc :: "nat \<Rightarrow> request_pc"

definition move :: "nat \<Rightarrow> request_pc \<Rightarrow> limiter_state \<Rightarrow> limiter_state" where
  "move i p s = s\<lparr>ls_pc := (ls_pc s)(i := p)\<rparr>"

text \<open>The atomic steps of \<open>Limit\<close> in program order, for a semaphore of size \<open>n\<close>.\<close>

inductive limit_step :: "int \<Rightarrow> limiter_state \<Rightarrow> limiter_state \<Rightarrow> bool" for n where
  arrive: "ls_pc s i = Idle \<Longrightarrow> limit_step n s (move i Waiting (s\<lparr>ls_totalReqs := ls_totalReqs s + 1\<rparr>))"
| acquire: "ls_pc s i = Waiting \<Longrightarrow> ls_permits s < n \<Longrightarrow>
    limit_step n s (move i Acquired (s\<lparr>ls_permits := ls_permits s + 1\<rparr>))"
| reject: "ls_pc s i = Waiting \<Longrightarrow>
    limit_step n s (move i TimedOut (s\<lparr>ls_rejectedReqs := ls_rejectedReqs s + 1\<rparr>))"
| enter: "ls_pc s i = Acquired \<Longrightarrow>
    limit_step n s (move i Serving (s\<lparr>ls_activeCount := ls_activeCount s + 1\<rparr>))"
| release: "ls_pc s i = Serving \<Longrightarrow>
    limit_step n s (move i Releasing (s\<lparr>ls_permits := ls_permits s - 1\<rparr>))"
| leave: "ls_pc s i = Releasing \<Longrightarrow>
    limit_step n s (move i Served (s\<lparr>ls_activeCount := ls_activeCount s - 1\<rparr>))"

inductive_cases limit_stepE: "limit_step n s t"

definition limit_init :: limiter_state where
  "limit_init = \<lparr>ls_permits = 0, ls_activeCount = 0, ls_totalReqs = 0, ls_rejectedReqs = 0, ls_pc = (\<lambda>_. Idle)\<rparr>"

inductive limit_reachable :: "int \<Rightarrow> limiter_state \<Rightarrow> bool" for n where
  limit_start: "limit_reachable n limit_init"
| limit_more: "limit_reachable n s \<Longrightarrow> limit_step n s t \<Longrightarrow> limit_reachable n t"

text \<open>How many requests are at one of the places \<open>P\<close>.\<close>

definition at_pc :: "request_pc set \<Rightarrow> limiter_state \<Rightarrow> nat set" where
  "at_pc P s = {i. ls_pc s i \<in> P}"

definition limit_inv :: "int \<Rightarrow> limiter_state \<Rightarrow> bool" where
  "limit_inv n s \<longleftrightarrow> finite (at_pc (- {Idle}) s)
     \<and> ls_permits s = int (card (at_pc {Acquired, Serving} s)) \<and> ls_permits s \<le> n
     \<and> ls_activeCount s = int (card (at_pc {Serving, Releasing} s))
     \<and> ls_rejectedReqs s = int (card (at_pc {TimedOut} s))
     \<and> ls_totalReqs s = int (card (at_pc (- {Idle}) s))"

lemma at_pc_move:
  "at_pc P (move i p s) = (if p \<in> P then insert i (at_pc P s) else at_pc P s - {i})"
  by (auto simp: at_pc_def move_def)

lemma at_pc_frame [simp]:
  "at_pc P (s\<lparr>ls_totalReqs := a\<rparr>) = at_pc P s" "at_pc P (s\<lparr>ls_permits := a\<rparr>) = at_pc P s"
  "at_pc P (s\<lparr>ls_rejectedReqs := a\<rparr>) = at_pc P s" "at_pc P (s\<lparr>ls_activeCount := a\<rparr>) = at_pc P s"
  by (simp_all add: at_pc_def)

lemma move_frame [simp]:
  "ls_permits (move i p s) = ls_permits s" "ls_activeCount (move i p s) = ls_activeCount s"
  "ls_totalReqs (move i p s) = ls_totalReqs s" "ls_rejectedReqs (move i p s) = ls_rejectedReqs s"
  by (simp_all add: move_def)

lemma at_pc_finite: "finite (at_pc (- {Idle}) s) \<Longrightarrow> Idle \<notin> P \<Longrightarrow> finite (at_pc P s)"
  by (rule finite_subset [of "at_pc P s" "at_pc (- {Idle}) s"]) (auto simp: at_pc_def)

text \<open>The number of requests at \<open>P\<close> after one of them moved.\<close>

lemma card_move:
  assumes "finite (at_pc (- {Idle}) s)" and "Idle \<notin> P"
  shows "int (card (at_pc P (move i p s)))
    = int (card (at_pc P s)) + (if p \<in> P then 1 else 0) - (if ls_pc s i \<in> P then 1 else 0)"
proof -
  have fin: "finite (at_pc P s)" using assms by (rule at_pc_finite)
  have mem: "i \<in> at_pc P s \<longleftrightarrow> ls_pc s i \<in> P" by (simp add: at_pc_def)
  have "card (at_pc P s) = Suc (card (at_pc P s - {i}))" if "i \<in> at_pc P s"
    using card_Suc_Diff1 [OF fin that] by simp
  then show ?thesis using fin mem
    by (cases "p \<in> P"; cases "i \<in> at_pc P s") (simp_all only: at_pc_move insert_absorb if_True if_False
        card_insert_disjoint Diff_empty Diff_insert0 of_nat_Suc, simp_all)
qed

lemma limit_step_inv:
  assumes "limit_step n s t" and "limit_inv n s"
  shows "limit_inv n t"
proof -
  have fin: "finite (at_pc (- {Idle}) s)" using assms(2) by (simp add: limit_inv_def)
  have card: "int (card (at_pc P (move i p u)))
      = int (card (at_pc P s)) + (if p \<in> P then 1 else 0) - (if ls_pc s i \<in> P then 1 else 0)"
    if "Idle \<notin> P" "ls_pc u = ls_pc s" for P i p u
    using card_move [of u P i p] fin that by (simp add: at_pc_def)
  have move_fin: "finite (at_pc (- {Idle}) (move i p u))" if "ls_pc u = ls_pc s" for i p u
    by (rule finite_subset [of _ "insert i (at_pc (- {Idle}) s)"])
      (use fin that in \<open>auto simp: at_pc_def move_def\<close>)
  from assms(1) show ?thesis
    by (cases rule: limit_step.cases)
      (use assms(2) in \<open>simp_all add: limit_inv_def card move_fin\<close>)
qed

lemma limit_reachable_inv: "limit_reachable n s \<Longrightarrow> 0 \<le> n \<Longrightarrow> limit_inv n s"
proof (induction rule: limit_reachable.induct)
  case limit_start
  then show ?case by (simp add: limit_inv_def limit_init_def at_pc_def)
next
  case (limit_more s t)
  then show ?case by (blast intro: limit_step_inv)
qed

text \<open>
  Property C26. In every reachable state of the limiter at most \<open>n\<close> requests are inside the handler;
  the active count is the number of requests that entered it and have not finished leaving, never
  negative; every request that arrived is waiting, in service or counted as served or rejected;
  and when no request is in flight all permits are back and the active count is zero.
\<close>

theorem limiter_safe:
  assumes "limit_reachable n s" and "0 \<le> n"
  shows "int (card (at_pc {Serving} s)) \<le> n
    \<and> ls_activeCount s = int (card (at_pc {Serving} s)) + int (card (at_pc {Releasing} s))
    \<and> ls_totalReqs s = ls_rejectedReqs s + int (card (at_pc {Served} s))
        + int (card (at_pc {Waiting, Acquired, Serving, Releasing} s))
    \<and> (at_pc {Waiting, Acquired, Serving, Releasing} s = {} \<longrightarrow> ls_permits s = 0 \<and> ls_activeCount s = 0)"
proof -
  have inv: "limit_inv n s" by (rule limit_reachable_inv [OF assms])
  have fin: "finite (at_pc P s)" if "Idle \<notin> P" for P
    by (rule at_pc_finite [OF _ that]) (use inv in \<open>simp add: limit_inv_def\<close>)
  have sub: "card (at_pc {Serving} s) \<le> card (at_pc {Acquired, Serving} s)"
    by (rule card_mono [OF fin]) (auto simp: at_pc_def)
  have un: "card (at_pc (P \<union> Q) s) = card (at_pc P s) + card (at_pc Q s)"
    if "P \<inter> Q = {}" "Idle \<notin> P" "Idle \<notin> Q" for P Q
  proof -
    have "at_pc (P \<union> Q) s = at_pc P s \<union> at_pc Q s" by (auto simp: at_pc_def)
    moreover have "at_pc P s \<inter> at_pc Q s = {}" using that(1) by (auto simp: at_pc_def)
    ultimately show ?thesis using that by (simp add: card_Un_disjoint fin)
  qed
  have active: "card (at_pc {Serving, Releasing} s) = card (at_pc {Serving} s) + card (at_pc {Releasing} s)"
    using un [of "{Serving}" "{Releasing}"] by (simp add: insert_commute)
  let ?W = "{Waiting, Acquired, Serving, Releasing}"
  have compl: "- {Idle} = {TimedOut} \<union> ({Served} \<union> ?W)"
    using request_pc.exhaust by auto
  have "card (at_pc ({TimedOut} \<union> ({Served} \<union> ?W)) s) = card (at_pc {TimedOut} s) + card (at_pc ({Served} \<union> ?W) s)"
    by (rule un) auto
  moreover have "card (at_pc ({Served} \<union> ?W) s) = card (at_pc {Served} s) + card (at_pc ?W s)"
    by (rule un) auto
  ultimately have total: "card (at_pc (- {Idle}) s) = card (at_pc {TimedOut} s) + (card (at_pc {Served} s) + card (at_pc ?W s))"
    unfolding compl by linarith
  have empty: "at_pc {Acquired, Serving} s = {} \<and> at_pc {Serving, Releasing} s = {}"
    if "at_pc {Waiting, Acquired, Serving, Releasing} s = {}"
    using that by (auto simp: at_pc_def)
  show ?thesis using inv sub active total empty by (auto simp: limit_inv_def)
qed

theorem limiter_safe_witness:
  "\<exists>s. limit_reachable 1 s \<and> at_pc {Serving} s = {0} \<and> int (card (at_pc {Serving} s)) \<le> 1"
proof -
  let ?s1 = "move 0 Waiting (limit_init\<lparr>ls_totalReqs := ls_totalReqs limit_init + 1\<rparr>)"
  let ?s2 = "move 0 Acquired (?s1\<lparr>ls_permits := ls_permits ?s1 + 1\<rparr>)"
  let ?s3 = "move 0 Serving (?s2\<lparr>ls_activeCount := ls_activeCount ?s2 + 1\<rparr>)"
  have "limit_step 1 limit_init ?s1" by (rule arrive) (simp add: limit_init_def)
  moreover have "limit_step 1 ?s1 ?s2" by (rule acquire) (simp_all add: limit_init_def move_def)
  moreover have "limit_step 1 ?s2 ?s3" by (rule enter) (simp add: move_def)
  ultimately have r: "limit_reachable 1 ?s3" by (blast intro: limit_start limit_more)
  moreover have "at_pc {Serving} ?s3 = {0}" by (auto simp: at_pc_def move_def limit_init_def)
  ultimately show ?thesis using limiter_safe [OF r] by (intro exI [of _ ?s3]) simp
qed

section \<open>The limiter's parameters and the wait time\<close>

record concurrency_limiter =
  cl_maxConcurrent :: int
  cl_timeout :: duration
  cl_adaptive :: bool
  cl_cachedP95 :: int
  cl_latencyWindow :: "int list"
  cl_windowIdx :: nat
  cl_windowSize :: nat
  cl_lastP95Update :: instant

definition NewConcurrencyLimiter :: "int \<Rightarrow> duration \<Rightarrow> bool \<Rightarrow> concurrency_limiter" where
  "NewConcurrencyLimiter maxConcurrent timeout adaptive =
    \<lparr>cl_maxConcurrent = (if maxConcurrent \<le> 0 then 100 else maxConcurrent),
     cl_timeout = (if timeout \<le> 0 then 120 * second else timeout),
     cl_adaptive = adaptive, cl_cachedP95 = 0, cl_latencyWindow = replicate 100 0,
     cl_windowIdx = 0, cl_windowSize = 100, cl_lastP95Update = zero_time\<rparr>"

definition wait_timeout :: "concurrency_limiter \<Rightarrow> duration" where
  "wait_timeout cl =
    (let waitTimeout =
       (if cl_adaptive cl \<and> 0 < cl_cachedP95 cl then
          (let calcWait = wrap64 (wrap64 (f_to_int (f_mul (f_of_int (cl_cachedP95 cl)) (3 / 2))) * millisecond)
           in if calcWait < 5 * second then 5 * second
              else if 60 * second < calcWait then 60 * second else calcWait)
        else 60 * second)
     in if cl_timeout cl < waitTimeout then cl_timeout cl else waitTimeout)"

text \<open>\<open>Duration.Milliseconds\<close> truncates.\<close>

definition milliseconds_of :: "duration \<Rightarrow> int" where
  "milliseconds_of d = (if d < 0 then - ((- d) div millisecond) else d div millisecond)"

definition recalcP95 :: "instant \<Rightarrow> concurrency_limiter \<Rightarrow> concurrency_limiter" where
  "recalcP95 now cl =
    (if t_sub now (cl_lastP95Update cl) \<le> second then cl
     else let cl = cl\<lparr>cl_lastP95Update := now\<rparr>;
              localWindow = take (cl_windowSize cl) (cl_latencyWindow cl);
              valid = filter (\<lambda>v. 0 < v) localWindow
          in if length valid < 10 then cl
             else let valid = sort valid;
                      idx = nat (f_to_int (f_mul (f_of_int (int (length valid))) (fl (95 / 100))));
                      idx = (if length valid \<le> idx then length valid - 1 else idx)
                  in cl\<lparr>cl_cachedP95 := valid ! idx\<rparr>)"

definition UpdateStats :: "instant \<Rightarrow> instant \<Rightarrow> duration \<Rightarrow> concurrency_limiter \<Rightarrow> concurrency_limiter" where
  "UpdateStats now later d cl =
    (let cl = cl\<lparr>cl_latencyWindow := (cl_latencyWindow cl)[cl_windowIdx cl := milliseconds_of d],
                 cl_windowIdx := (cl_windowIdx cl + 1) mod cl_windowSize cl\<rparr>
     in if second < t_sub now (cl_lastP95Update cl) then recalcP95 later cl else cl)"

text \<open>
  A request never waits for a permit longer than the configured timeout or a minute;
  with a positive timeout it waits for a positive time, and under the adaptive rule at least five
  seconds unless the timeout itself is shorter, whatever the cached percentile (values for which
  the 64-bit arithmetic wraps included).
\<close>

theorem wait_bounded:
  assumes "0 < timeout"
  shows "wait_timeout ((NewConcurrencyLimiter m timeout ad)\<lparr>cl_cachedP95 := p\<rparr>) \<le> min timeout (60 * second)
    \<and> min timeout (5 * second) \<le> wait_timeout ((NewConcurrencyLimiter m timeout ad)\<lparr>cl_cachedP95 := p\<rparr>)"
  using assms by (simp add: wait_timeout_def NewConcurrencyLimiter_def Let_def second_def)

theorem wait_bounded_witness:
  "wait_timeout ((NewConcurrencyLimiter 0 (3 * second) True)\<lparr>cl_cachedP95 := 2 ^ 62\<rparr>) = 3 * second"
  using wait_bounded [where timeout = "3 * second" and m = 0 and ad = True and p = "2 ^ 62"] by (simp add: second_def)

section \<open>The percentile\<close>

lemma percentile_index:
  assumes "10 \<le> n" and "n \<le> 2 ^ 20"
  shows "0 \<le> f_to_int (f_mul (f_of_int (int n)) (fl (95 / 100)))"
    and "19 * int n \<le> 20 * (f_to_int (f_mul (f_of_int (int n)) (fl (95 / 100))) + 1)"
    and "f_to_int (f_mul (f_of_int (int n)) (fl (95 / 100))) < int n"
proof -
  let ?x = "f_mul (f_of_int (int n)) (fl (95 / 100))"
  have n: "f_of_int (int n) = of_nat n"
    using fl_int [of "int n"] assms(2) by (simp add: f_of_int_def)
  have N: "(10 :: rat) \<le> of_nat n" "of_nat n \<le> (2 ^ 20 :: rat)"
    using assms by (metis of_nat_le_iff of_nat_numeral, metis of_nat_le_iff of_nat_numeral of_nat_power)
  have c: "95 / 100 * (1 - unit_roundoff) \<le> fl (95 / 100)" "fl (95 / 100) \<le> 95 / 100 * (1 + unit_roundoff)"
    using fl_error [of "95 / 100"] by simp_all
  have c0: "0 \<le> fl (95 / 100)" by (rule fl_nonneg) simp
  have "of_nat n * fl (95 / 100) * (1 - unit_roundoff) \<le> ?x" "?x \<le> of_nat n * fl (95 / 100) * (1 + unit_roundoff)"
    unfolding f_mul_def n using fl_error [of "of_nat n * fl (95 / 100)"] c0 by simp_all
  moreover have "of_nat n * (95 / 100 * (1 - unit_roundoff)) * (1 - unit_roundoff) \<le> of_nat n * fl (95 / 100) * (1 - unit_roundoff)"
    using c(1) by (intro mult_right_mono mult_left_mono) (auto simp: unit_roundoff_def)
  moreover have "of_nat n * fl (95 / 100) * (1 + unit_roundoff) \<le> of_nat n * (95 / 100 * (1 + unit_roundoff)) * (1 + unit_roundoff)"
    using c(2) by (intro mult_right_mono mult_left_mono) (auto simp: unit_roundoff_def)
  ultimately have lo: "of_nat n * (95 / 100 * (1 - unit_roundoff)) * (1 - unit_roundoff) \<le> ?x"
    and hi: "?x \<le> of_nat n * (95 / 100 * (1 + unit_roundoff)) * (1 + unit_roundoff)" by linarith+
  have x0: "0 \<le> ?x" unfolding f_mul_def n using c0 by (intro fl_nonneg) simp
  have lo': "of_nat n * 95 / 100 - 1 / 20 < ?x" using lo N by (simp add: unit_roundoff_def)
  have hi': "?x < of_nat n" using hi N by (simp add: unit_roundoff_def)
  have fl: "of_int \<lfloor>?x\<rfloor> \<le> ?x" "?x < of_int \<lfloor>?x\<rfloor> + 1" by linarith+
  show "0 \<le> f_to_int ?x" using x0 by (simp add: f_to_int_def)
  have "of_nat n * 95 / 100 - 1 / 20 < (of_int \<lfloor>?x\<rfloor> + 1 :: rat)" using lo' fl by linarith
  then have "rat_of_int (19 * int n - 1) < rat_of_int (20 * (\<lfloor>?x\<rfloor> + 1))" by simp
  then show "19 * int n \<le> 20 * (f_to_int ?x + 1)"
    unfolding of_int_less_iff using x0 by (simp add: f_to_int_def)
  have "rat_of_int \<lfloor>?x\<rfloor> < of_nat n" using hi' fl(1) by linarith
  then have "rat_of_int \<lfloor>?x\<rfloor> < rat_of_int (int n)" by simp
  then show "f_to_int ?x < int n" unfolding of_int_less_iff using x0 by (simp add: f_to_int_def)
qed

lemma index_bounds:
  assumes "10 \<le> n" and "n \<le> 2 ^ 20"
  shows "nat (f_to_int (f_mul (f_of_int (int n)) (fl (95 / 100)))) < n"
    and "19 * n \<le> 20 * (nat (f_to_int (f_mul (f_of_int (int n)) (fl (95 / 100)))) + 1)"
proof -
  obtain k where k: "f_to_int (f_mul (f_of_int (int n)) (fl (95 / 100))) = int k"
    using percentile_index(1) [OF assms] by (rule nonneg_int_cases)
  have "int k < int n" "19 * int n \<le> 20 * (int k + 1)"
    using percentile_index(2,3) [OF assms] unfolding k by blast+
  then have "k < n" "19 * n \<le> 20 * (k + 1)" by presburger+
  then show "nat (f_to_int (f_mul (f_of_int (int n)) (fl (95 / 100)))) < n"
    and "19 * n \<le> 20 * (nat (f_to_int (f_mul (f_of_int (int n)) (fl (95 / 100)))) + 1)"
    unfolding k by simp_all
qed

lemma sorted_rank:
  assumes "i < length v"
  shows "sort v ! i \<in> set v" and "i + 1 \<le> length (filter (\<lambda>x. x \<le> sort v ! i) (v :: int list))"
proof -
  show "sort v ! i \<in> set v" using assms nth_mem [of i "sort v"] by simp
  have "x \<le> sort v ! i" if "x \<in> set (take (i + 1) (sort v))" for x
  proof -
    from that obtain j where "j < length (take (i + 1) (sort v))" "x = take (i + 1) (sort v) ! j"
      unfolding in_set_conv_nth by blast
    then have "j \<le> i" "x = sort v ! j" by simp_all
    then show ?thesis using assms by (simp add: sorted_nth_mono)
  qed
  then have "filter (\<lambda>x. x \<le> sort v ! i) (take (i + 1) (sort v)) = take (i + 1) (sort v)"
    by (intro filter_True) auto
  then have "length (take (i + 1) (sort v)) \<le> length (filter (\<lambda>x. x \<le> sort v ! i) (sort v))"
    by (metis append_take_drop_id filter_append le_add1 length_append)
  moreover have "length (filter (\<lambda>x. x \<le> sort v ! i) (sort v)) = length (filter (\<lambda>x. x \<le> sort v ! i) v)"
    by (simp add: filter_sort)
  ultimately show "i + 1 \<le> length (filter (\<lambda>x. x \<le> sort v ! i) v)" using assms by simp
qed

text \<open>
  The cached percentile is a genuine one: with at least ten positive latencies in the
  window (and a second since the last computation) it is one of them, and at least 95 percent of
  them are no larger, floating-point rounding of the index included; with fewer it is left alone.
\<close>

theorem percentile_correct:
  assumes "second < t_sub now (cl_lastP95Update cl)" and "cl_windowSize cl \<le> 2 ^ 20"
  shows "let valid = filter (\<lambda>v. 0 < v) (take (cl_windowSize cl) (cl_latencyWindow cl));
             p = cl_cachedP95 (recalcP95 now cl)
    in if length valid < 10 then p = cl_cachedP95 cl
       else p \<in> set valid \<and> 19 * length valid \<le> 20 * length (filter (\<lambda>v. v \<le> p) valid)"
proof -
  let ?v = "filter (\<lambda>v. 0 < v) (take (cl_windowSize cl) (cl_latencyWindow cl))"
  let ?p = "cl_cachedP95 (recalcP95 now cl)"
  let ?i = "nat (f_to_int (f_mul (f_of_int (int (length ?v))) (fl (95 / 100))))"
  show ?thesis
  proof (cases "length ?v < 10")
    case True
    then show ?thesis using assms(1) by (simp add: recalcP95_def Let_def)
  next
    case False
    have "length ?v \<le> length (take (cl_windowSize cl) (cl_latencyWindow cl))" by (rule length_filter_le)
    then have "length ?v \<le> 2 ^ 20" using assms(2) by simp
    with False have idx: "?i < length ?v" "19 * length ?v \<le> 20 * (?i + 1)"
      using index_bounds [of "length ?v"] by (simp_all only: not_less)
    have p: "?p = sort ?v ! ?i"
      using assms(1) False idx(1) by (simp add: recalcP95_def Let_def)
    note rank = sorted_rank [OF idx(1), folded p]
    have "20 * (?i + 1) \<le> 20 * length (filter (\<lambda>v. v \<le> ?p) ?v)" using rank(2) by (rule mult_le_mono2)
    with idx(2) have "19 * length ?v \<le> 20 * length (filter (\<lambda>v. v \<le> ?p) ?v)" by (rule order_trans)
    with rank(1) False show ?thesis by (simp only: Let_def if_False simp_thms)
  qed
qed

definition sample_limiter :: concurrency_limiter where
  "sample_limiter = (NewConcurrencyLimiter 4 0 True)\<lparr>cl_latencyWindow := replicate 12 7 @ replicate 88 0\<rparr>"

theorem percentile_correct_witness:
  "cl_cachedP95 (recalcP95 (2 * second) sample_limiter) = 7"
proof -
  have v: "filter (\<lambda>v. 0 < v) (take (cl_windowSize sample_limiter) (cl_latencyWindow sample_limiter)) = replicate 12 7"
    by (simp add: sample_limiter_def NewConcurrencyLimiter_def)
  have "second < t_sub (2 * second) (cl_lastP95Update sample_limiter)" "cl_windowSize sample_limiter \<le> 2 ^ 20"
    by (simp_all add: sample_limiter_def NewConcurrencyLimiter_def zero_time_def t_sub_def second_def
        max_duration_def min_duration_def)
  from percentile_correct [OF this] show ?thesis unfolding v by (simp add: Let_def)
qed

end
