(* ===== verification/Auth_Sessions.thy ===== *)
theory Auth_Sessions
  imports Go_Prelude
begin

text \<open>
  Administrator sessions (\<open>internal/auth/auth.go\<close>) and the authentication middleware
  (\<open>internal/middleware/session.go\<close>). A request is what the middleware reads of it; its effect is
  to call the next handler or to answer 401. The random bytes of a token are an argument.
\<close>

section \<open>The session store\<close>

definition sessionTTL :: duration where
  "sessionTTL = 7 * (24 * hour)"

type_synonym session_store = "(string, instant) gomap"

text \<open>\<open>hex.EncodeToString\<close>.\<close>

definition hex_digit :: "nat \<Rightarrow> char" where
  "hex_digit d = ''0123456789abcdef'' ! d"

definition hex_encode :: "nat list \<Rightarrow> string" where
  "hex_encode bs = concat (map (\<lambda>b. [hex_digit (b div 16), hex_digit (b mod 16)]) bs)"

definition GenerateSessionToken :: "instant \<Rightarrow> nat list option \<Rightarrow> session_store \<Rightarrow> string option \<times> session_store" where
  "GenerateSessionToken now rnd s = (case rnd of None \<Rightarrow> (None, s)
     | Some bytes \<Rightarrow> (let token = hex_encode bytes in (Some token, gm_put token (t_add now sessionTTL) s)))"

definition ValidateSessionToken :: "instant \<Rightarrow> string \<Rightarrow> session_store \<Rightarrow> bool \<times> session_store" where
  "ValidateSessionToken now token s = (case gm_get s token of None \<Rightarrow> (False, s)
     | Some expiry \<Rightarrow> if expiry < now then (False, gm_del token s) else (True, s))"

definition InvalidateSessionToken :: "string \<Rightarrow> session_store \<Rightarrow> session_store" where
  "InvalidateSessionToken token s = gm_del token s"

definition CleanupExpiredSessions :: "instant \<Rightarrow> session_store \<Rightarrow> session_store" where
  "CleanupExpiredSessions now s = filter (\<lambda>(token, expiry). \<not> expiry < now) s"

section \<open>Abstract sessions\<close>

text \<open>
  What a session promises, without the store: a token is good until its expiry unless it was
  invalidated. Validations and cleanups do not appear in it.
\<close>

datatype session_op = Generate "nat list" | GenerateFailed | Validate string | Invalidate string | Cleanup

fun session_step :: "instant \<times> session_op \<Rightarrow> session_store \<Rightarrow> session_store" where
  "session_step (t, Generate bs) s = snd (GenerateSessionToken t (Some bs) s)"
| "session_step (t, GenerateFailed) s = snd (GenerateSessionToken t None s)"
| "session_step (t, Validate tok) s = snd (ValidateSessionToken t tok s)"
| "session_step (t, Invalidate tok) s = InvalidateSessionToken tok s"
| "session_step (t, Cleanup) s = CleanupExpiredSessions t s"

definition session_run :: "(instant \<times> session_op) list \<Rightarrow> session_store \<Rightarrow> session_store" where
  "session_run ops s = fold session_step ops s"

fun spec_step :: "instant \<times> session_op \<Rightarrow> (string \<Rightarrow> instant option) \<Rightarrow> (string \<Rightarrow> instant option)" where
  "spec_step (t, Generate bs) m = m(hex_encode bs \<mapsto> t + sessionTTL)"
| "spec_step (t, Invalidate tok) m = m(tok := None)"
| "spec_step (t, _) m = m"

definition spec_run :: "(instant \<times> session_op) list \<Rightarrow> (string \<Rightarrow> instant option) \<Rightarrow> (string \<Rightarrow> instant option)" where
  "spec_run ops m = fold spec_step ops m"

text \<open>
  The store refines the specification at an instant: a live entry is the specified one, and an
  entry the store has dropped had expired by then.
\<close>

definition session_refines :: "instant \<Rightarrow> session_store \<Rightarrow> (string \<Rightarrow> instant option) \<Rightarrow> bool" where
  "session_refines now s m \<longleftrightarrow> gm_wf s \<and>
     (\<forall>tok. gm_get s tok = m tok \<or> (gm_get s tok = None \<and> (\<exists>e. m tok = Some e \<and> e < now)))"

lemma session_refines_later: "session_refines t s m \<Longrightarrow> t \<le> t' \<Longrightarrow> session_refines t' s m"
  unfolding session_refines_def by (meson order_less_le_trans)

lemma session_refines_put:
  "session_refines t s m \<Longrightarrow> session_refines t (gm_put tok e s) (m(tok \<mapsto> e))"
  by (simp add: session_refines_def gomap_simps)

lemma session_refines_invalidate:
  "session_refines t s m \<Longrightarrow> session_refines t (gm_del tok s) (m(tok := None))"
  by (simp add: session_refines_def gomap_simps)

lemma session_refines_expire:
  "session_refines t s m \<Longrightarrow> gm_get s tok = Some e \<Longrightarrow> e < t \<Longrightarrow> session_refines t (gm_del tok s) m"
  unfolding session_refines_def by (metis gm_get_del gm_wf_del option.distinct(1))

lemma session_refines_cleanup:
  "session_refines t s m \<Longrightarrow> session_refines t (CleanupExpiredSessions t s) m"
proof -
  assume r: "session_refines t s m"
  then have wf: "gm_wf s" by (simp add: session_refines_def)
  have "gm_get (CleanupExpiredSessions t s) tok = m tok
      \<or> (gm_get (CleanupExpiredSessions t s) tok = None \<and> (\<exists>e. m tok = Some e \<and> e < t))" for tok
  proof (cases "gm_get s tok")
    case None
    then have "gm_get (CleanupExpiredSessions t s) tok = None"
      by (simp add: CleanupExpiredSessions_def gm_get_filter [OF wf])
    then show ?thesis using r None unfolding session_refines_def by metis
  next
    case (Some e)
    then have "m tok = Some e" using r unfolding session_refines_def by (metis option.distinct(1))
    with Some show ?thesis
      by (simp add: CleanupExpiredSessions_def gm_get_filter [OF wf] del: map_of_eq_Some_iff)
  qed
  then show ?thesis using wf by (simp add: session_refines_def CleanupExpiredSessions_def)
qed

lemma session_refines_step:
  assumes "session_refines t s m"
  shows "session_refines t (session_step (t, op) s) (spec_step (t, op) m)"
proof (cases op)
  case (Generate bs)
  then show ?thesis
    using session_refines_put [OF assms] by (simp add: GenerateSessionToken_def Let_def t_add_def)
next
  case (Validate tok)
  then show ?thesis
    using session_refines_expire [OF assms] assms by (auto simp: ValidateSessionToken_def split: option.splits)
qed (use assms in \<open>simp_all add: GenerateSessionToken_def InvalidateSessionToken_def
      session_refines_invalidate session_refines_cleanup\<close>)

lemma session_refines_run:
  assumes "session_refines t s m" and "sorted (t # map fst ops)"
  shows "session_refines (last (t # map fst ops)) (session_run ops s) (spec_run ops m)"
  using assms
proof (induction ops arbitrary: t s m)
  case (Cons x ops)
  obtain t' op where x: "x = (t', op)" by force
  have "session_refines t' s m"
    using session_refines_later [OF Cons.prems(1), of t'] Cons.prems(2) x by simp
  then have "session_refines t' (session_step (t', op) s) (spec_step (t', op) m)"
    by (rule session_refines_step)
  from Cons.IH [OF this] Cons.prems(2) x show ?case by (simp add: session_run_def spec_run_def)
qed (simp add: session_run_def spec_run_def)

text \<open>
  Property C25. Sessions behave as specified: after any sequence of logins, validations, logouts and
  cleanups in clock order, a token is accepted exactly when its last login is no more than seven
  days old and no logout of it came after; in particular a token that was never issued is refused.
\<close>

theorem session_lifetime:
  assumes "sorted (map fst ops)" and "\<forall>(t, op) \<in> set ops. t \<le> now"
  shows "fst (ValidateSessionToken now tok (session_run ops []))
    = (case spec_run ops Map.empty tok of None \<Rightarrow> False | Some expiry \<Rightarrow> now \<le> expiry)"
proof -
  define t0 where "t0 = Min (insert now (fst ` set ops))"
  have "session_refines t0 [] Map.empty" by (simp add: session_refines_def)
  moreover have "sorted (t0 # map fst ops)" using assms(1) by (auto simp: t0_def)
  ultimately have "session_refines (last (t0 # map fst ops)) (session_run ops []) (spec_run ops Map.empty)"
    by (rule session_refines_run)
  moreover have "last (t0 # map fst ops) \<le> now"
  proof -
    have "t0 \<le> now" by (simp add: t0_def)
    moreover have "\<forall>t \<in> set (map fst ops). t \<le> now" using assms(2) by auto
    ultimately show ?thesis using last_in_set [of "t0 # map fst ops"] by auto
  qed
  ultimately have r: "session_refines now (session_run ops []) (spec_run ops Map.empty)"
    by (rule session_refines_later)
  show ?thesis
  proof (cases "gm_get (session_run ops []) tok = spec_run ops Map.empty tok")
    case True
    then show ?thesis by (cases "spec_run ops Map.empty tok") (simp_all add: ValidateSessionToken_def not_less)
  next
    case False
    with r obtain e where "gm_get (session_run ops []) tok = None" "spec_run ops Map.empty tok = Some e" "e < now"
      unfolding session_refines_def by blast
    then show ?thesis by (simp add: ValidateSessionToken_def)
  qed
qed

theorem session_lifetime_witness:
  "fst (ValidateSessionToken (5 + sessionTTL) ''0a'' (session_run [(5, Generate [10]), (6, Cleanup), (9, Invalidate ''0b'')] []))"
proof -
  have "hex_encode [10] = ''0a''" by (simp add: hex_encode_def hex_digit_def)
  then have "spec_run [(5, Generate [10]), (6, Cleanup), (9, Invalidate ''0b'')] Map.empty ''0a'' = Some (5 + sessionTTL)"
    by (simp add: spec_run_def)
  moreover have "(9 :: int) \<le> 5 + sessionTTL" by (simp add: sessionTTL_def duration_units)
  ultimately show ?thesis
    using session_lifetime [of "[(5, Generate [10]), (6, Cleanup), (9, Invalidate ''0b'')]" "5 + sessionTTL" "''0a''"]
    by simp
qed

section \<open>The middleware\<close>

record http_request =
  rq_cookie :: "string option"
  rq_authorization :: string
  rq_adminToken :: string
  rq_appKey :: string
  rq_publicKey :: string
  rq_taskID :: string
  rq_basicAuth :: "(string \<times> string) option"

datatype auth_result = Next | Unauthorized string

definition secureCompare :: "string \<Rightarrow> string \<Rightarrow> bool" where
  "secureCompare a b = (a = b)"

definition bearerToken :: "http_request \<Rightarrow> string" where
  "bearerToken r = (let authHeader = trim_space (rq_authorization r) in
     if authHeader = '''' then ''''
     else if \<not> has_prefix authHeader ''Bearer '' then ''''
     else trim_space (trim_prefix authHeader ''Bearer ''))"

text \<open>The checks of \<open>SessionAuthDynamic\<close> after the cookie, in source order.\<close>

definition header_matches :: "http_request \<Rightarrow> string \<Rightarrow> bool" where
  "header_matches r secret \<longleftrightarrow> secureCompare (rq_authorization r) (''Bearer '' @ secret)
     \<or> secureCompare (rq_authorization r) secret \<or> secureCompare (rq_adminToken r) secret"

definition query_matches :: "string \<Rightarrow> string \<Rightarrow> string \<Rightarrow> bool" where
  "query_matches adminPass adminToken queryKey \<longleftrightarrow> queryKey \<noteq> ''''
     \<and> (adminToken \<noteq> '''' \<and> secureCompare queryKey adminToken \<or> adminPass \<noteq> '''' \<and> secureCompare queryKey adminPass)"

definition SessionAuthDynamic :: "string \<times> string \<Rightarrow> instant \<Rightarrow> http_request \<Rightarrow> session_store \<Rightarrow> auth_result \<times> session_store" where
  "SessionAuthDynamic credentials now r s =
    (let (adminPass, adminToken) = credentials;
         (valid, s) = (case rq_cookie r of None \<Rightarrow> (False, s) | Some c \<Rightarrow> ValidateSessionToken now c s)
     in (if valid then Next
         else if adminToken \<noteq> '''' \<and> header_matches r adminToken then Next
         else if adminPass \<noteq> '''' \<and> header_matches r adminPass then Next
         else if list_ex (query_matches adminPass adminToken) [trim_space (rq_appKey r), trim_space (rq_publicKey r)] then Next
         else if (case rq_basicAuth r of None \<Rightarrow> False | Some (_, pass) \<Rightarrow> secureCompare pass adminPass) then Next
         else Unauthorized ''Unauthorized'', s))"

definition SessionAuth :: "string \<Rightarrow> string \<Rightarrow> instant \<Rightarrow> http_request \<Rightarrow> session_store \<Rightarrow> auth_result \<times> session_store" where
  "SessionAuth adminPass adminToken = SessionAuthDynamic (adminPass, adminToken)"

definition PublicKeyAuth :: "string \<Rightarrow> http_request \<Rightarrow> auth_result" where
  "PublicKeyAuth publicKey r =
    (let key = trim_space publicKey in
     if key = '''' then Next
     else let token = bearerToken r in
       if token = '''' then Unauthorized ''Missing authentication token''
       else if \<not> secureCompare token key then Unauthorized ''Invalid authentication token''
       else Next)"

definition PublicImagineStreamAuth :: "string \<Rightarrow> http_request \<Rightarrow> auth_result" where
  "PublicImagineStreamAuth publicKey r =
    (if trim_space (rq_taskID r) \<noteq> '''' then Next
     else let key = trim_space publicKey in
       if key = '''' then Next
       else let queryKey = trim_space (rq_publicKey r) in
         if queryKey = '''' then
           (if secureCompare (bearerToken r) key then Next else Unauthorized ''Missing authentication token'')
         else if \<not> secureCompare queryKey key then Unauthorized ''Invalid authentication token''
         else Next)"

text \<open>The secrets a request presents in a header, a query key or basic authentication.\<close>

definition presents :: "http_request \<Rightarrow> string \<Rightarrow> bool" where
  "presents r secret \<longleftrightarrow> rq_authorization r = ''Bearer '' @ secret \<or> rq_authorization r = secret
     \<or> rq_adminToken r = secret \<or> trim_space (rq_appKey r) = secret \<or> trim_space (rq_publicKey r) = secret"

text \<open>
  Property C27. The administrator's door: with a password configured, a request is let through
  exactly when it carries the cookie of a live session, presents the configured token or password
  in a header or query key, or has the password in basic authentication; an empty token opens
  nothing; and deciding changes the session store only by dropping the expired session it saw.
\<close>

theorem admin_access:
  assumes "adminPass \<noteq> ''''"
  shows "(fst (SessionAuthDynamic (adminPass, adminToken) now r s) = Next \<longleftrightarrow>
       (\<exists>c. rq_cookie r = Some c \<and> fst (ValidateSessionToken now c s))
       \<or> (adminToken \<noteq> '''' \<and> presents r adminToken) \<or> presents r adminPass
       \<or> (\<exists>u. rq_basicAuth r = Some (u, adminPass)))
    \<and> (\<forall>c. rq_cookie r = Some c \<and> fst (ValidateSessionToken now c s)
        \<longrightarrow> snd (SessionAuthDynamic (adminPass, adminToken) now r s) = s)"
  using assms
  by (auto simp: SessionAuthDynamic_def ValidateSessionToken_def header_matches_def query_matches_def
      secureCompare_def presents_def Let_def split: option.splits prod.splits if_splits)

theorem admin_access_witness:
  "fst (SessionAuthDynamic (''pw'', '''') 0 \<lparr>rq_cookie = None, rq_authorization = '''', rq_adminToken = '''',
     rq_appKey = '''', rq_publicKey = '''', rq_taskID = '''', rq_basicAuth = Some (''admin'', ''pw'')\<rparr> []) = Next"
  using admin_access [of "''pw''" "''''" 0 "\<lparr>rq_cookie = None, rq_authorization = '''', rq_adminToken = '''',
     rq_appKey = '''', rq_publicKey = '''', rq_taskID = '''', rq_basicAuth = Some (''admin'', ''pw'')\<rparr>" "[]"]
  by simp

text \<open>
  Where the door stands open: with no administrator password configured, a request
  without any session or secret passes as soon as it has basic authentication with an empty
  password (every other check skips an empty password, this one does not).
\<close>

theorem empty_password_opens:
  assumes "rq_basicAuth r = Some (u, '''')"
  shows "fst (SessionAuthDynamic ('''', adminToken) now r s) = Next"
  using assms by (simp add: SessionAuthDynamic_def secureCompare_def case_prod_unfold Let_def)

theorem empty_password_opens_witness:
  "fst (SessionAuthDynamic ('''', ''secret'') 0 \<lparr>rq_cookie = None, rq_authorization = ''Basic eDo='', rq_adminToken = '''',
     rq_appKey = '''', rq_publicKey = '''', rq_taskID = '''', rq_basicAuth = Some (''x'', '''')\<rparr> []) = Next"
  by (rule empty_password_opens) simp

text \<open>
  The public API: with a key configured, \<open>PublicKeyAuth\<close> admits exactly the requests
  whose bearer token is the key, and tells a missing token from a wrong one; the stream endpoint
  agrees with it on requests that name neither a task nor a query key.
\<close>

theorem public_access:
  assumes "trim_space publicKey \<noteq> ''''"
  shows "(PublicKeyAuth publicKey r = Next \<longleftrightarrow> bearerToken r = trim_space publicKey)
    \<and> (PublicKeyAuth publicKey r = Unauthorized ''Missing authentication token'' \<longleftrightarrow> bearerToken r = '''')
    \<and> (trim_space (rq_taskID r) = '''' \<and> trim_space (rq_publicKey r) = '''' \<longrightarrow>
        (PublicImagineStreamAuth publicKey r = Next \<longleftrightarrow> PublicKeyAuth publicKey r = Next))"
  using assms by (auto simp: PublicKeyAuth_def PublicImagineStreamAuth_def secureCompare_def Let_def)

theorem public_access_witness:
  "PublicKeyAuth ''k'' \<lparr>rq_cookie = None, rq_authorization = ''Bearer k'', rq_adminToken = '''',
     rq_appKey = '''', rq_publicKey = '''', rq_taskID = '''', rq_basicAuth = None\<rparr> = Next"
proof -
  let ?r = "\<lparr>rq_cookie = None, rq_authorization = ''Bearer k'', rq_adminToken = '''',
     rq_appKey = '''', rq_publicKey = '''', rq_taskID = '''', rq_basicAuth = None\<rparr>"
  have t: "trim_space ''k'' = ''k''" "trim_space ''Bearer k'' = ''Bearer k''"
    by (rule trim_space_id; simp add: printable_def)+
  then have "bearerToken ?r = ''k''"
    by (simp add: bearerToken_def Let_def has_prefix_def trim_prefix_def)
  then show ?thesis using public_access [of "''k''" ?r] t by simp
qed

end
