(* ===== verification/Sharded_Map.thy ===== *)
theory Sharded_Map
  imports Go_Prelude "HOL-Library.Word"
begin

text \<open>
  The sharded map of \<open>internal/handler/sharded_map.go\<close>: sixteen maps, a key lives in the shard its
  FNV-1a hash names. Each operation holds one shard lock at a time, so it is one step (\<open>Len\<close> and
  \<open>RangeDelete\<close> are taken at a moment without concurrent writers). The interface its clients use
  is a locale.
\<close>

unbundle bit_operations_syntax

section \<open>The contract\<close>

text \<open>
  What a client of a keyed store relies on: \<open>compute\<close> reads and replaces the value of one key and
  nothing else, and \<open>purge\<close> drops exactly the entries it is told to. A result of \<open>None\<close> deletes.
\<close>

locale keyed_store =
  fixes inv :: "'s \<Rightarrow> bool"
    and get :: "'s \<Rightarrow> string \<Rightarrow> 'v option"
    and compute :: "string \<Rightarrow> ('v option \<Rightarrow> 'v option) \<Rightarrow> 's \<Rightarrow> 's"
    and purge :: "(string \<Rightarrow> 'v \<Rightarrow> bool) \<Rightarrow> 's \<Rightarrow> 's"
  assumes compute_inv: "inv s \<Longrightarrow> inv (compute k f s)"
    and get_compute: "inv s \<Longrightarrow> get (compute k f s) k' = (if k' = k then f (get s k) else get s k')"
    and purge_inv: "inv s \<Longrightarrow> inv (purge P s)"
    and get_purge: "inv s \<Longrightarrow> get (purge P s) k
      = (case get s k of None \<Rightarrow> None | Some v \<Rightarrow> if P k v then None else Some v)"
begin

text \<open>A run of updates, each a function on one key, keeps the invariant and acts key by key.\<close>

definition compute_all :: "(string \<times> ('v option \<Rightarrow> 'v option)) list \<Rightarrow> 's \<Rightarrow> 's" where
  "compute_all us s = fold (\<lambda>(k, f). compute k f) us s"

lemma compute_all_inv: "inv s \<Longrightarrow> inv (compute_all us s)"
  unfolding compute_all_def by (induction us arbitrary: s) (auto simp: compute_inv)

lemma get_compute_all:
  "inv s \<Longrightarrow> get (compute_all us s) k = fold (\<lambda>(k', f). f) (filter (\<lambda>(k', f). k' = k) us) (get s k)"
  unfolding compute_all_def by (induction us arbitrary: s) (auto simp: compute_inv get_compute)

lemma compute_commute:
  assumes "inv s" and "k \<noteq> k'"
  shows "get (compute k f (compute k' g s)) = get (compute k' g (compute k f s))"
  using assms by (auto simp: compute_inv get_compute)

text \<open>A purge that only drops what an update treats as absent is invisible to the update.\<close>

lemma compute_purge:
  assumes "inv s" and "\<And>v. get s k = Some v \<Longrightarrow> P k v \<Longrightarrow> f (Some v) = f None"
  shows "get (compute k f (purge P s)) k = get (compute k f s) k"
  using assms by (auto simp: compute_inv purge_inv get_compute get_purge split: option.splits)

end

section \<open>The map\<close>

definition ShardCount :: nat where "ShardCount = 16"

type_synonym 'v sharded_map = "(string, 'v) gomap list"

definition NewShardedMap :: "'v sharded_map" where
  "NewShardedMap = replicate ShardCount []"

definition fnv1aHash :: "string \<Rightarrow> 32 word" where
  "fnv1aHash key = fold (\<lambda>c h. (h XOR word_of_nat (of_char c)) * 16777619) key 2166136261"

definition getShard :: "string \<Rightarrow> nat" where
  "getShard key = unat (fnv1aHash key mod 16)"

definition sm_Get :: "'v sharded_map \<Rightarrow> string \<Rightarrow> 'v option" where
  "sm_Get m key = gm_get (m ! getShard key) key"

definition sm_Set :: "string \<Rightarrow> 'v \<Rightarrow> 'v sharded_map \<Rightarrow> 'v sharded_map" where
  "sm_Set key value m = (let idx = getShard key in m[idx := gm_put key value (m ! idx)])"

definition sm_Delete :: "string \<Rightarrow> 'v sharded_map \<Rightarrow> 'v sharded_map" where
  "sm_Delete key m = (let idx = getShard key in m[idx := gm_del key (m ! idx)])"

text \<open>
  \<open>Compute\<close>: the callback sees the value, if there is one, and returns what to keep; the old value
  is returned.
\<close>

definition sm_Compute :: "string \<Rightarrow> ('v option \<Rightarrow> 'v option) \<Rightarrow> 'v sharded_map \<Rightarrow> 'v option \<times> 'v sharded_map" where
  "sm_Compute key f m =
    (let idx = getShard key; old = gm_get (m ! idx) key
     in (old, case f old of
          Some newVal \<Rightarrow> m[idx := gm_put key newVal (m ! idx)]
        | None \<Rightarrow> if old \<noteq> None then m[idx := gm_del key (m ! idx)] else m))"

definition sm_Len :: "'v sharded_map \<Rightarrow> nat" where
  "sm_Len m = sum_list (map length m)"

definition sm_RangeDelete :: "(string \<Rightarrow> 'v \<Rightarrow> bool) \<Rightarrow> 'v sharded_map \<Rightarrow> 'v sharded_map" where
  "sm_RangeDelete fn m = map (filter (\<lambda>(k, v). \<not> fn k v)) m"

text \<open>The entries \<open>Range\<close> visits: in shard order, up to the first one refused.\<close>

definition sm_Range :: "(string \<Rightarrow> 'v \<Rightarrow> bool) \<Rightarrow> 'v sharded_map \<Rightarrow> (string \<times> 'v) list" where
  "sm_Range fn m = (let es = concat m; good = takeWhile (\<lambda>(k, v). fn k v) es
     in take (length good + 1) es)"

section \<open>Invariant\<close>

definition sm_wf :: "'v sharded_map \<Rightarrow> bool" where
  "sm_wf m \<longleftrightarrow> length m = ShardCount \<and>
     (\<forall>i < ShardCount. gm_wf (m ! i) \<and> (\<forall>k \<in> fst ` set (m ! i). getShard k = i))"

lemma getShard_less: "getShard k < ShardCount"
proof -
  have "unat (fnv1aHash k mod 16) < 16"
    using word_mod_less_divisor [of 16 "fnv1aHash k"] by (simp add: unat_mod_distrib)
  then show ?thesis by (simp add: getShard_def ShardCount_def)
qed

lemma getShard_bound [simp]: "sm_wf m \<Longrightarrow> getShard k < length m"
  using getShard_less [of k] by (simp add: sm_wf_def)

lemma sm_wf_new [simp]: "sm_wf NewShardedMap"
  by (simp add: sm_wf_def NewShardedMap_def)

lemma sm_Get_new [simp]: "sm_Get NewShardedMap k = None"
  by (simp add: sm_Get_def NewShardedMap_def getShard_less)

text \<open>Replacing one shard by a map over keys of that shard.\<close>

lemma sm_wf_update:
  assumes "sm_wf m" and "gm_wf d" and "\<And>k. k \<in> fst ` set d \<Longrightarrow> getShard k = i"
  shows "sm_wf (m[i := d])"
proof -
  have "m[i := d] ! j = (if j = i then d else m ! j)" if "j < ShardCount" for j
    using that assms(1) by (cases "j = i") (simp_all add: sm_wf_def)
  with assms show ?thesis by (simp add: sm_wf_def)
qed

lemma sm_wf_Compute: "sm_wf m \<Longrightarrow> sm_wf (snd (sm_Compute k f m))"
proof -
  assume m: "sm_wf m"
  let ?i = "getShard k"
  have d: "gm_wf (m ! ?i)" "\<And>k'. k' \<in> fst ` set (m ! ?i) \<Longrightarrow> getShard k' = ?i"
    using m getShard_less [of k] by (auto simp: sm_wf_def)
  have "sm_wf (m[?i := gm_put k v (m ! ?i)])" for v
  proof (rule sm_wf_update [OF m])
    fix k' assume "k' \<in> fst ` set (gm_put k v (m ! ?i))"
    then have "k' = k \<or> k' \<in> fst ` set (m ! ?i)" using gm_put_subset [of k v "m ! ?i"] by force
    then show "getShard k' = ?i" using d(2) by blast
  qed (use d(1) in blast)
  moreover have "sm_wf (m[?i := gm_del k (m ! ?i)])"
  proof (rule sm_wf_update [OF m])
    fix k' assume "k' \<in> fst ` set (gm_del k (m ! ?i))"
    then have "k' \<in> fst ` set (m ! ?i)" using gm_del_subset [of k "m ! ?i"] by blast
    then show "getShard k' = ?i" by (rule d(2))
  qed (use d(1) in blast)
  ultimately show ?thesis using m by (simp add: sm_Compute_def Let_def split: option.split)
qed

lemma sm_Get_Compute:
  assumes "sm_wf m"
  shows "sm_Get (snd (sm_Compute k f m)) k' = (if k' = k then f (sm_Get m k) else sm_Get m k')"
  using getShard_bound [OF assms, of k] getShard_bound [OF assms, of k']
  by (cases "k' = k"; cases "getShard k' = getShard k"; cases "f (gm_get (m ! getShard k) k)"; cases "gm_get (m ! getShard k) k")
    (simp_all add: sm_Compute_def sm_Get_def Let_def gomap_simps nth_list_update)

lemma sm_Compute_old: "fst (sm_Compute k f m) = sm_Get m k"
  by (simp add: sm_Compute_def sm_Get_def Let_def)

lemma sm_Set_Compute: "sm_Set k v m = snd (sm_Compute k (\<lambda>_. Some v) m)"
  by (simp add: sm_Set_def sm_Compute_def Let_def)

lemma sm_Delete_Compute:
  assumes "sm_wf m"
  shows "sm_Get (sm_Delete k m) = sm_Get (snd (sm_Compute k (\<lambda>_. None) m))" and "sm_wf (sm_Delete k m)"
proof -
  have "sm_Delete k m = snd (sm_Compute k (\<lambda>_. None) m)"
    by (auto simp: sm_Delete_def sm_Compute_def Let_def delete_idem map_of_eq_None_iff)
  then show "sm_Get (sm_Delete k m) = sm_Get (snd (sm_Compute k (\<lambda>_. None) m))" "sm_wf (sm_Delete k m)"
    using sm_wf_Compute [OF assms] by simp_all
qed

lemma sm_wf_RangeDelete: "sm_wf m \<Longrightarrow> sm_wf (sm_RangeDelete P m)"
  unfolding sm_wf_def sm_RangeDelete_def by (auto simp: gm_wf_filter)

lemma sm_Get_RangeDelete:
  assumes "sm_wf m"
  shows "sm_Get (sm_RangeDelete P m) k
    = (case sm_Get m k of None \<Rightarrow> None | Some v \<Rightarrow> if P k v then None else Some v)"
proof -
  have "gm_wf (m ! getShard k)" using assms getShard_less by (auto simp: sm_wf_def)
  then show ?thesis using getShard_bound [OF assms, of k]
    by (auto simp: sm_Get_def sm_RangeDelete_def gm_get_filter simp del: map_of_eq_Some_iff split: option.split)
qed

interpretation shards: keyed_store sm_wf sm_Get "\<lambda>k f m. snd (sm_Compute k f m)" sm_RangeDelete
  by unfold_locales (simp_all add: sm_wf_Compute sm_Get_Compute sm_wf_RangeDelete sm_Get_RangeDelete)

text \<open>The keys of a well-formed map are those of its shards, without repetition.\<close>

lemma concat_keys_distinct:
  assumes "sm_wf m"
  shows "distinct (map fst (concat m))"
proof -
  have "distinct (map fst (concat (take n m)))
      \<and> (\<forall>k \<in> fst ` set (concat (take n m)). getShard k < n)" if "n \<le> length m" for n
    using that
  proof (induction n)
    case (Suc n)
    have "take (Suc n) m = take n m @ [m ! n]" using Suc.prems by (simp add: take_Suc_conv_app_nth)
    moreover have "gm_wf (m ! n)" "\<forall>k \<in> fst ` set (m ! n). getShard k = n"
      using assms Suc.prems by (auto simp: sm_wf_def)
    moreover have "distinct (map fst (concat (take n m)))" "\<forall>k \<in> fst ` set (concat (take n m)). getShard k < n"
      using Suc by auto
    ultimately show ?case by fastforce
  qed simp
  from this [of "length m"] show ?thesis by simp
qed

lemma sm_Get_concat:
  assumes "sm_wf m"
  shows "sm_Get m k = Some v \<longleftrightarrow> (k, v) \<in> set (concat m)"
proof -
  have wf: "\<And>i. i < length m \<Longrightarrow> gm_wf (m ! i)" and shard: "\<And>i k v. i < length m \<Longrightarrow> (k, v) \<in> set (m ! i) \<Longrightarrow> getShard k = i"
    using assms by (force simp: sm_wf_def)+
  have "(k, v) \<in> set (concat m) \<longleftrightarrow> (\<exists>i < length m. (k, v) \<in> set (m ! i))"
    by (auto simp: in_set_conv_nth [of _ m] Bex_def)
  also have "\<dots> \<longleftrightarrow> (k, v) \<in> set (m ! getShard k)"
    using shard getShard_bound [OF assms] by blast
  finally show ?thesis using wf [OF getShard_bound [OF assms]] by (simp add: sm_Get_def)
qed

text \<open>
  The sharded map is one map: a lookup after a set, a delete, a compute or a bulk
  deletion finds what it would in a single map with that operation; its length is the number of
  distinct keys with a value; and each key has exactly one home shard.
\<close>

theorem sharded_map_refines:
  assumes "sm_wf m"
  shows "sm_Get (sm_Set k v m) = (sm_Get m)(k \<mapsto> v) \<and> sm_Get (sm_Delete k m) = (sm_Get m)(k := None)
    \<and> sm_Get (snd (sm_Compute k f m)) = (sm_Get m)(k := f (sm_Get m k)) \<and> fst (sm_Compute k f m) = sm_Get m k
    \<and> sm_Get (sm_RangeDelete P m) = (\<lambda>k. case sm_Get m k of None \<Rightarrow> None | Some v \<Rightarrow> if P k v then None else Some v)
    \<and> sm_Len m = card (dom (sm_Get m)) \<and> getShard k < length m
    \<and> sm_wf (sm_Set k v m) \<and> sm_wf (sm_Delete k m) \<and> sm_wf (snd (sm_Compute k f m)) \<and> sm_wf (sm_RangeDelete P m)"
proof -
  have "dom (sm_Get m) = set (map fst (concat m))"
    by (force simp: dom_def sm_Get_concat [OF assms])
  then have "card (dom (sm_Get m)) = length (map fst (concat m))"
    by (simp only: distinct_card [OF concat_keys_distinct [OF assms]])
  then have "sm_Len m = card (dom (sm_Get m))" by (simp add: sm_Len_def length_concat)
  then show ?thesis using assms
    by (auto simp: sm_Set_Compute sm_Delete_Compute shards.get_compute shards.get_purge shards.compute_inv
        shards.purge_inv sm_Compute_old)
qed

theorem sharded_map_refines_witness:
  "sm_Get (sm_Set ''req-1'' 7 NewShardedMap) ''req-1'' = Some (7 :: int) \<and> sm_Len (NewShardedMap :: int sharded_map) = 0"
  using sharded_map_refines [OF sm_wf_new, of "''req-1''" "7 :: int", THEN conjunct1]
  by (simp add: sm_Len_def NewShardedMap_def)

text \<open>The published test vectors of 32-bit FNV-1a.\<close>

lemma fnv1a_vectors: "fnv1aHash '''' = 0x811c9dc5" "fnv1aHash ''a'' = 0xe40c292c"
  by (simp add: fnv1aHash_def) code_simp

end
