(* ===== verification/Request_Stores.thy ===== *)
theory Request_Stores
  imports Sharded_Map
begin

text \<open>
  The in-memory stores of the request handler: deduplication (\<open>internal/handler/dedup_store.go\<close> on
  the sharded map, and the part of \<open>HandleMessages\<close> in \<open>handler.go\<close> that uses it) and the session
  store (\<open>session_store.go\<close>). The Redis versions run scripts in the server and are left out.
\<close>

section \<open>Deduplication\<close>

record recent_request =
  rr_last :: instant
  rr_inFlight :: int

record dedup_store =
  ds_requests :: "recent_request sharded_map"
  ds_window :: duration
  ds_cleanupWindow :: duration

definition duplicateWindow :: duration where "duplicateWindow = 2 * second"
definition duplicateCleanupWindow :: duration where "duplicateCleanupWindow = 10 * second"

definition NewMemoryDedupStore :: "duration \<Rightarrow> duration \<Rightarrow> dedup_store" where
  "NewMemoryDedupStore window cleanupWindow =
    \<lparr>ds_requests = NewShardedMap, ds_window = window, ds_cleanupWindow = cleanupWindow\<rparr>"

text \<open>The callbacks of the two operations, and the predicate of the cleaner.\<close>

definition register_fn :: "duration \<Rightarrow> instant \<Rightarrow> recent_request option \<Rightarrow> recent_request option" where
  "register_fn window now cur = (case cur of
     Some c \<Rightarrow> if t_sub now (rr_last c) \<le> window then Some c
       else Some (c\<lparr>rr_last := now, rr_inFlight := rr_inFlight c + 1\<rparr>)
   | None \<Rightarrow> Some \<lparr>rr_last = now, rr_inFlight = 1\<rparr>)"

definition register_answer :: "duration \<Rightarrow> instant \<Rightarrow> recent_request option \<Rightarrow> bool \<times> bool" where
  "register_answer window now cur = (case cur of
     Some c \<Rightarrow> if t_sub now (rr_last c) \<le> window then (True, 0 < rr_inFlight c) else (False, False)
   | None \<Rightarrow> (False, False))"

definition finish_fn :: "instant \<Rightarrow> recent_request option \<Rightarrow> recent_request option" where
  "finish_fn now cur = (case cur of None \<Rightarrow> None
     | Some c \<Rightarrow> Some (c\<lparr>rr_inFlight := (if 0 < rr_inFlight c then rr_inFlight c - 1 else rr_inFlight c),
         rr_last := now\<rparr>))"

definition stale :: "duration \<Rightarrow> instant \<Rightarrow> string \<Rightarrow> recent_request \<Rightarrow> bool" where
  "stale cleanupWindow now k rec \<longleftrightarrow> rr_inFlight rec = 0 \<and> cleanupWindow < t_sub now (rr_last rec)"

definition dedup_Register :: "instant \<Rightarrow> string \<Rightarrow> dedup_store \<Rightarrow> (bool \<times> bool) \<times> dedup_store" where
  "dedup_Register now hash s =
    (case sm_Compute hash (register_fn (ds_window s) now) (ds_requests s) of
       (old, m) \<Rightarrow> (register_answer (ds_window s) now old, s\<lparr>ds_requests := m\<rparr>))"

definition dedup_Finish :: "instant \<Rightarrow> string \<Rightarrow> dedup_store \<Rightarrow> dedup_store" where
  "dedup_Finish now hash s =
    s\<lparr>ds_requests := snd (sm_Compute hash (finish_fn now) (ds_requests s))\<rparr>"

definition dedup_cleanup :: "instant \<Rightarrow> dedup_store \<Rightarrow> dedup_store" where
  "dedup_cleanup now s = s\<lparr>ds_requests := sm_RangeDelete (stale (ds_cleanupWindow s) now) (ds_requests s)\<rparr>"

text \<open>
  The use of it in \<open>HandleMessages\<close>: the exact key first, then the semantic one, with the exact one
  given back when the semantic one is a duplicate. \<open>Proceed\<close> carries the keys to finish at the end.
\<close>

datatype dedup_outcome = Proceed "string list" | RetryRejected bool | DuplicateSuppressed

definition dedup_request :: "instant \<Rightarrow> bool \<Rightarrow> string \<Rightarrow> string \<Rightarrow> int \<Rightarrow> dedup_store \<Rightarrow> dedup_outcome \<times> dedup_store" where
  "dedup_request now bypassDedup reqHash semanticHash retryCount s =
    (if bypassDedup then (Proceed [], s)
     else let exactKey = ''exact:'' @ reqHash; ((dup, inFlight), s) = dedup_Register now exactKey s
       in if dup then (if 0 < retryCount then RetryRejected inFlight else DuplicateSuppressed, s)
          else if semanticHash = '''' then (Proceed [exactKey], s)
          else let semanticKey = ''semantic:'' @ semanticHash;
                   ((dup, inFlight), s) = dedup_Register now semanticKey s
            in if dup then (if 0 < retryCount then RetryRejected inFlight else DuplicateSuppressed,
                            dedup_Finish now exactKey s)
               else (Proceed [exactKey, semanticKey], s))"

definition finish_all :: "instant \<Rightarrow> string list \<Rightarrow> dedup_store \<Rightarrow> dedup_store" where
  "finish_all now keys s = fold (dedup_Finish now) (rev keys) s"

section \<open>Facts on single keys\<close>

definition dedup_inv :: "dedup_store \<Rightarrow> bool" where
  "dedup_inv s \<longleftrightarrow> sm_wf (ds_requests s) \<and> (\<forall>k r. sm_Get (ds_requests s) k = Some r \<longrightarrow> 0 \<le> rr_inFlight r)"

definition dedup_get :: "dedup_store \<Rightarrow> string \<Rightarrow> recent_request option" where
  "dedup_get s = sm_Get (ds_requests s)"

lemma dedup_Register_get:
  assumes "sm_wf (ds_requests s)" and "dedup_Register now h s = (ans, s')"
  shows "ans = register_answer (ds_window s) now (dedup_get s h)"
    and "dedup_get s' = (dedup_get s)(h := register_fn (ds_window s) now (dedup_get s h))"
    and "sm_wf (ds_requests s')" and "ds_window s' = ds_window s" and "ds_cleanupWindow s' = ds_cleanupWindow s"
  using assms sm_Compute_old [of h "register_fn (ds_window s) now" "ds_requests s"]
    shards.get_compute [OF assms(1), of h "register_fn (ds_window s) now"]
    shards.compute_inv [OF assms(1), of h "register_fn (ds_window s) now"]
  by (auto simp: dedup_Register_def dedup_get_def split: prod.splits)

lemma dedup_Finish_get:
  assumes "sm_wf (ds_requests s)"
  shows "dedup_get (dedup_Finish now h s) = (dedup_get s)(h := finish_fn now (dedup_get s h))"
    and "sm_wf (ds_requests (dedup_Finish now h s))"
    and "ds_window (dedup_Finish now h s) = ds_window s" and "ds_cleanupWindow (dedup_Finish now h s) = ds_cleanupWindow s"
  using shards.get_compute [OF assms, of h "finish_fn now"] shards.compute_inv [OF assms]
  by (auto simp: dedup_Finish_def dedup_get_def)

lemma dedup_cleanup_get:
  assumes "sm_wf (ds_requests s)"
  shows "dedup_get (dedup_cleanup now s) k = (case dedup_get s k of None \<Rightarrow> None
      | Some r \<Rightarrow> if stale (ds_cleanupWindow s) now k r then None else Some r)"
    and "sm_wf (ds_requests (dedup_cleanup now s))"
    and "ds_window (dedup_cleanup now s) = ds_window s" and "ds_cleanupWindow (dedup_cleanup now s) = ds_cleanupWindow s"
  using shards.get_purge [OF assms] shards.purge_inv [OF assms] by (auto simp: dedup_cleanup_def dedup_get_def)

section \<open>Runs against the specification\<close>

datatype dedup_op = Register string | Finish string | Clean

text \<open>The store's run with its answers, and the specification: one plain map, never cleaned.\<close>

fun dedup_run :: "(instant \<times> dedup_op) list \<Rightarrow> dedup_store \<Rightarrow> (bool \<times> bool) list" where
  "dedup_run [] s = []"
| "dedup_run ((t, Register h) # ops) s = (case dedup_Register t h s of (ans, s') \<Rightarrow> ans # dedup_run ops s')"
| "dedup_run ((t, Finish h) # ops) s = dedup_run ops (dedup_Finish t h s)"
| "dedup_run ((t, Clean) # ops) s = dedup_run ops (dedup_cleanup t s)"

fun dedup_spec :: "duration \<Rightarrow> (instant \<times> dedup_op) list \<Rightarrow> (string \<Rightarrow> recent_request option) \<Rightarrow> (bool \<times> bool) list" where
  "dedup_spec w [] m = []"
| "dedup_spec w ((t, Register h) # ops) m = register_answer w t (m h) # dedup_spec w ops (m(h := register_fn w t (m h)))"
| "dedup_spec w ((t, Finish h) # ops) m = dedup_spec w ops (m(h := finish_fn t (m h)))"
| "dedup_spec w ((t, Clean) # ops) m = dedup_spec w ops m"

text \<open>Every finish belongs to a request in flight.\<close>

fun finishes_matched :: "duration \<Rightarrow> (instant \<times> dedup_op) list \<Rightarrow> (string \<Rightarrow> recent_request option) \<Rightarrow> bool" where
  "finishes_matched w [] m = True"
| "finishes_matched w ((t, Register h) # ops) m = finishes_matched w ops (m(h := register_fn w t (m h)))"
| "finishes_matched w ((t, Finish h) # ops) m =
     ((\<exists>r. m h = Some r \<and> 0 < rr_inFlight r) \<and> finishes_matched w ops (m(h := finish_fn t (m h))))"
| "finishes_matched w ((t, Clean) # ops) m = finishes_matched w ops m"

definition dedup_related :: "instant \<Rightarrow> dedup_store \<Rightarrow> (string \<Rightarrow> recent_request option) \<Rightarrow> bool" where
  "dedup_related now s m \<longleftrightarrow> sm_wf (ds_requests s) \<and>
     (\<forall>k. dedup_get s k = m k \<or> (dedup_get s k = None \<and> (\<exists>r. m k = Some r \<and> stale (ds_cleanupWindow s) now k r)))"

lemma stale_later: "stale d t k r \<Longrightarrow> t \<le> t' \<Longrightarrow> stale d t' k r"
  by (auto simp: stale_def t_sub_def)

lemma dedup_related_later: "dedup_related t s m \<Longrightarrow> t \<le> t' \<Longrightarrow> dedup_related t' s m"
  unfolding dedup_related_def using stale_later by blast

lemma dedup_related_cases:
  assumes "dedup_related t s m"
  obtains "dedup_get s k = m k" | r where "dedup_get s k = None" "m k = Some r" "stale (ds_cleanupWindow s) t k r"
  using assms unfolding dedup_related_def by blast

text \<open>What is stale is as good as absent for the next registration.\<close>

lemma stale_register:
  assumes "stale d now k r" and "w \<le> d"
  shows "register_answer w now (Some r) = register_answer w now None"
    and "register_fn w now (Some r) = register_fn w now None"
  using assms by (auto simp: stale_def register_answer_def register_fn_def)

lemma dedup_run_refines:
  assumes "dedup_related t s m" and "sorted (t # map fst ops)" and "ds_window s \<le> ds_cleanupWindow s"
    and "finishes_matched (ds_window s) ops m"
  shows "dedup_run ops s = dedup_spec (ds_window s) ops m"
  using assms
proof (induction ops arbitrary: t s m)
  case (Cons x ops)
  obtain t' op where x: "x = (t', op)" by force
  have rel: "dedup_related t' s m" using dedup_related_later [OF Cons.prems(1)] Cons.prems(2) x by simp
  then have wf: "sm_wf (ds_requests s)" by (simp add: dedup_related_def)
  have sorted: "sorted (t' # map fst ops)" using Cons.prems(2) x by simp
  show ?case
  proof (cases op)
    case (Register h)
    obtain ans s' where r: "dedup_Register t' h s = (ans, s')" by (cases "dedup_Register t' h s")
    note reg = dedup_Register_get [OF wf r]
    have same: "register_answer (ds_window s) t' (dedup_get s h) = register_answer (ds_window s) t' (m h)
      \<and> register_fn (ds_window s) t' (dedup_get s h) = register_fn (ds_window s) t' (m h)"
      using dedup_related_cases [OF rel, of h] stale_register Cons.prems(3) by metis
    let ?m = "m(h := register_fn (ds_window s) t' (m h))"
    have "dedup_related t' s' ?m"
      using rel reg same by (auto simp: dedup_related_def)
    moreover have "finishes_matched (ds_window s') ops ?m" "ds_window s' \<le> ds_cleanupWindow s'"
      using Cons.prems(3,4) unfolding x Register reg(4,5) finishes_matched.simps by blast+
    ultimately have "dedup_run ops s' = dedup_spec (ds_window s') ops ?m"
      using Cons.IH [OF _ sorted] by blast
    then show ?thesis unfolding x Register dedup_run.simps dedup_spec.simps r reg(1,4) using same by simp
  next
    case (Finish h)
    from Cons.prems(4) obtain r where m: "m h = Some r" "0 < rr_inFlight r" by (auto simp: x Finish)
    then have "dedup_get s h = m h" using dedup_related_cases [OF rel, of h] by (force simp: stale_def)
    then have "dedup_related t' (dedup_Finish t' h s) (m(h := finish_fn t' (m h)))"
      using rel dedup_Finish_get [OF wf] by (auto simp: dedup_related_def)
    moreover have "finishes_matched (ds_window s) ops (m(h := finish_fn t' (m h)))"
      using Cons.prems(4) unfolding x Finish finishes_matched.simps by blast
    ultimately have "dedup_run ops (dedup_Finish t' h s) = dedup_spec (ds_window s) ops (m(h := finish_fn t' (m h)))"
      using Cons.IH [OF _ sorted, of "dedup_Finish t' h s"] Cons.prems(3)
      unfolding dedup_Finish_get(3,4) [OF wf] by blast
    then show ?thesis unfolding x Finish dedup_run.simps dedup_spec.simps .
  next
    case Clean
    have "dedup_related t' (dedup_cleanup t' s) m"
      unfolding dedup_related_def
    proof (intro conjI allI)
      fix k
      show "dedup_get (dedup_cleanup t' s) k = m k \<or> (dedup_get (dedup_cleanup t' s) k = None
          \<and> (\<exists>r. m k = Some r \<and> stale (ds_cleanupWindow (dedup_cleanup t' s)) t' k r))"
        by (rule dedup_related_cases [OF rel, of k]) (auto simp: dedup_cleanup_get [OF wf] split: option.splits)
    qed (rule dedup_cleanup_get [OF wf])
    from Cons.IH [OF this sorted] Cons.prems(3,4) show ?thesis
      by (simp add: x Clean dedup_cleanup_get [OF wf])
  qed
qed simp

text \<open>
  Property C28. Cleaning is invisible: as long as requests are finished only while in flight and
  the cleaner waits at least the duplicate window, the answers of the cleaned, sharded store are
  those of one map that is never cleaned, for every run in clock order.
\<close>

theorem dedup_refines_spec:
  assumes "sorted (map fst ops)" and "window \<le> cleanupWindow" and "finishes_matched window ops Map.empty"
  shows "dedup_run ops (NewMemoryDedupStore window cleanupWindow) = dedup_spec window ops Map.empty"
proof -
  define t0 where "t0 = (case ops of [] \<Rightarrow> 0 | (t, _) # _ \<Rightarrow> t)"
  have "dedup_related t0 (NewMemoryDedupStore window cleanupWindow) Map.empty"
    by (simp add: dedup_related_def NewMemoryDedupStore_def dedup_get_def)
  moreover have "sorted (t0 # map fst ops)" using assms(1) by (cases ops) (auto simp: t0_def)
  ultimately show ?thesis
    using dedup_run_refines [of t0 "NewMemoryDedupStore window cleanupWindow" Map.empty ops] assms(2,3)
    by (simp add: NewMemoryDedupStore_def)
qed

definition dedup_scenario :: "(instant \<times> dedup_op) list" where
  "dedup_scenario = [(1, Register ''h''), (2, Register ''h''), (3, Finish ''h''), (60 * second, Clean), (60 * second, Register ''h'')]"

theorem dedup_refines_spec_witness:
  "dedup_run dedup_scenario (NewMemoryDedupStore duplicateWindow duplicateCleanupWindow)
    = [(False, False), (True, True), (False, False)]"
proof -
  have "sorted (map fst dedup_scenario)" "duplicateWindow \<le> duplicateCleanupWindow"
    "finishes_matched duplicateWindow dedup_scenario Map.empty"
    by (simp_all add: dedup_scenario_def duplicateWindow_def duplicateCleanupWindow_def second_def
        register_fn_def finish_fn_def t_sub_def max_duration_def min_duration_def)
  from dedup_refines_spec [OF this] show ?thesis
    by (simp add: dedup_scenario_def duplicateWindow_def second_def register_fn_def register_answer_def
        finish_fn_def t_sub_def max_duration_def min_duration_def)
qed

definition in_flight :: "dedup_store \<Rightarrow> string \<Rightarrow> int" where
  "in_flight s k = (case dedup_get s k of None \<Rightarrow> 0 | Some r \<Rightarrow> rr_inFlight r)"

lemma in_flight_Register:
  assumes "sm_wf (ds_requests s)" and "dedup_Register now h s = ((dup, fl), s')"
  shows "in_flight s' k = in_flight s k + (if \<not> dup \<and> k = h then 1 else 0)"
  using dedup_Register_get(1,2) [OF assms]
  by (auto simp: in_flight_def register_fn_def register_answer_def split: option.splits if_splits)

lemma in_flight_Finish:
  assumes "sm_wf (ds_requests s)" and "0 < in_flight s h"
  shows "in_flight (dedup_Finish now h s) k = in_flight s k - (if k = h then 1 else 0)"
  using dedup_Finish_get(1) [OF assms(1)] assms(2)
  by (auto simp: in_flight_def finish_fn_def split: option.splits)

text \<open>
  A suppressed request leaves no trace in the counts: whatever the outcome of the two
  checks in the handler, a duplicate that is answered at once (a semantic one after its exact key
  was already registered included) leaves every key's in-flight count as it was, and a request
  that proceeds has raised exactly the keys it will finish, by one each.
\<close>

theorem suppressed_leaves_counts:
  assumes "sm_wf (ds_requests s)" and "\<And>k. 0 \<le> in_flight s k"
    and "dedup_request now bypassDedup reqHash semanticHash retryCount s = (out, s')"
  shows "case out of Proceed keys \<Rightarrow> \<forall>k. in_flight s' k = in_flight s k + int (count_list keys k)
    | _ \<Rightarrow> \<forall>k. in_flight s' k = in_flight s k"
proof (cases bypassDedup)
  case True
  then show ?thesis using assms(3) by (auto simp: dedup_request_def)
next
  case False
  let ?e = "''exact:'' @ reqHash" and ?m = "''semantic:'' @ semanticHash"
  obtain d fl s1 where r1: "dedup_Register now ?e s = ((d, fl), s1)" by (metis prod.collapse)
  note f1 = in_flight_Register [OF assms(1) r1]
  have wf1: "sm_wf (ds_requests s1)" by (rule dedup_Register_get(3) [OF assms(1) r1])
  obtain d2 fl2 s2 where r2: "dedup_Register now ?m s1 = ((d2, fl2), s2)" by (metis prod.collapse)
  note f2 = in_flight_Register [OF wf1 r2]
  have wf2: "sm_wf (ds_requests s2)" by (rule dedup_Register_get(3) [OF wf1 r2])
  show ?thesis
  proof (cases "d \<or> semanticHash = '''' \<or> \<not> d2")
    case True
    then show ?thesis using assms(3) False r1 r2 f1 f2
      by (auto simp: dedup_request_def Let_def split: if_splits)
  next
    case dup: False
    have "0 < in_flight s2 ?e" using f1 f2 dup assms(2) [of ?e] by simp
    note fin = in_flight_Finish [OF wf2 this]
    show ?thesis using assms(3) False r1 r2 f1 f2 fin dup
      by (auto simp: dedup_request_def Let_def split: if_splits)
  qed
qed

theorem suppressed_leaves_counts_witness:
  "in_flight (snd (dedup_request 5 False ''a'' '''' 0 (NewMemoryDedupStore duplicateWindow duplicateCleanupWindow))) ''exact:a'' = 1"
proof -
  let ?s = "NewMemoryDedupStore duplicateWindow duplicateCleanupWindow"
  have s: "sm_wf (ds_requests ?s)" "\<And>k. in_flight ?s k = 0"
    by (simp_all add: NewMemoryDedupStore_def in_flight_def dedup_get_def)
  obtain out s' where r: "dedup_request 5 False ''a'' '''' 0 ?s = (out, s')" by force
  have "dedup_Register 5 ''exact:a'' ?s = ((False, False), snd (dedup_Register 5 ''exact:a'' ?s))"
    using dedup_Register_get(1) [OF s(1), of 5 "''exact:a''"]
    by (auto simp: NewMemoryDedupStore_def dedup_get_def register_answer_def prod_eq_iff)
  then have "out = Proceed [''exact:a'']" using r by (auto simp: dedup_request_def Let_def split: prod.splits)
  then show ?thesis using suppressed_leaves_counts [OF s(1) _ r] s(2) r by simp
qed

section \<open>The session store\<close>

record memory_session =
  ms_workdir :: string
  ms_convID :: string
  ms_lastAccess :: instant

record memory_session_store =
  mss_sessions :: "(string, memory_session) gomap"
  mss_ttl :: duration
  mss_maxSize :: int

definition NewMemorySessionStore :: "duration \<Rightarrow> int \<Rightarrow> memory_session_store" where
  "NewMemorySessionStore ttl maxSize = \<lparr>mss_sessions = [], mss_ttl = ttl, mss_maxSize = maxSize\<rparr>"

text \<open>
  \<open>getOrCreate\<close> returns a pointer into the map; here it returns the map with the entry in it, and
  the caller's writes through the pointer are an update of that entry.
\<close>

definition getOrCreate :: "string \<Rightarrow> memory_session_store \<Rightarrow> memory_session \<times> memory_session_store" where
  "getOrCreate key s = (case gm_get (mss_sessions s) key of
     Some sess \<Rightarrow> (sess, s)
   | None \<Rightarrow> (let m = (if 0 < mss_maxSize s \<and> mss_maxSize s \<le> int (length (mss_sessions s))
                     then evict_mark ms_lastAccess (mss_sessions s) else mss_sessions s);
                 sess = \<lparr>ms_workdir = '''', ms_convID = '''', ms_lastAccess = zero_time\<rparr>
             in (sess, s\<lparr>mss_sessions := gm_put key sess m\<rparr>)))"

definition GetWorkdir :: "string \<Rightarrow> memory_session_store \<Rightarrow> string \<times> bool" where
  "GetWorkdir key s = (case gm_get (mss_sessions s) key of None \<Rightarrow> ('''', False)
     | Some sess \<Rightarrow> if ms_workdir sess = '''' then ('''', False) else (ms_workdir sess, True))"

definition GetConvID :: "string \<Rightarrow> memory_session_store \<Rightarrow> string \<times> bool" where
  "GetConvID key s = (case gm_get (mss_sessions s) key of None \<Rightarrow> ('''', False)
     | Some sess \<Rightarrow> if ms_convID sess = '''' then ('''', False) else (ms_convID sess, True))"

definition SetWorkdir :: "instant \<Rightarrow> string \<Rightarrow> string \<Rightarrow> memory_session_store \<Rightarrow> memory_session_store" where
  "SetWorkdir now key workdir s = (let (sess, s) = getOrCreate key s in
     s\<lparr>mss_sessions := gm_put key (sess\<lparr>ms_workdir := workdir, ms_lastAccess := now\<rparr>) (mss_sessions s)\<rparr>)"

definition SetConvID :: "instant \<Rightarrow> string \<Rightarrow> string \<Rightarrow> memory_session_store \<Rightarrow> memory_session_store" where
  "SetConvID now key convID s = (let (sess, s) = getOrCreate key s in
     s\<lparr>mss_sessions := gm_put key (sess\<lparr>ms_convID := convID, ms_lastAccess := now\<rparr>) (mss_sessions s)\<rparr>)"

definition DeleteSession :: "string \<Rightarrow> memory_session_store \<Rightarrow> memory_session_store" where
  "DeleteSession key s = s\<lparr>mss_sessions := gm_del key (mss_sessions s)\<rparr>"

definition Touch :: "instant \<Rightarrow> string \<Rightarrow> memory_session_store \<Rightarrow> memory_session_store" where
  "Touch now key s = (case gm_get (mss_sessions s) key of None \<Rightarrow> s
     | Some sess \<Rightarrow> s\<lparr>mss_sessions := gm_put key (sess\<lparr>ms_lastAccess := now\<rparr>) (mss_sessions s)\<rparr>)"

definition sessions_Cleanup :: "instant \<Rightarrow> memory_session_store \<Rightarrow> memory_session_store" where
  "sessions_Cleanup now s = s\<lparr>mss_sessions :=
     filter (\<lambda>(key, sess). \<not> mss_ttl s < t_sub now (ms_lastAccess sess)) (mss_sessions s)\<rparr>"

text \<open>
  The callers guard every write with a test that the key is not empty; under that use the eviction
  scan, which marks "none found yet" by the empty key, finds the oldest entry.
\<close>

definition sessions_inv :: "memory_session_store \<Rightarrow> bool" where
  "sessions_inv s \<longleftrightarrow> gm_wf (mss_sessions s) \<and> '''' \<notin> fst ` set (mss_sessions s)"

definition session_room :: "string \<Rightarrow> memory_session_store \<Rightarrow> (string, memory_session) gomap" where
  "session_room key s = (if gm_get (mss_sessions s) key = None \<and> 0 < mss_maxSize s
       \<and> mss_maxSize s \<le> int (length (mss_sessions s))
     then evict_flag ms_lastAccess (mss_sessions s) else mss_sessions s)"

lemma getOrCreate_room:
  assumes "sessions_inv s"
  shows "getOrCreate key s = (case gm_get (mss_sessions s) key of Some sess \<Rightarrow> (sess, s)
    | None \<Rightarrow> (\<lparr>ms_workdir = '''', ms_convID = '''', ms_lastAccess = zero_time\<rparr>,
        s\<lparr>mss_sessions := gm_put key \<lparr>ms_workdir = '''', ms_convID = '''', ms_lastAccess = zero_time\<rparr>
            (session_room key s)\<rparr>))"
  using assms evict_mark_eq_flag [of "mss_sessions s" ms_lastAccess]
  by (simp add: getOrCreate_def session_room_def sessions_inv_def Let_def split: option.split)

lemma session_room_facts:
  assumes "sessions_inv s"
  shows "gm_wf (session_room k s)" and "set (session_room k s) \<subseteq> set (mss_sessions s)"
    and "gm_get (session_room k s) k' = Some x \<Longrightarrow> gm_get (mss_sessions s) k' = Some x"
    and "0 < mss_maxSize s \<Longrightarrow> int (length (mss_sessions s)) \<le> mss_maxSize s
      \<Longrightarrow> int (length (gm_put k v (session_room k s))) \<le> mss_maxSize s"
proof -
  have wf: "gm_wf (mss_sessions s)" using assms by (simp add: sessions_inv_def)
  show "gm_wf (session_room k s)" using wf by (auto simp: session_room_def)
  show "set (session_room k s) \<subseteq> set (mss_sessions s)"
    using evict_subset(1) [of ms_lastAccess "mss_sessions s"] by (auto simp: session_room_def)
  show "gm_get (session_room k s) k' = Some x \<Longrightarrow> gm_get (mss_sessions s) k' = Some x"
    using evict_get(1) [of ms_lastAccess "mss_sessions s" k' x]
    by (simp add: session_room_def split: if_splits del: map_of_eq_Some_iff)
  assume cap: "0 < mss_maxSize s" "int (length (mss_sessions s)) \<le> mss_maxSize s"
  show "int (length (gm_put k v (session_room k s))) \<le> mss_maxSize s"
  proof (cases "gm_get (mss_sessions s) k = None \<and> mss_maxSize s \<le> int (length (mss_sessions s))")
    case True
    then have "mss_sessions s \<noteq> []" using cap(1) by auto
    with evict_flag_length [OF wf this, of ms_lastAccess] True cap
    have "length (session_room k s) < length (mss_sessions s)" by (simp add: session_room_def)
    with cap(2) show ?thesis by (auto simp: gm_len_put)
  next
    case False
    then have "session_room k s = mss_sessions s" by (auto simp: session_room_def)
    with False cap show ?thesis by (auto simp: gm_len_put)
  qed
qed

definition with_workdir :: "instant \<Rightarrow> string \<Rightarrow> string \<Rightarrow> memory_session_store \<Rightarrow> memory_session" where
  "with_workdir now k w s = (case gm_get (mss_sessions s) k of
     None \<Rightarrow> \<lparr>ms_workdir = w, ms_convID = '''', ms_lastAccess = now\<rparr>
   | Some x \<Rightarrow> x\<lparr>ms_workdir := w, ms_lastAccess := now\<rparr>)"

lemma with_workdir_fields [simp]:
  "ms_workdir (with_workdir now k w s) = w" "ms_lastAccess (with_workdir now k w s) = now"
  "ms_convID (with_workdir now k w s) = (case gm_get (mss_sessions s) k of None \<Rightarrow> '''' | Some x \<Rightarrow> ms_convID x)"
  by (simp_all add: with_workdir_def split: option.split)

lemma SetWorkdir_sessions:
  assumes "sessions_inv s"
  shows "mss_sessions (SetWorkdir now k w s) = gm_put k (with_workdir now k w s) (session_room k s)"
    and "mss_ttl (SetWorkdir now k w s) = mss_ttl s" and "mss_maxSize (SetWorkdir now k w s) = mss_maxSize s"
proof -
  have same: "session_room k s = mss_sessions s" if "gm_get (mss_sessions s) k = Some x" for x
    using that by (simp add: session_room_def del: map_of_eq_Some_iff)
  show "mss_sessions (SetWorkdir now k w s) = gm_put k (with_workdir now k w s) (session_room k s)"
    using same by (cases "gm_get (mss_sessions s) k")
      (simp_all add: SetWorkdir_def getOrCreate_room [OF assms] Let_def with_workdir_def del: map_of_eq_Some_iff)
  show "mss_ttl (SetWorkdir now k w s) = mss_ttl s" "mss_maxSize (SetWorkdir now k w s) = mss_maxSize s"
    by (simp_all add: SetWorkdir_def getOrCreate_room [OF assms] Let_def split: option.split)
qed

lemma SetWorkdir_inv:
  assumes "sessions_inv s" and "k \<noteq> ''''"
  shows "sessions_inv (SetWorkdir now k w s)"
proof -
  let ?v = "with_workdir now k w s"
  have "'''' \<notin> fst ` set (gm_put k ?v (session_room k s))"
    using gm_put_subset [of k ?v "session_room k s"] session_room_facts(2) [OF assms(1), of k] assms
    by (force simp: sessions_inv_def)
  then show ?thesis using session_room_facts(1) [OF assms(1)]
    by (simp add: sessions_inv_def SetWorkdir_sessions(1) [OF assms(1)])
qed

text \<open>The store as a size-bounded cache: keys are non-empty strings, values working directories.\<close>

definition workdir_entry :: "memory_session_store \<Rightarrow> char \<times> string \<Rightarrow> (string \<times> instant) option" where
  "workdir_entry s k = map_option (\<lambda>v. (ms_workdir v, ms_lastAccess v)) (gm_get (mss_sessions s) (fst k # snd k))"

definition session_put :: "char \<times> string \<Rightarrow> string \<times> instant \<Rightarrow> memory_session_store \<Rightarrow> memory_session_store" where
  "session_put k v s = SetWorkdir (snd v) (fst k # snd k) (fst v) s"

interpretation workdirs: bounded_cache sessions_inv session_put workdir_entry
  "\<lambda>s. length (mss_sessions s)" "\<lambda>s. nat (mss_maxSize s)"
proof
  fix s :: memory_session_store and k k' :: "char \<times> string" and v w :: "string \<times> instant"
  assume inv: "sessions_inv s"
  obtain x where x: "mss_sessions (session_put k v s) = gm_put (fst k # snd k) x (session_room (fst k # snd k) s)"
    "ms_workdir x = fst v" "ms_lastAccess x = snd v"
    using SetWorkdir_sessions(1) [OF inv] unfolding session_put_def by simp
  show "sessions_inv (session_put k v s)" using inv by (simp add: session_put_def SetWorkdir_inv)
  show "workdir_entry (session_put k v s) k = Some v"
    using x by (simp add: workdir_entry_def gomap_simps)
  show "workdir_entry s k' = Some w" if "k' \<noteq> k" "workdir_entry (session_put k v s) k' = Some w"
    using that x session_room_facts(3) [OF inv, of "fst k # snd k" "fst k' # snd k'"]
    by (auto simp: workdir_entry_def gomap_simps prod_eq_iff)
  show "length (mss_sessions (session_put k v s)) \<le> nat (mss_maxSize s)"
    if "0 < nat (mss_maxSize s)" "length (mss_sessions s) \<le> nat (mss_maxSize s)"
  proof -
    have "int (length (gm_put (fst k # snd k) x (session_room (fst k # snd k) s))) \<le> mss_maxSize s"
      by (rule session_room_facts(4) [OF inv]) (use that in linarith)+
    then show ?thesis unfolding x(1) by linarith
  qed
next
  fix s :: memory_session_store and k :: "char \<times> string" and v :: "string \<times> instant"
  show "nat (mss_maxSize (session_put k v s)) = nat (mss_maxSize s)"
    by (simp add: session_put_def SetWorkdir_def getOrCreate_def Let_def split: option.split)
qed

text \<open>
  Sessions of different conversations do not mix and are bounded: a non-empty working
  directory is read back for its conversation until overwritten, deleted, expired or evicted; a
  write for one conversation never changes what another one reads to anything but "not found"; the
  conversation ID survives a change of directory; and the number of sessions stays within the cap.
\<close>

theorem sessions_isolated:
  assumes "sessions_inv s" and "k \<noteq> ''''" and "w \<noteq> ''''"
  shows "GetWorkdir k (SetWorkdir now k w s) = (w, True)
    \<and> GetConvID k (SetWorkdir now k w s) = GetConvID k s
    \<and> (\<forall>k'. k' \<noteq> k \<longrightarrow> GetWorkdir k' (SetWorkdir now k w s) \<in> {GetWorkdir k' s, ('''', False)})
    \<and> (0 < mss_maxSize s \<and> int (length (mss_sessions s)) \<le> mss_maxSize s
        \<longrightarrow> int (length (mss_sessions (SetWorkdir now k w s))) \<le> mss_maxSize s)
    \<and> sessions_inv (SetWorkdir now k w s)"
proof -
  obtain v where v: "mss_sessions (SetWorkdir now k w s) = gm_put k v (session_room k s)"
    "ms_workdir v = w" "ms_convID v = (case gm_get (mss_sessions s) k of None \<Rightarrow> '''' | Some x \<Rightarrow> ms_convID x)"
    using SetWorkdir_sessions(1) [OF assms(1)] by simp
  have "GetWorkdir k' (SetWorkdir now k w s) \<in> {GetWorkdir k' s, ('''', False)}" if "k' \<noteq> k" for k'
    using session_room_facts(3) [OF assms(1), of k k'] that
    by (cases "gm_get (session_room k s) k'") (simp_all add: GetWorkdir_def v(1) gomap_simps)
  moreover have "GetWorkdir k (SetWorkdir now k w s) = (w, True)"
    using assms(3) v by (simp add: GetWorkdir_def gomap_simps)
  moreover have "GetConvID k (SetWorkdir now k w s) = GetConvID k s"
    using v by (simp add: GetConvID_def gomap_simps split: option.split)
  moreover have "int (length (mss_sessions (SetWorkdir now k w s))) \<le> mss_maxSize s"
    if "0 < mss_maxSize s" "int (length (mss_sessions s)) \<le> mss_maxSize s"
    unfolding v(1) by (rule session_room_facts(4) [OF assms(1) that])
  ultimately show ?thesis using SetWorkdir_inv [OF assms(1,2)] by blast
qed

theorem sessions_isolated_witness:
  "GetWorkdir ''c1'' (SetWorkdir 9 ''c1'' ''/srv'' (NewMemorySessionStore (30 * minute) 1024)) = (''/srv'', True)"
  using sessions_isolated [of "NewMemorySessionStore (30 * minute) 1024" "''c1''" "''/srv''" 9]
  by (simp add: sessions_inv_def NewMemorySessionStore_def)

end
