(* ===== verification/Account_Store.thy ===== *)
theory Account_Store
  imports Redis_Server Accounts
begin

text \<open>
  The account part of \<open>internal/store/redis_store.go\<close>: one JSON record per account, the set of
  all account IDs, the set of the enabled ones and a counter for new IDs. The Redis server and the
  JSON codec are parameters (theory Redis_Server); each call takes the faults of its round trips.
  The lemmas show that the store keeps its invariant whatever faults occur, that without faults it
  refines a table of accounts, and what the listings return.
\<close>

definition accountsKey :: "'r redis_store \<Rightarrow> int \<Rightarrow> string" where
  "accountsKey S aid = prefix S @ ''accounts:id:'' @ itoa aid"

definition accountsIDsKey :: "'r redis_store \<Rightarrow> string" where
  "accountsIDsKey S = prefix S @ ''accounts:ids''"

definition accountsEnabledKey :: "'r redis_store \<Rightarrow> string" where
  "accountsEnabledKey S = prefix S @ ''accounts:enabled''"

definition accountsNextIDKey :: "'r redis_store \<Rightarrow> string" where
  "accountsNextIDKey S = prefix S @ ''accounts:next_id''"

lemma accounts_keys [simp]:
  "accountsKey S i = accountsKey S j \<longleftrightarrow> i = j"
  "accountsKey S i \<noteq> accountsIDsKey S" "accountsKey S i \<noteq> accountsEnabledKey S" "accountsKey S i \<noteq> accountsNextIDKey S"
  "accountsIDsKey S \<noteq> accountsKey S i" "accountsEnabledKey S \<noteq> accountsKey S i" "accountsNextIDKey S \<noteq> accountsKey S i"
  "accountsIDsKey S \<noteq> accountsEnabledKey S" "accountsIDsKey S \<noteq> accountsNextIDKey S"
  "accountsEnabledKey S \<noteq> accountsIDsKey S" "accountsEnabledKey S \<noteq> accountsNextIDKey S"
  "accountsNextIDKey S \<noteq> accountsIDsKey S" "accountsNextIDKey S \<noteq> accountsEnabledKey S"
  by (simp_all add: accountsKey_def accountsIDsKey_def accountsEnabledKey_def accountsNextIDKey_def)

section \<open>The operations\<close>

definition getAccount :: "'r redis_store \<Rightarrow> account codec \<Rightarrow> faults \<Rightarrow> int \<Rightarrow> 'r \<Rightarrow> store_error + account" where
  "getAccount S J ft aid r =
    (if aid = 0 then Inl NoRows
     else if ft 0 \<noteq> None then Inl Unreachable
     else (case r_get (client S) r (accountsKey S aid) of
         None \<Rightarrow> Inl NoRows
       | Some value \<Rightarrow> (case unmarshal J value of
           None \<Rightarrow> Inl Undecodable
         | Some acc \<Rightarrow> Inr (if ID acc = 0 then acc\<lparr>ID := aid\<rparr> else acc))))"

definition GetAccount :: "'r redis_store \<Rightarrow> account codec \<Rightarrow> faults \<Rightarrow> int \<Rightarrow> 'r \<Rightarrow> store_error + account" where
  "GetAccount S J ft aid r = (if \<not> configured S then Inl NotConfigured else getAccount S J ft aid r)"

text \<open>The pipeline that writes an account and files its ID; \<open>CreateAccount\<close> and \<open>UpdateAccount\<close> share it.\<close>

definition account_commands :: "'r redis_store \<Rightarrow> int \<Rightarrow> string \<Rightarrow> bool \<Rightarrow> command list" where
  "account_commands S aid data enabled =
    [SET (accountsKey S aid) data, SADD (accountsIDsKey S) (itoa aid),
     if enabled then SADD (accountsEnabledKey S) (itoa aid) else SREM (accountsEnabledKey S) (itoa aid)]"

text \<open>The account as \<open>CreateAccount\<close> completes it: its ID, and the times that are not set yet.\<close>

definition stamp_account :: "int \<Rightarrow> instant \<Rightarrow> account \<Rightarrow> account" where
  "stamp_account aid now acc = acc\<lparr>ID := aid,
     CreatedAt := (if is_zero (CreatedAt acc) then now else CreatedAt acc),
     UpdatedAt := (if is_zero (UpdatedAt acc) then now else UpdatedAt acc)\<rparr>"

text \<open>\<open>CreateAccount\<close> also changes the caller's account, the second component of the result.\<close>

definition CreateAccount :: "'r redis_store \<Rightarrow> account codec \<Rightarrow> faults \<Rightarrow> instant \<Rightarrow> account \<Rightarrow> 'r
    \<Rightarrow> store_error option \<times> account \<times> 'r" where
  "CreateAccount S J ft now acc r =
    (if \<not> configured S then (Some NotConfigured, acc, r)
     else (case incr (client S) (ft 0) (accountsNextIDKey S) r of
         (None, r1) \<Rightarrow> (Some Unreachable, acc, r1)
       | (Some aid, r1) \<Rightarrow>
           (let acc = stamp_account aid now acc
            in case marshal J acc of
                None \<Rightarrow> (Some Unencodable, acc, r1)
              | Some data \<Rightarrow>
                  let (e, r2) = pipeline (client S) (ft 1) (account_commands S aid data (Enabled acc)) r1
                  in (e, acc, r2))))"

definition UpdateAccount :: "'r redis_store \<Rightarrow> account codec \<Rightarrow> faults \<Rightarrow> instant \<Rightarrow> account \<Rightarrow> 'r
    \<Rightarrow> store_error option \<times> 'r" where
  "UpdateAccount S J ft now acc r =
    (if \<not> configured S then (Some NotConfigured, r)
     else if ID acc = 0 then (None, r)
     else (case getAccount S J ft (ID acc) r of
         Inl e \<Rightarrow> if e = NoRows then (None, r) else (Some e, r)
       | Inr existing \<Rightarrow>
           (let updated = merge_update existing acc now
            in case marshal J updated of
                None \<Rightarrow> (Some Unencodable, r)
              | Some data \<Rightarrow> pipeline (client S) (ft 1) (account_commands S (ID acc) data (Enabled updated)) r)))"

definition DeleteAccount :: "'r redis_store \<Rightarrow> faults \<Rightarrow> int \<Rightarrow> 'r \<Rightarrow> store_error option \<times> 'r" where
  "DeleteAccount S ft aid r =
    (if \<not> configured S then (Some NotConfigured, r)
     else if aid = 0 then (None, r)
     else pipeline (client S) (ft 0)
       [DEL (accountsKey S aid), SREM (accountsIDsKey S) (itoa aid), SREM (accountsEnabledKey S) (itoa aid)] r)"

section \<open>Listings\<close>

text \<open>The IDs of a set that parse as numbers, in increasing order.\<close>

definition parse_ids :: "string list \<Rightarrow> int list" where
  "parse_ids ids = sort (List.map_filter (\<lambda>raw. let raw = trim_space raw
     in if raw = '''' then None else parse_int64 raw) ids)"

definition decode_row :: "account codec \<Rightarrow> bool \<Rightarrow> int \<times> string option \<Rightarrow> account option" where
  "decode_row J onlyEnabled row = (case row of (idNum, value) \<Rightarrow>
     (case value of
        None \<Rightarrow> None
      | Some strVal \<Rightarrow> if strVal = '''' then None
          else (case unmarshal J strVal of
              None \<Rightarrow> None
            | Some acc \<Rightarrow> let acc = (if ID acc = 0 then acc\<lparr>ID := idNum\<rparr> else acc)
                in if onlyEnabled \<and> \<not> Enabled acc then None else Some acc)))"

text \<open>
  \<open>util.ParallelFor\<close> over a slice of results: the workers call the function for each index once, in
  an order \<open>order\<close> the scheduler chooses, and each call writes the cell of its index.
\<close>

definition parallel_for :: "nat list \<Rightarrow> nat \<Rightarrow> (nat \<Rightarrow> 'a option) \<Rightarrow> 'a option list" where
  "parallel_for order n f = fold (\<lambda>idx results. case f idx of None \<Rightarrow> results | Some x \<Rightarrow> results[idx := Some x])
     order (replicate n None)"

text \<open>
  \<open>getAccountsByIDs\<close>: the records come from a pipeline of \<open>GET\<close>s (the second round trip of the
  call) or, when it fails, from an \<open>MGET\<close> (the third); 32 rows or more are decoded in parallel.
\<close>

definition getAccountsByIDs :: "'r redis_store \<Rightarrow> account codec \<Rightarrow> faults \<Rightarrow> nat list \<Rightarrow> string list \<Rightarrow> bool \<Rightarrow> 'r
    \<Rightarrow> store_error + account list" where
  "getAccountsByIDs S J ft order ids onlyEnabled r =
    (let idNums = parse_ids ids;
         values = map (\<lambda>aid. r_get (client S) r (accountsKey S aid)) idNums;
         rows = zip idNums values
     in if ids = [] \<or> idNums = [] then Inr []
        else if ft 1 \<noteq> None \<and> ft 2 \<noteq> None then Inl Unreachable
        else if 32 \<le> length values
          then Inr (List.map_filter Fun.id (parallel_for order (length values) (\<lambda>idx. decode_row J onlyEnabled (rows ! idx))))
          else Inr (List.map_filter (decode_row J onlyEnabled) rows))"

definition ListAccounts :: "'r redis_store \<Rightarrow> account codec \<Rightarrow> faults \<Rightarrow> nat list \<Rightarrow> 'r \<Rightarrow> store_error + account list" where
  "ListAccounts S J ft order r =
    (if \<not> configured S then Inl NotConfigured
     else if ft 0 \<noteq> None then Inl Unreachable
     else getAccountsByIDs S J ft order (r_smembers (client S) r (accountsIDsKey S)) False r)"

definition GetEnabledAccounts :: "'r redis_store \<Rightarrow> account codec \<Rightarrow> faults \<Rightarrow> nat list \<Rightarrow> 'r \<Rightarrow> store_error + account list" where
  "GetEnabledAccounts S J ft order r =
    (if \<not> configured S then Inl NotConfigured
     else if ft 0 \<noteq> None then Inl Unreachable
     else getAccountsByIDs S J ft order (r_smembers (client S) r (accountsEnabledKey S)) True r)"

section \<open>Runs\<close>

datatype account_op = Create instant account | Update instant account | Delete int

text \<open>One operation with its faults; the first component is the ID a successful creation returns.\<close>

fun account_step :: "'r redis_store \<Rightarrow> account codec \<Rightarrow> account_op \<times> faults \<Rightarrow> 'r \<Rightarrow> int option \<times> 'r" where
  "account_step S J (Create now acc, ft) r = (case CreateAccount S J ft now acc r of
     (e, acc', r') \<Rightarrow> (if e = None then Some (ID acc') else None, r'))"
| "account_step S J (Update now acc, ft) r = (None, snd (UpdateAccount S J ft now acc r))"
| "account_step S J (Delete aid, ft) r = (None, snd (DeleteAccount S ft aid r))"

fun account_run :: "'r redis_store \<Rightarrow> account codec \<Rightarrow> (account_op \<times> faults) list \<Rightarrow> 'r \<Rightarrow> int list \<times> 'r" where
  "account_run S J [] r = ([], r)"
| "account_run S J (op # ops) r = (case account_step S J op r of
     (i, r1) \<Rightarrow> case account_run S J ops r1 of
     (is, r2) \<Rightarrow> (case i of None \<Rightarrow> is | Some n \<Rightarrow> n # is, r2))"

text \<open>The abstract store: the counter and the table of accounts.\<close>

fun table_step :: "account codec \<Rightarrow> account_op \<Rightarrow> int \<times> (int \<Rightarrow> account option) \<Rightarrow> int \<times> (int \<Rightarrow> account option)" where
  "table_step J (Create now acc) (n, M) =
     (if \<not> in64 (n + 1) then (n, M)
      else if marshal J (stamp_account (n + 1) now acc) = None then (n + 1, M)
      else (n + 1, M(n + 1 \<mapsto> stamp_account (n + 1) now acc)))"
| "table_step J (Update now acc) (n, M) = (case M (ID acc) of
     None \<Rightarrow> (n, M)
   | Some old \<Rightarrow> if marshal J (merge_update old acc now) = None then (n, M)
       else (n, M(ID acc \<mapsto> merge_update old acc now)))"
| "table_step J (Delete aid) (n, M) = (n, M(aid := None))"

definition table_run :: "account codec \<Rightarrow> account_op list \<Rightarrow> int \<times> (int \<Rightarrow> account option)" where
  "table_run J ops = fold (table_step J) ops (0, \<lambda>aid. None)"

definition accounts_of :: "'r redis_store \<Rightarrow> account codec \<Rightarrow> 'r \<Rightarrow> int \<Rightarrow> account option" where
  "accounts_of S J r aid = Option.bind (r_get (client S) r (accountsKey S aid)) (unmarshal J)"

text \<open>An account whose strings JSON keeps as they are.\<close>

definition plain_account :: "account \<Rightarrow> bool" where
  "plain_account a \<longleftrightarrow> list_all plain_string [Name a, AccountType a, SessionID a, ClientCookie a, RefreshToken a,
     DeviceID a, RequestID a, SessionCookie a, ClientUat a, ProjectID a, UserID a, AgentMode a, Email a,
     Token a, Subscription a, StatusCode a]"

fun plain_op :: "account_op \<Rightarrow> bool" where
  "plain_op (Create now acc) \<longleftrightarrow> plain_account acc"
| "plain_op (Update now acc) \<longleftrightarrow> plain_account acc"
| "plain_op (Delete aid) \<longleftrightarrow> True"

text \<open>A server with nothing of the account store on it.\<close>

definition fresh_accounts :: "'r redis_store \<Rightarrow> 'r \<Rightarrow> bool" where
  "fresh_accounts S r \<longleftrightarrow> r_get (client S) r (accountsNextIDKey S) = None
     \<and> (\<forall>aid. r_get (client S) r (accountsKey S aid) = None)
     \<and> r_smembers (client S) r (accountsIDsKey S) = [] \<and> r_smembers (client S) r (accountsEnabledKey S) = []"

lemma plain_account_changes [simp]:
  "plain_account (stamp_account aid now a) = plain_account a"
  by (simp add: plain_account_def stamp_account_def)

lemma plain_merge: "plain_account a \<Longrightarrow> plain_account b \<Longrightarrow> plain_account (merge_update a b now)"
  by (simp add: plain_account_def merge_update_def)

lemma stamp_account_ID [simp]: "ID (stamp_account aid now a) = aid" "Enabled (stamp_account aid now a) = Enabled a"
  by (simp_all add: stamp_account_def)

lemma merge_update_ID [simp]: "ID (merge_update a b now) = ID a" "Enabled (merge_update a b now) = Enabled b"
  by (simp_all add: merge_update_def)

section \<open>The invariant\<close>

text \<open>
  What holds whatever faults occur: no ID beyond the counter \<open>n\<close> is in use, every record decodes to
  an account that carries the ID of its key, and the sets hold such IDs. Under faults the sets need
  not agree with the records.
\<close>

definition record_ok :: "account codec \<Rightarrow> int \<Rightarrow> int \<Rightarrow> string \<Rightarrow> bool" where
  "record_ok J n i d \<longleftrightarrow> 0 < i \<and> i \<le> n \<and> d \<noteq> '''' \<and> (\<exists>a. plain_account a \<and> unmarshal J d = Some a \<and> ID a = i)"

definition accounts_inv :: "'r redis_store \<Rightarrow> account codec \<Rightarrow> int \<Rightarrow> 'r \<Rightarrow> bool" where
  "accounts_inv S J n r \<longleftrightarrow> 0 \<le> n \<and> counter_at (client S) r (accountsNextIDKey S) n
     \<and> (\<forall>i d. r_get (client S) r (accountsKey S i) = Some d \<longrightarrow> record_ok J n i d)
     \<and> (\<forall>m \<in> members (client S) r (accountsIDsKey S) \<union> members (client S) r (accountsEnabledKey S).
          \<exists>i. 0 < i \<and> i \<le> n \<and> m = itoa i)"

fun safe_command :: "'r redis_store \<Rightarrow> account codec \<Rightarrow> int \<Rightarrow> command \<Rightarrow> bool" where
  "safe_command S J n (SET k v) \<longleftrightarrow> (\<exists>i. k = accountsKey S i \<and> record_ok J n i v)"
| "safe_command S J n (DEL k) \<longleftrightarrow> (\<exists>i. k = accountsKey S i)"
| "safe_command S J n (SADD k m) \<longleftrightarrow> k \<in> {accountsIDsKey S, accountsEnabledKey S} \<and> (\<exists>i. 0 < i \<and> i \<le> n \<and> m = itoa i)"
| "safe_command S J n (SREM k m) \<longleftrightarrow> k \<in> {accountsIDsKey S, accountsEnabledKey S}"
| "safe_command S J n _ \<longleftrightarrow> False"

lemma safe_command_inv:
  assumes "redis_ok (client S)" and "accounts_inv S J n r" and "safe_command S J n c"
  shows "accounts_inv S J n (exec (client S) c r)"
proof (cases c)
  case (SET k v)
  then obtain i where "k = accountsKey S i" "record_ok J n i v" using assms(3) by auto
  then show ?thesis using assms(2) SET
    by (simp add: accounts_inv_def counter_at_def redis_get [OF assms(1)] redis_members [OF assms(1)])
next
  case (DEL k)
  then obtain i where "k = accountsKey S i" using assms(3) by auto
  then show ?thesis using assms(2) DEL
    by (simp add: accounts_inv_def counter_at_def redis_get [OF assms(1)] redis_members [OF assms(1)])
next
  case (SADD k m)
  then show ?thesis using assms(2,3)
    by (auto simp: accounts_inv_def counter_at_def redis_get [OF assms(1)] redis_members [OF assms(1)])
next
  case (SREM k m)
  then show ?thesis using assms(2,3)
    by (auto simp: accounts_inv_def counter_at_def redis_get [OF assms(1)] redis_members [OF assms(1)])
qed (use assms(3) in simp_all)

lemma safe_pipeline_inv:
  assumes "redis_ok (client S)" and "accounts_inv S J n r" and "list_all (safe_command S J n) cs"
  shows "accounts_inv S J n (snd (pipeline (client S) f cs r))"
proof (rule pipeline_keeps [where P = "accounts_inv S J n"])
  fix c r
  assume "c \<in> set cs" "accounts_inv S J n r"
  with assms(3) show "accounts_inv S J n (exec (client S) c r)"
    by (intro safe_command_inv [OF assms(1)]) (auto simp: list_all_iff)
qed (rule assms(2))

lemma account_commands_safe:
  assumes "record_ok J n i d"
  shows "list_all (safe_command S J n) (account_commands S i d b)"
  using assms by (auto simp: account_commands_def record_ok_def)

lemma record_ok_marshal:
  assumes "codec_ok plain_account J" and "plain_account a" and "marshal J a = Some d" and "ID a = i" "0 < i" "i \<le> n"
  shows "record_ok J n i d"
  using codec_okD [OF assms(1-3)] assms by (auto simp: record_ok_def)

text \<open>Reading under the invariant: \<open>getAccount\<close> is the record at its key.\<close>

lemma getAccount_inv:
  assumes "accounts_inv S J n r"
  shows "getAccount S J ft i r = (if i \<noteq> 0 \<and> ft 0 \<noteq> None then Inl Unreachable
     else case accounts_of S J r i of None \<Rightarrow> Inl NoRows | Some a \<Rightarrow> Inr a)"
proof (cases "r_get (client S) r (accountsKey S i)")
  case None
  then show ?thesis by (simp add: getAccount_def accounts_of_def)
next
  case (Some d)
  then have "record_ok J n i d" using assms by (simp add: accounts_inv_def)
  then show ?thesis using Some by (auto simp: getAccount_def accounts_of_def record_ok_def)
qed

lemma accounts_of_inv:
  assumes "accounts_inv S J n r" and "accounts_of S J r i = Some a"
  shows "0 < i" "i \<le> n" "ID a = i" "plain_account a"
proof -
  obtain d where d: "r_get (client S) r (accountsKey S i) = Some d" "unmarshal J d = Some a"
    using assms(2) by (auto simp: accounts_of_def bind_eq_Some_conv)
  then have "record_ok J n i d" using assms(1) by (simp add: accounts_inv_def)
  then show "0 < i" "i \<le> n" "ID a = i" "plain_account a" using d(2) by (auto simp: record_ok_def)
qed

section \<open>What each command does to the table\<close>

lemma accounts_of_exec:
  assumes "redis_ok (client S)"
  shows "accounts_of S J (exec (client S) (SET (accountsKey S i) d) r) = (accounts_of S J r)(i := unmarshal J d)"
    and "accounts_of S J (exec (client S) (DEL (accountsKey S i)) r) = (accounts_of S J r)(i := None)"
    and "k \<in> {accountsIDsKey S, accountsEnabledKey S} \<Longrightarrow> accounts_of S J (exec (client S) (SADD k m) r) = accounts_of S J r"
    and "k \<in> {accountsIDsKey S, accountsEnabledKey S} \<Longrightarrow> accounts_of S J (exec (client S) (SREM k m) r) = accounts_of S J r"
  by (auto simp: accounts_of_def fun_eq_iff redis_get [OF assms])

lemma accounts_of_pipeline:
  assumes "redis_ok (client S)"
  shows "accounts_of S J (snd (pipeline (client S) f (account_commands S i d b) r))
    = (if f = Some 0 then accounts_of S J r else (accounts_of S J r)(i := unmarshal J d))"
proof -
  have "take k (account_commands S i d b) = (if k = 0 then [] else SET (accountsKey S i) d # take (k - 1) (tl (account_commands S i d b)))" for k
    by (cases k) (simp_all add: account_commands_def)
  moreover have "accounts_of S J (fold (exec (client S)) (take m (tl (account_commands S i d b))) r) = accounts_of S J r" for m r
    by (rule fold_invariant [where Q = "\<lambda>c. c \<in> set (tl (account_commands S i d b))" and P = "\<lambda>x. accounts_of S J x = accounts_of S J r"])
      (auto simp: account_commands_def accounts_of_exec [OF assms, simplified] split: if_splits dest: in_set_takeD)
  moreover have "fold (exec (client S)) (account_commands S i d b) r
      = fold (exec (client S)) (take 9 (tl (account_commands S i d b))) (exec (client S) (SET (accountsKey S i) d) r)"
    by (simp add: account_commands_def)
  ultimately show ?thesis
    by (cases f) (auto simp: pipeline_def accounts_of_exec [OF assms, simplified])
qed

section \<open>Each operation under faults\<close>

lemma record_ok_mono: "record_ok J n i d \<Longrightarrow> n \<le> m \<Longrightarrow> record_ok J m i d"
  by (auto simp: record_ok_def)

lemma incr_accounts:
  assumes "redis_ok (client S)" and "accounts_inv S J n r"
  shows "\<exists>m. n \<le> m \<and> accounts_inv S J m (snd (incr (client S) f (accountsNextIDKey S) r))
      \<and> (\<forall>i. fst (incr (client S) f (accountsNextIDKey S) r) = Some i \<longrightarrow> i = n + 1 \<and> m = n + 1)"
    and "accounts_of S J (snd (incr (client S) f (accountsNextIDKey S) r)) = accounts_of S J r"
    and "members (client S) (snd (incr (client S) f (accountsNextIDKey S) r)) (accountsIDsKey S)
      = members (client S) r (accountsIDsKey S)"
    and "members (client S) (snd (incr (client S) f (accountsNextIDKey S) r)) (accountsEnabledKey S)
      = members (client S) r (accountsEnabledKey S)"
proof -
  let ?r' = "snd (r_incr (client S) (accountsNextIDKey S) r)"
  have counter: "counter_at (client S) r (accountsNextIDKey S) n" using assms(2) by (simp add: accounts_inv_def)
  note laws = redis_incr [OF assms(1) counter]
  have same: "accounts_of S J ?r' = accounts_of S J r"
    by (simp add: accounts_of_def fun_eq_iff redis_get [OF assms(1)])
  show "accounts_of S J (snd (incr (client S) f (accountsNextIDKey S) r)) = accounts_of S J r"
    using same by (simp add: incr_def split: option.split)
  show "members (client S) (snd (incr (client S) f (accountsNextIDKey S) r)) (accountsIDsKey S)
      = members (client S) r (accountsIDsKey S)"
    "members (client S) (snd (incr (client S) f (accountsNextIDKey S) r)) (accountsEnabledKey S)
      = members (client S) r (accountsEnabledKey S)"
    by (simp_all add: incr_def redis_members [OF assms(1)] split: option.split)
  show "\<exists>m. n \<le> m \<and> accounts_inv S J m (snd (incr (client S) f (accountsNextIDKey S) r))
      \<and> (\<forall>i. fst (incr (client S) f (accountsNextIDKey S) r) = Some i \<longrightarrow> i = n + 1 \<and> m = n + 1)"
  proof (cases "in64 (n + 1)")
    case True
    have "\<exists>i. 0 < i \<and> i \<le> n + 1 \<and> m = itoa i" if "\<exists>i. 0 < i \<and> i \<le> n \<and> m = itoa i" for m
      using that by force
    then have "accounts_inv S J (n + 1) ?r'"
      using assms(2) laws(2) [OF True] True record_ok_mono [of J n _ _ "n + 1"] counter_put [OF assms(1) True, of ?r']
      by (simp add: accounts_inv_def redis_get [OF assms(1)] redis_members [OF assms(1)])
    then show ?thesis using assms(2) laws(1) [OF True]
      by (intro exI [of _ "if f = Some 0 then n else n + 1"]) (auto simp: incr_def split: option.split)
  next
    case False
    then show ?thesis using assms(2) laws(3)
      by (intro exI [of _ n]) (simp add: incr_def split: option.split)
  qed
qed

lemma CreateAccount_inv:
  assumes "redis_ok (client S)" and "codec_ok plain_account J" and "accounts_inv S J n r" and "plain_account acc"
    and "CreateAccount S J ft now acc r = (e, acc', r')"
  shows "\<exists>m. n \<le> m \<and> accounts_inv S J m r' \<and> (e = None \<longrightarrow> ID acc' = n + 1 \<and> m = n + 1)"
proof (cases "incr (client S) (ft 0) (accountsNextIDKey S) r")
  case (Pair res r1)
  obtain m where m: "n \<le> m" "accounts_inv S J m r1" "\<And>i. res = Some i \<Longrightarrow> i = n + 1 \<and> m = n + 1"
    using incr_accounts(1) [OF assms(1,3), of "ft 0"] Pair by auto
  have pos: "0 \<le> n" using assms(3) by (simp add: accounts_inv_def)
  show ?thesis
  proof (cases "configured S \<and> res \<noteq> None \<and> marshal J (stamp_account (n + 1) now acc) \<noteq> None")
    case True
    then obtain d where d: "marshal J (stamp_account (n + 1) now acc) = Some d" by auto
    have res: "res = Some (n + 1)" "m = n + 1" using True m(3) by auto
    have "record_ok J m (n + 1) d"
      using record_ok_marshal [OF assms(2) _ d] assms(4) res(2) pos by simp
    then have "accounts_inv S J m (snd (pipeline (client S) (ft 1) (account_commands S (n + 1) d (Enabled acc)) r1))"
      by (intro safe_pipeline_inv assms(1) m(2) account_commands_safe)
    then show ?thesis using assms(5) True Pair res d
      by (intro exI [of _ "n + 1"]) (auto simp: CreateAccount_def Let_def split: prod.splits)
  next
    case False
    then show ?thesis using assms(3,5) Pair m
      by (intro exI [of _ "if configured S then m else n"])
        (auto simp: CreateAccount_def Let_def split: option.splits if_splits)
  qed
qed

lemma UpdateAccount_inv:
  assumes "redis_ok (client S)" and "codec_ok plain_account J" and "accounts_inv S J n r" and "plain_account acc"
  shows "accounts_inv S J n (snd (UpdateAccount S J ft now acc r))"
proof (cases "accounts_of S J r (ID acc)")
  case None
  then show ?thesis using assms(3) by (simp add: UpdateAccount_def getAccount_inv [OF assms(3)])
next
  case (Some old)
  note old = accounts_of_inv [OF assms(3) Some]
  let ?u = "merge_update old acc now"
  have "accounts_inv S J n (snd (pipeline (client S) (ft 1) (account_commands S (ID acc) d b) r))"
    if "marshal J ?u = Some d" for d b
    using record_ok_marshal [OF assms(2) _ that] old assms(4)
    by (intro safe_pipeline_inv assms account_commands_safe) (simp add: plain_merge)
  then show ?thesis using assms(3) Some
    by (simp add: UpdateAccount_def getAccount_inv [OF assms(3)] Let_def split: option.split)
qed

lemma DeleteAccount_inv:
  assumes "redis_ok (client S)" and "accounts_inv S J n r"
  shows "accounts_inv S J n (snd (DeleteAccount S ft i r))"
  using assms(2) safe_pipeline_inv [OF assms, of "[DEL (accountsKey S i), SREM (accountsIDsKey S) (itoa i),
      SREM (accountsEnabledKey S) (itoa i)]"]
  by (auto simp: DeleteAccount_def)

lemma account_step_inv:
  assumes "redis_ok (client S)" and "codec_ok plain_account J" and "accounts_inv S J n r" and "plain_op (fst op)"
  shows "\<exists>m. n \<le> m \<and> accounts_inv S J m (snd (account_step S J op r))
    \<and> (\<forall>i. fst (account_step S J op r) = Some i \<longrightarrow> i = n + 1 \<and> m = n + 1)"
proof -
  obtain o' ft where op: "op = (o', ft)" by (cases op)
  show ?thesis
  proof (cases o')
    case (Create now acc)
    obtain e acc' r' where "CreateAccount S J ft now acc r = (e, acc', r')" by (cases "CreateAccount S J ft now acc r")
    with CreateAccount_inv [OF assms(1-3) _ this] assms(4) show ?thesis by (auto simp: op Create)
  next
    case (Update now acc)
    then show ?thesis using UpdateAccount_inv [OF assms(1-3), of acc ft now] assms(4) by (auto simp: op)
  next
    case (Delete i)
    then show ?thesis using DeleteAccount_inv [OF assms(1,3), of ft i] by (auto simp: op)
  qed
qed

lemma account_run_inv:
  assumes "redis_ok (client S)" and "codec_ok plain_account J" and "accounts_inv S J n r" and "list_all (plain_op \<circ> fst) ops"
  shows "\<exists>m. n \<le> m \<and> accounts_inv S J m (snd (account_run S J ops r))
    \<and> sorted_wrt (<) (n # fst (account_run S J ops r))"
  using assms(3,4)
proof (induction ops arbitrary: n r)
  case Nil
  then show ?case by auto
next
  case (Cons op ops)
  obtain i r1 where st: "account_step S J op r = (i, r1)" by (cases "account_step S J op r")
  obtain m where m: "n \<le> m" "accounts_inv S J m r1" "\<forall>j. i = Some j \<longrightarrow> j = n + 1 \<and> m = n + 1"
    using account_step_inv [OF assms(1,2) Cons.prems(1), of op] Cons.prems(2) st by auto
  obtain k where k: "m \<le> k" "accounts_inv S J k (snd (account_run S J ops r1))"
    "sorted_wrt (<) (m # fst (account_run S J ops r1))"
    using Cons.IH [OF m(2)] Cons.prems(2) by auto
  show ?case
    using m k st by (intro exI [of _ k]) (auto split: prod.splits option.splits dest: le_less_trans less_trans)
qed

lemma fresh_accounts_inv: "fresh_accounts S r \<Longrightarrow> accounts_inv S J 0 r"
  by (simp add: fresh_accounts_def accounts_inv_def counter_at_def in64_def members_def)

section \<open>Without faults: the table and the two sets\<close>

definition ids_synced :: "'r redis_store \<Rightarrow> account codec \<Rightarrow> 'r \<Rightarrow> bool" where
  "ids_synced S J r \<longleftrightarrow> members (client S) r (accountsIDsKey S) = itoa ` dom (accounts_of S J r)
     \<and> members (client S) r (accountsEnabledKey S) = itoa ` {i. \<exists>a. accounts_of S J r i = Some a \<and> Enabled a}"

lemma write_synced:
  assumes "redis_ok (client S)" and "ids_synced S J r" and "unmarshal J d = Some a"
  shows "ids_synced S J (snd (pipeline (client S) None (account_commands S i d (Enabled a)) r))"
    and "accounts_of S J (snd (pipeline (client S) None (account_commands S i d (Enabled a)) r)) = (accounts_of S J r)(i \<mapsto> a)"
proof -
  show table: "accounts_of S J (snd (pipeline (client S) None (account_commands S i d (Enabled a)) r)) = (accounts_of S J r)(i \<mapsto> a)"
    using accounts_of_pipeline [OF assms(1), of J None i d "Enabled a" r] assms(3) by simp
  have sets: "members (client S) (snd (pipeline (client S) None (account_commands S i d (Enabled a)) r)) (accountsIDsKey S)
      = insert (itoa i) (members (client S) r (accountsIDsKey S))"
    "members (client S) (snd (pipeline (client S) None (account_commands S i d (Enabled a)) r)) (accountsEnabledKey S)
      = (if Enabled a then insert (itoa i) (members (client S) r (accountsEnabledKey S))
         else members (client S) r (accountsEnabledKey S) - {itoa i})"
    by (simp_all add: pipeline_def account_commands_def redis_members [OF assms(1)])
  show "ids_synced S J (snd (pipeline (client S) None (account_commands S i d (Enabled a)) r))"
    using assms(2) unfolding ids_synced_def table sets by auto
qed

lemma incr_synced:
  assumes "redis_ok (client S)" and "accounts_inv S J n r" and "ids_synced S J r"
  shows "ids_synced S J (snd (incr (client S) f (accountsNextIDKey S) r))"
  using assms(3) by (simp add: ids_synced_def incr_accounts(2-4) [OF assms(1,2)])

text \<open>The simulation: one operation on a synchronised store is one step of the table.\<close>

definition accounts_sim :: "'r redis_store \<Rightarrow> account codec \<Rightarrow> int \<times> (int \<Rightarrow> account option) \<Rightarrow> 'r \<Rightarrow> bool" where
  "accounts_sim S J t r \<longleftrightarrow> accounts_inv S J (fst t) r \<and> ids_synced S J r \<and> accounts_of S J r = snd t"

lemma create_sim:
  assumes "redis_ok (client S)" "codec_ok plain_account J" "configured S" "accounts_sim S J t r" "plain_account acc"
  shows "accounts_sim S J (table_step J (Create now acc) t) (snd (account_step S J (Create now acc, no_faults) r))"
proof -
  obtain n M where t: "t = (n, M)" by (cases t)
  have inv: "accounts_inv S J n r" and syn: "ids_synced S J r" and tab: "accounts_of S J r = M"
    using assms(4) by (simp_all add: accounts_sim_def t)
  have counter: "counter_at (client S) r (accountsNextIDKey S) n" and pos: "0 \<le> n"
    using inv by (simp_all add: accounts_inv_def)
  note laws = redis_incr [OF assms(1) counter]
  let ?a = "stamp_account (n + 1) now acc"
  have incr: "incr (client S) None (accountsNextIDKey S) r = r_incr (client S) (accountsNextIDKey S) r"
    by (simp add: incr_def)
  show ?thesis
  proof (cases "in64 (n + 1)")
    case False
    then show ?thesis using laws(3) inv syn tab
      by (simp add: t CreateAccount_def no_faults_def incr accounts_sim_def assms(3))
  next
    case True
    obtain r1 where r1: "r_incr (client S) (accountsNextIDKey S) r = (Some (n + 1), r1)"
      using laws(1) [OF True] by (cases "r_incr (client S) (accountsNextIDKey S) r") simp
    have inv1: "accounts_inv S J (n + 1) r1"
      using incr_accounts(1) [OF assms(1) inv, of None] by (auto simp: incr r1)
    have syn1: "ids_synced S J r1" and tab1: "accounts_of S J r1 = M"
      using incr_synced [OF assms(1) inv syn, of None] incr_accounts(2) [OF assms(1) inv, of None] tab
      by (simp_all add: incr r1)
    show ?thesis
    proof (cases "marshal J ?a")
      case None
      then show ?thesis using inv1 syn1 tab1 True r1
        by (simp add: t CreateAccount_def no_faults_def incr accounts_sim_def assms(3) Let_def)
    next
      case (Some d)
      then have d: "unmarshal J d = Some ?a" using codec_okD [OF assms(2) _ Some] assms(5) by simp
      have "record_ok J (n + 1) (n + 1) d"
        using record_ok_marshal [OF assms(2) _ Some] assms(5) pos by simp
      then have "accounts_inv S J (n + 1) (snd (pipeline (client S) None (account_commands S (n + 1) d (Enabled acc)) r1))"
        by (intro safe_pipeline_inv assms(1) inv1 account_commands_safe)
      then show ?thesis using write_synced [OF assms(1) syn1 d, of "n + 1"] tab1 True r1 Some
        by (simp add: t CreateAccount_def no_faults_def incr accounts_sim_def assms(3) Let_def split_beta)
    qed
  qed
qed

lemma update_sim:
  assumes "redis_ok (client S)" "codec_ok plain_account J" "configured S" "accounts_sim S J t r" "plain_account acc"
  shows "accounts_sim S J (table_step J (Update now acc) t) (snd (account_step S J (Update now acc, no_faults) r))"
proof -
  obtain n M where t: "t = (n, M)" by (cases t)
  have inv: "accounts_inv S J n r" and syn: "ids_synced S J r" and tab: "accounts_of S J r = M"
    using assms(4) by (simp_all add: accounts_sim_def t)
  have inv': "accounts_inv S J n (snd (UpdateAccount S J no_faults now acc r))"
    by (rule UpdateAccount_inv [OF assms(1,2) inv assms(5)])
  show ?thesis
  proof (cases "M (ID acc)")
    case None
    then show ?thesis using inv syn tab
      by (simp add: t UpdateAccount_def assms(3) getAccount_inv [OF inv] no_faults_def accounts_sim_def)
  next
    case (Some old)
    note old = accounts_of_inv [OF inv, of "ID acc" old, unfolded tab, OF Some]
    let ?u = "merge_update old acc now"
    show ?thesis
    proof (cases "marshal J ?u")
      case None
      then show ?thesis using inv syn tab Some old
        by (simp add: t UpdateAccount_def assms(3) getAccount_inv [OF inv] no_faults_def accounts_sim_def Let_def)
    next
      case m: (Some d)
      have "unmarshal J d = Some ?u"
        using codec_okD [OF assms(2) _ m] plain_merge [OF old(4) assms(5)] by simp
      then show ?thesis using write_synced [OF assms(1) syn, of d ?u "ID acc"] inv' tab Some old m
        by (simp add: t UpdateAccount_def assms(3) getAccount_inv [OF inv] no_faults_def accounts_sim_def Let_def)
    qed
  qed
qed

lemma delete_sim:
  assumes "redis_ok (client S)" "configured S" "accounts_sim S J t r"
  shows "accounts_sim S J (table_step J (Delete i) t) (snd (account_step S J (Delete i, no_faults) r))"
proof -
  obtain n M where t: "t = (n, M)" by (cases t)
  have inv: "accounts_inv S J n r" and syn: "ids_synced S J r" and tab: "accounts_of S J r = M"
    using assms(3) by (simp_all add: accounts_sim_def t)
  have inv': "accounts_inv S J n (snd (DeleteAccount S no_faults i r))" by (rule DeleteAccount_inv [OF assms(1) inv])
  show ?thesis
  proof (cases "i = 0")
    case True
    moreover have "M 0 = None" using accounts_of_inv(1) [OF inv, of 0] tab by (cases "M 0") auto
    ultimately show ?thesis using inv syn tab
      by (simp add: t DeleteAccount_def assms(2) accounts_sim_def fun_upd_idem)
  next
    case False
    let ?r' = "snd (DeleteAccount S no_faults i r)"
    have r': "?r' = r_srem (client S) (accountsEnabledKey S) (itoa i)
        (r_srem (client S) (accountsIDsKey S) (itoa i) (r_del (client S) (accountsKey S i) r))"
      using False by (simp add: DeleteAccount_def assms(2) no_faults_def pipeline_def)
    have tab': "accounts_of S J ?r' = M(i := None)"
      using tab unfolding r' by (auto simp: accounts_of_def fun_eq_iff redis_get [OF assms(1)])
    have "ids_synced S J ?r'"
      using syn unfolding ids_synced_def tab' tab unfolding r'
      by (auto simp: redis_members [OF assms(1)])
    then show ?thesis using inv' tab' by (simp add: t accounts_sim_def)
  qed
qed

lemma account_run_sim:
  assumes "redis_ok (client S)" "codec_ok plain_account J" "configured S"
  shows "accounts_sim S J t r \<Longrightarrow> list_all plain_op ops \<Longrightarrow>
    accounts_sim S J (fold (table_step J) ops t) (snd (account_run S J (map (\<lambda>op. (op, no_faults)) ops) r))"
proof (induction ops arbitrary: t r)
  case Nil
  then show ?case by simp
next
  case (Cons op ops)
  have "accounts_sim S J (table_step J op t) (snd (account_step S J (op, no_faults) r))"
    using Cons.prems create_sim [OF assms] update_sim [OF assms] delete_sim [OF assms(1,3)]
    by (cases op) simp_all
  from Cons.IH [OF this] Cons.prems(2) show ?case
    by (simp add: split_beta)
qed

section \<open>Listings\<close>

definition schedule_ok :: "nat list \<Rightarrow> nat \<Rightarrow> bool" where
  "schedule_ok order n \<longleftrightarrow> distinct order \<and> set order = {0..<n}"

text \<open>The order in which the workers of \<open>ParallelFor\<close> take the indices does not matter.\<close>

lemma parallel_for_order:
  assumes "schedule_ok order n"
  shows "parallel_for order n f = map f [0..<n]"
proof -
  let ?put = "\<lambda>results idx. case f idx of None \<Rightarrow> results | Some x \<Rightarrow> results[idx := Some x]"
  have step: "fold (\<lambda>idx results. ?put results idx) is rs ! j = (if j \<in> set is \<and> f j \<noteq> None then f j else rs ! j)
      \<and> length (fold (\<lambda>idx results. ?put results idx) is rs) = length rs"
    if "j < length rs" for j rs and "is" :: "nat list"
    using that
  proof (induction "is" arbitrary: rs)
    case Nil
    then show ?case by simp
  next
    case (Cons i "is")
    have "j < length (?put rs i)" using Cons.prems by (simp split: option.split)
    from Cons.IH [OF this] Cons.prems show ?case by (cases "f i"; cases "i = j") auto
  qed
  have len: "length (fold (\<lambda>idx results. ?put results idx) is rs) = length rs" for rs and "is" :: "nat list"
    by (induction "is" arbitrary: rs) (auto split: option.split)
  have "set order = {0..<n}" using assms by (simp add: schedule_ok_def)
  then show ?thesis
    using step [of _ "replicate n None" order]
    by (intro nth_equalityI) (auto simp: parallel_for_def len)
qed

lemma parse_int64_itoa: "in64 i \<Longrightarrow> (let raw = trim_space (itoa i) in if raw = '''' then None else parse_int64 raw) = Some i"
proof -
  have "itoa i \<noteq> ''''" by (simp add: itoa_def)
  then show "in64 i \<Longrightarrow> ?thesis" by (simp add: Let_def parse_itoa)
qed

lemma parse_ids_itoa:
  assumes "distinct ms" and "set ms = itoa ` A" and "\<And>i. i \<in> A \<Longrightarrow> in64 i"
  shows "set (parse_ids ms) = A" and "sorted_wrt (<) (parse_ids ms)"
proof -
  have "List.map_filter (\<lambda>raw. let raw = trim_space raw in if raw = '''' then None else parse_int64 raw) ms
      = map (\<lambda>m. the (parse_int64 m)) ms" and "inj_on (\<lambda>m. the (parse_int64 m)) (set ms)"
    and "(\<lambda>m. the (parse_int64 m)) ` set ms = A"
  proof -
    have each: "(let raw = trim_space m in if raw = '''' then None else parse_int64 raw) = Some (the (parse_int64 m))"
      "\<exists>i \<in> A. m = itoa i \<and> parse_int64 m = Some i" if m: "m \<in> set ms" for m
    proof -
      obtain i where i: "i \<in> A" "m = itoa i" using m assms(2) by auto
      then show "(let raw = trim_space m in if raw = '''' then None else parse_int64 raw) = Some (the (parse_int64 m))"
        "\<exists>i \<in> A. m = itoa i \<and> parse_int64 m = Some i"
        using parse_int64_itoa [OF assms(3) [OF i(1)]] parse_itoa [OF assms(3) [OF i(1)]] by auto
    qed
    have "List.map_filter (\<lambda>raw. let raw = trim_space raw in if raw = '''' then None else parse_int64 raw) xs
      = map (\<lambda>m. the (parse_int64 m)) xs" if "set xs \<subseteq> set ms" for xs
      using that by (induction xs) (auto simp: List.map_filter_simps each(1))
    then show "List.map_filter (\<lambda>raw. let raw = trim_space raw in if raw = '''' then None else parse_int64 raw) ms
      = map (\<lambda>m. the (parse_int64 m)) ms" by blast
    show "inj_on (\<lambda>m. the (parse_int64 m)) (set ms)"
      using each(2) by (auto simp: inj_on_def) (metis option.sel)
    show "(\<lambda>m. the (parse_int64 m)) ` set ms = A"
    proof
      show "(\<lambda>m. the (parse_int64 m)) ` set ms \<subseteq> A" using each(2) by fastforce
      show "A \<subseteq> (\<lambda>m. the (parse_int64 m)) ` set ms"
      proof
        fix i assume "i \<in> A"
        then show "i \<in> (\<lambda>m. the (parse_int64 m)) ` set ms"
          using assms(2,3) parse_itoa [of i] by (intro image_eqI [of _ _ "itoa i"]) auto
      qed
    qed
  qed
  then show "set (parse_ids ms) = A" and "sorted_wrt (<) (parse_ids ms)"
    using assms(1) by (simp_all add: parse_ids_def strict_sorted_iff distinct_map)
qed

lemma decode_row_inv:
  assumes "accounts_inv S J n r"
  shows "decode_row J b (i, r_get (client S) r (accountsKey S i))
    = (case accounts_of S J r i of None \<Rightarrow> None | Some a \<Rightarrow> if b \<and> \<not> Enabled a then None else Some a)"
proof (cases "r_get (client S) r (accountsKey S i)")
  case (Some d)
  then have "record_ok J n i d" using assms by (simp add: accounts_inv_def)
  then show ?thesis using Some by (auto simp: decode_row_def accounts_of_def record_ok_def Let_def)
qed (simp add: decode_row_def accounts_of_def)

text \<open>A listing, serial or parallel, is the decoded rows in the order of the IDs.\<close>

lemma getAccountsByIDs_rows:
  assumes "accounts_inv S J n r" and "schedule_ok order (length (parse_ids ids))"
    and "getAccountsByIDs S J ft order ids b r = Inr l"
  shows "l = List.map_filter (\<lambda>i. case accounts_of S J r i of None \<Rightarrow> None
      | Some a \<Rightarrow> if b \<and> \<not> Enabled a then None else Some a) (parse_ids ids)"
proof -
  let ?g = "\<lambda>i. case accounts_of S J r i of None \<Rightarrow> None | Some a \<Rightarrow> if b \<and> \<not> Enabled a then None else Some a"
  let ?v = "\<lambda>i. r_get (client S) r (accountsKey S i)"
  let ?is = "parse_ids ids"
  let ?rows = "zip ?is (map ?v ?is)"
  have rows: "?rows = map (\<lambda>i. (i, ?v i)) ?is" by (simp add: zip_map2 zip_same_conv_map)
  have serial: "List.map_filter (decode_row J b) ?rows = List.map_filter ?g ?is"
    unfolding rows by (simp add: map_filter_def filter_map comp_def decode_row_inv [OF assms(1)])
  have upt: "map (\<lambda>idx. h (xs ! idx)) [0..<length xs] = map h xs" for h :: "int \<times> string option \<Rightarrow> account option" and xs
    by (rule nth_equalityI) auto
  have "parallel_for order (length ?is) (\<lambda>idx. decode_row J b (?rows ! idx)) = map (decode_row J b) ?rows"
    using upt [of "decode_row J b" ?rows] by (simp only: parallel_for_order [OF assms(2)]) simp
  then have parallel: "List.map_filter Fun.id (parallel_for order (length ?is) (\<lambda>idx. decode_row J b (?rows ! idx)))
      = List.map_filter (decode_row J b) ?rows"
    by (simp add: map_filter_def filter_map comp_def)
  show ?thesis
  proof (cases "ids = [] \<or> ?is = []")
    case True
    then have "l = []" "?is = []" using assms(3) by (auto simp: getAccountsByIDs_def parse_ids_def List.map_filter_simps)
    then show ?thesis by (simp add: List.map_filter_simps)
  next
    case False
    then show ?thesis using assms(3) serial parallel
      by (auto simp: getAccountsByIDs_def Let_def split: if_splits)
  qed
qed

lemma members_numbers:
  assumes "accounts_inv S J n r" and "k \<in> {accountsIDsKey S, accountsEnabledKey S}"
  obtains A where "members (client S) r k = itoa ` A" and "\<And>i. i \<in> A \<Longrightarrow> in64 i"
proof -
  let ?A = "{i. itoa i \<in> members (client S) r k \<and> 0 < i \<and> i \<le> n}"
  have "in64 n" using assms(1) by (simp add: accounts_inv_def counter_at_def)
  then have "in64 i" if "i \<in> ?A" for i using that by (auto simp: in64_def)
  moreover have "members (client S) r k = itoa ` ?A"
    using assms by (force simp: accounts_inv_def)
  ultimately show thesis using that by blast
qed

lemma map_filter_sorted_IDs:
  assumes "sorted_wrt (<) is" and "\<And>i a. i \<in> set is \<Longrightarrow> g i = Some a \<Longrightarrow> ID a = i"
  shows "sorted_wrt (<) (map ID (List.map_filter g is))"
  using assms
proof (induction "is")
  case (Cons i "is")
  have "ID a \<in> set is" if a: "a \<in> set (List.map_filter g is)" for a
  proof -
    obtain x where x: "x \<in> set is" "g x = Some a" using a by (auto simp: set_map_filter_Some)
    then show ?thesis using Cons.prems(2) [of x a] by simp
  qed
  then show ?case using Cons by (auto simp: List.map_filter_simps split: option.split)
qed (simp add: List.map_filter_simps)

lemma listing_sound:
  assumes "redis_ok (client S)" and "accounts_inv S J n r" and "k \<in> {accountsIDsKey S, accountsEnabledKey S}"
    and "schedule_ok order (length (parse_ids (r_smembers (client S) r k)))"
    and "getAccountsByIDs S J ft order (r_smembers (client S) r k) b r = Inr l"
  shows "sorted_wrt (<) (map ID l)"
    and "set l = {a. itoa (ID a) \<in> members (client S) r k \<and> accounts_of S J r (ID a) = Some a \<and> (b \<longrightarrow> Enabled a)}"
proof -
  obtain A where A: "members (client S) r k = itoa ` A" "\<And>i. i \<in> A \<Longrightarrow> in64 i"
    using members_numbers [OF assms(2,3)] by blast
  have ids: "set (parse_ids (r_smembers (client S) r k)) = A" "sorted_wrt (<) (parse_ids (r_smembers (client S) r k))"
    using parse_ids_itoa [OF redis_smembers_distinct [OF assms(1)], of r k A] A by (simp_all add: members_def)
  let ?g = "\<lambda>i. case accounts_of S J r i of None \<Rightarrow> None | Some a \<Rightarrow> if b \<and> \<not> Enabled a then None else Some a"
  have l: "l = List.map_filter ?g (parse_ids (r_smembers (client S) r k))"
    by (rule getAccountsByIDs_rows [OF assms(2,4,5)])
  have g: "?g i = Some a \<longleftrightarrow> accounts_of S J r i = Some a \<and> (b \<longrightarrow> Enabled a)" for i a
    by (auto split: option.split)
  show "sorted_wrt (<) (map ID l)" unfolding l
    by (rule map_filter_sorted_IDs [OF ids(2)]) (use g accounts_of_inv(3) [OF assms(2)] in blast)
  have "set l = {a. \<exists>i \<in> A. ?g i = Some a}" unfolding l by (simp add: set_map_filter_Some ids(1))
  also have "\<dots> = {a. itoa (ID a) \<in> members (client S) r k \<and> accounts_of S J r (ID a) = Some a \<and> (b \<longrightarrow> Enabled a)}"
    unfolding g A(1) using accounts_of_inv(3) [OF assms(2)] by (auto simp: image_iff)
  finally show "set l = {a. itoa (ID a) \<in> members (client S) r k \<and> accounts_of S J r (ID a) = Some a \<and> (b \<longrightarrow> Enabled a)}" .
qed

lemma getAccountsByIDs_total: "\<exists>l. getAccountsByIDs S J no_faults order ids b r = Inr l"
  by (simp add: getAccountsByIDs_def no_faults_def Let_def)

section \<open>Properties\<close>

lemma fresh_sim: "fresh_accounts S r \<Longrightarrow> accounts_sim S J (0, \<lambda>i. None) r"
proof -
  assume f: "fresh_accounts S r"
  then have "accounts_of S J r = (\<lambda>i. None)" by (simp add: fresh_accounts_def accounts_of_def fun_eq_iff)
  then show ?thesis using f fresh_accounts_inv [OF f, of J]
    by (simp add: accounts_sim_def ids_synced_def) (simp add: fresh_accounts_def members_def)
qed

lemmas run_sim = account_run_sim [OF _ _ _ fresh_sim, folded table_run_def]

text \<open>
  Property C1. The Redis-backed account store refines a table: over a server with nothing of the store
  on it, any sequence of creations, updates and deletions without faults leaves exactly the
  accounts of the abstract table (with its counter of IDs), and the listing of the enabled
  accounts, serial or parallel, is the enabled accounts of the table, once each, by increasing ID.
\<close>

theorem account_store_refines:
  assumes "redis_ok (client S)" and "codec_ok plain_account J" and "configured S" and "fresh_accounts S r"
    and "list_all plain_op ops"
    and "schedule_ok order (length (parse_ids (r_smembers (client S)
        (snd (account_run S J (map (\<lambda>op. (op, no_faults)) ops) r)) (accountsEnabledKey S))))"
  shows "accounts_of S J (snd (account_run S J (map (\<lambda>op. (op, no_faults)) ops) r)) = snd (table_run J ops)
    \<and> (\<exists>l. GetEnabledAccounts S J no_faults order (snd (account_run S J (map (\<lambda>op. (op, no_faults)) ops) r)) = Inr l
        \<and> sorted_wrt (<) (map ID l) \<and> set l = {a. snd (table_run J ops) (ID a) = Some a \<and> Enabled a})"
proof -
  let ?r = "snd (account_run S J (map (\<lambda>op. (op, no_faults)) ops) r)"
  have sim: "accounts_sim S J (table_run J ops) ?r" by (rule run_sim [OF assms(1-5)])
  then have inv: "accounts_inv S J (fst (table_run J ops)) ?r" and tab: "accounts_of S J ?r = snd (table_run J ops)"
    and syn: "members (client S) ?r (accountsEnabledKey S) = itoa ` {i. \<exists>a. accounts_of S J ?r i = Some a \<and> Enabled a}"
    by (simp_all add: accounts_sim_def ids_synced_def)
  obtain l where l: "getAccountsByIDs S J no_faults order (r_smembers (client S) ?r (accountsEnabledKey S)) True ?r = Inr l"
    using getAccountsByIDs_total [of S J order _ True ?r] by metis
  from listing_sound [OF assms(1) inv _ assms(6) l]
  have "sorted_wrt (<) (map ID l)" "set l = {a. snd (table_run J ops) (ID a) = Some a \<and> Enabled a}"
    by (auto simp: syn tab)
  then show ?thesis using l tab assms(3) by (simp add: GetEnabledAccounts_def no_faults_def)
qed

definition sample_store :: "server redis_store" where
  "sample_store = \<lparr>configured = True, client = map_redis, prefix = normalizePrefix ''''\<rparr>"

definition sample_account :: account where
  "sample_account = zero_account\<lparr>Name := ''main'', Enabled := True\<rparr>"

definition sample_update :: account where
  "sample_update = zero_account\<lparr>ID := 1, Name := ''renamed'', Enabled := True\<rparr>"

definition sample_codec :: "account codec" where
  "sample_codec = table_codec [(''r1'', stamp_account 1 7 sample_account), (''r2'', stamp_account 2 8 sample_account),
     (''r3'', merge_update (stamp_account 1 7 sample_account) sample_update 9)]"

lemma sample_facts:
  "redis_ok (client sample_store)" "configured sample_store" "codec_ok plain_account sample_codec"
  "fresh_accounts sample_store []" "plain_account sample_account" "plain_account sample_update"
  by (simp_all add: sample_store_def map_redis_ok sample_codec_def table_codec_ok fresh_accounts_def sv_str_def sv_set_def
      sample_account_def sample_update_def plain_account_def plain_string_def zero_account_def)

lemma schedule_upt [simp]: "schedule_ok [0..<n] n"
  by (simp add: schedule_ok_def)

theorem account_store_refines_witness:
  "accounts_of sample_store sample_codec
     (snd (account_run sample_store sample_codec [(Create 7 sample_account, no_faults), (Update 9 sample_update, no_faults)] [])) 1
   = Some (merge_update (stamp_account 1 7 sample_account) sample_update 9)"
proof -
  let ?ops = "[Create 7 sample_account, Update 9 sample_update]"
  have "snd (table_run sample_codec ?ops) 1 = Some (merge_update (stamp_account 1 7 sample_account) sample_update 9)"
    by code_simp
  then show ?thesis
    using account_store_refines [OF sample_facts(1,3,2,4), of ?ops "[0..<_]", OF _ schedule_upt] sample_facts(5,6) by simp
qed

text \<open>
  Property C20. Whatever faults occur - round trips that fail before, during or after the commands of a
  pipeline - every listing of enabled accounts that succeeds holds enabled accounts only, each the
  stored record of its ID, by strictly increasing ID; and the IDs that successful creations return
  are positive and strictly increasing, so none is ever used twice.
\<close>

theorem account_faults_safe:
  assumes "redis_ok (client S)" and "codec_ok plain_account J" and "fresh_accounts S r"
    and "list_all (plain_op \<circ> fst) ops"
    and "schedule_ok order (length (parse_ids (r_smembers (client S) (snd (account_run S J ops r)) (accountsEnabledKey S))))"
    and "GetEnabledAccounts S J ft order (snd (account_run S J ops r)) = Inr l"
  shows "sorted_wrt (<) (0 # fst (account_run S J ops r)) \<and> sorted_wrt (<) (map ID l)
    \<and> (\<forall>a \<in> set l. Enabled a \<and> accounts_of S J (snd (account_run S J ops r)) (ID a) = Some a)"
proof -
  let ?r = "snd (account_run S J ops r)"
  obtain m where m: "accounts_inv S J m ?r" "sorted_wrt (<) (0 # fst (account_run S J ops r))"
    using account_run_inv [OF assms(1,2) fresh_accounts_inv [OF assms(3)] assms(4)] by blast
  have "getAccountsByIDs S J ft order (r_smembers (client S) ?r (accountsEnabledKey S)) True ?r = Inr l"
    using assms(6) by (simp add: GetEnabledAccounts_def split: if_splits)
  from listing_sound [OF assms(1) m(1) _ assms(5) this] m(2) show ?thesis by auto
qed

theorem account_faults_safe_witness:
  "sorted_wrt (<) (0 # fst (account_run sample_store sample_codec
     [(Create 7 sample_account, \<lambda>i. if i = 1 then Some 1 else None), (Create 8 sample_account, no_faults)] []))"
proof -
  let ?ops = "[(Create 7 sample_account, \<lambda>i. if i = 1 then Some 1 else None), (Create 8 sample_account, no_faults)]"
  let ?r = "snd (account_run sample_store sample_codec ?ops [])"
  obtain l where "GetEnabledAccounts sample_store sample_codec no_faults [0..<length (parse_ids (r_smembers (client sample_store) ?r
      (accountsEnabledKey sample_store)))] ?r = Inr l"
    using getAccountsByIDs_total [of sample_store sample_codec _ _ True ?r] sample_facts(2)
    by (auto simp: GetEnabledAccounts_def no_faults_def)
  from account_faults_safe [OF sample_facts(1,3,4) _ schedule_upt this] sample_facts(5) show ?thesis by simp
qed

text \<open>
  An update is all or nothing: whatever faults occur, afterwards every account is as
  before, or the updated one (and no other) is the merge of the stored account and the caller's;
  when the call reports success for a stored account, it is the merge.
\<close>

theorem update_all_or_nothing:
  assumes "redis_ok (client S)" and "codec_ok plain_account J" and "accounts_inv S J n r" and "plain_account acc"
    and "UpdateAccount S J ft now acc r = (e, r')"
  shows "(case accounts_of S J r (ID acc) of
      None \<Rightarrow> accounts_of S J r' = accounts_of S J r
    | Some old \<Rightarrow> accounts_of S J r' \<in> {accounts_of S J r, (accounts_of S J r)(ID acc \<mapsto> merge_update old acc now)}
        \<and> (e = None \<longrightarrow> accounts_of S J r' (ID acc) = Some (merge_update old acc now)))"
proof (cases "accounts_of S J r (ID acc)")
  case None
  then show ?thesis using assms(5)
    by (auto simp: UpdateAccount_def getAccount_inv [OF assms(3)] split: if_splits)
next
  case (Some old)
  note old = accounts_of_inv [OF assms(3) Some]
  let ?u = "merge_update old acc now"
  have "unmarshal J d = Some ?u" if "marshal J ?u = Some d" for d
    using codec_okD [OF assms(2) _ that] plain_merge [OF old(4) assms(4)] by simp
  then have written: "accounts_of S J (snd (pipeline (client S) f (account_commands S (ID acc) d b) r))
      = (if f = Some 0 then accounts_of S J r else (accounts_of S J r)(ID acc \<mapsto> ?u))" if "marshal J ?u = Some d" for d b f
    using accounts_of_pipeline [OF assms(1)] that by simp
  have error: "fst (pipeline (client S) f cs r) = None \<longleftrightarrow> f = None" for f cs
    by (simp add: pipeline_def split: option.split)
  show ?thesis
  proof (cases "configured S \<and> ft 0 = None \<and> marshal J ?u \<noteq> None")
    case True
    then obtain d where d: "marshal J ?u = Some d" by auto
    then have p: "pipeline (client S) (ft 1) (account_commands S (ID acc) d (Enabled acc)) r = (e, r')"
      using assms(5) Some old True by (simp add: UpdateAccount_def getAccount_inv [OF assms(3)] Let_def)
    have "accounts_of S J r' = (if ft 1 = Some 0 then accounts_of S J r else (accounts_of S J r)(ID acc \<mapsto> ?u))"
      and "e = None \<longleftrightarrow> ft 1 = None"
      using written [OF d, of "ft 1" "Enabled acc"] error [of "ft 1" "account_commands S (ID acc) d (Enabled acc)"] unfolding p by simp_all
    then show ?thesis using Some by auto
  next
    case False
    then show ?thesis using assms(5) Some old
      by (auto simp: UpdateAccount_def getAccount_inv [OF assms(3)] Let_def split: if_splits)
  qed
qed

theorem update_all_or_nothing_witness:
  "accounts_of sample_store sample_codec (snd (UpdateAccount sample_store sample_codec (\<lambda>i. if i = 1 then Some 2 else None) 9 sample_update
     (snd (account_run sample_store sample_codec [(Create 7 sample_account, no_faults)] [])))) 1
   \<in> {Some (stamp_account 1 7 sample_account), Some (merge_update (stamp_account 1 7 sample_account) sample_update 9)}"
proof -
  let ?r = "snd (account_run sample_store sample_codec [(Create 7 sample_account, no_faults)] [])"
  let ?ft = "\<lambda>i :: nat. if i = 1 then Some (2 :: nat) else None"
  obtain n where n: "accounts_inv sample_store sample_codec n ?r"
    using account_run_inv [OF sample_facts(1,3) fresh_accounts_inv [OF sample_facts(4)],
        of "[(Create 7 sample_account, no_faults)]"] sample_facts(5) by auto
  obtain e r' where u: "UpdateAccount sample_store sample_codec ?ft 9 sample_update ?r = (e, r')"
    by (cases "UpdateAccount sample_store sample_codec ?ft 9 sample_update ?r")
  have "accounts_of sample_store sample_codec ?r 1 = Some (stamp_account 1 7 sample_account)" by code_simp
  moreover have "ID sample_update = 1" by (simp add: sample_update_def)
  ultimately show ?thesis
    using update_all_or_nothing [OF sample_facts(1,3) n sample_facts(6) u] u by auto
qed

end
