(* ===== verification/Key_Store.thy ===== *)
theory Key_Store
  imports Redis_Server
begin

text \<open>
  Settings and API keys of \<open>internal/store/redis_store.go\<close>. A key is stored as a record without its
  plain text; its hash has a key of its own that holds the ID, through which a request is
  authenticated. The lemmas show that, without faults, the store refines a table of keys and the
  lookup by hash is a search of the table.
\<close>

section \<open>Settings\<close>

definition settingsKey :: "'r redis_store \<Rightarrow> string \<Rightarrow> string" where
  "settingsKey S key = prefix S @ ''settings:'' @ key"

definition GetSetting :: "'r redis_store \<Rightarrow> faults \<Rightarrow> string \<Rightarrow> 'r \<Rightarrow> store_error + string" where
  "GetSetting S ft key r =
    (if \<not> configured S then Inl NotConfigured
     else let key = trim_space key in
       if key = '''' then Inr ''''
       else if ft 0 \<noteq> None then Inl Unreachable
       else (case r_get (client S) r (settingsKey S key) of None \<Rightarrow> Inr '''' | Some value \<Rightarrow> Inr value))"

definition SetSetting :: "'r redis_store \<Rightarrow> faults \<Rightarrow> string \<Rightarrow> string \<Rightarrow> 'r \<Rightarrow> store_error option \<times> 'r" where
  "SetSetting S ft key val r =
    (if \<not> configured S then (Some NotConfigured, r)
     else let key = trim_space key in
       if key = '''' then (None, r) else pipeline (client S) (ft 0) [SET (settingsKey S key) val] r)"

section \<open>API keys\<close>

record api_key =
  kID :: int
  kName :: string
  kKeyHash :: string
  kKeyFull :: string
  kKeyPrefix :: string
  kKeySuffix :: string
  kEnabled :: bool
  kLastUsedAt :: "instant option"
  kCreatedAt :: instant

record api_key_record =
  akID :: int
  akName :: string
  akKeyHash :: string
  akKeyFull :: string
  akKeyPrefix :: string
  akKeySuffix :: string
  akEnabled :: bool
  akLastUsedAt :: "instant option"
  akCreatedAt :: instant

definition apiKeyRecordFromKey :: "api_key \<Rightarrow> api_key_record" where
  "apiKeyRecordFromKey k = \<lparr>akID = kID k, akName = kName k, akKeyHash = kKeyHash k, akKeyFull = '''',
     akKeyPrefix = kKeyPrefix k, akKeySuffix = kKeySuffix k, akEnabled = kEnabled k,
     akLastUsedAt = kLastUsedAt k, akCreatedAt = kCreatedAt k\<rparr>"

definition toApiKey :: "api_key_record \<Rightarrow> api_key" where
  "toApiKey a = \<lparr>kID = akID a, kName = akName a, kKeyHash = akKeyHash a, kKeyFull = akKeyFull a,
     kKeyPrefix = akKeyPrefix a, kKeySuffix = akKeySuffix a, kEnabled = akEnabled a,
     kLastUsedAt = akLastUsedAt a, kCreatedAt = akCreatedAt a\<rparr>"

definition apiKeysKey :: "'r redis_store \<Rightarrow> int \<Rightarrow> string" where
  "apiKeysKey S i = prefix S @ ''api_keys:id:'' @ itoa i"

definition apiKeysIDsKey :: "'r redis_store \<Rightarrow> string" where
  "apiKeysIDsKey S = prefix S @ ''api_keys:ids''"

definition apiKeysNextIDKey :: "'r redis_store \<Rightarrow> string" where
  "apiKeysNextIDKey S = prefix S @ ''api_keys:next_id''"

definition apiKeysHashKey :: "'r redis_store \<Rightarrow> string \<Rightarrow> string" where
  "apiKeysHashKey S hash = prefix S @ ''api_keys:hash:'' @ hash"

lemma api_keys_keys [simp]:
  "apiKeysKey S i = apiKeysKey S j \<longleftrightarrow> i = j" "apiKeysHashKey S h = apiKeysHashKey S h' \<longleftrightarrow> h = h'"
  "apiKeysKey S i \<noteq> apiKeysIDsKey S" "apiKeysKey S i \<noteq> apiKeysNextIDKey S" "apiKeysKey S i \<noteq> apiKeysHashKey S h"
  "apiKeysIDsKey S \<noteq> apiKeysKey S i" "apiKeysNextIDKey S \<noteq> apiKeysKey S i" "apiKeysHashKey S h \<noteq> apiKeysKey S i"
  "apiKeysIDsKey S \<noteq> apiKeysNextIDKey S" "apiKeysIDsKey S \<noteq> apiKeysHashKey S h" "apiKeysHashKey S h \<noteq> apiKeysIDsKey S"
  "apiKeysNextIDKey S \<noteq> apiKeysIDsKey S" "apiKeysNextIDKey S \<noteq> apiKeysHashKey S h" "apiKeysHashKey S h \<noteq> apiKeysNextIDKey S"
  by (simp_all add: apiKeysKey_def apiKeysIDsKey_def apiKeysNextIDKey_def apiKeysHashKey_def)

text \<open>The stored form of a key: what comes back has no plain text.\<close>

definition CreateApiKey :: "'r redis_store \<Rightarrow> api_key_record codec \<Rightarrow> faults \<Rightarrow> instant \<Rightarrow> api_key \<Rightarrow> 'r
    \<Rightarrow> store_error option \<times> api_key \<times> 'r" where
  "CreateApiKey S J ft now key r =
    (if \<not> configured S then (Some NotConfigured, key, r)
     else (case incr (client S) (ft 0) (apiKeysNextIDKey S) r of
         (None, r1) \<Rightarrow> (Some Unreachable, key, r1)
       | (Some i, r1) \<Rightarrow>
           (let key = key\<lparr>kID := i, kCreatedAt := (if is_zero (kCreatedAt key) then now else kCreatedAt key)\<rparr>;
                rec = apiKeyRecordFromKey key
            in case marshal J rec of
                None \<Rightarrow> (Some Unencodable, key, r1)
              | Some data \<Rightarrow>
                  let (e, r2) = pipeline (client S) (ft 1)
                    ([SET (apiKeysKey S i) data, SADD (apiKeysIDsKey S) (itoa i)]
                     @ (if akKeyHash rec \<noteq> '''' then [SET (apiKeysHashKey S (akKeyHash rec)) (itoa i)] else [])) r1
                  in (e, key, r2))))"

definition getApiKeyByID :: "'r redis_store \<Rightarrow> api_key_record codec \<Rightarrow> nat option \<Rightarrow> int \<Rightarrow> 'r \<Rightarrow> store_error + api_key" where
  "getApiKeyByID S J f i r =
    (if i = 0 then Inl NoRows
     else if f \<noteq> None then Inl Unreachable
     else (case r_get (client S) r (apiKeysKey S i) of
         None \<Rightarrow> Inl NoRows
       | Some value \<Rightarrow> (case unmarshal J value of
           None \<Rightarrow> Inl Undecodable
         | Some rec \<Rightarrow> let key = toApiKey rec in Inr (if kID key = 0 then key\<lparr>kID := i\<rparr> else key))))"

definition GetApiKeyByHash :: "'r redis_store \<Rightarrow> api_key_record codec \<Rightarrow> faults \<Rightarrow> string \<Rightarrow> 'r \<Rightarrow> store_error + api_key option" where
  "GetApiKeyByHash S J ft hash r =
    (if \<not> configured S then Inl NotConfigured
     else let hash = trim_space hash in
       if hash = '''' then Inr None
       else if ft 0 \<noteq> None then Inl Unreachable
       else (case r_get (client S) r (apiKeysHashKey S hash) of
           None \<Rightarrow> Inr None
         | Some idStr \<Rightarrow> (case parse_int64 idStr of
             None \<Rightarrow> Inr None
           | Some i \<Rightarrow> if i = 0 then Inr None else map_sum (\<lambda>e. e) Some (getApiKeyByID S J (ft 1) i r))))"

text \<open>\<open>UpdateApiKeyEnabled\<close> and \<open>UpdateApiKeyLastUsed\<close>: read, change, write the record.\<close>

definition rewrite_key :: "'r redis_store \<Rightarrow> api_key_record codec \<Rightarrow> faults \<Rightarrow> store_error option \<Rightarrow> (api_key \<Rightarrow> api_key) \<Rightarrow> int \<Rightarrow> 'r
    \<Rightarrow> store_error option \<times> 'r" where
  "rewrite_key S J ft missing change i r =
    (case getApiKeyByID S J (ft 0) i r of
       Inl e \<Rightarrow> (if e = NoRows then missing else Some e, r)
     | Inr key \<Rightarrow> (case marshal J (apiKeyRecordFromKey (change key)) of
         None \<Rightarrow> (Some Unencodable, r)
       | Some data \<Rightarrow> pipeline (client S) (ft 1) [SET (apiKeysKey S i) data] r))"

definition UpdateApiKeyEnabled :: "'r redis_store \<Rightarrow> api_key_record codec \<Rightarrow> faults \<Rightarrow> int \<Rightarrow> bool \<Rightarrow> 'r \<Rightarrow> store_error option \<times> 'r" where
  "UpdateApiKeyEnabled S J ft i enabled r =
    (if \<not> configured S then (Some NotConfigured, r)
     else if i = 0 then (Some NoRows, r)
     else rewrite_key S J ft (Some NoRows) (kEnabled_update (\<lambda>_. enabled)) i r)"

definition UpdateApiKeyLastUsed :: "'r redis_store \<Rightarrow> api_key_record codec \<Rightarrow> faults \<Rightarrow> instant \<Rightarrow> int \<Rightarrow> 'r \<Rightarrow> store_error option \<times> 'r" where
  "UpdateApiKeyLastUsed S J ft now i r =
    (if \<not> configured S then (Some NotConfigured, r)
     else if i = 0 then (None, r)
     else rewrite_key S J ft None (kLastUsedAt_update (\<lambda>_. Some now)) i r)"

definition DeleteApiKey :: "'r redis_store \<Rightarrow> api_key_record codec \<Rightarrow> faults \<Rightarrow> int \<Rightarrow> 'r \<Rightarrow> store_error option \<times> 'r" where
  "DeleteApiKey S J ft i r =
    (if \<not> configured S then (Some NotConfigured, r)
     else if i = 0 then (Some NoRows, r)
     else (case getApiKeyByID S J (ft 0) i r of
         Inl e \<Rightarrow> (Some e, r)
       | Inr key \<Rightarrow> pipeline (client S) (ft 1)
           ([DEL (apiKeysKey S i), SREM (apiKeysIDsKey S) (itoa i)]
            @ (if kKeyHash key \<noteq> '''' then [DEL (apiKeysHashKey S (kKeyHash key))] else [])) r))"

section \<open>The table of keys\<close>

datatype key_op = CreateKey instant api_key | EnableKey int bool | UseKey instant int | DeleteKey int

fun key_step :: "'r redis_store \<Rightarrow> api_key_record codec \<Rightarrow> key_op \<Rightarrow> 'r \<Rightarrow> 'r" where
  "key_step S J (CreateKey now key) r = snd (snd (CreateApiKey S J no_faults now key r))"
| "key_step S J (EnableKey i b) r = snd (UpdateApiKeyEnabled S J no_faults i b r)"
| "key_step S J (UseKey now i) r = snd (UpdateApiKeyLastUsed S J no_faults now i r)"
| "key_step S J (DeleteKey i) r = snd (DeleteApiKey S J no_faults i r)"

text \<open>The key as it is stored: numbered, dated and without its plain text.\<close>

definition stored_key :: "int \<Rightarrow> instant \<Rightarrow> api_key \<Rightarrow> api_key" where
  "stored_key i now key = key\<lparr>kID := i, kKeyFull := '''',
     kCreatedAt := (if is_zero (kCreatedAt key) then now else kCreatedAt key)\<rparr>"

definition encodable :: "api_key_record codec \<Rightarrow> api_key \<Rightarrow> bool" where
  "encodable J key \<longleftrightarrow> marshal J (apiKeyRecordFromKey key) \<noteq> None"

definition change_key :: "api_key_record codec \<Rightarrow> (api_key \<Rightarrow> api_key) \<Rightarrow> int \<Rightarrow> (int \<Rightarrow> api_key option) \<Rightarrow> int \<Rightarrow> api_key option" where
  "change_key J f i M = (case M i of None \<Rightarrow> M | Some key \<Rightarrow> if encodable J (f key) then M(i \<mapsto> f key) else M)"

fun key_table_step :: "api_key_record codec \<Rightarrow> key_op \<Rightarrow> int \<times> (int \<Rightarrow> api_key option) \<Rightarrow> int \<times> (int \<Rightarrow> api_key option)" where
  "key_table_step J (CreateKey now key) (n, M) =
     (if \<not> in64 (n + 1) then (n, M)
      else (n + 1, if encodable J (stored_key (n + 1) now key) then M(n + 1 \<mapsto> stored_key (n + 1) now key) else M))"
| "key_table_step J (EnableKey i b) (n, M) = (n, change_key J (kEnabled_update (\<lambda>_. b)) i M)"
| "key_table_step J (UseKey now i) (n, M) = (n, change_key J (kLastUsedAt_update (\<lambda>_. Some now)) i M)"
| "key_table_step J (DeleteKey i) (n, M) = (n, M(i := None))"

definition key_table :: "api_key_record codec \<Rightarrow> key_op list \<Rightarrow> int \<times> (int \<Rightarrow> api_key option)" where
  "key_table J ops = fold (key_table_step J) ops (0, \<lambda>i. None)"

definition plain_key :: "api_key \<Rightarrow> bool" where
  "plain_key k \<longleftrightarrow> list_all plain_string [kName k, kKeyHash k, kKeyPrefix k, kKeySuffix k]"

definition plain_record :: "api_key_record \<Rightarrow> bool" where
  "plain_record k \<longleftrightarrow> list_all plain_string [akName k, akKeyHash k, akKeyFull k, akKeyPrefix k, akKeySuffix k]"

fun op_key :: "key_op \<Rightarrow> api_key option" where
  "op_key (CreateKey now key) = Some key"
| "op_key _ = None"

text \<open>Each key of a run is plain and has a hash of its own (hashes are of random keys).\<close>

definition keys_distinct :: "key_op list \<Rightarrow> bool" where
  "keys_distinct ops \<longleftrightarrow> (let ks = List.map_filter op_key ops
     in list_all plain_key ks \<and> distinct (map kKeyHash ks) \<and> '''' \<notin> kKeyHash ` set ks)"

definition fresh_keys :: "'r redis_store \<Rightarrow> 'r \<Rightarrow> bool" where
  "fresh_keys S r \<longleftrightarrow> r_get (client S) r (apiKeysNextIDKey S) = None
     \<and> (\<forall>i. r_get (client S) r (apiKeysKey S i) = None) \<and> (\<forall>h. r_get (client S) r (apiKeysHashKey S h) = None)"

section \<open>The simulation\<close>

text \<open>
  The server agrees with the table: every record decodes to the key of the table, and a hash key
  exists exactly for the hash of each key and holds its ID.
\<close>

definition keys_sim :: "'r redis_store \<Rightarrow> api_key_record codec \<Rightarrow> int \<times> (int \<Rightarrow> api_key option) \<Rightarrow> 'r \<Rightarrow> bool" where
  "keys_sim S J t r \<longleftrightarrow> 0 \<le> fst t \<and> counter_at (client S) r (apiKeysNextIDKey S) (fst t)
     \<and> (\<forall>i. case snd t i of None \<Rightarrow> r_get (client S) r (apiKeysKey S i) = None
          | Some k \<Rightarrow> \<exists>d. r_get (client S) r (apiKeysKey S i) = Some d \<and> unmarshal J d = Some (apiKeyRecordFromKey k))
     \<and> (\<forall>i k. snd t i = Some k \<longrightarrow> 0 < i \<and> i \<le> fst t \<and> kID k = i \<and> kKeyFull k = '''' \<and> plain_key k \<and> kKeyHash k \<noteq> ''''
          \<and> r_get (client S) r (apiKeysHashKey S (kKeyHash k)) = Some (itoa i))
     \<and> (\<forall>h v. r_get (client S) r (apiKeysHashKey S h) = Some v \<longrightarrow> (\<exists>i k. snd t i = Some k \<and> kKeyHash k = h \<and> v = itoa i))"

lemma toApiKey_record [simp]: "toApiKey (apiKeyRecordFromKey k) = k\<lparr>kKeyFull := ''''\<rparr>"
  by (simp add: toApiKey_def apiKeyRecordFromKey_def)

lemma plain_record_of [simp]: "plain_record (apiKeyRecordFromKey k) = plain_key k"
  by (auto simp: plain_record_def plain_key_def apiKeyRecordFromKey_def plain_string_def)

lemma record_of_stored [simp]: "apiKeyRecordFromKey (k\<lparr>kKeyFull := f\<rparr>) = apiKeyRecordFromKey k"
  by (simp add: apiKeyRecordFromKey_def)

lemma stored_key_simps [simp]:
  "kID (stored_key i now k) = i" "kKeyFull (stored_key i now k) = ''''" "kKeyHash (stored_key i now k) = kKeyHash k"
  "plain_key (stored_key i now k) = plain_key k"
  by (simp_all add: stored_key_def plain_key_def)

lemma keys_sim_keyD:
  assumes "keys_sim S J t r" and "snd t i = Some k"
  shows "0 < i" "i \<le> fst t" "kID k = i" "kKeyFull k = ''''" "plain_key k" "kKeyHash k \<noteq> ''''"
    "r_get (client S) r (apiKeysHashKey S (kKeyHash k)) = Some (itoa i)" "in64 i"
    "\<exists>d. r_get (client S) r (apiKeysKey S i) = Some d \<and> unmarshal J d = Some (apiKeyRecordFromKey k)"
proof -
  have all: "\<forall>i k. snd t i = Some k \<longrightarrow> 0 < i \<and> i \<le> fst t \<and> kID k = i \<and> kKeyFull k = '''' \<and> plain_key k \<and> kKeyHash k \<noteq> ''''
          \<and> r_get (client S) r (apiKeysHashKey S (kKeyHash k)) = Some (itoa i)"
    using assms(1) unfolding keys_sim_def by (elim conjE)
  have rec: "\<forall>i. case snd t i of None \<Rightarrow> r_get (client S) r (apiKeysKey S i) = None
          | Some k \<Rightarrow> \<exists>d. r_get (client S) r (apiKeysKey S i) = Some d \<and> unmarshal J d = Some (apiKeyRecordFromKey k)"
    using assms(1) unfolding keys_sim_def by (elim conjE)
  have n: "in64 (fst t)" using assms(1) unfolding keys_sim_def counter_at_def by (elim conjE)
  from all assms(2) show "0 < i" "i \<le> fst t" "kID k = i" "kKeyFull k = ''''" "plain_key k" "kKeyHash k \<noteq> ''''"
    "r_get (client S) r (apiKeysHashKey S (kKeyHash k)) = Some (itoa i)" by simp_all
  then show "in64 i" using n by (simp add: in64_def)
  show "\<exists>d. r_get (client S) r (apiKeysKey S i) = Some d \<and> unmarshal J d = Some (apiKeyRecordFromKey k)"
    using rec [rule_format, of i] assms(2) by simp
qed

lemma keys_sim_None: "keys_sim S J t r \<Longrightarrow> snd t i = None \<Longrightarrow> r_get (client S) r (apiKeysKey S i) = None"
proof -
  assume "keys_sim S J t r" and M: "snd t i = None"
  then have "\<forall>i. case snd t i of None \<Rightarrow> r_get (client S) r (apiKeysKey S i) = None
      | Some k \<Rightarrow> \<exists>d. r_get (client S) r (apiKeysKey S i) = Some d \<and> unmarshal J d = Some (apiKeyRecordFromKey k)"
    unfolding keys_sim_def by (elim conjE)
  from this [rule_format, of i] M show ?thesis by simp
qed

lemma getApiKeyByID_sim:
  assumes "keys_sim S J t r"
  shows "getApiKeyByID S J None i r = (case snd t i of None \<Rightarrow> Inl NoRows | Some k \<Rightarrow> Inr k)"
proof (cases "snd t i")
  case None
  then show ?thesis using keys_sim_None [OF assms None] by (simp add: getApiKeyByID_def)
next
  case (Some k)
  note k = keys_sim_keyD [OF assms Some]
  obtain d where "r_get (client S) r (apiKeysKey S i) = Some d" "unmarshal J d = Some (apiKeyRecordFromKey k)"
    using k(9) by blast
  moreover have "k\<lparr>kKeyFull := ''''\<rparr> = k" using k(4) by simp
  ultimately show ?thesis using Some k(1,3) by (simp add: getApiKeyByID_def Let_def)
qed

lemma keys_sim_frame:
  assumes "keys_sim S J (n, M) r" and "n \<le> m" and "counter_at (client S) r' (apiKeysNextIDKey S) m"
    and "\<And>j. r_get (client S) r' (apiKeysKey S j) = r_get (client S) r (apiKeysKey S j)"
    and "\<And>h. r_get (client S) r' (apiKeysHashKey S h) = r_get (client S) r (apiKeysHashKey S h)"
  shows "keys_sim S J (m, M) r'"
proof -
  have "0 \<le> m" using assms(1,2) by (simp add: keys_sim_def)
  moreover have "i \<le> m" if "M i = Some k" for i k
    using keys_sim_keyD(2) [OF assms(1), of i k] that assms(2) by simp
  ultimately show ?thesis using assms(1,3) unfolding keys_sim_def fst_conv snd_conv assms(4,5) by blast
qed

text \<open>Writing a record for an ID keeps the rest, when the hash is unchanged or new.\<close>

lemma keys_sim_write:
  assumes "keys_sim S J (n, M) r" and "n \<le> m" and "counter_at (client S) r' (apiKeysNextIDKey S) m"
    and "unmarshal J d = Some (apiKeyRecordFromKey k)" and "0 < i" "i \<le> m" "kID k = i" "kKeyFull k = ''''" "plain_key k" "kKeyHash k \<noteq> ''''"
    and rec: "\<And>j. r_get (client S) r' (apiKeysKey S j) = (if j = i then Some d else r_get (client S) r (apiKeysKey S j))"
    and hash: "\<And>h. r_get (client S) r' (apiKeysHashKey S h) = (if h = kKeyHash k then Some (itoa i) else r_get (client S) r (apiKeysHashKey S h))"
    and old: "\<And>j x. M j = Some x \<Longrightarrow> kKeyHash x = kKeyHash k \<longleftrightarrow> j = i"
  shows "keys_sim S J (m, M(i \<mapsto> k)) r'"
proof -
  have "0 \<le> m" using assms(1,2) by (simp add: keys_sim_def)
  moreover have "case (M(i \<mapsto> k)) j of None \<Rightarrow> r_get (client S) r' (apiKeysKey S j) = None
          | Some k \<Rightarrow> \<exists>d. r_get (client S) r' (apiKeysKey S j) = Some d \<and> unmarshal J d = Some (apiKeyRecordFromKey k)" for j
    using keys_sim_keyD(9) [OF assms(1), of j] keys_sim_None [OF assms(1), of j] assms(4)
    by (cases "M j") (auto simp: rec)
  moreover have "0 < j \<and> j \<le> m \<and> kID x = j \<and> kKeyFull x = '''' \<and> plain_key x \<and> kKeyHash x \<noteq> ''''
          \<and> r_get (client S) r' (apiKeysHashKey S (kKeyHash x)) = Some (itoa j)" if "(M(i \<mapsto> k)) j = Some x" for j x
  proof (cases "j = i")
    case True
    then show ?thesis using that assms(5-10) by (simp add: hash)
  next
    case False
    then have "M j = Some x" using that by simp
    then show ?thesis using keys_sim_keyD(1-7) [OF assms(1), of j x] old [of j x] assms(2) False by (simp add: hash)
  qed
  moreover have "\<exists>j x. (M(i \<mapsto> k)) j = Some x \<and> kKeyHash x = h \<and> v = itoa j"
    if "r_get (client S) r' (apiKeysHashKey S h) = Some v" for h v
  proof (cases "h = kKeyHash k")
    case True
    then show ?thesis using that by (intro exI [of _ i]) (simp add: hash)
  next
    case False
    then have "r_get (client S) r (apiKeysHashKey S h) = Some v" using that by (simp add: hash)
    then obtain j x where x: "M j = Some x" "kKeyHash x = h" "v = itoa j"
      using assms(1) unfolding keys_sim_def snd_conv by blast
    then have "j \<noteq> i" using old [OF x(1)] False by simp
    then show ?thesis using x by auto
  qed
  ultimately show ?thesis using assms(3) unfolding keys_sim_def fst_conv snd_conv by blast
qed

lemma create_key_sim:
  assumes "redis_ok (client S)" "codec_ok plain_record J" "configured S" "keys_sim S J (n, M) r" "plain_key key"
    "kKeyHash key \<noteq> ''''" "\<And>i k. M i = Some k \<Longrightarrow> kKeyHash k \<noteq> kKeyHash key"
  shows "keys_sim S J (key_table_step J (CreateKey now key) (n, M)) (key_step S J (CreateKey now key) r)"
proof -
  have counter: "counter_at (client S) r (apiKeysNextIDKey S) n" and pos: "0 \<le> n"
    using assms(4) by (simp_all add: keys_sim_def)
  note laws = redis_incr [OF assms(1) counter]
  show ?thesis
  proof (cases "in64 (n + 1)")
    case False
    then show ?thesis using laws(3) assms(3,4)
      by (simp add: CreateApiKey_def incr_def no_faults_def)
  next
    case True
    obtain r1 where r1: "r_incr (client S) (apiKeysNextIDKey S) r = (Some (n + 1), r1)"
      using laws(1) [OF True] by (cases "r_incr (client S) (apiKeysNextIDKey S) r") simp
    then have snd: "r1 = snd (r_incr (client S) (apiKeysNextIDKey S) r)" by simp
    have c1: "counter_at (client S) r1 (apiKeysNextIDKey S) (n + 1)"
      using laws(2) [OF True] True by (simp add: snd counter_at_def)
    have get1: "k \<noteq> apiKeysNextIDKey S \<Longrightarrow> r_get (client S) r1 k = r_get (client S) r k" for k
      by (simp add: snd redis_get [OF assms(1)])
    let ?k = "stored_key (n + 1) now key"
    have rec: "apiKeyRecordFromKey (key\<lparr>kID := n + 1, kCreatedAt := (if is_zero (kCreatedAt key) then now else kCreatedAt key)\<rparr>)
        = apiKeyRecordFromKey ?k" by (simp add: apiKeyRecordFromKey_def stored_key_def)
    have hash: "akKeyHash (apiKeyRecordFromKey ?k) = kKeyHash key" by (simp add: apiKeyRecordFromKey_def stored_key_def)
    show ?thesis
    proof (cases "marshal J (apiKeyRecordFromKey ?k)")
      case None
      have "keys_sim S J (n + 1, M) r1" by (rule keys_sim_frame [OF assms(4) _ c1]) (simp_all add: get1)
      then show ?thesis using None True r1 assms(3)
        by (simp add: CreateApiKey_def incr_def no_faults_def encodable_def Let_def rec)
    next
      case (Some d)
      have d: "unmarshal J d = Some (apiKeyRecordFromKey ?k)" using codec_okD [OF assms(2) _ Some] assms(5) by simp
      let ?r' = "r_set (client S) (apiKeysHashKey S (kKeyHash key)) (itoa (n + 1))
         (r_sadd (client S) (apiKeysIDsKey S) (itoa (n + 1)) (r_set (client S) (apiKeysKey S (n + 1)) d r1))"
      have "keys_sim S J (n + 1, M(n + 1 \<mapsto> ?k)) ?r'"
      proof (rule keys_sim_write [OF assms(4) _ _ d])
        show "counter_at (client S) ?r' (apiKeysNextIDKey S) (n + 1)" using c1 by (simp add: counter_at_def redis_get [OF assms(1)])
        show "(kKeyHash x = kKeyHash ?k) = (j = n + 1)" if "M j = Some x" for j x
          using assms(7) [OF that] keys_sim_keyD(2) [OF assms(4), of j x] that by simp
      qed (use pos assms(5,6) in \<open>simp_all add: redis_get [OF assms(1)] get1\<close>)
      moreover have "key_step S J (CreateKey now key) r = ?r'"
        using Some r1 assms(3,6) by (simp add: CreateApiKey_def incr_def no_faults_def Let_def rec hash pipeline_def)
      ultimately show ?thesis using Some True by (simp add: encodable_def)
    qed
  qed
qed

lemma change_key_sim:
  assumes "redis_ok (client S)" "codec_ok plain_record J" "keys_sim S J (n, M) r"
    and "\<And>k. kID (f k) = kID k \<and> kKeyFull (f k) = kKeyFull k \<and> kKeyHash (f k) = kKeyHash k \<and> plain_key (f k) = plain_key k"
  shows "keys_sim S J (n, change_key J f i M) (snd (rewrite_key S J no_faults e f i r))"
proof (cases "M i")
  case None
  then show ?thesis using assms(3)
    by (simp add: rewrite_key_def no_faults_def getApiKeyByID_sim [OF assms(3)] change_key_def)
next
  case (Some k)
  note k = keys_sim_keyD [OF assms(3), unfolded snd_conv, OF Some]
  show ?thesis
  proof (cases "marshal J (apiKeyRecordFromKey (f k))")
    case None
    then show ?thesis using assms(3) Some
      by (simp add: rewrite_key_def no_faults_def getApiKeyByID_sim [OF assms(3)] change_key_def encodable_def)
  next
    case m: (Some d)
    have d: "unmarshal J d = Some (apiKeyRecordFromKey (f k))" using codec_okD [OF assms(2) _ m] k(5) assms(4) by simp
    have "keys_sim S J (n, M(i \<mapsto> f k)) (r_set (client S) (apiKeysKey S i) d r)"
    proof (rule keys_sim_write [OF assms(3) _ _ d])
      show "counter_at (client S) (r_set (client S) (apiKeysKey S i) d r) (apiKeysNextIDKey S) n"
        using assms(3) by (simp add: keys_sim_def counter_at_def redis_get [OF assms(1)])
      show "(kKeyHash x = kKeyHash (f k)) = (j = i)" if "M j = Some x" for j x
        using keys_sim_keyD(7) [OF assms(3), of j x] that k(7) assms(4) Some by auto
    qed (use k assms(4) in \<open>simp_all add: redis_get [OF assms(1)]\<close>)
    then show ?thesis using Some m
      by (simp add: rewrite_key_def no_faults_def getApiKeyByID_sim [OF assms(3)] change_key_def encodable_def pipeline_def)
  qed
qed

lemma delete_key_sim:
  assumes "redis_ok (client S)" "configured S" "keys_sim S J (n, M) r"
  shows "keys_sim S J (n, M(i := None)) (snd (DeleteApiKey S J no_faults i r))"
proof (cases "M i")
  case None
  then have "M(i := None) = M" by auto
  then show ?thesis using assms(2,3) None
    by (simp add: DeleteApiKey_def no_faults_def getApiKeyByID_sim [OF assms(3)])
next
  case (Some k)
  note k = keys_sim_keyD [OF assms(3), unfolded snd_conv, OF Some]
  let ?r' = "r_del (client S) (apiKeysHashKey S (kKeyHash k))
     (r_srem (client S) (apiKeysIDsKey S) (itoa i) (r_del (client S) (apiKeysKey S i) r))"
  have r': "snd (DeleteApiKey S J no_faults i r) = ?r'"
    using Some k(1,6) assms(2) by (simp add: DeleteApiKey_def no_faults_def getApiKeyByID_sim [OF assms(3)] pipeline_def)
  have rec: "r_get (client S) ?r' (apiKeysKey S j) = (if j = i then None else r_get (client S) r (apiKeysKey S j))" for j
    by (simp add: redis_get [OF assms(1)])
  have hash: "r_get (client S) ?r' (apiKeysHashKey S h) = (if h = kKeyHash k then None else r_get (client S) r (apiKeysHashKey S h))" for h
    by (simp add: redis_get [OF assms(1)])
  have other: "kKeyHash x \<noteq> kKeyHash k" if "M j = Some x" "j \<noteq> i" for j x
    using keys_sim_keyD(7) [OF assms(3), of j x] that k(7) by auto
  have "0 \<le> n" "counter_at (client S) ?r' (apiKeysNextIDKey S) n"
    using assms(3) by (simp_all add: keys_sim_def counter_at_def redis_get [OF assms(1)])
  moreover have "case (M(i := None)) j of None \<Rightarrow> r_get (client S) ?r' (apiKeysKey S j) = None
          | Some k \<Rightarrow> \<exists>d. r_get (client S) ?r' (apiKeysKey S j) = Some d \<and> unmarshal J d = Some (apiKeyRecordFromKey k)" for j
    using keys_sim_keyD(9) [OF assms(3), of j] keys_sim_None [OF assms(3), of j]
    by (cases "M j") (auto simp: rec)
  moreover have "0 < j \<and> j \<le> n \<and> kID x = j \<and> kKeyFull x = '''' \<and> plain_key x \<and> kKeyHash x \<noteq> ''''
          \<and> r_get (client S) ?r' (apiKeysHashKey S (kKeyHash x)) = Some (itoa j)" if "(M(i := None)) j = Some x" for j x
  proof -
    have "M j = Some x" "j \<noteq> i" using that by (auto split: if_splits)
    then show ?thesis using keys_sim_keyD(1-7) [OF assms(3), of j x] other [of j x] by (simp add: hash)
  qed
  moreover have "\<exists>j x. (M(i := None)) j = Some x \<and> kKeyHash x = h \<and> v = itoa j"
    if "r_get (client S) ?r' (apiKeysHashKey S h) = Some v" for h v
  proof -
    have "h \<noteq> kKeyHash k" "r_get (client S) r (apiKeysHashKey S h) = Some v" using that by (auto simp: hash split: if_splits)
    moreover from this(2) obtain j x where x: "M j = Some x" "kKeyHash x = h" "v = itoa j"
      using assms(3) unfolding keys_sim_def snd_conv by blast
    ultimately have "j \<noteq> i" using Some by auto
    then show ?thesis using x by auto
  qed
  ultimately show ?thesis unfolding r' keys_sim_def fst_conv snd_conv by blast
qed

lemma change_key_hashes:
  assumes "change_key J f i M j = Some x" and "\<And>k. kKeyHash (f k) = kKeyHash k"
  shows "\<exists>k. M j = Some k \<and> kKeyHash k = kKeyHash x"
  using assms by (auto simp: change_key_def split: option.splits if_splits)

lemma key_run_sim:
  assumes "redis_ok (client S)" "codec_ok plain_record J" "configured S"
  shows "keys_sim S J t r \<Longrightarrow> keys_distinct ops \<Longrightarrow>
    (\<forall>i k. snd t i = Some k \<longrightarrow> kKeyHash k \<notin> kKeyHash ` set (List.map_filter op_key ops)) \<Longrightarrow>
    keys_sim S J (fold (key_table_step J) ops t) (fold (key_step S J) ops r)"
proof (induction ops arbitrary: t r)
  case Nil
  then show ?case by simp
next
  case (Cons op ops)
  obtain n M where t: "t = (n, M)" by (cases t)
  let ?H = "kKeyHash ` set (List.map_filter op_key ops)"
  have rest: "keys_distinct ops"
    using Cons.prems(2) by (auto simp: keys_distinct_def Let_def List.map_filter_simps split: option.splits)
  have old: "kKeyHash k \<notin> ?H" if "M i = Some k" for i k
    using Cons.prems(3) that by (auto simp: t List.map_filter_simps split: option.splits)
  have "keys_sim S J (key_table_step J op t) (key_step S J op r) \<and>
      (\<forall>i k. snd (key_table_step J op t) i = Some k \<longrightarrow> kKeyHash k \<notin> ?H)"
  proof (cases op)
    case (CreateKey now key)
    have key: "plain_key key" "kKeyHash key \<noteq> ''''" "kKeyHash key \<notin> ?H"
      using Cons.prems(2) by (auto simp: CreateKey keys_distinct_def Let_def List.map_filter_simps)
    have new: "kKeyHash k \<noteq> kKeyHash key" if "M i = Some k" for i k
      using Cons.prems(3) that by (auto simp: t CreateKey List.map_filter_simps)
    show ?thesis using create_key_sim [OF assms Cons.prems(1) [unfolded t] key(1,2) new] old key(3)
      by (auto simp: t CreateKey split: if_splits)
  next
    case (EnableKey i b)
    have "keys_sim S J (key_table_step J op t) (key_step S J op r)"
    proof (cases "i = 0")
      case True
      then have "M i = None" using keys_sim_keyD(1) [OF Cons.prems(1), of 0] by (cases "M 0") (auto simp: t)
      then show ?thesis using True Cons.prems(1) assms(3) by (simp add: t EnableKey UpdateApiKeyEnabled_def change_key_def)
    next
      case False
      then show ?thesis using change_key_sim [OF assms(1,2) Cons.prems(1) [unfolded t], of "kEnabled_update (\<lambda>_. b)" i "Some NoRows"] assms(3)
        by (simp add: t EnableKey UpdateApiKeyEnabled_def plain_key_def)
    qed
    then show ?thesis using old change_key_hashes [of J "kEnabled_update (\<lambda>_. b)" i M] by (fastforce simp: t EnableKey)
  next
    case (UseKey now i)
    have "keys_sim S J (key_table_step J op t) (key_step S J op r)"
    proof (cases "i = 0")
      case True
      then have "M i = None" using keys_sim_keyD(1) [OF Cons.prems(1), of 0] by (cases "M 0") (auto simp: t)
      then show ?thesis using True Cons.prems(1) assms(3) by (simp add: t UseKey UpdateApiKeyLastUsed_def change_key_def)
    next
      case False
      then show ?thesis using change_key_sim [OF assms(1,2) Cons.prems(1) [unfolded t], of "kLastUsedAt_update (\<lambda>_. Some now)" i None] assms(3)
        by (simp add: t UseKey UpdateApiKeyLastUsed_def plain_key_def)
    qed
    then show ?thesis using old change_key_hashes [of J "kLastUsedAt_update (\<lambda>_. Some now)" i M] by (fastforce simp: t UseKey)
  next
    case (DeleteKey i)
    then show ?thesis using delete_key_sim [OF assms(1,3) Cons.prems(1) [unfolded t]] old
      by (auto simp: t split: if_splits)
  qed
  then show ?case using Cons.IH [OF _ rest] by simp
qed

section \<open>Properties\<close>

lemma fresh_keys_sim: "fresh_keys S r \<Longrightarrow> keys_sim S J (0, \<lambda>i. None) r"
  by (simp add: fresh_keys_def keys_sim_def counter_at_def in64_def)

text \<open>
  Property C19. API keys authenticate by hash: over a server with no keys, any run of creations (with
  hashes of their own), switches, uses and deletions without faults leaves the keys of the
  abstract table, and the lookup of a hash finds exactly the key of the table with that hash (as
  it was last changed), nothing when there is none or it was deleted, and never a plain text.
\<close>

theorem key_lookup_by_hash:
  assumes "redis_ok (client S)" and "codec_ok plain_record J" and "configured S" and "fresh_keys S r" and "keys_distinct ops"
  shows "(\<exists>found. GetApiKeyByHash S J no_faults h (fold (key_step S J) ops r) = Inr found \<and>
      (\<forall>k. found = Some k \<longleftrightarrow> trim_space h \<noteq> '''' \<and> kKeyHash k = trim_space h \<and> snd (key_table J ops) (kID k) = Some k)
      \<and> (case found of None \<Rightarrow> True | Some k \<Rightarrow> kKeyFull k = ''''))"
proof -
  let ?r = "fold (key_step S J) ops r"
  let ?M = "snd (key_table J ops)"
  have sim: "keys_sim S J (key_table J ops) ?r"
    unfolding key_table_def using key_run_sim [OF assms(1-3) fresh_keys_sim [OF assms(4)] assms(5)] by simp
  note key = keys_sim_keyD [OF sim]
  have index: "\<exists>i k. ?M i = Some k \<and> kKeyHash k = h' \<and> v = itoa i"
    if "r_get (client S) ?r (apiKeysHashKey S h') = Some v" for h' v
    using sim that unfolding keys_sim_def by (elim conjE) blast
  show ?thesis
  proof (cases "trim_space h = '''' \<or> r_get (client S) ?r (apiKeysHashKey S (trim_space h)) = None")
    case True
    then have "GetApiKeyByHash S J no_faults h ?r = Inr None"
      using assms(3) by (auto simp: GetApiKeyByHash_def no_faults_def Let_def)
    moreover have "\<not> (trim_space h \<noteq> '''' \<and> kKeyHash k = trim_space h \<and> ?M (kID k) = Some k)" for k
      using True key(7) [of "kID k" k] by auto
    ultimately show ?thesis by auto
  next
    case False
    then obtain v where v: "r_get (client S) ?r (apiKeysHashKey S (trim_space h)) = Some v" by auto
    obtain i k where k: "?M i = Some k" "kKeyHash k = trim_space h" "v = itoa i" using index [OF v] by blast
    have "GetApiKeyByHash S J no_faults h ?r = Inr (Some k)"
      using False v k key(1,8) [OF k(1)] assms(3) getApiKeyByID_sim [OF sim, of i]
      by (simp add: GetApiKeyByHash_def no_faults_def Let_def parse_itoa)
    moreover have "x = k" if "kKeyHash x = trim_space h" "?M (kID x) = Some x" for x
    proof -
      have "itoa (kID x) = itoa i" using key(7) [OF that(2)] key(7) [OF k(1)] that(1) k(2) by simp
      then have "kID x = i" by simp
      then show ?thesis using that(2) k(1) by simp
    qed
    moreover have "?M (kID k) = Some k" "kKeyFull k = ''''" using k(1) key(3,4) [OF k(1)] by simp_all
    ultimately have "GetApiKeyByHash S J no_faults h ?r = Inr (Some k)"
      "\<forall>x. Some k = Some x \<longleftrightarrow> trim_space h \<noteq> '''' \<and> kKeyHash x = trim_space h \<and> ?M (kID x) = Some x"
      "kKeyFull k = ''''" using False k(2) by blast+
    then show ?thesis by (intro exI [of _ "Some k"] conjI) simp_all
  qed
qed

definition key_store :: "server redis_store" where
  "key_store = \<lparr>configured = True, client = map_redis, prefix = ''dabbo:''\<rparr>"

definition sample_key :: api_key where
  "sample_key = \<lparr>kID = 0, kName = ''ci'', kKeyHash = ''9f86'', kKeyFull = ''sk-1'', kKeyPrefix = ''sk'', kKeySuffix = ''1'',
     kEnabled = True, kLastUsedAt = None, kCreatedAt = 5\<rparr>"

definition key_codec :: "api_key_record codec" where
  "key_codec = table_codec [(''k1'', apiKeyRecordFromKey (stored_key 1 5 sample_key)),
     (''k2'', apiKeyRecordFromKey ((stored_key 1 5 sample_key)\<lparr>kEnabled := False\<rparr>))]"

theorem key_lookup_by_hash_witness:
  "\<exists>found. GetApiKeyByHash key_store key_codec no_faults ''9f86''
      (fold (key_step key_store key_codec) [CreateKey 5 sample_key, EnableKey 1 False] []) = Inr (Some found) \<and> \<not> kEnabled found"
proof -
  have ok: "redis_ok (client key_store)" "codec_ok plain_record key_codec" "configured key_store" "fresh_keys key_store []"
    "keys_distinct [CreateKey 5 sample_key, EnableKey 1 False]"
    by (simp_all add: key_store_def map_redis_ok key_codec_def table_codec_ok fresh_keys_def sv_str_def keys_distinct_def
        List.map_filter_simps sample_key_def plain_key_def plain_string_def)
  let ?k = "(stored_key 1 5 sample_key)\<lparr>kEnabled := False\<rparr>"
  have "encodable key_codec (stored_key 1 5 sample_key)" "encodable key_codec ?k"
    by (simp_all add: encodable_def key_codec_def table_codec_def)
  then have "snd (key_table key_codec [CreateKey 5 sample_key, EnableKey 1 False]) 1 = Some ?k"
    by (simp add: key_table_def change_key_def in64_def)
  moreover have "trim_space ''9f86'' = ''9f86''" by (rule trim_space_id) (simp_all add: printable_def)
  moreover have "kKeyHash ?k = ''9f86''" "kID ?k = 1" by (simp_all add: sample_key_def)
  moreover obtain found where f: "GetApiKeyByHash key_store key_codec no_faults ''9f86''
      (fold (key_step key_store key_codec) [CreateKey 5 sample_key, EnableKey 1 False] []) = Inr found"
    and found: "\<And>k. found = Some k \<longleftrightarrow> trim_space ''9f86'' \<noteq> '''' \<and> kKeyHash k = trim_space ''9f86''
      \<and> snd (key_table key_codec [CreateKey 5 sample_key, EnableKey 1 False]) (kID k) = Some k"
    using key_lookup_by_hash [OF ok, of "''9f86''"] by blast
  ultimately have "found = Some ?k" using found [of ?k] by simp
  then show ?thesis using f by simp
qed

text \<open>
  Settings are read back: after a setting was written, a read of its key (up to surrounding
  blanks) returns its value, a read of any other key what it returned before; a key of blanks is
  never stored and reads as empty.
\<close>

theorem setting_read_back:
  assumes "redis_ok (client S)" and "configured S"
  shows "GetSetting S no_faults k' (snd (SetSetting S no_faults k v r))
    = (if trim_space k' = trim_space k \<and> trim_space k \<noteq> '''' then Inr v else GetSetting S no_faults k' r)"
proof -
  have "settingsKey S a = settingsKey S b \<longleftrightarrow> a = b" for a b by (simp add: settingsKey_def)
  then show ?thesis using assms(2)
    by (simp add: GetSetting_def SetSetting_def no_faults_def Let_def pipeline_def redis_get [OF assms(1)])
qed

theorem setting_read_back_witness:
  "GetSetting key_store no_faults ''mode'' (snd (SetSetting key_store no_faults ''mode'' ''fast'' [])) = Inr ''fast''"
proof -
  have "redis_ok (client key_store)" "configured key_store" by (simp_all add: key_store_def map_redis_ok)
  moreover have "trim_space ''mode'' = ''mode''" by (rule trim_space_id) (simp_all add: printable_def)
  ultimately show ?thesis using setting_read_back [of key_store "''mode''" "''mode''" "''fast''" "[]"] by simp
qed

end
