(* ===== verification/Spec2Isabelle.thy ===== *)
theory Spec2Isabelle
  imports Stream_Tools Openai_Chunks Codebuff_Payload Quota_Selection Upstream_Sessions Passthrough Sse_Frame Tier_Properties Error_Properties Session_Registry Token_Cache Rate_Limit
    Concurrency_Limit Auth_Sessions Request_Stores Account_Store Model_Store Key_Store Token_Estimator
begin

text \<open>
  \<^bold>\<open>The program.\<close> A gateway in Go that serves the Anthropic and OpenAI chat interfaces over a pool of
  accounts at several upstreams. A request passes the rate and concurrency limits and the
  authentication of \<open>internal/middleware\<close>, is checked for duplicates (\<open>internal/handler/dedup_store.go\<close>),
  has its model checked against the model store, gets an account from the load balancer
  (\<open>internal/loadbalancer\<close>) and a client from the client cache, and is sent upstream in a retry loop
  (\<open>internal/handler/handler.go\<close>) that classifies errors (\<open>internal/errors\<close>), marks and changes
  accounts, and writes event frames to the caller (\<open>internal/handler/sse_frame.go\<close>). Accounts, models,
  API keys and settings live in Redis (\<open>internal/store\<close>); the configuration comes from a file
  (\<open>internal/config\<close>).

  \<^bold>\<open>Theories.\<close> \<open>Go_Prelude\<close> has the Go library the code uses (strings, decimal numbers, instants and
  durations, 64-bit wrap-around, maps as association lists and the scans over them), \<open>Go_Float\<close> the
  floating-point operations of the limiter and the estimator, \<open>Go_Utf8\<close> the decoding of UTF-8.
  The components, from the bottom up:

  \<^item> \<open>App_Errors\<close>, \<open>Error_Properties\<close>: \<open>errors/errors.go\<close>, \<open>errors/classify.go\<close>, \<open>codebuff/errors.go\<close>; the
    classifiers are functions from error texts to statuses and retry classes.
  \<^item> \<open>Accounts\<close>: the account record of \<open>store/store.go\<close> and the merge of an update.
  \<^item> \<open>Conn_Tracker\<close>, \<open>Load_Balancer\<close>, \<open>Balancer_Laws\<close>, \<open>Balancer_Properties\<close>, \<open>Tier_Properties\<close>:
    \<open>loadbalancer/conn_tracker.go\<close>, \<open>loadbalancer.go\<close>, \<open>tier.go\<close>. The cached account list is the state of
    \<open>lb\<close>; the store below it is a parameter whose laws are a locale, interpreted on a concrete store.
  \<^item> \<open>Session_Registry\<close>: \<open>loadbalancer/session_registry.go\<close>.
  \<^item> \<open>Token_Cache\<close>, \<open>Rate_Limit\<close>, \<open>Concurrency_Limit\<close>, \<open>Auth_Sessions\<close>: \<open>tokencache/memory.go\<close>,
    \<open>prompt_cache.go\<close>, \<open>middleware/ratelimit.go\<close>, \<open>concurrency.go\<close>, \<open>session.go\<close>, \<open>auth/auth.go\<close>.
  \<^item> \<open>Sharded_Map\<close>, \<open>Request_Stores\<close>: \<open>handler/sharded_map.go\<close>, \<open>dedup_store.go\<close>, \<open>session_store.go\<close>.
  \<^item> \<open>Redis_Server\<close>: the commands the stores send, as the operations of a parameter server with their
    documented laws as a locale, a concrete server that satisfies them, and the schedule of failing
    round trips. \<open>Account_Store\<close>, \<open>Model_Store\<close>, \<open>Key_Store\<close>: \<open>store/redis_store.go\<close>, \<open>store.go\<close>,
    \<open>model.go\<close> over it.
  \<^item> \<open>Token_Estimator\<close>: \<open>tiktoken/tokenizer.go\<close>.
  \<^item> \<open>Configuration\<close>: \<open>config/config.go\<close>.
  \<^item> \<open>Client_Cache\<close>: \<open>handler/client_cache.go\<close>, as functions and as interleaved goroutines, for clients with
    and without a \<open>Close\<close> method.
  \<^item> \<open>Handler_Select\<close>, \<open>Retry_Loop\<close>, \<open>Passthrough\<close>: \<open>handler/handler_helpers.go\<close> and the two request
    loops of \<open>handler.go\<close>; what is outside in a round (the upstream's answer, the clock, the
    cancellation, what a selection reads) is a record per attempt.
  \<^item> \<open>Codebuff_Models\<close>, \<open>Quota_Store\<close>, \<open>Upstream_Sessions\<close>: \<open>codebuff/models.go\<close>, \<open>quotastore.go\<close>,
    \<open>session.go\<close>, over \<open>Expiring_Redis\<close>, the commands with a time to live as a locale with a concrete
    server. \<open>EnsureSession\<close> is a step relation of many processes with time passing between the steps.
    \<open>Quota_Selection\<close> composes the quota store with the selection of accounts: a recorded block acts as if its
    account had failed already, and on nothing else.
  \<^item> \<open>Codebuff_Stream\<close>: the answers of the codebuff upstream (\<open>codebuff/payload.go\<close>, \<open>provider.go\<close>), decoded
    into messages or passed on as they are, and what arrives of them in the stream handler.
    \<open>Codebuff_Telemetry\<close>: \<open>telemetry.go\<close> over \<open>Counter_Redis\<close>, hashes, sorted sets and counters as a locale with
    a concrete server; a call to the store takes one instant. \<open>Codebuff_Provider\<close>: the cycles of session and
    chat of one request and the runs around them, as a list of actions. \<open>Codebuff_Payload\<close>: the message types
    of \<open>prompt/prompt.go\<close>, the payload that is built of a request (\<open>payload.go\<close>) and the advertisements.
  \<^item> \<open>Sse_Frame\<close>: \<open>handler/sse_frame.go\<close>, with \<open>encoding/json\<close>'s quoting, written by code point and apart from
    the tables of the code, and a reader of compact JSON as references.
  \<^item> \<open>Tool_Inputs\<close>: \<open>toolname/toolname.go\<close> and the checks of tool calls in \<open>handler/stream_handler.go\<close>.
    \<open>Stream_State\<close>: the \<open>streamHandler\<close> there as a record of records, its writes as a log in which every
    write carries whether it got through, its blocks, tool calls, token counts and the end of a
    response. \<open>Stream_Messages\<close>: \<open>handleMessage\<close>, one definition per group of message types.
    \<open>Openai_Chunks\<close>: \<open>adapter/openai_sse.go\<close>, the chunks of an OpenAI stream, with the JSON library of its
    slow path as a locale. \<open>Stream_Wellformed\<close>: a reader of the Anthropic protocol and the attempts of one request on one
    handler. \<open>Stream_Tools\<close>: what a response says of tool calls. \<open>Go_Any\<close> has decoded JSON values and the
    path functions of the library.

  \<^bold>\<open>What the lemmas show.\<close> The stores refine abstract tables on runs without faults and keep their
  invariants under any faults; the caches and registries keep their size accounting and lifetimes; the
  limiters are safe in every interleaving; the load balancer hands out admissible accounts only,
  with least connections, and reports exhaustion exactly when it is so; the request loops make a
  bounded number of calls, never return to an account they left, return every connection and tell
  the client about every error, with the exceptions that are proved as faults; a loaded configuration keeps
  what its file sets and completes the rest; event frames read
  back as the documents they stand for, and their sequence in the Anthropic format is a well-formed message when the
  upstream sends no events of that format itself and no finished attempt is retried; in both formats every tool
  call comes once. Faults that the proofs uncovered are among the findings of the manifest.

  \<^bold>\<open>Bounds.\<close> Go's \<open>int\<close> and \<open>int64\<close> are \<open>int\<close>, wrapped by \<open>wrap64\<close> where the code can overflow; the range
  is a hypothesis (\<open>in64\<close>) where a statement needs it. Loops are structural or have a measure; the retry
  loops recurse on the number of retries that remain. The JSON reader has a depth bound, and twice the
  length of the text is proved to be enough. Instants are nanoseconds and durations saturate as in Go.

  \<^bold>\<open>Not modelled.\<close> HTTP and Redis input and output themselves, logging, metrics and tracing; the decoding
  of request bodies (\<open>req\<close>); the rewriting of tool inputs for the client (a
  parameter of the stream handler); the HTTP clients of the upstreams (\<open>puter\<close>, \<open>kimchi\<close>, \<open>codebuff\<close>) and the
  admin interface (\<open>api\<close>), which are input and output around the parts above; the command line programs.
\<close>

end
